(* ===== verification/AMQ_Prelude.thy ===== *)
theory AMQ_Prelude
  imports Main "HOL-Library.Word" "HOL-Library.Multiset"
begin

text \<open>
  Shared vocabulary of the development: the exceptions of the C++ code as values, the result
  type and its sequencing, the catch-and-convert macros, the C++ standard library functions the
  modelled code calls (\<open>std::to_string\<close>, \<open>std::stoll\<close>, \<open>std::string::rfind\<close>), and generic
  lemmas on lists, results and words that the components share.
\<close>

unbundle bit_operations_syntax

named_theorems amq_defs \<open>definitions unfolded by the component proofs\<close>
named_theorems amq_inv \<open>preservation of component invariants\<close>

section \<open>Exceptions and results\<close>

text \<open>
  The exception classes the modelled code throws. \<open>MemoryFault\<close> is no exception of the program: it
  marks an access outside an allocated array or vector, which C++ leaves undefined; no catch clause
  sees it. \<open>StdException\<close> stands for the exceptions of the standard library
  (\<open>std::invalid_argument\<close>, \<open>std::out_of_range\<close>).
\<close>

datatype exn =
    IOException
  | EOFException
  | UTFDataFormatException
  | NullPointerException
  | IndexOutOfBoundsException
  | IllegalArgumentException
  | IllegalStateException
  | NegativeArraySizeException
  | NoSuchElementException
  | NumberFormatException
  | ActiveMQException
  | CMSException
  | CMSIllegalStateException
  | TransactionInProgressException
  | TransactionRolledBackException
  | StdException
  | MemoryFault

type_synonym 'a result = "exn + 'a"

abbreviation Throw :: "exn \<Rightarrow> 'a result" where
  "Throw \<equiv> Inl"

abbreviation Ok :: "'a \<Rightarrow> 'a result" where
  "Ok \<equiv> Inr"

definition rbind :: "'a result \<Rightarrow> ('a \<Rightarrow> 'b result) \<Rightarrow> 'b result" where
  "rbind r f = (case r of Inl e \<Rightarrow> Inl e | Inr x \<Rightarrow> f x)"

lemma rbind_simps [simp]:
  "rbind (Ok x) f = f x"
  "rbind (Throw e) f = Throw e"
  by (simp_all add: rbind_def)

lemma rbind_Ok_iff: "rbind r f = Ok y \<longleftrightarrow> (\<exists>x. r = Ok x \<and> f x = Ok y)"
  by (cases r) simp_all

lemma rbind_assoc: "rbind (rbind r f) g = rbind r (\<lambda>x. rbind (f x) g)"
  by (cases r) simp_all

text \<open>
  \<open>IOException\<close> is the base class of \<open>EOFException\<close> and \<open>UTFDataFormatException\<close>. The block
  \<open>AMQ_CATCH_RETHROW(IOException) AMQ_CATCH_EXCEPTION_CONVERT(Exception, IOException)
  AMQ_CATCHALL_THROW(IOException)\<close> (and its \<open>DECAF\<close> twin) rethrows these three unchanged and turns
  every other exception into an \<open>IOException\<close>.
\<close>

definition io_convert :: "exn \<Rightarrow> exn" where
  "io_convert e =
     (if e \<in> {IOException, EOFException, UTFDataFormatException, MemoryFault} then e
      else IOException)"

definition catch_io :: "'a result \<Rightarrow> 'a result" where
  "catch_io r = (case r of Inl e \<Rightarrow> Inl (io_convert e) | Inr x \<Rightarrow> Inr x)"

lemma catch_io_simps [simp]:
  "catch_io (Ok x) = Ok x"
  "catch_io (Throw e) = Throw (io_convert e)"
  by (simp_all add: catch_io_def)

lemma catch_io_Ok_iff [simp]: "catch_io r = Ok x \<longleftrightarrow> r = Ok x"
  by (cases r) simp_all

lemma io_convert_idem [simp]: "io_convert (io_convert e) = io_convert e"
  by (simp add: io_convert_def)

lemma catch_io_idem [simp]: "catch_io (catch_io r) = catch_io r"
  by (cases r) simp_all

section \<open>Arrays with checked access\<close>

text \<open>Reading and writing \<open>a[i]\<close> with a C++ \<open>int\<close> index: outside the array it is a \<open>MemoryFault\<close>.\<close>

definition arr_get :: "'a list \<Rightarrow> int \<Rightarrow> 'a result" where
  "arr_get xs i = (if 0 \<le> i \<and> i < int (length xs) then Ok (xs ! nat i) else Throw MemoryFault)"

definition arr_set :: "'a list \<Rightarrow> int \<Rightarrow> 'a \<Rightarrow> 'a list result" where
  "arr_set xs i v = (if 0 \<le> i \<and> i < int (length xs) then Ok (xs[nat i := v]) else Throw MemoryFault)"

lemma arr_get_nat [simp]: "i < length xs \<Longrightarrow> arr_get xs (int i) = Ok (xs ! i)"
  by (simp add: arr_get_def)

lemma arr_set_nat [simp]: "i < length xs \<Longrightarrow> arr_set xs (int i) v = Ok (xs[i := v])"
  by (simp add: arr_set_def)

section \<open>The standard library's decimal strings\<close>

definition digit_char :: "nat \<Rightarrow> char" where
  "digit_char d = char_of (48 + d)"

definition char_digit :: "char \<Rightarrow> nat option" where
  "char_digit c = (let n = of_char c :: nat in if 48 \<le> n \<and> n \<le> 57 then Some (n - 48) else None)"

fun nat_string :: "nat \<Rightarrow> string" where
  "nat_string n =
     (if n < 10 then [digit_char n] else nat_string (n div 10) @ [digit_char (n mod 10)])"

declare nat_string.simps [simp del]

text \<open>\<open>std::to_string(long long)\<close>\<close>

definition to_string :: "int \<Rightarrow> string" where
  "to_string i = (if i < 0 then CHR ''-'' # nat_string (nat (- i)) else nat_string (nat i))"

text \<open>\<open>isspace\<close> in the C locale: space and the characters 9 to 13.\<close>

definition is_space :: "char \<Rightarrow> bool" where
  "is_space c = (let n = of_char c :: nat in n = 32 \<or> (9 \<le> n \<and> n \<le> 13))"

text \<open>The value of the longest digit prefix, continuing from \<open>acc\<close>; \<open>None\<close> when there is no digit.\<close>

fun digits_prefix :: "nat option \<Rightarrow> string \<Rightarrow> nat option" where
  "digits_prefix acc [] = acc"
| "digits_prefix acc (c # cs) =
     (case char_digit c of
        None \<Rightarrow> acc
      | Some d \<Rightarrow> digits_prefix (Some ((case acc of None \<Rightarrow> 0 | Some a \<Rightarrow> a) * 10 + d)) cs)"

definition LLONG_MAX :: int where "LLONG_MAX = 2 ^ 63 - 1"
definition LLONG_MIN :: int where "LLONG_MIN = - (2 ^ 63)"

definition llong_range :: "int \<Rightarrow> bool" where
  "llong_range i \<longleftrightarrow> LLONG_MIN \<le> i \<and> i \<le> LLONG_MAX"

text \<open>
  \<open>std::stoll\<close>: leading white space, an optional sign, at least one digit
  (\<open>std::invalid_argument\<close> otherwise), the rest ignored; \<open>std::out_of_range\<close> beyond
  \<open>long long\<close>.
\<close>

definition stoll :: "string \<Rightarrow> int result" where
  "stoll s =
     (let t = dropWhile is_space s;
          neg = (t \<noteq> [] \<and> hd t = CHR ''-'');
          u = (if t \<noteq> [] \<and> hd t \<in> {CHR ''-'', CHR ''+''} then tl t else t)
      in case digits_prefix None u of
           None \<Rightarrow> Throw StdException
         | Some n \<Rightarrow>
             (let v = (if neg then - int n else int n)
              in if llong_range v then Ok v else Throw StdException))"

text \<open>\<open>std::string::rfind\<close> (and \<open>find_last_of\<close>) of one character; \<open>None\<close> is \<open>npos\<close>.\<close>

fun rfind :: "char \<Rightarrow> string \<Rightarrow> nat option" where
  "rfind c [] = None"
| "rfind c (x # xs) =
     (case rfind c xs of
        Some i \<Rightarrow> Some (Suc i)
      | None \<Rightarrow> (if x = c then Some 0 else None))"

text \<open>\<open>std::string::find_first_of\<close> of a set of characters.\<close>

fun find_first_of :: "string \<Rightarrow> string \<Rightarrow> nat option" where
  "find_first_of cs [] = None"
| "find_first_of cs (x # xs) =
     (if x \<in> set cs then Some 0 else map_option Suc (find_first_of cs xs))"

lemma char_digit_digit_char [simp]: "d < 10 \<Longrightarrow> char_digit (digit_char d) = Some d"
  by (simp add: char_digit_def digit_char_def)

lemma digits_prefix_append_digit:
  assumes "\<forall>c \<in> set cs. char_digit c \<noteq> None" "d < 10" "cs \<noteq> []"
  shows "digits_prefix acc (cs @ [digit_char d]) =
    map_option (\<lambda>n. n * 10 + d) (digits_prefix acc cs)"
  using assms
proof (induction cs arbitrary: acc)
  case Nil
  then show ?case by simp
next
  case (Cons c cs)
  then show ?case by (cases "cs = []") auto
qed

lemma nat_string_digits: "c \<in> set (nat_string n) \<Longrightarrow> \<exists>d < 10. c = digit_char d"
proof (induction n rule: nat_string.induct)
  case (1 n)
  show ?case
  proof (cases "n < 10")
    case True
    with "1.prems" show ?thesis by (auto simp: nat_string.simps [of n])
  next
    case False
    with "1.prems" have "c \<in> set (nat_string (n div 10)) \<or> c = digit_char (n mod 10)"
      by (auto simp: nat_string.simps [of n])
    then show ?thesis using "1.IH" [OF False] by (auto intro: exI [of _ "n mod 10"])
  qed
qed

lemma nat_string_nonempty [simp]: "nat_string n \<noteq> []"
  by (subst nat_string.simps) simp

lemma digits_prefix_nat_string [simp]: "digits_prefix None (nat_string n) = Some n"
proof (induction n rule: nat_string.induct)
  case (1 n)
  show ?case
  proof (cases "n < 10")
    case True
    then show ?thesis by (simp add: nat_string.simps [of n])
  next
    case False
    have "\<forall>c \<in> set (nat_string (n div 10)). char_digit c \<noteq> None"
      by (auto dest: nat_string_digits)
    with "1.IH" [OF False] False show ?thesis
      by (simp add: nat_string.simps [of n] digits_prefix_append_digit)
  qed
qed

lemma of_char_digit_char: "d < 10 \<Longrightarrow> of_char (digit_char d) = (48 + d :: nat)"
  by (simp add: digit_char_def)

lemma digit_char_neq: "d < 10 \<Longrightarrow> of_char c < (48 :: nat) \<or> 57 < (of_char c :: nat) \<Longrightarrow> digit_char d \<noteq> c"
  using of_char_digit_char by fastforce

lemma digit_char_props:
  assumes "d < 10"
  shows "\<not> is_space (digit_char d)" "digit_char d \<noteq> CHR ''-''" "digit_char d \<noteq> CHR ''+''"
    "digit_char d \<noteq> CHR '':''"
  using assms digit_char_neq [OF assms, of "CHR ''-''"] digit_char_neq [OF assms, of "CHR ''+''"]
    digit_char_neq [OF assms, of "CHR '':''"]
  by (simp_all add: is_space_def of_char_digit_char)

lemma nat_string_hd: "\<exists>d < 10. hd (nat_string n) = digit_char d"
  using nat_string_digits [of "hd (nat_string n)" n] by simp

lemma dropWhile_hd: "xs \<noteq> [] \<Longrightarrow> \<not> P (hd xs) \<Longrightarrow> dropWhile P xs = xs"
  by (cases xs) auto

text \<open>Printing a \<open>long long\<close> and reading it back gives the number.\<close>

lemma stoll_to_string [simp]:
  assumes "llong_range i"
  shows "stoll (to_string i) = Ok i"
proof -
  obtain d where d: "d < 10" "hd (nat_string (nat i)) = digit_char d"
    using nat_string_hd by blast
  have pos: "dropWhile is_space (nat_string (nat i)) = nat_string (nat i)"
    using d digit_char_props [of d] by (intro dropWhile_hd) auto
  have minus: "\<not> is_space (CHR ''-'')" by (simp add: is_space_def)
  show ?thesis
    using assms d digit_char_props [of d]
    by (cases "i < 0") (auto simp: stoll_def to_string_def pos minus Let_def)
qed

lemma to_string_no_colon [simp]: "CHR '':'' \<notin> set (to_string i)"
  using nat_string_digits digit_char_props(4)
  by (fastforce simp: to_string_def split: if_splits)

lemma to_string_nonempty [simp]: "to_string i \<noteq> []"
  by (simp add: to_string_def)

lemma rfind_None_iff: "rfind c xs = None \<longleftrightarrow> c \<notin> set xs"
  by (induction xs) (auto split: option.splits)

lemma rfind_last [simp]: "c \<notin> set ys \<Longrightarrow> rfind c (xs @ c # ys) = Some (length xs)"
proof (induction xs)
  case Nil
  then show ?case using rfind_None_iff [of c ys] by simp
next
  case (Cons x xs)
  then show ?case by simp
qed

end
