(* ===== verification/Identifiers.thy ===== *)
theory Identifiers
  imports AMQ_Prelude
begin

text \<open>
  The identifiers of the client: \<open>activemq/commands/ProducerId.cpp\<close>, \<open>MessageId.cpp\<close> and the
  generator of connection and client ids \<open>activemq/util/IdGenerator.cpp\<close>. Parsing and printing are
  the code's own string operations. The \<open>long long\<close> fields are \<open>int\<close>s; \<open>llong_range\<close> is the
  range the C++ type allows. The host name, the local port and the clock that \<open>IdGeneratorKernel\<close>
  asks the operating system for are fields of its record.
\<close>

section \<open>ProducerId and MessageId\<close>

record producer_id =
  connectionId :: string
  pid_value :: int
  sessionId :: int

record message_id =
  textView :: string
  producerId :: "producer_id option"
  producerSequenceId :: int
  brokerSequenceId :: int
  mid_key :: string

text \<open>\<open>catch (const std::invalid_argument&) ... catch (const std::out_of_range&)\<close> around \<open>std::stoll\<close>\<close>

definition nfe :: "int result \<Rightarrow> int result" where
  "nfe r = (case r of Inl e \<Rightarrow> Throw (if e = StdException then NumberFormatException else e) | Inr i \<Rightarrow> Ok i)"

definition ProducerId_toString :: "producer_id \<Rightarrow> string" where
  "ProducerId_toString p =
     connectionId p @ '':'' @ to_string (sessionId p) @ '':'' @ to_string (pid_value p)"

definition setProducerSessionKey :: "string \<Rightarrow> producer_id \<Rightarrow> producer_id result" where
  "setProducerSessionKey sessionKey p =
     (case rfind CHR '':'' sessionKey of
        None \<Rightarrow> Ok (p\<lparr>connectionId := sessionKey\<rparr>)
      | Some i \<Rightarrow>
          rbind (nfe (stoll (drop (Suc i) sessionKey)))
            (\<lambda>s. Ok (p\<lparr>sessionId := s, connectionId := take i sessionKey\<rparr>)))"

text \<open>The constructor \<open>ProducerId(std::string producerKey)\<close>\<close>

definition ProducerId_ofKey :: "string \<Rightarrow> producer_id result" where
  "ProducerId_ofKey producerKey =
     (let p = \<lparr>connectionId = [], pid_value = 0, sessionId = 0\<rparr>
      in case rfind CHR '':'' producerKey of
           None \<Rightarrow> setProducerSessionKey producerKey p
         | Some i \<Rightarrow>
             rbind (nfe (stoll (drop (Suc i) producerKey)))
               (\<lambda>v. setProducerSessionKey (take i producerKey) (p\<lparr>pid_value := v\<rparr>)))"

definition ProducerId_equals :: "producer_id \<Rightarrow> producer_id \<Rightarrow> bool" where
  "ProducerId_equals a b \<longleftrightarrow>
     \<not> connectionId a \<noteq> connectionId b \<and> \<not> pid_value a \<noteq> pid_value b \<and> \<not> sessionId a \<noteq> sessionId b"

text \<open>
  \<open>MessageId::toString\<close> caches its answer in the mutable \<open>key\<close>: it returns the string and the
  object with the cache filled. Following a null \<open>producerId\<close> is undefined behaviour.
\<close>

definition MessageId_toString :: "message_id \<Rightarrow> (string \<times> message_id) result" where
  "MessageId_toString m =
     (if mid_key m \<noteq> [] then Ok (mid_key m, m)
      else if textView m \<noteq> [] then
        (let k = (if find_first_of ''ID:'' (textView m) = Some 0 then textView m
                  else ''ID:'' @ textView m)
         in Ok (k, m\<lparr>mid_key := k\<rparr>))
      else (case producerId m of
              None \<Rightarrow> Throw MemoryFault
            | Some p \<Rightarrow>
                (let k = ProducerId_toString p @ '':'' @ to_string (producerSequenceId m)
                 in Ok (k, m\<lparr>mid_key := k\<rparr>))))"

definition MessageId_setValue :: "string \<Rightarrow> message_id \<Rightarrow> message_id result" where
  "MessageId_setValue key m =
     (case rfind CHR '':'' key of
        None \<Rightarrow> rbind (ProducerId_ofKey key) (\<lambda>p. Ok (m\<lparr>producerId := Some p, mid_key := key\<rparr>))
      | Some i \<Rightarrow>
          rbind (nfe (stoll (drop (Suc i) key))) (\<lambda>s.
          rbind (ProducerId_ofKey (take i key)) (\<lambda>p.
          Ok (m\<lparr>producerSequenceId := s, producerId := Some p, mid_key := take i key\<rparr>))))"

definition MessageId_new :: message_id where
  "MessageId_new =
     \<lparr>textView = [], producerId = None, producerSequenceId = 0, brokerSequenceId = 0, mid_key = []\<rparr>"

text \<open>The constructor \<open>MessageId(const std::string& messageKey)\<close>\<close>

definition MessageId_ofKey :: "string \<Rightarrow> message_id result" where
  "MessageId_ofKey key = MessageId_setValue key MessageId_new"

section \<open>IdGenerator\<close>

record id_kernel =
  UNIQUE_STUB :: string
  instanceCount :: int
  hostname :: string

record id_generator =
  prefix :: string
  seed :: string
  sequence :: int

text \<open>
  \<open>IdGeneratorKernel::IdGeneratorKernel\<close>, given what the system answers: the host name and the port
  of the probe socket (or \<open>None\<close> when asking failed) and the clock.
\<close>

definition IdGeneratorKernel_new :: "(string \<times> int) option \<Rightarrow> int \<Rightarrow> id_kernel" where
  "IdGeneratorKernel_new sys now =
     (case sys of
        Some (host, port) \<Rightarrow>
          \<lparr>UNIQUE_STUB = ''-'' @ to_string port @ ''-'' @ to_string now @ ''-'',
           instanceCount = 0, hostname = host\<rparr>
      | None \<Rightarrow>
          \<lparr>UNIQUE_STUB = ''-1-'' @ to_string now @ ''-'', instanceCount = 0, hostname = ''localhost''\<rparr>)"

definition IdGenerator_new :: "string \<Rightarrow> id_generator" where
  "IdGenerator_new pre = \<lparr>prefix = pre, seed = [], sequence = 0\<rparr>"

text \<open>\<open>IdGenerator::generateId\<close>; \<open>kern\<close> is the static member \<open>kernel\<close>, \<open>None\<close> before the library is initialised.\<close>

definition generateId :: "id_kernel option \<Rightarrow> id_generator \<Rightarrow> (string \<times> id_kernel \<times> id_generator) result" where
  "generateId kern g =
     (case kern of
        None \<Rightarrow> Throw IllegalStateException
      | Some k \<Rightarrow>
          (let (k', g') =
             (if seed g = [] then
                (k\<lparr>instanceCount := instanceCount k + 1\<rparr>,
                 g\<lparr>seed := (if prefix g = [] then ''ID:'' @ hostname k else prefix g)
                            @ UNIQUE_STUB k @ to_string (instanceCount k) @ '':''\<rparr>)
              else (k, g))
           in Ok (seed g' @ to_string (sequence g'), k', g'\<lparr>sequence := sequence g' + 1\<rparr>)))"

definition getSeedFromId :: "string \<Rightarrow> string" where
  "getSeedFromId ident =
     (case rfind CHR '':'' ident of
        Some i \<Rightarrow> (if i + 1 < length ident then take (i + 1) ident else ident)
      | None \<Rightarrow> ident)"

definition getSequenceFromId :: "string \<Rightarrow> int result" where
  "getSequenceFromId ident =
     (case rfind CHR '':'' ident of
        Some i \<Rightarrow> (if i + 1 < length ident then stoll (drop (i + 1) ident) else Ok (-1))
      | None \<Rightarrow> Ok (-1))"

text \<open>A run: the generators called in turn, each call on the shared kernel.\<close>

fun generate_run :: "nat list \<Rightarrow> id_kernel \<Rightarrow> (nat \<Rightarrow> id_generator) \<Rightarrow> string list result" where
  "generate_run [] k gs = Ok []"
| "generate_run (i # is) k gs =
     rbind (generateId (Some k) (gs i)) (\<lambda>(s, k', g').
     rbind (generate_run is k' (gs(i := g'))) (\<lambda>ss. Ok (s # ss)))"

section \<open>Parsing inverts printing\<close>

lemma nfe_Ok [simp]: "nfe (Ok i) = Ok i"
  by (simp add: nfe_def)

lemma rfind_key [simp]: "rfind CHR '':'' (xs @ CHR '':'' # to_string i) = Some (length xs)"
  by (rule rfind_last) simp

lemma ProducerId_ofKey_toString:
  assumes "llong_range (sessionId p)" "llong_range (pid_value p)"
  shows "ProducerId_ofKey (ProducerId_toString p) = Ok p"
proof -
  let ?s = "connectionId p @ CHR '':'' # to_string (sessionId p)"
  have key: "ProducerId_toString p = ?s @ CHR '':'' # to_string (pid_value p)"
    by (simp add: ProducerId_toString_def)
  show ?thesis
    unfolding key ProducerId_ofKey_def rfind_key using assms
    by (simp add: setProducerSessionKey_def Let_def)
qed

text \<open>
  \<^bold>\<open>C34.\<close> Reading a producer id back from the string it prints as gives the same producer id, whatever
  the connection id holds (colons included), for all \<open>long long\<close> session and producer numbers.
\<close>

theorem producer_id_roundtrip:
  assumes "llong_range (sessionId p)" "llong_range (pid_value p)"
  shows "ProducerId_ofKey (ProducerId_toString p) = Ok p"
  by (rule ProducerId_ofKey_toString [OF assms])

theorem producer_id_roundtrip_witness:
  "ProducerId_ofKey (ProducerId_toString \<lparr>connectionId = ''ID:h-1:2'', pid_value = 7, sessionId = -3\<rparr>)
     = Ok \<lparr>connectionId = ''ID:h-1:2'', pid_value = 7, sessionId = -3\<rparr>"
  by (rule producer_id_roundtrip) (simp_all add: llong_range_def LLONG_MIN_def LLONG_MAX_def)

text \<open>
  A message id built from the key \<open><producer>:<sequence>\<close> holds the right producer and
  sequence number, but its cached key, and so what \<open>toString\<close> answers, is the producer's part alone:
  \<open>MessageId::setValue\<close> stores the key after cutting the sequence number off, so all messages of one
  producer that were read from their keys print alike.
\<close>

theorem message_id_from_key_loses_sequence:
  assumes "llong_range (sessionId p)" "llong_range (pid_value p)" "llong_range s"
  shows "\<exists>m. MessageId_ofKey (ProducerId_toString p @ '':'' @ to_string s) = Ok m
    \<and> producerId m = Some p \<and> producerSequenceId m = s
    \<and> MessageId_toString m = Ok (ProducerId_toString p, m)"
proof -
  let ?k = "ProducerId_toString p"
  let ?m = "MessageId_new\<lparr>producerSequenceId := s, producerId := Some p, mid_key := ?k\<rparr>"
  have "MessageId_ofKey (?k @ '':'' @ to_string s) = Ok ?m"
    using assms by (simp add: MessageId_ofKey_def MessageId_setValue_def ProducerId_ofKey_toString)
  moreover have "?k \<noteq> []" by (simp add: ProducerId_toString_def)
  ultimately show ?thesis by (simp add: MessageId_toString_def)
qed

theorem message_id_from_key_loses_sequence_witness:
  "\<exists>m. MessageId_ofKey (ProducerId_toString \<lparr>connectionId = ''c'', pid_value = 1, sessionId = 1\<rparr> @ '':'' @ to_string 42) = Ok m
    \<and> producerId m = Some \<lparr>connectionId = ''c'', pid_value = 1, sessionId = 1\<rparr> \<and> producerSequenceId m = 42
    \<and> MessageId_toString m = Ok (ProducerId_toString \<lparr>connectionId = ''c'', pid_value = 1, sessionId = 1\<rparr>, m)"
  by (rule message_id_from_key_loses_sequence)
    (simp_all add: llong_range_def LLONG_MIN_def LLONG_MAX_def)

section \<open>Generated ids are unique\<close>

text \<open>What a printed number reads as, without the range check of \<open>stoll\<close>.\<close>

definition read_number :: "string \<Rightarrow> int" where
  "read_number s =
     (if hd s = CHR ''-'' then - int (the (digits_prefix None (tl s)))
      else int (the (digits_prefix None s)))"

lemma read_number_to_string [simp]: "read_number (to_string i) = i"
proof -
  have "hd (nat_string (nat i)) \<noteq> CHR ''-''"
    using nat_string_hd [of "nat i"] digit_char_props(2) by metis
  then show ?thesis by (simp add: read_number_def to_string_def)
qed

lemma to_string_inj: "to_string i = to_string j \<Longrightarrow> i = j"
  by (metis read_number_to_string)

lemma to_string_nonneg_no_dash: "0 \<le> n \<Longrightarrow> CHR ''-'' \<notin> set (to_string n)"
  using nat_string_digits digit_char_props(2) by (fastforce simp: to_string_def)

text \<open>
  An id is \<open><prefix><stub>-<instance>:<sequence>\<close>. \<open>seed_num\<close> reads the instance number out of a seed,
  \<open>id_tag\<close> the instance and sequence number out of an id.
\<close>

definition seed_num :: "string \<Rightarrow> int" where
  "seed_num sd = (case rfind CHR ''-'' sd of None \<Rightarrow> 0 | Some i \<Rightarrow> read_number (butlast (drop (Suc i) sd)))"

definition id_tag :: "string \<Rightarrow> int \<times> int" where
  "id_tag ident =
     (case rfind CHR '':'' ident of
        None \<Rightarrow> (0, 0)
      | Some i \<Rightarrow> (seed_num (take (Suc i) ident), read_number (drop (Suc i) ident)))"

definition well_seeded :: "string \<Rightarrow> int \<Rightarrow> bool" where
  "well_seeded sd n \<longleftrightarrow> 0 \<le> n \<and> (\<exists>x. sd = x @ ''-'' @ to_string n @ '':'')"

lemma seed_num_well_seeded:
  assumes "well_seeded sd n"
  shows "seed_num sd = n"
proof -
  obtain x where x: "sd = x @ CHR ''-'' # (to_string n @ '':'')" and n: "0 \<le> n"
    using assms by (auto simp: well_seeded_def)
  have "rfind CHR ''-'' sd = Some (length x)"
    unfolding x by (rule rfind_last) (simp add: to_string_nonneg_no_dash [OF n])
  then show ?thesis by (simp add: seed_num_def x butlast_append)
qed

lemma id_tag_seed:
  assumes "well_seeded sd n"
  shows "id_tag (sd @ to_string s) = (n, s)"
proof -
  obtain x where x: "sd = x @ ''-'' @ to_string n @ '':''"
    using assms by (auto simp: well_seeded_def)
  let ?y = "x @ CHR ''-'' # to_string n"
  have id: "sd @ to_string s = ?y @ CHR '':'' # to_string s" by (simp add: x)
  have "take (Suc (length ?y)) (sd @ to_string s) = sd" by (simp add: x)
  moreover have "drop (Suc (length ?y)) (sd @ to_string s) = to_string s" by (simp add: x)
  ultimately show ?thesis
    using rfind_key [of ?y s] seed_num_well_seeded [OF assms] by (simp add: id_tag_def id)
qed

definition gen_inv :: "id_kernel \<Rightarrow> (nat \<Rightarrow> id_generator) \<Rightarrow> bool" where
  "gen_inv k gs \<longleftrightarrow>
     (\<exists>x. UNIQUE_STUB k = x @ ''-'') \<and> 0 \<le> instanceCount k
     \<and> (\<forall>i. seed (gs i) \<noteq> [] \<longrightarrow> (\<exists>n < instanceCount k. well_seeded (seed (gs i)) n))
     \<and> (\<forall>i j. seed (gs i) \<noteq> [] \<longrightarrow> seed (gs j) \<noteq> [] \<longrightarrow> seed_num (seed (gs i)) = seed_num (seed (gs j)) \<longrightarrow> i = j)"

text \<open>The tags generator \<open>gs i\<close> of a state can still issue, and the tags of generators yet to be seeded.\<close>

definition fresh_tag :: "id_kernel \<Rightarrow> (nat \<Rightarrow> id_generator) \<Rightarrow> int \<times> int \<Rightarrow> bool" where
  "fresh_tag k gs t \<longleftrightarrow>
     instanceCount k \<le> fst t
     \<or> (\<exists>i. seed (gs i) \<noteq> [] \<and> fst t = seed_num (seed (gs i)) \<and> sequence (gs i) \<le> snd t)"

text \<open>What one call does to the state, on a generator that has its seed and on one that has not.\<close>

definition id_step :: "id_kernel \<Rightarrow> (nat \<Rightarrow> id_generator) \<Rightarrow> nat \<Rightarrow> string \<Rightarrow> id_kernel \<Rightarrow> id_generator \<Rightarrow> bool" where
  "id_step k gs i s k' g' \<longleftrightarrow>
     generateId (Some k) (gs i) = Ok (s, k', g') \<and> gen_inv k' (gs(i := g')) \<and> fresh_tag k gs (id_tag s)
     \<and> (\<forall>t. fresh_tag k' (gs(i := g')) t \<longrightarrow> fresh_tag k gs t \<and> t \<noteq> id_tag s)"

lemma gen_invI:
  assumes "UNIQUE_STUB k = x @ ''-''" "0 \<le> instanceCount k"
    and "\<And>i. seed (gs i) \<noteq> [] \<Longrightarrow> \<exists>n < instanceCount k. well_seeded (seed (gs i)) n"
    and "\<And>i j. seed (gs i) \<noteq> [] \<Longrightarrow> seed (gs j) \<noteq> []
      \<Longrightarrow> seed_num (seed (gs i)) = seed_num (seed (gs j)) \<Longrightarrow> i = j"
  shows "gen_inv k gs"
  unfolding gen_inv_def using assms by blast

lemma gen_inv_unique:
  "gen_inv k gs \<Longrightarrow> seed (gs i) \<noteq> [] \<Longrightarrow> seed (gs j) \<noteq> [] \<Longrightarrow> i \<noteq> j
    \<Longrightarrow> seed_num (seed (gs i)) \<noteq> seed_num (seed (gs j))"
  unfolding gen_inv_def by blast

lemma gen_inv_bound: "gen_inv k gs \<Longrightarrow> seed (gs i) \<noteq> [] \<Longrightarrow> seed_num (seed (gs i)) < instanceCount k"
  unfolding gen_inv_def using seed_num_well_seeded by metis

lemma generateId_seeded:
  assumes inv: "gen_inv k gs" and seeded: "seed (gs i) \<noteq> []"
  shows "\<exists>s k' g'. id_step k gs i s k' g'"
proof -
  let ?g = "(gs i)\<lparr>sequence := sequence (gs i) + 1\<rparr>"
  let ?s = "seed (gs i) @ to_string (sequence (gs i))"
  obtain n where n: "n < instanceCount k" "well_seeded (seed (gs i)) n"
    using inv seeded unfolding gen_inv_def by blast
  have tag: "id_tag ?s = (n, sequence (gs i))" by (rule id_tag_seed [OF n(2)])
  have num: "seed_num (seed (gs i)) = n" by (rule seed_num_well_seeded [OF n(2)])
  have same: "seed ((gs(i := ?g)) j) = seed (gs j)" for j by simp
  have fresh: "fresh_tag k gs t \<and> t \<noteq> id_tag ?s" if t: "fresh_tag k (gs(i := ?g)) t" for t
  proof (cases "instanceCount k \<le> fst t")
    case True
    then show ?thesis using n(1) by (auto simp: fresh_tag_def tag)
  next
    case False
    then obtain j where j: "seed (gs j) \<noteq> []" "fst t = seed_num (seed (gs j))"
        "sequence ((gs(i := ?g)) j) \<le> snd t"
      using t same unfolding fresh_tag_def by auto
    show ?thesis
    proof (cases "j = i")
      case True
      then show ?thesis using j seeded num by (cases t) (auto simp: fresh_tag_def tag)
    next
      case False
      then have "fst t \<noteq> n" using gen_inv_unique [OF inv j(1) seeded] j(2) num by simp
      then show ?thesis using j False by (auto simp: fresh_tag_def tag)
    qed
  qed
  have "gen_inv k (gs(i := ?g))" using inv unfolding gen_inv_def same .
  moreover have "generateId (Some k) (gs i) = Ok (?s, k, ?g)" using seeded by (simp add: generateId_def)
  moreover have "fresh_tag k gs (id_tag ?s)" using seeded num by (auto simp: fresh_tag_def tag)
  ultimately show ?thesis using fresh unfolding id_step_def by blast
qed

lemma generateId_unseeded:
  assumes inv: "gen_inv k gs" and unseeded: "seed (gs i) = []"
  shows "\<exists>s k' g'. id_step k gs i s k' g'"
proof -
  let ?n = "instanceCount k"
  define sd where "sd = (if prefix (gs i) = [] then ''ID:'' @ hostname k else prefix (gs i))
    @ UNIQUE_STUB k @ to_string ?n @ '':''"
  let ?k = "k\<lparr>instanceCount := ?n + 1\<rparr>"
  let ?g = "(gs i)\<lparr>seed := sd, sequence := sequence (gs i) + 1\<rparr>"
  let ?s = "sd @ to_string (sequence (gs i))"
  have ws: "well_seeded sd ?n"
    using inv by (auto simp: well_seeded_def gen_inv_def sd_def)
  have tag: "id_tag ?s = (?n, sequence (gs i))" by (rule id_tag_seed [OF ws])
  have num: "seed_num sd = ?n" by (rule seed_num_well_seeded [OF ws])
  have ex: "\<exists>n < ?n + 1. well_seeded (seed ((gs(i := ?g)) j)) n" if "seed ((gs(i := ?g)) j) \<noteq> []" for j
  proof (cases "j = i")
    case True
    then show ?thesis using ws by (intro exI [of _ ?n]) simp
  next
    case False
    then have "seed (gs j) \<noteq> []" using that by simp
    then obtain n where "n < ?n" "well_seeded (seed (gs j)) n"
      using inv unfolding gen_inv_def by blast
    then show ?thesis using False by (intro exI [of _ n]) simp
  qed
  have uniq: "a = b" if "seed ((gs(i := ?g)) a) \<noteq> []" "seed ((gs(i := ?g)) b) \<noteq> []"
      "seed_num (seed ((gs(i := ?g)) a)) = seed_num (seed ((gs(i := ?g)) b))" for a b
    using that num gen_inv_bound [OF inv, of a] gen_inv_bound [OF inv, of b] gen_inv_unique [OF inv, of a b]
    by (cases "a = i"; cases "b = i") auto
  obtain x where x: "UNIQUE_STUB k = x @ ''-''" "0 \<le> ?n"
    using inv unfolding gen_inv_def by blast
  have "gen_inv ?k (gs(i := ?g))"
  proof (rule gen_invI)
    show "UNIQUE_STUB ?k = x @ ''-''" "0 \<le> instanceCount ?k" using x by simp_all
    show "\<exists>n < instanceCount ?k. well_seeded (seed ((gs(i := ?g)) j)) n" if "seed ((gs(i := ?g)) j) \<noteq> []" for j
      using ex [OF that] by simp
  qed (rule uniq)
  moreover have "generateId (Some k) (gs i) = Ok (?s, ?k, ?g)"
    using unseeded by (simp add: generateId_def sd_def)
  moreover have "fresh_tag k gs (id_tag ?s)" by (simp add: fresh_tag_def tag)
  moreover have "fresh_tag k gs t \<and> t \<noteq> id_tag ?s" if t: "fresh_tag ?k (gs(i := ?g)) t" for t
  proof (cases "?n + 1 \<le> fst t")
    case True
    then show ?thesis by (auto simp: fresh_tag_def tag)
  next
    case False
    then obtain j where j: "seed ((gs(i := ?g)) j) \<noteq> []" "fst t = seed_num (seed ((gs(i := ?g)) j))"
        "sequence ((gs(i := ?g)) j) \<le> snd t"
      using t unfolding fresh_tag_def by auto
    then show ?thesis using num gen_inv_bound [OF inv, of j]
      by (cases "j = i") (auto simp: fresh_tag_def tag)
  qed
  ultimately show ?thesis unfolding id_step_def by blast
qed

lemma generate_run_tags:
  assumes "gen_inv k gs"
  shows "\<exists>ss. generate_run is k gs = Ok ss \<and> length ss = length is \<and> distinct (map id_tag ss)
    \<and> (\<forall>s \<in> set ss. fresh_tag k gs (id_tag s))"
  using assms
proof (induction "is" arbitrary: k gs)
  case Nil
  then show ?case by simp
next
  case (Cons i "is")
  obtain s k' g' where "id_step k gs i s k' g'"
    using generateId_seeded [OF Cons.prems] generateId_unseeded [OF Cons.prems] by blast
  then have step: "generateId (Some k) (gs i) = Ok (s, k', g')" "gen_inv k' (gs(i := g'))"
      "fresh_tag k gs (id_tag s)"
      "\<And>t. fresh_tag k' (gs(i := g')) t \<Longrightarrow> fresh_tag k gs t \<and> t \<noteq> id_tag s"
    unfolding id_step_def by blast+
  obtain ss where ss: "generate_run is k' (gs(i := g')) = Ok ss" "length ss = length is"
      "distinct (map id_tag ss)" "\<forall>s \<in> set ss. fresh_tag k' (gs(i := g')) (id_tag s)"
    using Cons.IH [OF step(2)] by blast
  have "id_tag s \<notin> set (map id_tag ss)" using ss(4) step(4) by (metis (no_types, lifting) image_iff list.set_map)
  then show ?case using step ss by auto
qed

lemma gen_inv_new: "gen_inv (IdGeneratorKernel_new sys now) (\<lambda>i. IdGenerator_new (pre i))"
  by (cases sys) (auto simp: gen_inv_def IdGeneratorKernel_new_def IdGenerator_new_def)


text \<open>
  \<open>getSeedFromId\<close> and \<open>getSequenceFromId\<close> take a generated id apart into the generator's seed and
  the sequence number of the call.
\<close>

lemma generated_id_parts:
  assumes "generateId (Some k) g = Ok (s, k', g')" "llong_range (sequence g)"
    "seed g = [] \<or> last (seed g) = CHR '':''"
  shows "getSeedFromId s = seed g' \<and> getSequenceFromId s = Ok (sequence g)"
proof -
  have s: "s = seed g' @ to_string (sequence g)" and "sequence g' = sequence g + 1"
    and ne: "seed g' \<noteq> []" and last: "last (seed g') = CHR '':''"
    using assms by (auto simp: generateId_def Let_def split: if_splits)
  obtain x where x: "seed g' = x @ '':''"
    using ne last by (metis append_butlast_last_id)
  show ?thesis
    using assms(2) by (simp add: s x getSeedFromId_def getSequenceFromId_def)
qed

lemma generated_id_parts_witness:
  "getSeedFromId ''ID:h-1-2-0:0'' = ''ID:h-1-2-0:'' \<and> getSequenceFromId ''ID:h-1-2-0:0'' = Ok 0"
proof -
  let ?k = "\<lparr>UNIQUE_STUB = ''-1-2-'', instanceCount = 0, hostname = ''h''\<rparr>"
  have n0: "to_string 0 = ''0''"
    by (simp add: to_string_def nat_string.simps digit_char_def char_of_def bit_0)
  have "generateId (Some ?k) (IdGenerator_new [])
      = Ok (''ID:h-1-2-0:0'', ?k\<lparr>instanceCount := 1\<rparr>, \<lparr>prefix = [], seed = ''ID:h-1-2-0:'', sequence = 1\<rparr>)"
    by (simp add: generateId_def IdGenerator_new_def n0)
  from generated_id_parts [OF this] show ?thesis
    by (simp add: IdGenerator_new_def llong_range_def LLONG_MIN_def LLONG_MAX_def)
qed

end
