(* ===== verification/Dispatch_Channel.thy ===== *)
theory Dispatch_Channel
  imports Identifiers
begin

text \<open>
  The message dispatch channels a consumer reads from: \<open>activemq/core/FifoMessageDispatchChannel.cpp\<close>
  and \<open>activemq/core/SimplePriorityMessageDispatchChannel.cpp\<close>, with the interface
  \<open>activemq/core/MessageDispatchChannel.h\<close> as a locale. Every operation runs under the channel's
  mutex, so an operation is a function of the channel's state. A blocking \<open>dequeue\<close> takes the list of
  what other threads do to the channel, one entry per wake-up of the waiting thread; \<open>None\<close> means it
  still waits when the list ends.
\<close>

section \<open>Destinations, messages and dispatches\<close>

datatype destination_type = TOPIC | QUEUE | TEMPORARY_TOPIC | TEMPORARY_QUEUE

record destination =
  destinationType :: destination_type
  physicalName :: string

definition isTopic :: "destination \<Rightarrow> bool" where
  "isTopic d \<longleftrightarrow> destinationType d = TOPIC \<or> destinationType d = TEMPORARY_TOPIC"

definition isQueue :: "destination \<Rightarrow> bool" where
  "isQueue d \<longleftrightarrow> \<not> isTopic d"

text \<open>
  The fields of \<open>commands::Message\<close> that the modelled operations read. \<open>msg_ref\<close> is the address of the message
  id and \<open>md_ref\<close> that of the dispatch, for the comparisons of pointers; \<open>msg_redeliveryDelay\<close> tells whether the
  properties have a \<open>redeliveryDelay\<close> (\<open>None\<close>: they cannot be read).
\<close>

record message =
  msg_destination :: "destination option"
  messageId :: "message_id option"
  priority :: "8 word"
  msg_ref :: nat
  msg_redeliveryCounter :: int
  msg_expiration :: int
  msg_redeliveryDelay :: "bool option"

record message_dispatch =
  md_destination :: "destination option"
  md_message :: "message option"
  redeliveryCounter :: int
  md_ref :: nat

section \<open>FifoMessageDispatchChannel\<close>

record fifo_channel =
  fifo_closed :: bool
  fifo_running :: bool
  fifo_list :: "message_dispatch list"

definition fifo_new :: fifo_channel where
  "fifo_new = \<lparr>fifo_closed = False, fifo_running = False, fifo_list = []\<rparr>"

definition fifo_enqueue :: "message_dispatch \<Rightarrow> fifo_channel \<Rightarrow> fifo_channel" where
  "fifo_enqueue m c = c\<lparr>fifo_list := fifo_list c @ [m]\<rparr>"

definition fifo_enqueueFirst :: "message_dispatch \<Rightarrow> fifo_channel \<Rightarrow> fifo_channel" where
  "fifo_enqueueFirst m c = c\<lparr>fifo_list := m # fifo_list c\<rparr>"

definition fifo_isEmpty :: "fifo_channel \<Rightarrow> bool" where
  "fifo_isEmpty c \<longleftrightarrow> fifo_list c = []"

text \<open>
  \<open>dequeueNoWait\<close>, and the tail of \<open>dequeue\<close>: nothing when closed, stopped or empty, else
  \<open>pollFirst\<close>.
\<close>

definition fifo_dequeueNoWait :: "fifo_channel \<Rightarrow> message_dispatch option \<times> fifo_channel" where
  "fifo_dequeueNoWait c =
     (if fifo_closed c \<or> \<not> fifo_running c \<or> fifo_isEmpty c then (None, c)
      else case fifo_list c of
             [] \<Rightarrow> (None, c)
           | m # ms \<Rightarrow> (Some m, c\<lparr>fifo_list := ms\<rparr>))"

text \<open>The wait loop of \<open>dequeue\<close>: \<open>-1\<close> waits until ready, another timeout waits once, 0 not at all.\<close>

fun fifo_await :: "int \<Rightarrow> (fifo_channel \<Rightarrow> fifo_channel) list \<Rightarrow> fifo_channel \<Rightarrow> fifo_channel option" where
  "fifo_await timeout env c =
     (if timeout \<noteq> 0 \<and> \<not> fifo_closed c \<and> (fifo_isEmpty c \<or> \<not> fifo_running c)
      then (if timeout = -1
            then (case env of [] \<Rightarrow> None | f # env' \<Rightarrow> fifo_await timeout env' (f c))
            else Some (case env of [] \<Rightarrow> c | f # _ \<Rightarrow> f c))
      else Some c)"

declare fifo_await.simps [simp del]

definition fifo_dequeue ::
    "int \<Rightarrow> (fifo_channel \<Rightarrow> fifo_channel) list \<Rightarrow> fifo_channel \<Rightarrow> (message_dispatch option \<times> fifo_channel) option" where
  "fifo_dequeue timeout env c = map_option fifo_dequeueNoWait (fifo_await timeout env c)"

definition fifo_peek :: "fifo_channel \<Rightarrow> message_dispatch option" where
  "fifo_peek c =
     (if fifo_closed c \<or> \<not> fifo_running c \<or> fifo_isEmpty c then None
      else case fifo_list c of [] \<Rightarrow> None | m # _ \<Rightarrow> Some m)"

definition fifo_start :: "fifo_channel \<Rightarrow> fifo_channel" where
  "fifo_start c = (if \<not> fifo_closed c then c\<lparr>fifo_running := True\<rparr> else c)"

definition fifo_stop :: "fifo_channel \<Rightarrow> fifo_channel" where
  "fifo_stop c = c\<lparr>fifo_running := False\<rparr>"

definition fifo_close :: "fifo_channel \<Rightarrow> fifo_channel" where
  "fifo_close c = (if \<not> fifo_closed c then c\<lparr>fifo_running := False, fifo_closed := True\<rparr> else c)"

definition fifo_clear :: "fifo_channel \<Rightarrow> fifo_channel" where
  "fifo_clear c = c\<lparr>fifo_list := []\<rparr>"

definition fifo_size :: "fifo_channel \<Rightarrow> int" where
  "fifo_size c = int (length (fifo_list c))"

definition fifo_removeAll :: "fifo_channel \<Rightarrow> message_dispatch list \<times> fifo_channel" where
  "fifo_removeAll c = (fifo_list c, c\<lparr>fifo_list := []\<rparr>)"

section \<open>SimplePriorityMessageDispatchChannel\<close>

definition MAX_PRIORITIES :: nat where "MAX_PRIORITIES = 10"
definition DEFAULT_MSG_PRIORITY :: int where "DEFAULT_MSG_PRIORITY = 4"

record prio_channel =
  prio_closed :: bool
  prio_running :: bool
  channels :: "message_dispatch list list"
  enqueued :: int

definition prio_new :: prio_channel where
  "prio_new = \<lparr>prio_closed = False, prio_running = False, channels = replicate MAX_PRIORITIES [], enqueued = 0\<rparr>"

text \<open>The index \<open>getChannel\<close> selects; its second assignment overwrites the first.\<close>

definition prio_getChannel :: "message_dispatch \<Rightarrow> nat" where
  "prio_getChannel d =
     (case md_message d of
        None \<Rightarrow> nat DEFAULT_MSG_PRIORITY
      | Some m \<Rightarrow>
          (let p = max (uint (priority m)) 0;
               p = min (uint (priority m)) 9
           in nat p))"

definition prio_enqueue :: "message_dispatch \<Rightarrow> prio_channel \<Rightarrow> prio_channel" where
  "prio_enqueue m c =
     (let i = prio_getChannel m
      in c\<lparr>channels := (channels c)[i := channels c ! i @ [m]], enqueued := enqueued c + 1\<rparr>)"

definition prio_enqueueFirst :: "message_dispatch \<Rightarrow> prio_channel \<Rightarrow> prio_channel" where
  "prio_enqueueFirst m c =
     (let i = prio_getChannel m
      in c\<lparr>channels := (channels c)[i := m # channels c ! i], enqueued := enqueued c + 1\<rparr>)"

definition prio_isEmpty :: "prio_channel \<Rightarrow> bool" where
  "prio_isEmpty c \<longleftrightarrow> enqueued c = 0"

text \<open>The loop \<open>for (int i = MAX_PRIORITIES - 1; i >= 0; i--)\<close> up to the first non-empty list.\<close>

fun prio_scan :: "nat \<Rightarrow> message_dispatch list list \<Rightarrow> nat option" where
  "prio_scan 0 cs = None"
| "prio_scan (Suc i) cs = (if cs ! i \<noteq> [] then Some i else prio_scan i cs)"

definition prio_removeFirst :: "prio_channel \<Rightarrow> message_dispatch option \<times> prio_channel" where
  "prio_removeFirst c =
     (if 0 < enqueued c then
        (case prio_scan MAX_PRIORITIES (channels c) of
           None \<Rightarrow> (None, c)
         | Some i \<Rightarrow>
             (Some (hd (channels c ! i)),
              c\<lparr>enqueued := enqueued c - 1, channels := (channels c)[i := tl (channels c ! i)]\<rparr>))
      else (None, c))"

definition prio_getFirst :: "prio_channel \<Rightarrow> message_dispatch option" where
  "prio_getFirst c =
     (if 0 < enqueued c then
        (case prio_scan MAX_PRIORITIES (channels c) of
           None \<Rightarrow> None
         | Some i \<Rightarrow> Some (hd (channels c ! i)))
      else None)"

definition prio_dequeueNoWait :: "prio_channel \<Rightarrow> message_dispatch option \<times> prio_channel" where
  "prio_dequeueNoWait c =
     (if prio_closed c \<or> \<not> prio_running c \<or> prio_isEmpty c then (None, c) else prio_removeFirst c)"

fun prio_await :: "int \<Rightarrow> (prio_channel \<Rightarrow> prio_channel) list \<Rightarrow> prio_channel \<Rightarrow> prio_channel option" where
  "prio_await timeout env c =
     (if timeout \<noteq> 0 \<and> \<not> prio_closed c \<and> (prio_isEmpty c \<or> \<not> prio_running c)
      then (if timeout = -1
            then (case env of [] \<Rightarrow> None | f # env' \<Rightarrow> prio_await timeout env' (f c))
            else Some (case env of [] \<Rightarrow> c | f # _ \<Rightarrow> f c))
      else Some c)"

declare prio_await.simps [simp del]

definition prio_dequeue ::
    "int \<Rightarrow> (prio_channel \<Rightarrow> prio_channel) list \<Rightarrow> prio_channel \<Rightarrow> (message_dispatch option \<times> prio_channel) option" where
  "prio_dequeue timeout env c = map_option prio_dequeueNoWait (prio_await timeout env c)"

definition prio_peek :: "prio_channel \<Rightarrow> message_dispatch option" where
  "prio_peek c =
     (if prio_closed c \<or> \<not> prio_running c \<or> prio_isEmpty c then None else prio_getFirst c)"

definition prio_start :: "prio_channel \<Rightarrow> prio_channel" where
  "prio_start c = (if \<not> prio_closed c then c\<lparr>prio_running := True\<rparr> else c)"

definition prio_stop :: "prio_channel \<Rightarrow> prio_channel" where
  "prio_stop c = c\<lparr>prio_running := False\<rparr>"

definition prio_close :: "prio_channel \<Rightarrow> prio_channel" where
  "prio_close c = (if \<not> prio_closed c then c\<lparr>prio_running := False, prio_closed := True\<rparr> else c)"

fun clear_below :: "nat \<Rightarrow> 'a list list \<Rightarrow> 'a list list" where
  "clear_below 0 cs = cs"
| "clear_below (Suc i) cs = (clear_below i cs)[i := []]"

definition prio_clear :: "prio_channel \<Rightarrow> prio_channel" where
  "prio_clear c = c\<lparr>channels := clear_below MAX_PRIORITIES (channels c)\<rparr>"

definition prio_size :: "prio_channel \<Rightarrow> int" where
  "prio_size c = enqueued c"

text \<open>The loop of \<open>removeAll\<close> from index \<open>i - 1\<close> down to 0, with its result vector.\<close>

fun prio_drain :: "nat \<Rightarrow> message_dispatch list \<Rightarrow> prio_channel \<Rightarrow> message_dispatch list \<times> prio_channel" where
  "prio_drain 0 acc c = (acc, c)"
| "prio_drain (Suc i) acc c =
     (let temp = channels c ! i
      in prio_drain i (acc @ temp)
           (c\<lparr>enqueued := enqueued c - int (length temp), channels := (channels c)[i := []]\<rparr>))"

definition prio_removeAll :: "prio_channel \<Rightarrow> message_dispatch list \<times> prio_channel" where
  "prio_removeAll c = prio_drain MAX_PRIORITIES [] c"

text \<open>Invariant: ten lists, each holding messages of its own priority, and \<open>enqueued\<close> counting them all.\<close>

definition prio_contents :: "prio_channel \<Rightarrow> message_dispatch list" where
  "prio_contents c = concat (rev (channels c))"

definition prio_inv :: "prio_channel \<Rightarrow> bool" where
  "prio_inv c \<longleftrightarrow>
     length (channels c) = MAX_PRIORITIES
     \<and> (\<forall>i < MAX_PRIORITIES. \<forall>m \<in> set (channels c ! i). prio_getChannel m = i)
     \<and> enqueued c = int (length (prio_contents c))"

section \<open>The interface\<close>

text \<open>
  The operations of \<open>MessageDispatchChannel\<close> as a record of functions, one entry point per call and a
  run of calls, with the messages the calls hand out.
\<close>

record 'c chan_ops =
  op_enqueue :: "message_dispatch \<Rightarrow> 'c \<Rightarrow> 'c"
  op_enqueueFirst :: "message_dispatch \<Rightarrow> 'c \<Rightarrow> 'c"
  op_dequeueNoWait :: "'c \<Rightarrow> message_dispatch option \<times> 'c"
  op_peek :: "'c \<Rightarrow> message_dispatch option"
  op_removeAll :: "'c \<Rightarrow> message_dispatch list \<times> 'c"
  op_start :: "'c \<Rightarrow> 'c"
  op_stop :: "'c \<Rightarrow> 'c"
  op_close :: "'c \<Rightarrow> 'c"
  op_size :: "'c \<Rightarrow> int"

datatype chan_call =
    Enqueue message_dispatch
  | EnqueueFirst message_dispatch
  | Dequeue
  | RemoveAll
  | Start
  | Stop
  | Close

fun chan_step :: "'c chan_ops \<Rightarrow> chan_call \<Rightarrow> 'c \<Rightarrow> message_dispatch list \<times> 'c" where
  "chan_step ops (Enqueue m) c = ([], op_enqueue ops m c)"
| "chan_step ops (EnqueueFirst m) c = ([], op_enqueueFirst ops m c)"
| "chan_step ops Dequeue c =
     (case op_dequeueNoWait ops c of (r, c') \<Rightarrow> (case r of None \<Rightarrow> [] | Some m \<Rightarrow> [m], c'))"
| "chan_step ops RemoveAll c = op_removeAll ops c"
| "chan_step ops Start c = ([], op_start ops c)"
| "chan_step ops Stop c = ([], op_stop ops c)"
| "chan_step ops Close c = ([], op_close ops c)"

fun chan_run :: "'c chan_ops \<Rightarrow> chan_call list \<Rightarrow> 'c \<Rightarrow> message_dispatch list \<times> 'c" where
  "chan_run ops [] c = ([], c)"
| "chan_run ops (x # xs) c =
     (let (out, c1) = chan_step ops x c; (outs, c2) = chan_run ops xs c1 in (out @ outs, c2))"

fun sent :: "chan_call list \<Rightarrow> message_dispatch list" where
  "sent [] = []"
| "sent (Enqueue m # xs) = m # sent xs"
| "sent (EnqueueFirst m # xs) = m # sent xs"
| "sent (_ # xs) = sent xs"

definition fifo_ops :: "fifo_channel chan_ops" where
  "fifo_ops = \<lparr>op_enqueue = fifo_enqueue, op_enqueueFirst = fifo_enqueueFirst,
     op_dequeueNoWait = fifo_dequeueNoWait, op_peek = fifo_peek, op_removeAll = fifo_removeAll,
     op_start = fifo_start, op_stop = fifo_stop, op_close = fifo_close, op_size = fifo_size\<rparr>"

definition prio_ops :: "prio_channel chan_ops" where
  "prio_ops = \<lparr>op_enqueue = prio_enqueue, op_enqueueFirst = prio_enqueueFirst,
     op_dequeueNoWait = prio_dequeueNoWait, op_peek = prio_peek, op_removeAll = prio_removeAll,
     op_start = prio_start, op_stop = prio_stop, op_close = prio_close, op_size = prio_size\<rparr>"

text \<open>
  What every dispatch channel promises. \<open>contents\<close> lists the waiting messages in the order in which
  they will be handed out.
\<close>

locale dispatch_channel =
  fixes ops :: "'c chan_ops"
    and inv :: "'c \<Rightarrow> bool"
    and contents :: "'c \<Rightarrow> message_dispatch list"
    and running :: "'c \<Rightarrow> bool"
    and closed :: "'c \<Rightarrow> bool"
  assumes inv_step: "inv c \<Longrightarrow> inv (snd (chan_step ops x c))"
    and enqueue: "inv c \<Longrightarrow> mset (contents (op_enqueue ops m c)) = add_mset m (mset (contents c))"
    and enqueueFirst: "inv c \<Longrightarrow> mset (contents (op_enqueueFirst ops m c)) = add_mset m (mset (contents c))"
    and dequeue_none:
      "inv c \<Longrightarrow> closed c \<or> \<not> running c \<or> contents c = [] \<Longrightarrow> op_dequeueNoWait ops c = (None, c)"
    and dequeue_some:
      "inv c \<Longrightarrow> \<not> closed c \<Longrightarrow> running c \<Longrightarrow> contents c = m # ms
        \<Longrightarrow> \<exists>c'. op_dequeueNoWait ops c = (Some m, c') \<and> contents c' = ms"
    and peek: "inv c \<Longrightarrow> op_peek ops c = fst (op_dequeueNoWait ops c)"
    and removeAll: "inv c \<Longrightarrow> fst (op_removeAll ops c) = contents c \<and> contents (snd (op_removeAll ops c)) = []"
    and lifecycle: "inv c \<Longrightarrow> contents (op_start ops c) = contents c"
      "inv c \<Longrightarrow> contents (op_stop ops c) = contents c"
      "inv c \<Longrightarrow> contents (op_close ops c) = contents c"
    and closed_step: "inv c \<Longrightarrow> closed (snd (chan_step ops x c)) \<longleftrightarrow> closed c \<or> x = Close"
    and running_step: "inv c \<Longrightarrow> x \<notin> {Start, Stop, Close} \<Longrightarrow> running (snd (chan_step ops x c)) = running c"
    and size: "inv c \<Longrightarrow> op_size ops c = int (length (contents c))"
begin

lemma dequeue_cases:
  assumes "inv c"
  obtains "op_dequeueNoWait ops c = (None, c)" "closed c \<or> \<not> running c \<or> contents c = []"
  | m ms c' where "op_dequeueNoWait ops c = (Some m, c')" "contents c = m # ms" "contents c' = ms"
      "\<not> closed c" "running c"
proof (cases "closed c \<or> \<not> running c \<or> contents c = []")
  case True
  with that(1) assms show thesis by (simp add: dequeue_none)
next
  case False
  then obtain m ms where "contents c = m # ms" by (auto simp: neq_Nil_conv)
  with that(2) False dequeue_some [OF assms] show thesis by blast
qed

lemma step_conserves:
  assumes "inv c" "chan_step ops x c = (out, c')"
  shows "mset out + mset (contents c') = mset (contents c) + mset (sent [x])"
proof (cases x)
  case Dequeue
  show ?thesis
    using assms Dequeue by (cases rule: dequeue_cases [OF assms(1)]) auto
next
  case RemoveAll
  then show ?thesis using assms removeAll [OF assms(1)] by (cases "op_removeAll ops c") simp
qed (use assms enqueue enqueueFirst lifecycle in auto)

lemma run_conserves:
  "inv c \<Longrightarrow> chan_run ops xs c = (out, c')
    \<Longrightarrow> inv c' \<and> mset out + mset (contents c') = mset (contents c) + mset (sent xs)"
proof (induction xs arbitrary: c out)
  case Nil
  then show ?case by simp
next
  case (Cons x xs)
  obtain o1 c1 where s: "chan_step ops x c = (o1, c1)" by (cases "chan_step ops x c")
  obtain o2 where r: "chan_run ops xs c1 = (o2, c')" and out: "out = o1 @ o2"
    using Cons.prems(2) s by (auto split: prod.splits)
  have "inv c1" using inv_step [OF Cons.prems(1), of x] s by simp
  then have IH: "inv c'" "mset o2 + mset (contents c') = mset (contents c1) + mset (sent xs)"
    using Cons.IH r by blast+
  have "mset (sent (x # xs)) = mset (sent [x]) + mset (sent xs)" by (cases x) auto
  then show ?case
    using IH step_conserves [OF Cons.prems(1) s] out by (metis mset_append union_assoc)
qed

lemma closed_run_silent:
  "inv c \<Longrightarrow> closed c \<Longrightarrow> RemoveAll \<notin> set xs \<Longrightarrow> fst (chan_run ops xs c) = [] \<and> closed (snd (chan_run ops xs c))"
proof (induction xs arbitrary: c)
  case Nil
  then show ?case by simp
next
  case (Cons x xs)
  have "closed (snd (chan_step ops x c))" "inv (snd (chan_step ops x c))"
    using Cons.prems closed_step inv_step by auto
  moreover have "fst (chan_step ops x c) = []"
    using Cons.prems dequeue_none by (cases x) auto
  ultimately show ?case using Cons.IH [of "snd (chan_step ops x c)"] Cons.prems(3)
    by (auto simp: Let_def split: prod.splits)
qed

lemma drain_in_order:
  "inv c \<Longrightarrow> running c \<Longrightarrow> \<not> closed c \<Longrightarrow> fst (chan_run ops (replicate n Dequeue) c) = take n (contents c)"
proof (induction n arbitrary: c)
  case 0
  then show ?case by simp
next
  case (Suc n)
  have st: "inv (snd (chan_step ops Dequeue c))" "running (snd (chan_step ops Dequeue c))"
      "\<not> closed (snd (chan_step ops Dequeue c))"
    using Suc.prems inv_step [of c Dequeue] running_step [of c Dequeue] closed_step [of c Dequeue] by auto
  show ?case
    using Suc.IH [OF st] Suc.prems
    by (cases rule: dequeue_cases [OF Suc.prems(1)]) (auto simp: Let_def split: prod.splits)
qed

end

text \<open>A channel that also keeps the order of arrival.\<close>

locale ordered_channel = dispatch_channel +
  assumes enqueue_last: "inv c \<Longrightarrow> contents (op_enqueue ops m c) = contents c @ [m]"
    and enqueueFirst_first: "inv c \<Longrightarrow> contents (op_enqueueFirst ops m c) = m # contents c"
begin

lemma run_in_order:
  "inv c \<Longrightarrow> set xs \<subseteq> range Enqueue \<union> {Dequeue, Start, Stop} \<Longrightarrow> chan_run ops xs c = (out, c')
    \<Longrightarrow> out @ contents c' = contents c @ sent xs"
proof (induction xs arbitrary: c out)
  case Nil
  then show ?case by simp
next
  case (Cons x xs)
  obtain o1 c1 where s: "chan_step ops x c = (o1, c1)" by (cases "chan_step ops x c")
  obtain o2 where r: "chan_run ops xs c1 = (o2, c')" and out: "out = o1 @ o2"
    using Cons.prems(3) s by (auto split: prod.splits)
  have "inv c1" using inv_step [OF Cons.prems(1), of x] s by simp
  then have IH: "o2 @ contents c' = contents c1 @ sent xs" using Cons.IH Cons.prems(2) r by simp
  consider m where "x = Enqueue m" | "x = Dequeue" | "x = Start \<or> x = Stop" using Cons.prems(2) by auto
  then have "o1 @ contents c1 = contents c @ sent [x]"
  proof cases
    case 2
    then show ?thesis using s by (cases rule: dequeue_cases [OF Cons.prems(1)]) auto
  qed (use s Cons.prems(1) enqueue_last lifecycle in auto)
  moreover have "sent (x # xs) = sent [x] @ sent xs" by (cases x) auto
  ultimately show ?case using IH out by (metis append.assoc)
qed

end

section \<open>The FIFO channel keeps the interface\<close>

lemmas fifo_defs = fifo_ops_def fifo_enqueue_def fifo_enqueueFirst_def fifo_dequeueNoWait_def
  fifo_isEmpty_def fifo_peek_def fifo_removeAll_def fifo_start_def fifo_stop_def fifo_close_def
  fifo_clear_def fifo_size_def

interpretation fifo: ordered_channel fifo_ops "\<lambda>_. True" fifo_list fifo_running fifo_closed
proof unfold_locales
  fix c x
  show "fifo_closed (snd (chan_step fifo_ops x c)) \<longleftrightarrow> fifo_closed c \<or> x = Close"
    by (cases x) (auto simp: fifo_defs split: list.splits)
next
  fix c x
  assume "x \<notin> {Start, Stop, Close}"
  then show "fifo_running (snd (chan_step fifo_ops x c)) = fifo_running c"
    by (cases x) (auto simp: fifo_defs split: list.splits)
qed (auto simp: fifo_defs split: list.splits)

section \<open>The priority channel keeps the interface\<close>

lemmas prio_defs = prio_ops_def prio_enqueue_def prio_enqueueFirst_def prio_dequeueNoWait_def
  prio_isEmpty_def prio_peek_def prio_removeAll_def prio_start_def prio_stop_def prio_close_def
  prio_size_def prio_removeFirst_def prio_getFirst_def

lemma prio_getChannel_less [simp]: "prio_getChannel m < MAX_PRIORITIES"
  by (auto simp: prio_getChannel_def MAX_PRIORITIES_def DEFAULT_MSG_PRIORITY_def split: option.splits)

lemma concat_rev_split:
  "i < length cs \<Longrightarrow> concat (rev cs) = concat (rev (drop (Suc i) cs)) @ cs ! i @ concat (rev (take i cs))"
  by (subst (1) id_take_nth_drop [of i cs]) simp_all

lemma concat_rev_update:
  "i < length cs \<Longrightarrow> concat (rev (cs[i := x])) = concat (rev (drop (Suc i) cs)) @ x @ concat (rev (take i cs))"
  by (simp add: upd_conv_take_nth_drop)

lemma prio_scan_Some:
  "prio_scan n cs = Some i \<Longrightarrow> i < n \<and> cs ! i \<noteq> [] \<and> (\<forall>j. i < j \<longrightarrow> j < n \<longrightarrow> cs ! j = [])"
  by (induction n) (auto split: if_splits simp: less_Suc_eq)

lemma prio_scan_None: "prio_scan n cs = None \<Longrightarrow> i < n \<Longrightarrow> cs ! i = []"
  by (induction n) (auto split: if_splits simp: less_Suc_eq)

lemma concat_rev_Nil: "(\<And>j. j < length cs \<Longrightarrow> cs ! j = []) \<Longrightarrow> concat (rev cs) = []"
  by (metis concat_eq_Nil_conv in_set_conv_nth set_rev)

text \<open>The list the scan stops at holds the head of the contents.\<close>

lemma prio_scan_contents:
  assumes "length cs = n" "prio_scan n cs = Some i"
  shows "concat (rev cs) = cs ! i @ concat (rev (take i cs))"
    and "concat (rev (cs[i := x])) = x @ concat (rev (take i cs))" and "i < n" and "cs ! i \<noteq> []"
proof -
  have i: "i < n" "cs ! i \<noteq> []" "\<And>j. i < j \<Longrightarrow> j < n \<Longrightarrow> cs ! j = []"
    using prio_scan_Some [OF assms(2)] by auto
  then have "concat (rev (drop (Suc i) cs)) = []" using assms(1) by (intro concat_rev_Nil) simp
  with i assms(1) show "concat (rev cs) = cs ! i @ concat (rev (take i cs))"
    and "concat (rev (cs[i := x])) = x @ concat (rev (take i cs))" and "i < n" and "cs ! i \<noteq> []"
    using concat_rev_split [of i cs] concat_rev_update [of i cs x] by auto
qed

lemma prio_scan_empty:
  assumes "length cs = n"
  shows "prio_scan n cs = None \<longleftrightarrow> concat (rev cs) = []"
proof
  show "concat (rev cs) = []" if "prio_scan n cs = None"
    using prio_scan_None [OF that] assms by (intro concat_rev_Nil) simp
  show "prio_scan n cs = None" if "concat (rev cs) = []"
    using that prio_scan_contents(1,4) [OF assms] by (cases "prio_scan n cs") auto
qed

lemma prio_inv_length [simp]: "prio_inv c \<Longrightarrow> length (channels c) = MAX_PRIORITIES"
  by (simp add: prio_inv_def)

lemma prio_inv_update:
  assumes "prio_inv c" "i < MAX_PRIORITIES" "\<forall>m \<in> set x. prio_getChannel m = i"
    "n = enqueued c - int (length (channels c ! i)) + int (length x)"
  shows "prio_inv (c\<lparr>channels := (channels c)[i := x], enqueued := n\<rparr>)"
    and "prio_inv (c\<lparr>enqueued := n, channels := (channels c)[i := x]\<rparr>)"
proof -
  let ?cs = "channels c"
  have i: "i < length ?cs" using assms(1,2) by simp
  have "length (concat (rev (?cs[i := x]))) + length (?cs ! i) = length (concat (rev ?cs)) + length x"
    unfolding concat_rev_update [OF i] concat_rev_split [OF i] by (simp del: rev_concat)
  then have "n = int (length (concat (rev (?cs[i := x]))))"
    using assms(1,4) unfolding prio_inv_def prio_contents_def by linarith
  moreover have "\<forall>j < MAX_PRIORITIES. \<forall>m \<in> set (?cs[i := x] ! j). prio_getChannel m = j"
    using assms(1,3) i by (simp add: prio_inv_def nth_list_update)
  ultimately show "prio_inv (c\<lparr>channels := ?cs[i := x], enqueued := n\<rparr>)"
    and "prio_inv (c\<lparr>enqueued := n, channels := ?cs[i := x]\<rparr>)"
    using assms(1) unfolding prio_inv_def prio_contents_def by simp_all
qed

lemma prio_enqueue_contents:
  assumes "prio_inv c"
  shows "mset (prio_contents (prio_enqueue m c)) = add_mset m (mset (prio_contents c))"
    and "mset (prio_contents (prio_enqueueFirst m c)) = add_mset m (mset (prio_contents c))"
  using assms concat_rev_split [of "prio_getChannel m" "channels c"]
    concat_rev_update [of "prio_getChannel m" "channels c"]
  by (auto simp: prio_contents_def prio_enqueue_def prio_enqueueFirst_def Let_def)

lemma prio_enqueue_inv [amq_inv]:
  assumes "prio_inv c"
  shows "prio_inv (prio_enqueue m c)" "prio_inv (prio_enqueueFirst m c)"
proof -
  have "\<forall>x \<in> set (channels c ! prio_getChannel m). prio_getChannel x = prio_getChannel m"
    using assms by (simp add: prio_inv_def)
  then show "prio_inv (prio_enqueue m c)" "prio_inv (prio_enqueueFirst m c)"
    using assms by (auto simp: prio_enqueue_def prio_enqueueFirst_def Let_def intro!: prio_inv_update)
qed

lemma prio_removeFirst_contents:
  assumes "prio_inv c" "prio_contents c = m # ms"
  shows "\<exists>c'. prio_removeFirst c = (Some m, c') \<and> prio_contents c' = ms \<and> prio_inv c'
    \<and> prio_closed c' = prio_closed c \<and> prio_running c' = prio_running c"
proof -
  let ?cs = "channels c"
  obtain i where i: "prio_scan MAX_PRIORITIES ?cs = Some i"
    using assms prio_scan_empty [of ?cs MAX_PRIORITIES] by (auto simp: prio_contents_def)
  note sc = prio_scan_contents [OF prio_inv_length [OF assms(1)] i]
  obtain y ys where ys: "?cs ! i = y # ys" using sc(4) by (auto simp: neq_Nil_conv)
  have pos: "0 < enqueued c" using assms by (simp add: prio_inv_def)
  have m: "m = y" "ms = ys @ concat (rev (take i ?cs))"
    using assms(2) sc(1) ys by (auto simp: prio_contents_def)
  have "\<forall>x \<in> set ys. prio_getChannel x = i"
    using assms(1) sc(3) ys by (auto simp: prio_inv_def)
  then have "prio_inv (c\<lparr>enqueued := enqueued c - 1, channels := ?cs[i := ys]\<rparr>)"
    using assms(1) sc(3) ys by (intro prio_inv_update(2)) auto
  then show ?thesis
    using i pos m ys sc(2) [of ys] by (simp add: prio_removeFirst_def prio_contents_def)
qed

lemma prio_isEmpty_contents: "prio_inv c \<Longrightarrow> prio_isEmpty c \<longleftrightarrow> prio_contents c = []"
  by (simp add: prio_isEmpty_def prio_inv_def)

lemma prio_peek_dequeue: "prio_peek c = fst (prio_dequeueNoWait c)"
  by (auto simp: prio_defs split: option.splits)

lemma prio_drain_spec:
  assumes "n \<le> length (channels c)"
  shows "prio_drain n acc c =
    (acc @ concat (rev (take n (channels c))),
     c\<lparr>enqueued := enqueued c - int (length (concat (rev (take n (channels c))))),
       channels := clear_below n (channels c)\<rparr>)"
  using assms
proof (induction n arbitrary: acc c)
  case 0
  then show ?case by simp
next
  case (Suc n)
  have upd: "clear_below k (cs[n := x]) = (clear_below k cs)[n := x]" if "k \<le> n" for k and cs :: "'x list list" and x
    using that by (induction k) (auto simp: list_update_swap)
  have "take (Suc n) (channels c) = take n (channels c) @ [channels c ! n]"
    using Suc.prems by (simp add: take_Suc_conv_app_nth)
  then show ?case using Suc by (simp add: Let_def upd)
qed

lemma clear_below_all:
  assumes "n \<le> length cs"
  shows "length (clear_below n cs) = length cs" "i < n \<Longrightarrow> clear_below n cs ! i = []"
  using assms by (induction n) (auto simp: nth_list_update less_Suc_eq)

lemma prio_removeAll_contents:
  assumes "prio_inv c"
  shows "fst (prio_removeAll c) = prio_contents c" "prio_contents (snd (prio_removeAll c)) = []"
    "prio_inv (snd (prio_removeAll c))"
proof -
  let ?cs = "clear_below MAX_PRIORITIES (channels c)"
  have r: "prio_removeAll c = (prio_contents c,
      c\<lparr>enqueued := enqueued c - int (length (prio_contents c)), channels := ?cs\<rparr>)"
    using assms by (simp add: prio_removeAll_def prio_drain_spec prio_contents_def)
  have len: "length ?cs = MAX_PRIORITIES" using assms by (simp add: clear_below_all)
  have nil: "?cs ! i = []" if "i < MAX_PRIORITIES" for i
    using assms that by (simp add: clear_below_all)
  have cn: "concat (rev ?cs) = []" using len nil by (intro concat_rev_Nil) simp
  show "fst (prio_removeAll c) = prio_contents c" by (simp add: r)
  show "prio_contents (snd (prio_removeAll c)) = []" using cn by (simp add: r prio_contents_def)
  have "\<forall>i < MAX_PRIORITIES. \<forall>m \<in> set (?cs ! i). prio_getChannel m = i"
    by (intro allI impI) (simp add: nil)
  then show "prio_inv (snd (prio_removeAll c))"
    unfolding r prio_inv_def using assms len cn
    by (simp del: rev_concat add: prio_inv_def prio_contents_def)
qed

lemma prio_flags:
  assumes "prio_inv c"
  shows "prio_closed (snd (chan_step prio_ops x c)) \<longleftrightarrow> prio_closed c \<or> x = Close"
    and "x \<notin> {Start, Stop, Close} \<Longrightarrow> prio_running (snd (chan_step prio_ops x c)) = prio_running c"
    and "prio_inv (snd (chan_step prio_ops x c))"
proof -
  have deq: "prio_closed (snd (prio_dequeueNoWait c)) = prio_closed c
      \<and> prio_running (snd (prio_dequeueNoWait c)) = prio_running c \<and> prio_inv (snd (prio_dequeueNoWait c))"
  proof (cases "prio_contents c")
    case Nil
    then show ?thesis using assms by (simp add: prio_dequeueNoWait_def prio_isEmpty_contents)
  next
    case (Cons m ms)
    then show ?thesis using assms prio_removeFirst_contents [OF assms Cons]
      by (auto simp: prio_dequeueNoWait_def)
  qed
  have len: "MAX_PRIORITIES \<le> length (channels c)" using assms by simp
  note all = deq prio_removeAll_contents(3) [OF assms] prio_drain_spec [OF len]
  show "prio_closed (snd (chan_step prio_ops x c)) \<longleftrightarrow> prio_closed c \<or> x = Close"
    using all by (cases x) (auto simp: prio_ops_def prio_enqueue_def prio_enqueueFirst_def prio_start_def
        prio_stop_def prio_close_def prio_removeAll_def Let_def split: prod.splits)
  show "prio_running (snd (chan_step prio_ops x c)) = prio_running c" if "x \<notin> {Start, Stop, Close}"
    using all that by (cases x) (auto simp: prio_ops_def prio_enqueue_def prio_enqueueFirst_def
        prio_removeAll_def Let_def split: prod.splits)
  have "prio_inv (prio_start c)" "prio_inv (prio_stop c)" "prio_inv (prio_close c)"
    using assms by (simp_all add: prio_start_def prio_stop_def prio_close_def prio_inv_def prio_contents_def)
  then show "prio_inv (snd (chan_step prio_ops x c))"
    using all prio_enqueue_inv [OF assms] by (cases x) (auto simp: prio_ops_def split: prod.splits)
qed

interpretation prio: dispatch_channel prio_ops prio_inv prio_contents prio_running prio_closed
proof unfold_locales
  fix c x m ms
  assume inv: "prio_inv c"
  show "prio_inv (snd (chan_step prio_ops x c))" by (rule prio_flags(3) [OF inv])
  show "mset (prio_contents (op_enqueue prio_ops m c)) = add_mset m (mset (prio_contents c))"
    "mset (prio_contents (op_enqueueFirst prio_ops m c)) = add_mset m (mset (prio_contents c))"
    using prio_enqueue_contents [OF inv] by (simp_all add: prio_ops_def)
  show "op_peek prio_ops c = fst (op_dequeueNoWait prio_ops c)"
    by (simp add: prio_ops_def prio_peek_dequeue)
  show "fst (op_removeAll prio_ops c) = prio_contents c \<and> prio_contents (snd (op_removeAll prio_ops c)) = []"
    using prio_removeAll_contents [OF inv] by (simp add: prio_ops_def)
  show "prio_contents (op_start prio_ops c) = prio_contents c" "prio_contents (op_stop prio_ops c) = prio_contents c"
    "prio_contents (op_close prio_ops c) = prio_contents c"
    by (simp_all add: prio_defs prio_contents_def)
  show "prio_closed (snd (chan_step prio_ops x c)) \<longleftrightarrow> prio_closed c \<or> x = Close"
    by (rule prio_flags(1) [OF inv])
  show "op_size prio_ops c = int (length (prio_contents c))"
    using inv by (simp add: prio_defs prio_inv_def)
  show "op_dequeueNoWait prio_ops c = (None, c)" if "prio_closed c \<or> \<not> prio_running c \<or> prio_contents c = []"
    using inv that by (auto simp: prio_ops_def prio_dequeueNoWait_def prio_isEmpty_contents)
  show "prio_running (snd (chan_step prio_ops x c)) = prio_running c" if "x \<notin> {Start, Stop, Close}"
    by (rule prio_flags(2) [OF inv that])
  show "\<exists>c'. op_dequeueNoWait prio_ops c = (Some m, c') \<and> prio_contents c' = ms"
    if "\<not> prio_closed c" "prio_running c" "prio_contents c = m # ms"
    using that inv prio_removeFirst_contents [OF inv that(3)] prio_isEmpty_contents [OF inv]
    by (auto simp: prio_ops_def prio_dequeueNoWait_def)
qed

section \<open>Properties of the channels\<close>

lemma prio_contents_sorted:
  assumes "prio_inv c"
  shows "sorted_wrt (\<lambda>a b. prio_getChannel b \<le> prio_getChannel a) (prio_contents c)"
proof -
  have "sorted_wrt (\<lambda>a b. prio_getChannel b \<le> prio_getChannel a) (concat (rev cs))"
    if "\<forall>i < length cs. \<forall>m \<in> set (cs ! i). prio_getChannel m = i" for cs
    using that
  proof (induction cs rule: rev_induct)
    case (snoc x cs)
    have "\<forall>m \<in> set x. prio_getChannel m = length cs" using snoc.prems by (auto simp: nth_append)
    moreover have "\<forall>i < length cs. \<forall>m \<in> set (cs ! i). prio_getChannel m = i"
      using snoc.prems by (auto simp: nth_append)
    moreover have "\<forall>m \<in> set (concat (rev cs)). prio_getChannel m \<le> length cs"
    proof
      fix m
      assume "m \<in> set (concat (rev cs))"
      then obtain i where "i < length cs" "m \<in> set (cs ! i)"
        by (metis UN_iff in_set_conv_nth set_concat set_rev)
      then show "prio_getChannel m \<le> length cs" using calculation(2) by auto
    qed
    moreover have "sorted_wrt (\<lambda>a b. prio_getChannel b \<le> prio_getChannel a) x"
      using calculation(1) by (induction x) auto
    ultimately show ?case using snoc.IH by (auto simp: sorted_wrt_append)
  qed simp
  then show ?thesis using assms by (simp add: prio_inv_def prio_contents_def)
qed

text \<open>
  \<^bold>\<open>C29.\<close> First in, first out: whatever calls of \<open>enqueue\<close>, \<open>dequeueNoWait\<close>, \<open>start\<close> and \<open>stop\<close> are made on
  a FIFO channel, the messages handed out, followed by those still waiting, are the messages that were
  waiting at first followed by the enqueued ones, in order.
\<close>

theorem fifo_order:
  assumes "set xs \<subseteq> range Enqueue \<union> {Dequeue, Start, Stop}"
  shows "fst (chan_run fifo_ops xs c) @ fifo_list (snd (chan_run fifo_ops xs c)) = fifo_list c @ sent xs"
  using fifo.run_in_order [of xs c] assms by (cases "chan_run fifo_ops xs c") simp

theorem fifo_order_witness:
  "fst (chan_run fifo_ops [Start, Enqueue \<lparr>md_destination = None, md_message = None, redeliveryCounter = 7, md_ref = 1\<rparr>, Dequeue] fifo_new)
     @ fifo_list (snd (chan_run fifo_ops [Start, Enqueue \<lparr>md_destination = None, md_message = None, redeliveryCounter = 7, md_ref = 1\<rparr>, Dequeue] fifo_new))
   = fifo_list fifo_new @ [\<lparr>md_destination = None, md_message = None, redeliveryCounter = 7, md_ref = 1\<rparr>]"
  by (subst fifo_order) simp_all


lemma prio_inv_new: "prio_inv prio_new"
  by (simp add: prio_inv_def prio_new_def prio_contents_def MAX_PRIORITIES_def)


text \<open>
  \<^bold>\<open>C18.\<close> A dequeue from a started priority channel with messages waiting hands out a message of the
  highest priority present, and of these the one at the head of its list; the rest stays in order.
\<close>

theorem prio_highest_first:
  assumes "prio_inv c" "prio_running c" "\<not> prio_closed c" "prio_contents c \<noteq> []"
  shows "\<exists>m c'. prio_dequeueNoWait c = (Some m, c')
    \<and> (\<forall>m' \<in> set (prio_contents c). prio_getChannel m' \<le> prio_getChannel m)
    \<and> m = hd (channels c ! prio_getChannel m) \<and> prio_contents c = m # prio_contents c'"
proof -
  obtain m ms where c: "prio_contents c = m # ms" using assms(4) by (auto simp: neq_Nil_conv)
  obtain c' where c': "prio_dequeueNoWait c = (Some m, c')" "prio_contents c' = ms"
    using prio.dequeue_some [OF assms(1,3,2) c] by (auto simp: prio_ops_def)
  have top: "\<forall>m' \<in> set (prio_contents c). prio_getChannel m' \<le> prio_getChannel m"
    using prio_contents_sorted [OF assms(1)] by (simp add: c)
  obtain i where i: "prio_scan MAX_PRIORITIES (channels c) = Some i"
    using assms(1,4) prio_scan_empty [of "channels c" MAX_PRIORITIES] by (auto simp: prio_contents_def)
  note sc = prio_scan_contents [OF prio_inv_length [OF assms(1)] i]
  have m: "m = hd (channels c ! i)"
    using c sc(1,4) by (metis hd_append2 list.sel(1) prio_contents_def)
  moreover have "prio_getChannel m = i"
    using assms(1) sc(3,4) unfolding m prio_inv_def by simp
  ultimately show ?thesis using c c' top by auto
qed

theorem prio_highest_first_witness:
  "\<exists>m c'. prio_dequeueNoWait (prio_start (prio_enqueue \<lparr>md_destination = None, md_message = None, redeliveryCounter = 0, md_ref = 1\<rparr> prio_new)) = (Some m, c')
    \<and> (\<forall>m' \<in> set (prio_contents (prio_start (prio_enqueue \<lparr>md_destination = None, md_message = None, redeliveryCounter = 0, md_ref = 1\<rparr> prio_new))).
          prio_getChannel m' \<le> prio_getChannel m)
    \<and> m = hd (channels (prio_start (prio_enqueue \<lparr>md_destination = None, md_message = None, redeliveryCounter = 0, md_ref = 1\<rparr> prio_new)) ! prio_getChannel m)
    \<and> prio_contents (prio_start (prio_enqueue \<lparr>md_destination = None, md_message = None, redeliveryCounter = 0, md_ref = 1\<rparr> prio_new)) = m # prio_contents c'"
proof (rule prio_highest_first)
  let ?m = "\<lparr>md_destination = None, md_message = None, redeliveryCounter = 0, md_ref = 1\<rparr>"
  show "prio_inv (prio_start (prio_enqueue ?m prio_new))"
    using prio_enqueue_inv(1) [OF prio_inv_new] prio.inv_step [of _ Start] by (simp add: prio_ops_def)
  show "prio_contents (prio_start (prio_enqueue ?m prio_new)) \<noteq> []"
    using prio_enqueue_contents(1) [OF prio_inv_new, of ?m] prio.lifecycle(1) [OF prio_enqueue_inv(1) [OF prio_inv_new, of ?m]]
    by (auto simp: prio_ops_def)
qed (simp_all add: prio_start_def prio_enqueue_def prio_new_def Let_def)



lemma fifo_await_ready:
  "fifo_await (-1) env c = Some c' \<Longrightarrow> fifo_closed c' \<or> \<not> fifo_isEmpty c' \<and> fifo_running c'"
proof (induction env arbitrary: c)
  case Nil
  then show ?case by (auto simp: fifo_await.simps [of _ "[]"] split: if_splits)
next
  case (Cons f env)
  then show ?case by (auto simp: fifo_await.simps [of _ "f # env"] split: if_splits)
qed

lemma prio_await_ready:
  "prio_inv c \<Longrightarrow> \<forall>f \<in> set env. \<forall>d. prio_inv d \<longrightarrow> prio_inv (f d) \<Longrightarrow> prio_await (-1) env c = Some c'
    \<Longrightarrow> prio_inv c' \<and> (prio_closed c' \<or> \<not> prio_isEmpty c' \<and> prio_running c')"
proof (induction env arbitrary: c)
  case Nil
  then show ?case by (auto simp: prio_await.simps [of _ "[]"] split: if_splits)
next
  case (Cons f env)
  then show ?case by (auto simp: prio_await.simps [of _ "f # env"] split: if_splits)
qed



text \<open>
  \<open>SimplePriorityMessageDispatchChannel::clear\<close> empties the lists but leaves the count: after
  clearing a channel that held messages, \<open>isEmpty\<close> answers false, \<open>size\<close> the old number, and a blocking
  \<open>dequeue(-1)\<close> on the started, open channel returns a null pointer at once instead of waiting. The FIFO
  channel is empty after \<open>clear\<close>.
\<close>

theorem prio_clear_keeps_count:
  assumes "prio_inv c" "prio_contents c \<noteq> []" "prio_running c" "\<not> prio_closed c"
  shows "prio_contents (prio_clear c) = [] \<and> \<not> prio_isEmpty (prio_clear c)
    \<and> prio_size (prio_clear c) = prio_size c
    \<and> prio_dequeue (-1) [] (prio_clear c) = Some (None, prio_clear c)
    \<and> fifo_isEmpty (fifo_clear f)"
proof -
  let ?cs = "clear_below MAX_PRIORITIES (channels c)"
  have "?cs ! i = []" if "i < MAX_PRIORITIES" for i using assms(1) that by (simp add: clear_below_all)
  moreover have len: "length ?cs = MAX_PRIORITIES" using assms(1) by (simp add: clear_below_all)
  ultimately have nil: "concat (rev ?cs) = []" by (intro concat_rev_Nil) simp
  have scan: "prio_scan MAX_PRIORITIES ?cs = None"
    using prio_scan_empty [OF len] nil by simp
  have pos: "0 < enqueued c" using assms(1,2) by (simp add: prio_inv_def)
  have "prio_dequeueNoWait (prio_clear c) = (None, prio_clear c)"
    using scan by (simp add: prio_dequeueNoWait_def prio_removeFirst_def prio_clear_def)
  moreover have "prio_await (-1) [] (prio_clear c) = Some (prio_clear c)"
    using assms(3,4) pos by (simp add: prio_await.simps prio_isEmpty_def prio_clear_def)
  ultimately show ?thesis
    using nil pos by (simp add: prio_contents_def prio_clear_def prio_isEmpty_def prio_size_def
        prio_dequeue_def fifo_isEmpty_def fifo_clear_def)
qed

theorem prio_clear_keeps_count_witness:
  "prio_contents (prio_clear (prio_start (prio_enqueue \<lparr>md_destination = None, md_message = None, redeliveryCounter = 0, md_ref = 1\<rparr> prio_new))) = []
   \<and> \<not> prio_isEmpty (prio_clear (prio_start (prio_enqueue \<lparr>md_destination = None, md_message = None, redeliveryCounter = 0, md_ref = 1\<rparr> prio_new)))"
proof -
  let ?m = "\<lparr>md_destination = None, md_message = None, redeliveryCounter = 0, md_ref = 1\<rparr>"
  let ?c = "prio_start (prio_enqueue ?m prio_new)"
  have "prio_inv ?c"
    using prio_enqueue_inv(1) [OF prio_inv_new] prio.inv_step [of _ Start] by (simp add: prio_ops_def)
  moreover have "prio_contents ?c \<noteq> []"
    using prio_enqueue_contents(1) [OF prio_inv_new, of ?m] prio.lifecycle(1) [OF prio_enqueue_inv(1) [OF prio_inv_new, of ?m]]
    by (auto simp: prio_ops_def)
  ultimately show ?thesis
    using prio_clear_keeps_count [of ?c fifo_new]
    by (simp add: prio_start_def prio_enqueue_def prio_new_def Let_def)
qed

end
