(* ===== verification/Pop_Count.thy ===== *)
theory Pop_Count
  imports AMQ_Prelude
begin

text \<open>
  The population count of \<open>decaf/util/BitSet.cpp\<close>: the function \<open>pop\<close> counts the bits of a 32 bit
  number by adding neighbouring fields of 1, 2, 4, 8 and 16 bits in parallel. Shown: it returns the
  number of set bits of every argument below \<open>2\<^sup>3\<^sup>2\<close>.
\<close>

type_synonym ulong = "64 word"
definition pop :: "ulong \<Rightarrow> nat" where
  "pop x =
     (let x1 = x - (drop_bit 1 x AND 0x55555555);
          x2 = (x1 AND 0x33333333) + (drop_bit 2 x1 AND 0x33333333);
          x3 = (x2 + drop_bit 4 x2) AND 0x0f0f0f0f;
          x4 = x3 + drop_bit 8 x3;
          x5 = x4 + drop_bit 16 x4
      in unat (x5 AND 0x3f))"

section \<open>Sums of neighbouring fields\<close>

lemma and_split:
  fixes a b m c :: nat
  assumes "a < 2 ^ k" "m < 2 ^ k"
  shows "(a + 2 ^ k * b) AND (m + 2 ^ k * c) = (a AND m) + 2 ^ k * (b AND c)"
proof -
  let ?l = "(a + 2 ^ k * b) AND (m + 2 ^ k * c)"
  have "take_bit k (a + 2 ^ k * b) = a" "take_bit k (m + 2 ^ k * c) = m"
    using assms by (simp_all add: take_bit_eq_mod)
  then have "take_bit k ?l = (a AND m)" by (simp only: take_bit_and)
  moreover have "drop_bit k (a + 2 ^ k * b) = b" "drop_bit k (m + 2 ^ k * c) = c"
    using assms by (simp_all add: drop_bit_eq_div)
  then have "drop_bit k ?l = (b AND c)" by (simp only: drop_bit_and)
  ultimately show ?thesis
    using bits_ident [of k ?l] by (simp add: push_bit_eq_mult mult.commute add.commute)
qed

definition fields :: "nat \<Rightarrow> nat list \<Rightarrow> nat" where
  "fields k ds = foldr (\<lambda>d v. d + 2 ^ k * v) ds 0"

lemma fields_simps [simp]: "fields k [] = 0" "fields k (d # ds) = d + 2 ^ k * fields k ds"
  by (simp_all add: fields_def)

fun pair_sums :: "nat list \<Rightarrow> nat list" where
  "pair_sums (a # b # ds) = (a + b) # pair_sums ds"
| "pair_sums ds = ds"

lemma halves:
  assumes "\<forall>d \<in> set ds. d < 4"
  shows "(fields 2 ds div 2) AND fields 2 (replicate (length ds) 1) = fields 2 (map (\<lambda>d. d div 2) ds)"
  using assms
proof (induction ds)
  case (Cons d ds)
  let ?v = "fields 2 ds" and ?m = "fields 2 (replicate (length ds) 1)"
  have d: "d < 4" using Cons.prems by simp
  have "(d + 4 * ?v) div 2 = d div 2 + 2 * ?v" by simp
  also have "\<dots> = (d div 2 + 2 * (?v mod 2)) + 2 ^ 2 * (?v div 2)"
  proof -
    have q: "(2 :: nat) ^ 2 = 4" by simp
    show ?thesis unfolding q using mult_div_mod_eq [of 2 ?v] by linarith
  qed
  finally have div: "(d + 4 * ?v) div 2 = (d div 2 + 2 * (?v mod 2)) + 2 ^ 2 * (?v div 2)" .
  have "((d div 2 + 2 * (?v mod 2)) + 2 ^ 2 * (?v div 2)) AND (1 + 2 ^ 2 * ?m) =
      ((d div 2 + 2 * (?v mod 2)) AND 1) + 2 ^ 2 * ((?v div 2) AND ?m)"
  proof (rule and_split)
    have "?v mod 2 < 2" "d div 2 < 2" using d by auto
    then show "d div 2 + 2 * (?v mod 2) < 2 ^ 2" by simp
  qed simp
  moreover have "(d div 2 + 2 * (?v mod 2)) AND 1 = d div 2"
    using d by (simp add: and_one_eq)
  ultimately show ?case using Cons div by simp
qed simp

lemma subtract_halves:
  "fields 2 ds = fields 2 (map (\<lambda>d. d - d div 2) ds) + fields 2 (map (\<lambda>d. d div 2) ds)"
  by (induction ds) auto

lemma field_lt: "(a :: nat) < 2 ^ k \<Longrightarrow> (a + 2 ^ k * b) AND (2 ^ k - 1) = a"
  using take_bit_eq_mask [of k "a + 2 ^ k * b"] by (simp add: mask_eq_exp_minus_1 take_bit_eq_mod)

lemma two_fields:
  assumes "(a :: nat) < 2 ^ k" "b < 2 ^ k"
  shows "(a + 2 ^ k * (b + 2 ^ k * v)) AND ((2 ^ k - 1) + 2 ^ (2 * k) * m) = a + 2 ^ (2 * k) * (v AND m)"
proof -
  have p: "2 ^ (2 * k) = (2 ^ k * 2 ^ k :: nat)" by (simp add: mult_2 power_add)
  have e: "a + 2 ^ k * (b + 2 ^ k * v) = (a + 2 ^ k * b) + 2 ^ (2 * k) * v"
    unfolding p by (simp add: algebra_simps)
  have "Suc b \<le> 2 ^ k" using assms by simp
  then have "2 ^ k * Suc b \<le> 2 ^ k * 2 ^ k" by (intro mult_left_mono) auto
  then have c1: "a + 2 ^ k * b < 2 ^ (2 * k)" unfolding p using assms(1) by simp
  have c2: "2 ^ k - 1 < (2 ^ (2 * k) :: nat)"
  proof -
    have "2 ^ k - 1 < (2 ^ k :: nat)" by simp
    also have "\<dots> \<le> 2 ^ k * 2 ^ k" by simp
    finally show ?thesis unfolding p .
  qed
  show ?thesis unfolding e and_split [OF c1 c2] field_lt [OF assms(1)] ..
qed

fun low_masks :: "nat \<Rightarrow> nat \<Rightarrow> nat" where
  "low_masks k 0 = 0"
| "low_masks k (Suc n) = (2 ^ k - 1) + 2 ^ (2 * k) * low_masks k n"

lemma low_masks_numeral:
  "low_masks k (numeral n) = (2 ^ k - 1) + 2 ^ (2 * k) * low_masks k (pred_numeral n)"
  by (simp add: numeral_eq_Suc)

lemma replicate_numeral_Cons: "replicate (numeral n) x = x # replicate (pred_numeral n) x"
  by (simp add: numeral_eq_Suc)

text \<open>Adding neighbouring fields, with the masks applied before or after the addition.\<close>

lemma add_neighbours:
  assumes "\<forall>d \<in> set ds. d < 2 ^ k" "even (length ds)"
  shows "(fields k ds AND low_masks k (length ds div 2)) + ((fields k ds div 2 ^ k) AND low_masks k (length ds div 2)) =
    fields (2 * k) (pair_sums ds)"
  using assms
proof (induction ds rule: pair_sums.induct)
  case (1 a b ds)
  let ?v = "fields k ds" and ?m = "low_masks k (length ds div 2)"
  have ab: "a < 2 ^ k" "b < 2 ^ k" using "1.prems" by auto
  have lt: "?v mod 2 ^ k < 2 ^ k" by simp
  have "(a + 2 ^ k * (b + 2 ^ k * ?v)) div 2 ^ k = b + 2 ^ k * (?v mod 2 ^ k + 2 ^ k * (?v div 2 ^ k))"
    using ab by simp
  then have R: "(fields k (a # b # ds) div 2 ^ k) AND low_masks k (Suc (length ds div 2)) =
      b + 2 ^ (2 * k) * ((?v div 2 ^ k) AND ?m)"
    using two_fields [OF ab(2) lt, of "?v div 2 ^ k" ?m] by simp
  have L: "fields k (a # b # ds) AND low_masks k (Suc (length ds div 2)) = a + 2 ^ (2 * k) * (?v AND ?m)"
    using two_fields [OF ab, of ?v ?m] by simp
  have "(?v AND ?m) + ((?v div 2 ^ k) AND ?m) = fields (2 * k) (pair_sums ds)" using 1 by simp
  moreover have len: "length (a # b # ds) div 2 = Suc (length ds div 2)" by simp
  ultimately show ?case unfolding len L R by (simp add: distrib_left [symmetric])
qed auto

lemma pair_sums_props:
  "sum_list (pair_sums ds) = sum_list ds"
  "\<forall>d \<in> set ds. d \<le> m \<Longrightarrow> even (length ds) \<Longrightarrow> d \<in> set (pair_sums ds) \<Longrightarrow> d \<le> 2 * m"
  "even (length ds) \<Longrightarrow> length (pair_sums ds) = length ds div 2"
  by (induction ds rule: pair_sums.induct) auto


lemma and_add_neighbours:
  assumes "\<forall>d \<in> set ds. 2 * d < 2 ^ k" "even (length ds)"
  shows "(fields k ds + fields k ds div 2 ^ k) AND low_masks k (length ds div 2) = fields (2 * k) (pair_sums ds)"
  using assms
proof (induction ds rule: pair_sums.induct)
  case (1 a b ds)
  let ?v = "fields k ds" and ?m = "low_masks k (length ds div 2)"
  have ab: "a < 2 ^ k" "b < 2 ^ k" "a + b < 2 ^ k" using "1.prems" by auto
  define c where "c = (case ds of [] \<Rightarrow> 0 | d # _ \<Rightarrow> d)"
  have c: "b + c < 2 ^ k" "?v = c + 2 ^ k * (?v div 2 ^ k)"
    using "1.prems" by (cases ds; simp add: c_def)+
  have h: "2 ^ k * ?v = 2 ^ k * c + 2 ^ k * (2 ^ k * (?v div 2 ^ k))"
    using arg_cong [OF c(2), of "\<lambda>x. 2 ^ k * x"] by (simp add: distrib_left)
  have "(a + 2 ^ k * (b + 2 ^ k * ?v)) div 2 ^ k = b + 2 ^ k * ?v" using ab by simp
  then have E1: "fields k (a # b # ds) + fields k (a # b # ds) div 2 ^ k =
      (a + b) + 2 ^ k * ((b + c) + 2 ^ k * (?v + ?v div 2 ^ k))"
    using h by (simp add: distrib_left)
  have E2: "((a + b) + 2 ^ k * ((b + c) + 2 ^ k * (?v + ?v div 2 ^ k))) AND low_masks k (Suc (length ds div 2)) =
      (a + b) + 2 ^ (2 * k) * ((?v + ?v div 2 ^ k) AND ?m)"
    using two_fields [OF ab(3) c(1), of "?v + ?v div 2 ^ k" ?m] by simp
  have len: "length (a # b # ds) div 2 = Suc (length ds div 2)" by simp
  show ?case unfolding len E1 E2 using 1 by simp
qed auto

text \<open>The set bits of a number, by base-four digits.\<close>

lemma bits_rec: "{j. bit (n :: nat) j} = (if odd n then {0} else {}) \<union> Suc ` {j. bit (n div 2) j}"
proof (rule set_eqI)
  fix j
  show "j \<in> {j. bit n j} \<longleftrightarrow> j \<in> (if odd n then {0} else {}) \<union> Suc ` {j. bit (n div 2) j}"
    by (cases j) (auto simp: bit_0 bit_Suc)
qed

lemma bits_finite: "finite {j. bit (n :: nat) j}"
proof (induction n rule: less_induct)
  case (less n)
  show ?case
  proof (cases "n = 0")
    case False
    then show ?thesis by (subst bits_rec) (simp add: less)
  qed simp
qed

lemma card_bits_rec: "card {j. bit (n :: nat) j} = n mod 2 + card {j. bit (n div 2) j}"
proof -
  have "card {j. bit n j} = card (if odd n then {0 :: nat} else {}) + card (Suc ` {j. bit (n div 2) j})"
    by (subst bits_rec, subst card_Un_disjoint) (auto simp: bits_finite)
  then show ?thesis by (auto simp: card_image odd_iff_mod_2_eq_one)
qed

lemma digits4:
  assumes "n < 4 ^ k"
  shows "\<exists>ds. length ds = k \<and> (\<forall>d \<in> set ds. d < 4) \<and> n = fields 2 ds \<and>
    card {j. bit n j} = sum_list (map (\<lambda>d. d - d div 2) ds)"
  using assms
proof (induction k arbitrary: n)
  case (Suc k)
  then have "n div 4 < 4 ^ k" by (simp add: less_mult_imp_div_less mult.commute)
  from Suc.IH [OF this] obtain ds where ds: "length ds = k" "\<forall>d \<in> set ds. d < 4" "n div 4 = fields 2 ds"
    "card {j. bit (n div 4) j} = sum_list (map (\<lambda>d. d - d div 2) ds)" by blast
  have "card {j. bit n j} = n mod 2 + ((n div 2) mod 2 + card {j. bit (n div 2 div 2) j})"
    using card_bits_rec [of n] card_bits_rec [of "n div 2"] by simp
  also have "n div 2 div 2 = n div 4" by (simp add: div_mult2_eq [symmetric])
  also have "n mod 2 + ((n div 2) mod 2 + card {j. bit (n div 4) j}) =
      (n mod 4 - n mod 4 div 2) + card {j. bit (n div 4) j}"
  proof -
    have "n mod 4 mod 2 = n mod 2" by (simp add: mod_mod_cancel)
    moreover have "n mod 4 div 2 = n div 2 mod 2"
      using mod_mult2_eq [of n 2 2] by simp
    ultimately show ?thesis using mult_div_mod_eq [of 2 "n mod 4"] by linarith
  qed
  finally have "card {j. bit n j} = sum_list (map (\<lambda>d. d - d div 2) (n mod 4 # ds))" using ds(4) by simp
  moreover have "n = fields 2 (n mod 4 # ds)" using mult_div_mod_eq [of 4 n] ds(3) by simp
  moreover have "\<forall>d \<in> set (n mod 4 # ds). d < 4" using ds(2) by simp
  ultimately show ?case using ds(1) by (metis length_Cons)
qed (auto simp: bot_fun_def)


lemma fields_less: "\<forall>d \<in> set ds. d < 2 ^ k \<Longrightarrow> fields k ds < 2 ^ (k * length ds)"
proof (induction ds)
  case (Cons d ds)
  then have "d < 2 ^ k" "Suc (fields k ds) \<le> 2 ^ (k * length ds)" by auto
  then have "d + 2 ^ k * fields k ds < 2 ^ k + 2 ^ k * fields k ds" by simp
  also have "\<dots> = 2 ^ k * Suc (fields k ds)" by simp
  also have "\<dots> \<le> 2 ^ k * 2 ^ (k * length ds)"
    using \<open>Suc (fields k ds) \<le> _\<close> by (intro mult_left_mono) auto
  finally show ?case by (simp add: power_add)
qed simp

lemma length_Suc_list: "length xs = Suc n \<longleftrightarrow> (\<exists>y ys. xs = y # ys \<and> length ys = n)"
  by (cases xs) auto

lemma last_sums:
  fixes a b c d :: nat
  assumes "a \<le> 8" "b \<le> 8" "c \<le> 8" "d \<le> 8"
  defines "x \<equiv> a + 256 * (b + 256 * (c + 256 * d))"
  shows "(x + x div 256 + (x + x div 256) div 65536) mod 64 = a + b + c + d"
proof -
  have "x div 256 = b + 256 * (c + 256 * d)" using assms by simp
  then have s: "x + x div 256 = ((a + b) + 256 * (b + c)) + 65536 * ((c + d) + 256 * d)"
    by (simp add: x_def)
  moreover have "(a + b) + 256 * (b + c) < 65536"
  proof -
    have "b + c \<le> 16" "a + b \<le> 16" using assms(1-3) by simp_all
    then have "256 * (b + c) \<le> 256 * 16" by (intro mult_left_mono) auto
    then show ?thesis using \<open>a + b \<le> 16\<close> by simp
  qed
  ultimately have "(x + x div 256) div 65536 = (c + d) + 256 * d" by simp
  then have E: "x + x div 256 + (x + x div 256) div 65536 =
      (a + b + c + d) + 64 * (4 * (b + c) + 1024 * ((c + d) + 256 * d) + 4 * d)"
    using s by simp
  have "a + b + c + d < 64" using assms(1-4) by simp
  then show ?thesis unfolding E mod_mult_self2 by simp
qed

lemma pop_nat:
  assumes n: "n < 2 ^ 32"
  defines "x1 \<equiv> n - (n div 2 AND 0x55555555)"
  defines "x2 \<equiv> (x1 AND 0x33333333) + (x1 div 4 AND 0x33333333)"
  defines "x3 \<equiv> (x2 + x2 div 16) AND 0x0f0f0f0f"
  shows "n div 2 AND 0x55555555 \<le> n" "x2 < 2 ^ 32" "x3 < 2 ^ 32"
    "(x3 + x3 div 256 + (x3 + x3 div 256) div 65536) mod 64 = card {j. bit n j}"
proof -
  obtain ds where ds: "length ds = 16" "\<forall>d \<in> set ds. d < 4" "n = fields 2 ds"
    "card {j. bit n j} = sum_list (map (\<lambda>d. d - d div 2) ds)"
    using digits4 [of n 16] n by auto
  have masks: "fields 2 (replicate 16 1) = 0x55555555" "low_masks 2 8 = 0x33333333" "low_masks 4 4 = 0x0f0f0f0f"
    by (simp_all add: low_masks_numeral replicate_numeral_Cons)
  let ?e1 = "map (\<lambda>d. d - d div 2) ds"
  have h: "n div 2 AND 0x55555555 = fields 2 (map (\<lambda>d. d div 2) ds)"
    using halves [OF ds(2)] masks(1) ds(1,3) by simp
  show "n div 2 AND 0x55555555 \<le> n" unfolding h using subtract_halves [of ds] ds(3) by simp
  have x1: "x1 = fields 2 ?e1" unfolding x1_def h using subtract_halves [of ds] ds(3) by simp
  have e1: "\<forall>d \<in> set ?e1. d \<le> 2" "length ?e1 = 16" using ds(1,2) by auto
  then have x2: "x2 = fields 4 (pair_sums ?e1)"
    using add_neighbours [of ?e1 2] masks(2) unfolding x2_def x1 by force
  have e2: "\<forall>d \<in> set (pair_sums ?e1). d \<le> 4" "length (pair_sums ?e1) = 8"
    using pair_sums_props(2,3) [of ?e1] e1 by fastforce+
  show "x2 < 2 ^ 32" unfolding x2 using fields_less [of "pair_sums ?e1" 4] e2 by force
  have x3: "x3 = fields 8 (pair_sums (pair_sums ?e1))"
    using and_add_neighbours [of "pair_sums ?e1" 4] masks(3) e2 unfolding x3_def x2 by force
  have e3: "\<forall>d \<in> set (pair_sums (pair_sums ?e1)). d \<le> 8" "length (pair_sums (pair_sums ?e1)) = 4"
    using pair_sums_props(2,3) [of "pair_sums ?e1"] e2 by fastforce+
  show "x3 < 2 ^ 32" unfolding x3 using fields_less [of "pair_sums (pair_sums ?e1)" 8] e3 by force
  obtain a b c d where abcd: "pair_sums (pair_sums ?e1) = [a, b, c, d]"
    using e3(2) by (auto simp: numeral_eq_Suc length_Suc_list)
  have "a + b + c + d = sum_list ?e1"
    using pair_sums_props(1) [of "pair_sums ?e1"] pair_sums_props(1) [of ?e1] unfolding abcd by simp
  moreover have "x3 = a + 256 * (b + 256 * (c + 256 * d))" unfolding x3 abcd by simp
  ultimately show "(x3 + x3 div 256 + (x3 + x3 div 256) div 65536) mod 64 = card {j. bit n j}"
    using last_sums [of a b c d] e3(1) ds(4) unfolding abcd by simp
qed

lemma pop_card:
  assumes "unat x < 2 ^ 32"
  shows "pop x = card {j. bit x j}"
proof -
  define n where "n = unat x"
  define x1 where "x1 = n - (n div 2 AND 0x55555555)"
  define x2 where "x2 = (x1 AND 0x33333333) + (x1 div 4 AND 0x33333333)"
  define x3 where "x3 = (x2 + x2 div 16) AND 0x0f0f0f0f"
  note p = pop_nat [of n, folded x1_def, folded x2_def, folded x3_def]
  have n: "n < 2 ^ 32" using assms by (simp add: n_def)
  have bits: "{j. bit x j} = {j. bit n j}" by (simp add: n_def bit_unsigned_iff) 
  have add: "unat (a + b) = unat a + unat b" if "unat a < 2 ^ 34" "unat b < 2 ^ 34" for a b :: ulong
    using that by (subst unat_plus_if') auto
  have sh: "unat (drop_bit k w) = unat w div 2 ^ k" for k and w :: ulong
    by (subst unat_drop_bit_eq) (rule drop_bit_eq_div)
  have le: "unat (w AND v) \<le> unat v" for w v :: ulong
  proof -
    have "int (unat w AND unat v) \<le> int (unat v)" unfolding of_nat_and_eq by simp
    then show ?thesis unfolding unsigned_and_eq by (rule iffD1 [OF of_nat_le_iff])
  qed
  have x1: "unat (x - (drop_bit 1 x AND 0x55555555)) = x1"
  proof -
    have "unat (drop_bit 1 x) = n div 2" using sh [of 1 x] by (simp add: n_def)
    then have "unat (drop_bit 1 x AND 0x55555555) = (n div 2 AND 0x55555555)"
      unfolding unsigned_and_eq by simp
    moreover have "drop_bit 1 x AND 0x55555555 \<le> x"
      using p(1) [OF n] calculation by (simp add: word_le_nat_alt n_def)
    ultimately show ?thesis by (simp add: unat_sub x1_def n_def)
  qed
  define w1 where "w1 = x - (drop_bit 1 x AND 0x55555555)"
  define w2 where "w2 = (w1 AND 0x33333333) + (drop_bit 2 w1 AND 0x33333333)"
  define w3 where "w3 = (w2 + drop_bit 4 w2) AND 0x0f0f0f0f"
  define w4 where "w4 = w3 + drop_bit 8 w3"
  have a1: "unat (w1 AND 0x33333333) = (x1 AND 0x33333333)"
    "unat (drop_bit 2 w1 AND 0x33333333) = (x1 div 4 AND 0x33333333)"
    using x1 sh [of 2 w1] by (simp_all add: unsigned_and_eq w1_def)
  have w2: "unat w2 = x2"
    unfolding w2_def x2_def a1 [symmetric]
    using le [of w1 "0x33333333"] le [of "drop_bit 2 w1" "0x33333333"] by (intro add) simp_all
  have "unat (w2 + drop_bit 4 w2) = x2 + x2 div 16"
    using p(2) [OF n] sh [of 4 w2] w2 by (subst add) auto
  then have w3: "unat w3 = x3" unfolding w3_def x3_def unsigned_and_eq by simp
  have w4: "unat w4 = x3 + x3 div 256"
    unfolding w4_def using p(3) [OF n] sh [of 8 w3] w3 by (subst add) auto
  have "unat (w4 + drop_bit 16 w4) = x3 + x3 div 256 + (x3 + x3 div 256) div 65536"
    using p(3) [OF n] sh [of 16 w4] w4 by (subst add) auto
  moreover have "pop x = unat (w4 + drop_bit 16 w4) mod 64"
    unfolding pop_def Let_def w1_def [symmetric] w2_def [symmetric] w3_def [symmetric] w4_def [symmetric]
    unfolding unsigned_and_eq using take_bit_eq_mask [of 6 "unat (w4 + drop_bit 16 w4)"]
    by (simp add: take_bit_eq_mod mask_eq_exp_minus_1)
  ultimately show ?thesis using p(4) [OF n] bits by simp
qed
end
