(* ===== verification/Bit_Set.thy ===== *)
theory Bit_Set
  imports Pop_Count
begin

text \<open>
  \<open>decaf::util::BitSet\<close> (\<open>decaf/util/BitSet.cpp\<close>): a growing array of 64 bit words with a cached
  length. The record keeps the allocated array (\<open>bits\<close>, whose list length is the size that was
  allocated) apart from the field \<open>bitsSize\<close> that the code believes to be its size, because the two
  can come apart. Every access is checked against the allocated array; an access outside it is a
  \<open>MemoryFault\<close>. Operations on two sets take two distinct objects; the members that C++ declares
  \<open>const\<close> but that write the \<open>mutable\<close> fields return the updated object as well.

  The second half gives the abstraction of an object to a set of numbers, the class invariant, and
  the refinement of every modifying operation to its set-theoretic meaning; the observers follow in
  \<open>Bit_Set_Queries.thy\<close>.
\<close>

section \<open>The program\<close>

record bitset =
  bits :: "ulong list"
  bitsSize :: nat
  needClear :: bool
  actualArrayLength :: nat
  isLengthActual :: bool

definition ELM_SIZE :: nat where "ELM_SIZE = 64"

definition TWO_N_ARRAY :: "ulong list" where
  "TWO_N_ARRAY = map (\<lambda>k. 2 ^ k) [0..<64]"

text \<open>\<open>index >> OFFSET\<close> and \<open>index & RIGHT_BITS\<close> for an index already known to be non-negative.\<close>

definition elm :: "int \<Rightarrow> nat" where "elm index = nat index div ELM_SIZE"
definition off :: "int \<Rightarrow> nat" where "off index = nat index mod ELM_SIZE"

text \<open>\<open>x << OFFSET\<close> on a 32 bit \<open>int\<close>, which wraps around.\<close>

definition shl_offset :: "nat \<Rightarrow> int" where
  "shl_offset x = sint (push_bit 6 (word_of_nat x :: 32 word))"

text \<open>
  \<open>for (int i = from; i < to; i++) bits[i] = f(i, bits[i])\<close>, where \<open>f\<close> may itself read another array.
\<close>

function for_words ::
  "nat \<Rightarrow> nat \<Rightarrow> (nat \<Rightarrow> ulong \<Rightarrow> ulong result) \<Rightarrow> ulong list \<Rightarrow> ulong list result" where
  "for_words i n f ws =
     (if i < n
      then rbind (arr_get ws (int i)) (\<lambda>w.
           rbind (f i w) (\<lambda>w'.
           rbind (arr_set ws (int i) w') (\<lambda>ws'.
           for_words (Suc i) n f ws')))
      else Ok ws)"
  by pat_completeness auto
termination by (relation "measure (\<lambda>(i, n, _, _). n - i)") auto

declare for_words.simps [simp del]

text \<open>\<open>System::arraycopy(src, 0, dst, 0, n)\<close> on raw pointers.\<close>

definition arraycopy0 :: "ulong list \<Rightarrow> ulong list \<Rightarrow> nat \<Rightarrow> ulong list result" where
  "arraycopy0 src dst n =
     (if n \<le> length src \<and> n \<le> length dst then Ok (take n src @ drop n dst) else Throw MemoryFault)"

definition BitSet_default :: bitset where
  "BitSet_default = \<lparr>bits = [0], bitsSize = 1, needClear = False, actualArrayLength = 0,
     isLengthActual = True\<rparr>"

definition BitSet_new :: "int \<Rightarrow> bitset result" where
  "BitSet_new bitCount =
     (if bitCount < 0 then Throw NegativeArraySizeException
      else let n = elm bitCount + (if off bitCount > 0 then 1 else 0)
           in Ok \<lparr>bits = replicate n 0, bitsSize = n, needClear = False, actualArrayLength = 0,
                   isLengthActual = True\<rparr>)"

definition BitSet_copy :: "bitset \<Rightarrow> bitset result" where
  "BitSet_copy s =
     rbind (arraycopy0 (bits s) (replicate (bitsSize s) 0) (bitsSize s)) (\<lambda>ws.
     Ok \<lparr>bits = ws, bitsSize = bitsSize s, needClear = needClear s,
         actualArrayLength = actualArrayLength s, isLengthActual = isLengthActual s\<rparr>)"

text \<open>
  \<open>operator=\<close>. When both sides are the same object, \<open>set.bits\<close> is the fresh array by the time it is
  copied, so the copy is of that array onto itself and its uninitialised words (\<open>junk\<close>) stay.
\<close>

definition BitSet_assign :: "ulong \<Rightarrow> bool \<Rightarrow> bitset \<Rightarrow> bitset result" where
  "BitSet_assign junk same_object s =
     (let fresh = replicate (bitsSize s) junk
      in rbind (arraycopy0 (if same_object then fresh else bits s) fresh (bitsSize s)) (\<lambda>ws.
         Ok \<lparr>bits = ws, bitsSize = bitsSize s, needClear = needClear s,
             actualArrayLength = actualArrayLength s, isLengthActual = isLengthActual s\<rparr>))"

text \<open>The expression \<open>!((actualArrayLength > 0) && (bits[actualArrayLength - 1] == 0))\<close>.\<close>

definition top_nonzero :: "ulong list \<Rightarrow> nat \<Rightarrow> bool result" where
  "top_nonzero ws n =
     (if n > 0 then rbind (arr_get ws (int (n - 1))) (\<lambda>w. Ok (w \<noteq> 0)) else Ok True)"

definition BitSet_AND :: "bitset \<Rightarrow> bitset \<Rightarrow> bitset result" where
  "BitSet_AND this other =
     (if \<not> needClear this then Ok this
      else
        let length1 = actualArrayLength this; length2 = actualArrayLength other
        in rbind
             (if length1 \<le> length2
              then rbind (for_words 0 length1
                            (\<lambda>i w. rbind (arr_get (bits other) (int i)) (\<lambda>v. Ok (w AND v)))
                            (bits this)) (\<lambda>ws. Ok (ws, length1))
              else rbind (for_words 0 length2
                            (\<lambda>i w. rbind (arr_get (bits other) (int i)) (\<lambda>v. Ok (w AND v)))
                            (bits this)) (\<lambda>ws.
                   rbind (for_words length2 length1 (\<lambda>i w. Ok 0) ws) (\<lambda>ws'.
                   Ok (ws', length2)))) (\<lambda>(ws, len).
           rbind (top_nonzero ws len) (\<lambda>t.
           Ok (this\<lparr>bits := ws, actualArrayLength := len, isLengthActual := t\<rparr>))))"

definition BitSet_andNot :: "bitset \<Rightarrow> bitset \<Rightarrow> bitset result" where
  "BitSet_andNot this other =
     (if \<not> needClear this then Ok this
      else
        let rng = (if actualArrayLength this < actualArrayLength other
                     then actualArrayLength this else actualArrayLength other)
        in rbind (for_words 0 rng
                    (\<lambda>i w. rbind (arr_get (bits other) (int i)) (\<lambda>v. Ok (w AND NOT v)))
                    (bits this)) (\<lambda>ws.
           let len = (if actualArrayLength this < rng then rng else actualArrayLength this)
           in rbind (top_nonzero ws len) (\<lambda>t.
              Ok (this\<lparr>bits := ws, actualArrayLength := len, isLengthActual := t\<rparr>))))"

fun count_loop :: "ulong list \<Rightarrow> nat \<Rightarrow> nat \<Rightarrow> nat \<Rightarrow> nat result" where
  "count_loop ws idx 0 cnt = Ok cnt"
| "count_loop ws idx (Suc n) cnt =
     rbind (arr_get ws (int idx)) (\<lambda>w.
     count_loop ws (Suc idx) n (cnt + pop (w AND 0xffffffff) + pop (drop_bit 32 w)))"

definition BitSet_cardinality :: "bitset \<Rightarrow> nat result" where
  "BitSet_cardinality this =
     (if \<not> needClear this then Ok 0 else count_loop (bits this) 0 (bitsSize this) 0)"

definition BitSet_clearAll :: "bitset \<Rightarrow> bitset result" where
  "BitSet_clearAll this =
     (if needClear this
      then rbind (for_words 0 (bitsSize this) (\<lambda>i w. Ok 0) (bits this)) (\<lambda>ws.
           Ok (this\<lparr>bits := ws, needClear := False, actualArrayLength := 0,
                    isLengthActual := True\<rparr>))
      else Ok this)"

definition BitSet_clear :: "int \<Rightarrow> bitset \<Rightarrow> bitset result" where
  "BitSet_clear index this =
     (if index < 0 then Throw IndexOutOfBoundsException
      else if \<not> needClear this then Ok this
      else
        let arrayPos = elm index
        in if arrayPos < actualArrayLength this
           then rbind (arr_get (bits this) (int arrayPos)) (\<lambda>w.
                rbind (arr_set (bits this) (int arrayPos) (w AND NOT (TWO_N_ARRAY ! off index))) (\<lambda>ws.
                rbind (arr_get ws (int (actualArrayLength this - 1))) (\<lambda>t.
                Ok (this\<lparr>bits := ws,
                         isLengthActual := (if t = 0 then False else isLengthActual this)\<rparr>))))
           else Ok this)"

text \<open>\<open>factor1\<close> and \<open>factor2\<close> of the range operations.\<close>

definition factor1 :: "int \<Rightarrow> ulong" where
  "factor1 fromIndex = push_bit (off fromIndex) (- 1)"

definition factor2 :: "int \<Rightarrow> ulong" where
  "factor2 toIndex = (let shift = ELM_SIZE - off toIndex in if shift < 64 then drop_bit shift (- 1) else - 1)"

text \<open>The body shared by the range operations: the two partial words, then the words in between.\<close>

definition range_words ::
  "int \<Rightarrow> int \<Rightarrow> (ulong \<Rightarrow> ulong \<Rightarrow> ulong) \<Rightarrow> ulong list \<Rightarrow> ulong list result" where
  "range_words fromIndex toIndex f ws =
     (let idx1 = elm fromIndex; idx2 = elm (toIndex - 1)
      in if idx1 = idx2
         then rbind (arr_get ws (int idx1)) (\<lambda>w.
              arr_set ws (int idx1) (f w (factor1 fromIndex AND factor2 toIndex)))
         else rbind (arr_get ws (int idx1)) (\<lambda>w.
              rbind (arr_set ws (int idx1) (f w (factor1 fromIndex))) (\<lambda>ws1.
              rbind (arr_get ws1 (int idx2)) (\<lambda>w2.
              rbind (arr_set ws1 (int idx2) (f w2 (factor2 toIndex))) (\<lambda>ws2.
              for_words (idx1 + 1) idx2 (\<lambda>i w. Ok (f w (- 1))) ws2)))))"

definition bad_range :: "int \<Rightarrow> int \<Rightarrow> bool" where
  "bad_range fromIndex toIndex \<longleftrightarrow> fromIndex < 0 \<or> toIndex < 0 \<or> toIndex < fromIndex"

definition BitSet_clearRange :: "int \<Rightarrow> int \<Rightarrow> bitset \<Rightarrow> bitset result" where
  "BitSet_clearRange fromIndex toIndex this =
     (if bad_range fromIndex toIndex then Throw IndexOutOfBoundsException
      else if \<not> needClear this then Ok this
      else
        let last = shl_offset (actualArrayLength this)
        in if fromIndex \<ge> last \<or> fromIndex = toIndex then Ok this
           else
             let toIndex = (if toIndex > last then last else toIndex)
             in rbind (range_words fromIndex toIndex (\<lambda>w m. w AND NOT m) (bits this)) (\<lambda>ws.
                rbind (top_nonzero ws (actualArrayLength this)) (\<lambda>t.
                Ok (this\<lparr>bits := ws,
                         isLengthActual := (if t then isLengthActual this else False)\<rparr>))))"

text \<open>\<open>while (idx >= 0 && bits[idx] == 0) --idx;\<close> The argument and the result are \<open>idx + 1\<close>.\<close>

fun trim_loop :: "ulong list \<Rightarrow> nat \<Rightarrow> nat result" where
  "trim_loop ws 0 = Ok 0"
| "trim_loop ws (Suc idx) =
     rbind (arr_get ws (int idx)) (\<lambda>w. if w = 0 then trim_loop ws idx else Ok (Suc idx))"

definition getActualArrayLength :: "bitset \<Rightarrow> (nat \<times> bitset) result" where
  "getActualArrayLength this =
     (if isLengthActual this then Ok (actualArrayLength this, this)
      else rbind (trim_loop (bits this) (actualArrayLength this)) (\<lambda>n.
           Ok (n, this\<lparr>actualArrayLength := n, isLengthActual := True\<rparr>)))"

text \<open>
  The results of \<open>OR\<close> and \<open>XOR\<close> are the receiver and the argument. The words of a fresh array that
  the copy does not reach hold an arbitrary value \<open>junk\<close>.
\<close>

definition BitSet_OR :: "ulong \<Rightarrow> bitset \<Rightarrow> bitset \<Rightarrow> (bitset \<times> bitset) result" where
  "BitSet_OR junk this other =
     rbind (getActualArrayLength other) (\<lambda>(setActualLen, other).
     if setActualLen > bitsSize this
     then rbind (arraycopy0 (bits other) (replicate setActualLen junk) (actualArrayLength other)) (\<lambda>tempBits.
          rbind (for_words 0 (actualArrayLength this)
                   (\<lambda>i w. rbind (arr_get (bits this) (int i)) (\<lambda>v. Ok (w OR v))) tempBits) (\<lambda>tempBits.
          Ok (this\<lparr>bits := tempBits, needClear := True, actualArrayLength := setActualLen,
                   isLengthActual := True\<rparr>, other)))
     else rbind (for_words 0 setActualLen
                   (\<lambda>i w. rbind (arr_get (bits other) (int i)) (\<lambda>v. Ok (w OR v))) (bits this)) (\<lambda>ws.
          Ok (if setActualLen > actualArrayLength this
              then this\<lparr>bits := ws, needClear := True, actualArrayLength := setActualLen,
                        isLengthActual := True\<rparr>
              else this\<lparr>bits := ws, needClear := True\<rparr>, other)))"

text \<open>The loops of \<open>equals\<close>: the first index in \<open>from ..< to\<close> whose words differ ends the method.\<close>

fun all_words :: "(nat \<Rightarrow> bool result) \<Rightarrow> nat \<Rightarrow> nat \<Rightarrow> bool result" where
  "all_words p i 0 = Ok True"
| "all_words p i (Suc n) = rbind (p i) (\<lambda>b. if b then all_words p (Suc i) n else Ok False)"

definition same_word :: "ulong list \<Rightarrow> ulong list \<Rightarrow> nat \<Rightarrow> bool result" where
  "same_word ws vs i =
     rbind (arr_get ws (int i)) (\<lambda>w. rbind (arr_get vs (int i)) (\<lambda>v. Ok (w = v)))"

definition zero_word :: "ulong list \<Rightarrow> nat \<Rightarrow> bool result" where
  "zero_word ws i = rbind (arr_get ws (int i)) (\<lambda>w. Ok (w = 0))"

definition BitSet_equals :: "bool \<Rightarrow> bitset \<Rightarrow> bitset \<Rightarrow> bool result" where
  "BitSet_equals same_object this other =
     (if same_object then Ok True
      else
        let length1 = actualArrayLength this; length2 = actualArrayLength other
        in if isLengthActual this \<and> isLengthActual other \<and> length1 \<noteq> length2 then Ok False
           else if length1 \<le> length2
           then rbind (all_words (same_word (bits this) (bits other)) 0 length1) (\<lambda>b.
                if \<not> b then Ok False
                else all_words (zero_word (bits other)) length1 (length2 - length1))
           else rbind (all_words (same_word (bits this) (bits other)) 0 length2) (\<lambda>b.
                if \<not> b then Ok False
                else all_words (zero_word (bits this)) length2 (length1 - length2)))"

definition ensureCapacity :: "nat \<Rightarrow> ulong \<Rightarrow> bitset \<Rightarrow> bitset result" where
  "ensureCapacity len junk this =
     (let newSize = max len (bitsSize this * 2)
      in rbind (arraycopy0 (bits this) (replicate newSize junk) (actualArrayLength this)) (\<lambda>tempBits.
         rbind (for_words (actualArrayLength this) newSize (\<lambda>i w. Ok 0) tempBits) (\<lambda>tempBits.
         Ok (this\<lparr>bits := tempBits, bitsSize := newSize\<rparr>))))"

definition grow :: "nat \<Rightarrow> ulong \<Rightarrow> bitset \<Rightarrow> bitset result" where
  "grow len junk this = (if len > bitsSize this then ensureCapacity len junk this else Ok this)"

definition BitSet_flip :: "ulong \<Rightarrow> int \<Rightarrow> bitset \<Rightarrow> bitset result" where
  "BitSet_flip junk index this =
     (if index < 0 then Throw IndexOutOfBoundsException
      else
        let len = elm index + 1
        in rbind (grow len junk this) (\<lambda>this.
           rbind (arr_get (bits this) (int (len - 1))) (\<lambda>w.
           rbind (arr_set (bits this) (int (len - 1)) (w XOR (TWO_N_ARRAY ! off index))) (\<lambda>ws.
           let alen = (if len > actualArrayLength this then len else actualArrayLength this)
           in rbind (top_nonzero ws alen) (\<lambda>t.
              Ok (this\<lparr>bits := ws, needClear := True, actualArrayLength := alen,
                       isLengthActual := t\<rparr>))))))"

definition BitSet_flipRange :: "ulong \<Rightarrow> int \<Rightarrow> int \<Rightarrow> bitset \<Rightarrow> bitset result" where
  "BitSet_flipRange junk fromIndex toIndex this =
     (if bad_range fromIndex toIndex then Throw IndexOutOfBoundsException
      else if fromIndex = toIndex then Ok this
      else
        let len2 = elm (toIndex - 1) + 1
        in rbind (grow len2 junk this) (\<lambda>this.
           rbind (range_words fromIndex toIndex (\<lambda>w m. w XOR m) (bits this)) (\<lambda>ws.
           let alen = (if len2 > actualArrayLength this then len2 else actualArrayLength this)
           in rbind (top_nonzero ws alen) (\<lambda>t.
              Ok (this\<lparr>bits := ws, needClear := True, actualArrayLength := alen,
                       isLengthActual := t\<rparr>)))))"

definition BitSet_get :: "int \<Rightarrow> bitset \<Rightarrow> bool result" where
  "BitSet_get index this =
     (if index < 0 then Throw IndexOutOfBoundsException
      else
        let arrayPos = elm index
        in if arrayPos < actualArrayLength this
           then rbind (arr_get (bits this) (int arrayPos)) (\<lambda>w.
                Ok ((w AND (TWO_N_ARRAY ! off index)) \<noteq> 0))
           else Ok False)"

text \<open>
  The loop of \<open>get(from, to)\<close> that shifts the copied words to the right; the pair is the new array
  and \<open>actualLen\<close>.
\<close>

function shift_loop :: "nat \<Rightarrow> nat \<Rightarrow> nat \<Rightarrow> ulong list \<Rightarrow> nat \<Rightarrow> (ulong list \<times> nat) result" where
  "shift_loop s n i ws actualLen =
     (if i < n
      then rbind (arr_get ws (int i)) (\<lambda>w.
           rbind (if i \<noteq> n - 1
                  then rbind (arr_get ws (int (i + 1))) (\<lambda>w'.
                       Ok (drop_bit s w OR push_bit (ELM_SIZE - s) w'))
                  else Ok (drop_bit s w)) (\<lambda>v.
           rbind (arr_set ws (int i) v) (\<lambda>ws'.
           shift_loop s n (Suc i) ws' (if v \<noteq> 0 then i + 1 else actualLen))))
      else Ok (ws, actualLen))"
  by pat_completeness auto
termination by (relation "measure (\<lambda>(s, n, i, _, _). n - i)") auto

declare shift_loop.simps [simp del]

definition BitSet_getRange :: "ulong \<Rightarrow> int \<Rightarrow> int \<Rightarrow> bitset \<Rightarrow> bitset result" where
  "BitSet_getRange junk fromIndex toIndex this =
     (if bad_range fromIndex toIndex then Throw IndexOutOfBoundsException
      else
        let last = shl_offset (actualArrayLength this)
        in if fromIndex \<ge> last \<or> fromIndex = toIndex then BitSet_new 0
        else
        let toIndex = (if toIndex > last then last else toIndex);
            idx1 = elm fromIndex; idx2 = elm (toIndex - 1)
        in if idx1 = idx2
        then rbind (arr_get (bits this) (int idx1)) (\<lambda>w.
             let res = drop_bit (off fromIndex) (w AND (factor1 fromIndex AND factor2 toIndex))
             in if res = 0 then BitSet_new 0
                else Ok \<lparr>bits = [res], bitsSize = 1, needClear = needClear this,
                         actualArrayLength = 1, isLengthActual = True\<rparr>)
        else
          let newBitsSize = idx2 - idx1 + 1;
              newbits = replicate newBitsSize junk
          in rbind (arr_get (bits this) (int idx1)) (\<lambda>w1.
             rbind (arr_set newbits 0 (w1 AND factor1 fromIndex)) (\<lambda>newbits.
             rbind (arr_get (bits this) (int idx2)) (\<lambda>w2.
             rbind (arr_set newbits (int (newBitsSize - 1)) (w2 AND factor2 toIndex)) (\<lambda>newbits.
             rbind (for_words 1 (idx2 - idx1) (\<lambda>i w. arr_get (bits this) (int (idx1 + i))) newbits) (\<lambda>newbits.
             let numBitsToShift = off fromIndex
             in rbind (if numBitsToShift \<noteq> 0
                       then shift_loop numBitsToShift newBitsSize 0 newbits newBitsSize
                       else Ok (newbits, newBitsSize)) (\<lambda>(newbits, actualLen).
                rbind (arr_get newbits (int (actualLen - 1))) (\<lambda>t.
                Ok \<lparr>bits = newbits, bitsSize = newBitsSize, needClear = needClear this,
                    actualArrayLength = actualLen, isLengthActual = (t \<noteq> 0)\<rparr>))))))))"

definition BitSet_intersects :: "bitset \<Rightarrow> bitset \<Rightarrow> bool result" where
  "BitSet_intersects this other =
     (let length1 = actualArrayLength this; length2 = actualArrayLength other;
          disj = (\<lambda>i. rbind (arr_get (bits this) (int i)) (\<lambda>w.
                      rbind (arr_get (bits other) (int i)) (\<lambda>v. Ok (w AND v = 0))))
      in if length1 \<le> length2
         then rbind (all_words disj 0 length1) (\<lambda>b. Ok (\<not> b))
         else rbind (all_words disj 0 length2) (\<lambda>b. Ok (\<not> b)))"

definition BitSet_isEmpty :: "bitset \<Rightarrow> bool result" where
  "BitSet_isEmpty this =
     (if \<not> needClear this then Ok True else all_words (zero_word (bits this)) 0 (bitsSize this))"

text \<open>\<open>while ((val & (TWO_N_ARRAY[i])) == 0 && i > 0) i--;\<close>\<close>

fun top_bit :: "ulong \<Rightarrow> nat \<Rightarrow> nat" where
  "top_bit val 0 = 0"
| "top_bit val (Suc i) = (if val AND (TWO_N_ARRAY ! Suc i) = 0 then top_bit val i else Suc i)"

definition BitSet_length :: "bitset \<Rightarrow> (int \<times> bitset) result" where
  "BitSet_length this =
     rbind (trim_loop (bits this) (actualArrayLength this)) (\<lambda>n.
     let this' = this\<lparr>actualArrayLength := n\<rparr>
     in if n = 0 then Ok (0, this')
        else rbind (arr_get (bits this) (int (n - 1))) (\<lambda>val.
             Ok (shl_offset (n - 1) + int (top_bit val (ELM_SIZE - 1)) + 1, this')))"

text \<open>\<open>for (int j = from; j < ELM_SIZE; j++) if (p(j)) return j;\<close>\<close>

function find_bit :: "(nat \<Rightarrow> bool) \<Rightarrow> nat \<Rightarrow> nat option" where
  "find_bit p j = (if j < ELM_SIZE then if p j then Some j else find_bit p (Suc j) else None)"
  by pat_completeness auto
termination by (relation "measure (\<lambda>(p, j). ELM_SIZE - j)") auto

declare find_bit.simps [simp del]

text \<open>\<open>while (idx < length && bits[idx] == v) idx++;\<close>\<close>

function skip_words :: "ulong \<Rightarrow> ulong list \<Rightarrow> nat \<Rightarrow> nat \<Rightarrow> nat result" where
  "skip_words v ws n idx =
     (if idx < n
      then rbind (arr_get ws (int idx)) (\<lambda>w. if w = v then skip_words v ws n (Suc idx) else Ok idx)
      else Ok idx)"
  by pat_completeness auto
termination by (relation "measure (\<lambda>(v, ws, n, idx). n - idx)") auto

declare skip_words.simps [simp del]

definition clear_at :: "ulong \<Rightarrow> nat \<Rightarrow> bool" where
  "clear_at w j \<longleftrightarrow> w AND (TWO_N_ARRAY ! j) = 0"

definition BitSet_nextClearBit :: "int \<Rightarrow> bitset \<Rightarrow> int result" where
  "BitSet_nextClearBit index this =
     (if index < 0 then Throw IndexOutOfBoundsException
      else
        let len = actualArrayLength this; bssize = shl_offset len
        in if index \<ge> bssize then Ok index
           else
             let idx = elm index
             in rbind (arr_get (bits this) (int idx)) (\<lambda>w.
                case (if w \<noteq> - 1 then find_bit (clear_at w) (off index) else None) of
                  Some j \<Rightarrow> Ok (int (idx * ELM_SIZE + j))
                | None \<Rightarrow>
                    rbind (skip_words (- 1) (bits this) len (Suc idx)) (\<lambda>idx.
                    if idx = len then Ok bssize
                    else rbind (arr_get (bits this) (int idx)) (\<lambda>w.
                         case find_bit (clear_at w) 0 of
                           Some j \<Rightarrow> Ok (shl_offset idx + int j)
                         | None \<Rightarrow> Ok bssize))))"

definition BitSet_nextSetBit :: "int \<Rightarrow> bitset \<Rightarrow> int result" where
  "BitSet_nextSetBit index this =
     (if index < 0 then Throw IndexOutOfBoundsException
      else if index \<ge> shl_offset (actualArrayLength this) then Ok (- 1)
      else
        let idx = elm index
        in rbind (arr_get (bits this) (int idx)) (\<lambda>w.
           case (if w \<noteq> 0 then find_bit (\<lambda>j. \<not> clear_at w j) (off index) else None) of
             Some j \<Rightarrow> Ok (shl_offset idx + int j)
           | None \<Rightarrow>
               rbind (skip_words 0 (bits this) (actualArrayLength this) (Suc idx)) (\<lambda>idx.
               if idx = actualArrayLength this then Ok (- 1)
               else rbind (arr_get (bits this) (int idx)) (\<lambda>w.
                    case find_bit (\<lambda>j. \<not> clear_at w j) 0 of
                      Some j \<Rightarrow> Ok (shl_offset idx + int j)
                    | None \<Rightarrow> Ok (- 1)))))"

definition BitSet_set :: "ulong \<Rightarrow> int \<Rightarrow> bitset \<Rightarrow> bitset result" where
  "BitSet_set junk index this =
     (if index < 0 then Throw IndexOutOfBoundsException
      else
        let len = elm index + 1
        in rbind (grow len junk this) (\<lambda>this.
           rbind (arr_get (bits this) (int (len - 1))) (\<lambda>w.
           rbind (arr_set (bits this) (int (len - 1)) (w OR (TWO_N_ARRAY ! off index))) (\<lambda>ws.
           Ok (if len > actualArrayLength this
               then this\<lparr>bits := ws, needClear := True, actualArrayLength := len,
                         isLengthActual := True\<rparr>
               else this\<lparr>bits := ws, needClear := True\<rparr>)))))"

definition BitSet_setValue :: "ulong \<Rightarrow> int \<Rightarrow> bool \<Rightarrow> bitset \<Rightarrow> bitset result" where
  "BitSet_setValue junk index val this =
     (if val then BitSet_set junk index this else BitSet_clear index this)"

definition BitSet_setRange :: "ulong \<Rightarrow> int \<Rightarrow> int \<Rightarrow> bitset \<Rightarrow> bitset result" where
  "BitSet_setRange junk fromIndex toIndex this =
     (if bad_range fromIndex toIndex then Throw IndexOutOfBoundsException
      else if fromIndex = toIndex then Ok this
      else
        let idx2 = elm (toIndex - 1)
        in rbind (grow (idx2 + 1) junk this) (\<lambda>this.
           rbind (range_words fromIndex toIndex (\<lambda>w m. w OR m) (bits this)) (\<lambda>ws.
           Ok (if idx2 + 1 > actualArrayLength this
               then this\<lparr>bits := ws, needClear := True, actualArrayLength := idx2 + 1,
                         isLengthActual := True\<rparr>
               else this\<lparr>bits := ws, needClear := True\<rparr>))))"

definition BitSet_setRangeValue :: "ulong \<Rightarrow> int \<Rightarrow> int \<Rightarrow> bool \<Rightarrow> bitset \<Rightarrow> bitset result" where
  "BitSet_setRangeValue junk fromIndex toIndex val this =
     (if val then BitSet_setRange junk fromIndex toIndex this
      else BitSet_clearRange fromIndex toIndex this)"

definition BitSet_size :: "bitset \<Rightarrow> int" where
  "BitSet_size this = shl_offset (bitsSize this)"

text \<open>The two loops of \<open>toString\<close>; the state is the text so far, \<open>comma\<close> and \<open>bitCount\<close>.\<close>

fun print_bits :: "ulong \<Rightarrow> nat list \<Rightarrow> string \<times> bool \<times> nat \<Rightarrow> string \<times> bool \<times> nat" where
  "print_bits w [] st = st"
| "print_bits w (j # js) (sb, comma, bitCount) =
     print_bits w js
       (if \<not> clear_at w j
        then (sb @ (if comma then '', '' else []) @ to_string (int bitCount), True, bitCount + 1)
        else (sb, comma, bitCount + 1))"

fun print_words :: "ulong list \<Rightarrow> nat \<Rightarrow> nat \<Rightarrow> string \<times> bool \<times> nat \<Rightarrow> (string \<times> bool \<times> nat) result" where
  "print_words ws i 0 st = Ok st"
| "print_words ws i (Suc n) (sb, comma, bitCount) =
     rbind (arr_get ws (int i)) (\<lambda>w.
     print_words ws (Suc i) n
       (if w = 0 then (sb, comma, bitCount + ELM_SIZE)
        else print_bits w [0..<ELM_SIZE] (sb, comma, bitCount)))"

definition BitSet_toString :: "bitset \<Rightarrow> string result" where
  "BitSet_toString this =
     rbind (print_words (bits this) 0 (bitsSize this) (''{'', False, 0)) (\<lambda>(sb, _, _). Ok (sb @ ''}''))"

definition BitSet_XOR :: "ulong \<Rightarrow> bitset \<Rightarrow> bitset \<Rightarrow> (bitset \<times> bitset) result" where
  "BitSet_XOR junk this other =
     rbind (getActualArrayLength other) (\<lambda>(setActualLength, other).
     if setActualLength > bitsSize this
     then rbind (arraycopy0 (bits other) (replicate setActualLength junk) (actualArrayLength other)) (\<lambda>tempBits.
          rbind (for_words 0 (actualArrayLength this)
                   (\<lambda>i w. rbind (arr_get (bits this) (int i)) (\<lambda>v. Ok (w XOR v))) tempBits) (\<lambda>tempBits.
          rbind (top_nonzero tempBits setActualLength) (\<lambda>t.
          Ok (this\<lparr>bits := tempBits, needClear := True, actualArrayLength := setActualLength,
                   isLengthActual := t\<rparr>, other))))
     else rbind (for_words 0 setActualLength
                   (\<lambda>i w. rbind (arr_get (bits other) (int i)) (\<lambda>v. Ok (w XOR v))) (bits this)) (\<lambda>ws.
          Ok (if setActualLength > actualArrayLength this
              then this\<lparr>bits := ws, needClear := True, actualArrayLength := setActualLength,
                        isLengthActual := True\<rparr>
              else this\<lparr>bits := ws, needClear := True\<rparr>, other)))"

section \<open>Words and loops\<close>

lemma clear_at_iff [simp]: "j < 64 \<Longrightarrow> clear_at w j \<longleftrightarrow> \<not> bit w j"
  by (simp add: clear_at_def TWO_N_ARRAY_def and_exp_eq_0_iff_not_bit)

lemma idx_div [simp]: "j < 64 \<Longrightarrow> (64 * i + j) div 64 = (i :: nat)"
  by simp

lemma two_n_bit [simp]: "k < 64 \<Longrightarrow> bit (TWO_N_ARRAY ! k) n \<longleftrightarrow> n = k"
  by (auto simp: TWO_N_ARRAY_def bit_exp_iff)

lemma bit_factor1: "bit (factor1 a) n \<longleftrightarrow> off a \<le> n \<and> n < 64"
  by (auto simp: factor1_def bit_not_iff bit_mask_iff)

lemma off_less [simp]: "off a < 64"
  by (simp add: off_def ELM_SIZE_def)

lemma bit_factor2: "bit (factor2 a) n \<longleftrightarrow> n < 64 \<and> (off a = 0 \<or> n < off a)"
  using off_less [of a]
  by (auto simp: factor2_def Let_def ELM_SIZE_def bit_mask_iff)

lemma sint_word32_int:
  assumes "- (2 ^ 31) \<le> i" "i < 2 ^ 31"
  shows "sint (word_of_int i :: 32 word) = i"
  using signed_take_bit_int_eq_self [of 31 i] assms by (simp add: signed_of_int)

lemma shl_offset_eq [simp]:
  assumes "k < 2 ^ 25"
  shows "shl_offset k = 64 * int k"
proof -
  have "push_bit 6 (word_of_nat k :: 32 word) = word_of_int (64 * int k)"
    by (simp add: push_bit_eq_mult mult.commute)
  then show ?thesis
    using sint_word32_int [of "64 * int k"] assms by (simp add: shl_offset_def)
qed

definition upd_words :: "nat \<Rightarrow> nat \<Rightarrow> (nat \<Rightarrow> ulong \<Rightarrow> ulong) \<Rightarrow> ulong list \<Rightarrow> ulong list" where
  "upd_words i n g ws = map (\<lambda>k. if i \<le> k \<and> k < n then g k (ws ! k) else ws ! k) [0..<length ws]"

lemma length_upd_words [simp]: "length (upd_words i n g ws) = length ws"
  by (simp add: upd_words_def)

lemma nth_upd_words [simp]:
  "k < length ws \<Longrightarrow> upd_words i n g ws ! k = (if i \<le> k \<and> k < n then g k (ws ! k) else ws ! k)"
  by (simp add: upd_words_def)

lemma for_words_eq:
  assumes "n \<le> length ws" "\<And>j. i \<le> j \<Longrightarrow> j < n \<Longrightarrow> f j (ws ! j) = Ok (g j (ws ! j))"
  shows "for_words i n f ws = Ok (upd_words i n g ws)"
  using assms
proof (induction "n - i" arbitrary: i ws)
  case 0
  have "upd_words i n g ws = ws"
    by (rule nth_equalityI) (use 0 in auto)
  then show ?case using 0 by (simp add: for_words.simps [of i])
next
  case (Suc d)
  then have i: "i < n" "i < length ws" by auto
  let ?ws = "ws[i := g i (ws ! i)]"
  have "for_words (Suc i) n f ?ws = Ok (upd_words (Suc i) n g ?ws)"
    using Suc.prems Suc.hyps(2) by (intro Suc.hyps(1)) auto
  moreover have "upd_words (Suc i) n g ?ws = upd_words i n g ws"
    by (rule nth_equalityI) (use i in \<open>auto simp: nth_list_update\<close>)
  ultimately show ?case
    using i Suc.prems(2) [of i] by (simp add: for_words.simps [of i])
qed

lemma all_words_eq:
  assumes "\<And>j. i \<le> j \<Longrightarrow> j < i + n \<Longrightarrow> p j = Ok (q j)"
  shows "all_words p i n = Ok (\<forall>j. i \<le> j \<and> j < i + n \<longrightarrow> q j)"
  using assms
proof (induction n arbitrary: i)
  case 0
  then show ?case by auto
next
  case (Suc n)
  have "p i = Ok (q i)" using Suc.prems [of i] by simp
  moreover have "all_words p (Suc i) n = Ok (\<forall>j. Suc i \<le> j \<and> j < Suc i + n \<longrightarrow> q j)"
    using Suc.prems by (intro Suc.IH) auto
  moreover have "q i \<Longrightarrow> (\<forall>j. Suc i \<le> j \<and> j < Suc i + n \<longrightarrow> q j) =
      (\<forall>j. i \<le> j \<and> j < i + Suc n \<longrightarrow> q j)"
    by (metis Suc_leD Suc_le_eq add_Suc add_Suc_right le_neq_implies_less)
  ultimately show ?case by (cases "q i") auto
qed

section \<open>Abstraction and invariant\<close>

text \<open>The set of bits of an array, and the part of the array above index \<open>k\<close> that is all zero.\<close>

definition wbits :: "ulong list \<Rightarrow> nat set" where
  "wbits ws = {n. n div 64 < length ws \<and> bit (ws ! (n div 64)) (n mod 64)}"

definition zero_from :: "nat \<Rightarrow> ulong list \<Rightarrow> bool" where
  "zero_from k ws \<longleftrightarrow> (\<forall>i < length ws. k \<le> i \<longrightarrow> ws ! i = 0)"

definition bs_set :: "bitset \<Rightarrow> nat set" where
  "bs_set s = wbits (bits s)"

definition bs_inv :: "bitset \<Rightarrow> bool" where
  "bs_inv s \<longleftrightarrow>
     length (bits s) = bitsSize s \<and>
     actualArrayLength s \<le> bitsSize s \<and>
     zero_from (actualArrayLength s) (bits s) \<and>
     (\<not> needClear s \<longrightarrow> zero_from 0 (bits s)) \<and>
     (isLengthActual s \<longrightarrow> 0 < actualArrayLength s \<longrightarrow> bits s ! (actualArrayLength s - 1) \<noteq> 0)"

text \<open>Every index below \<open>2\<^sup>3\<^sup>1 - 64\<close>: then no \<open>actualArrayLength << OFFSET\<close> overflows.\<close>

definition bs_small :: "bitset \<Rightarrow> bool" where
  "bs_small s \<longleftrightarrow> actualArrayLength s < 2 ^ 25"

definition small_index :: "int \<Rightarrow> bool" where
  "small_index i \<longleftrightarrow> i < 2 ^ 31 - 64"

lemma small_index_elm: "small_index i \<Longrightarrow> elm i < 2 ^ 25 - 1"
  unfolding small_index_def elm_def ELM_SIZE_def by simp

lemma bs_invD:
  assumes "bs_inv s"
  shows "length (bits s) = bitsSize s" "actualArrayLength s \<le> bitsSize s"
    "zero_from (actualArrayLength s) (bits s)"
  using assms by (auto simp: bs_inv_def)

lemma mem_wbits: "n \<in> wbits ws \<longleftrightarrow> n div 64 < length ws \<and> bit (ws ! (n div 64)) (n mod 64)"
  by (simp add: wbits_def)

lemma wbits_nth: "64 * i + j \<in> wbits ws \<longleftrightarrow> i < length ws \<and> bit (ws ! i) j" if "j < 64"
  unfolding mem_wbits idx_div [OF that] using that by simp

lemma zero_fromD: "zero_from k ws \<Longrightarrow> k \<le> i \<Longrightarrow> i < length ws \<Longrightarrow> ws ! i = 0"
  by (simp add: zero_from_def)

lemma zero_from_wbits: "zero_from k ws \<longleftrightarrow> (\<forall>n \<in> wbits ws. n < 64 * k)"
proof
  assume z: "zero_from k ws"
  show "\<forall>n \<in> wbits ws. n < 64 * k"
  proof
    fix n assume n: "n \<in> wbits ws"
    have "n div 64 < k"
    proof (rule ccontr)
      assume "\<not> n div 64 < k"
      then have "ws ! (n div 64) = 0" using zero_fromD [OF z, of "n div 64"] n by (simp add: mem_wbits)
      then show False using n by (simp add: mem_wbits)
    qed
    then show "n < 64 * k" by linarith
  qed
next
  assume b: "\<forall>n \<in> wbits ws. n < 64 * k"
  show "zero_from k ws"
    unfolding zero_from_def
  proof (intro allI impI)
    fix i assume i: "i < length ws" "k \<le> i"
    have "\<not> bit (ws ! i) j" for j
    proof
      assume bj: "bit (ws ! i) j"
      then have j: "j < 64" using bit_imp_le_length [of "ws ! i" j] by simp
      then have "64 * i + j \<in> wbits ws" using i bj by (simp add: wbits_nth)
      then show False using b i by fastforce
    qed
    then show "ws ! i = 0" by (simp add: bit_eq_iff)
  qed
qed

lemma word_zero_iff: "i < length ws \<Longrightarrow> ws ! i = 0 \<longleftrightarrow> (\<forall>j < 64. 64 * i + j \<notin> wbits ws)"
  using bit_imp_le_length [of "ws ! i"] by (auto simp: bit_eq_iff wbits_nth)

lemma top_nonzero_eq:
  "n \<le> length ws \<Longrightarrow> top_nonzero ws n = Ok (\<not> (0 < n \<and> ws ! (n - 1) = 0))"
  unfolding top_nonzero_def using arr_get_nat [of "n - 1" ws] by (cases n) auto

text \<open>The word at index \<open>k\<close> as the class sees it: zero at and above \<open>actualArrayLength\<close>.\<close>

definition word_at :: "bitset \<Rightarrow> nat \<Rightarrow> ulong" where
  "word_at s k = (if k < actualArrayLength s then bits s ! k else 0)"

lemma bits_word_at: "bs_inv s \<Longrightarrow> k < bitsSize s \<Longrightarrow> bits s ! k = word_at s k"
  by (auto simp: bs_inv_def word_at_def zero_from_def)

lemma mem_bs_set: "bs_inv s \<Longrightarrow> n \<in> bs_set s \<longleftrightarrow> bit (word_at s (n div 64)) (n mod 64)"
  by (auto simp: bs_inv_def bs_set_def mem_wbits word_at_def zero_from_def)

lemma mem_bs_set_idx: "bs_inv s \<Longrightarrow> j < 64 \<Longrightarrow> 64 * k + j \<in> bs_set s \<longleftrightarrow> bit (word_at s k) j"
  using mem_bs_set [of s "64 * k + j"] idx_div [of j k] by simp

lemma word_at_not_needClear: "bs_inv s \<Longrightarrow> \<not> needClear s \<Longrightarrow> word_at s k = 0"
  by (auto simp: bs_inv_def word_at_def zero_from_def)

lemma bs_set_not_needClear: "bs_inv s \<Longrightarrow> \<not> needClear s \<Longrightarrow> bs_set s = {}"
  by (auto simp: mem_bs_set word_at_not_needClear)

lemma bs_invI:
  assumes "length (bits s) = bitsSize s" "actualArrayLength s \<le> bitsSize s"
    "\<And>k. actualArrayLength s \<le> k \<Longrightarrow> k < bitsSize s \<Longrightarrow> bits s ! k = 0"
    "\<And>k. \<not> needClear s \<Longrightarrow> k < bitsSize s \<Longrightarrow> bits s ! k = 0"
    "isLengthActual s \<Longrightarrow> 0 < actualArrayLength s \<Longrightarrow> bits s ! (actualArrayLength s - 1) \<noteq> 0"
  shows "bs_inv s"
  using assms by (auto simp: bs_inv_def zero_from_def)

text \<open>
  An object whose array holds the words \<open>W\<close>: the invariant and the denoted set follow from \<open>W\<close>.
\<close>

definition holds_words :: "bitset \<Rightarrow> (nat \<Rightarrow> ulong) \<Rightarrow> bool" where
  "holds_words s W \<longleftrightarrow>
     length (bits s) = bitsSize s \<and> (\<forall>k < bitsSize s. bits s ! k = W k) \<and>
     actualArrayLength s \<le> bitsSize s \<and> (\<forall>k \<ge> actualArrayLength s. W k = 0)"

lemma holds_wordsI:
  assumes "length (bits s) = bitsSize s" "actualArrayLength s \<le> bitsSize s"
    "\<And>k. k < bitsSize s \<Longrightarrow> bits s ! k = W k" "\<And>k. actualArrayLength s \<le> k \<Longrightarrow> W k = 0"
  shows "holds_words s W"
  using assms by (simp add: holds_words_def)

lemma holds_words_word_at: "holds_words s W \<Longrightarrow> word_at s = W"
  by (auto simp: holds_words_def word_at_def fun_eq_iff)

lemma holds_words_inv:
  assumes "holds_words s W" "needClear s \<or> (\<forall>k. W k = 0)"
    "isLengthActual s \<Longrightarrow> 0 < actualArrayLength s \<Longrightarrow> W (actualArrayLength s - 1) \<noteq> 0"
  shows "bs_inv s"
  using assms by (intro bs_invI) (auto simp: holds_words_def)

lemma holds_words_set:
  assumes "holds_words s W"
  shows "bs_set s = {n. bit (W (n div 64)) (n mod 64)}"
proof -
  have "n div 64 < length (bits s)" if "bit (W (n div 64)) (n mod 64)" for n
  proof (rule ccontr)
    assume "\<not> n div 64 < length (bits s)"
    then have "W (n div 64) = 0" using assms by (simp add: holds_words_def)
    then show False using that by simp
  qed
  then show ?thesis using assms by (auto simp: bs_set_def mem_wbits holds_words_def)
qed

lemma inv_holds_words: "bs_inv s \<Longrightarrow> holds_words s (word_at s)"
  using bits_word_at [of s] by (auto simp: holds_words_def bs_inv_def word_at_def)

lemma word_at_top:
  "bs_inv s \<Longrightarrow> isLengthActual s \<Longrightarrow> 0 < actualArrayLength s \<Longrightarrow> word_at s (actualArrayLength s - 1) \<noteq> 0"
  by (auto simp: bs_inv_def word_at_def)

lemma word_at_beyond: "actualArrayLength s \<le> k \<Longrightarrow> word_at s k = 0"
  by (simp add: word_at_def)

lemma bs_set_lt: "bs_inv s \<Longrightarrow> n \<in> bs_set s \<Longrightarrow> n < 64 * actualArrayLength s"
  using zero_from_wbits by (auto simp: bs_inv_def bs_set_def)

lemma bs_set_finite: "bs_inv s \<Longrightarrow> finite (bs_set s)"
  using bs_set_lt finite_nat_set_iff_bounded by blast

text \<open>Two well-formed objects denote the same set exactly when all their words agree.\<close>

lemma bs_set_eq_iff:
  assumes "bs_inv s" "bs_inv t"
  shows "bs_set s = bs_set t \<longleftrightarrow> (\<forall>k. word_at s k = word_at t k)"
proof
  assume eq: "bs_set s = bs_set t"
  show "\<forall>k. word_at s k = word_at t k"
  proof
    fix k
    have "bit (word_at s k) j = bit (word_at t k) j" if "j < 64" for j
      using eq mem_bs_set [OF assms(1), of "64 * k + j"] mem_bs_set [OF assms(2), of "64 * k + j"]
      unfolding idx_div [OF that] using that by simp
    then show "word_at s k = word_at t k"
      by (intro bit_word_eqI) simp
  qed
next
  assume "\<forall>k. word_at s k = word_at t k"
  then show "bs_set s = bs_set t" using assms by (auto simp: mem_bs_set)
qed

lemma bs_set_empty_iff: "bs_inv s \<Longrightarrow> bs_set s = {} \<longleftrightarrow> (\<forall>k. word_at s k = 0)"
proof -
  assume s: "bs_inv s"
  have "word_at s k = 0" if "bs_set s = {}" for k
  proof (rule bit_word_eqI)
    fix j assume "j < LENGTH(64)"
    then have j: "j < 64" by simp
    show "bit (word_at s k) j = bit 0 j"
      using that mem_bs_set [OF s, of "64 * k + j"] unfolding idx_div [OF j] using j by simp
  qed
  then show ?thesis using s by (auto simp: mem_bs_set)
qed

lemma elm_off [simp]: "0 \<le> i \<Longrightarrow> 64 * elm i + off i = nat i"
  by (simp add: elm_def off_def ELM_SIZE_def)

lemma elm_off_iff: "0 \<le> i \<Longrightarrow> n = nat i \<longleftrightarrow> n div 64 = elm i \<and> n mod 64 = off i"
  by (metis ELM_SIZE_def elm_def off_def div_mult_mod_eq)

lemma nat_div_elm [simp]: "nat i div 64 = elm i" "nat i mod 64 = off i"
  by (simp_all add: elm_def off_def ELM_SIZE_def)

lemma elm_mono: "i \<le> j \<Longrightarrow> elm i \<le> elm j"
  by (simp add: elm_def div_le_mono)

section \<open>Refinement of the modifying operations\<close>

lemma arraycopy0_eq: "n \<le> length src \<Longrightarrow> n \<le> length dst \<Longrightarrow> arraycopy0 src dst n = Ok (take n src @ drop n dst)"
  by (simp add: arraycopy0_def)

lemma grow_refines:
  assumes s: "bs_inv s"
  obtains s' where "grow len junk s = Ok s'" "bs_inv s'" "len \<le> bitsSize s'"
    "actualArrayLength s' = actualArrayLength s" "needClear s' = needClear s"
    "isLengthActual s' = isLengthActual s" "word_at s' = word_at s"
proof (cases "len > bitsSize s")
  case False
  then show thesis using that [of s] s by (simp add: grow_def)
next
  case True
  define n where "n = max len (bitsSize s * 2)"
  let ?al = "actualArrayLength s"
  let ?copy = "take ?al (bits s) @ drop ?al (replicate n junk)"
  let ?ws = "upd_words ?al n (\<lambda>_ _. 0) ?copy"
  define s' where "s' = s\<lparr>bits := ?ws, bitsSize := n\<rparr>"
  have n: "?al \<le> n" "?al \<le> length (bits s)" "len \<le> n"
    using bs_invD [OF s] True by (auto simp: n_def)
  have fw: "for_words ?al n (\<lambda>i w. Ok 0) ?copy = Ok ?ws"
    using n by (intro for_words_eq) auto
  have eq: "grow len junk s = Ok s'"
    using True fw n by (simp add: grow_def ensureCapacity_def Let_def arraycopy0_eq s'_def flip: n_def)
  have hw: "holds_words s' (word_at s)"
    using n by (intro holds_wordsI) (auto simp: s'_def nth_append word_at_def)
  have inv: "bs_inv s'"
    using word_at_top [OF s] word_at_not_needClear [OF s]
    by (intro holds_words_inv [OF hw]) (auto simp: s'_def)
  show thesis
    by (rule that [OF eq inv _ _ _ _ holds_words_word_at [OF hw]]) (use n in \<open>auto simp: s'_def\<close>)
qed

text \<open>Storing one word of a well-formed object.\<close>

lemma store_word:
  assumes g: "bs_inv g" and k: "k < bitsSize g" "k < al" "actualArrayLength g \<le> al" "al \<le> bitsSize g"
    and t: "t \<longrightarrow> (if k = al - 1 then w else word_at g (al - 1)) \<noteq> 0"
    and s': "s' = g\<lparr>bits := (bits g)[k := w], needClear := True, actualArrayLength := al,
      isLengthActual := t\<rparr>"
  shows "bs_inv s'" "bs_set s' = {n. bit ((if n div 64 = k then w else word_at g (n div 64))) (n mod 64)}"
    "actualArrayLength s' = al"
proof -
  have hw: "holds_words s' ((word_at g)(k := w))"
    using k bs_invD(1) [OF g] bits_word_at [OF g]
    by (intro holds_wordsI) (auto simp: s' nth_list_update word_at_beyond)
  show "bs_inv s'" using t k by (intro holds_words_inv [OF hw]) (auto simp: s')
  show "bs_set s' = {n. bit ((if n div 64 = k then w else word_at g (n div 64))) (n mod 64)}"
    using holds_words_set [OF hw] by simp
  show "actualArrayLength s' = al" by (simp add: s')
qed

lemma set_refines:
  assumes s: "bs_inv s" and i: "0 \<le> i"
  obtains s' where "BitSet_set junk i s = Ok s'" "bs_inv s'" "bs_set s' = insert (nat i) (bs_set s)"
    "actualArrayLength s' = max (actualArrayLength s) (elm i + 1)"
proof -
  obtain g where g: "grow (elm i + 1) junk s = Ok g" "bs_inv g" "elm i + 1 \<le> bitsSize g"
    "actualArrayLength g = actualArrayLength s" "needClear g = needClear s"
    "isLengthActual g = isLengthActual s" "word_at g = word_at s"
    using grow_refines [OF s] by metis
  let ?w = "word_at s (elm i) OR (TWO_N_ARRAY ! off i)"
  define t where "t = (if elm i + 1 > actualArrayLength g then True else isLengthActual g)"
  define al where "al = max (actualArrayLength g) (elm i + 1)"
  define s' where "s' = g\<lparr>bits := (bits g)[elm i := ?w], needClear := True, actualArrayLength := al,
      isLengthActual := t\<rparr>"
  have eq: "BitSet_set junk i s = Ok s'"
    using g(1,3) i bs_invD(1) [OF g(2)] bits_word_at [OF g(2), of "elm i"] g(7)
    by (auto simp: BitSet_set_def Let_def s'_def t_def al_def)
  have "bit ?w (off i)" by (simp add: bit_or_iff)
  then have nz: "?w \<noteq> 0" by (metis bit_0_eq bot_apply bot_bool_def)
  have t: "t \<longrightarrow> (if elm i = al - 1 then ?w else word_at g (al - 1)) \<noteq> 0"
    using nz word_at_top [OF g(2)] by (auto simp: t_def al_def max_def split: if_splits)
  have al: "elm i < bitsSize g" "elm i < al" "actualArrayLength g \<le> al" "al \<le> bitsSize g"
    using g(3) bs_invD(2) [OF g(2)] by (auto simp: al_def)
  note st = store_word [OF g(2) al t s'_def]
  have "bs_set s' = insert (nat i) (bs_set s)"
    unfolding st(2) using i by (auto simp: mem_bs_set [OF s] g(7) bit_or_iff elm_off_iff)
  then show thesis using that [OF eq] st g(4) by (simp add: al_def)
qed

lemma clear_refines:
  assumes s: "bs_inv s" and i: "0 \<le> i"
  obtains s' where "BitSet_clear i s = Ok s'" "bs_inv s'" "bs_set s' = bs_set s - {nat i}"
    "actualArrayLength s' = actualArrayLength s"
proof (cases "needClear s \<and> elm i < actualArrayLength s")
  case False
  have "nat i \<notin> bs_set s"
    using False word_at_not_needClear [OF s] word_at_beyond [of s "elm i"]
    by (auto simp: mem_bs_set [OF s])
  then show thesis using that [of s] False s i by (auto simp: BitSet_clear_def Let_def)
next
  case True
  let ?w = "word_at s (elm i) AND NOT (TWO_N_ARRAY ! off i)" and ?al = "actualArrayLength s"
  define t where "t = ((bits s)[elm i := ?w] ! (?al - 1) \<noteq> 0 \<and> isLengthActual s)"
  define s' where "s' = s\<lparr>bits := (bits s)[elm i := ?w], needClear := True, actualArrayLength := ?al,
      isLengthActual := t\<rparr>"
  have al: "elm i < bitsSize s" "elm i < ?al" "?al \<le> ?al" "?al \<le> bitsSize s"
    using True bs_invD(2) [OF s] by auto
  have len: "?al - Suc 0 < length (bits s)" using al bs_invD(1) [OF s] by simp
  have eq: "BitSet_clear i s = Ok s'"
    using True i al len bs_invD(1) [OF s] bits_word_at [OF s, of "elm i"]
      arr_get_nat [of "?al - 1" "(bits s)[elm i := ?w]"]
    by (auto simp: BitSet_clear_def Let_def s'_def t_def)
  have t: "t \<longrightarrow> (if elm i = ?al - 1 then ?w else word_at s (?al - 1)) \<noteq> 0"
    using len bits_word_at [OF s, of "?al - 1"] bs_invD(1) [OF s] by (auto simp: t_def nth_list_update)
  note st = store_word [OF s al t s'_def]
  have "bs_set s' = bs_set s - {nat i}"
    unfolding st(2) using i by (auto simp: mem_bs_set [OF s] bit_and_iff bit_not_iff elm_off_iff)
  then show thesis using that [OF eq] st by simp
qed

lemma flip_refines:
  assumes s: "bs_inv s" and i: "0 \<le> i"
  obtains s' where "BitSet_flip junk i s = Ok s'" "bs_inv s'"
    "bs_set s' = (if nat i \<in> bs_set s then bs_set s - {nat i} else insert (nat i) (bs_set s))"
    "actualArrayLength s' = max (actualArrayLength s) (elm i + 1)"
proof -
  obtain g where g: "grow (elm i + 1) junk s = Ok g" "bs_inv g" "elm i + 1 \<le> bitsSize g"
    "actualArrayLength g = actualArrayLength s" "needClear g = needClear s"
    "isLengthActual g = isLengthActual s" "word_at g = word_at s"
    using grow_refines [OF s] by metis
  let ?w = "word_at s (elm i) XOR (TWO_N_ARRAY ! off i)"
  define al where "al = max (actualArrayLength g) (elm i + 1)"
  define t where "t = ((bits g)[elm i := ?w] ! (al - 1) \<noteq> 0)"
  define s' where "s' = g\<lparr>bits := (bits g)[elm i := ?w], needClear := True, actualArrayLength := al,
      isLengthActual := t\<rparr>"
  have al: "elm i < bitsSize g" "elm i < al" "actualArrayLength g \<le> al" "al \<le> bitsSize g"
    using g(3) bs_invD(2) [OF g(2)] by (auto simp: al_def)
  have "top_nonzero ((bits g)[elm i := ?w]) al = Ok t"
    using al bs_invD(1) [OF g(2)] by (simp add: top_nonzero_eq t_def)
  then have eq: "BitSet_flip junk i s = Ok s'"
    using g(1,3) i bs_invD(1) [OF g(2)] bits_word_at [OF g(2), of "elm i"] g(7)
    by (auto simp: BitSet_flip_def Let_def s'_def al_def max_def split: if_splits)
  have "al - 1 < bitsSize g" using al by linarith
  then have t: "t \<longrightarrow> (if elm i = al - 1 then ?w else word_at g (al - 1)) \<noteq> 0"
    using al bits_word_at [OF g(2), of "al - 1"] bs_invD(1) [OF g(2)]
    by (auto simp: t_def nth_list_update)
  note st = store_word [OF g(2) al t s'_def]
  have "bs_set s' = (if nat i \<in> bs_set s then bs_set s - {nat i} else insert (nat i) (bs_set s))"
    unfolding st(2) using i by (auto simp: mem_bs_set [OF s] g(7) bit_xor_iff elm_off_iff)
  then show thesis using that [OF eq] st g(4) by (simp add: al_def)
qed

text \<open>The range operations.\<close>

lemma le_64_lex:
  fixes p q r t :: nat
  assumes "r < 64" "t < 64"
  shows "64 * p + t \<le> 64 * q + r \<longleftrightarrow> p < q \<or> p = q \<and> t \<le> r"
  using assms by (cases p q rule: linorder_cases) auto

lemma le_div_mod_64: "(a :: nat) \<le> n \<longleftrightarrow> a div 64 < n div 64 \<or> a div 64 = n div 64 \<and> a mod 64 \<le> n mod 64"
  using le_64_lex [of "n mod 64" "a mod 64" "a div 64" "n div 64"] by simp

lemma less_div_mod_64:
  assumes "0 < b"
  shows "(n :: nat) < b \<longleftrightarrow>
    n div 64 < (b - 1) div 64 \<or> n div 64 = (b - 1) div 64 \<and> (b mod 64 = 0 \<or> n mod 64 < b mod 64)"
proof -
  obtain c where c: "b = Suc c" using assms gr0_implies_Suc by blast
  have "n mod 64 < 64" by simp
  then have "n mod 64 \<le> c mod 64 \<longleftrightarrow> Suc c mod 64 = 0 \<or> n mod 64 < Suc c mod 64"
    by (auto simp: mod_Suc simp del: mod_less_divisor)
  then show ?thesis using le_div_mod_64 [of n c] by (simp add: c less_Suc_eq_le)
qed

definition in_range :: "int \<Rightarrow> int \<Rightarrow> nat \<Rightarrow> bool" where
  "in_range a b n \<longleftrightarrow> nat a \<le> n \<and> n < nat b"

lemma in_range_iff:
  assumes "0 \<le> a" "a < b"
  shows "in_range a b n \<longleftrightarrow>
    elm a \<le> n div 64 \<and> n div 64 \<le> elm (b - 1) \<and>
    (n div 64 = elm a \<longrightarrow> bit (factor1 a) (n mod 64)) \<and>
    (n div 64 = elm (b - 1) \<longrightarrow> bit (factor2 b) (n mod 64))"
proof -
  have "nat (b - 1) = nat b - 1" using assms by simp
  then have e: "(nat b - 1) div 64 = elm (b - 1)" by (metis nat_div_elm(1))
  have l: "elm a \<le> elm (b - 1)" using assms by (intro elm_mono) simp
  have A: "nat a \<le> n \<longleftrightarrow> elm a < n div 64 \<or> elm a = n div 64 \<and> off a \<le> n mod 64"
    using le_div_mod_64 [of "nat a" n] by simp
  have B: "n < nat b \<longleftrightarrow>
      n div 64 < elm (b - 1) \<or> n div 64 = elm (b - 1) \<and> (off b = 0 \<or> n mod 64 < off b)"
    using less_div_mod_64 [of "nat b" n] assms e by simp
  have m: "n mod 64 < 64" by simp
  show ?thesis
    unfolding in_range_def bit_factor1 bit_factor2 A B using m l by (metis le_less nless_le)
qed

text \<open>
  The words after \<open>range_words\<close>, for an operation \<open>f\<close> that works bit by bit as \<open>h\<close> and leaves the
  bits outside the mask alone.
\<close>

lemma range_words_eq:
  assumes r: "0 \<le> a" "a < b" "elm (b - 1) < length ws"
    and f: "\<And>w m j. j < 64 \<Longrightarrow> bit (f w m) j = h (bit w j) (bit m j)" "\<And>x. h x False = x"
  obtains vs where "range_words a b f ws = Ok vs" "length vs = length ws"
    "\<And>k j. k < length ws \<Longrightarrow> j < 64 \<Longrightarrow> bit (vs ! k) j = h (bit (ws ! k) j) (in_range a b (64 * k + j))"
proof (cases "elm a = elm (b - 1)")
  case True
  let ?w = "f (ws ! elm a) (factor1 a AND factor2 b)"
  have len: "elm a < length ws" using r True by simp
  have "bit (ws[elm a := ?w] ! k) j = h (bit (ws ! k) j) (in_range a b (64 * k + j))"
    if "k < length ws" "j < 64" for k j
    using that True f in_range_iff [OF r(1,2), of "64 * k + j"]
    by (cases "k = elm a") (auto simp: nth_list_update bit_and_iff)
  moreover have "range_words a b f ws = Ok (ws[elm a := ?w])"
    using len True by (simp add: range_words_def Let_def)
  ultimately show thesis using that by simp
next
  case False
  have lt: "elm a < elm (b - 1)" using False r elm_mono [of a "b - 1"] by simp
  let ?ws1 = "ws[elm a := f (ws ! elm a) (factor1 a)]"
  let ?ws2 = "?ws1[elm (b - 1) := f (?ws1 ! elm (b - 1)) (factor2 b)]"
  let ?vs = "upd_words (elm a + 1) (elm (b - 1)) (\<lambda>_ w. f w (- 1)) ?ws2"
  have fw: "for_words (elm a + 1) (elm (b - 1)) (\<lambda>i w. Ok (f w (- 1))) ?ws2 = Ok ?vs"
    using r by (intro for_words_eq) auto
  have eq: "range_words a b f ws = Ok ?vs"
    using False lt r fw by (simp add: range_words_def Let_def)
  have "bit (?vs ! k) j = h (bit (ws ! k) j) (in_range a b (64 * k + j))"
    if "k < length ws" "j < 64" for k j
    using that lt f in_range_iff [OF r(1,2), of "64 * k + j"]
    by (cases "k = elm a"; cases "k = elm (b - 1)") (auto simp: nth_list_update)
  then show thesis using that [OF eq] by simp
qed

lemma range_words_set:
  assumes r: "0 \<le> a" "a < b" "elm (b - 1) < length ws"
    and f: "\<And>w m j. j < 64 \<Longrightarrow> bit (f w m) j = h (bit w j) (bit m j)" "\<And>x. h x False = x"
  obtains vs where "range_words a b f ws = Ok vs" "length vs = length ws"
    "wbits vs = {n. n div 64 < length ws \<and> h (n \<in> wbits ws) (in_range a b n)}"
proof -
  obtain vs where vs: "range_words a b f ws = Ok vs" "length vs = length ws"
    "\<And>k j. k < length ws \<Longrightarrow> j < 64 \<Longrightarrow> bit (vs ! k) j = h (bit (ws ! k) j) (in_range a b (64 * k + j))"
    using range_words_eq [where f = f and h = h, OF r f] by metis
  have "n \<in> wbits vs \<longleftrightarrow> n div 64 < length ws \<and> h (n \<in> wbits ws) (in_range a b n)" for n
    using vs(3) [of "n div 64" "n mod 64"] vs(2) by (auto simp: mem_wbits)
  then show thesis using that vs by blast
qed

lemma store_words:
  assumes g: "bs_inv g" and vs: "length vs = bitsSize g" "al \<le> bitsSize g"
    "\<And>n. n \<in> wbits vs \<Longrightarrow> n < 64 * al"
    and t: "t \<longrightarrow> 0 < al \<longrightarrow> vs ! (al - 1) \<noteq> 0"
    and s': "s' = g\<lparr>bits := vs, needClear := True, actualArrayLength := al, isLengthActual := t\<rparr>"
  shows "bs_inv s'" "bs_set s' = wbits vs" "actualArrayLength s' = al"
  using g vs(1,2) t zero_from_wbits [of al vs] vs(3) by (auto simp: s' bs_inv_def bs_set_def)

lemma bs_set_top:
  assumes "bs_inv s" "isLengthActual s" "0 < actualArrayLength s"
  obtains j where "j < 64" "64 * (actualArrayLength s - 1) + j \<in> bs_set s"
proof -
  have "actualArrayLength s - 1 < length (bits s)" using assms by (auto simp: bs_inv_def)
  from word_zero_iff [OF this] show thesis
    using that assms by (auto simp: bs_inv_def bs_set_def)
qed

lemma in_range_elm: "in_range a b n \<Longrightarrow> n div 64 \<le> elm (b - 1)"
  unfolding in_range_def elm_def ELM_SIZE_def by (intro div_le_mono) linarith

lemma bs_set_elm: "bs_inv s \<Longrightarrow> n \<in> bs_set s \<Longrightarrow> n div 64 < actualArrayLength s"
  using bs_set_lt [of s n] by auto

lemma in_range_set: "in_range a b n \<longleftrightarrow> n \<in> {nat a..<nat b}"
  by (simp add: in_range_def)

lemma setRange_refines:
  assumes s: "bs_inv s" and r: "0 \<le> a" "a < b"
  obtains s' where "BitSet_setRange junk a b s = Ok s'" "bs_inv s'"
    "bs_set s' = bs_set s \<union> {nat a..<nat b}"
    "actualArrayLength s' = max (actualArrayLength s) (elm (b - 1) + 1)"
proof -
  let ?e = "elm (b - 1)"
  obtain g where g: "grow (?e + 1) junk s = Ok g" "bs_inv g" "?e + 1 \<le> bitsSize g"
    "actualArrayLength g = actualArrayLength s" "needClear g = needClear s"
    "isLengthActual g = isLengthActual s" "word_at g = word_at s"
    using grow_refines [OF s] by metis
  have gs: "wbits (bits g) = bs_set s" "length (bits g) = bitsSize g"
    using g(2,7) s bs_invD(1) by (auto simp: mem_bs_set simp flip: bs_set_def)
  have e: "?e < length (bits g)" using g(3) gs(2) by simp
  obtain vs where vs: "range_words a b (\<lambda>w m. w OR m) (bits g) = Ok vs" "length vs = length (bits g)"
    "wbits vs = {n. n div 64 < length (bits g) \<and> (n \<in> bs_set s \<or> in_range a b n)}"
    using range_words_set [where f = "\<lambda>w m. w OR m" and h = "(\<or>)", OF r e] gs(1)
    by (auto simp: bit_or_iff)
  have bound: "n div 64 < length (bits g)" if "n \<in> bs_set s \<or> in_range a b n" for n
    using that e in_range_elm [of a b n] bs_set_elm [OF s, of n] bs_invD(2) [OF g(2)] g(4) gs(2) by auto
  have w: "wbits vs = bs_set s \<union> {nat a..<nat b}"
    using vs(3) bound by (auto simp: in_range_set)
  define al where "al = max (actualArrayLength g) (?e + 1)"
  define t where "t = (if ?e + 1 > actualArrayLength g then True else isLengthActual g)"
  define s' where "s' = g\<lparr>bits := vs, needClear := True, actualArrayLength := al, isLengthActual := t\<rparr>"
  have eq: "BitSet_setRange junk a b s = Ok s'"
    using r g(1) vs(1) by (auto simp: BitSet_setRange_def bad_range_def Let_def s'_def al_def t_def)
  have al: "length vs = bitsSize g" "al \<le> bitsSize g"
    using vs(2) gs(2) g(3) bs_invD(2) [OF g(2)] by (auto simp: al_def)
  have lt: "n < 64 * al" if "n \<in> wbits vs" for n
  proof -
    have "n div 64 < al"
      using that vs(3) in_range_elm [of a b n] bs_set_elm [OF s, of n] g(4) by (auto simp: al_def)
    then show ?thesis by simp
  qed
  have t: "t \<longrightarrow> 0 < al \<longrightarrow> vs ! (al - 1) \<noteq> 0"
  proof (intro impI)
    assume t "0 < al"
    have "\<exists>j < 64. 64 * (al - 1) + j \<in> wbits vs"
    proof (cases "?e + 1 > actualArrayLength g")
      case True
      then have "64 * (al - 1) + off (b - 1) = nat (b - 1)" using r by (simp add: al_def)
      moreover have "nat (b - 1) \<in> wbits vs" using w r nat_mono [of a "b - 1"] by simp
      ultimately show ?thesis by (metis off_less)
    next
      case False
      then show ?thesis
        using \<open>t\<close> \<open>0 < al\<close> g(4,6) bs_set_top [OF s] w by (auto simp: t_def al_def max_def split: if_splits)
    qed
    then show "vs ! (al - 1) \<noteq> 0" using word_zero_iff [of "al - 1" vs] al \<open>0 < al\<close> by auto
  qed
  show thesis
    using that [OF eq] store_words [OF g(2) al lt t s'_def] w g(4) by (simp add: al_def)
qed

lemma flipRange_refines:
  assumes s: "bs_inv s" and r: "0 \<le> a" "a < b"
  obtains s' where "BitSet_flipRange junk a b s = Ok s'" "bs_inv s'"
    "bs_set s' = (bs_set s - {nat a..<nat b}) \<union> ({nat a..<nat b} - bs_set s)"
    "actualArrayLength s' = max (actualArrayLength s) (elm (b - 1) + 1)"
proof -
  let ?e = "elm (b - 1)"
  obtain g where g: "grow (?e + 1) junk s = Ok g" "bs_inv g" "?e + 1 \<le> bitsSize g"
    "actualArrayLength g = actualArrayLength s" "needClear g = needClear s"
    "isLengthActual g = isLengthActual s" "word_at g = word_at s"
    using grow_refines [OF s] by metis
  have gs: "wbits (bits g) = bs_set s" "length (bits g) = bitsSize g"
    using g(2,7) s bs_invD(1) by (auto simp: mem_bs_set simp flip: bs_set_def)
  have e: "?e < length (bits g)" using g(3) gs(2) by simp
  obtain vs where vs: "range_words a b (\<lambda>w m. w XOR m) (bits g) = Ok vs" "length vs = length (bits g)"
    "wbits vs = {n. n div 64 < length (bits g) \<and> (n \<in> bs_set s) \<noteq> in_range a b n}"
    using range_words_set [where f = "\<lambda>w m. w XOR m" and h = "(\<noteq>)", OF r e] gs(1)
    by (auto simp: bit_xor_iff)
  have bound: "n div 64 < length (bits g)" if "n \<in> bs_set s \<or> in_range a b n" for n
    using that e in_range_elm [of a b n] bs_set_elm [OF s, of n] bs_invD(2) [OF g(2)] g(4) gs(2) by auto
  have w: "wbits vs = (bs_set s - {nat a..<nat b}) \<union> ({nat a..<nat b} - bs_set s)"
    using vs(3) bound by (auto simp: in_range_set)
  define al where "al = max (actualArrayLength g) (?e + 1)"
  define t where "t = (vs ! (al - 1) \<noteq> 0)"
  define s' where "s' = g\<lparr>bits := vs, needClear := True, actualArrayLength := al, isLengthActual := t\<rparr>"
  have al: "length vs = bitsSize g" "al \<le> bitsSize g" "0 < al"
    using vs(2) gs(2) g(3) bs_invD(2) [OF g(2)] by (auto simp: al_def)
  have "top_nonzero vs al = Ok t" using al by (simp add: top_nonzero_eq t_def)
  then have eq: "BitSet_flipRange junk a b s = Ok s'"
    using r g(1) vs(1)
    by (auto simp: BitSet_flipRange_def bad_range_def Let_def s'_def al_def max_def split: if_splits)
  have lt: "n < 64 * al" if "n \<in> wbits vs" for n
  proof -
    have "n \<in> bs_set s \<or> in_range a b n" using that vs(3) by blast
    then have "n div 64 < al"
      using in_range_elm [of a b n] bs_set_elm [OF s, of n] g(4) by (auto simp: al_def)
    then show ?thesis by simp
  qed
  have t: "t \<longrightarrow> 0 < al \<longrightarrow> vs ! (al - 1) \<noteq> 0" by (simp add: t_def)
  show thesis
    using that [OF eq] store_words [OF g(2) al(1,2) lt t s'_def] w g(4) by (simp add: al_def)
qed

lemma clearRange_refines:
  assumes s: "bs_inv s" "bs_small s" and r: "0 \<le> a" "a < b"
  obtains s' where "BitSet_clearRange a b s = Ok s'" "bs_inv s'"
    "bs_set s' = bs_set s - {nat a..<nat b}" "actualArrayLength s' = actualArrayLength s"
proof (cases "needClear s \<and> a < 64 * int (actualArrayLength s)")
  case False
  have "bs_set s - {nat a..<nat b} = bs_set s"
    using False bs_set_not_needClear [OF s(1)] bs_set_lt [OF s(1)] by fastforce
  then show thesis
    using that [of s] False s r
    by (cases "needClear s") (auto simp: BitSet_clearRange_def bs_small_def Let_def bad_range_def)
next
  case True
  let ?al = "actualArrayLength s"
  define c where "c = (if b > 64 * int ?al then 64 * int ?al else b)"
  have c: "a < c" "c \<le> 64 * int ?al" "c \<le> b" using True r by (auto simp: c_def)
  have "nat (c - 1) div 64 < ?al" using c r True by linarith
  then have e: "elm (c - 1) < length (bits s)"
    using bs_invD(1,2) [OF s(1)] by simp
  obtain vs where vs: "range_words a c (\<lambda>w m. w AND NOT m) (bits s) = Ok vs" "length vs = length (bits s)"
    "wbits vs = {n. n div 64 < length (bits s) \<and> n \<in> bs_set s \<and> \<not> in_range a c n}"
    using range_words_set [where f = "\<lambda>w m. w AND NOT m" and h = "\<lambda>x y. x \<and> \<not> y", OF r(1) c(1) e]
    by (auto simp: bit_and_iff bit_not_iff bs_set_def)
  have w: "wbits vs = bs_set s - {nat a..<nat b}"
  proof -
    have bd: "n div 64 < length (bits s)" "in_range a c n = in_range a b n" if "n \<in> bs_set s" for n
      using bs_set_elm [OF s(1) that] bs_set_lt [OF s(1) that] bs_invD(1,2) [OF s(1)]
      by (auto simp: in_range_def c_def)
    have "n \<in> wbits vs \<longleftrightarrow> n \<in> bs_set s \<and> \<not> in_range a b n" for n
      unfolding vs(3) mem_Collect_eq using bd [of n] by argo
    then show ?thesis by (intro set_eqI) (simp add: in_range_set)
  qed
  have len: "length vs = bitsSize s" "?al \<le> bitsSize s" using vs(2) bs_invD [OF s(1)] by auto
  define t where "t = (vs ! (?al - 1) \<noteq> 0 \<and> isLengthActual s)"
  define s' where "s' = s\<lparr>bits := vs, needClear := True, actualArrayLength := ?al, isLengthActual := t\<rparr>"
  have "top_nonzero vs ?al = Ok (\<not> (0 < ?al \<and> vs ! (?al - 1) = 0))"
    using len by (simp add: top_nonzero_eq)
  then have eq: "BitSet_clearRange a b s = Ok s'"
    using r True s(2) vs(1)
    by (auto simp: BitSet_clearRange_def bad_range_def bs_small_def Let_def s'_def t_def c_def)
  have t: "t \<longrightarrow> 0 < ?al \<longrightarrow> vs ! (?al - 1) \<noteq> 0" by (simp add: t_def)
  have lt: "n < 64 * ?al" if "n \<in> wbits vs" for n using that w bs_set_lt [OF s(1)] by simp
  show thesis using that [OF eq] store_words [OF s(1) len lt t s'_def] w by simp
qed

text \<open>The operations on two sets.\<close>

lemma for_words_other:
  assumes "n \<le> length ws" "n \<le> length vs"
  shows "for_words 0 n (\<lambda>i w. rbind (arr_get vs (int i)) (\<lambda>v. Ok (f w v))) ws =
    Ok (upd_words 0 n (\<lambda>i w. f w (vs ! i)) ws)"
  using assms by (intro for_words_eq) auto

lemma AND_refines:
  assumes s: "bs_inv s" and o: "bs_inv other"
  obtains s' where "BitSet_AND s other = Ok s'" "bs_inv s'" "bs_set s' = bs_set s \<inter> bs_set other"
    "actualArrayLength s' \<le> actualArrayLength s"
proof (cases "needClear s")
  case False
  then show thesis using that [of s] s bs_set_not_needClear [OF s False] by (simp add: BitSet_AND_def)
next
  case True
  let ?l1 = "actualArrayLength s" and ?l2 = "actualArrayLength other"
  define al where "al = min ?l1 ?l2"
  define u where "u = upd_words 0 al (\<lambda>i w. w AND (bits other ! i)) (bits s)"
  define vs where "vs = (if ?l1 \<le> ?l2 then u else upd_words ?l2 ?l1 (\<lambda>i w. 0) u)"
  have lens: "?l1 \<le> length (bits s)" "?l2 \<le> length (bits other)" "length vs = bitsSize s"
    using bs_invD [OF s] bs_invD [OF o] by (auto simp: vs_def u_def)
  have nth: "vs ! k = word_at s k AND word_at other k" if "k < bitsSize s" for k
    using that lens bits_word_at [OF s that]
    by (auto simp: vs_def u_def al_def word_at_def)
  define t where "t = (\<not> (0 < al \<and> vs ! (al - 1) = 0))"
  define s' where "s' = s\<lparr>bits := vs, actualArrayLength := al, isLengthActual := t\<rparr>"
  have "for_words 0 al (\<lambda>i w. rbind (arr_get (bits other) (int i)) (\<lambda>v. Ok (w AND v))) (bits s) = Ok u"
    using lens by (simp add: for_words_other u_def al_def)
  moreover have "for_words ?l2 ?l1 (\<lambda>i w. Ok 0) u = Ok (upd_words ?l2 ?l1 (\<lambda>i w. 0) u)"
    using lens by (intro for_words_eq) (auto simp: u_def)
  moreover have "top_nonzero vs al = Ok t"
    using lens bs_invD [OF s] by (simp add: t_def top_nonzero_eq al_def)
  ultimately have eq: "BitSet_AND s other = Ok s'"
    using True by (auto simp: BitSet_AND_def Let_def s'_def al_def vs_def min_def split: if_splits)
  have hw: "holds_words s' (\<lambda>k. word_at s k AND word_at other k)"
    using nth lens(3) bs_invD [OF s] by (intro holds_wordsI) (auto simp: s'_def al_def word_at_def)
  have "al - 1 < bitsSize s" if "0 < al" using that bs_invD(2) [OF s] unfolding al_def by linarith
  then have inv: "bs_inv s'"
    using True nth by (intro holds_words_inv [OF hw]) (auto simp: s'_def t_def)
  have "bs_set s' = bs_set s \<inter> bs_set other"
    unfolding holds_words_set [OF hw]
    by (auto simp: mem_bs_set [OF s] mem_bs_set [OF o] bit_and_iff)
  then show thesis using that [OF eq inv] by (simp add: s'_def al_def)
qed

lemma andNot_refines:
  assumes s: "bs_inv s" and o: "bs_inv other"
  obtains s' where "BitSet_andNot s other = Ok s'" "bs_inv s'" "bs_set s' = bs_set s - bs_set other"
    "actualArrayLength s' = actualArrayLength s"
proof (cases "needClear s")
  case False
  then show thesis using that [of s] s bs_set_not_needClear [OF s False] by (simp add: BitSet_andNot_def)
next
  case True
  let ?l1 = "actualArrayLength s" and ?l2 = "actualArrayLength other"
  define al where "al = min ?l1 ?l2"
  define vs where "vs = upd_words 0 al (\<lambda>i w. w AND NOT (bits other ! i)) (bits s)"
  have lens: "?l1 \<le> length (bits s)" "?l2 \<le> length (bits other)" "length vs = bitsSize s"
    using bs_invD [OF s] bs_invD [OF o] by (auto simp: vs_def)
  have nth: "vs ! k = word_at s k AND NOT (word_at other k)" if "k < bitsSize s" for k
    using that lens bits_word_at [OF s that] by (auto simp: vs_def al_def word_at_def)
  define t where "t = (\<not> (0 < ?l1 \<and> vs ! (?l1 - 1) = 0))"
  define s' where "s' = s\<lparr>bits := vs, actualArrayLength := ?l1, isLengthActual := t\<rparr>"
  have "for_words 0 al (\<lambda>i w. rbind (arr_get (bits other) (int i)) (\<lambda>v. Ok (w AND NOT v))) (bits s) = Ok vs"
    using lens for_words_other [where f = "\<lambda>w v. w AND NOT v"] by (simp add: vs_def al_def)
  moreover have "top_nonzero vs ?l1 = Ok t"
    using lens bs_invD [OF s] by (simp add: t_def top_nonzero_eq)
  ultimately have eq: "BitSet_andNot s other = Ok s'"
    using True by (auto simp: BitSet_andNot_def Let_def s'_def al_def min_def split: if_splits)
  have hw: "holds_words s' (\<lambda>k. word_at s k AND NOT (word_at other k))"
    using nth lens(3) bs_invD [OF s] by (intro holds_wordsI) (auto simp: s'_def word_at_def)
  have "?l1 - 1 < bitsSize s" if "0 < ?l1" using that bs_invD [OF s] by simp
  then have inv: "bs_inv s'"
    using True nth by (intro holds_words_inv [OF hw]) (auto simp: s'_def t_def)
  have "bs_set s' = bs_set s - bs_set other"
    unfolding holds_words_set [OF hw]
    by (auto simp: mem_bs_set [OF s] mem_bs_set [OF o] bit_and_iff bit_not_iff)
  then show thesis using that [OF eq inv] by (simp add: s'_def)
qed

lemma trim_loop_eq:
  assumes "n \<le> length ws"
  obtains m where "trim_loop ws n = Ok m" "m \<le> n" "\<And>k. m \<le> k \<Longrightarrow> k < n \<Longrightarrow> ws ! k = 0"
    "0 < m \<Longrightarrow> ws ! (m - 1) \<noteq> 0"
proof -
  have "\<exists>m. trim_loop ws n = Ok m \<and> m \<le> n \<and> (\<forall>k. m \<le> k \<and> k < n \<longrightarrow> ws ! k = 0) \<and>
      (0 < m \<longrightarrow> ws ! (m - 1) \<noteq> 0)"
    using assms
  proof (induction n)
    case 0
    then show ?case by simp
  next
    case (Suc n)
    show ?case
    proof (cases "ws ! n = 0")
      case True
      obtain m where "trim_loop ws n = Ok m" "m \<le> n" "\<forall>k. m \<le> k \<and> k < n \<longrightarrow> ws ! k = 0"
        "0 < m \<longrightarrow> ws ! (m - 1) \<noteq> 0"
        using Suc by auto
      then show ?thesis using True Suc.prems by (intro exI [of _ m]) (auto simp: less_Suc_eq)
    next
      case False
      then show ?thesis using Suc.prems by (intro exI [of _ "Suc n"]) auto
    qed
  qed
  then show thesis using that by blast
qed

lemma getActualArrayLength_refines:
  assumes s: "bs_inv s"
  obtains s' where "getActualArrayLength s = Ok (actualArrayLength s', s')" "bs_inv s'"
    "isLengthActual s'" "actualArrayLength s' \<le> actualArrayLength s" "word_at s' = word_at s"
proof (cases "isLengthActual s")
  case True
  then show thesis using that [of s] s by (simp add: getActualArrayLength_def)
next
  case False
  obtain m where m: "trim_loop (bits s) (actualArrayLength s) = Ok m" "m \<le> actualArrayLength s"
    "\<And>k. m \<le> k \<Longrightarrow> k < actualArrayLength s \<Longrightarrow> bits s ! k = 0" "0 < m \<Longrightarrow> bits s ! (m - 1) \<noteq> 0"
    using trim_loop_eq [of "actualArrayLength s" "bits s"] bs_invD [OF s] by metis
  define s' where "s' = s\<lparr>actualArrayLength := m, isLengthActual := True\<rparr>"
  have hw: "holds_words s' (word_at s)"
  proof (rule holds_wordsI)
    show "word_at s k = 0" if "actualArrayLength s' \<le> k" for k
      using that m(3) [of k] by (simp add: word_at_def s'_def)
  qed (use m(2) bs_invD [OF s] bits_word_at [OF s] in \<open>auto simp: s'_def\<close>)
  have "0 < m \<Longrightarrow> word_at s (m - 1) \<noteq> 0" using m(2,4) by (auto simp: word_at_def)
  then have inv: "bs_inv s'"
    using word_at_not_needClear [OF s] by (intro holds_words_inv [OF hw]) (auto simp: s'_def)
  show thesis
    by (rule that [of s']) (use False m inv holds_words_word_at [OF hw] in
        \<open>auto simp: getActualArrayLength_def s'_def\<close>)
qed

lemma same_word_at_set: "bs_inv s \<Longrightarrow> bs_inv t \<Longrightarrow> word_at s = word_at t \<Longrightarrow> bs_set s = bs_set t"
  by (auto simp: mem_bs_set)

lemma wbits_upd_words:
  assumes "n \<le> length ws"
  shows "wbits (upd_words 0 n g ws) =
    {x. x div 64 < length ws \<and>
        bit (if x div 64 < n then g (x div 64) (ws ! (x div 64)) else ws ! (x div 64)) (x mod 64)}"
  using assms by (auto simp: mem_wbits split: if_splits)

text \<open>
  \<open>OR\<close> denotes the union on both branches. The object stays well formed when the array of the receiver
  is large enough; otherwise \<open>bitsSize\<close> keeps its old value although the array was replaced.
\<close>

lemma OR_fits:
  assumes s: "bs_inv s" and o: "bs_inv other"
    and fits: "\<And>n o'. getActualArrayLength other = Ok (n, o') \<Longrightarrow> n \<le> bitsSize s"
  obtains s' o' where "BitSet_OR junk s other = Ok (s', o')" "bs_inv s'" "bs_inv o'"
    "bs_set s' = bs_set s \<union> bs_set other" "bs_set o' = bs_set other"
proof -
  obtain o' where o': "getActualArrayLength other = Ok (actualArrayLength o', o')" "bs_inv o'"
    "isLengthActual o'" "actualArrayLength o' \<le> actualArrayLength other" "word_at o' = word_at other"
    using getActualArrayLength_refines [OF o] by metis
  let ?n = "actualArrayLength o'"
  have n: "?n \<le> bitsSize s" "?n \<le> length (bits s)" "?n \<le> length (bits o')"
    using fits [OF o'(1)] bs_invD [OF s] bs_invD [OF o'(2)] by auto
  define vs where "vs = upd_words 0 ?n (\<lambda>i w. w OR (bits o' ! i)) (bits s)"
  define t where "t = (if ?n > actualArrayLength s then True else isLengthActual s)"
  define s' where "s' = s\<lparr>bits := vs, needClear := True, actualArrayLength := max ?n (actualArrayLength s),
    isLengthActual := t\<rparr>"
  have eq: "BitSet_OR junk s other = Ok (s', o')"
    using o'(1) n by (auto simp: BitSet_OR_def for_words_other s'_def vs_def t_def max_def)
  have hw: "holds_words s' (\<lambda>k. word_at s k OR word_at o' k)"
    using n bs_invD [OF s] bits_word_at [OF s]
    by (intro holds_wordsI) (auto simp: s'_def vs_def word_at_def)
  have nz: "word_at s k OR word_at o' k \<noteq> 0" if "word_at s k \<noteq> 0 \<or> word_at o' k \<noteq> 0" for k
    using that by (simp add: or_eq_0_iff)
  have inv: "bs_inv s'"
    using word_at_top [OF s] word_at_top [OF o'(2,3)] nz
    by (intro holds_words_inv [OF hw]) (auto simp: s'_def t_def max_def split: if_splits)
  have "bs_set s' = bs_set s \<union> bs_set other"
    unfolding holds_words_set [OF hw] using o'(5)
    by (auto simp: mem_bs_set [OF s] mem_bs_set [OF o] bit_or_iff)
  then show thesis using that [OF eq inv o'(2)] same_word_at_set [OF o'(2) o o'(5)] by simp
qed

lemma XOR_fits:
  assumes s: "bs_inv s" and o: "bs_inv other"
    and fits: "\<And>n o'. getActualArrayLength other = Ok (n, o') \<Longrightarrow> n \<le> bitsSize s"
  obtains s' o' where "BitSet_XOR junk s other = Ok (s', o')" "bs_inv o'"
    "isLengthActual s' \<and> 0 < actualArrayLength s' \<longrightarrow>
       bits s' ! (actualArrayLength s' - 1) \<noteq> 0 \<Longrightarrow> bs_inv s'"
    "bs_set s' = (bs_set s - bs_set other) \<union> (bs_set other - bs_set s)" "bs_set o' = bs_set other"
    "isLengthActual o'" "actualArrayLength s' = max (actualArrayLength o') (actualArrayLength s)"
    "isLengthActual s' = (actualArrayLength s < actualArrayLength o' \<or> isLengthActual s)"
proof -
  obtain o' where o': "getActualArrayLength other = Ok (actualArrayLength o', o')" "bs_inv o'"
    "isLengthActual o'" "actualArrayLength o' \<le> actualArrayLength other" "word_at o' = word_at other"
    using getActualArrayLength_refines [OF o] by metis
  let ?n = "actualArrayLength o'"
  have n: "?n \<le> bitsSize s" "?n \<le> length (bits s)" "?n \<le> length (bits o')"
    using fits [OF o'(1)] bs_invD [OF s] bs_invD [OF o'(2)] by auto
  define vs where "vs = upd_words 0 ?n (\<lambda>i w. w XOR (bits o' ! i)) (bits s)"
  define t where "t = (if ?n > actualArrayLength s then True else isLengthActual s)"
  define s' where "s' = s\<lparr>bits := vs, needClear := True, actualArrayLength := max ?n (actualArrayLength s),
    isLengthActual := t\<rparr>"
  have eq: "BitSet_XOR junk s other = Ok (s', o')"
    using o'(1) n by (auto simp: BitSet_XOR_def for_words_other s'_def vs_def t_def max_def)
  have hw: "holds_words s' (\<lambda>k. word_at s k XOR word_at o' k)"
    using n bs_invD [OF s] bits_word_at [OF s]
    by (intro holds_wordsI) (auto simp: s'_def vs_def word_at_def)
  have inv: "bs_inv s'" if "isLengthActual s' \<and> 0 < actualArrayLength s' \<longrightarrow>
      bits s' ! (actualArrayLength s' - 1) \<noteq> 0"
    using hw that by (auto simp: bs_inv_def holds_words_def zero_from_def s'_def)
  have "bs_set s' = (bs_set s - bs_set other) \<union> (bs_set other - bs_set s)"
    unfolding holds_words_set [OF hw] using o'(5)
    by (auto simp: mem_bs_set [OF s] mem_bs_set [OF o] bit_xor_iff)
  then show thesis
    using that [OF eq o'(2) inv] same_word_at_set [OF o'(2) o o'(5)] o'(3) by (simp add: s'_def t_def)
qed

lemma OR_replaces_array:
  assumes s: "bs_inv s" and o: "bs_inv other" and x: "x \<in> bs_set other" "bitsSize s \<le> x div 64"
  obtains s' o' where "BitSet_OR junk s other = Ok (s', o')" "bitsSize s' = bitsSize s"
    "x div 64 < actualArrayLength s'" "length (bits s') = actualArrayLength s'"
    "bs_set s' = bs_set s \<union> bs_set other"
proof -
  obtain o' where o': "getActualArrayLength other = Ok (actualArrayLength o', o')" "bs_inv o'"
    "isLengthActual o'" "actualArrayLength o' \<le> actualArrayLength other" "word_at o' = word_at other"
    using getActualArrayLength_refines [OF o] by metis
  let ?n = "actualArrayLength o'"
  have os: "bs_set o' = bs_set other" by (rule same_word_at_set [OF o'(2) o o'(5)])
  have n: "x div 64 < ?n" "bitsSize s < ?n" "actualArrayLength s \<le> ?n" "actualArrayLength s \<le> length (bits s)"
    "?n \<le> length (bits o')"
    using bs_set_elm [OF o'(2), of x] x os bs_invD [OF s] bs_invD [OF o'(2)] by auto
  define ts where "ts = take ?n (bits o')"
  define vs where "vs = upd_words 0 (actualArrayLength s) (\<lambda>i w. w OR (bits s ! i)) ts"
  have ts: "length ts = ?n" using n(5) by (simp add: ts_def)
  have cp: "arraycopy0 (bits o') (replicate ?n junk) ?n = Ok ts"
    using n(5) by (simp add: arraycopy0_def ts_def)
  have "for_words 0 (actualArrayLength s) (\<lambda>i w. rbind (arr_get (bits s) (int i)) (\<lambda>v. Ok (w OR v))) ts = Ok vs"
    using n ts by (simp add: for_words_other vs_def)
  then have eq: "BitSet_OR junk s other =
      Ok (s\<lparr>bits := vs, needClear := True, actualArrayLength := ?n, isLengthActual := True\<rparr>, o')"
    using o'(1) n(2) cp by (simp add: BitSet_OR_def)
  have "wbits vs = bs_set s \<union> bs_set other"
  proof (rule set_eqI)
    fix y
    have "y \<in> wbits vs \<longleftrightarrow> y div 64 < ?n \<and> bit (word_at s (y div 64) OR word_at o' (y div 64)) (y mod 64)"
      using n ts by (auto simp: mem_wbits vs_def ts_def word_at_def bit_or_iff)
    also have "\<dots> \<longleftrightarrow> y \<in> bs_set s \<union> bs_set other"
      using bs_set_elm [OF o'(2), of y] bs_set_elm [OF s, of y] n(3)
      unfolding os [symmetric] by (auto simp: mem_bs_set [OF s] mem_bs_set [OF o'(2)] bit_or_iff)
    finally show "y \<in> wbits vs \<longleftrightarrow> y \<in> bs_set s \<union> bs_set other" .
  qed
  then show thesis using that [OF eq] n ts by (simp add: vs_def bs_set_def)
qed

lemma clearAll_refines:
  assumes s: "bs_inv s"
  obtains s' where "BitSet_clearAll s = Ok s'" "bs_inv s'" "bs_set s' = {}" "actualArrayLength s' \<le> actualArrayLength s"
proof (cases "needClear s")
  case False
  then show thesis using that [of s] s bs_set_not_needClear [OF s False] by (simp add: BitSet_clearAll_def)
next
  case True
  define s' where "s' = s\<lparr>bits := upd_words 0 (bitsSize s) (\<lambda>_ _. 0) (bits s), needClear := False,
    actualArrayLength := 0, isLengthActual := True\<rparr>"
  have "for_words 0 (bitsSize s) (\<lambda>i w. Ok 0) (bits s) = Ok (upd_words 0 (bitsSize s) (\<lambda>_ _. 0) (bits s))"
    using bs_invD(1) [OF s] by (intro for_words_eq) auto
  then have eq: "BitSet_clearAll s = Ok s'" using True by (simp add: BitSet_clearAll_def s'_def)
  have hw: "holds_words s' (\<lambda>_. 0)"
    using bs_invD(1) [OF s] by (intro holds_wordsI) (auto simp: s'_def)
  then have "bs_inv s'" by (rule holds_words_inv) (auto simp: s'_def)
  then show thesis using that [OF eq] holds_words_set [OF hw] by (simp add: s'_def)
qed

end
