(* ===== verification/Bit_Set_Queries.thy ===== *)
theory Bit_Set_Queries
  imports Bit_Set
begin

text \<open>
  The observers of \<open>decaf::util::BitSet\<close> against the denoted set, the interface that the message audit
  uses, runs of modifying calls, and the properties of the class. The model of the code is in
  \<open>Bit_Set.thy\<close>.
\<close>

section \<open>The queries\<close>

lemma and_two_n: "j < 64 \<Longrightarrow> w AND (TWO_N_ARRAY ! j) \<noteq> 0 \<longleftrightarrow> bit w j"
  using clear_at_iff [of j w] by (simp add: clear_at_def)

lemma get_refines:
  assumes s: "bs_inv s" and i: "0 \<le> i"
  shows "BitSet_get i s = Ok (nat i \<in> bs_set s)"
  using i bs_invD [OF s]
  by (auto simp: BitSet_get_def Let_def mem_bs_set [OF s] word_at_def and_two_n)

lemma isEmpty_refines:
  assumes s: "bs_inv s"
  shows "BitSet_isEmpty s = Ok (bs_set s = {})"
proof (cases "needClear s")
  case False
  then show ?thesis using bs_set_not_needClear [OF s] by (simp add: BitSet_isEmpty_def)
next
  case True
  have "all_words (zero_word (bits s)) 0 (bitsSize s) =
      Ok (\<forall>j. 0 \<le> j \<and> j < 0 + bitsSize s \<longrightarrow> word_at s j = 0)"
    using bs_invD [OF s] bits_word_at [OF s] by (intro all_words_eq) (simp add: zero_word_def)
  moreover have "(\<forall>j. 0 \<le> j \<and> j < 0 + bitsSize s \<longrightarrow> word_at s j = 0) \<longleftrightarrow> bs_set s = {}"
    unfolding bs_set_empty_iff [OF s] using bs_invD(2) [OF s] word_at_beyond [of s]
    by (metis add_0 le_less_trans not_less zero_le)
  ultimately show ?thesis using True by (simp add: BitSet_isEmpty_def)
qed

lemma equals_refines:
  assumes s: "bs_inv s" and t: "bs_inv t"
  shows "BitSet_equals False s t = Ok (bs_set s = bs_set t)"
proof -
  let ?l1 = "actualArrayLength s" and ?l2 = "actualArrayLength t"
  have lens: "?l1 \<le> length (bits s)" "?l2 \<le> length (bits t)"
    using bs_invD [OF s] bs_invD [OF t] by auto
  have same: "all_words (same_word (bits s) (bits t)) 0 n =
      Ok (\<forall>j. 0 \<le> j \<and> j < 0 + n \<longrightarrow> word_at s j = word_at t j)" if "n \<le> ?l1" "n \<le> ?l2" for n
    using that lens by (intro all_words_eq) (auto simp: same_word_def word_at_def)
  have zero: "all_words (zero_word (bits x)) m (actualArrayLength x - m) =
      Ok (\<forall>j. m \<le> j \<and> j < m + (actualArrayLength x - m) \<longrightarrow> word_at x j = 0)"
    if "actualArrayLength x \<le> length (bits x)" for x m
    using that by (intro all_words_eq) (auto simp: zero_word_def word_at_def)
  show ?thesis
  proof (cases "isLengthActual s \<and> isLengthActual t \<and> ?l1 \<noteq> ?l2")
    case True
    have "\<exists>k. word_at s k \<noteq> word_at t k"
    proof (cases "?l1 < ?l2")
      case lt: True
      then show ?thesis
        using True word_at_top [OF t] word_at_beyond [of s "?l2 - 1"] by (intro exI [of _ "?l2 - 1"]) auto
    next
      case False
      then show ?thesis
        using True word_at_top [OF s] word_at_beyond [of t "?l1 - 1"] by (intro exI [of _ "?l1 - 1"]) auto
    qed
    then have "bs_set s \<noteq> bs_set t" using bs_set_eq_iff [OF s t] by blast
    then show ?thesis using True by (simp add: BitSet_equals_def Let_def)
  next
    case False
    show ?thesis
    proof (cases "?l1 \<le> ?l2")
      case True
      have "(\<forall>k. word_at s k = word_at t k) \<longleftrightarrow>
          (\<forall>j < ?l1. word_at s j = word_at t j) \<and> (\<forall>j. ?l1 \<le> j \<and> j < ?l2 \<longrightarrow> word_at t j = 0)"
        using word_at_beyond [of s] word_at_beyond [of t] by (metis not_less)
      then show ?thesis
        using False True same [of ?l1] zero [OF lens(2), of ?l1] bs_set_eq_iff [OF s t]
        by (auto simp: BitSet_equals_def Let_def)
    next
      case gt: False
      have "(\<forall>k. word_at s k = word_at t k) \<longleftrightarrow>
          (\<forall>j < ?l2. word_at s j = word_at t j) \<and> (\<forall>j. ?l2 \<le> j \<and> j < ?l1 \<longrightarrow> word_at s j = 0)"
        using word_at_beyond [of s] word_at_beyond [of t] by (metis not_less)
      then show ?thesis
        using False gt same [of ?l2] zero [OF lens(1), of ?l2] bs_set_eq_iff [OF s t]
        by (auto simp: BitSet_equals_def Let_def)
    qed
  qed
qed

lemma intersects_refines:
  assumes s: "bs_inv s" and t: "bs_inv t"
  shows "BitSet_intersects s t = Ok (bs_set s \<inter> bs_set t \<noteq> {})"
proof -
  let ?l1 = "actualArrayLength s" and ?l2 = "actualArrayLength t"
  let ?d = "\<lambda>i. rbind (arr_get (bits s) (int i)) (\<lambda>w. rbind (arr_get (bits t) (int i)) (\<lambda>v. Ok (w AND v = 0)))"
  have lens: "?l1 \<le> length (bits s)" "?l2 \<le> length (bits t)"
    using bs_invD [OF s] bs_invD [OF t] by auto
  have loop: "all_words ?d 0 (min ?l1 ?l2) =
      Ok (\<forall>j. 0 \<le> j \<and> j < 0 + min ?l1 ?l2 \<longrightarrow> word_at s j AND word_at t j = 0)"
    using lens by (intro all_words_eq) (auto simp: word_at_def)
  have mem: "n \<in> bs_set s \<inter> bs_set t \<longleftrightarrow> bit (word_at s (n div 64) AND word_at t (n div 64)) (n mod 64)" for n
    by (simp add: mem_bs_set [OF s] mem_bs_set [OF t] bit_and_iff)
  have "bs_set s \<inter> bs_set t = {} \<longleftrightarrow> (\<forall>j < min ?l1 ?l2. word_at s j AND word_at t j = 0)"
  proof
    assume e: "bs_set s \<inter> bs_set t = {}"
    have "\<not> bit (word_at s j AND word_at t j) i" if "i < 64" for i j
      using e mem [of "64 * j + i"] unfolding idx_div [OF that] using that by simp
    then show "\<forall>j < min ?l1 ?l2. word_at s j AND word_at t j = 0"
      by (auto intro!: bit_word_eqI)
  next
    assume z: "\<forall>j < min ?l1 ?l2. word_at s j AND word_at t j = 0"
    have "word_at s j AND word_at t j = 0" for j
      using z word_at_beyond [of s j] word_at_beyond [of t j]
      by (cases "j < min ?l1 ?l2") (auto simp: min_def split: if_splits)
    then show "bs_set s \<inter> bs_set t = {}" unfolding set_eq_iff mem by simp
  qed
  then show ?thesis
    using loop by (cases "?l1 \<le> ?l2") (auto simp: BitSet_intersects_def Let_def)
qed

lemma find_bit_eq:
  "find_bit p j = (if \<exists>k. j \<le> k \<and> k < 64 \<and> p k then Some (LEAST k. j \<le> k \<and> k < 64 \<and> p k) else None)"
proof (induction p j rule: find_bit.induct)
  case (1 p j)
  show ?case
  proof (cases "j < 64 \<and> \<not> p j")
    case True
    have *: "(j \<le> k \<and> k < 64 \<and> p k) \<longleftrightarrow> (Suc j \<le> k \<and> k < 64 \<and> p k)" for k
      using True by (metis Suc_le_eq le_neq_implies_less less_imp_le_nat)
    have "find_bit p j = find_bit p (Suc j)"
      using True by (simp add: find_bit.simps [of p j] ELM_SIZE_def)
    then show ?thesis using 1 True unfolding * by (simp add: ELM_SIZE_def)
  next
    case False
    have "(LEAST k. j \<le> k \<and> k < 64 \<and> p k) = j" if "j < 64"
      using that False by (intro Least_equality) auto
    then show ?thesis using False by (auto simp: find_bit.simps [of p j] ELM_SIZE_def)
  qed
qed

lemma find_bit_SomeD:
  assumes "find_bit p j = Some k"
  shows "j \<le> k" "k < 64" "p k" "\<And>i. j \<le> i \<Longrightarrow> i < k \<Longrightarrow> \<not> p i"
proof -
  have ex: "\<exists>k. j \<le> k \<and> k < 64 \<and> p k" and k: "k = (LEAST k. j \<le> k \<and> k < 64 \<and> p k)"
    using assms by (auto simp: find_bit_eq split: if_splits)
  show *: "j \<le> k" "k < 64" "p k" using LeastI_ex [OF ex] by (auto simp: k)
  show "\<not> p i" if "j \<le> i" "i < k" for i
    using not_less_Least [of i "\<lambda>k. j \<le> k \<and> k < 64 \<and> p k"] that * by (auto simp flip: k)
qed

lemma find_bit_NoneD: "find_bit p j = None \<Longrightarrow> j \<le> k \<Longrightarrow> k < 64 \<Longrightarrow> \<not> p k"
  by (auto simp: find_bit_eq split: if_splits)

lemma skip_words_eq:
  assumes "i \<le> n" "n \<le> length ws"
  obtains m where "skip_words v ws n i = Ok m" "i \<le> m" "m \<le> n"
    "\<And>k. i \<le> k \<Longrightarrow> k < m \<Longrightarrow> ws ! k = v" "m < n \<Longrightarrow> ws ! m \<noteq> v"
proof -
  have "\<exists>m. skip_words v ws n i = Ok m \<and> i \<le> m \<and> m \<le> n \<and> (\<forall>k. i \<le> k \<and> k < m \<longrightarrow> ws ! k = v) \<and>
      (m < n \<longrightarrow> ws ! m \<noteq> v)"
    using assms
  proof (induction "n - i" arbitrary: i)
    case 0
    then show ?case by (intro exI [of _ i]) (auto simp: skip_words.simps [of v])
  next
    case (Suc d)
    then have i: "i < n" "i < length ws" by auto
    show ?case
    proof (cases "ws ! i = v")
      case True
      obtain m where m: "skip_words v ws n (Suc i) = Ok m" "Suc i \<le> m" "m \<le> n"
        "\<forall>k. Suc i \<le> k \<and> k < m \<longrightarrow> ws ! k = v" "m < n \<longrightarrow> ws ! m \<noteq> v"
      proof -
        have "d = n - Suc i" using Suc.hyps(2) by linarith
        from Suc.hyps(1) [OF this] i assms(2) that show thesis by auto
      qed
      have "\<forall>k. i \<le> k \<and> k < m \<longrightarrow> ws ! k = v"
        using m(4) True by (metis Suc_leI le_neq_implies_less)
      then show ?thesis
        using m i True by (intro exI [of _ m]) (auto simp: skip_words.simps [of v ws n i])
    next
      case False
      then show ?thesis using i by (intro exI [of _ i]) (auto simp: skip_words.simps [of v ws n i])
    qed
  qed
  then show thesis using that by blast
qed

text \<open>
  The search common to \<open>nextSetBit\<close> and \<open>nextClearBit\<close>: inside the first word, over the words without
  a hit, inside the word that has one. \<open>P\<close> is the wanted property of an index, \<open>v\<close> the word with no hit.
\<close>

lemma least_from:
  assumes "a \<le> m" "P m" "\<And>n. a \<le> n \<Longrightarrow> n < m \<Longrightarrow> \<not> P n"
  shows "(\<exists>n \<ge> a. P n) \<and> (LEAST n. a \<le> n \<and> P n) = (m :: nat)"
proof -
  have "(LEAST n. a \<le> n \<and> P n) = m"
    using assms by (intro Least_equality) (auto simp: not_less [symmetric])
  then show ?thesis using assms by auto
qed

lemma between_words:
  fixes n i k :: nat
  assumes "64 * i + a \<le> n" "n < 64 * k + j" "a < 64" "j < 64"
  shows "n div 64 = i \<and> a \<le> n mod 64 \<and> (i = k \<longrightarrow> n mod 64 < j) \<or>
    i < n div 64 \<and> n div 64 < k \<or> i < n div 64 \<and> n div 64 = k \<and> n mod 64 < j"
proof -
  have m: "n = 64 * (n div 64) + n mod 64" "n mod 64 < 64" by simp_all
  have "i \<le> n div 64" "n div 64 \<le> k" using assms m by linarith+
  moreover have "a \<le> n mod 64" if "n div 64 = i" using assms m that by linarith
  moreover have "n mod 64 < j" if "n div 64 = k" using assms m that by linarith
  ultimately show ?thesis by linarith
qed

lemma elm_int: "0 \<le> i \<Longrightarrow> i < 64 * int n \<Longrightarrow> elm i < n"
  unfolding elm_def ELM_SIZE_def by linarith

lemma first_word_search:
  assumes i: "0 \<le> i"
  shows "find_bit (hit (ws ! elm i)) (off i) = Some j \<Longrightarrow>
      nat i \<le> 64 * elm i + j \<and> j < 64 \<and> hit (ws ! elm i) j \<and>
      (\<forall>n. nat i \<le> n \<and> n < 64 * elm i + j \<longrightarrow> \<not> hit (ws ! (n div 64)) (n mod 64))"
    "find_bit (hit (ws ! elm i)) (off i) = None \<Longrightarrow> nat i \<le> n \<Longrightarrow> n div 64 = elm i \<Longrightarrow>
      \<not> hit (ws ! (n div 64)) (n mod 64)"
proof -
  have ni: "nat i = 64 * elm i + off i" using i by simp
  show "nat i \<le> 64 * elm i + j \<and> j < 64 \<and> hit (ws ! elm i) j \<and>
      (\<forall>n. nat i \<le> n \<and> n < 64 * elm i + j \<longrightarrow> \<not> hit (ws ! (n div 64)) (n mod 64))"
    if f: "find_bit (hit (ws ! elm i)) (off i) = Some j"
  proof (intro conjI allI impI)
    note j = find_bit_SomeD [OF f]
    show "nat i \<le> 64 * elm i + j" "j < 64" "hit (ws ! elm i) j" using ni j(1-3) by auto
    fix n assume n: "nat i \<le> n \<and> n < 64 * elm i + j"
    have "n div 64 = elm i" "off i \<le> n mod 64" "n mod 64 < j"
      using between_words [of "elm i" "off i" n "elm i" j] n ni j(2) by auto
    then show "\<not> hit (ws ! (n div 64)) (n mod 64)" using j(4) [of "n mod 64"] by simp
  qed
  show "\<not> hit (ws ! (n div 64)) (n mod 64)"
    if f: "find_bit (hit (ws ! elm i)) (off i) = None" and n: "nat i \<le> n" "n div 64 = elm i"
  proof -
    have "off i \<le> n mod 64" using n ni div_mult_mod_eq [of n 64] by linarith
    then show ?thesis using find_bit_NoneD [OF f, of "n mod 64"] n(2) by simp
  qed
qed

lemma later_word_search:
  assumes i: "0 \<le> i" "elm i < al" "al \<le> length ws"
    and v: "\<And>w. (\<forall>j < 64. \<not> hit w j) \<longleftrightarrow> w = v"
    and none: "find_bit (hit (ws ! elm i)) (off i) = None"
  obtains m where "skip_words v ws al (Suc (elm i)) = Ok m" "m \<le> al"
    "\<And>n. nat i \<le> n \<Longrightarrow> n div 64 < m \<Longrightarrow> \<not> hit (ws ! (n div 64)) (n mod 64)"
    "m < al \<Longrightarrow> \<exists>j. find_bit (hit (ws ! m)) 0 = Some j \<and> nat i \<le> 64 * m + j \<and> j < 64 \<and> hit (ws ! m) j \<and>
      (\<forall>n. nat i \<le> n \<and> n < 64 * m + j \<longrightarrow> \<not> hit (ws ! (n div 64)) (n mod 64))"
proof -
  have ni: "nat i = 64 * elm i + off i" using i by simp
  obtain m where m: "skip_words v ws al (Suc (elm i)) = Ok m" "Suc (elm i) \<le> m" "m \<le> al"
    "\<And>k. Suc (elm i) \<le> k \<Longrightarrow> k < m \<Longrightarrow> ws ! k = v" "m < al \<Longrightarrow> ws ! m \<noteq> v"
    using skip_words_eq [of "Suc (elm i)" al ws v] i by (metis Suc_leI)
  have mid: "\<not> hit (ws ! (n div 64)) (n mod 64)" if "nat i \<le> n" "n div 64 < m" for n
  proof (cases "n div 64 = elm i")
    case True
    then show ?thesis using first_word_search(2) [where hit = hit and ws = ws, OF i(1) none] that by blast
  next
    case False
    then have "Suc (elm i) \<le> n div 64"
      using that(1) div_le_mono [of "nat i" n 64] by simp
    then have "ws ! (n div 64) = v" using m(4) that(2) by blast
    moreover have "n mod 64 < 64" by simp
    ultimately show ?thesis using v [of v] by metis
  qed
  have "\<exists>j. find_bit (hit (ws ! m)) 0 = Some j \<and> nat i \<le> 64 * m + j \<and> j < 64 \<and> hit (ws ! m) j \<and>
      (\<forall>n. nat i \<le> n \<and> n < 64 * m + j \<longrightarrow> \<not> hit (ws ! (n div 64)) (n mod 64))" if ml: "m < al"
  proof (cases "find_bit (hit (ws ! m)) 0")
    case None
    then have "ws ! m = v" using v [of "ws ! m"] find_bit_NoneD [OF None] by blast
    then show ?thesis using m(5) ml by simp
  next
    case (Some j)
    note j = find_bit_SomeD [OF Some]
    have "\<not> hit (ws ! (n div 64)) (n mod 64)" if n: "nat i \<le> n" "n < 64 * m + j" for n
    proof (cases "n div 64 < m")
      case False
      then have "n div 64 = m" "n mod 64 < j"
        using between_words [of "elm i" "off i" n m j] n ni j(2) m(2) by auto
      then show ?thesis using j(4) [of "n mod 64"] by simp
    qed (use mid n in blast)
    moreover have "nat i \<le> 64 * m + j" using ni m(2) off_less [of i] by linarith
    ultimately show ?thesis using Some j by blast
  qed
  then show thesis using that m(1,3) mid by blast
qed

lemma least_hit:
  assumes "nat i \<le> m" "P m" "\<forall>n. nat i \<le> n \<and> n < m \<longrightarrow> \<not> P n"
  shows "(\<exists>n \<ge> nat i. P n)" "(LEAST n. nat i \<le> n \<and> P n) = (m :: nat)"
  using least_from [of "nat i" m P] assms by auto

lemma search_refines:
  assumes i: "0 \<le> i" "elm i < al" "al \<le> length ws" "al < 2 ^ 25"
    and v: "\<And>w. (\<forall>j < 64. \<not> hit w j) \<longleftrightarrow> w = v"
    and P: "P = (\<lambda>n. n div 64 < al \<and> hit (ws ! (n div 64)) (n mod 64))"
  shows "(case find_bit (hit (ws ! elm i)) (off i) of
      Some j \<Rightarrow> Ok (64 * int (elm i) + int j)
    | None \<Rightarrow> rbind (skip_words v ws al (Suc (elm i))) (\<lambda>idx.
        if idx = al then Ok d
        else rbind (arr_get ws (int idx)) (\<lambda>w.
          case find_bit (hit w) 0 of Some j \<Rightarrow> Ok (shl_offset idx + int j) | None \<Rightarrow> Ok d))) =
    Ok (if \<exists>n \<ge> nat i. P n then int (LEAST n. nat i \<le> n \<and> P n) else d)"
proof (cases "find_bit (hit (ws ! elm i)) (off i)")
  case (Some j)
  have j: "nat i \<le> 64 * elm i + j" "j < 64" "hit (ws ! elm i) j"
    "\<forall>n. nat i \<le> n \<and> n < 64 * elm i + j \<longrightarrow> \<not> hit (ws ! (n div 64)) (n mod 64)"
    using first_word_search(1) [where hit = hit and ws = ws, OF i(1) Some] by blast+
  have "P (64 * elm i + j)" "\<forall>n. nat i \<le> n \<and> n < 64 * elm i + j \<longrightarrow> \<not> P n"
    using j(2-4) i(2) by (auto simp: P)
  then show ?thesis using least_hit [of i, OF j(1)] Some by simp
next
  case None
  obtain m where m: "skip_words v ws al (Suc (elm i)) = Ok m" "m \<le> al"
    "\<And>n. nat i \<le> n \<Longrightarrow> n div 64 < m \<Longrightarrow> \<not> hit (ws ! (n div 64)) (n mod 64)"
    "m < al \<Longrightarrow> \<exists>j. find_bit (hit (ws ! m)) 0 = Some j \<and> nat i \<le> 64 * m + j \<and> j < 64 \<and> hit (ws ! m) j \<and>
      (\<forall>n. nat i \<le> n \<and> n < 64 * m + j \<longrightarrow> \<not> hit (ws ! (n div 64)) (n mod 64))"
    using later_word_search [where hit = hit, OF i(1-3) v None] by blast
  show ?thesis
  proof (cases "m = al")
    case True
    have "\<not> (\<exists>n \<ge> nat i. P n)" using m(3) True by (auto simp: P)
    then show ?thesis using None m(1) True by auto
  next
    case False
    then obtain j where j: "find_bit (hit (ws ! m)) 0 = Some j" "nat i \<le> 64 * m + j" "j < 64"
      "hit (ws ! m) j" "\<forall>n. nat i \<le> n \<and> n < 64 * m + j \<longrightarrow> \<not> hit (ws ! (n div 64)) (n mod 64)"
      using m(2,4) by (meson le_neq_implies_less)
    have "P (64 * m + j)" "\<forall>n. nat i \<le> n \<and> n < 64 * m + j \<longrightarrow> \<not> P n"
      using j(3-5) False m(2) by (auto simp: P)
    then show ?thesis using least_hit [of i, OF j(2)] None m(1,2) False i(3,4) j(1) by simp
  qed
qed

lemma nextSetBit_refines:
  assumes s: "bs_inv s" "bs_small s" and i: "0 \<le> i"
  shows "BitSet_nextSetBit i s =
    Ok (if \<exists>n \<ge> nat i. n \<in> bs_set s then int (LEAST n. nat i \<le> n \<and> n \<in> bs_set s) else - 1)"
proof (cases "i < 64 * int (actualArrayLength s)")
  case False
  have "\<not> (\<exists>n \<ge> nat i. n \<in> bs_set s)" using False bs_set_lt [OF s(1)] by fastforce
  then show ?thesis using False i s(2) by (auto simp: BitSet_nextSetBit_def bs_small_def)
next
  case True
  let ?al = "actualArrayLength s"
  have e: "elm i < ?al" "?al \<le> length (bits s)" "?al < 2 ^ 25"
    using True i bs_invD [OF s(1)] s(2) by (auto simp: bs_small_def intro: elm_int)
  have mem: "(\<lambda>n. n \<in> bs_set s) = (\<lambda>n. n div 64 < ?al \<and> \<not> clear_at (bits s ! (n div 64)) (n mod 64))"
    by (auto simp: mem_bs_set [OF s(1)] word_at_def)
  have v: "(\<forall>j < 64. \<not> \<not> clear_at w j) \<longleftrightarrow> w = 0" for w by (auto intro: bit_word_eqI)
  have none: "find_bit (\<lambda>j. \<not> clear_at 0 j) (off i) = None" by (simp add: find_bit_eq)
  have sh: "shl_offset (elm i) = 64 * int (elm i)" using e by simp
  show ?thesis
    unfolding search_refines [where hit = "\<lambda>w j. \<not> clear_at w j" and d = "- 1", OF i e v mem, symmetric]
    using True i e none
    by (cases "bits s ! elm i = 0") (simp_all add: BitSet_nextSetBit_def Let_def sh cong: option.case_cong)
qed

lemma nextClearBit_refines:
  assumes s: "bs_inv s" "bs_small s" and i: "0 \<le> i"
  shows "BitSet_nextClearBit i s = Ok (int (LEAST n. nat i \<le> n \<and> n \<notin> bs_set s))"
proof (cases "i < 64 * int (actualArrayLength s)")
  case False
  have "nat i \<notin> bs_set s" using False bs_set_lt [OF s(1), of "nat i"] i by auto
  then have "(LEAST n. nat i \<le> n \<and> n \<notin> bs_set s) = nat i" by (intro Least_equality) auto
  then show ?thesis using False i s(2) by (simp add: BitSet_nextClearBit_def bs_small_def)
next
  case True
  let ?al = "actualArrayLength s"
  define P where "P = (\<lambda>n. n div 64 < ?al \<and> clear_at (bits s ! (n div 64)) (n mod 64))"
  have e: "elm i < ?al" "?al \<le> length (bits s)" "?al < 2 ^ 25"
    using True i bs_invD [OF s(1)] s(2) by (auto simp: bs_small_def intro: elm_int)
  have v: "(\<forall>j < 64. \<not> clear_at w j) \<longleftrightarrow> w = - 1" for w by (auto intro: bit_word_eqI)
  have none: "find_bit (clear_at (- 1)) (off i) = None" by (simp add: find_bit_eq)
  have mem: "n \<notin> bs_set s \<longleftrightarrow> P n \<or> 64 * ?al \<le> n" for n
    using bs_set_lt [OF s(1), of n] by (auto simp: mem_bs_set [OF s(1)] word_at_def P_def)
  have least: "(if \<exists>n \<ge> nat i. P n then int (LEAST n. nat i \<le> n \<and> P n) else 64 * int ?al) =
      int (LEAST n. nat i \<le> n \<and> n \<notin> bs_set s)"
  proof (cases "\<exists>n \<ge> nat i. P n")
    case ex: True
    let ?m = "LEAST n. nat i \<le> n \<and> P n"
    have m: "nat i \<le> ?m" "P ?m" using LeastI_ex [OF ex] by auto
    have "?m div 64 < ?al" using m(2) unfolding P_def by blast
    then have "?m < 64 * ?al" by linarith
    then have "(LEAST n. nat i \<le> n \<and> n \<notin> bs_set s) = ?m"
      using m mem not_less_Least [of _ "\<lambda>n. nat i \<le> n \<and> P n"]
      by (intro Least_equality) (auto simp: not_less [symmetric])
    then show ?thesis using ex by simp
  next
    case nex: False
    have "(LEAST n. nat i \<le> n \<and> n \<notin> bs_set s) = 64 * ?al"
      using nex mem True by (intro Least_equality) auto
    then show ?thesis using nex by auto
  qed
  have sh: "shl_offset ?al = 64 * int ?al" using e by simp
  have mi: "int (elm i * ELM_SIZE + j) = 64 * int (elm i) + int j" for j by (simp add: ELM_SIZE_def)
  show ?thesis
    unfolding least [symmetric]
      search_refines [where hit = clear_at and d = "64 * int ?al", OF i e v P_def, symmetric]
    using True i e none
    unfolding BitSet_nextClearBit_def Let_def sh mi
    by (cases "bits s ! elm i = - 1") simp_all
qed

lemma top_bit_props:
  "top_bit val i \<le> i" "top_bit val i < k \<Longrightarrow> k \<le> i \<Longrightarrow> i < 64 \<Longrightarrow> \<not> bit val k"
  "0 < top_bit val i \<Longrightarrow> i < 64 \<Longrightarrow> bit val (top_bit val i)"
proof -
  show "top_bit val i \<le> i" by (induction i) auto
  show "\<not> bit val k" if "top_bit val i < k" "k \<le> i" "i < 64"
    using that
  proof (induction i)
    case (Suc i)
    then show ?case using and_two_n [of "Suc i" val] by (cases "k = Suc i") (auto split: if_splits)
  qed simp
  show "bit val (top_bit val i)" if "0 < top_bit val i" "i < 64"
    using that
  proof (induction i)
    case (Suc i)
    then show ?case using and_two_n [of "Suc i" val] by (auto split: if_splits)
  qed simp
qed

lemma top_bit_63:
  assumes "val \<noteq> 0"
  shows "bit val (top_bit val 63)" "bit val k \<Longrightarrow> k \<le> top_bit val 63"
proof -
  have *: "k \<le> top_bit val 63" if "bit val k" for k
    using that top_bit_props(2) [of val 63 k] bit_imp_le_length [of val k] by fastforce
  show "bit val k \<Longrightarrow> k \<le> top_bit val 63" by (rule *)
  show "bit val (top_bit val 63)"
  proof (cases "0 < top_bit val 63")
    case True
    then show ?thesis using top_bit_props(3) [of val 63] by simp
  next
    case False
    then have "bit val k \<Longrightarrow> k = 0" for k using * [of k] by simp
    moreover have "\<exists>k. bit val k" using assms bit_eq_iff [of val 0] by auto
    ultimately show ?thesis using False by auto
  qed
qed

lemma length_refines:
  assumes s: "bs_inv s" "bs_small s"
  obtains s' where "BitSet_length s = Ok (if bs_set s = {} then 0 else int (Max (bs_set s)) + 1, s')"
    "bs_inv s'" "bs_set s' = bs_set s"
proof -
  obtain m where m: "trim_loop (bits s) (actualArrayLength s) = Ok m" "m \<le> actualArrayLength s"
    "\<And>k. m \<le> k \<Longrightarrow> k < actualArrayLength s \<Longrightarrow> bits s ! k = 0" "0 < m \<Longrightarrow> bits s ! (m - 1) \<noteq> 0"
    using trim_loop_eq [of "actualArrayLength s" "bits s"] bs_invD [OF s(1)] by metis
  define s' where "s' = s\<lparr>actualArrayLength := m\<rparr>"
  have z: "word_at s k = 0" if "m \<le> k" for k using that m(3) [of k] by (simp add: word_at_def)
  have hw: "holds_words s' (word_at s)"
    using z m(2) bs_invD [OF s(1)] bits_word_at [OF s(1)] by (intro holds_wordsI) (auto simp: s'_def)
  have top: "0 < m \<Longrightarrow> word_at s (m - 1) \<noteq> 0" using m(2,4) by (auto simp: word_at_def)
  have inv: "bs_inv s'"
    using top word_at_not_needClear [OF s(1)] by (intro holds_words_inv [OF hw]) (auto simp: s'_def)
  have set: "bs_set s' = bs_set s" by (simp add: s'_def bs_set_def)
  show thesis
  proof (cases "m = 0")
    case True
    then have "bs_set s = {}" using z by (simp add: bs_set_empty_iff [OF s(1)])
    then show thesis using that [OF _ inv set] m(1) True by (simp add: BitSet_length_def s'_def)
  next
    case False
    let ?w = "word_at s (m - 1)"
    let ?M = "64 * (m - 1) + top_bit ?w 63"
    have w: "bits s ! (m - 1) = ?w" "m - 1 < length (bits s)"
      using False m(2) bs_invD [OF s(1)] by (auto simp: word_at_def)
    have tb: "top_bit ?w 63 < 64" using top_bit_props(1) [of ?w 63] by simp
    have "?M \<in> bs_set s"
      using top False top_bit_63(1) [of ?w] mem_bs_set_idx [OF s(1) tb, of "m - 1"] by simp
    moreover have "n \<le> ?M" if n: "n \<in> bs_set s" for n
    proof -
      have b: "bit (word_at s (n div 64)) (n mod 64)" using n by (simp add: mem_bs_set [OF s(1)])
      have "n div 64 < m" using b z [of "n div 64"] by (cases "n div 64 < m") auto
      moreover have "n mod 64 \<le> top_bit ?w 63" if "n div 64 = m - 1"
        using b that top False top_bit_63(2) by auto
      ultimately have "n div 64 < m - 1 \<or> n div 64 = m - 1 \<and> n mod 64 \<le> top_bit ?w 63" by linarith
      then show ?thesis
        using le_64_lex [of "top_bit ?w 63" "n mod 64" "n div 64" "m - 1"] tb by simp
    qed
    ultimately have "Max (bs_set s) = ?M" "bs_set s \<noteq> {}"
      using bs_set_finite [OF s(1)] by (auto intro: Max_eqI)
    moreover obtain p where p: "m = Suc p" using False not0_implies_Suc by blast
    moreover have "p < 2 ^ 25" using m(2) s(2) p by (simp add: bs_small_def)
    ultimately have "BitSet_length s = Ok (int (Max (bs_set s)) + 1, s')"
      using m(1) w by (simp add: BitSet_length_def Let_def s'_def ELM_SIZE_def)
    then show thesis using that [OF _ inv set] \<open>bs_set s \<noteq> {}\<close> by simp
  qed
qed

section \<open>The range copy\<close>

definition shifted :: "nat \<Rightarrow> ulong list \<Rightarrow> nat \<Rightarrow> ulong" where
  "shifted s ws k = drop_bit s (ws ! k) OR (if Suc k < length ws then push_bit (64 - s) (ws ! Suc k) else 0)"

lemma shift_loop_eq:
  assumes "i \<le> length ws"
  shows "\<exists>vs al'. shift_loop s (length ws) i ws al = Ok (vs, al') \<and> length vs = length ws \<and>
    (\<forall>k < length ws. vs ! k = (if k < i then ws ! k else shifted s ws k)) \<and>
    ((\<forall>k. i \<le> k \<and> k < length ws \<longrightarrow> shifted s ws k = 0) \<and> al' = al \<or>
     i < al' \<and> al' \<le> length ws \<and> shifted s ws (al' - 1) \<noteq> 0 \<and>
     (\<forall>k. al' \<le> k \<and> k < length ws \<longrightarrow> shifted s ws k = 0))"
  using assms
proof (induction "length ws - i" arbitrary: i ws al)
  case 0
  then show ?case by (auto simp: shift_loop.simps [of s])
next
  case (Suc d)
  then have i: "i < length ws" by simp
  let ?v = "shifted s ws i"
  let ?ws = "ws[i := ?v]" and ?al = "if ?v \<noteq> 0 then i + 1 else al"
  have step: "shift_loop s (length ws) i ws al = shift_loop s (length ws) (Suc i) ?ws ?al"
  proof (cases "Suc i < length ws")
    case True
    then show ?thesis
      using i arr_get_nat [OF True]
      by (subst shift_loop.simps) (auto simp: shifted_def ELM_SIZE_def add.commute)
  next
    case False
    then show ?thesis
      using i by (subst shift_loop.simps) (auto simp: shifted_def)
  qed
  have same: "shifted s ?ws k = shifted s ws k" if "Suc i \<le> k" for k
    using that by (simp add: shifted_def)
  have "d = length ?ws - Suc i" "Suc i \<le> length ?ws" using Suc.hyps(2) i by auto
  from Suc.hyps(1) [OF this, of ?al] obtain vs al' where vs:
    "shift_loop s (length ws) (Suc i) ?ws ?al = Ok (vs, al')" "length vs = length ws"
    "\<forall>k < length ws. vs ! k = (if k < Suc i then ?ws ! k else shifted s ?ws k)"
    "(\<forall>k. Suc i \<le> k \<and> k < length ws \<longrightarrow> shifted s ?ws k = 0) \<and> al' = ?al \<or>
     Suc i < al' \<and> al' \<le> length ws \<and> shifted s ?ws (al' - 1) \<noteq> 0 \<and>
     (\<forall>k. al' \<le> k \<and> k < length ws \<longrightarrow> shifted s ?ws k = 0)"
    by auto
  have "\<forall>k < length ws. vs ! k = (if k < i then ws ! k else shifted s ws k)"
    using vs(3) same i by (auto simp: less_Suc_eq nth_list_update)
  moreover have "(\<forall>k. i \<le> k \<and> k < length ws \<longrightarrow> shifted s ws k = 0) \<and> al' = al \<or>
     i < al' \<and> al' \<le> length ws \<and> shifted s ws (al' - 1) \<noteq> 0 \<and>
     (\<forall>k. al' \<le> k \<and> k < length ws \<longrightarrow> shifted s ws k = 0)"
  proof (cases "Suc i < al' \<and> shifted s ?ws (al' - 1) \<noteq> 0 \<and> al' \<le> length ws \<and>
      (\<forall>k. al' \<le> k \<and> k < length ws \<longrightarrow> shifted s ?ws k = 0)")
    case True
    then show ?thesis using same [of "al' - 1"] same by auto
  next
    case False
    then have z: "\<forall>k. Suc i \<le> k \<and> k < length ws \<longrightarrow> shifted s ws k = 0" "al' = ?al"
      using vs(4) same by auto
    then show ?thesis
    proof (cases "?v = 0")
      case True
      then have "\<forall>k. i \<le> k \<and> k < length ws \<longrightarrow> shifted s ws k = 0"
        using z(1) by (metis Suc_leI le_neq_implies_less)
      then show ?thesis using z(2) True by simp
    qed (use z i in auto)
  qed
  ultimately show ?case using step vs(1,2) by auto
qed

lemma mem_wbits_add:
  assumes "j < 64" "s < 64"
  shows "64 * k + j + s \<in> wbits ws \<longleftrightarrow>
    (if j + s < 64 then k < length ws \<and> bit (ws ! k) (j + s)
     else Suc k < length ws \<and> bit (ws ! Suc k) (j + s - 64))"
proof (cases "j + s < 64")
  case True
  then show ?thesis using wbits_nth [of "j + s" k ws] by (simp add: add.assoc)
next
  case False
  have eq: "64 * k + j + s = 64 * Suc k + (j + s - 64)" using False by simp
  have "j + s - 64 < 64" using assms by simp
  then show ?thesis unfolding eq using False wbits_nth [of "j + s - 64" "Suc k" ws] by simp
qed

lemma bit_shifted:
  assumes "j < 64" "0 < s" "s < 64" "k < length ws"
  shows "bit (shifted s ws k) j \<longleftrightarrow> 64 * k + j + s \<in> wbits ws"
proof (cases "j + s < 64")
  case True
  then show ?thesis
    using assms mem_wbits_add [OF assms(1,3), of k ws]
    by (auto simp: shifted_def bit_or_iff bit_drop_bit_eq bit_push_bit_iff add.commute)
next
  case False
  have "\<not> bit (ws ! k) (s + j)" using bit_imp_le_length [of "ws ! k" "s + j"] False by auto
  then show ?thesis
    using assms False mem_wbits_add [OF assms(1,3), of k ws]
    by (auto simp: shifted_def bit_or_iff bit_drop_bit_eq bit_push_bit_iff)
qed

lemma wbits_shifted:
  assumes "0 < s" "s < 64" "length vs = length ws" "\<And>k. k < length ws \<Longrightarrow> vs ! k = shifted s ws k"
  shows "wbits vs = {n. n + s \<in> wbits ws}"
proof (rule set_eqI)
  fix n
  have "n + s \<in> wbits ws \<Longrightarrow> n div 64 < length ws"
    using div_le_mono [of n "n + s" 64] by (auto simp: mem_wbits)
  moreover have "n div 64 < length ws \<Longrightarrow> bit (vs ! (n div 64)) (n mod 64) \<longleftrightarrow> n + s \<in> wbits ws"
    using bit_shifted [of "n mod 64" s "n div 64" ws] assms by simp
  ultimately show "n \<in> wbits vs \<longleftrightarrow> n \<in> {n. n + s \<in> wbits ws}"
    using assms(3) by (auto simp: mem_wbits [of n vs])
qed

text \<open>The words copied out of the array before they are shifted.\<close>

lemma copied_words:
  assumes r: "0 \<le> a" "a < c" "elm a < elm (c - 1)" "elm (c - 1) < length ws"
    and nb: "length nb = elm (c - 1) - elm a + 1"
      "\<And>k. k < length nb \<Longrightarrow> nb ! k =
        (if k = 0 then ws ! elm a AND factor1 a
         else if k = elm (c - 1) - elm a then ws ! elm (c - 1) AND factor2 c else ws ! (elm a + k))"
  shows "n \<in> wbits nb \<longleftrightarrow> n + 64 * elm a \<in> wbits ws \<and> in_range a c (n + 64 * elm a)"
proof (cases "n div 64 < length nb")
  case True
  have "nb ! (n div 64) = ws ! (elm a + n div 64) AND
      (if n div 64 = 0 then factor1 a else if n div 64 = elm (c - 1) - elm a then factor2 c else - 1)"
    using nb(2) [OF True] r(3) by simp
  moreover have "(n + 64 * elm a) div 64 = elm a + n div 64" "(n + 64 * elm a) mod 64 = n mod 64" by auto
  moreover have "elm a + n div 64 < length ws" using True nb(1) r(3,4) by simp
  ultimately show ?thesis
    using True nb(1) r(3) in_range_iff [OF r(1,2), of "n + 64 * elm a"]
    by (auto simp: mem_wbits bit_and_iff split: if_splits)
next
  case False
  have "(n + 64 * elm a) div 64 = n div 64 + elm a" by simp
  then have "\<not> in_range a c (n + 64 * elm a)"
    using False nb(1) r(3) in_range_elm [of a c "n + 64 * elm a"] by auto
  then show ?thesis using False by (simp add: mem_wbits)
qed

text \<open>A word list with the flags of a copy: well formed when the length is right.\<close>

lemma fresh_inv:
  assumes "length vs = n" "al \<le> n" "zero_from al vs" "nc \<or> wbits vs = {}"
    "t \<longrightarrow> 0 < al \<longrightarrow> vs ! (al - 1) \<noteq> 0"
  shows "bs_inv \<lparr>bits = vs, bitsSize = n, needClear = nc, actualArrayLength = al, isLengthActual = t\<rparr>"
  using assms zero_from_wbits [of 0 vs] by (auto simp: bs_inv_def)

lemma new_empty:
  "BitSet_new 0 = Ok \<lparr>bits = [], bitsSize = 0, needClear = False, actualArrayLength = 0, isLengthActual = True\<rparr>"
  by (simp add: BitSet_new_def elm_def off_def)

lemma empty_bitset:
  "bs_inv \<lparr>bits = [], bitsSize = 0, needClear = False, actualArrayLength = 0, isLengthActual = True\<rparr>"
  "bs_set \<lparr>bits = [], bitsSize = 0, needClear = False, actualArrayLength = 0, isLengthActual = True\<rparr> = {}"
  by (auto simp: bs_inv_def bs_set_def wbits_def zero_from_def)

lemma copy_one_word:
  assumes s: "bs_inv s" and r: "0 \<le> a" "a < c" "elm a = elm (c - 1)"
    and w: "w = word_at s (elm a)"
  shows "bit (drop_bit (off a) (w AND (factor1 a AND factor2 c))) j \<longleftrightarrow>
    j < 64 \<and> j + nat a \<in> bs_set s \<and> in_range a c (j + nat a)"
proof -
  have ni: "nat a = 64 * elm a + off a" using r(1) by simp
  have sum: "j + nat a = 64 * elm a + (off a + j)" using ni by simp
  show ?thesis
  proof (cases "off a + j < 64")
    case True
    then show ?thesis
      using mem_bs_set_idx [OF s True, of "elm a"] in_range_iff [OF r(1,2), of "64 * elm a + (off a + j)"] r(3)
      unfolding sum by (auto simp: bit_drop_bit_eq bit_and_iff w idx_div [OF True])
  next
    case False
    have "(j + nat a) div 64 \<noteq> elm a" using False ni by simp
    moreover have "elm a \<le> (j + nat a) div 64" using ni by simp
    ultimately have "\<not> in_range a c (j + nat a)" using in_range_elm [of a c "j + nat a"] r(3) by auto
    moreover have "\<not> bit (w AND (factor1 a AND factor2 c)) (off a + j)"
      using False bit_imp_le_length by fastforce
    ultimately show ?thesis unfolding bit_drop_bit_eq comp_def by blast
  qed
qed

lemma copied_list:
  assumes r: "elm a < e" "e < length ws" and n: "n = e - elm a + 1"
    and nb_def: "nb = upd_words 1 (e - elm a) (\<lambda>i _. ws ! (elm a + i)) ((replicate n junk)[0 := x, n - 1 := y])"
  shows "for_words 1 (e - elm a) (\<lambda>i w. arr_get ws (int (elm a + i))) ((replicate n junk)[0 := x, n - 1 := y]) = Ok nb"
    "length nb = n"
    "k < n \<Longrightarrow> nb ! k = (if k = 0 then x else if k = e - elm a then y else ws ! (elm a + k))"
proof -
  show "for_words 1 (e - elm a) (\<lambda>i w. arr_get ws (int (elm a + i))) ((replicate n junk)[0 := x, n - 1 := y]) = Ok nb"
    unfolding nb_def
  proof (rule for_words_eq)
    show "e - elm a \<le> length ((replicate n junk)[0 := x, n - 1 := y])"
      unfolding length_list_update length_replicate using n by simp
    show "arr_get ws (int (elm a + j)) = Ok (ws ! (elm a + j))" if "1 \<le> j" "j < e - elm a" for j
      using that r by (intro arr_get_nat) simp
  qed
  show "length nb = n" by (simp add: nb_def)
  show "nb ! k = (if k = 0 then x else if k = e - elm a then y else ws ! (elm a + k))" if "k < n"
  proof -
    have "((replicate n junk)[0 := x, n - 1 := y]) ! k = (if k = n - 1 then y else if k = 0 then x else junk)"
      using that by (auto simp: nth_list_update)
    moreover have "nb ! k = (if 1 \<le> k \<and> k < e - elm a then ws ! (elm a + k)
        else ((replicate n junk)[0 := x, n - 1 := y]) ! k)"
      using that by (simp add: nb_def)
    moreover have "n - 1 = e - elm a" "0 < e - elm a" "k \<le> e - elm a" using n r that by auto
    ultimately show ?thesis by auto
  qed
qed

lemma getRange_words:
  assumes s: "bs_inv s" "bs_small s" and r: "0 \<le> a" "a < b" "a < 64 * int (actualArrayLength s)"
    and c: "c = (if b > 64 * int (actualArrayLength s) then 64 * int (actualArrayLength s) else b)"
    and lt: "elm a < elm (c - 1)"
  obtains vs al where
    "BitSet_getRange junk a b s = Ok \<lparr>bits = vs, bitsSize = length vs, needClear = needClear s,
       actualArrayLength = al, isLengthActual = (vs ! (al - 1) \<noteq> 0)\<rparr>"
    "0 < al" "al \<le> length vs" "zero_from al vs"
    "wbits vs = {n. n + nat a \<in> bs_set s \<and> in_range a c (n + nat a)}"
proof -
  note goal = that
  let ?al = "actualArrayLength s" and ?e = "elm (c - 1)"
  define n where "n = ?e - elm a + 1"
  have ac: "a < c" using r c by auto
  have e: "?e < ?al" using c r by (intro elm_int) auto
  have el: "?e < length (bits s)" using e bs_invD [OF s(1)] by simp
  define nb where "nb = upd_words 1 (?e - elm a) (\<lambda>i _. bits s ! (elm a + i))
    ((replicate n junk)[0 := bits s ! elm a AND factor1 a, n - 1 := bits s ! ?e AND factor2 c])"
  note nb = copied_list [OF lt el n_def nb_def]
  have wb: "x \<in> wbits nb \<longleftrightarrow> x + 64 * elm a \<in> bs_set s \<and> in_range a c (x + 64 * elm a)" for x
    unfolding bs_set_def using nb(2,3)
    by (intro copied_words [OF r(1) ac lt el]) (auto simp: n_def)
  have sl: "shl_offset ?al = 64 * int ?al" using s(2) by (simp add: bs_small_def)
  have n0: "0 < n" "n - 1 < n" "elm a < length (bits s)" using lt el by (auto simp: n_def)
  have unf: "BitSet_getRange junk a b s =
      rbind (if off a \<noteq> 0 then shift_loop (off a) n 0 nb n else Ok (nb, n)) (\<lambda>(vs, al).
      rbind (arr_get vs (int (al - 1))) (\<lambda>t.
      Ok \<lparr>bits = vs, bitsSize = n, needClear = needClear s, actualArrayLength = al, isLengthActual = (t \<noteq> 0)\<rparr>))"
  proof -
    have "\<not> (a < 0 \<or> b < 0 \<or> b < a)" "\<not> (64 * int ?al \<le> a \<or> a = b)" "elm a \<noteq> ?e"
      using r lt by auto
    moreover have "arr_get (bits s) (int (elm a)) = Ok (bits s ! elm a)"
      "arr_get (bits s) (int ?e) = Ok (bits s ! ?e)" using n0 el by auto
    moreover have "arr_set (replicate n junk) 0 v = Ok ((replicate n junk)[0 := v])" for v
      using n0 by (simp add: arr_set_def)
    moreover have "arr_set ((replicate n junk)[0 := u]) (int (n - 1)) v =
        Ok ((replicate n junk)[0 := u, n - 1 := v])" for u v
      using n0 by (intro arr_set_nat) (simp only: length_list_update length_replicate)
    ultimately show ?thesis
      by (simp only: BitSet_getRange_def bad_range_def sl Let_def c [symmetric] n_def [symmetric]
          if_False rbind_simps nb(1) length_list_update length_replicate)
  qed
  have fin: thesis if "wbits vs = {x. x + off a \<in> wbits nb}" "length vs = n" "0 < al" "al \<le> n" "zero_from al vs"
    "(if off a \<noteq> 0 then shift_loop (off a) n 0 nb n else Ok (nb, n)) = Ok (vs, al)" for vs al
  proof (rule goal [of vs al])
    show "BitSet_getRange junk a b s = Ok \<lparr>bits = vs, bitsSize = length vs, needClear = needClear s,
       actualArrayLength = al, isLengthActual = (vs ! (al - 1) \<noteq> 0)\<rparr>"
      unfolding unf that(6) using that(2-4) arr_get_nat [of "al - 1" vs] by simp
    have sum: "x + off a + 64 * elm a = x + nat a" for x using elm_off [OF r(1)] by simp
    show "wbits vs = {x. x + nat a \<in> bs_set s \<and> in_range a c (x + nat a)}"
      unfolding that(1) wb sum by (rule refl)
  qed (use that in auto)
  show thesis
  proof (cases "off a = 0")
    case True
    then show thesis using nb(2) n0 by (intro fin [of nb n]) (auto simp: zero_from_def)
  next
    case False
    obtain vs al where vs: "shift_loop (off a) n 0 nb n = Ok (vs, al)" "length vs = n"
      "\<forall>k < n. vs ! k = shifted (off a) nb k"
      "(\<forall>k. k < n \<longrightarrow> shifted (off a) nb k = 0) \<and> al = n \<or>
        0 < al \<and> al \<le> n \<and> (\<forall>k. al \<le> k \<and> k < n \<longrightarrow> shifted (off a) nb k = 0)"
      using shift_loop_eq [of 0 nb "off a" n] nb(2) by auto
    have "wbits vs = {x. x + off a \<in> wbits nb}"
      using False vs(2,3) nb(2) by (intro wbits_shifted) auto
    then show thesis using vs n0 False by (intro fin [of vs al]) (auto simp: zero_from_def)
  qed
qed

lemma getRange_one:
  assumes s: "bs_inv s" "bs_small s" and r: "0 \<le> a" "a < b" "a < 64 * int (actualArrayLength s)"
    and c: "c = (if b > 64 * int (actualArrayLength s) then 64 * int (actualArrayLength s) else b)"
    and eq: "elm a = elm (c - 1)"
  obtains s' where "BitSet_getRange junk a b s = Ok s'" "bs_inv s'"
    "bs_set s' = {n. n + nat a \<in> bs_set s \<and> in_range a c (n + nat a)}"
proof -
  let ?S = "{n. n + nat a \<in> bs_set s \<and> in_range a c (n + nat a)}"
  let ?res = "drop_bit (off a) (word_at s (elm a) AND (factor1 a AND factor2 c))"
  have ac: "a < c" "elm (c - 1) < actualArrayLength s" using r by (auto simp: c intro!: elm_int)
  have "arr_get (bits s) (int (elm a)) = Ok (word_at s (elm a))"
    using ac eq bs_invD [OF s(1)] by (simp add: word_at_def)
  then have unf: "BitSet_getRange junk a b s = (if ?res = 0 then BitSet_new 0
      else Ok \<lparr>bits = [?res], bitsSize = 1, needClear = needClear s, actualArrayLength = 1,
        isLengthActual = True\<rparr>)"
    using r eq s(2) shl_offset_eq [of "actualArrayLength s"]
    by (simp only: BitSet_getRange_def bad_range_def Let_def c [symmetric] bs_small_def rbind_simps) auto
  have small: "n < 64" if "in_range a c (n + nat a)" for n
  proof -
    have "(n + nat a) div 64 \<le> elm a" using in_range_elm [OF that] eq by simp
    then show ?thesis using elm_off [OF r(1)] by linarith
  qed
  have wb: "wbits [?res] = ?S"
  proof (rule set_eqI)
    fix n
    show "n \<in> wbits [?res] \<longleftrightarrow> n \<in> ?S"
      using copy_one_word [OF s(1) r(1) ac(1) eq refl, of n] small [of n] by (cases "n < 64") (auto simp: mem_wbits)
  qed
  have empty: "needClear s \<or> ?S = {}" using bs_set_not_needClear [OF s(1)] by auto
  show thesis
  proof (cases "?res = 0")
    case z: True
    have "wbits [?res] = {}" unfolding z by (auto simp: mem_wbits)
    then show thesis using that [OF _ empty_bitset(1)] empty_bitset(2) unf z new_empty wb by auto
  next
    case nz: False
    show thesis
    proof (rule that)
      show "BitSet_getRange junk a b s = Ok \<lparr>bits = [?res], bitsSize = 1, needClear = needClear s,
          actualArrayLength = 1, isLengthActual = True\<rparr>" using unf nz by simp
      show "bs_inv \<lparr>bits = [?res], bitsSize = 1, needClear = needClear s, actualArrayLength = 1,
          isLengthActual = True\<rparr>"
        using nz empty wb by (intro fresh_inv) (auto simp: zero_from_def)
    qed (use wb in \<open>simp add: bs_set_def\<close>)
  qed
qed

lemma getRange_refines:
  assumes s: "bs_inv s" "bs_small s" and r: "0 \<le> a" "a \<le> b"
  obtains s' where "BitSet_getRange junk a b s = Ok s'" "bs_inv s'"
    "bs_set s' = {n. n + nat a \<in> bs_set s \<and> n + nat a < nat b}"
proof (cases "a < b \<and> a < 64 * int (actualArrayLength s)")
  case False
  have "{n. n + nat a \<in> bs_set s \<and> n + nat a < nat b} = {}"
    using False bs_set_lt [OF s(1)] r by fastforce
  then show thesis
    using that [OF _ empty_bitset(1)] empty_bitset(2) False r s(2) new_empty
    by (auto simp: BitSet_getRange_def bad_range_def bs_small_def Let_def)
next
  case True
  define c where "c = (if b > 64 * int (actualArrayLength s) then 64 * int (actualArrayLength s) else b)"
  have ac: "a < c" using True r by (auto simp: c_def)
  have range: "n + nat a \<in> bs_set s \<and> in_range a c (n + nat a) \<longleftrightarrow> n + nat a \<in> bs_set s \<and> n + nat a < nat b" for n
    using bs_set_lt [OF s(1), of "n + nat a"] by (auto simp: in_range_def c_def)
  show thesis
  proof (cases "elm a = elm (c - 1)")
    case eq: True
    show thesis
      using getRange_one [OF s r(1) _ _ c_def eq, of junk] True that unfolding range by blast
  next
    case neq: False
    then have lt: "elm a < elm (c - 1)" using elm_mono [of a "c - 1"] ac by simp
    obtain vs al where vs: "BitSet_getRange junk a b s = Ok \<lparr>bits = vs, bitsSize = length vs,
        needClear = needClear s, actualArrayLength = al, isLengthActual = (vs ! (al - 1) \<noteq> 0)\<rparr>"
      "0 < al" "al \<le> length vs" "zero_from al vs"
      "wbits vs = {n. n + nat a \<in> bs_set s \<and> in_range a c (n + nat a)}"
      using getRange_words [OF s r(1) conjunct1 [OF True] conjunct2 [OF True] c_def lt, of junk] by blast
    have wb: "wbits vs = {n. n + nat a \<in> bs_set s \<and> n + nat a < nat b}" unfolding vs(5) range ..
    have "needClear s \<or> wbits vs = {}" using bs_set_not_needClear [OF s(1)] unfolding wb by auto
    note inv = fresh_inv [OF refl vs(3,4) this, of "vs ! (al - 1) \<noteq> 0"]
    show thesis
      by (rule that [OF vs(1)], rule inv) (simp, simp only: bs_set_def bitset.select_convs wb)
  qed
qed

section \<open>Counting and printing\<close>

lemma finite_bits: "finite {j. bit (w :: ulong) j}"
proof (rule finite_subset)
  show "{j. bit w j} \<subseteq> {..<64}" using bit_imp_le_length [of w] by auto
qed simp

lemma pop_halves: "pop (w AND 0xffffffff) + pop (drop_bit 32 w) = card {j. bit w j}"
proof -
  have m: "(0xffffffff :: ulong) = mask 32" by (simp add: mask_eq_exp_minus_1)
  have l1: "unat (w AND 0xffffffff) < 2 ^ 32"
    unfolding m take_bit_eq_mask [symmetric] unsigned_take_bit_eq by (rule take_bit_nat_less_exp)
  have l2: "unat (drop_bit 32 w) < 2 ^ 32"
  proof -
    have "unat (drop_bit 32 w) = unat w div 2 ^ 32"
      by (subst unat_drop_bit_eq) (rule drop_bit_eq_div)
    moreover have "unat w < 2 ^ LENGTH(64)" by (rule unsigned_less)
    ultimately show ?thesis by (simp add: less_mult_imp_div_less)
  qed
  have c1: "{j. bit (w AND 0xffffffff) j} = {j. bit w j \<and> j < 32}"
    unfolding m take_bit_eq_mask [symmetric] by (auto simp: bit_take_bit_iff)
  have c2: "card {j. bit (drop_bit 32 w) j} = card {j. bit w j \<and> 32 \<le> j}"
  proof (rule bij_betw_same_card)
    show "bij_betw (\<lambda>j. 32 + j) {j. bit (drop_bit 32 w) j} {j. bit w j \<and> 32 \<le> j}"
      by (intro bij_betw_byWitness [where f' = "\<lambda>j. j - 32"]) (auto simp: bit_drop_bit_eq)
  qed
  have "card ({j. bit w j \<and> j < 32} \<union> {j. bit w j \<and> 32 \<le> j}) =
      card {j. bit w j \<and> j < 32} + card {j. bit w j \<and> 32 \<le> j}"
    using finite_bits [of w] by (intro card_Un_disjoint) (auto intro: finite_subset)
  moreover have "{j. bit w j \<and> j < 32} \<union> {j. bit w j \<and> 32 \<le> j} = {j. bit w j}" by auto
  ultimately show ?thesis unfolding pop_card [OF l1] pop_card [OF l2] c1 c2 by simp
qed

lemma count_loop_eq:
  "idx + n \<le> length ws \<Longrightarrow>
    count_loop ws idx n cnt = Ok (cnt + (\<Sum>k \<in> {idx..<idx + n}. card {j. bit (ws ! k) j}))"
proof (induction n arbitrary: idx cnt)
  case (Suc n)
  have "pop (ws ! idx AND 0xffffffff) + pop (drop_bit 32 (ws ! idx)) = card {j. bit (ws ! idx) j}"
    by (rule pop_halves)
  moreover have "(\<Sum>k \<in> {idx..<idx + Suc n}. card {j. bit (ws ! k) j}) =
      card {j. bit (ws ! idx) j} + (\<Sum>k \<in> {Suc idx..<Suc idx + n}. card {j. bit (ws ! k) j})"
    by (subst sum.atLeast_Suc_lessThan) auto
  ultimately show ?case using Suc by (simp add: add.assoc)
qed simp

lemma wbits_snoc: "wbits (ws @ [w]) = wbits ws \<union> (\<lambda>j. 64 * length ws + j) ` {j. bit w j}"
proof (rule set_eqI)
  fix n
  have "n \<in> (\<lambda>j. 64 * length ws + j) ` {j. bit w j} \<longleftrightarrow> n div 64 = length ws \<and> bit w (n mod 64)"
  proof
    assume "n \<in> (\<lambda>j. 64 * length ws + j) ` {j. bit w j}"
    then obtain j where j: "n = 64 * length ws + j" "bit w j" by auto
    have "j < 64" using bit_imp_le_length [OF j(2)] by simp
    then show "n div 64 = length ws \<and> bit w (n mod 64)" using j by simp
  next
    assume n: "n div 64 = length ws \<and> bit w (n mod 64)"
    then show "n \<in> (\<lambda>j. 64 * length ws + j) ` {j. bit w j}"
      by (intro image_eqI [of _ _ "n mod 64"]) (use mult_div_mod_eq [of 64 n] in auto)
  qed
  then show "n \<in> wbits (ws @ [w]) \<longleftrightarrow> n \<in> wbits ws \<union> (\<lambda>j. 64 * length ws + j) ` {j. bit w j}"
    by (auto simp: mem_wbits nth_append less_Suc_eq)
qed

lemma wbits_lt: "n \<in> wbits ws \<Longrightarrow> n < 64 * length ws"
  unfolding mem_wbits by linarith

lemma card_wbits: "card (wbits ws) = (\<Sum>k < length ws. card {j. bit (ws ! k) j})"
proof (induction ws rule: rev_induct)
  case Nil
  then show ?case by (simp add: wbits_def)
next
  case (snoc w ws)
  have fin: "finite (wbits ws)" using wbits_lt finite_nat_set_iff_bounded by blast
  have "card (wbits (ws @ [w])) = card (wbits ws) + card ((\<lambda>j. 64 * length ws + j) ` {j. bit w j})"
    unfolding wbits_snoc using fin finite_bits [of w] wbits_lt [of _ ws] by (intro card_Un_disjoint) fastforce+
  also have "card ((\<lambda>j. 64 * length ws + j) ` {j. bit w j}) = card {j. bit w j}"
    by (intro card_image) (simp add: inj_on_def)
  finally show ?case using snoc by (simp add: nth_append)
qed

lemma cardinality_refines:
  assumes s: "bs_inv s"
  shows "BitSet_cardinality s = Ok (card (bs_set s))"
proof (cases "needClear s")
  case True
  then show ?thesis
    using count_loop_eq [of 0 "bitsSize s" "bits s" 0] bs_invD(1) [OF s]
    by (simp add: BitSet_cardinality_def bs_set_def card_wbits atLeast0LessThan)
next
  case False
  then show ?thesis using bs_set_not_needClear [OF s] by (simp add: BitSet_cardinality_def)
qed

text \<open>The text between the braces: the elements in increasing order, separated by commas.\<close>

fun list_text :: "bool \<Rightarrow> nat list \<Rightarrow> string" where
  "list_text comma [] = []"
| "list_text comma (n # ns) = (if comma then '', '' else []) @ to_string (int n) @ list_text True ns"

lemma list_text_append: "list_text c (xs @ ys) = list_text c xs @ list_text (c \<or> xs \<noteq> []) ys"
  by (induction xs arbitrary: c) auto

lemma print_bits_eq:
  "j \<le> 64 \<Longrightarrow> print_bits w [j..<64] (sb, comma, base + j) =
    (let ns = map ((+) base) (filter (bit w) [j..<64])
     in (sb @ list_text comma ns, comma \<or> ns \<noteq> [], base + 64))"
proof (induction "64 - j" arbitrary: j sb comma)
  case (Suc d)
  then have j: "[j..<64] = j # [Suc j..<64]" "j < 64" by (auto simp: upt_conv_Cons)
  have "d = 64 - Suc j" "Suc j \<le> 64" using Suc.hyps(2) by auto
  note IH = Suc.hyps(1) [OF this]
  show ?case
    unfolding j(1) using IH [of sb comma] IH [of "sb @ (if comma then '', '' else []) @ to_string (int (base + j))" True] j(2)
    by (cases "bit w j") (auto simp: Let_def)
qed simp

lemma print_words_eq:
  "i + n \<le> length ws \<Longrightarrow> print_words ws i n (sb, comma, 64 * i) =
    Ok (let ns = filter (\<lambda>x. x \<in> wbits ws) [64 * i..<64 * (i + n)]
        in (sb @ list_text comma ns, comma \<or> ns \<noteq> [], 64 * (i + n)))"
proof (induction n arbitrary: i sb comma)
  case (Suc n)
  let ?ns = "map ((+) (64 * i)) (filter (bit (ws ! i)) [0..<64])"
  have i: "i < length ws" using Suc.prems by simp
  have first: "?ns = filter (\<lambda>x. x \<in> wbits ws) [64 * i..<64 * Suc i]"
  proof -
    have "[64 * i..<64 * Suc i] = map ((+) (64 * i)) [0..<64]"
      by (rule nth_equalityI) auto
    moreover have "filter (bit (ws ! i)) [0..<64] = filter (\<lambda>x. 64 * i + x \<in> wbits ws) [0..<64]"
      using i by (intro filter_cong) (auto simp: wbits_nth)
    ultimately show ?thesis by (simp add: filter_map comp_def)
  qed
  have st: "(if ws ! i = 0 then (sb, comma, 64 * i + ELM_SIZE)
      else print_bits (ws ! i) [0..<ELM_SIZE] (sb, comma, 64 * i)) =
      (sb @ list_text comma ?ns, comma \<or> ?ns \<noteq> [], 64 * Suc i)"
    using print_bits_eq [of 0 "ws ! i" sb comma "64 * i"] by (simp add: ELM_SIZE_def Let_def)
  have split: "[64 * i..<64 * (i + Suc n)] = [64 * i..<64 * Suc i] @ [64 * Suc i..<64 * (Suc i + n)]"
    using upt_add_eq_append [of "64 * i" "64 * Suc i" "64 * n"] by (simp add: algebra_simps del: upt_Suc)
  have fl: "filter (\<lambda>x. x \<in> wbits ws) [64 * i..<64 * (i + Suc n)] =
      ?ns @ filter (\<lambda>x. x \<in> wbits ws) [64 * Suc i..<64 * (Suc i + n)]"
    by (simp only: split filter_append first)
  have "Suc i + n \<le> length ws" using Suc.prems by simp
  note IH = Suc.IH [OF this]
  show ?case
    unfolding fl print_words.simps arr_get_nat [OF i] rbind_simps st IH
    by (simp add: list_text_append Let_def)
qed simp

lemma toString_refines:
  assumes s: "bs_inv s"
  shows "BitSet_toString s = Ok (''{'' @ list_text False (sorted_list_of_set (bs_set s)) @ ''}'')"
proof -
  have "filter (\<lambda>x. x \<in> bs_set s) [0..<64 * bitsSize s] = sorted_list_of_set (bs_set s)"
  proof (rule sorted_distinct_set_unique)
    show "set (filter (\<lambda>x. x \<in> bs_set s) [0..<64 * bitsSize s]) = set (sorted_list_of_set (bs_set s))"
      using bs_set_lt [OF s] bs_invD(2) [OF s] bs_set_finite [OF s] by fastforce
  qed (auto intro: sorted_wrt_filter)
  then show ?thesis
    using print_words_eq [of 0 "bitsSize s" "bits s" "''{''" False] bs_invD(1) [OF s]
    by (simp add: BitSet_toString_def bs_set_def Let_def)
qed

text \<open>Copies are exact; assigning an object to itself fills its array with uninitialised words.\<close>

lemma copy_refines:
  assumes "bs_inv s"
  shows "BitSet_copy s = Ok s" "BitSet_assign junk False s = Ok s"
    "BitSet_assign junk True s = Ok (s\<lparr>bits := replicate (bitsSize s) junk\<rparr>)"
  using bs_invD(1) [OF assms] by (simp_all add: BitSet_copy_def BitSet_assign_def arraycopy0_def Let_def)

section \<open>The interface used by the message audit\<close>

text \<open>
  What a client that marks and unmarks indices relies on: a fresh object is empty, \<open>get\<close> reads
  membership, \<open>set(index, value)\<close> writes it.
\<close>

locale index_set =
  fixes inv :: "'s \<Rightarrow> bool" and elems :: "'s \<Rightarrow> nat set"
    and new :: "int \<Rightarrow> 's result" and get :: "int \<Rightarrow> 's \<Rightarrow> bool result"
    and put :: "int \<Rightarrow> bool \<Rightarrow> 's \<Rightarrow> 's result"
  assumes new_law: "0 \<le> n \<Longrightarrow> \<exists>s. new n = Ok s \<and> inv s \<and> elems s = {}"
    and get_law: "inv s \<Longrightarrow> 0 \<le> i \<Longrightarrow> get i s = Ok (nat i \<in> elems s)"
    and put_law: "inv s \<Longrightarrow> 0 \<le> i \<Longrightarrow> \<exists>s'. put i b s = Ok s' \<and> inv s' \<and>
      elems s' = (if b then insert (nat i) (elems s) else elems s - {nat i})"
begin

lemma test_and_set:
  assumes "inv s" "0 \<le> i"
  obtains s' where "rbind (get i s) (\<lambda>a. if a then Ok (a, s) else rbind (put i True s) (\<lambda>s. Ok (a, s))) =
      Ok (nat i \<in> elems s, s')" "inv s'" "elems s' = insert (nat i) (elems s)"
  using get_law [OF assms] put_law [OF assms, of True] assms(1) by (cases "nat i \<in> elems s") auto

lemma set_then_get:
  assumes "inv s" "0 \<le> i" "0 \<le> j"
  obtains s' where "put i b s = Ok s'" "inv s'" "get j s' = Ok (if j = i then b else nat j \<in> elems s)"
proof -
  obtain s' where s': "put i b s = Ok s'" "inv s'"
    "elems s' = (if b then insert (nat i) (elems s) else elems s - {nat i})"
    using put_law [OF assms(1,2), of b] by blast
  have "nat j \<in> elems s' \<longleftrightarrow> (if j = i then b else nat j \<in> elems s)"
    using s'(3) assms by (auto simp: nat_eq_iff2)
  then show thesis using that s' get_law [OF s'(2) assms(3)] by simp
qed

end

lemma new_refines: "0 \<le> n \<Longrightarrow> \<exists>s. BitSet_new n = Ok s \<and> bs_inv s \<and> bs_set s = {}"
  by (auto simp: BitSet_new_def Let_def bs_inv_def zero_from_def bs_set_def wbits_def
      simp flip: less_Suc_eq_0_disj)

lemma setValue_refines:
  assumes s: "bs_inv s" and i: "0 \<le> i"
  shows "\<exists>s'. BitSet_setValue junk i b s = Ok s' \<and> bs_inv s' \<and>
    bs_set s' = (if b then insert (nat i) (bs_set s) else bs_set s - {nat i})"
proof (cases b)
  case True
  show ?thesis by (rule set_refines [OF s i, of junk]) (simp add: BitSet_setValue_def True)
next
  case False
  show ?thesis by (rule clear_refines [OF s i]) (simp add: BitSet_setValue_def False)
qed

interpretation bs: index_set bs_inv bs_set BitSet_new BitSet_get "BitSet_setValue junk" for junk
  using new_refines get_refines setValue_refines by unfold_locales auto

section \<open>Runs\<close>

text \<open>A sequence of modifying calls on one object; the argument objects are not the receiver.\<close>

datatype bs_call =
    SetBit int | SetRange int int | ClearBit int | ClearRange int int | ClearAll
  | FlipBit int | FlipRange int int | AndCall bitset | AndNotCall bitset

fun bs_step :: "ulong \<Rightarrow> bs_call \<Rightarrow> bitset \<Rightarrow> bitset result" where
  "bs_step junk (SetBit i) s = BitSet_set junk i s"
| "bs_step junk (SetRange a b) s = BitSet_setRange junk a b s"
| "bs_step junk (ClearBit i) s = BitSet_clear i s"
| "bs_step junk (ClearRange a b) s = BitSet_clearRange a b s"
| "bs_step junk ClearAll s = BitSet_clearAll s"
| "bs_step junk (FlipBit i) s = BitSet_flip junk i s"
| "bs_step junk (FlipRange a b) s = BitSet_flipRange junk a b s"
| "bs_step junk (AndCall t) s = BitSet_AND s t"
| "bs_step junk (AndNotCall t) s = BitSet_andNot s t"

fun bs_run :: "ulong \<Rightarrow> bs_call list \<Rightarrow> bitset \<Rightarrow> bitset result" where
  "bs_run junk [] s = Ok s"
| "bs_run junk (c # cs) s = rbind (bs_step junk c s) (bs_run junk cs)"

text \<open>The specification: the same calls on sets of numbers.\<close>

fun set_step :: "bs_call \<Rightarrow> nat set \<Rightarrow> nat set" where
  "set_step (SetBit i) A = insert (nat i) A"
| "set_step (SetRange a b) A = A \<union> {nat a..<nat b}"
| "set_step (ClearBit i) A = A - {nat i}"
| "set_step (ClearRange a b) A = A - {nat a..<nat b}"
| "set_step ClearAll A = {}"
| "set_step (FlipBit i) A = (if nat i \<in> A then A - {nat i} else insert (nat i) A)"
| "set_step (FlipRange a b) A = (A - {nat a..<nat b}) \<union> ({nat a..<nat b} - A)"
| "set_step (AndCall t) A = A \<inter> bs_set t"
| "set_step (AndNotCall t) A = A - bs_set t"

definition ok_index :: "int \<Rightarrow> bool" where
  "ok_index i \<longleftrightarrow> 0 \<le> i \<and> i < 2 ^ 31 - 64"

fun ok_call :: "bs_call \<Rightarrow> bool" where
  "ok_call (SetBit i) = ok_index i"
| "ok_call (SetRange a b) = (ok_index a \<and> ok_index b \<and> a \<le> b)"
| "ok_call (ClearBit i) = ok_index i"
| "ok_call (ClearRange a b) = (ok_index a \<and> ok_index b \<and> a \<le> b)"
| "ok_call ClearAll = True"
| "ok_call (FlipBit i) = ok_index i"
| "ok_call (FlipRange a b) = (ok_index a \<and> ok_index b \<and> a \<le> b)"
| "ok_call (AndCall t) = bs_inv t"
| "ok_call (AndNotCall t) = bs_inv t"

lemma ok_index_small:
  "ok_index i \<Longrightarrow> n < 2 ^ 25 \<Longrightarrow> max n (elm i + 1) < 2 ^ 25"
  "ok_index b \<Longrightarrow> n < 2 ^ 25 \<Longrightarrow> max n (elm (b - 1) + 1) < 2 ^ 25"
  using small_index_elm [of i] small_index_elm [of "b - 1"]
  by (auto simp: ok_index_def small_index_def)

lemma bs_step_refines:
  assumes s: "bs_inv s" "bs_small s" and c: "ok_call c"
  shows "\<exists>s'. bs_step junk c s = Ok s' \<and> bs_inv s' \<and> bs_small s' \<and> bs_set s' = set_step c (bs_set s)"
proof (cases c)
  case (SetBit i)
  show ?thesis
    by (rule set_refines [OF s(1), of i junk])
      (use SetBit c ok_index_small(1) [of i "actualArrayLength s"] s(2) in \<open>auto simp: bs_small_def ok_index_def\<close>)
next
  case (SetRange a b)
  show ?thesis
  proof (cases "a = b")
    case False
    show ?thesis
      by (rule setRange_refines [OF s(1), of a b junk])
        (use False SetRange c ok_index_small(2) [of b "actualArrayLength s"] s(2) in
          \<open>auto simp: bs_small_def ok_index_def\<close>)
  qed (use SetRange s c in \<open>simp add: BitSet_setRange_def bad_range_def ok_index_def\<close>)
next
  case (ClearBit i)
  show ?thesis
    by (rule clear_refines [OF s(1), of i]) (use ClearBit c s(2) in \<open>auto simp: bs_small_def ok_index_def\<close>)
next
  case (ClearRange a b)
  show ?thesis
  proof (cases "a = b")
    case False
    show ?thesis
      by (rule clearRange_refines [OF s, of a b])
        (use False ClearRange c s(2) in \<open>auto simp: bs_small_def ok_index_def\<close>)
  qed (use ClearRange s c in \<open>simp add: BitSet_clearRange_def bad_range_def ok_index_def Let_def\<close>)
next
  case ClearAll
  show ?thesis by (rule clearAll_refines [OF s(1)]) (use ClearAll s(2) in \<open>auto simp: bs_small_def\<close>)
next
  case (FlipBit i)
  show ?thesis
    by (rule flip_refines [OF s(1), of i junk])
      (use FlipBit c ok_index_small(1) [of i "actualArrayLength s"] s(2) in \<open>auto simp: bs_small_def ok_index_def\<close>)
next
  case (FlipRange a b)
  show ?thesis
  proof (cases "a = b")
    case False
    show ?thesis
      by (rule flipRange_refines [OF s(1), of a b junk])
        (use False FlipRange c ok_index_small(2) [of b "actualArrayLength s"] s(2) in
          \<open>auto simp: bs_small_def ok_index_def\<close>)
  qed (use FlipRange s c in \<open>simp add: BitSet_flipRange_def bad_range_def ok_index_def\<close>)
next
  case (AndCall t)
  show ?thesis by (rule AND_refines [OF s(1), of t]) (use AndCall c s(2) in \<open>auto simp: bs_small_def\<close>)
next
  case (AndNotCall t)
  show ?thesis by (rule andNot_refines [OF s(1), of t]) (use AndNotCall c s(2) in \<open>auto simp: bs_small_def\<close>)
qed

lemma default_inv: "bs_inv BitSet_default" "bs_small BitSet_default" "bs_set BitSet_default = {}"
  by (auto simp: BitSet_default_def bs_inv_def bs_small_def zero_from_def bs_set_def wbits_def)

lemma bs_run_refines:
  assumes "bs_inv s" "bs_small s" "list_all ok_call cs"
  shows "\<exists>s'. bs_run junk cs s = Ok s' \<and> bs_inv s' \<and> bs_small s' \<and> bs_set s' = fold set_step cs (bs_set s)"
  using assms
proof (induction cs arbitrary: s)
  case (Cons c cs)
  then obtain t where "bs_step junk c s = Ok t" "bs_inv t" "bs_small t" "bs_set t = set_step c (bs_set s)"
    using bs_step_refines [of s c junk] by auto
  then show ?case using Cons.IH [of t] Cons.prems by simp
qed simp

section \<open>Properties\<close>



text \<open>
  \<^bold>\<open>C32.\<close> On a well-formed object every observer answers for the denoted set: \<open>get\<close> is membership,
  \<open>isEmpty\<close> emptiness, \<open>cardinality\<close> (with its parallel bit count) the number of elements, \<open>equals\<close>
  equality, \<open>intersects\<close> a common element, \<open>toString\<close> lists the elements in increasing order, and the
  copy constructor copies exactly. The cached lengths never make two equal sets differ.
\<close>

theorem bitset_observers:
  assumes "bs_inv s" "bs_inv t" "0 \<le> i"
  shows "BitSet_get i s = Ok (nat i \<in> bs_set s) \<and>
    BitSet_isEmpty s = Ok (bs_set s = {}) \<and>
    BitSet_cardinality s = Ok (card (bs_set s)) \<and>
    BitSet_equals False s t = Ok (bs_set s = bs_set t) \<and>
    BitSet_intersects s t = Ok (bs_set s \<inter> bs_set t \<noteq> {}) \<and>
    BitSet_toString s = Ok (''{'' @ list_text False (sorted_list_of_set (bs_set s)) @ ''}'') \<and>
    BitSet_copy s = Ok s"
  using copy_refines get_refines isEmpty_refines cardinality_refines equals_refines intersects_refines
    toString_refines assms by simp

theorem bitset_observers_witness:
  "BitSet_cardinality BitSet_default = Ok (card (bs_set BitSet_default)) \<and>
   BitSet_get 5 BitSet_default = Ok (5 \<in> bs_set BitSet_default)"
  using bitset_observers [OF default_inv(1) default_inv(1), of 5] by simp

text \<open>
  \<^bold>\<open>C31.\<close> The searches: \<open>nextSetBit(i)\<close> is the least element from \<open>i\<close> on or \<open>-1\<close>, \<open>nextClearBit(i)\<close> the
  least number from \<open>i\<close> on that is no element, \<open>length()\<close> one more than the largest element (zero for the
  empty set) and does not change the set, and \<open>get(from, to)\<close> is a well-formed set of the elements in
  the range, moved down by \<open>from\<close>.
\<close>

theorem bitset_searches:
  assumes "bs_inv s" "bs_small s" "0 \<le> i" "i \<le> j"
  shows "BitSet_nextSetBit i s =
      Ok (if \<exists>n \<ge> nat i. n \<in> bs_set s then int (LEAST n. nat i \<le> n \<and> n \<in> bs_set s) else - 1) \<and>
    BitSet_nextClearBit i s = Ok (int (LEAST n. nat i \<le> n \<and> n \<notin> bs_set s)) \<and>
    (\<exists>s'. BitSet_length s = Ok (if bs_set s = {} then 0 else int (Max (bs_set s)) + 1, s') \<and>
      bs_inv s' \<and> bs_set s' = bs_set s) \<and>
    (\<exists>r. BitSet_getRange junk i j s = Ok r \<and> bs_inv r \<and>
      bs_set r = {n. n + nat i \<in> bs_set s \<and> n + nat i < nat j})"
proof (intro conjI)
  show "\<exists>s'. BitSet_length s = Ok (if bs_set s = {} then 0 else int (Max (bs_set s)) + 1, s') \<and>
      bs_inv s' \<and> bs_set s' = bs_set s"
    using length_refines [OF assms(1,2)] by blast
  show "\<exists>r. BitSet_getRange junk i j s = Ok r \<and> bs_inv r \<and>
      bs_set r = {n. n + nat i \<in> bs_set s \<and> n + nat i < nat j}"
    using getRange_refines [OF assms, of junk] by blast
qed (rule nextSetBit_refines nextClearBit_refines, fact+)+

theorem bitset_searches_witness:
  "BitSet_nextClearBit 7 BitSet_default = Ok (int (LEAST n. 7 \<le> n \<and> n \<notin> bs_set BitSet_default)) \<and>
   (\<exists>r. BitSet_getRange 0 7 9 BitSet_default = Ok r \<and> bs_inv r)"
  using bitset_searches [OF default_inv(1,2), of 7 9 0] by auto

text \<open>
  \<^bold>\<open>C37.\<close> \<open>OR\<close> with a set that fits into the array of the receiver gives the union and keeps the
  invariant. \<open>OR\<close> with a set that needs a longer array replaces the array but leaves \<open>bitsSize\<close>: the
  result still denotes the union through \<open>get\<close>, yet the next \<open>set\<close> beyond the stale size makes
  \<open>ensureCapacity\<close> copy more words than it allocated.
\<close>

theorem bitset_OR:
  assumes "bs_inv s" "bs_inv t" "0 \<le> i"
  shows "((\<forall>x \<in> bs_set t. x div 64 < bitsSize s) \<longrightarrow>
      (\<exists>s' t'. BitSet_OR junk s t = Ok (s', t') \<and> bs_inv s' \<and> bs_set s' = bs_set s \<union> bs_set t)) \<and>
    ((\<exists>x \<in> bs_set t. bitsSize s \<le> x div 64) \<longrightarrow>
      (\<exists>s' t'. BitSet_OR junk s t = Ok (s', t') \<and> bs_set s' = bs_set s \<union> bs_set t \<and>
        (bitsSize s \<le> elm i \<and> elm i + 1 < actualArrayLength s' \<and> 2 * bitsSize s < actualArrayLength s' \<longrightarrow>
           BitSet_set junk i s' = Throw MemoryFault)))"
proof (intro conjI impI)
  assume fits: "\<forall>x \<in> bs_set t. x div 64 < bitsSize s"
  have "n \<le> bitsSize s" if g: "getActualArrayLength t = Ok (n, o')" for n o'
  proof (cases n)
    case (Suc m)
    obtain u where u: "getActualArrayLength t = Ok (actualArrayLength u, u)" "bs_inv u" "isLengthActual u"
      "word_at u = word_at t"
      using getActualArrayLength_refines [OF assms(2)] by metis
    have au: "actualArrayLength u = Suc m" using g u(1) Suc by auto
    obtain j where j: "j < 64" "64 * (actualArrayLength u - 1) + j \<in> bs_set u"
      by (rule bs_set_top [OF u(2,3)]) (simp add: au)
    then have "64 * m + j \<in> bs_set t" using same_word_at_set [OF u(2) assms(2) u(4)] au by simp
    then have "(64 * m + j) div 64 < bitsSize s" using fits by blast
    then show ?thesis unfolding idx_div [OF j(1)] using Suc by simp
  qed simp
  then show "\<exists>s' t'. BitSet_OR junk s t = Ok (s', t') \<and> bs_inv s' \<and> bs_set s' = bs_set s \<union> bs_set t"
    using OR_fits [OF assms(1,2), of junk] by metis
next
  assume "\<exists>x \<in> bs_set t. bitsSize s \<le> x div 64"
  then obtain s' t' where st: "BitSet_OR junk s t = Ok (s', t')" "bitsSize s' = bitsSize s"
    "length (bits s') = actualArrayLength s'" "bs_set s' = bs_set s \<union> bs_set t"
    using OR_replaces_array [OF assms(1,2), of _ junk] by metis
  moreover have "BitSet_set junk i s' = Throw MemoryFault"
    if "bitsSize s \<le> elm i \<and> elm i + 1 < actualArrayLength s' \<and> 2 * bitsSize s < actualArrayLength s'"
    using that assms(3) st(2,3)
    by (simp add: BitSet_set_def grow_def ensureCapacity_def Let_def arraycopy0_def max_def)
  ultimately show "\<exists>s' t'. BitSet_OR junk s t = Ok (s', t') \<and> bs_set s' = bs_set s \<union> bs_set t \<and>
      (bitsSize s \<le> elm i \<and> elm i + 1 < actualArrayLength s' \<and> 2 * bitsSize s < actualArrayLength s' \<longrightarrow>
        BitSet_set junk i s' = Throw MemoryFault)" by blast
qed

definition bit_200 :: bitset where
  "bit_200 = \<lparr>bits = [0, 0, 0, 256], bitsSize = 4, needClear = True, actualArrayLength = 4,
     isLengthActual = True\<rparr>"

lemma bit_200_props: "bs_inv bit_200" "200 \<in> bs_set bit_200"
  by (simp_all add: bit_200_def bs_inv_def zero_from_def bs_set_def mem_wbits bit_numeral_rec)

theorem bitset_OR_witness:
  "\<exists>s'. (\<exists>t'. BitSet_OR 0 BitSet_default bit_200 = Ok (s', t')) \<and> BitSet_set 0 64 s' = Throw MemoryFault"
proof -
  have "\<exists>x \<in> bs_set bit_200. bitsSize BitSet_default \<le> x div 64"
    using bit_200_props(2) by (intro bexI [of _ 200]) (simp_all add: BitSet_default_def)
  moreover have "\<exists>t'. BitSet_OR 0 BitSet_default bit_200 =
      Ok (\<lparr>bits = [0, 0, 0, 256], bitsSize = 1, needClear = True, actualArrayLength = 4, isLengthActual = True\<rparr>, t')"
    by (simp add: BitSet_OR_def getActualArrayLength_def bit_200_def BitSet_default_def arraycopy0_def
        for_words.simps numeral_eq_Suc)
  ultimately show ?thesis
    using bitset_OR [OF default_inv(1) bit_200_props(1), of 64 0] by (fastforce simp: BitSet_default_def elm_def ELM_SIZE_def)
qed

text \<open>
  \<open>XOR\<close> gives the symmetric difference (when the array of the receiver is large enough), but
  when the top words cancel it keeps \<open>isLengthActual\<close>: a set XORed with a copy of itself denotes the
  empty set, and \<open>equals\<close> still says it differs from a new \<open>BitSet\<close>.
\<close>

theorem bitset_XOR_self_not_equal_empty:
  assumes "bs_inv s" "isLengthActual s" "bs_set s \<noteq> {}" "bs_inv t" "bs_set t = bs_set s"
  shows "\<exists>s' t'. BitSet_XOR junk s t = Ok (s', t') \<and> bs_set s' = {} \<and>
    BitSet_equals False s' BitSet_default = Ok False"
proof -
  have al: "0 < actualArrayLength s" using assms(1,3) bs_set_elm by fastforce
  have trimmed: "actualArrayLength u = actualArrayLength s" if "bs_inv u" "isLengthActual u" "bs_set u = bs_set s" for u
  proof -
    have w: "word_at u = word_at s" using bs_set_eq_iff [OF that(1) assms(1)] that(3) by auto
    have au: "0 < actualArrayLength u" using that assms(3) bs_set_elm by fastforce
    show ?thesis
      using word_at_top [OF that(1,2) au] word_at_top [OF assms(1,2) al] word_at_beyond [of u] word_at_beyond [of s]
      unfolding w by (metis One_nat_def Suc_leI Suc_pred al au le_antisym not_less)
  qed
  have fits: "n \<le> bitsSize s" if "getActualArrayLength t = Ok (n, o')" for n o'
  proof -
    obtain u where u: "getActualArrayLength t = Ok (actualArrayLength u, u)" "bs_inv u" "isLengthActual u"
      "word_at u = word_at t"
      using getActualArrayLength_refines [OF assms(4)] by metis
    then have "actualArrayLength u = actualArrayLength s"
      using trimmed same_word_at_set [OF u(2) assms(4) u(4)] assms(5) by simp
    then show ?thesis using u(1) that bs_invD(2) [OF assms(1)] by auto
  qed
  obtain s' t' where st: "BitSet_XOR junk s t = Ok (s', t')" "bs_inv t'"
    "bs_set s' = (bs_set s - bs_set t) \<union> (bs_set t - bs_set s)" "bs_set t' = bs_set t" "isLengthActual t'"
    "actualArrayLength s' = max (actualArrayLength t') (actualArrayLength s)"
    "isLengthActual s' = (actualArrayLength s < actualArrayLength t' \<or> isLengthActual s)"
    by (rule XOR_fits [OF assms(1,4), where junk = junk]) (rule fits)
  have "BitSet_equals False s' BitSet_default = Ok False"
    using st(6,7) al assms(2) by (simp add: BitSet_equals_def BitSet_default_def Let_def)
  then show ?thesis using st(1,3) assms(5) by auto
qed

theorem bitset_XOR_self_not_equal_empty_witness:
  "\<exists>s' t'. BitSet_XOR 0 bit_200 bit_200 = Ok (s', t') \<and> bs_set s' = {} \<and>
    BitSet_equals False s' BitSet_default = Ok False"
proof -
  have "isLengthActual bit_200" "bs_set bit_200 \<noteq> {}" using bit_200_props(2) by (auto simp: bit_200_def)
  then show ?thesis
    using bitset_XOR_self_not_equal_empty [OF bit_200_props(1) _ _ bit_200_props(1) refl, of 0] by simp
qed



end
