(* ===== verification/String_Utils.thy ===== *)
theory String_Utils
  imports AMQ_Prelude "HOL-Library.List_Lexorder" "HOL-Library.Product_Lexorder"
begin

text \<open>
  \<open>decaf/internal/util/StringUtils.cpp\<close>: the natural-order comparison of C strings that destinations
  and identifiers are ordered by. A C string is the list of its characters before the terminating
  NUL; reading at its length gives NUL, reading beyond is a \<open>MemoryFault\<close>. \<open>char\<close> is signed.
\<close>

section \<open>The program\<close>

definition NUL :: char where "NUL = CHR 0x00"

definition c_at :: "string \<Rightarrow> nat \<Rightarrow> char result" where
  "c_at s i = (if i < length s then Ok (s ! i) else if i = length s then Ok NUL else Throw MemoryFault)"

definition schar :: "char \<Rightarrow> int" where
  "schar c = (let n = int (of_char c) in if n < 128 then n else n - 256)"

text \<open>\<open>Character::isWhitespace\<close>, \<open>isDigit\<close> and \<open>toUpperCase\<close> of \<open>decaf/lang/Character\<close>\<close>

definition isWhitespace :: "char \<Rightarrow> bool" where
  "isWhitespace c \<longleftrightarrow> schar c \<in> {10, 9, 13, 12, 32}"

definition isDigit :: "char \<Rightarrow> bool" where
  "isDigit c \<longleftrightarrow> 48 \<le> schar c \<and> schar c \<le> 57"

definition toUpperCase :: "char \<Rightarrow> char" where
  "toUpperCase c = (if 97 \<le> schar c \<and> schar c \<le> 122 then char_of (of_char c - 32 :: nat) else c)"

text \<open>The character a pointer into the string sees.\<close>

definition hd0 :: "string \<Rightarrow> char" where
  "hd0 s = (case s of [] \<Rightarrow> NUL | c # _ \<Rightarrow> c)"

fun compareRightFrom :: "int \<Rightarrow> string \<Rightarrow> string \<Rightarrow> int" where
  "compareRightFrom bias (l # ls) (r # rs) =
     (if \<not> isDigit l \<and> \<not> isDigit r then bias
      else if \<not> isDigit l then - 1
      else if \<not> isDigit r then 1
      else if schar l < schar r then compareRightFrom (if bias = 0 then - 1 else bias) ls rs
      else if schar l > schar r then compareRightFrom (if bias = 0 then 1 else bias) ls rs
      else compareRightFrom bias ls rs)"
| "compareRightFrom bias [] (r # rs) = (if isDigit r then - 1 else bias)"
| "compareRightFrom bias (l # ls) [] = (if isDigit l then 1 else bias)"
| "compareRightFrom bias [] [] = bias"

definition compareRight :: "string \<Rightarrow> string \<Rightarrow> int" where
  "compareRight left right = compareRightFrom 0 left right"

fun compareLeft :: "string \<Rightarrow> string \<Rightarrow> int" where
  "compareLeft (l # ls) (r # rs) =
     (if \<not> isDigit l \<and> \<not> isDigit r then 0
      else if \<not> isDigit l then - 1
      else if \<not> isDigit r then 1
      else if schar l < schar r then - 1
      else if schar l > schar r then 1
      else compareLeft ls rs)"
| "compareLeft [] (r # rs) = (if isDigit r then - 1 else 0)"
| "compareLeft (l # ls) [] = (if isDigit l then 1 else 0)"
| "compareLeft [] [] = 0"

text \<open>
  \<open>while (Character::isWhitespace(cur)) cur = src[++i];\<close> For the right operand the code indexes
  \<open>left\<close> here, too.
\<close>

function skipWhitespace :: "string \<Rightarrow> nat \<Rightarrow> char \<Rightarrow> (nat \<times> char) result" where
  "skipWhitespace src i cur =
     (if isWhitespace cur
      then (case c_at src (Suc i) of Inl e \<Rightarrow> Throw e | Inr c \<Rightarrow> skipWhitespace src (Suc i) c)
      else Ok (i, cur))"
  by pat_completeness auto
termination
  by (relation "measure (\<lambda>(src, i, _). length src - i)") (auto simp: c_at_def split: if_splits)

declare skipWhitespace.simps [simp del]

text \<open>
  The digit runs at the two pointers, when both current characters are digits; a pointer beyond the
  end of its string is a fault.
\<close>

definition compareRuns :: "string \<Rightarrow> nat \<Rightarrow> string \<Rightarrow> nat \<Rightarrow> char \<Rightarrow> char \<Rightarrow> int result" where
  "compareRuns left lIndex right rIndex curLeft curRight =
     (if isDigit curLeft \<and> isDigit curRight
      then if lIndex > length left \<or> rIndex > length right then Throw MemoryFault
           else if curLeft = CHR ''0'' \<or> curRight = CHR ''0''
           then Ok (compareLeft (drop lIndex left) (drop rIndex right))
           else Ok (compareRight (drop lIndex left) (drop rIndex right))
      else Ok 0)"

text \<open>
  One pass of the \<open>while (true)\<close> loop: \<open>Inl\<close> is a \<open>return\<close>, \<open>Inr\<close> the indices of the next pass.
\<close>

definition comparePass :: "bool \<Rightarrow> string \<Rightarrow> string \<Rightarrow> nat \<Rightarrow> nat \<Rightarrow> (int + nat \<times> nat) result" where
  "comparePass ignoreCase left right lIndex rIndex =
     rbind (c_at left lIndex) (\<lambda>curLeft.
     rbind (c_at right rIndex) (\<lambda>curRight.
     rbind (skipWhitespace left lIndex curLeft) (\<lambda>(lIndex, curLeft).
     rbind (skipWhitespace left rIndex curRight) (\<lambda>(rIndex, curRight).
     rbind (compareRuns left lIndex right rIndex curLeft curRight) (\<lambda>res.
     if res \<noteq> 0 then Ok (Inl res)
     else if curLeft = NUL \<and> curRight = NUL then Ok (Inl 0)
     else
       let cl = (if ignoreCase then toUpperCase curLeft else curLeft);
           cr = (if ignoreCase then toUpperCase curRight else curRight)
       in if schar cl < schar cr then Ok (Inl (- 1))
          else if schar cl > schar cr then Ok (Inl 1)
          else Ok (Inr (Suc lIndex, Suc rIndex)))))))"

lemma skipWhitespace_index: "skipWhitespace src i cur = Ok (j, c) \<Longrightarrow> i \<le> j"
  by (induction src i cur rule: skipWhitespace.induct)
    (subst (asm) (2) skipWhitespace.simps, auto split: if_splits sum.splits)

lemma comparePass_advances:
  assumes "comparePass ic left right l r = Ok (Inr (l', r'))"
  shows "l < l' \<and> l \<le> length left"
  using assms
  by (auto simp: comparePass_def rbind_Ok_iff c_at_def Let_def split: if_splits prod.splits
      dest!: skipWhitespace_index)

function doCompareFrom :: "bool \<Rightarrow> string \<Rightarrow> string \<Rightarrow> nat \<Rightarrow> nat \<Rightarrow> int result" where
  "doCompareFrom ignoreCase left right lIndex rIndex =
     (case comparePass ignoreCase left right lIndex rIndex of
        Inl e \<Rightarrow> Throw e
      | Inr (Inl res) \<Rightarrow> Ok res
      | Inr (Inr (l, r)) \<Rightarrow> doCompareFrom ignoreCase left right l r)"
  by pat_completeness auto
termination
  by (relation "measure (\<lambda>(_, left, _, l, _). Suc (length left) - l)")
    (auto dest!: comparePass_advances)

declare doCompareFrom.simps [simp del]

definition doCompare :: "string \<Rightarrow> string \<Rightarrow> bool \<Rightarrow> int result" where
  "doCompare left right ignoreCase = doCompareFrom ignoreCase left right 0 0"

definition StringUtils_compareIgnoreCase :: "string \<Rightarrow> string \<Rightarrow> int result" where
  "StringUtils_compareIgnoreCase left right = doCompare left right True"

definition StringUtils_compare :: "string \<Rightarrow> string \<Rightarrow> int result" where
  "StringUtils_compare left right = doCompare left right False"

section \<open>The comparison as an order\<close>

text \<open>A C string of a name without white space.\<close>

definition plain :: "string \<Rightarrow> bool" where
  "plain s \<longleftrightarrow> (\<forall>c \<in> set s. \<not> isWhitespace c \<and> c \<noteq> NUL)"

definition runs :: "string \<Rightarrow> string \<Rightarrow> int" where
  "runs xs ys =
     (if isDigit (hd0 xs) \<and> isDigit (hd0 ys)
      then if hd0 xs = CHR ''0'' \<or> hd0 ys = CHR ''0'' then compareLeft xs ys else compareRight xs ys
      else 0)"

definition fold_case :: "bool \<Rightarrow> char \<Rightarrow> int" where
  "fold_case ic c = schar (if ic then toUpperCase c else c)"

text \<open>The comparison of two plain strings as a recursion over both.\<close>

fun natcmp :: "bool \<Rightarrow> string \<Rightarrow> string \<Rightarrow> int" where
  "natcmp ic (x # xs) (y # ys) =
     (if runs (x # xs) (y # ys) \<noteq> 0 then runs (x # xs) (y # ys)
      else if fold_case ic x < fold_case ic y then - 1
      else if fold_case ic x > fold_case ic y then 1
      else natcmp ic xs ys)"
| "natcmp ic [] (y # ys) = (if 0 < fold_case ic y then - 1 else 1)"
| "natcmp ic (x # xs) [] = (if fold_case ic x < 0 then - 1 else 1)"
| "natcmp ic [] [] = 0"

lemma NUL_simps [simp]: "schar NUL = 0" "\<not> isWhitespace NUL" "\<not> isDigit NUL" "toUpperCase NUL = NUL"
  by (simp_all add: NUL_def schar_def isWhitespace_def isDigit_def toUpperCase_def)

text \<open>The signed value of a code, for the arithmetic on codes.\<close>

definition signed_code :: "nat \<Rightarrow> int" where
  "signed_code n = (if int n < 128 then int n else int n - 256)"

lemma schar_code: "schar c = signed_code (of_char c)"
  by (simp add: schar_def signed_code_def)

lemma signed_code_inj: "m < 256 \<Longrightarrow> n < 256 \<Longrightarrow> signed_code m = signed_code n \<Longrightarrow> m = n"
  by (auto simp: signed_code_def split: if_splits)

lemma signed_code_pos: "m < 256 \<Longrightarrow> 0 \<le> signed_code m \<Longrightarrow> signed_code m = int m"
  by (auto simp: signed_code_def split: if_splits)

lemma schar_inj: "schar c = schar d \<Longrightarrow> c = d"
  using signed_code_inj [of "of_char c" "of_char d"] by (simp add: schar_code)

lemma schar_nonzero: "c \<noteq> NUL \<Longrightarrow> schar c \<noteq> 0"
  using schar_inj [of c NUL] by auto

lemma skip_nothing: "\<not> isWhitespace cur \<Longrightarrow> skipWhitespace src i cur = Ok (i, cur)"
  by (simp add: skipWhitespace.simps)

lemma c_at_drop: "i \<le> length s \<Longrightarrow> c_at s i = Ok (hd0 (drop i s))"
  by (auto simp: c_at_def hd0_def drop_eq_Nil hd_drop_conv_nth split: list.splits)
    (metis hd_drop_conv_nth list.sel(1))

lemma plain_hd0: "plain s \<Longrightarrow> \<not> isWhitespace (hd0 (drop i s))"
  by (auto simp: plain_def hd0_def split: list.splits dest: in_set_dropD) (metis in_set_dropD list.set_intros(1))

lemma fold_case_NUL [simp]: "fold_case ic NUL = 0"
  by (simp add: fold_case_def)

lemma comparePass_plain:
  assumes "plain l" "plain r" "i \<le> length l" "i \<le> length r"
  shows "comparePass ic l r i i =
    (let xs = drop i l; ys = drop i r
     in if runs xs ys \<noteq> 0 then Ok (Inl (runs xs ys))
        else if hd0 xs = NUL \<and> hd0 ys = NUL then Ok (Inl 0)
        else if fold_case ic (hd0 xs) < fold_case ic (hd0 ys) then Ok (Inl (- 1))
        else if fold_case ic (hd0 xs) > fold_case ic (hd0 ys) then Ok (Inl 1)
        else Ok (Inr (Suc i, Suc i)))"
proof -
  have "compareRuns l i r i (hd0 (drop i l)) (hd0 (drop i r)) = Ok (runs (drop i l) (drop i r))"
    using assms by (simp add: compareRuns_def runs_def)
  then show ?thesis
    using assms c_at_drop [of i l] c_at_drop [of i r] plain_hd0 [of l i] plain_hd0 [of r i]
    by (simp add: comparePass_def skip_nothing fold_case_def Let_def)
qed

text \<open>
  Folding case can only meet the terminator's code for the terminator itself: an upper-case letter is
  never NUL.
\<close>

lemma fold_case_nonzero: "c \<noteq> NUL \<Longrightarrow> fold_case ic c \<noteq> 0"
proof -
  assume c: "c \<noteq> NUL"
  have "schar (toUpperCase c) \<noteq> 0"
  proof (cases "97 \<le> schar c \<and> schar c \<le> 122")
    case True
    then have "97 \<le> (of_char c :: nat)" "(of_char c :: nat) \<le> 122"
      using signed_code_pos [of "of_char c"] by (simp_all add: schar_code)
    then have "of_char (toUpperCase c) = (of_char c - 32 :: nat)" using True by (simp add: toUpperCase_def)
    then show ?thesis using \<open>97 \<le> (of_char c :: nat)\<close> \<open>(of_char c :: nat) \<le> 122\<close> by (simp add: schar_def)
  next
    case False
    then have "toUpperCase c = c" unfolding toUpperCase_def by (simp only: if_False)
    then show ?thesis using schar_nonzero [OF c] by simp
  qed
  then show ?thesis using schar_nonzero [OF c] by (simp add: fold_case_def)
qed

lemma doCompare_natcmp:
  assumes "plain l" "plain r" "i \<le> length l" "i \<le> length r"
  shows "doCompareFrom ic l r i i = Ok (natcmp ic (drop i l) (drop i r))"
  using assms
proof (induction "length l - i" arbitrary: i rule: less_induct)
  case less
  note pass = comparePass_plain [OF less.prems, of ic]
  have nn: "x \<noteq> NUL" if "drop i l = x # xs \<or> drop i r = x # xs" for x xs
    using that less.prems by (metis plain_def in_set_dropD list.set_intros(1))
  show ?case
  proof (cases "drop i l"; cases "drop i r")
    fix x xs y ys
    assume c: "drop i l = x # xs" "drop i r = y # ys"
    have lt: "i < length l" "i < length r" using c less.prems by (auto intro: ccontr)
    then have "drop (Suc i) l = xs" "drop (Suc i) r = ys" using c by (metis drop_Suc list.sel(3) tl_drop)+
    then have "doCompareFrom ic l r (Suc i) (Suc i) = Ok (natcmp ic xs ys)"
      using less.hyps [of "Suc i"] less.prems lt by simp
    then show ?thesis
      using pass c nn by (auto simp: doCompareFrom.simps [of ic l r i i] hd0_def Let_def)
  next
    fix y ys
    assume c: "drop i l = []" "drop i r = y # ys"
    then show ?thesis
      using pass nn [of y ys] fold_case_nonzero [of y ic]
      by (auto simp: doCompareFrom.simps [of ic l r i i] hd0_def Let_def runs_def)
  next
    fix x xs
    assume c: "drop i l = x # xs" "drop i r = []"
    then show ?thesis
      using pass nn [of x xs] fold_case_nonzero [of x ic]
      by (auto simp: doCompareFrom.simps [of ic l r i i] hd0_def Let_def runs_def)
  next
    assume "drop i l = []" "drop i r = []"
    then show ?thesis
      using pass by (simp add: doCompareFrom.simps [of ic l r i i] hd0_def Let_def runs_def)
  qed
qed

lemma compare_natcmp: "plain l \<Longrightarrow> plain r \<Longrightarrow> StringUtils_compare l r = Ok (natcmp False l r)"
  using doCompare_natcmp [of l r 0] by (simp add: StringUtils_compare_def doCompare_def)

text \<open>
  The digit run at the front of a string, and its key: runs that start with a zero come first and
  are ordered like text, the others by length and then by value.
\<close>

definition run_of :: "string \<Rightarrow> int list" where
  "run_of s = map schar (takeWhile isDigit s)"

definition sgn_cmp :: "'a::linorder \<Rightarrow> 'a \<Rightarrow> int" where
  "sgn_cmp a b = (if a < b then - 1 else if b < a then 1 else 0)"

definition run_key :: "int list \<Rightarrow> nat \<times> nat \<times> int list" where
  "run_key u = (if u \<noteq> [] \<and> hd u = 48 then (0, 0, u) else (1, length u, u))"

lemma run_of_simps [simp]:
  "run_of [] = []" "isDigit c \<Longrightarrow> run_of (c # cs) = schar c # run_of cs"
  "\<not> isDigit c \<Longrightarrow> run_of (c # cs) = []"
  by (simp_all add: run_of_def)

lemma compareLeft_run: "compareLeft xs ys = sgn_cmp (run_of xs) (run_of ys)"
  by (induction xs ys rule: compareLeft.induct) (auto simp: sgn_cmp_def)

lemma compareRightFrom_run:
  "compareRightFrom bias xs ys =
    (if length (run_of xs) < length (run_of ys) then - 1
     else if length (run_of xs) > length (run_of ys) then 1
     else if bias \<noteq> 0 then bias else sgn_cmp (run_of xs) (run_of ys))"
  by (induction bias xs ys rule: compareRightFrom.induct) (auto simp: sgn_cmp_def)

lemma runs_key:
  assumes "isDigit x" "isDigit y"
  shows "runs (x # xs) (y # ys) = sgn_cmp (run_key (run_of (x # xs))) (run_key (run_of (y # ys)))"
proof -
  have z: "c = CHR ''0'' \<longleftrightarrow> schar c = 48" for c
    using schar_inj [of c "CHR ''0''"] by (auto simp: schar_def)
  have "48 \<le> schar x" "48 \<le> schar y" using assms by (auto simp: isDigit_def)
  then show ?thesis
    using assms
    by (auto simp: runs_def hd0_def z compareLeft_run compareRight_def compareRightFrom_run sgn_cmp_def
        run_key_def less_prod_def')
qed

lemma run_key_inj: "run_key u = run_key v \<Longrightarrow> u = v"
  by (auto simp: run_key_def split: if_splits)

lemma runs_nondigit: "\<not> isDigit x \<or> \<not> isDigit y \<Longrightarrow> runs (x # xs) (y # ys) = 0"
  by (cases "isDigit x") (simp_all add: runs_def hd0_def)

lemma natcmp_simp:
  "natcmp False (x # xs) (y # ys) =
    (if isDigit x \<and> isDigit y \<and> run_of (x # xs) \<noteq> run_of (y # ys)
     then sgn_cmp (run_key (run_of (x # xs))) (run_key (run_of (y # ys)))
     else if x = y then natcmp False xs ys else sgn_cmp (schar x) (schar y))"
proof (cases "isDigit x \<and> isDigit y")
  case True
  then have r: "runs (x # xs) (y # ys) = sgn_cmp (run_key (run_of (x # xs))) (run_key (run_of (y # ys)))"
    using runs_key by simp
  show ?thesis
  proof (cases "run_of (x # xs) = run_of (y # ys)")
    case eq: True
    then have "x = y" using True schar_inj [of x y] by simp
    moreover have "runs (x # xs) (y # ys) = 0" unfolding r eq by (simp add: sgn_cmp_def)
    ultimately show ?thesis using eq by simp
  next
    case False
    then have "run_key (run_of (x # xs)) \<noteq> run_key (run_of (y # ys))" using run_key_inj by blast
    then have "runs (x # xs) (y # ys) \<noteq> 0" unfolding r by (auto simp: sgn_cmp_def)
    then show ?thesis using False True r by simp
  qed
next
  case False
  then have r: "runs (x # xs) (y # ys) = 0" using runs_nondigit by blast
  show ?thesis
  proof (cases "x = y")
    case True
    then show ?thesis using False r by simp
  next
    case neq: False
    then have "schar x \<noteq> schar y" using schar_inj by blast
    then show ?thesis using neq False r by (auto simp: fold_case_def sgn_cmp_def)
  qed
qed

lemma sgn_cmp_props:
  "sgn_cmp a b = 0 \<longleftrightarrow> a = b" "sgn_cmp b a = - sgn_cmp a b" "sgn_cmp a b < 0 \<longleftrightarrow> a < b"
  by (auto simp: sgn_cmp_def)

lemma plain_Cons: "plain (c # s) \<longleftrightarrow> \<not> isWhitespace c \<and> c \<noteq> NUL \<and> plain s"
  by (auto simp: plain_def)

lemma natcmp_eq_0: "natcmp False xs ys = 0 \<longleftrightarrow> xs = ys"
proof (induction xs arbitrary: ys)
  case Nil
  then show ?case by (cases ys) auto
next
  case (Cons x xs)
  show ?case
  proof (cases ys)
    case (Cons y zs)
    have k: "run_key u = run_key v \<longleftrightarrow> u = v" for u v using run_key_inj by blast
    have s: "schar x = schar y \<longleftrightarrow> x = y" using schar_inj by blast
    show ?thesis unfolding Cons natcmp_simp by (auto simp: sgn_cmp_props(1) k s Cons.IH)
  qed auto
qed

lemma natcmp_swap:
  assumes "plain xs" "plain ys"
  shows "natcmp False ys xs = - natcmp False xs ys"
  using assms
proof (induction xs arbitrary: ys)
  case Nil
  then show ?case by (cases ys) (auto simp: plain_Cons fold_case_def dest: schar_nonzero)
next
  case (Cons x xs)
  show ?case
  proof (cases ys)
    case Nil
    then show ?thesis using Cons.prems by (auto simp: plain_Cons fold_case_def dest: schar_nonzero)
  next
    case ys: (Cons y zs)
    have "natcmp False zs xs = - natcmp False xs zs" using Cons ys by (simp add: plain_Cons)
    moreover have "sgn_cmp (run_key (run_of (y # zs))) (run_key (run_of (x # xs))) =
        - sgn_cmp (run_key (run_of (x # xs))) (run_key (run_of (y # zs)))"
      "sgn_cmp (schar y) (schar x) = - sgn_cmp (schar x) (schar y)" by (rule sgn_cmp_props(2))+
    moreover have "isDigit y \<and> isDigit x \<and> run_of (y # zs) \<noteq> run_of (x # xs) \<longleftrightarrow>
        isDigit x \<and> isDigit y \<and> run_of (x # xs) \<noteq> run_of (y # zs)" "y = x \<longleftrightarrow> x = y" by auto
    moreover have d: "- (if P then a else b) = (if P then - a else - b)" for P and a b :: int by simp
    ultimately show ?thesis
      unfolding ys natcmp_simp [of y zs x xs] natcmp_simp [of x xs y zs] d by (simp only:)
  qed
qed

lemma natcmp_less:
  "natcmp False (x # xs) (y # ys) < 0 \<longleftrightarrow>
    (if isDigit x \<and> isDigit y \<and> run_of (x # xs) \<noteq> run_of (y # ys)
     then run_key (run_of (x # xs)) < run_key (run_of (y # ys))
     else if x = y then natcmp False xs ys < 0 else schar x < schar y)"
proof -
  have d: "(if P then a else b) < (0 :: int) \<longleftrightarrow> (if P then a < 0 else b < 0)" for P a b by simp
  show ?thesis unfolding natcmp_simp d sgn_cmp_props(3) ..
qed

lemma same_run_same_head: "isDigit x \<Longrightarrow> isDigit y \<Longrightarrow> run_of (x # xs) = run_of (y # ys) \<Longrightarrow> x = y"
  using schar_inj [of x y] by simp

lemma natcmp_step_order:
  assumes "natcmp False (x # xs) (y # ys) < 0" "\<not> (isDigit x \<and> isDigit y)"
  shows "x = y \<or> schar x < schar y"
  using assms unfolding natcmp_less by (auto split: if_splits)

lemma natcmp_trans_Cons:
  assumes xy: "natcmp False (x # xs) (y # ys) < 0" and yz: "natcmp False (y # ys) (z # zs) < 0"
    and tails: "natcmp False xs ys < 0 \<Longrightarrow> natcmp False ys zs < 0 \<Longrightarrow> natcmp False xs zs < 0"
  shows "natcmp False (x # xs) (z # zs) < 0"
proof (cases "isDigit x \<and> isDigit y \<and> isDigit z")
  case True
  let ?u = "run_of (x # xs)" and ?v = "run_of (y # ys)" and ?w = "run_of (z # zs)"
  have ulv: "?u = ?v \<and> x = y \<and> natcmp False xs ys < 0 \<or> run_key ?u < run_key ?v"
    using xy True same_run_same_head [of x y xs ys] unfolding natcmp_less by metis
  have vlw: "?v = ?w \<and> y = z \<and> natcmp False ys zs < 0 \<or> run_key ?v < run_key ?w"
    using yz True same_run_same_head [of y z ys zs] unfolding natcmp_less by metis
  have "?u = ?w \<and> x = z \<and> natcmp False xs zs < 0 \<or> run_key ?u < run_key ?w"
  proof (cases "run_key ?u < run_key ?v")
    case lt: True
    then show ?thesis using vlw less_trans [OF lt, of "run_key ?w"] by (elim disjE conjE) simp_all
  next
    case False
    then have "?u = ?v" "x = y" "natcmp False xs ys < 0" using ulv by blast+
    then show ?thesis using vlw tails by (elim disjE conjE) simp_all
  qed
  then show ?thesis
  proof
    assume "run_key ?u < run_key ?w"
    moreover from this have "?u \<noteq> ?w" by auto
    ultimately show ?thesis unfolding natcmp_less using True by simp
  next
    assume "?u = ?w \<and> x = z \<and> natcmp False xs zs < 0"
    then show ?thesis unfolding natcmp_less by argo
  qed
next
  case False
  show ?thesis
  proof (cases "x = y \<and> y = z")
    case True
    then have "\<not> isDigit x" using False by blast
    then show ?thesis using xy yz tails True unfolding natcmp_less by simp
  next
    case neq: False
    have "schar x < schar z \<and> \<not> (isDigit x \<and> isDigit z)"
    proof (cases "isDigit x \<and> isDigit y")
      case True
      then have "\<not> isDigit z" using False by blast
      then have "y = z \<or> schar y < schar z" using natcmp_step_order [OF yz] by blast
      then show ?thesis using True \<open>\<not> isDigit z\<close> by (auto simp: isDigit_def)
    next
      case nd: False
      then have a: "x = y \<or> schar x < schar y" using natcmp_step_order [OF xy] by blast
      show ?thesis
      proof (cases "isDigit y \<and> isDigit z")
        case True
        then show ?thesis using a nd by (auto simp: isDigit_def)
      next
        case False
        then have "y = z \<or> schar y < schar z" using natcmp_step_order [OF yz] by blast
        then show ?thesis using a nd False neq by (auto simp: isDigit_def)
      qed
    qed
    then show ?thesis unfolding natcmp_less by auto
  qed
qed

lemma natcmp_trans:
  assumes "plain xs" "plain ys" "plain zs" "natcmp False xs ys < 0" "natcmp False ys zs < 0"
  shows "natcmp False xs zs < 0"
  using assms
proof (induction xs arbitrary: ys zs)
  case Nil
  then show ?case
    by (cases ys; cases zs) (auto simp: natcmp_less fold_case_def plain_Cons isDigit_def simp del: natcmp.simps(1) split: if_splits)
next
  case (Cons x xs)
  show ?case
  proof (cases "ys = [] \<or> zs = []")
    case True
    then show ?thesis
      using Cons.prems
      by (cases ys; cases zs) (auto simp: natcmp_less fold_case_def plain_Cons isDigit_def simp del: natcmp.simps(1) split: if_splits)
  next
    case False
    then obtain y yt z zt where c: "ys = y # yt" "zs = z # zt" by (auto simp: neq_Nil_conv)
    have p: "plain xs" "plain yt" "plain zt" using Cons.prems(1-3) c by (simp_all add: plain_Cons)
    show ?thesis
      using natcmp_trans_Cons [of x xs y yt z zt] Cons.IH [OF p] Cons.prems(4,5) unfolding c by blast
  qed
qed

text \<open>
  \<^bold>\<open>C26.\<close> On names without white space and NUL, \<open>StringUtils::compare\<close> reads only inside its
  arguments and is a strict total order that agrees with equality: it answers 0 exactly for equal
  names, swapping the arguments negates the answer, and it is transitive, digit runs with leading
  zeros included. So it is a legal ordering for the \<open>std::map\<close> of destinations.
\<close>

theorem compare_total_order:
  assumes "plain a" "plain b" "plain c"
  shows "\<exists>ab bc ac. StringUtils_compare a b = Ok ab \<and> StringUtils_compare b a = Ok (- ab) \<and>
    StringUtils_compare b c = Ok bc \<and> StringUtils_compare a c = Ok ac \<and>
    (ab = 0 \<longleftrightarrow> a = b) \<and> (ab < 0 \<and> bc < 0 \<longrightarrow> ac < 0)"
  using compare_natcmp natcmp_swap [OF assms(1,2)] natcmp_eq_0 [of a b] natcmp_trans [OF assms] assms
  by simp

theorem compare_total_order_witness:
  "StringUtils_compare ''q9'' ''q10'' = Ok (- 1) \<and> StringUtils_compare ''q010'' ''q9'' = Ok (- 1) \<and>
   (\<exists>ac. StringUtils_compare ''q010'' ''q10'' = Ok ac \<and> ac < 0)"
proof -
  have p: "plain ''q9''" "plain ''q10''" "plain ''q010''"
    by (simp_all add: plain_def isWhitespace_def schar_def NUL_def)
  have c: "StringUtils_compare ''q9'' ''q10'' = Ok (- 1)" "StringUtils_compare ''q010'' ''q9'' = Ok (- 1)"
    by (simp_all add: compare_natcmp p runs_def hd0_def isDigit_def schar_def fold_case_def compareRight_def)
  then show ?thesis using compare_total_order [OF p(3) p(1) p(2)] by auto
qed

text \<open>
  White space in the right operand is skipped by reading the left operand at the right
  index: comparing the empty string with a string that starts with a blank reads beyond the end of the
  empty string, and a one-character string is greater than itself with a leading blank, although
  leading white space is meant to be ignored.
\<close>

lemma compare_skips_in_wrong_string:
  assumes "isWhitespace w" "\<not> isWhitespace c" "\<not> isDigit c" "0 < schar c"
  shows "StringUtils_compare [] (w # s) = Throw MemoryFault \<and>
    StringUtils_compare [c] [w, c] = Ok 1 \<and> StringUtils_compare [w, c] [c] = Ok 0"
proof -
  have "c \<noteq> NUL" using assms(4) by auto
  then show ?thesis
    using assms
  by (simp add: StringUtils_compare_def doCompare_def doCompareFrom.simps comparePass_def c_at_def
      skipWhitespace.simps compareRuns_def)
qed

lemma compare_skips_in_wrong_string_witness:
  "StringUtils_compare [] '' b'' = Throw MemoryFault \<and> StringUtils_compare ''b'' '' b'' = Ok 1"
  using compare_skips_in_wrong_string [of "CHR '' ''" "CHR ''b''" "''b''"]
  by (simp add: isWhitespace_def isDigit_def schar_def)

end
