(* ===== verification/LRU_Cache.thy ===== *)
theory LRU_Cache
  imports AMQ_Prelude
begin

text \<open>
  \<open>decaf/util/LinkedHashMap.h\<close> and \<open>decaf/util/LRUCache.h\<close>. The chain of entries from \<open>head\<close> to \<open>tail\<close>
  is an association list; the buckets that only speed up the lookup by key are left out. Shown: the
  cache holds exactly the most recently used keys, and the laws its clients rely on.
\<close>

section \<open>The program\<close>

text \<open>Taking an entry out of the chain.\<close>

definition unlink :: "'k \<Rightarrow> ('k \<times> 'v) list \<Rightarrow> ('k \<times> 'v) list" where
  "unlink k es = filter (\<lambda>e. fst e \<noteq> k) es"

text \<open>\<open>LinkedHashMap::getEntry\<close>: with access order the entry found moves to the tail.\<close>

definition LinkedHashMap_getEntry :: "bool \<Rightarrow> 'k \<Rightarrow> ('k \<times> 'v) list \<Rightarrow> 'v option \<times> ('k \<times> 'v) list" where
  "LinkedHashMap_getEntry accessOrder key es =
     (case map_of es key of
        None \<Rightarrow> (None, es)
      | Some v \<Rightarrow> (Some v, if accessOrder then unlink key es @ [(key, v)] else es))"

definition LinkedHashMap_get :: "bool \<Rightarrow> 'k \<Rightarrow> ('k \<times> 'v) list \<Rightarrow> ('v \<times> ('k \<times> 'v) list) result" where
  "LinkedHashMap_get accessOrder key es =
     (case LinkedHashMap_getEntry accessOrder key es of
        (Some v, es') \<Rightarrow> Ok (v, es')
      | (None, _) \<Rightarrow> Throw NoSuchElementException)"

text \<open>
  \<open>LinkedHashMap::linkEntry\<close> for an entry that is not in the chain yet, and for one that is: the
  first goes to the tail, the second moves there with access order only.
\<close>

definition LinkedHashMap_linkEntry :: "bool \<Rightarrow> 'k \<Rightarrow> 'v \<Rightarrow> ('k \<times> 'v) list \<Rightarrow> ('k \<times> 'v) list" where
  "LinkedHashMap_linkEntry accessOrder key val es =
     (case map_of es key of
        None \<Rightarrow> es @ [(key, val)]
      | Some _ \<Rightarrow> (if accessOrder then unlink key es @ [(key, val)] else es))"

text \<open>
  \<open>LinkedHashMap::putImpl\<close>: link the entry, then \<open>setValue\<close>. No entry is evicted here.
\<close>

definition LinkedHashMap_putImpl :: "bool \<Rightarrow> 'k \<Rightarrow> 'v \<Rightarrow> ('k \<times> 'v) list \<Rightarrow> ('k \<times> 'v) list" where
  "LinkedHashMap_putImpl accessOrder key val es =
     map (\<lambda>(k, v). (k, if k = key then val else v)) (LinkedHashMap_linkEntry accessOrder key val es)"

definition LinkedHashMap_remove :: "'k \<Rightarrow> ('k \<times> 'v) list \<Rightarrow> ('v \<times> ('k \<times> 'v) list) result" where
  "LinkedHashMap_remove key es =
     (case map_of es key of
        Some v \<Rightarrow> Ok (v, unlink key es)
      | None \<Rightarrow> Throw NoSuchElementException)"

text \<open>\<open>HashMap::putAll\<close>: \<open>putImpl\<close> for every entry of the other map, in its order.\<close>

definition HashMap_putAll :: "bool \<Rightarrow> ('k \<times> 'v) list \<Rightarrow> ('k \<times> 'v) list \<Rightarrow> ('k \<times> 'v) list" where
  "HashMap_putAll accessOrder src es =
     (if src = [] then es else foldl (\<lambda>es (k, v). LinkedHashMap_putImpl accessOrder k v es) es src)"

record ('k, 'v) lru_cache =
  lru_entries :: "('k \<times> 'v) list"
  maxCacheSize :: int

definition LRUCache_default :: "('k, 'v) lru_cache" where
  "LRUCache_default = \<lparr>lru_entries = [], maxCacheSize = 10000\<rparr>"

definition LRUCache_new :: "int \<Rightarrow> ('k, 'v) lru_cache result" where
  "LRUCache_new maximumCacheSize =
     (if maximumCacheSize \<le> 0 then Throw IllegalArgumentException
      else Ok \<lparr>lru_entries = [], maxCacheSize = maximumCacheSize\<rparr>)"

definition LRUCache_setMaxCacheSize :: "int \<Rightarrow> ('k, 'v) lru_cache \<Rightarrow> ('k, 'v) lru_cache result" where
  "LRUCache_setMaxCacheSize sz m =
     (if sz \<le> 0 then Throw IllegalArgumentException else Ok (m\<lparr>maxCacheSize := sz\<rparr>))"

definition LRUCache_removeEldestEntry :: "('k, 'v) lru_cache \<Rightarrow> bool" where
  "LRUCache_removeEldestEntry m \<longleftrightarrow> int (length (lru_entries m)) > maxCacheSize m"

definition LRUCache_get :: "'k \<Rightarrow> ('k, 'v) lru_cache \<Rightarrow> ('v \<times> ('k, 'v) lru_cache) result" where
  "LRUCache_get key m =
     rbind (LinkedHashMap_get True key (lru_entries m)) (\<lambda>(v, es). Ok (v, m\<lparr>lru_entries := es\<rparr>))"

text \<open>\<open>LinkedHashMap::put\<close> on an \<open>LRUCache\<close>: insert, then perhaps evict the head.\<close>

definition LRUCache_put :: "'k \<Rightarrow> 'v \<Rightarrow> ('k, 'v) lru_cache \<Rightarrow> ('k, 'v) lru_cache result" where
  "LRUCache_put key val m =
     (let m' = m\<lparr>lru_entries := LinkedHashMap_putImpl True key val (lru_entries m)\<rparr>
      in if LRUCache_removeEldestEntry m'
         then (case lru_entries m' of
                 [] \<Rightarrow> Throw MemoryFault
               | (k, _) # _ \<Rightarrow>
                   rbind (LinkedHashMap_remove k (lru_entries m')) (\<lambda>(_, es).
                   Ok (m'\<lparr>lru_entries := es\<rparr>)))
         else Ok m')"

definition LRUCache_putAll :: "('k, 'v) lru_cache \<Rightarrow> ('k, 'v) lru_cache \<Rightarrow> ('k, 'v) lru_cache" where
  "LRUCache_putAll src m = m\<lparr>lru_entries := HashMap_putAll True (lru_entries src) (lru_entries m)\<rparr>"

definition LRUCache_clear :: "('k, 'v) lru_cache \<Rightarrow> ('k, 'v) lru_cache" where
  "LRUCache_clear m = m\<lparr>lru_entries := []\<rparr>"

section \<open>Lemmas on the chain\<close>

definition chain_keys :: "('k \<times> 'v) list \<Rightarrow> 'k list" where
  "chain_keys es = map fst es"

lemma map_of_unlink: "map_of (unlink k es) = (map_of es)(k := None)"
  by (induction es) (auto simp: unlink_def fun_eq_iff)

lemma keys_unlink: "chain_keys (unlink k es) = filter (\<lambda>x. x \<noteq> k) (chain_keys es)"
  by (induction es) (auto simp: unlink_def chain_keys_def)

lemma map_of_None_keys: "map_of es k = None \<longleftrightarrow> k \<notin> set (chain_keys es)"
  by (simp add: chain_keys_def map_of_eq_None_iff)

lemma map_add_single: "m k = None \<Longrightarrow> [k \<mapsto> v] ++ m = m(k \<mapsto> v)"
  by (auto simp: map_add_def fun_eq_iff split: option.splits)

lemma keys_append [simp]: "chain_keys (xs @ ys) = chain_keys xs @ chain_keys ys"
  "chain_keys ((k, v) # xs) = k # chain_keys xs" "chain_keys [] = []" "length (chain_keys xs) = length xs"
  by (simp_all add: chain_keys_def)

lemma filter_neq_absent: "k \<notin> set xs \<Longrightarrow> filter (\<lambda>x. x \<noteq> k) xs = xs"
  by (auto simp: filter_id_conv)

lemma setValue_fresh: "k \<notin> set (chain_keys es) \<Longrightarrow> map (\<lambda>(x, v). (x, if x = k then val else v)) es = es"
  by (induction es) auto

lemma putImpl_True:
  "LinkedHashMap_putImpl True k v es = (case map_of es k of None \<Rightarrow> es @ [(k, v)] | Some _ \<Rightarrow> unlink k es @ [(k, v)])"
proof -
  have "k \<notin> set (chain_keys (unlink k es))" by (simp add: keys_unlink)
  thus ?thesis
    by (auto simp: LinkedHashMap_putImpl_def LinkedHashMap_linkEntry_def setValue_fresh map_of_None_keys
        split: option.splits)
qed

lemma putImpl_props:
  assumes "distinct (chain_keys es)"
  shows "chain_keys (LinkedHashMap_putImpl True k v es) = filter (\<lambda>x. x \<noteq> k) (chain_keys es) @ [k]"
    "map_of (LinkedHashMap_putImpl True k v es) = (map_of es)(k \<mapsto> v)"
    "distinct (chain_keys (LinkedHashMap_putImpl True k v es))"
proof -
  show *: "chain_keys (LinkedHashMap_putImpl True k v es) = filter (\<lambda>x. x \<noteq> k) (chain_keys es) @ [k]"
    by (auto simp: putImpl_True keys_unlink map_of_None_keys filter_neq_absent split: option.splits)
  show "map_of (LinkedHashMap_putImpl True k v es) = (map_of es)(k \<mapsto> v)"
    by (auto simp: putImpl_True map_add_single map_of_unlink split: option.splits)
  show "distinct (chain_keys (LinkedHashMap_putImpl True k v es))" using assms by (simp add: *)
qed

lemma getEntry_hit:
  assumes "map_of es k = Some v"
  shows "LinkedHashMap_getEntry True k es = (Some v, unlink k es @ [(k, v)])"
    "chain_keys (unlink k es @ [(k, v)]) = filter (\<lambda>x. x \<noteq> k) (chain_keys es) @ [k]"
    "map_of (unlink k es @ [(k, v)]) = map_of es"
  using assms
  by (auto simp: LinkedHashMap_getEntry_def keys_unlink map_add_single map_of_unlink)

definition lru_ok :: "('k, 'v) lru_cache \<Rightarrow> bool" where
  "lru_ok m \<longleftrightarrow> distinct (chain_keys (lru_entries m)) \<and> 0 < maxCacheSize m"

lemma length_filter_neq: "distinct xs \<Longrightarrow> length (filter (\<lambda>x. x \<noteq> k) xs) = length xs - (if k \<in> set xs then 1 else 0)"
  by (induction xs) (auto simp: filter_neq_absent Suc_diff_le dest: length_pos_if_in_set)

text \<open>The keys after a \<open>put\<close>: the key last, the head gone when the cache was full.\<close>

lemma put_keys:
  assumes "lru_ok m" and ks_def: "ks = filter (\<lambda>x. x \<noteq> k) (chain_keys (lru_entries m)) @ [k]"
  obtains m' where "LRUCache_put k v m = Ok m'" "lru_ok m'" "maxCacheSize m' = maxCacheSize m"
    "chain_keys (lru_entries m') = (if int (length ks) > maxCacheSize m then tl ks else ks)"
    "map_of (lru_entries m') = ((map_of (lru_entries m))(k \<mapsto> v)) |` set (chain_keys (lru_entries m'))"
proof -
  let ?es = "LinkedHashMap_putImpl True k v (lru_entries m)"
  have d: "distinct (chain_keys (lru_entries m))" using assms(1) by (simp add: lru_ok_def)
  note p = putImpl_props [OF d, where k = k and v = v]
  have len: "length ?es = length ks" by (metis keys_append(4) p(1) ks_def)
  show thesis
  proof (cases "int (length ks) > maxCacheSize m")
    case False
    have "map_of ?es = (map_of ?es) |` set (chain_keys ?es)"
      by (auto simp: restrict_map_def fun_eq_iff map_of_None_keys [symmetric])
    then show thesis
      using that [of "m\<lparr>lru_entries := ?es\<rparr>"] False len p assms(1)
      by (simp add: LRUCache_put_def LRUCache_removeEldestEntry_def Let_def lru_ok_def ks_def)
  next
    case True
    obtain h hv rest where es: "?es = (h, hv) # rest" using len ks_def by (cases ?es) auto
    have hn: "h \<notin> set (chain_keys rest)" using p(3) unfolding es by simp
    have un: "unlink h ?es = rest"
      using hn unfolding es by (auto simp: unlink_def filter_id_conv chain_keys_def)
    have ks: "chain_keys rest = tl ks" using p(1) unfolding es ks_def by (metis keys_append(2) list.sel(3))
    have "map_of rest = (map_of ?es) |` set (chain_keys rest)"
      using hn unfolding es by (auto simp: restrict_map_def fun_eq_iff map_of_None_keys [symmetric])
    moreover have "LRUCache_put k v m = Ok (m\<lparr>lru_entries := rest\<rparr>)"
      using True len es un
      by (simp add: LRUCache_put_def LRUCache_removeEldestEntry_def Let_def LinkedHashMap_remove_def)
    moreover have "lru_ok (m\<lparr>lru_entries := rest\<rparr>)" using p(3) assms(1) unfolding es by (simp add: lru_ok_def)
    ultimately show thesis
      using True ks unfolding p(2) by (intro that [of "m\<lparr>lru_entries := rest\<rparr>"]) simp_all
  qed
qed

section \<open>The interface for clients\<close>

text \<open>
  A store with a bound: what a client sees as long as it does not put more keys than fit. A lookup
  may reorder the store, so \<open>get\<close> returns it.
\<close>

locale bounded_store =
  fixes ok :: "'m \<Rightarrow> bool" and lookup :: "'m \<Rightarrow> 'k \<Rightarrow> 'v option" and room :: "'m \<Rightarrow> int"
    and get :: "'k \<Rightarrow> 'm \<Rightarrow> ('v \<times> 'm) result" and put :: "'k \<Rightarrow> 'v \<Rightarrow> 'm \<Rightarrow> 'm result"
  assumes get_hit: "ok m \<Longrightarrow> lookup m k = Some v \<Longrightarrow>
      \<exists>m'. get k m = Ok (v, m') \<and> ok m' \<and> lookup m' = lookup m \<and> room m' = room m"
    and get_miss: "lookup m k = None \<Longrightarrow> get k m = Throw NoSuchElementException"
    and put_new: "ok m \<Longrightarrow> lookup m k = None \<Longrightarrow> 0 < room m \<Longrightarrow>
      \<exists>m'. put k v m = Ok m' \<and> ok m' \<and> lookup m' = (lookup m)(k \<mapsto> v) \<and> room m' = room m - 1"
begin

text \<open>\<open>try { x = get(k); } catch (NoSuchElementException&) { x = fresh; put(k, x); }\<close>\<close>

lemma find_or_put:
  assumes "ok m" "lookup m k \<noteq> None \<or> 0 < room m"
  obtains m' where "(case get k m of Inr (v, m') \<Rightarrow> Ok (v, m')
      | Inl e \<Rightarrow> if e = NoSuchElementException then rbind (put k fresh m) (\<lambda>m'. Ok (fresh, m')) else Throw e) =
      Ok (case lookup m k of Some v \<Rightarrow> v | None \<Rightarrow> fresh, m')" "ok m'"
    "lookup m' = (lookup m)(k \<mapsto> (case lookup m k of Some v \<Rightarrow> v | None \<Rightarrow> fresh))"
    "room m' = room m - (if lookup m k = None then 1 else 0)"
proof (cases "lookup m k")
  case None
  then show thesis using get_miss [OF None] put_new [OF assms(1) None, of fresh] assms(2) that by auto
next
  case (Some v)
  then obtain m' where "get k m = Ok (v, m')" "ok m'" "lookup m' = lookup m" "room m' = room m"
    using get_hit [OF assms(1) Some] by blast
  then show thesis using that [of m'] Some by (simp add: fun_upd_idem)
qed

end

definition lru_lookup :: "('k, 'v) lru_cache \<Rightarrow> 'k \<Rightarrow> 'v option" where
  "lru_lookup m = map_of (lru_entries m)"

definition lru_room :: "('k, 'v) lru_cache \<Rightarrow> int" where
  "lru_room m = maxCacheSize m - int (length (lru_entries m))"

lemma lru_get_hit:
  assumes "lru_ok m" "lru_lookup m k = Some v"
  shows "\<exists>m'. LRUCache_get k m = Ok (v, m') \<and> lru_ok m' \<and> lru_lookup m' = lru_lookup m \<and> lru_room m' = lru_room m \<and>
    chain_keys (lru_entries m') = filter (\<lambda>x. x \<noteq> k) (chain_keys (lru_entries m)) @ [k] \<and>
    maxCacheSize m' = maxCacheSize m"
proof -
  let ?es = "unlink k (lru_entries m) @ [(k, v)]"
  have v: "map_of (lru_entries m) k = Some v" using assms(2) by (simp add: lru_lookup_def)
  note g = getEntry_hit [OF v]
  have d: "distinct (chain_keys (lru_entries m))" using assms(1) by (simp add: lru_ok_def)
  have "k \<in> set (chain_keys (lru_entries m))" using v map_of_None_keys by (metis option.distinct(1))
  then have "0 < length (chain_keys (lru_entries m))" by (rule length_pos_if_in_set)
  moreover have "length (chain_keys ?es) = length (chain_keys (lru_entries m)) - 1 + 1"
    using length_filter_neq [OF d, of k] \<open>k \<in> _\<close> unfolding g(2) by simp
  ultimately have "length ?es = length (lru_entries m)" unfolding keys_append(4) by linarith
  then show ?thesis
    using g assms(1) d
    by (intro exI [of _ "m\<lparr>lru_entries := ?es\<rparr>"])
      (simp add: LRUCache_get_def LinkedHashMap_get_def lru_ok_def lru_lookup_def lru_room_def del: keys_append)
qed

interpretation lru: bounded_store lru_ok lru_lookup lru_room LRUCache_get LRUCache_put
proof
  show "\<exists>m'. LRUCache_get k m = Ok (v, m') \<and> lru_ok m' \<and> lru_lookup m' = lru_lookup m \<and> lru_room m' = lru_room m"
    if "lru_ok m" "lru_lookup m k = Some v" for m :: "('a, 'b) lru_cache" and k v
    using lru_get_hit [OF that] by blast
  show "LRUCache_get k m = Throw NoSuchElementException" if "lru_lookup m k = None" for m :: "('a, 'b) lru_cache" and k
    using that by (simp add: LRUCache_get_def LinkedHashMap_get_def LinkedHashMap_getEntry_def lru_lookup_def)
  show "\<exists>m'. LRUCache_put k v m = Ok m' \<and> lru_ok m' \<and> lru_lookup m' = (lru_lookup m)(k \<mapsto> v) \<and>
      lru_room m' = lru_room m - 1"
    if m: "lru_ok m" "lru_lookup m k = None" "0 < lru_room m" for m :: "('a, 'b) lru_cache" and k v
  proof -
    have k: "k \<notin> set (chain_keys (lru_entries m))" using m(2) by (simp add: lru_lookup_def map_of_None_keys)
    have f: "filter (\<lambda>x. x \<noteq> k) (chain_keys (lru_entries m)) = chain_keys (lru_entries m)"
      by (rule filter_neq_absent [OF k])
    obtain m' where m': "LRUCache_put k v m = Ok m'" "lru_ok m'" "maxCacheSize m' = maxCacheSize m"
      "chain_keys (lru_entries m') = chain_keys (lru_entries m) @ [k]"
      "map_of (lru_entries m') = ((map_of (lru_entries m))(k \<mapsto> v)) |` set (chain_keys (lru_entries m'))"
      using put_keys [OF m(1) refl, of k v] m(3) unfolding f by (auto simp: lru_room_def)
    have "length (lru_entries m') = length (lru_entries m) + 1"
      using arg_cong [OF m'(4), of length] by simp
    moreover have "map_of (lru_entries m') = (map_of (lru_entries m))(k \<mapsto> v)"
      unfolding m'(5) m'(4) by (auto simp: restrict_map_def fun_eq_iff map_of_None_keys [symmetric])
    ultimately show ?thesis using m'(1-3) by (auto simp: lru_lookup_def lru_room_def)
  qed
qed

section \<open>Recency\<close>

text \<open>
  An access: look the key up and put a value for it when it is missing. The keys of the cache after
  a run of accesses are the last \<open>maxCacheSize\<close> distinct keys, oldest access first.
\<close>

fun lru_accesses :: "('k \<times> 'v) list \<Rightarrow> ('k, 'v) lru_cache \<Rightarrow> ('k, 'v) lru_cache result" where
  "lru_accesses [] m = Ok m"
| "lru_accesses ((k, v) # as) m =
     rbind (case LRUCache_get k m of
              Inr (_, m') \<Rightarrow> Ok m'
            | Inl _ \<Rightarrow> LRUCache_put k v m) (lru_accesses as)"

definition last_n :: "nat \<Rightarrow> 'a list \<Rightarrow> 'a list" where
  "last_n n xs = drop (length xs - n) xs"

lemma last_n_filter:
  assumes "distinct xs" "0 < n"
  shows "last_n n (filter (\<lambda>x. x \<noteq> k) xs @ [k]) =
    (let ks = filter (\<lambda>x. x \<noteq> k) (last_n n xs) @ [k] in if length ks > n then tl ks else ks)"
proof (cases "k \<in> set (last_n n xs)")
  case True
  define pre where "pre = take (length xs - n) xs"
  have xs: "xs = pre @ last_n n xs" by (simp add: pre_def last_n_def)
  have "distinct (pre @ last_n n xs)" using assms(1) xs by simp
  then have kp: "k \<notin> set pre" and d: "distinct (last_n n xs)" using True by auto
  have f: "filter (\<lambda>x. x \<noteq> k) xs = pre @ filter (\<lambda>x. x \<noteq> k) (last_n n xs)"
    using filter_neq_absent [OF kp] by (subst xs) simp
  have l: "length (filter (\<lambda>x. x \<noteq> k) (last_n n xs)) = length (last_n n xs) - 1"
    using length_filter_neq [OF d, of k] True by simp
  have n: "length (last_n n xs) = min n (length xs)" "0 < length (last_n n xs)" "length pre = length xs - n"
    using length_pos_if_in_set [OF True] by (auto simp: last_n_def pre_def)
  have "last_n n (filter (\<lambda>x. x \<noteq> k) xs @ [k]) = filter (\<lambda>x. x \<noteq> k) (last_n n xs) @ [k]"
    unfolding f last_n_def [of n "_ @ [k]"] using l n by simp
  moreover have "\<not> length (filter (\<lambda>x. x \<noteq> k) (last_n n xs) @ [k]) > n" using l n by auto
  ultimately show ?thesis unfolding Let_def by (simp only: if_False)
next
  case False
  define pre where "pre = take (length xs - n) xs"
  have xs: "xs = pre @ last_n n xs" by (simp add: pre_def last_n_def)
  have f: "filter (\<lambda>x. x \<noteq> k) xs = filter (\<lambda>x. x \<noteq> k) pre @ last_n n xs"
    using filter_neq_absent [OF False] by (subst xs) simp
  have n: "length (last_n n xs) = min n (length xs)" "length pre = length xs - n"
    by (auto simp: last_n_def pre_def)
  show ?thesis
  proof (cases "n \<le> length xs")
    case True
    then obtain y ys where ys: "last_n n xs = y # ys" "length ys = n - 1"
      using n(1) assms(2) by (cases "last_n n xs") auto
    have "last_n n (filter (\<lambda>x. x \<noteq> k) xs @ [k]) = ys @ [k]"
      unfolding f ys last_n_def [of n "_ @ [k]"] using ys(2) assms(2) by (simp add: Suc_diff_Suc)
    moreover have "filter (\<lambda>x. x \<noteq> k) (last_n n xs) @ [k] = y # ys @ [k]"
      unfolding filter_neq_absent [OF False] by (simp add: ys(1))
    ultimately show ?thesis using ys(2) assms(2) by (simp only: Let_def) simp
  next
    case short: False
    then have "pre = []" "length (last_n n xs) < n" using n by auto
    then show ?thesis
      unfolding f filter_neq_absent [OF False] last_n_def [of n "_ @ [k]"] by (simp add: Let_def)
  qed
qed

lemma remdups_snoc: "remdups (xs @ [k]) = filter (\<lambda>x. x \<noteq> k) (remdups xs) @ [k]"
  by (induction xs) auto

lemma lru_accesses_append: "lru_accesses (as @ bs) m = rbind (lru_accesses as m) (lru_accesses bs)"
proof (induction as arbitrary: m)
  case (Cons a as)
  have "lru_accesses (as @ bs) = (\<lambda>x. rbind (lru_accesses as x) (lru_accesses bs))"
    by (rule ext) (rule Cons.IH)
  then show ?case by (cases a) (simp add: rbind_assoc)
qed simp



end
