(* ===== verification/Message_Audit.thy ===== *)
theory Message_Audit
  imports Identifiers LRU_Cache Bit_Set_Queries
begin

text \<open>
  \<open>activemq/core/ActiveMQMessageAudit.cpp\<close>: duplicate detection by a bit set of sequence numbers per
  producer, held in an \<open>LRUCache\<close>. A \<open>shared_ptr<BitSet>\<close> found in the cache is updated in place, so
  the model writes the changed bit set back under its key. Where a call throws after it has changed the
  cache, the changed cache stays: operations return a result and the new state. \<open>junk\<close> is the content
  of the uninitialised memory a bit set's array grows into.
\<close>

section \<open>The program\<close>

record message_audit =
  auditDepth :: int
  maximumNumberOfProducersToTrack :: int
  audit_map :: "(string, bitset) lru_cache"

definition DEFAULT_WINDOW_SIZE :: int where "DEFAULT_WINDOW_SIZE = 2048"
definition MAXIMUM_PRODUCER_COUNT :: int where "MAXIMUM_PRODUCER_COUNT = 64"

definition INT_MAX :: int where "INT_MAX = 2 ^ 31 - 1"

text \<open>Both constructors build the map with its default constructor.\<close>

definition ActiveMQMessageAudit_new :: "int \<Rightarrow> int \<Rightarrow> message_audit" where
  "ActiveMQMessageAudit_new depth producers =
     \<lparr>auditDepth = depth, maximumNumberOfProducersToTrack = producers, audit_map = LRUCache_default\<rparr>"

definition ActiveMQMessageAudit_default :: message_audit where
  "ActiveMQMessageAudit_default = ActiveMQMessageAudit_new 2048 64"

definition setAuditDepth :: "int \<Rightarrow> message_audit \<Rightarrow> message_audit" where
  "setAuditDepth val a = a\<lparr>auditDepth := val\<rparr>"

text \<open>\<open>adjustMaxProducersToTrack\<close>, the body of \<open>getMaximumNumberOfProducersToTrack(int)\<close>\<close>

definition adjustMaxProducersToTrack :: "int \<Rightarrow> message_audit \<Rightarrow> unit result \<times> message_audit" where
  "adjustMaxProducersToTrack val a =
     (case (if val < maximumNumberOfProducersToTrack a
            then rbind (LRUCache_new val) (\<lambda>newMap.
                 let newMap' = LRUCache_putAll (audit_map a) newMap
                 in Ok (a\<lparr>audit_map := LRUCache_putAll newMap' (LRUCache_clear (audit_map a))\<rparr>))
            else Ok a) of
        Inl e \<Rightarrow> (Throw e, a)
      | Inr a' \<Rightarrow>
          (case LRUCache_setMaxCacheSize val (audit_map a') of
             Inl e \<Rightarrow> (Throw e, a')
           | Inr m \<Rightarrow> (Ok (), a'\<lparr>audit_map := m, maximumNumberOfProducersToTrack := val\<rparr>)))"

text \<open>
  \<open>try { bits = map.get(seed); } catch (NoSuchElementException&) { bits.reset(new BitSet(auditDepth));
  map.put(seed, bits); }\<close>
\<close>

definition audit_bits :: "string \<Rightarrow> message_audit \<Rightarrow> (bitset \<times> message_audit) result" where
  "audit_bits key a =
     (case LRUCache_get key (audit_map a) of
        Inr (b, m) \<Rightarrow> Ok (b, a\<lparr>audit_map := m\<rparr>)
      | Inl e \<Rightarrow>
          (if e = NoSuchElementException then
             rbind (BitSet_new (auditDepth a)) (\<lambda>b.
             rbind (LRUCache_put key b (audit_map a)) (\<lambda>m.
             Ok (b, a\<lparr>audit_map := m\<rparr>)))
           else Throw e))"

text \<open>The write through the shared pointer.\<close>

definition store_bits :: "string \<Rightarrow> bitset \<Rightarrow> message_audit \<Rightarrow> message_audit" where
  "store_bits key b a =
     a\<lparr>audit_map := (audit_map a)\<lparr>lru_entries :=
         map (\<lambda>(k, v). (k, if k = key then b else v)) (lru_entries (audit_map a))\<rparr>\<rparr>"

definition scaledIndex :: "int \<Rightarrow> int" where
  "scaledIndex index = (if index > INT_MAX then index mod INT_MAX else index)"

text \<open>The synchronized block of both \<open>isDuplicate\<close> overloads; \<open>index\<close> is evaluated after the lookup.\<close>

definition audit_duplicate :: "ulong \<Rightarrow> string \<Rightarrow> int result \<Rightarrow> message_audit \<Rightarrow> bool result \<times> message_audit" where
  "audit_duplicate junk key index a =
     (case audit_bits key a of
        Inl e \<Rightarrow> (Throw e, a)
      | Inr (b, a') \<Rightarrow>
          (case index of
             Inl e \<Rightarrow> (Throw e, a')
           | Inr i \<Rightarrow>
               (if i \<ge> 0 then
                  (case BitSet_get (scaledIndex i) b of
                     Inl e \<Rightarrow> (Throw e, a')
                   | Inr answer \<Rightarrow>
                       (if answer then (Ok True, a')
                        else (case BitSet_setValue junk (scaledIndex i) True b of
                                Inl e \<Rightarrow> (Throw e, a')
                              | Inr b' \<Rightarrow> (Ok False, store_bits key b' a'))))
                else (Ok False, a'))))"

definition isDuplicate_string :: "ulong \<Rightarrow> string \<Rightarrow> message_audit \<Rightarrow> bool result \<times> message_audit" where
  "isDuplicate_string junk ident a =
     (let seed = getSeedFromId ident
      in if seed \<noteq> [] then audit_duplicate junk seed (getSequenceFromId ident) a else (Ok False, a))"

definition isDuplicate :: "ulong \<Rightarrow> message_id option \<Rightarrow> message_audit \<Rightarrow> bool result \<times> message_audit" where
  "isDuplicate junk msgId a =
     (case msgId of
        None \<Rightarrow> (Ok False, a)
      | Some mid \<Rightarrow>
          (case producerId mid of
             None \<Rightarrow> (Ok False, a)
           | Some pid \<Rightarrow>
               (let seed = ProducerId_toString pid
                in if seed \<noteq> [] then audit_duplicate junk seed (Ok (producerSequenceId mid)) a
                   else (Ok False, a))))"

text \<open>The synchronized block of both \<open>rollback\<close> overloads.\<close>

definition audit_rollback :: "ulong \<Rightarrow> string \<Rightarrow> int result \<Rightarrow> message_audit \<Rightarrow> unit result \<times> message_audit" where
  "audit_rollback junk key index a =
     (case LRUCache_get key (audit_map a) of
        Inl e \<Rightarrow> (if e = NoSuchElementException then Ok () else Throw e, a)
      | Inr (b, m) \<Rightarrow>
          (let a' = a\<lparr>audit_map := m\<rparr>
           in case index of
                Inl e \<Rightarrow> (Throw e, a')
              | Inr i \<Rightarrow>
                  (if i \<ge> 0 then
                     (case BitSet_setValue junk (scaledIndex i) False b of
                        Inl e \<Rightarrow> (Throw e, a')
                      | Inr b' \<Rightarrow> (Ok (), store_bits key b' a'))
                   else (Ok (), a'))))"

definition rollback_string :: "ulong \<Rightarrow> string \<Rightarrow> message_audit \<Rightarrow> unit result \<times> message_audit" where
  "rollback_string junk ident a =
     (let seed = getSeedFromId ident
      in if seed \<noteq> [] then audit_rollback junk seed (getSequenceFromId ident) a else (Ok (), a))"

definition rollback :: "ulong \<Rightarrow> message_id option \<Rightarrow> message_audit \<Rightarrow> unit result \<times> message_audit" where
  "rollback junk msgId a =
     (case msgId of
        None \<Rightarrow> (Ok (), a)
      | Some mid \<Rightarrow>
          (case producerId mid of
             None \<Rightarrow> (Ok (), a)
           | Some pid \<Rightarrow>
               (let seed = ProducerId_toString pid
                in if seed \<noteq> [] then audit_rollback junk seed (Ok (producerSequenceId mid)) a
                   else (Ok (), a))))"

text \<open>The synchronized block of both \<open>isInOrder\<close> overloads; \<open>dflt\<close> is the initial \<open>answer\<close>.\<close>

definition audit_in_order :: "bool \<Rightarrow> string \<Rightarrow> int result \<Rightarrow> message_audit \<Rightarrow> bool result \<times> message_audit" where
  "audit_in_order dflt key index a =
     (case audit_bits key a of
        Inl e \<Rightarrow> (Throw e, a)
      | Inr (b, a') \<Rightarrow>
          (case index of
             Inl e \<Rightarrow> (Throw e, a')
           | Inr i \<Rightarrow>
               (if i \<ge> 0 then
                  (case BitSet_length b of
                     Inl e \<Rightarrow> (Throw e, a')
                   | Inr (n, b') \<Rightarrow> (Ok (n - 1 = scaledIndex i), store_bits key b' a'))
                else (Ok dflt, a'))))"

definition isInOrder_string :: "string \<Rightarrow> message_audit \<Rightarrow> bool result \<times> message_audit" where
  "isInOrder_string msgId a =
     (if msgId \<noteq> [] then
        (let seed = getSeedFromId msgId
         in if seed \<noteq> [] then audit_in_order True seed (getSequenceFromId msgId) a else (Ok True, a))
      else (Ok True, a))"

definition isInOrder :: "message_id option \<Rightarrow> message_audit \<Rightarrow> bool result \<times> message_audit" where
  "isInOrder msgId a =
     (case msgId of
        None \<Rightarrow> (Ok False, a)
      | Some mid \<Rightarrow>
          (case producerId mid of
             None \<Rightarrow> (Ok False, a)
           | Some pid \<Rightarrow>
               (let seed = ProducerId_toString pid
                in if seed \<noteq> [] then audit_in_order False seed (Ok (producerSequenceId mid)) a
                   else (Ok False, a))))"

definition getLastSeqId :: "producer_id option \<Rightarrow> message_audit \<Rightarrow> int result \<times> message_audit" where
  "getLastSeqId ident a =
     (case ident of
        None \<Rightarrow> (Ok (-1), a)
      | Some pid \<Rightarrow>
          (let seed = ProducerId_toString pid
           in if seed \<noteq> [] then
                (case LRUCache_get seed (audit_map a) of
                   Inl e \<Rightarrow> (if e = NoSuchElementException then Ok (-1) else Throw e, a)
                 | Inr (b, m) \<Rightarrow>
                     (let a' = a\<lparr>audit_map := m\<rparr>
                      in case BitSet_length b of
                           Inl e \<Rightarrow> (Throw e, a')
                         | Inr (n, b') \<Rightarrow> (Ok (n - 1), store_bits seed b' a')))
              else (Ok (-1), a)))"

definition ActiveMQMessageAudit_clear :: "message_audit \<Rightarrow> message_audit" where
  "ActiveMQMessageAudit_clear a = a\<lparr>audit_map := LRUCache_clear (audit_map a)\<rparr>"

section \<open>The abstraction: a set of sequence numbers per tracked producer\<close>

definition tracked :: "message_audit \<Rightarrow> string \<Rightarrow> nat set option" where
  "tracked a s = map_option bs_set (lru_lookup (audit_map a) s)"

definition audit_inv :: "message_audit \<Rightarrow> bool" where
  "audit_inv a \<longleftrightarrow> lru_ok (audit_map a) \<and> 0 \<le> auditDepth a \<and>
     (\<forall>s b. lru_lookup (audit_map a) s = Some b \<longrightarrow> bs_inv b)"

definition audit_room :: "message_audit \<Rightarrow> int" where
  "audit_room a = lru_room (audit_map a)"

definition seen :: "(string \<Rightarrow> nat set option) \<Rightarrow> string \<Rightarrow> nat set" where
  "seen T s = (case T s of Some A \<Rightarrow> A | None \<Rightarrow> {})"

lemma audit_invD: "audit_inv a \<Longrightarrow> lru_ok (audit_map a)" "audit_inv a \<Longrightarrow> 0 \<le> auditDepth a"
  "audit_inv a \<Longrightarrow> lru_lookup (audit_map a) s = Some b \<Longrightarrow> bs_inv b"
  by (auto simp: audit_inv_def)

lemma map_of_setValue: "map_of (map (\<lambda>(x, v). (x, if x = k then val else v)) es) =
    (if map_of es k = None then map_of es else (map_of es)(k \<mapsto> val))"
  by (induction es) (auto simp: fun_eq_iff)

lemma store_bits_props:
  assumes "audit_inv a" "lru_lookup (audit_map a) s = Some b0" "bs_inv b"
  shows "audit_inv (store_bits s b a)" "tracked (store_bits s b a) = (tracked a)(s \<mapsto> bs_set b)"
    "audit_room (store_bits s b a) = audit_room a"
proof -
  have l: "lru_lookup (audit_map (store_bits s b a)) = (lru_lookup (audit_map a))(s \<mapsto> b)"
    using assms(2) by (simp add: store_bits_def lru_lookup_def map_of_setValue)
  have k: "chain_keys (lru_entries (audit_map (store_bits s b a))) = chain_keys (lru_entries (audit_map a))"
    by (simp add: store_bits_def chain_keys_def case_prod_unfold)
  show "audit_inv (store_bits s b a)"
    using assms(1,3) k by (simp add: audit_inv_def l lru_ok_def) (simp add: store_bits_def)
  show "tracked (store_bits s b a) = (tracked a)(s \<mapsto> bs_set b)"
    by (simp add: tracked_def l fun_eq_iff)
  show "audit_room (store_bits s b a) = audit_room a"
    by (simp add: audit_room_def lru_room_def store_bits_def)
qed

text \<open>What \<open>audit_bits\<close> finds or creates.\<close>

lemma audit_bits_found:
  assumes "audit_inv a" "tracked a s \<noteq> None \<or> 0 < audit_room a"
  obtains b a' where "audit_bits s a = Ok (b, a')" "audit_inv a'" "bs_inv b"
    "lru_lookup (audit_map a') s = Some b" "bs_set b = seen (tracked a) s"
    "tracked a' = (tracked a)(s \<mapsto> seen (tracked a) s)"
    "audit_room a' = audit_room a - (if tracked a s = None then 1 else 0)"
proof -
  obtain fresh where f: "BitSet_new (auditDepth a) = Ok fresh" "bs_inv fresh" "bs_set fresh = {}"
    using new_refines audit_invD(2) [OF assms(1)] by blast
  let ?l = "lru_lookup (audit_map a)"
  let ?b = "case ?l s of Some v \<Rightarrow> v | None \<Rightarrow> fresh"
  have rm: "?l s \<noteq> None \<or> 0 < lru_room (audit_map a)"
    using assms(2) by (auto simp: tracked_def audit_room_def)
  obtain m where m: "(case LRUCache_get s (audit_map a) of Inr (v, m') \<Rightarrow> Ok (v, m')
      | Inl e \<Rightarrow> if e = NoSuchElementException
          then rbind (LRUCache_put s fresh (audit_map a)) (\<lambda>m'. Ok (fresh, m')) else Throw e) = Ok (?b, m)"
    and mp: "lru_ok m" "lru_lookup m = ?l(s \<mapsto> ?b)"
      "lru_room m = lru_room (audit_map a) - (if ?l s = None then 1 else 0)"
    by (rule lru.find_or_put [OF audit_invD(1) [OF assms(1)] rm, of fresh])
  have 1: "audit_bits s a = Ok (?b, a\<lparr>audit_map := m\<rparr>)"
    using m f(1)
    by (auto simp: audit_bits_def split: sum.splits prod.splits if_splits simp: rbind_Ok_iff)
  have b: "bs_inv ?b" "bs_set ?b = seen (tracked a) s"
    using f audit_invD(3) [OF assms(1), of s]
    by (auto simp: seen_def tracked_def split: option.splits)
  have 2: "audit_inv (a\<lparr>audit_map := m\<rparr>)"
    using assms(1) b mp by (simp add: audit_inv_def)
  have 3: "tracked (a\<lparr>audit_map := m\<rparr>) = (tracked a)(s \<mapsto> seen (tracked a) s)"
    using b(2) by (simp add: tracked_def mp(2) fun_eq_iff)
  have 4: "audit_room (a\<lparr>audit_map := m\<rparr>) = audit_room a - (if tracked a s = None then 1 else 0)"
    by (simp add: audit_room_def mp(3) tracked_def)
  show thesis by (rule that [OF 1 2 b(1) _ b(2) 3 4]) (simp add: mp(2))
qed

lemma scaledIndex_nonneg: "0 \<le> i \<Longrightarrow> 0 \<le> scaledIndex i"
  by (simp add: scaledIndex_def INT_MAX_def)


section \<open>Refinement\<close>

text \<open>The specification: the two blocks on sets of numbers.\<close>

definition spec_duplicate :: "string \<Rightarrow> int result \<Rightarrow> (string \<Rightarrow> nat set option) \<Rightarrow> bool result \<times> (string \<Rightarrow> nat set option)" where
  "spec_duplicate s index T =
     (case index of
        Inl e \<Rightarrow> (Throw e, T(s \<mapsto> seen T s))
      | Inr n \<Rightarrow>
          (if n \<ge> 0 then (Ok (nat (scaledIndex n) \<in> seen T s), T(s \<mapsto> insert (nat (scaledIndex n)) (seen T s)))
           else (Ok False, T(s \<mapsto> seen T s))))"

definition spec_rollback :: "string \<Rightarrow> int result \<Rightarrow> (string \<Rightarrow> nat set option) \<Rightarrow> unit result \<times> (string \<Rightarrow> nat set option)" where
  "spec_rollback s index T =
     (case T s of
        None \<Rightarrow> (Ok (), T)
      | Some A \<Rightarrow>
          (case index of
             Inl e \<Rightarrow> (Throw e, T)
           | Inr n \<Rightarrow> (Ok (), if n \<ge> 0 then T(s \<mapsto> A - {nat (scaledIndex n)}) else T)))"

lemma audit_duplicate_refines:
  assumes "audit_inv a" "tracked a s \<noteq> None \<or> 0 < audit_room a"
  obtains a' where "audit_duplicate junk s index a = (fst (spec_duplicate s index (tracked a)), a')"
    "audit_inv a'" "tracked a' = snd (spec_duplicate s index (tracked a))"
    "audit_room a' = audit_room a - (if tracked a s = None then 1 else 0)"
proof -
  obtain b a1 where b: "audit_bits s a = Ok (b, a1)" "audit_inv a1" "bs_inv b"
    "lru_lookup (audit_map a1) s = Some b" "bs_set b = seen (tracked a) s"
    "tracked a1 = (tracked a)(s \<mapsto> seen (tracked a) s)"
    "audit_room a1 = audit_room a - (if tracked a s = None then 1 else 0)"
    by (rule audit_bits_found [OF assms])
  show thesis
  proof (cases index)
    case (Inl e)
    then show thesis using that [of a1] b by (simp add: audit_duplicate_def spec_duplicate_def)
  next
    case (Inr n)
    show thesis
    proof (cases "0 \<le> n")
      case True
      let ?i = "scaledIndex n"
      have i: "0 \<le> ?i" using True by (rule scaledIndex_nonneg)
      have g: "BitSet_get ?i b = Ok (nat ?i \<in> bs_set b)" by (rule bs.get_law [OF b(3) i])
      show thesis
      proof (cases "nat ?i \<in> bs_set b")
        case yes: True
        then show thesis
          using that [of a1] b Inr True g
          by (simp add: audit_duplicate_def spec_duplicate_def insert_absorb)
      next
        case no: False
        obtain b' where b': "BitSet_setValue junk ?i True b = Ok b'" "bs_inv b'"
          "bs_set b' = insert (nat ?i) (bs_set b)"
          using bs.put_law [OF b(3) i, where b = True and junk = junk] by auto
        note st = store_bits_props [OF b(2,4) b'(2)]
        show thesis
          using that [of "store_bits s b' a1"] b Inr True g no b' st
          by (simp add: audit_duplicate_def spec_duplicate_def)
      qed
    next
      case False
      then show thesis using that [of a1] b Inr by (simp add: audit_duplicate_def spec_duplicate_def)
    qed
  qed
qed

lemma audit_rollback_refines:
  assumes "audit_inv a"
  obtains a' where "audit_rollback junk s index a = (fst (spec_rollback s index (tracked a)), a')"
    "audit_inv a'" "tracked a' = snd (spec_rollback s index (tracked a))" "audit_room a' = audit_room a"
proof (cases "lru_lookup (audit_map a) s")
  case None
  then show thesis
    using that [of a] lru.get_miss [OF None] assms
    by (simp add: audit_rollback_def spec_rollback_def tracked_def)
next
  case (Some b)
  obtain m where m: "LRUCache_get s (audit_map a) = Ok (b, m)" "lru_ok m"
    "lru_lookup m = lru_lookup (audit_map a)" "lru_room m = lru_room (audit_map a)"
    using lru.get_hit [OF audit_invD(1) [OF assms] Some] by blast
  let ?a = "a\<lparr>audit_map := m\<rparr>"
  have a: "audit_inv ?a" "tracked ?a = tracked a" "audit_room ?a = audit_room a"
    "lru_lookup (audit_map ?a) s = Some b" "tracked a s = Some (bs_set b)"
    using assms m Some by (simp_all add: audit_inv_def tracked_def audit_room_def fun_eq_iff)
  have b: "bs_inv b" by (rule audit_invD(3) [OF assms Some])
  show thesis
  proof (cases index)
    case (Inl e)
    then show thesis using that [of ?a] a m by (simp add: audit_rollback_def spec_rollback_def)
  next
    case (Inr n)
    show thesis
    proof (cases "0 \<le> n")
      case True
      let ?i = "scaledIndex n"
      obtain b' where b': "BitSet_setValue junk ?i False b = Ok b'" "bs_inv b'"
        "bs_set b' = bs_set b - {nat ?i}"
        using bs.put_law [OF b scaledIndex_nonneg [OF True], where b = False and junk = junk] by auto
      note st = store_bits_props [OF a(1,4) b'(2)]
      show thesis
        using that [of "store_bits s b' ?a"] a Inr True b' st m
        by (simp add: audit_rollback_def spec_rollback_def)
    next
      case False
      then show thesis using that [of ?a] a m Inr by (simp add: audit_rollback_def spec_rollback_def)
    qed
  qed
qed

text \<open>What a message id, and the text of one, ask the audit about.\<close>

definition key_of_id :: "message_id option \<Rightarrow> (string \<times> int result) option" where
  "key_of_id mid =
     Option.bind mid (\<lambda>m. map_option (\<lambda>p. (ProducerId_toString p, Ok (producerSequenceId m))) (producerId m))"

definition key_of_string :: "string \<Rightarrow> (string \<times> int result) option" where
  "key_of_string t =
     (if getSeedFromId t = [] then None else Some (getSeedFromId t, getSequenceFromId t))"

lemma ProducerId_toString_nonempty [simp]: "ProducerId_toString p \<noteq> []"
  by (simp add: ProducerId_toString_def)

lemma overloads:
  "isDuplicate junk mid a = (case key_of_id mid of None \<Rightarrow> (Ok False, a) | Some (s, i) \<Rightarrow> audit_duplicate junk s i a)"
  "isDuplicate_string junk t a = (case key_of_string t of None \<Rightarrow> (Ok False, a) | Some (s, i) \<Rightarrow> audit_duplicate junk s i a)"
  "rollback junk mid a = (case key_of_id mid of None \<Rightarrow> (Ok (), a) | Some (s, i) \<Rightarrow> audit_rollback junk s i a)"
  "rollback_string junk t a = (case key_of_string t of None \<Rightarrow> (Ok (), a) | Some (s, i) \<Rightarrow> audit_rollback junk s i a)"
  by (auto simp: isDuplicate_def isDuplicate_string_def rollback_def rollback_string_def key_of_id_def
      key_of_string_def Let_def split: option.splits)

datatype audit_call =
    IsDuplicate "message_id option" | IsDuplicateText string
  | Rollback "message_id option" | RollbackText string

fun audit_step :: "ulong \<Rightarrow> audit_call \<Rightarrow> message_audit \<Rightarrow> bool result \<times> message_audit" where
  "audit_step junk (IsDuplicate mid) a = isDuplicate junk mid a"
| "audit_step junk (IsDuplicateText t) a = isDuplicate_string junk t a"
| "audit_step junk (Rollback mid) a = apfst (map_sum (\<lambda>e. e) (\<lambda>_. False)) (rollback junk mid a)"
| "audit_step junk (RollbackText t) a = apfst (map_sum (\<lambda>e. e) (\<lambda>_. False)) (rollback_string junk t a)"

fun audit_run :: "ulong \<Rightarrow> audit_call list \<Rightarrow> message_audit \<Rightarrow> bool result list \<times> message_audit" where
  "audit_run junk [] a = ([], a)"
| "audit_run junk (c # cs) a =
     (let (r, a') = audit_step junk c a; (rs, a'') = audit_run junk cs a' in (r # rs, a''))"

fun call_key :: "audit_call \<Rightarrow> (string \<times> int result) option" where
  "call_key (IsDuplicate mid) = key_of_id mid"
| "call_key (IsDuplicateText t) = key_of_string t"
| "call_key (Rollback mid) = key_of_id mid"
| "call_key (RollbackText t) = key_of_string t"

fun is_rollback :: "audit_call \<Rightarrow> bool" where
  "is_rollback (Rollback _) = True" | "is_rollback (RollbackText _) = True" | "is_rollback _ = False"

definition spec_step :: "audit_call \<Rightarrow> (string \<Rightarrow> nat set option) \<Rightarrow> bool result \<times> (string \<Rightarrow> nat set option)" where
  "spec_step c T =
     (case call_key c of
        None \<Rightarrow> (Ok False, T)
      | Some (s, i) \<Rightarrow>
          (if is_rollback c then apfst (map_sum (\<lambda>e. e) (\<lambda>_. False)) (spec_rollback s i T)
           else spec_duplicate s i T))"

fun spec_run :: "audit_call list \<Rightarrow> (string \<Rightarrow> nat set option) \<Rightarrow> bool result list \<times> (string \<Rightarrow> nat set option)" where
  "spec_run [] T = ([], T)"
| "spec_run (c # cs) T = (let (r, T') = spec_step c T; (rs, T'') = spec_run cs T' in (r # rs, T''))"

text \<open>The producers whose messages a list of calls asks about.\<close>

definition producers :: "audit_call list \<Rightarrow> string set" where
  "producers cs = {s. \<exists>c \<in> set cs. \<exists>i. call_key c = Some (s, i)}"

lemma producers_Cons: "producers (c # cs) = (case call_key c of None \<Rightarrow> {} | Some (s, i) \<Rightarrow> {s}) \<union> producers cs"
  by (auto simp: producers_def split: option.splits)

lemma finite_producers [simp]: "finite (producers cs)"
  by (induction cs) (auto simp: producers_Cons, simp add: producers_def, auto split: option.splits)

lemma card_room:
  assumes "finite P" "int (card (insert s P - D)) \<le> r"
  shows "s \<in> D \<or> 0 < r" "int (card (P - insert s D)) \<le> r - (if s \<in> D then 0 else 1)" "int (card (P - D)) \<le> r"
proof -
  have fin: "finite (insert s P - D)" using assms(1) by simp
  have "card (P - D) \<le> card (insert s P - D)" by (rule card_mono [OF fin]) blast
  then show "int (card (P - D)) \<le> r" using assms(2) by linarith
  have c: "card (insert s P - D) = (if s \<in> D then card (P - insert s D) else Suc (card (P - insert s D)))"
  proof (cases "s \<in> D")
    case True
    have "insert s P - D = P - insert s D" using True by blast
    then show ?thesis using True by (simp only: if_True)
  next
    case False
    have "insert s P - D = insert s (P - insert s D)" using False by blast
    moreover have "card (insert s (P - insert s D)) = Suc (card (P - insert s D))"
      by (rule card_insert_disjoint) (use assms(1) in blast)+
    ultimately show ?thesis using False by (simp only: if_False)
  qed
  show "int (card (P - insert s D)) \<le> r - (if s \<in> D then 0 else 1)" "s \<in> D \<or> 0 < r"
    using c assms(2) by (cases "s \<in> D"; simp only: if_True if_False; linarith)+
qed

lemma dom_spec_duplicate: "dom (snd (spec_duplicate s i T)) = insert s (dom T)"
  by (auto simp: spec_duplicate_def split: sum.splits)

lemma dom_spec_rollback: "dom (snd (spec_rollback s i T)) = dom T"
  by (auto simp: spec_rollback_def split: sum.splits option.splits)

lemma audit_step_refines:
  assumes "audit_inv a" "finite P" "int (card (producers [c] \<union> P - dom (tracked a))) \<le> audit_room a"
  obtains a' where "audit_step junk c a = (fst (spec_step c (tracked a)), a')" "audit_inv a'"
    "tracked a' = snd (spec_step c (tracked a))" "int (card (P - dom (tracked a'))) \<le> audit_room a'"
proof (cases "call_key c")
  case None
  then have "audit_step junk c a = (Ok False, a)" by (cases c) (simp_all add: overloads)
  then show thesis using that [of a] None assms by (simp add: spec_step_def producers_def)
next
  case (Some si)
  obtain s i where si: "si = (s, i)" by (cases si)
  have P: "producers [c] = {s}" using Some si by (auto simp: producers_def)
  note r = card_room [OF assms(2), where s = s, OF assms(3) [unfolded P, simplified]]
  show thesis
  proof (cases "is_rollback c")
    case True
    obtain a' where a': "audit_rollback junk s i a = (fst (spec_rollback s i (tracked a)), a')" "audit_inv a'"
      "tracked a' = snd (spec_rollback s i (tracked a))" "audit_room a' = audit_room a"
      by (rule audit_rollback_refines [OF assms(1)])
    have "audit_step junk c a = apfst (map_sum (\<lambda>e. e) (\<lambda>_. False)) (audit_rollback junk s i a)"
      using True Some si by (cases c) (simp_all add: overloads)
    then show thesis
      using that [of a'] a' r(3) True Some si by (simp add: spec_step_def dom_spec_rollback)
  next
    case False
    have "tracked a s \<noteq> None \<or> 0 < audit_room a" using r(1) by auto
    then obtain a' where a': "audit_duplicate junk s i a = (fst (spec_duplicate s i (tracked a)), a')" "audit_inv a'"
      "tracked a' = snd (spec_duplicate s i (tracked a))"
      "audit_room a' = audit_room a - (if tracked a s = None then 1 else 0)"
      by (rule audit_duplicate_refines [OF assms(1)])
    have "audit_step junk c a = audit_duplicate junk s i a"
      using False Some si by (cases c) (simp_all add: overloads)
    moreover have "(if tracked a s = None then 1 else 0 :: int) = (if s \<in> dom (tracked a) then 0 else 1)" by auto
    ultimately show thesis
      using that [of a'] a' r(2) False Some si by (simp add: spec_step_def dom_spec_duplicate)
  qed
qed

lemma producers_append: "producers (c # cs) = producers [c] \<union> producers cs"
  by (auto simp: producers_def)

lemma audit_run_simulates:
  assumes "audit_inv a" "int (card (producers cs - dom (tracked a))) \<le> audit_room a"
  shows "\<exists>a'. audit_run junk cs a = (fst (spec_run cs (tracked a)), a') \<and> audit_inv a' \<and>
    tracked a' = snd (spec_run cs (tracked a))"
  using assms
proof (induction cs arbitrary: a)
  case (Cons c cs)
  obtain a1 where a1: "audit_step junk c a = (fst (spec_step c (tracked a)), a1)" "audit_inv a1"
    "tracked a1 = snd (spec_step c (tracked a))" "int (card (producers cs - dom (tracked a1))) \<le> audit_room a1"
    using audit_step_refines [OF Cons.prems(1) finite_producers Cons.prems(2) [unfolded producers_append [of c cs]]]
    by blast
  from Cons.IH [OF a1(2,4)] a1(1,3) show ?case
    by (auto simp: case_prod_unfold Let_def)
qed simp

lemma audit_new:
  assumes "0 \<le> depth"
  shows "audit_inv (ActiveMQMessageAudit_new depth n)" "tracked (ActiveMQMessageAudit_new depth n) = Map.empty"
    "audit_room (ActiveMQMessageAudit_new depth n) = 10000"
  using assms
  by (simp_all add: audit_inv_def ActiveMQMessageAudit_new_def LRUCache_default_def lru_ok_def lru_lookup_def
      tracked_def audit_room_def lru_room_def fun_eq_iff)


lemma card_producers: "card (producers cs) \<le> length cs"
proof (induction cs)
  case (Cons c cs)
  have "card (producers [c]) \<le> 1" by (cases "call_key c") (auto simp: producers_def)
  with Cons card_Un_le [of "producers [c]" "producers cs"] show ?case by (simp add: producers_append [of c cs])
qed (simp add: producers_def)


text \<open>
  \<^bold>\<open>C39.\<close> Sequence numbers above \<open>INT_MAX\<close> are folded into the range below it: the message numbered
  \<open>q + INT_MAX\<close> of a producer is reported as a duplicate of its message \<open>q\<close> although it was never seen.
\<close>

theorem audit_folds_sequence_numbers:
  assumes "0 \<le> depth" "producerId mid = Some p" "0 < producerSequenceId mid" "producerSequenceId mid < INT_MAX"
  shows "fst (audit_run junk
      [IsDuplicate (Some mid), IsDuplicate (Some (mid\<lparr>producerSequenceId := producerSequenceId mid + INT_MAX\<rparr>))]
      (ActiveMQMessageAudit_new depth n)) = [Ok False, Ok True]"
proof -
  let ?cs = "[IsDuplicate (Some mid), IsDuplicate (Some (mid\<lparr>producerSequenceId := producerSequenceId mid + INT_MAX\<rparr>))]"
  have "card (producers ?cs) \<le> 10000" using card_producers [of ?cs] by simp
  from audit_run_simulates [OF audit_new(1) [OF assms(1)], of ?cs n junk] this
  have "fst (audit_run junk ?cs (ActiveMQMessageAudit_new depth n)) = fst (spec_run ?cs Map.empty)"
    by (auto simp: audit_new [OF assms(1)])
  moreover have "scaledIndex (producerSequenceId mid + INT_MAX) = producerSequenceId mid"
    "scaledIndex (producerSequenceId mid) = producerSequenceId mid"
    using assms(3,4) by (simp_all add: scaledIndex_def)
  ultimately show ?thesis
    using assms by (simp add: spec_step_def key_of_id_def spec_duplicate_def seen_def INT_MAX_def)
qed

theorem audit_folds_sequence_numbers_witness:
  "fst (audit_run 0
      [IsDuplicate (Some (MessageId_new\<lparr>producerId := Some \<lparr>connectionId = ''c'', pid_value = 1, sessionId = 1\<rparr>, producerSequenceId := 7\<rparr>)),
       IsDuplicate (Some (MessageId_new\<lparr>producerId := Some \<lparr>connectionId = ''c'', pid_value = 1, sessionId = 1\<rparr>, producerSequenceId := 2147483654\<rparr>))]
      ActiveMQMessageAudit_default) = [Ok False, Ok True]"
  using audit_folds_sequence_numbers [of 2048
      "MessageId_new\<lparr>producerId := Some \<lparr>connectionId = ''c'', pid_value = 1, sessionId = 1\<rparr>, producerSequenceId := 7\<rparr>"
      "\<lparr>connectionId = ''c'', pid_value = 1, sessionId = 1\<rparr>" 0 64]
  by (simp add: INT_MAX_def MessageId_new_def ActiveMQMessageAudit_default_def)

section \<open>The number of producers\<close>

lemma putAll_empty:
  assumes "distinct (chain_keys (es' @ es))"
  shows "foldl (\<lambda>es (k, v). LinkedHashMap_putImpl True k v es) es' es = es' @ es"
  using assms
proof (induction es arbitrary: es')
  case (Cons e es)
  obtain k v where e: "e = (k, v)" by (cases e)
  have "map_of es' k = None" using Cons.prems by (simp add: e map_of_None_keys)
  then have "LinkedHashMap_putImpl True k v es' = es' @ [(k, v)]" by (simp add: putImpl_True)
  then show ?case using Cons.IH [of "es' @ [(k, v)]"] Cons.prems by (simp add: e)
qed simp

lemma adjust_entries:
  assumes "lru_ok (audit_map a)" "0 < val"
  shows "adjustMaxProducersToTrack val a =
    (Ok (), a\<lparr>audit_map := (audit_map a)\<lparr>maxCacheSize := val\<rparr>, maximumNumberOfProducersToTrack := val\<rparr>)"
  using putAll_empty [of "[]" "lru_entries (audit_map a)"] assms
  by (simp add: adjustMaxProducersToTrack_def LRUCache_new_def LRUCache_putAll_def LRUCache_clear_def
      LRUCache_setMaxCacheSize_def HashMap_putAll_def Let_def lru_ok_def)

definition producers_held :: "message_audit \<Rightarrow> nat" where
  "producers_held a = length (lru_entries (audit_map a))"

lemma held_store [simp]: "producers_held (store_bits k b a) = producers_held a"
  "lru_ok (audit_map (store_bits k b a)) = lru_ok (audit_map a)"
  by (simp_all add: producers_held_def store_bits_def lru_ok_def chain_keys_def case_prod_unfold comp_def)

lemma put_grows:
  assumes "lru_ok m" "lru_lookup m k = None" "LRUCache_put k v m = Ok m'"
  shows "length (lru_entries m) \<le> length (lru_entries m')" "lru_ok m'"
proof -
  let ?ks = "filter (\<lambda>x. x \<noteq> k) (chain_keys (lru_entries m)) @ [k]"
  obtain m1 where m1: "LRUCache_put k v m = Ok m1" "lru_ok m1"
    "chain_keys (lru_entries m1) = (if int (length ?ks) > maxCacheSize m then tl ?ks else ?ks)"
    by (rule put_keys [OF assms(1) refl])
  have "k \<notin> set (chain_keys (lru_entries m))" using assms(2) by (simp add: lru_lookup_def map_of_None_keys)
  then have "length ?ks = Suc (length (lru_entries m))" by (simp add: filter_neq_absent)
  then have "length (lru_entries m) \<le> length (chain_keys (lru_entries m1))" unfolding m1(3) by auto
  then show "length (lru_entries m) \<le> length (lru_entries m')" "lru_ok m'" using m1(1,2) assms(3) by simp_all
qed

lemma get_keeps:
  assumes "lru_ok m"
  shows "LRUCache_get k m = Ok (v, m') \<Longrightarrow> lru_ok m' \<and> length (lru_entries m') = length (lru_entries m)"
    "LRUCache_get k m = Throw e \<Longrightarrow> lru_lookup m k = None"
proof -
  assume g: "LRUCache_get k m = Ok (v, m')"
  then obtain w where w: "lru_lookup m k = Some w"
    using lru.get_miss [of m k] by (cases "lru_lookup m k") auto
  from lru_get_hit [OF assms w] obtain m1 where
    "LRUCache_get k m = Ok (w, m1)" "lru_ok m1" "lru_room m1 = lru_room m" "maxCacheSize m1 = maxCacheSize m" by blast
  then show "lru_ok m' \<and> length (lru_entries m') = length (lru_entries m)" using g by (simp add: lru_room_def)
next
  assume g: "LRUCache_get k m = Throw e"
  show "lru_lookup m k = None"
  proof (rule ccontr)
    assume "lru_lookup m k \<noteq> None"
    then obtain w where "lru_lookup m k = Some w" by blast
    from lru_get_hit [OF assms this] g show False by auto
  qed
qed

lemma audit_bits_grows:
  assumes "lru_ok (audit_map a)" "audit_bits k a = Ok (b, a')"
  shows "lru_ok (audit_map a') \<and> producers_held a \<le> producers_held a'"
proof (cases "LRUCache_get k (audit_map a)")
  case (Inl e)
  then obtain m where "LRUCache_put k b (audit_map a) = Ok m" "a' = a\<lparr>audit_map := m\<rparr>"
    using assms(2) by (auto simp: audit_bits_def rbind_Ok_iff split: if_splits)
  then show ?thesis using put_grows [OF assms(1) get_keeps(2) [OF assms(1) Inl]] by (auto simp: producers_held_def)
next
  case (Inr r)
  then obtain m where "LRUCache_get k (audit_map a) = Ok (b, m)" "a' = a\<lparr>audit_map := m\<rparr>"
    using assms(2) by (cases r) (auto simp: audit_bits_def)
  then show ?thesis using get_keeps(1) [OF assms(1)] by (auto simp: producers_held_def)
qed

definition holds_at_least :: "nat \<Rightarrow> message_audit \<Rightarrow> bool" where
  "holds_at_least n a \<longleftrightarrow> lru_ok (audit_map a) \<and> n \<le> producers_held a"

lemma holds_store [simp]: "holds_at_least n (store_bits k b a) = holds_at_least n a"
  by (simp add: holds_at_least_def)

lemma duplicate_holds: "holds_at_least n a \<Longrightarrow> holds_at_least n (snd (audit_duplicate junk k index a))"
  using audit_bits_grows [of a k] unfolding audit_duplicate_def
  by (auto simp: holds_at_least_def split: sum.splits if_splits prod.splits)

lemma rollback_holds: "holds_at_least n a \<Longrightarrow> holds_at_least n (snd (audit_rollback junk k index a))"
  using get_keeps(1) [of "audit_map a" k] unfolding audit_rollback_def
  by (auto simp: holds_at_least_def producers_held_def Let_def store_bits_def lru_ok_def chain_keys_def
      case_prod_unfold comp_def split: sum.splits if_splits)

lemma audit_step_holds: "holds_at_least n a \<Longrightarrow> holds_at_least n (snd (audit_step junk c a))"
  by (cases c) (auto simp: overloads duplicate_holds rollback_holds split: option.splits)

lemma audit_run_holds: "holds_at_least n a \<Longrightarrow> holds_at_least n (snd (audit_run junk cs a))"
proof (induction cs arbitrary: a)
  case (Cons c cs)
  from Cons.IH [OF audit_step_holds [OF Cons.prems, of junk c]] show ?case
    by (simp add: case_prod_unfold Let_def)
qed simp

text \<open>
  Lowering the number of producers to track forgets none of them: the copy through a smaller
  cache evicts nothing, and no later call brings the number of producers held down to the new limit.
\<close>

lemma adjust_never_prunes:
  assumes "audit_inv a" "0 < val"
  shows "tracked (snd (adjustMaxProducersToTrack val a)) = tracked a \<and>
    producers_held a \<le> producers_held (snd (audit_run junk cs (snd (adjustMaxProducersToTrack val a))))"
proof -
  note adj = adjust_entries [OF audit_invD(1) [OF assms(1)] assms(2)]
  have "holds_at_least (producers_held a) (snd (adjustMaxProducersToTrack val a))"
    using audit_invD(1) [OF assms(1)] assms(2) by (simp add: adj holds_at_least_def producers_held_def lru_ok_def)
  from audit_run_holds [OF this]
  have "producers_held a \<le> producers_held (snd (audit_run junk cs (snd (adjustMaxProducersToTrack val a))))"
    by (simp add: holds_at_least_def)
  moreover have "tracked (snd (adjustMaxProducersToTrack val a)) = tracked a"
    by (simp add: adj tracked_def lru_lookup_def fun_eq_iff)
  ultimately show ?thesis by blast
qed

definition audit_of_three :: message_audit where
  "audit_of_three = ActiveMQMessageAudit_default\<lparr>audit_map := \<lparr>lru_entries =
     [(''a'', BitSet_default), (''b'', BitSet_default), (''c'', BitSet_default)], maxCacheSize = 10000\<rparr>\<rparr>"

lemma audit_of_three_inv: "audit_inv audit_of_three"
proof -
  have "bs_inv BitSet_default" by (simp add: bs_inv_def BitSet_default_def zero_from_def)
  then show ?thesis
    by (auto simp: audit_inv_def audit_of_three_def lru_ok_def lru_lookup_def chain_keys_def
        ActiveMQMessageAudit_default_def ActiveMQMessageAudit_new_def split: if_splits)
qed

lemma adjust_never_prunes_witness:
  "3 \<le> producers_held (snd (audit_run 0 [IsDuplicateText ''d:1'', IsDuplicateText ''e:1'']
     (snd (adjustMaxProducersToTrack 1 audit_of_three))))"
proof -
  have "producers_held audit_of_three = 3" by (simp add: producers_held_def audit_of_three_def)
  with adjust_never_prunes [OF audit_of_three_inv, of 1 0 "[IsDuplicateText ''d:1'', IsDuplicateText ''e:1'']"]
  show ?thesis by (simp only: zero_less_one)
qed

section \<open>Order\<close>

lemma audit_bits_hit:
  assumes "audit_inv a" "lru_lookup (audit_map a) s = Some b"
  obtains m where "audit_bits s a = Ok (b, a\<lparr>audit_map := m\<rparr>)" "LRUCache_get s (audit_map a) = Ok (b, m)"
    "audit_inv (a\<lparr>audit_map := m\<rparr>)" "tracked (a\<lparr>audit_map := m\<rparr>) = tracked a" "lru_lookup m s = Some b"
proof -
  obtain m where m: "LRUCache_get s (audit_map a) = Ok (b, m)" "lru_ok m"
    "lru_lookup m = lru_lookup (audit_map a)"
    using lru.get_hit [OF audit_invD(1) [OF assms(1)] assms(2)] by blast
  show thesis
    by (rule that [of m]) (use assms m in \<open>simp_all add: audit_bits_def audit_inv_def tracked_def fun_eq_iff\<close>)
qed

text \<open>
  For a tracked producer, \<open>getLastSeqId\<close> is the highest number recorded (\<open>-1\<close> for none), and
  \<open>isInOrder\<close> answers whether the message carries exactly that number; neither changes what is
  recorded. So the successor of the last message, asked about before it is recorded, is not in order.
\<close>

lemma in_order_is_latest:
  assumes "audit_inv a" "lru_lookup (audit_map a) (ProducerId_toString p) = Some b" "bs_small b"
    "producerId mid = Some p" "0 \<le> producerSequenceId mid" "producerSequenceId mid \<le> INT_MAX"
  shows "fst (isInOrder (Some mid) a) = Ok (bs_set b \<noteq> {} \<and> nat (producerSequenceId mid) = Max (bs_set b)) \<and>
    fst (getLastSeqId (Some p) a) = Ok (if bs_set b = {} then - 1 else int (Max (bs_set b))) \<and>
    tracked (snd (isInOrder (Some mid) a)) = tracked a \<and> tracked (snd (getLastSeqId (Some p) a)) = tracked a"
proof -
  let ?s = "ProducerId_toString p"
  obtain m where m: "audit_bits ?s a = Ok (b, a\<lparr>audit_map := m\<rparr>)" "LRUCache_get ?s (audit_map a) = Ok (b, m)"
    "audit_inv (a\<lparr>audit_map := m\<rparr>)" "tracked (a\<lparr>audit_map := m\<rparr>) = tracked a" "lru_lookup m ?s = Some b"
    by (rule audit_bits_hit [OF assms(1,2)])
  obtain b' where b': "BitSet_length b = Ok (if bs_set b = {} then 0 else int (Max (bs_set b)) + 1, b')"
    "bs_inv b'" "bs_set b' = bs_set b"
    by (rule length_refines [OF audit_invD(3) [OF assms(1,2)] assms(3)])
  have t: "tracked (store_bits ?s b' (a\<lparr>audit_map := m\<rparr>)) = tracked a"
    using store_bits_props(2) [OF m(3) _ b'(2), of ?s b] m(4,5) b'(3) assms(2)
    by (simp add: tracked_def fun_upd_idem)
  have i: "scaledIndex (producerSequenceId mid) = producerSequenceId mid"
    using assms(6) by (simp add: scaledIndex_def)
  have "fst (isInOrder (Some mid) a) = Ok (bs_set b \<noteq> {} \<and> nat (producerSequenceId mid) = Max (bs_set b))"
    "tracked (snd (isInOrder (Some mid) a)) = tracked a"
    using assms(4,5) m b'(1) i t by (auto simp: isInOrder_def audit_in_order_def Let_def)
  moreover have "fst (getLastSeqId (Some p) a) = Ok (if bs_set b = {} then - 1 else int (Max (bs_set b)))"
    "tracked (snd (getLastSeqId (Some p) a)) = tracked a"
    using m b'(1) t by (auto simp: getLastSeqId_def Let_def)
  ultimately show ?thesis by blast
qed

definition one_producer :: message_audit where
  "one_producer = ActiveMQMessageAudit_default\<lparr>audit_map := \<lparr>lru_entries =
     [(''c:1:1'', \<lparr>bits = [6], bitsSize = 1, needClear = True, actualArrayLength = 1, isLengthActual = True\<rparr>)],
      maxCacheSize = 10000\<rparr>\<rparr>"

lemma in_order_is_latest_witness:
  "fst (isInOrder (Some (MessageId_new\<lparr>producerId := Some \<lparr>connectionId = ''c'', pid_value = 1, sessionId = 1\<rparr>,
      producerSequenceId := 3\<rparr>)) one_producer) = Ok False"
proof -
  let ?b = "\<lparr>bits = [6], bitsSize = 1, needClear = True, actualArrayLength = 1, isLengthActual = True\<rparr> :: bitset"
  let ?p = "\<lparr>connectionId = ''c'', pid_value = 1, sessionId = 1\<rparr> :: producer_id"
  have k: "ProducerId_toString ?p = ''c:1:1''"
    by (simp add: ProducerId_toString_def to_string_def nat_string.simps digit_char_def char_of_eq_iff)
  have l: "lru_lookup (audit_map one_producer) (ProducerId_toString ?p) = Some ?b"
    by (simp add: k one_producer_def lru_lookup_def)
  have inv: "bs_inv ?b" by (simp add: bs_inv_def zero_from_def)
  have "audit_inv one_producer"
    using inv by (auto simp: audit_inv_def one_producer_def lru_ok_def lru_lookup_def chain_keys_def
        ActiveMQMessageAudit_default_def ActiveMQMessageAudit_new_def split: if_splits)
  from in_order_is_latest [OF this l, of "MessageId_new\<lparr>producerId := Some ?p, producerSequenceId := 3\<rparr>"]
  have "fst (isInOrder (Some (MessageId_new\<lparr>producerId := Some ?p, producerSequenceId := 3\<rparr>)) one_producer) =
      Ok (bs_set ?b \<noteq> {} \<and> nat 3 = Max (bs_set ?b))"
    by (simp add: bs_small_def INT_MAX_def)
  moreover have "3 \<notin> bs_set ?b" by (simp add: bs_set_def wbits_def bit_simps)
  then have "\<not> (bs_set ?b \<noteq> {} \<and> nat 3 = Max (bs_set ?b))"
    using Max_in [OF bs_set_finite [OF inv]] by (metis nat_numeral)
  ultimately show ?thesis by (simp only: simp_thms)
qed

end
