(* ===== verification/Connection_Audit.thy ===== *)
theory Connection_Audit
  imports Dispatch_Channel String_Utils Message_Audit
begin

text \<open>
  \<open>activemq/core/ConnectionAudit.cpp\<close>: one message audit per queue, and one per dispatcher for topics.
  The \<open>StlMap\<close> of destinations is the ordered list of its entries, searched and extended with the
  comparison \<open>ActiveMQDestination::compareTo\<close> as \<open>std::map\<close> does (two different objects: the identity
  shortcut of \<open>compareTo\<close> does not apply). A dispatcher is the number that stands for its address.
\<close>

section \<open>The program\<close>

definition compareTo :: "destination \<Rightarrow> destination \<Rightarrow> int result" where
  "compareTo this val =
     rbind (StringUtils_compare (physicalName this) (physicalName val)) (\<lambda>valueComp.
     if valueComp \<noteq> 0 then Ok valueComp else Ok 0)"

definition dest_less :: "destination \<Rightarrow> destination \<Rightarrow> bool result" where
  "dest_less this val = rbind (compareTo this val) (\<lambda>c. Ok (c < 0))"

text \<open>\<open>valueMap.find(key)\<close>: the first entry not less than the key, if the key is not less than it.\<close>

fun StlMap_find :: "destination \<Rightarrow> (destination \<times> 'v) list \<Rightarrow> 'v option result" where
  "StlMap_find key [] = Ok None"
| "StlMap_find key ((d, v) # es) =
     rbind (dest_less d key) (\<lambda>lt.
     if lt then StlMap_find key es
     else rbind (dest_less key d) (\<lambda>gt. Ok (if gt then None else Some v)))"

definition StlMap_get :: "destination \<Rightarrow> (destination \<times> 'v) list \<Rightarrow> 'v result" where
  "StlMap_get key es =
     rbind (StlMap_find key es) (\<lambda>r. case r of None \<Rightarrow> Throw NoSuchElementException | Some v \<Rightarrow> Ok v)"

text \<open>\<open>valueMap[key] = value\<close>\<close>

fun StlMap_put :: "destination \<Rightarrow> 'v \<Rightarrow> (destination \<times> 'v) list \<Rightarrow> (destination \<times> 'v) list result" where
  "StlMap_put key val [] = Ok [(key, val)]"
| "StlMap_put key val ((d, v) # es) =
     rbind (dest_less d key) (\<lambda>lt.
     if lt then rbind (StlMap_put key val es) (\<lambda>es'. Ok ((d, v) # es'))
     else rbind (dest_less key d) (\<lambda>gt. Ok (if gt then (key, val) # (d, v) # es else (d, val) # es)))"

record connection_audit =
  checkForDuplicates :: bool
  ca_auditDepth :: int
  auditMaximumProducerNumber :: int
  destinations :: "(destination \<times> message_audit) list"
  dispatchers :: "(nat \<times> message_audit) list"

definition ConnectionAudit_new :: "int \<Rightarrow> int \<Rightarrow> connection_audit" where
  "ConnectionAudit_new depth maxProducers =
     \<lparr>checkForDuplicates = True, ca_auditDepth = depth, auditMaximumProducerNumber = maxProducers,
      destinations = [], dispatchers = []\<rparr>"

definition ConnectionAudit_default :: connection_audit where
  "ConnectionAudit_default = ConnectionAudit_new DEFAULT_WINDOW_SIZE MAXIMUM_PRODUCER_COUNT"

definition removeDispatcher :: "nat \<Rightarrow> connection_audit \<Rightarrow> unit result \<times> connection_audit" where
  "removeDispatcher dispatcher c =
     (case LinkedHashMap_remove dispatcher (dispatchers c) of
        Inr (_, es) \<Rightarrow> (Ok (), c\<lparr>dispatchers := es\<rparr>)
      | Inl e \<Rightarrow> (if e = NoSuchElementException then Ok () else Throw e, c))"

text \<open>
  \<open>try { audit = map.get(key); } catch (NoSuchElementException&) { audit.reset(new ...); map.put(key,
  audit); } return audit->isDuplicate(...);\<close> the audit's new state is written back under its key.
\<close>

definition table_call ::
    "('k \<Rightarrow> 'm \<Rightarrow> 'v result) \<Rightarrow> ('k \<Rightarrow> 'v \<Rightarrow> 'm \<Rightarrow> 'm result) \<Rightarrow> 'v \<Rightarrow> ('v \<Rightarrow> 'r result \<times> 'v) \<Rightarrow> 'k \<Rightarrow> 'm \<Rightarrow> 'r result \<times> 'm" where
  "table_call get put fresh call key es =
     (case (case get key es of
              Inr audit \<Rightarrow> Ok (audit, es)
            | Inl e \<Rightarrow> (if e = NoSuchElementException then rbind (put key fresh es) (\<lambda>es'. Ok (fresh, es'))
                        else Throw e)) of
        Inl e \<Rightarrow> (Throw e, es)
      | Inr (audit, es') \<Rightarrow>
          (case call audit of
             (r, audit') \<Rightarrow> (r, case put key audit' es' of Inr es'' \<Rightarrow> es'' | Inl _ \<Rightarrow> es')))"

text \<open>\<open>try { audit = map.get(key); audit->rollback(...); } catch (NoSuchElementException&) { }\<close>\<close>

definition table_update ::
    "('k \<Rightarrow> 'm \<Rightarrow> 'v result) \<Rightarrow> ('k \<Rightarrow> 'v \<Rightarrow> 'm \<Rightarrow> 'm result) \<Rightarrow> ('v \<Rightarrow> unit result \<times> 'v) \<Rightarrow> 'k \<Rightarrow> 'm \<Rightarrow> unit result \<times> 'm" where
  "table_update get put call key es =
     (case get key es of
        Inl e \<Rightarrow> (if e = NoSuchElementException then Ok () else Throw e, es)
      | Inr audit \<Rightarrow>
          (case call audit of
             (r, audit') \<Rightarrow>
               (if r = Throw NoSuchElementException then Ok () else r,
                case put key audit' es of Inr es' \<Rightarrow> es' | Inl _ \<Rightarrow> es)))"

text \<open>The \<open>LinkedHashMap\<close> of dispatchers is in insertion order.\<close>

definition Dispatchers_get :: "nat \<Rightarrow> (nat \<times> 'v) list \<Rightarrow> 'v result" where
  "Dispatchers_get dispatcher es = rbind (LinkedHashMap_get False dispatcher es) (\<lambda>(v, _). Ok v)"

definition Dispatchers_put :: "nat \<Rightarrow> 'v \<Rightarrow> (nat \<times> 'v) list \<Rightarrow> (nat \<times> 'v) list result" where
  "Dispatchers_put dispatcher v es = Ok (LinkedHashMap_putImpl False dispatcher v es)"

definition ConnectionAudit_isDuplicate :: "ulong \<Rightarrow> nat \<Rightarrow> message option \<Rightarrow> connection_audit \<Rightarrow> bool result \<times> connection_audit" where
  "ConnectionAudit_isDuplicate junk dispatcher msg c =
     (let fresh = ActiveMQMessageAudit_new (ca_auditDepth c) (auditMaximumProducerNumber c)
      in case (if checkForDuplicates c then msg else None) of
           None \<Rightarrow> (Ok False, c)
         | Some message \<Rightarrow>
             (case msg_destination message of
                None \<Rightarrow> (Ok False, c)
              | Some destination \<Rightarrow>
                  (if isQueue destination then
                     apsnd (\<lambda>es. c\<lparr>destinations := es\<rparr>)
                       (table_call StlMap_get StlMap_put fresh (isDuplicate junk (messageId message))
                         destination (destinations c))
                   else
                     apsnd (\<lambda>es. c\<lparr>dispatchers := es\<rparr>)
                       (table_call Dispatchers_get Dispatchers_put fresh (isDuplicate junk (messageId message))
                         dispatcher (dispatchers c)))))"

definition rollbackDuplicate :: "ulong \<Rightarrow> nat \<Rightarrow> message option \<Rightarrow> connection_audit \<Rightarrow> unit result \<times> connection_audit" where
  "rollbackDuplicate junk dispatcher msg c =
     (case (if checkForDuplicates c then msg else None) of
        None \<Rightarrow> (Ok (), c)
      | Some message \<Rightarrow>
          (case msg_destination message of
             None \<Rightarrow> (Ok (), c)
           | Some destination \<Rightarrow>
               (if isQueue destination then
                  apsnd (\<lambda>es. c\<lparr>destinations := es\<rparr>)
                    (table_update StlMap_get StlMap_put (rollback junk (messageId message)) destination (destinations c))
                else
                  apsnd (\<lambda>es. c\<lparr>dispatchers := es\<rparr>)
                    (table_update Dispatchers_get Dispatchers_put (rollback junk (messageId message))
                      dispatcher (dispatchers c)))))"

section \<open>The two maps as one interface\<close>

locale keyed_table =
  fixes good :: "'k \<Rightarrow> bool" and inv :: "'m \<Rightarrow> bool" and name :: "'k \<Rightarrow> 'n"
    and look :: "'m \<Rightarrow> 'n \<Rightarrow> 'v option"
    and get :: "'k \<Rightarrow> 'm \<Rightarrow> 'v result" and put :: "'k \<Rightarrow> 'v \<Rightarrow> 'm \<Rightarrow> 'm result"
  assumes get_law: "inv m \<Longrightarrow> good k \<Longrightarrow>
      get k m = (case look m (name k) of None \<Rightarrow> Throw NoSuchElementException | Some v \<Rightarrow> Ok v)"
    and put_law: "inv m \<Longrightarrow> good k \<Longrightarrow> \<exists>m'. put k v m = Ok m' \<and> inv m' \<and> look m' = (look m)(name k \<mapsto> v)"
begin

lemma call_law:
  assumes "inv m" "good k" and v0: "v0 = (case look m (name k) of Some v \<Rightarrow> v | None \<Rightarrow> fresh)"
  obtains m' where "table_call get put fresh f k m = (fst (f v0), m')" "inv m'"
    "look m' = (look m)(name k \<mapsto> snd (f v0))"
proof -
  obtain m1 where m1: "(case get k m of Inr audit \<Rightarrow> Ok (audit, m)
      | Inl e \<Rightarrow> (if e = NoSuchElementException then rbind (put k fresh m) (\<lambda>es'. Ok (fresh, es')) else Throw e)) =
      Ok (v0, m1)" "inv m1" "look m1 = (look m)(name k \<mapsto> v0)"
  proof (cases "look m (name k)")
    case None
    then show thesis using that get_law [OF assms(1,2)] put_law [OF assms(1,2), of fresh] v0 by auto
  next
    case (Some v)
    then show thesis using that [of m] get_law [OF assms(1,2)] v0 assms(1) by (simp add: fun_upd_idem)
  qed
  obtain m2 where m2: "put k (snd (f v0)) m1 = Ok m2" "inv m2" "look m2 = (look m1)(name k \<mapsto> snd (f v0))"
    using put_law [OF m1(2) assms(2)] by blast
  show thesis
    using that [of m2] m1 m2 by (simp add: table_call_def case_prod_unfold)
qed

lemma update_law:
  assumes "inv m" "good k" "\<And>v. look m (name k) = Some v \<Longrightarrow> fst (f v) \<noteq> Throw NoSuchElementException"
  obtains m' where "table_update get put f k m = (case look m (name k) of None \<Rightarrow> Ok () | Some v \<Rightarrow> fst (f v), m')"
    "inv m'" "look m' = (case look m (name k) of None \<Rightarrow> look m | Some v \<Rightarrow> (look m)(name k \<mapsto> snd (f v)))"
proof (cases "look m (name k)")
  case None
  then show thesis using that [of m] get_law [OF assms(1,2)] assms(1) by (simp add: table_update_def)
next
  case (Some v)
  obtain m2 where "put k (snd (f v)) m = Ok m2" "inv m2" "look m2 = (look m)(name k \<mapsto> snd (f v))"
    using put_law [OF assms(1,2)] by blast
  then show thesis
    using that [of m2] get_law [OF assms(1,2)] Some assms(3) [OF Some]
    by (simp add: table_update_def case_prod_unfold)
qed

end

text \<open>The ordered list of destinations, on plain names.\<close>

definition names :: "(destination \<times> 'v) list \<Rightarrow> (string \<times> 'v) list" where
  "names es = map (\<lambda>(d, v). (physicalName d, v)) es"

definition name_less :: "string \<Rightarrow> string \<Rightarrow> bool" where
  "name_less x y \<longleftrightarrow> natcmp False x y < 0"

definition dests_ok :: "(destination \<times> 'v) list \<Rightarrow> bool" where
  "dests_ok es \<longleftrightarrow> sorted_wrt name_less (map fst (names es)) \<and> (\<forall>x \<in> set (map fst (names es)). plain x)"

definition good_dest :: "destination \<Rightarrow> bool" where
  "good_dest d \<longleftrightarrow> plain (physicalName d)"

lemma names_simps [simp]: "names [] = []" "names ((d, v) # es) = (physicalName d, v) # names es"
  by (simp_all add: names_def)

lemma dest_less_plain:
  "good_dest d \<Longrightarrow> good_dest k \<Longrightarrow> dest_less d k = Ok (name_less (physicalName d) (physicalName k))"
  by (simp add: dest_less_def compareTo_def good_dest_def compare_natcmp name_less_def)

lemma name_less_linear:
  "plain x \<Longrightarrow> plain y \<Longrightarrow> \<not> name_less x y \<Longrightarrow> \<not> name_less y x \<Longrightarrow> x = y"
  "name_less x y \<Longrightarrow> x \<noteq> y"
  using natcmp_swap [of x y] natcmp_eq_0 [of x y] by (auto simp: name_less_def)

lemma name_less_trans: "plain x \<Longrightarrow> plain y \<Longrightarrow> plain z \<Longrightarrow> name_less x y \<Longrightarrow> name_less y z \<Longrightarrow> name_less x z"
  unfolding name_less_def by (rule natcmp_trans)

lemma dests_ok_Cons:
  "dests_ok ((d, v) # es) \<longleftrightarrow> good_dest d \<and> dests_ok es \<and> (\<forall>x \<in> set (map fst (names es)). name_less (physicalName d) x)"
  by (auto simp: dests_ok_def good_dest_def)

lemma find_names:
  assumes "dests_ok es" "good_dest k"
  shows "StlMap_find k es = Ok (map_of (names es) (physicalName k))"
  using assms
proof (induction es)
  case (Cons e es)
  obtain d v where e: "e = (d, v)" by (cases e)
  have g: "good_dest d" "dests_ok es" and lt: "\<And>x. x \<in> set (map fst (names es)) \<Longrightarrow> name_less (physicalName d) x"
    using Cons.prems(1) by (auto simp: e dests_ok_Cons)
  have p: "plain (physicalName d)" "plain (physicalName k)" using g(1) Cons.prems(2) by (simp_all add: good_dest_def)
  note less = dest_less_plain [OF g(1) Cons.prems(2)] dest_less_plain [OF Cons.prems(2) g(1)]
  show ?case
  proof (cases "name_less (physicalName d) (physicalName k)")
    case True
    then show ?thesis
      using Cons.IH [OF g(2) Cons.prems(2)] name_less_linear(2) [OF True] by (simp add: e less)
  next
    case ge: False
    show ?thesis
    proof (cases "name_less (physicalName k) (physicalName d)")
      case True
      have "physicalName k \<notin> set (map fst (names es))" using ge lt by blast
      then have "map_of (names es) (physicalName k) = None" by (simp add: map_of_eq_None_iff)
      then show ?thesis using ge True name_less_linear(2) [OF True] by (simp add: e less)
    next
      case False
      then have "physicalName d = physicalName k" using name_less_linear(1) [OF p ge] by blast
      then show ?thesis using ge False by (simp add: e less)
    qed
  qed
qed simp

lemma put_names:
  assumes "dests_ok es" "good_dest k"
  shows "\<exists>es'. StlMap_put k val es = Ok es' \<and> dests_ok es' \<and>
    map_of (names es') = (map_of (names es))(physicalName k \<mapsto> val) \<and>
    set (map fst (names es')) = insert (physicalName k) (set (map fst (names es)))"
  using assms
proof (induction es)
  case Nil
  then show ?case by (simp add: dests_ok_def good_dest_def fun_eq_iff)
next
  case (Cons e es)
  obtain d v where e: "e = (d, v)" by (cases e)
  have g: "good_dest d" "dests_ok es" and lt: "\<And>x. x \<in> set (map fst (names es)) \<Longrightarrow> name_less (physicalName d) x"
    using Cons.prems(1) by (auto simp: e dests_ok_Cons)
  have p: "plain (physicalName d)" "plain (physicalName k)" using g(1) Cons.prems(2) by (simp_all add: good_dest_def)
  have pes: "\<And>x. x \<in> set (map fst (names es)) \<Longrightarrow> plain x" using g(2) unfolding dests_ok_def by blast
  note less = dest_less_plain [OF g(1) Cons.prems(2)] dest_less_plain [OF Cons.prems(2) g(1)]
  show ?case
  proof (cases "name_less (physicalName d) (physicalName k)")
    case True
    obtain es' where es': "StlMap_put k val es = Ok es'" "dests_ok es'"
      "map_of (names es') = (map_of (names es))(physicalName k \<mapsto> val)"
      "set (map fst (names es')) = insert (physicalName k) (set (map fst (names es)))"
      using Cons.IH [OF g(2) Cons.prems(2)] by blast
    have "dests_ok ((d, v) # es')" unfolding dests_ok_Cons es'(4) using g(1) es'(2) True lt by blast
    then show ?thesis using es' True name_less_linear(2) [OF True]
      by (intro exI [of _ "(d, v) # es'"]) (simp add: e less fun_eq_iff insert_commute)
  next
    case ge: False
    show ?thesis
    proof (cases "name_less (physicalName k) (physicalName d)")
      case True
      have "dests_ok ((k, val) # (d, v) # es)"
        unfolding dests_ok_Cons [of k] using Cons.prems True lt pes p name_less_trans [OF p(2,1)]
        by (auto simp: e)
      then show ?thesis using ge True by (intro exI [of _ "(k, val) # (d, v) # es"]) (simp add: e less fun_eq_iff)
    next
      case False
      then have "physicalName d = physicalName k" using name_less_linear(1) [OF p ge] by blast
      moreover have "dests_ok ((d, val) # es)" using Cons.prems(1) by (simp add: e dests_ok_Cons)
      ultimately show ?thesis using ge False by (intro exI [of _ "(d, val) # es"]) (simp add: e less fun_eq_iff)
    qed
  qed
qed

interpretation dests: keyed_table good_dest dests_ok physicalName "\<lambda>es. map_of (names es)" StlMap_get StlMap_put
  by unfold_locales (use find_names put_names in \<open>fastforce simp: StlMap_get_def\<close>)+

definition disps_ok :: "(nat \<times> 'v) list \<Rightarrow> bool" where
  "disps_ok es \<longleftrightarrow> distinct (chain_keys es)"

lemma putImpl_False:
  shows "map_of (LinkedHashMap_putImpl False k v es) = (map_of es)(k \<mapsto> v)"
    "chain_keys (LinkedHashMap_putImpl False k v es) = chain_keys es @ (if k \<in> set (chain_keys es) then [] else [k])"
proof -
  have keys: "chain_keys (map (\<lambda>(x, v'). (x, if x = k then v else v')) es) = chain_keys es"
    by (simp add: chain_keys_def case_prod_unfold)
  show "map_of (LinkedHashMap_putImpl False k v es) = (map_of es)(k \<mapsto> v)"
    by (cases "map_of es k")
      (simp_all add: LinkedHashMap_putImpl_def LinkedHashMap_linkEntry_def map_of_setValue map_add_single)
  show "chain_keys (LinkedHashMap_putImpl False k v es) = chain_keys es @ (if k \<in> set (chain_keys es) then [] else [k])"
    using map_of_None_keys [of es k] keys
    by (cases "map_of es k") (simp_all add: LinkedHashMap_putImpl_def LinkedHashMap_linkEntry_def)
qed

interpretation disps: keyed_table "\<lambda>_. True" disps_ok "\<lambda>d. d" map_of Dispatchers_get Dispatchers_put
proof
  fix es :: "(nat \<times> 'v) list" and k v
  assume es: "disps_ok es"
  show "Dispatchers_get k es = (case map_of es k of None \<Rightarrow> Throw NoSuchElementException | Some v \<Rightarrow> Ok v)"
    by (simp add: Dispatchers_get_def LinkedHashMap_get_def LinkedHashMap_getEntry_def split: option.splits)
  show "\<exists>es'. Dispatchers_put k v es = Ok es' \<and> disps_ok es' \<and> map_of es' = (map_of es)(k \<mapsto> v)"
    using es by (simp add: Dispatchers_put_def putImpl_False disps_ok_def)
qed

section \<open>Refinement\<close>

text \<open>Who a message is counted for: its queue, or the dispatcher it is for.\<close>

datatype owner = Queue string | Subscriber nat

definition owner_of :: "nat \<Rightarrow> message option \<Rightarrow> (owner \<times> message) option" where
  "owner_of dispatcher msg =
     Option.bind msg (\<lambda>m. map_option (\<lambda>d. (if isQueue d then Queue (physicalName d) else Subscriber dispatcher, m)) (msg_destination m))"

type_synonym seen_table = "owner \<Rightarrow> (string \<Rightarrow> nat set option) option"

datatype ca_call = CheckDuplicate nat "message option" | RollbackDuplicate nat "message option" | RemoveDispatcher nat

fun ca_step :: "ulong \<Rightarrow> ca_call \<Rightarrow> connection_audit \<Rightarrow> bool result \<times> connection_audit" where
  "ca_step junk (CheckDuplicate d m) c = ConnectionAudit_isDuplicate junk d m c"
| "ca_step junk (RollbackDuplicate d m) c = apfst (map_sum (\<lambda>e. e) (\<lambda>_. False)) (rollbackDuplicate junk d m c)"
| "ca_step junk (RemoveDispatcher d) c = apfst (map_sum (\<lambda>e. e) (\<lambda>_. False)) (removeDispatcher d c)"

fun ca_run :: "ulong \<Rightarrow> ca_call list \<Rightarrow> connection_audit \<Rightarrow> bool result list \<times> connection_audit" where
  "ca_run junk [] c = ([], c)"
| "ca_run junk (k # ks) c = (let (r, c') = ca_step junk k c; (rs, c'') = ca_run junk ks c' in (r # rs, c''))"

text \<open>The specification: a table of seen numbers per queue and per subscriber.\<close>

fun ca_spec_step :: "ca_call \<Rightarrow> seen_table \<Rightarrow> bool result \<times> seen_table" where
  "ca_spec_step (CheckDuplicate d m) S =
     (case owner_of d m of
        None \<Rightarrow> (Ok False, S)
      | Some (w, msg) \<Rightarrow>
          apsnd (\<lambda>T. S(w \<mapsto> T)) (spec_step (IsDuplicate (messageId msg)) (case S w of Some T \<Rightarrow> T | None \<Rightarrow> Map.empty)))"
| "ca_spec_step (RollbackDuplicate d m) S =
     (case owner_of d m of
        None \<Rightarrow> (Ok False, S)
      | Some (w, msg) \<Rightarrow>
          (case S w of
             None \<Rightarrow> (Ok False, S)
           | Some T \<Rightarrow> apsnd (\<lambda>T. S(w \<mapsto> T)) (spec_step (Rollback (messageId msg)) T)))"
| "ca_spec_step (RemoveDispatcher d) S = (Ok False, S(Subscriber d := None))"

fun ca_spec_run :: "ca_call list \<Rightarrow> seen_table \<Rightarrow> bool result list \<times> seen_table" where
  "ca_spec_run [] S = ([], S)"
| "ca_spec_run (k # ks) S = (let (r, S') = ca_spec_step k S; (rs, S'') = ca_spec_run ks S' in (r # rs, S''))"

fun call_message :: "ca_call \<Rightarrow> message option" where
  "call_message (CheckDuplicate d m) = m" | "call_message (RollbackDuplicate d m) = m" | "call_message (RemoveDispatcher d) = None"

text \<open>The calls' queue names are plain, and their messages' producers are in \<open>P\<close>.\<close>

definition call_ok :: "string set \<Rightarrow> ca_call \<Rightarrow> bool" where
  "call_ok P k \<longleftrightarrow>
     (case call_message k of
        None \<Rightarrow> True
      | Some m \<Rightarrow> (case msg_destination m of None \<Rightarrow> True | Some d \<Rightarrow> good_dest d) \<and> producers [IsDuplicate (messageId m)] \<subseteq> P)"

definition audit_ok :: "string set \<Rightarrow> message_audit \<Rightarrow> bool" where
  "audit_ok P a \<longleftrightarrow> audit_inv a \<and> int (card (P - dom (tracked a))) \<le> audit_room a"

definition look_owner :: "connection_audit \<Rightarrow> owner \<Rightarrow> message_audit option" where
  "look_owner c w = (case w of Queue n \<Rightarrow> map_of (names (destinations c)) n | Subscriber d \<Rightarrow> map_of (dispatchers c) d)"

definition ca_tracked :: "connection_audit \<Rightarrow> seen_table" where
  "ca_tracked c w = map_option tracked (look_owner c w)"

definition ca_inv :: "string set \<Rightarrow> connection_audit \<Rightarrow> bool" where
  "ca_inv P c \<longleftrightarrow> dests_ok (destinations c) \<and> disps_ok (dispatchers c) \<and> checkForDuplicates c \<and>
     0 \<le> ca_auditDepth c \<and> (\<forall>w a. look_owner c w = Some a \<longrightarrow> audit_ok P a)"

lemma ca_invD:
  "ca_inv P c \<Longrightarrow> dests_ok (destinations c)" "ca_inv P c \<Longrightarrow> disps_ok (dispatchers c)"
  "ca_inv P c \<Longrightarrow> checkForDuplicates c" "ca_inv P c \<Longrightarrow> 0 \<le> ca_auditDepth c"
  "ca_inv P c \<Longrightarrow> look_owner c w = Some a \<Longrightarrow> audit_ok P a"
  unfolding ca_inv_def by blast+

lemma producers_Rollback: "producers [Rollback mid] = producers [IsDuplicate mid]"
  by (simp add: producers_def)

lemma audit_ok_step:
  assumes "audit_ok P a" "finite P" "producers [k] \<subseteq> P"
  shows "fst (audit_step junk k a) = fst (spec_step k (tracked a)) \<and> audit_ok P (snd (audit_step junk k a)) \<and>
    tracked (snd (audit_step junk k a)) = snd (spec_step k (tracked a))"
proof -
  have "producers [k] \<union> P = P" using assms(3) by blast
  with assms(1) have "int (card (producers [k] \<union> P - dom (tracked a))) \<le> audit_room a"
    by (simp add: audit_ok_def)
  from audit_step_refines [OF _ assms(2) this] assms(1) obtain a' where
    "audit_step junk k a = (fst (spec_step k (tracked a)), a')" "audit_inv a'"
    "tracked a' = snd (spec_step k (tracked a))" "int (card (P - dom (tracked a'))) \<le> audit_room a'"
    unfolding audit_ok_def by blast
  then show ?thesis by (simp add: audit_ok_def)
qed

text \<open>Replacing the audit of one owner.\<close>

lemma ca_invI:
  assumes "ca_inv P c" "dests_ok (destinations c')" "disps_ok (dispatchers c')"
    "checkForDuplicates c' = checkForDuplicates c" "ca_auditDepth c' = ca_auditDepth c"
    "look_owner c' = (look_owner c)(w \<mapsto> a)" "audit_ok P a"
  shows "ca_inv P c'" "ca_tracked c' = (ca_tracked c)(w \<mapsto> tracked a)"
proof -
  show "ca_inv P c'"
    using assms(2-5,7) ca_invD [OF assms(1)] unfolding ca_inv_def assms(6) fun_upd_apply by (metis option.inject)
  show "ca_tracked c' = (ca_tracked c)(w \<mapsto> tracked a)" by (simp add: ca_tracked_def assms(6) fun_eq_iff)
qed

lemma look_owner_update:
  "map_of (names es) = (map_of (names (destinations c)))(n \<mapsto> a) \<Longrightarrow>
     look_owner (c\<lparr>destinations := es\<rparr>) = (look_owner c)(Queue n \<mapsto> a)"
  "map_of ds = (map_of (dispatchers c))(d \<mapsto> a) \<Longrightarrow>
     look_owner (c\<lparr>dispatchers := ds\<rparr>) = (look_owner c)(Subscriber d \<mapsto> a)"
  by (auto simp: look_owner_def fun_eq_iff split: owner.splits)


lemma audit_ok_new:
  assumes "0 \<le> depth" "card P \<le> 10000"
  shows "audit_ok P (ActiveMQMessageAudit_new depth n)"
  using audit_new [OF assms(1), of n] assms(2) by (simp add: audit_ok_def)

definition simulates :: "string set \<Rightarrow> bool result \<times> connection_audit \<Rightarrow> bool result \<times> seen_table \<Rightarrow> bool" where
  "simulates P x y \<longleftrightarrow> fst x = fst y \<and> ca_inv P (snd x) \<and> ca_tracked (snd x) = snd y"

lemma check_simulates:
  assumes "ca_inv P c" "finite P" "card P \<le> 10000" "call_ok P (CheckDuplicate d m)"
  shows "simulates P (ca_step junk (CheckDuplicate d m) c) (ca_spec_step (CheckDuplicate d m) (ca_tracked c))"
proof (cases "owner_of d m")
  case None
  then have "ca_step junk (CheckDuplicate d m) c = (Ok False, c)"
    by (auto simp: owner_of_def ConnectionAudit_isDuplicate_def Let_def split: option.splits bind_splits)
  then show ?thesis using None assms(1) by (simp add: simulates_def)
next
  case (Some wm)
  then obtain msg dest where m: "m = Some msg" "msg_destination msg = Some dest"
    and w: "wm = (if isQueue dest then Queue (physicalName dest) else Subscriber d, msg)"
    by (auto simp: owner_of_def split: bind_splits)
  let ?fresh = "ActiveMQMessageAudit_new (ca_auditDepth c) (auditMaximumProducerNumber c)"
  let ?w = "fst wm"
  let ?k = "IsDuplicate (messageId msg)"
  let ?v = "case look_owner c ?w of Some v \<Rightarrow> v | None \<Rightarrow> ?fresh"
  have new: "audit_ok P ?fresh" "tracked ?fresh = Map.empty"
    using audit_ok_new [OF ca_invD(4) [OF assms(1)] assms(3)] audit_new(2) [OF ca_invD(4) [OF assms(1)]] by simp_all
  have v: "audit_ok P ?v" "tracked ?v = (case ca_tracked c ?w of Some T \<Rightarrow> T | None \<Rightarrow> Map.empty)"
    using new ca_invD(5) [OF assms(1), of ?w] by (auto simp: ca_tracked_def split: option.splits)
  have P: "producers [?k] \<subseteq> P" and g: "good_dest dest" using assms(4) m by (simp_all add: call_ok_def)
  note st = audit_ok_step [OF v(1) assms(2) P, of junk]
  obtain c' where c': "ca_step junk (CheckDuplicate d m) c = (fst (audit_step junk ?k ?v), c')"
    "dests_ok (destinations c')" "disps_ok (dispatchers c')" "checkForDuplicates c' = checkForDuplicates c"
    "ca_auditDepth c' = ca_auditDepth c" "look_owner c' = (look_owner c)(?w \<mapsto> snd (audit_step junk ?k ?v))"
  proof (cases "isQueue dest")
    case True
    obtain es where es: "table_call StlMap_get StlMap_put ?fresh (isDuplicate junk (messageId msg)) dest (destinations c) =
        (fst (audit_step junk ?k ?v), es)" "dests_ok es"
      "map_of (names es) = (map_of (names (destinations c)))(physicalName dest \<mapsto> snd (audit_step junk ?k ?v))"
      using dests.call_law [OF ca_invD(1) [OF assms(1)] g refl, where fresh = ?fresh and f = "isDuplicate junk (messageId msg)"] True
      by (auto simp: w look_owner_def)
    show thesis
      by (rule that [of "c\<lparr>destinations := es\<rparr>"])
        (use es True m ca_invD [OF assms(1)] look_owner_update(1) [OF es(3)] in
          \<open>simp_all add: ConnectionAudit_isDuplicate_def Let_def w\<close>)
  next
    case False
    obtain es where es: "table_call Dispatchers_get Dispatchers_put ?fresh (isDuplicate junk (messageId msg)) d (dispatchers c) =
        (fst (audit_step junk ?k ?v), es)" "disps_ok es"
      "map_of es = (map_of (dispatchers c))(d \<mapsto> snd (audit_step junk ?k ?v))"
      using disps.call_law [OF ca_invD(2) [OF assms(1)] TrueI refl, where fresh = ?fresh and f = "isDuplicate junk (messageId msg)" and k = d] False
      by (auto simp: w look_owner_def)
    show thesis
      by (rule that [of "c\<lparr>dispatchers := es\<rparr>"])
        (use es False m ca_invD [OF assms(1)] look_owner_update(2) [OF es(3)] in
          \<open>simp_all add: ConnectionAudit_isDuplicate_def Let_def w\<close>)
  qed
  note inv = ca_invI [OF assms(1) c'(2-6)]
  show ?thesis
    using inv st c'(1) Some m v(2) w by (simp add: simulates_def)
qed

lemma rollback_audit_step:
  assumes "audit_ok P a" "finite P" "producers [IsDuplicate mid] \<subseteq> P"
  shows "fst (rollback junk mid a) = Ok ()" "fst (spec_step (Rollback mid) (tracked a)) = Ok False"
    "audit_ok P (snd (rollback junk mid a))"
    "tracked (snd (rollback junk mid a)) = snd (spec_step (Rollback mid) (tracked a))"
proof -
  have f: "fst (spec_step (Rollback mid) T) = Ok False" for T
    by (auto simp: spec_step_def spec_rollback_def key_of_id_def split: option.splits bind_splits)
  then show "fst (spec_step (Rollback mid) (tracked a)) = Ok False" .
  note st = audit_ok_step [OF assms(1,2) assms(3) [folded producers_Rollback], of junk]
  have "map_sum (\<lambda>e. e) (\<lambda>_. False) (fst (rollback junk mid a)) = Ok False"
    using st f [of "tracked a"] by (simp add: apfst_def map_prod_def case_prod_unfold)
  then show "fst (rollback junk mid a) = Ok ()" by (cases "fst (rollback junk mid a)") simp_all
  show "audit_ok P (snd (rollback junk mid a))"
    "tracked (snd (rollback junk mid a)) = snd (spec_step (Rollback mid) (tracked a))"
    using st by (simp_all add: apfst_def map_prod_def case_prod_unfold)
qed

lemma rollback_simulates:
  assumes "ca_inv P c" "finite P" "call_ok P (RollbackDuplicate d m)"
  shows "simulates P (ca_step junk (RollbackDuplicate d m) c) (ca_spec_step (RollbackDuplicate d m) (ca_tracked c))"
proof (cases "owner_of d m")
  case None
  then have "ca_step junk (RollbackDuplicate d m) c = (Ok False, c)"
    by (auto simp: owner_of_def rollbackDuplicate_def split: option.splits bind_splits)
  then show ?thesis using None assms(1) by (simp add: simulates_def)
next
  case (Some wm)
  then obtain msg dest where m: "m = Some msg" "msg_destination msg = Some dest"
    and w: "wm = (if isQueue dest then Queue (physicalName dest) else Subscriber d, msg)"
    by (auto simp: owner_of_def split: bind_splits)
  let ?w = "fst wm"
  let ?f = "rollback junk (messageId msg)"
  have P: "producers [IsDuplicate (messageId msg)] \<subseteq> P" and g: "good_dest dest"
    using assms(3) m by (simp_all add: call_ok_def)
  have ok: "look_owner c ?w = Some v \<Longrightarrow> audit_ok P v" for v by (rule ca_invD(5) [OF assms(1)])
  note rb = rollback_audit_step [OF ok assms(2) P]
  obtain c' where c': "rollbackDuplicate junk d m c = (Ok (), c')"
    "dests_ok (destinations c')" "disps_ok (dispatchers c')" "checkForDuplicates c' = checkForDuplicates c"
    "ca_auditDepth c' = ca_auditDepth c"
    "look_owner c' = (case look_owner c ?w of None \<Rightarrow> look_owner c | Some v \<Rightarrow> (look_owner c)(?w \<mapsto> snd (?f v)))"
  proof (cases "isQueue dest")
    case True
    then have lk: "look_owner c ?w = map_of (names (destinations c)) (physicalName dest)" by (simp add: w look_owner_def)
    obtain es where es: "table_update StlMap_get StlMap_put ?f dest (destinations c) =
        (case look_owner c ?w of None \<Rightarrow> Ok () | Some v \<Rightarrow> fst (?f v), es)" "dests_ok es"
      "map_of (names es) = (case look_owner c ?w of None \<Rightarrow> map_of (names (destinations c))
         | Some v \<Rightarrow> (map_of (names (destinations c)))(physicalName dest \<mapsto> snd (?f v)))"
      using dests.update_law [OF ca_invD(1) [OF assms(1)] g, where f = ?f] rb(1) lk by (metis sum.distinct(1))
    have "look_owner (c\<lparr>destinations := es\<rparr>) =
        (case look_owner c ?w of None \<Rightarrow> look_owner c | Some v \<Rightarrow> (look_owner c)(?w \<mapsto> snd (?f v)))"
      using es(3) look_owner_update(1) [of es c] True
      by (cases "look_owner c ?w") (auto simp: w, auto simp: look_owner_def fun_eq_iff split: owner.splits)
    then show thesis
      using that [of "c\<lparr>destinations := es\<rparr>"] es True m ca_invD [OF assms(1)] rb(1)
      by (simp add: rollbackDuplicate_def w split: option.splits)
  next
    case False
    then have lk: "look_owner c ?w = map_of (dispatchers c) d" by (simp add: w look_owner_def)
    obtain es where es: "table_update Dispatchers_get Dispatchers_put ?f d (dispatchers c) =
        (case look_owner c ?w of None \<Rightarrow> Ok () | Some v \<Rightarrow> fst (?f v), es)" "disps_ok es"
      "map_of es = (case look_owner c ?w of None \<Rightarrow> map_of (dispatchers c)
         | Some v \<Rightarrow> (map_of (dispatchers c))(d \<mapsto> snd (?f v)))"
      using disps.update_law [OF ca_invD(2) [OF assms(1)] TrueI, where f = ?f and k = d] rb(1) lk by (metis sum.distinct(1))
    have "look_owner (c\<lparr>dispatchers := es\<rparr>) =
        (case look_owner c ?w of None \<Rightarrow> look_owner c | Some v \<Rightarrow> (look_owner c)(?w \<mapsto> snd (?f v)))"
      using es(3) look_owner_update(2) [of es c] False
      by (cases "look_owner c ?w") (auto simp: w, auto simp: look_owner_def fun_eq_iff split: owner.splits)
    then show thesis
      using that [of "c\<lparr>dispatchers := es\<rparr>"] es False m ca_invD [OF assms(1)] rb(1)
      by (simp add: rollbackDuplicate_def w split: option.splits)
  qed
  show ?thesis
  proof (cases "look_owner c ?w")
    case none: None
    have "ca_inv P c'" "ca_tracked c' = ca_tracked c"
      using assms(1) c' none by (simp_all add: ca_inv_def ca_tracked_def fun_eq_iff)
    then show ?thesis using c'(1) none Some m w by (simp add: simulates_def ca_tracked_def)
  next
    case (Some v)
    have l: "look_owner c' = (look_owner c)(?w \<mapsto> snd (?f v))" using c'(6) Some by simp
    note inv = ca_invI [OF assms(1) c'(2-5) l rb(3) [OF Some]]
    show ?thesis
      using inv rb(2,4) [OF Some] c'(1) Some m w \<open>owner_of d m = Some wm\<close>
      by (simp add: simulates_def ca_tracked_def)
  qed
qed

lemma remove_simulates:
  assumes "ca_inv P c"
  shows "simulates P (ca_step junk (RemoveDispatcher d) c) (ca_spec_step (RemoveDispatcher d) (ca_tracked c))"
proof (cases "map_of (dispatchers c) d")
  case None
  then have "ca_tracked c (Subscriber d) = None" by (simp add: ca_tracked_def look_owner_def)
  then have "(ca_tracked c)(Subscriber d := None) = ca_tracked c" by (simp add: fun_upd_idem)
  then show ?thesis
    using assms None by (simp add: simulates_def removeDispatcher_def LinkedHashMap_remove_def)
next
  case (Some a)
  let ?c = "c\<lparr>dispatchers := unlink d (dispatchers c)\<rparr>"
  have l: "look_owner ?c = (look_owner c)(Subscriber d := None)"
    by (auto simp: look_owner_def map_of_unlink fun_eq_iff split: owner.splits)
  have t: "ca_tracked ?c = (ca_tracked c)(Subscriber d := None)" by (simp add: ca_tracked_def l fun_eq_iff)
  have "disps_ok (dispatchers ?c)" using ca_invD(2) [OF assms] by (simp add: disps_ok_def keys_unlink)
  moreover have "look_owner ?c w = Some v \<Longrightarrow> audit_ok P v" for w v
    using ca_invD(5) [OF assms, of w v] unfolding l by (simp split: if_splits)
  ultimately have "ca_inv P ?c" using ca_invD(1,3,4) [OF assms] by (simp add: ca_inv_def)
  with t show ?thesis
    using Some by (simp add: simulates_def removeDispatcher_def LinkedHashMap_remove_def)
qed

lemma ca_run_simulates:
  assumes "ca_inv P c" "finite P" "card P \<le> 10000" "\<forall>k \<in> set ks. call_ok P k"
  shows "fst (ca_run junk ks c) = fst (ca_spec_run ks (ca_tracked c))"
    "ca_tracked (snd (ca_run junk ks c)) = snd (ca_spec_run ks (ca_tracked c))"
    "ca_inv P (snd (ca_run junk ks c))"
proof -
  have "fst (ca_run junk ks c) = fst (ca_spec_run ks (ca_tracked c)) \<and>
    ca_tracked (snd (ca_run junk ks c)) = snd (ca_spec_run ks (ca_tracked c)) \<and> ca_inv P (snd (ca_run junk ks c))"
    using assms(1,4)
  proof (induction ks arbitrary: c)
    case (Cons k ks)
    have "call_ok P k" using Cons.prems(2) by simp
    then have s: "simulates P (ca_step junk k c) (ca_spec_step k (ca_tracked c))"
      using check_simulates [OF Cons.prems(1) assms(2,3)] rollback_simulates [OF Cons.prems(1) assms(2)]
        remove_simulates [OF Cons.prems(1)] by (cases k) blast+
    then show ?case
      using Cons.IH [of "snd (ca_step junk k c)"] Cons.prems(2)
      by (simp add: simulates_def case_prod_unfold Let_def)
  qed simp
  then show "fst (ca_run junk ks c) = fst (ca_spec_run ks (ca_tracked c))"
    "ca_tracked (snd (ca_run junk ks c)) = snd (ca_spec_run ks (ca_tracked c))" "ca_inv P (snd (ca_run junk ks c))"
    by blast+
qed

lemma ca_new:
  assumes "0 \<le> depth"
  shows "ca_inv P (ConnectionAudit_new depth n)" "ca_tracked (ConnectionAudit_new depth n) = Map.empty"
  using assms
  by (auto simp: ca_inv_def ConnectionAudit_new_def dests_ok_def disps_ok_def look_owner_def ca_tracked_def fun_eq_iff
      split: owner.splits)


definition sample :: "destination_type \<Rightarrow> int \<Rightarrow> message" where
  "sample t q = \<lparr>msg_destination = Some \<lparr>destinationType = t, physicalName = ''orders''\<rparr>,
     messageId = Some (MessageId_new\<lparr>producerId := Some \<lparr>connectionId = ''c'', pid_value = 1, sessionId = 1\<rparr>,
       producerSequenceId := q\<rparr>), priority = 4, msg_ref = 1, msg_redeliveryCounter = 0, msg_expiration = 0, msg_redeliveryDelay = Some False\<rparr>"

lemma sample_ok: "call_ok {''c:1:1''} (CheckDuplicate d (Some (sample t q)))"
  "call_ok {''c:1:1''} (RollbackDuplicate d (Some (sample t q)))"
  "call_ok P (CheckDuplicate d None)"
  by (auto simp: call_ok_def sample_def good_dest_def plain_def isWhitespace_def schar_def NUL_def producers_def
      key_of_id_def ProducerId_toString_def to_string_def nat_string.simps digit_char_def char_of_eq_iff)


text \<open>
  \<^bold>\<open>C33.\<close> A message of a queue is delivered to one dispatcher of the connection only, a message of a
  topic once to every dispatcher: the second check of a queue's message finds a duplicate whoever asks,
  that of a topic's message only for the dispatcher that had it.
\<close>

theorem queue_once_topic_each:
  assumes "msg_destination m = Some d" "plain (physicalName d)" "messageId m = Some mid" "producerId mid = Some p"
    "0 \<le> producerSequenceId mid" "0 \<le> depth"
  shows "fst (ca_run junk [CheckDuplicate i (Some m), CheckDuplicate j (Some m)] (ConnectionAudit_new depth n)) =
    [Ok False, Ok (isQueue d \<or> i = j)]"
proof -
  let ?ks = "[CheckDuplicate i (Some m), CheckDuplicate j (Some m)]"
  have "\<forall>k \<in> set ?ks. call_ok {ProducerId_toString p} k"
    using assms by (auto simp: call_ok_def good_dest_def producers_def key_of_id_def)
  note r = ca_run_simulates(1) [OF ca_new(1) [OF assms(6)] _ _ this, of junk n]
  have "fst (ca_spec_run ?ks Map.empty) = [Ok False, Ok (isQueue d \<or> i = j)]"
    using assms by (simp add: owner_of_def spec_step_def key_of_id_def spec_duplicate_def seen_def)
  then show ?thesis using r by (simp add: ca_new(2) [OF assms(6)] del: ca_run.simps ca_spec_run.simps)
qed

theorem queue_once_topic_each_witness:
  "fst (ca_run 0 [CheckDuplicate 1 (Some (sample TOPIC 8)), CheckDuplicate 2 (Some (sample TOPIC 8))]
     (ConnectionAudit_new 2048 64)) = [Ok False, Ok False]"
  using queue_once_topic_each [of "sample TOPIC 8" "\<lparr>destinationType = TOPIC, physicalName = ''orders''\<rparr>" _ _ 2048 0 1 2 64]
  by (simp add: sample_def plain_def isWhitespace_def schar_def NUL_def isQueue_def isTopic_def MessageId_new_def)

end
