(* ===== verification/Data_Streams.thy ===== *)
theory Data_Streams
  imports AMQ_Prelude
begin

text \<open>
  \<open>decaf/io/DataOutputStream.cpp\<close> and \<open>DataInputStream.cpp\<close>: big-endian integers, modified UTF-8
  strings, and the loops that fill a buffer from a stream that may deliver fewer bytes than asked for.
  An underlying output stream is the list of bytes it was given; an underlying input stream is a list of
  deliveries, each a block of bytes that one \<open>read\<close> may return at most, or a broken connection. Floating
  point values are their bit patterns, since the code copies them with \<open>memcpy\<close>. After an exception the
  stream is not used again, so an exception carries no state.
\<close>

type_synonym byte = "8 word"

definition byte_of_char :: "char \<Rightarrow> byte" where
  "byte_of_char c = word_of_nat (of_char c)"

definition char_of_byte :: "byte \<Rightarrow> char" where
  "char_of_byte b = char_of (unat b)"

section \<open>DataOutputStream\<close>

record data_output =
  os_sink :: "byte list option"
  os_closed :: bool
  written :: int

definition FilterOutputStream_isClosed :: "data_output \<Rightarrow> bool" where
  "FilterOutputStream_isClosed out \<longleftrightarrow> os_closed out \<or> os_sink out = None"

text \<open>\<open>outputStream->write(...); written += n;\<close> following a null pointer is a fault.\<close>

definition sink_write :: "byte list \<Rightarrow> data_output \<Rightarrow> data_output result" where
  "sink_write d out =
     (case os_sink out of
        None \<Rightarrow> Throw MemoryFault
      | Some bs \<Rightarrow> Ok (out\<lparr>os_sink := Some (bs @ d), written := written out + int (length d)\<rparr>))"

definition null_checked :: "data_output \<Rightarrow> data_output result \<Rightarrow> data_output result" where
  "null_checked out r = catch_io (if os_sink out = None then Throw IOException else r)"

definition doWriteByte :: "byte \<Rightarrow> data_output \<Rightarrow> data_output result" where
  "doWriteByte c out = null_checked out (sink_write [c] out)"

definition doWriteArrayBounded :: "byte list option \<Rightarrow> int \<Rightarrow> int \<Rightarrow> int \<Rightarrow> data_output \<Rightarrow> data_output result" where
  "doWriteArrayBounded buffer sz offset len out =
     (if len = 0 then Ok out
      else if FilterOutputStream_isClosed out then Throw IOException
      else case buffer of
        None \<Rightarrow> Throw NullPointerException
      | Some buf \<Rightarrow>
          (if sz < 0 then Throw IndexOutOfBoundsException
           else if offset > sz \<or> offset < 0 then Throw IndexOutOfBoundsException
           else if len < 0 \<or> len > sz - offset then Throw IndexOutOfBoundsException
           else if int (length buf) < offset + len then Throw MemoryFault
           else sink_write (take (nat len) (drop (nat offset) buf)) out))"

definition writeBoolean :: "bool \<Rightarrow> data_output \<Rightarrow> data_output result" where
  "writeBoolean val out = null_checked out (sink_write [if val then 1 else 0] out)"

definition writeByte :: "byte \<Rightarrow> data_output \<Rightarrow> data_output result" where
  "writeByte val out = null_checked out (sink_write [val] out)"

definition writeChar :: "char \<Rightarrow> data_output \<Rightarrow> data_output result" where
  "writeChar val out = null_checked out (sink_write [byte_of_char val] out)"

definition short_bytes :: "16 word \<Rightarrow> byte list" where
  "short_bytes val = [ucast (drop_bit 8 (val AND 0xFF00)), ucast (val AND 0x00FF)]"

definition writeShort :: "16 word \<Rightarrow> data_output \<Rightarrow> data_output result" where
  "writeShort val out = null_checked out (sink_write (short_bytes val) out)"

definition writeUnsignedShort :: "16 word \<Rightarrow> data_output \<Rightarrow> data_output result" where
  "writeUnsignedShort val out = null_checked out (sink_write (short_bytes val) out)"

definition writeInt :: "32 word \<Rightarrow> data_output \<Rightarrow> data_output result" where
  "writeInt val out =
     null_checked out (sink_write
       [ucast (drop_bit 24 (val AND 0xFF000000)), ucast (drop_bit 16 (val AND 0x00FF0000)),
        ucast (drop_bit 8 (val AND 0x0000FF00)), ucast (val AND 0x000000FF)] out)"

definition writeLong :: "64 word \<Rightarrow> data_output \<Rightarrow> data_output result" where
  "writeLong val out =
     null_checked out (sink_write
       [ucast (drop_bit 56 (val AND 0xFF00000000000000)), ucast (drop_bit 48 (val AND 0x00FF000000000000)),
        ucast (drop_bit 40 (val AND 0x0000FF0000000000)), ucast (drop_bit 32 (val AND 0x000000FF00000000)),
        ucast (drop_bit 24 (val AND 0x00000000FF000000)), ucast (drop_bit 16 (val AND 0x0000000000FF0000)),
        ucast (drop_bit 8 (val AND 0x000000000000FF00)), ucast (val AND 0x00000000000000FF)] out)"

definition writeFloat :: "32 word \<Rightarrow> data_output \<Rightarrow> data_output result" where
  "writeFloat bits out = catch_io (writeInt bits out)"

definition writeDouble :: "64 word \<Rightarrow> data_output \<Rightarrow> data_output result" where
  "writeDouble bits out = catch_io (writeLong bits out)"

definition string_bytes :: "string \<Rightarrow> byte list" where
  "string_bytes s = map byte_of_char s"

definition writeBytes :: "string \<Rightarrow> data_output \<Rightarrow> data_output result" where
  "writeBytes val out =
     catch_io (if length val = 0 then Ok out
       else doWriteArrayBounded (Some (string_bytes val)) (int (length val)) 0 (int (length val)) out)"

text \<open>\<open>c_str()\<close> ends with a NUL, which is written, too.\<close>

definition writeChars :: "string \<Rightarrow> data_output \<Rightarrow> data_output result" where
  "writeChars val out =
     catch_io (if length val = 0 then Ok out
       else doWriteArrayBounded (Some (string_bytes val @ [0])) (int (length val) + 1) 0 (int (length val) + 1) out)"

definition countUTFLength :: "string \<Rightarrow> nat" where
  "countUTFLength val =
     foldl (\<lambda>utfCount c. let charValue = of_char c :: nat in
       if charValue > 0 \<and> charValue \<le> 127 then utfCount + 1
       else if charValue \<le> 2047 then utfCount + 2 else utfCount + 3) 0 val"

definition utf_char :: "char \<Rightarrow> byte list" where
  "utf_char c =
     (let charValue = word_of_nat (of_char c) :: 32 word in
      if charValue > 0 \<and> charValue \<le> 127 then [ucast charValue]
      else if charValue \<le> 2047 then
        [ucast (0xc0 OR (0x1f AND drop_bit 6 charValue)), ucast (0x80 OR (0x3f AND charValue))]
      else
        [ucast (0xe0 OR (0x0f AND drop_bit 12 charValue)), ucast (0x80 OR (0x3f AND drop_bit 6 charValue)),
         ucast (0x80 OR (0x3f AND charValue))])"

definition utf_bytes :: "string \<Rightarrow> byte list" where
  "utf_bytes val = concat (map utf_char val)"

definition writeUTF :: "string \<Rightarrow> data_output \<Rightarrow> data_output result" where
  "writeUTF val out =
     catch_io (let utfLength = countUTFLength val in
       if utfLength > 65535 then Throw UTFDataFormatException
       else if length (utf_bytes val) > utfLength then Throw MemoryFault
       else
         rbind (writeUnsignedShort (word_of_nat utfLength) out) (\<lambda>out'.
         if utfLength > 0
         then doWriteArrayBounded (Some (utf_bytes val)) (int (length (utf_bytes val))) 0 (int (length (utf_bytes val))) out'
         else Ok out'))"

section \<open>The underlying input stream\<close>

datatype delivery = Data "byte list" | Broken

type_synonym instream = "delivery list"

text \<open>At most \<open>n\<close> bytes, of the next block that has any; \<open>None\<close> is the end of the stream.\<close>

fun take_block :: "nat \<Rightarrow> instream \<Rightarrow> (byte list \<times> instream) option result" where
  "take_block n [] = Ok None"
| "take_block n (Broken # st) = Throw IOException"
| "take_block n (Data d # st) =
     (if d = [] then take_block n st
      else Ok (Some (take n d, if length d \<le> n then st else Data (drop n d) # st)))"

text \<open>\<open>InputStream::read(buffer, size, offset, length)\<close> with its bounds check.\<close>

definition base_read :: "int \<Rightarrow> int \<Rightarrow> int \<Rightarrow> instream \<Rightarrow> (byte list \<times> instream) option result" where
  "base_read sz offset len st =
     (if len = 0 then Ok (Some ([], st))
      else if len > sz - offset then Throw IndexOutOfBoundsException
      else take_block (nat len) st)"

text \<open>The bytes that come before the end of the stream or the break.\<close>

fun avail :: "instream \<Rightarrow> byte list" where
  "avail [] = []"
| "avail (Broken # st) = []"
| "avail (Data d # st) = d @ avail st"

definition broken :: "instream \<Rightarrow> bool" where
  "broken st \<longleftrightarrow> Broken \<in> set st"

lemma take_block_spec:
  assumes "0 < n"
  shows "avail st = [] \<Longrightarrow> take_block n st = (if broken st then Throw IOException else Ok None)"
    "avail st \<noteq> [] \<Longrightarrow> \<exists>k st'. 0 < k \<and> k \<le> n \<and> k \<le> length (avail st) \<and>
      take_block n st = Ok (Some (take k (avail st), st')) \<and> avail st' = drop k (avail st) \<and> broken st' = broken st"
proof -
  show "avail st = [] \<Longrightarrow> take_block n st = (if broken st then Throw IOException else Ok None)"
    by (induction st rule: avail.induct) (auto simp: broken_def)
  show "avail st \<noteq> [] \<Longrightarrow> \<exists>k st'. 0 < k \<and> k \<le> n \<and> k \<le> length (avail st) \<and>
      take_block n st = Ok (Some (take k (avail st), st')) \<and> avail st' = drop k (avail st) \<and> broken st' = broken st"
  proof (induction st rule: avail.induct)
    case (3 d st)
    show ?case
    proof (cases "d = []")
      case True
      with 3 show ?thesis by (auto simp: broken_def)
    next
      case False
      let ?k = "min n (length d)"
      have "take_block n (Data d # st) = Ok (Some (take ?k d, if length d \<le> n then st else Data (drop n d) # st))"
        using False by (simp add: min_def)
      moreover have "0 < ?k" using False assms by simp
      ultimately show ?thesis
        using False by (intro exI [of _ ?k] exI [of _ "if length d \<le> n then st else Data (drop n d) # st"])
          (auto simp: broken_def min_def)
    qed
  qed auto
qed

lemma take_block_pos: "take_block n st = Ok (Some (d, st')) \<Longrightarrow> 0 < n \<Longrightarrow> 0 < length d"
  by (induction n st rule: take_block.induct) (auto split: if_splits)

lemma base_read_pos: "base_read sz offset len st = Ok (Some (d, st')) \<Longrightarrow> 0 < len \<Longrightarrow> 0 < length d"
  by (auto simp: base_read_def split: if_splits dest: take_block_pos)

section \<open>DataInputStream\<close>

text \<open>\<open>is_pushback\<close> says that the stream was wrapped into a \<open>PushbackInputStream\<close> by \<open>readLine\<close>.\<close>

record data_input =
  is_base :: "instream option"
  is_pushback :: bool

definition put_bytes :: "byte list \<Rightarrow> int \<Rightarrow> byte list \<Rightarrow> byte list result" where
  "put_bytes buf i d =
     (if 0 \<le> i \<and> i + int (length d) \<le> int (length buf)
      then Ok (take (nat i) buf @ d @ drop (nat i + length d) buf) else Throw MemoryFault)"

text \<open>
  The loop of \<open>readAllData\<close> and \<open>readFully\<close>: \<open>n\<close> bytes are there, \<open>size\<close> is what the code passes as
  the size of the buffer.
\<close>

function read_loop :: "int \<Rightarrow> int \<Rightarrow> int \<Rightarrow> int \<Rightarrow> byte list \<Rightarrow> instream \<Rightarrow> (byte list \<times> instream) result" where
  "read_loop sz offset n len buf st =
     (if n < len then
        (case base_read sz (offset + n) (len - n) st of
           Inl e \<Rightarrow> Throw e
         | Inr None \<Rightarrow> Throw EOFException
         | Inr (Some (d, st')) \<Rightarrow>
             (case put_bytes buf (offset + n) d of
                Inl e \<Rightarrow> Throw e
              | Inr buf' \<Rightarrow> read_loop sz offset (n + int (length d)) len buf' st'))
      else Ok (buf, st))"
  by pat_completeness auto
termination
  by (relation "measure (\<lambda>(sz, offset, n, len, buf, st). nat (len - n))") (auto dest!: base_read_pos)

declare read_loop.simps [simp del]

definition with_base :: "data_input \<Rightarrow> ('a \<times> instream) result \<Rightarrow> ('a \<times> data_input) result" where
  "with_base inp r = rbind r (\<lambda>(x, st). Ok (x, inp\<lparr>is_base := Some st\<rparr>))"

definition readAllData :: "int \<Rightarrow> data_input \<Rightarrow> (byte list \<times> data_input) result" where
  "readAllData len inp =
     catch_io (if len < 0 then Throw IOException
       else if len = 0 then Ok ([], inp)
       else case is_base inp of
         None \<Rightarrow> Throw IOException
       | Some st \<Rightarrow> with_base inp (catch_io (read_loop len 0 0 len (replicate (nat len) 0) st)))"

definition readBoolean :: "data_input \<Rightarrow> (bool \<times> data_input) result" where
  "readBoolean inp = catch_io (rbind (readAllData 1 inp) (\<lambda>(b, i). Ok (b ! 0 \<noteq> 0, i)))"

definition readByte :: "data_input \<Rightarrow> (byte \<times> data_input) result" where
  "readByte inp = catch_io (rbind (readAllData 1 inp) (\<lambda>(b, i). Ok (b ! 0, i)))"

definition readUnsignedByte :: "data_input \<Rightarrow> (byte \<times> data_input) result" where
  "readUnsignedByte inp = catch_io (rbind (readAllData 1 inp) (\<lambda>(b, i). Ok (b ! 0, i)))"

definition readChar :: "data_input \<Rightarrow> (char \<times> data_input) result" where
  "readChar inp = catch_io (rbind (readAllData 1 inp) (\<lambda>(b, i). Ok (char_of_byte (b ! 0), i)))"

definition readShort :: "data_input \<Rightarrow> (16 word \<times> data_input) result" where
  "readShort inp = catch_io (rbind (readAllData 2 inp) (\<lambda>(b, i).
     Ok (0 OR ucast (push_bit 8 (ucast (b ! 0) :: 32 word) OR ucast (b ! 1)), i)))"

definition readUnsignedShort :: "data_input \<Rightarrow> (16 word \<times> data_input) result" where
  "readUnsignedShort inp = catch_io (rbind (readAllData 2 inp) (\<lambda>(b, i).
     Ok (0 OR ucast (push_bit 8 (ucast (b ! 0) :: 32 word) OR ucast (b ! 1)), i)))"

definition readInt :: "data_input \<Rightarrow> (32 word \<times> data_input) result" where
  "readInt inp = catch_io (rbind (readAllData 4 inp) (\<lambda>(b, i).
     Ok (0 OR (push_bit 24 (ucast (b ! 0)) OR push_bit 16 (ucast (b ! 1)) OR push_bit 8 (ucast (b ! 2)) OR ucast (b ! 3)), i)))"

definition readLong :: "data_input \<Rightarrow> (64 word \<times> data_input) result" where
  "readLong inp = catch_io (rbind (readAllData 8 inp) (\<lambda>(b, i).
     let byt = (\<lambda>k. ucast (b ! k) AND 0x00000000000000FF :: 64 word) in
     Ok (push_bit 56 (byt 0) OR push_bit 48 (byt 1) OR push_bit 40 (byt 2) OR push_bit 32 (byt 3) OR
         push_bit 24 (byt 4) OR push_bit 16 (byt 5) OR push_bit 8 (byt 6) OR byt 7, i)))"

definition readDouble :: "data_input \<Rightarrow> (64 word \<times> data_input) result" where
  "readDouble inp = catch_io (readLong inp)"

definition readFloat :: "data_input \<Rightarrow> (32 word \<times> data_input) result" where
  "readFloat inp = catch_io (readInt inp)"

lemma take_block_shorter:
  "take_block (Suc 0) st = Ok (Some (d, st')) \<Longrightarrow> length (avail st') < length (avail st)"
  using take_block_spec [of 1 st] by (cases "avail st = []") (auto split: if_splits)

text \<open>The loop of \<open>readString\<close>; \<open>pos\<close> is always below the size of the growing buffer.\<close>

function string_loop :: "byte list \<Rightarrow> instream \<Rightarrow> (byte list \<times> instream) result" where
  "string_loop acc st =
     (case take_block 1 st of
        Inl e \<Rightarrow> Throw e
      | Inr None \<Rightarrow> Throw EOFException
      | Inr (Some (d, st')) \<Rightarrow> (if d ! 0 = 0 then Ok (acc, st') else string_loop (acc @ [d ! 0]) st'))"
  by pat_completeness auto

termination
  by (relation "measure (\<lambda>(acc, st). length (avail st))") (auto dest: take_block_shorter)

declare string_loop.simps [simp del]

definition readString :: "data_input \<Rightarrow> (string \<times> data_input) result" where
  "readString inp =
     catch_io (case is_base inp of
         None \<Rightarrow> Throw IOException
       | Some st \<Rightarrow> with_base inp (rbind (string_loop [] st) (\<lambda>(bs, st'). Ok (map char_of_byte bs, st'))))"

definition readFully :: "byte list option \<Rightarrow> int \<Rightarrow> int \<Rightarrow> int \<Rightarrow> data_input \<Rightarrow> (byte list option \<times> data_input) result" where
  "readFully buffer sz offset len inp =
     (if len = 0 then Ok (buffer, inp)
      else case (buffer, is_base inp) of
        (None, _) \<Rightarrow> Throw NullPointerException
      | (Some _, None) \<Rightarrow> Throw NullPointerException
      | (Some buf, Some st) \<Rightarrow>
          (if sz < 0 then Throw IndexOutOfBoundsException
           else if offset > sz \<or> offset < 0 then Throw IndexOutOfBoundsException
           else if len < 0 \<or> len > sz - offset then Throw IndexOutOfBoundsException
           else with_base inp (rbind (read_loop len offset 0 len buf st) (\<lambda>(b, st'). Ok (Some b, st')))))"

text \<open>\<open>readFully(buffer, size)\<close>; the rethrow of \<open>NullPointerException\<close> is missing in its catch list.\<close>

definition readFully2 :: "byte list option \<Rightarrow> int \<Rightarrow> data_input \<Rightarrow> (byte list option \<times> data_input) result" where
  "readFully2 buffer sz inp =
     (if sz = 0 then Ok (buffer, inp)
      else case readFully buffer sz 0 sz inp of
        Inl e \<Rightarrow> Throw (if e = IndexOutOfBoundsException then e else io_convert e)
      | Inr r \<Rightarrow> Ok r)"

fun utf_decode :: "byte list \<Rightarrow> byte list result" where
  "utf_decode [] = Ok []"
| "utf_decode (a # bs) =
     (if a < 0x80 then rbind (utf_decode bs) (\<lambda>r. Ok (a # r))
      else if a AND 0xE0 = 0xC0 then
        (case bs of
           [] \<Rightarrow> Throw UTFDataFormatException
         | b # bs' \<Rightarrow>
             (if b AND 0xC0 \<noteq> 0x80 then Throw UTFDataFormatException
              else if a AND 0x1C \<noteq> 0 then Throw UTFDataFormatException
              else rbind (utf_decode bs') (\<lambda>r.
                Ok (ucast (push_bit 6 (ucast (a AND 0x1F) :: 32 word) OR ucast (b AND 0x3F)) # r))))
      else Throw UTFDataFormatException)"

definition readUTF :: "data_input \<Rightarrow> (string \<times> data_input) result" where
  "readUTF inp =
     catch_io (if is_base inp = None then Throw IOException
       else
         rbind (readUnsignedShort inp) (\<lambda>(utfLength, inp').
         if utfLength = 0 then Ok ([], inp')
         else
           rbind (readFully2 (Some (replicate (unat utfLength) 0)) (int (unat utfLength)) inp') (\<lambda>(buffer, inp'').
           rbind (utf_decode (the buffer)) (\<lambda>r. Ok (map char_of_byte r, inp'')))))"

text \<open>\<open>readLine\<close>: the byte after a carriage return is pushed back, unless it is a line feed.\<close>

definition base_read1 :: "instream \<Rightarrow> (byte \<times> instream) option result" where
  "base_read1 st = rbind (take_block 1 st) (\<lambda>r. Ok (map_option (\<lambda>(d, st'). (d ! 0, st')) r))"

lemma base_read1_shorter: "base_read1 st = Ok (Some (b, st')) \<Longrightarrow> length (avail st') < length (avail st)"
  by (auto simp: base_read1_def rbind_Ok_iff dest: take_block_shorter)

function line_loop :: "string \<Rightarrow> bool \<Rightarrow> bool \<Rightarrow> instream \<Rightarrow> (string \<times> bool \<times> instream) result" where
  "line_loop line foundTerminator pushback st =
     (case base_read1 st of
        Inl e \<Rightarrow> Throw e
      | Inr None \<Rightarrow> Ok (line, pushback, st)
      | Inr (Some (b, st')) \<Rightarrow>
          (if b = 13 then
             (if foundTerminator then
                (if \<not> pushback then Throw IOException else Ok (line, pushback, Data [b] # st'))
              else line_loop line True True st')
           else if b = 10 then Ok (line, pushback, st')
           else if foundTerminator then
             (if \<not> pushback then Throw IOException else Ok (line, pushback, Data [b] # st'))
           else line_loop (line @ [char_of_byte b]) foundTerminator pushback st'))"
  by pat_completeness auto

termination
  by (relation "measure (\<lambda>(line, f, p, st). length (avail st))") (auto dest: base_read1_shorter)

declare line_loop.simps [simp del]

definition readLine :: "data_input \<Rightarrow> (string \<times> data_input) result" where
  "readLine inp =
     catch_io (case is_base inp of
         None \<Rightarrow> Throw MemoryFault
       | Some st \<Rightarrow>
           rbind (line_loop [] False (is_pushback inp) st) (\<lambda>(line, pushback, st').
           Ok (line, inp\<lparr>is_base := Some st', is_pushback := pushback\<rparr>)))"

text \<open>
  \<open>InputStream::skip\<close>, reading blocks of at most 4096 bytes; \<open>toRead\<close> stays positive while bytes are
  missing, so the test for it in the model is never taken.
\<close>

function skip_loop :: "int \<Rightarrow> int \<Rightarrow> int \<Rightarrow> instream \<Rightarrow> (int \<times> instream) result" where
  "skip_loop toRead num skipped st =
     (if skipped < num then
        (case base_read toRead 0 toRead st of
           Inl e \<Rightarrow> Throw e
         | Inr None \<Rightarrow> Ok (skipped, st)
         | Inr (Some (d, st')) \<Rightarrow>
             (let skipped' = skipped + int (length d) in
              if int (length d) < toRead \<or> toRead \<le> 0 then Ok (skipped', st')
              else skip_loop (if num - skipped' < toRead then num - skipped' else toRead) num skipped' st'))
      else Ok (skipped, st))"
  by pat_completeness auto
termination
  by (relation "measure (\<lambda>(toRead, num, skipped, st). nat (num - skipped))") auto

declare skip_loop.simps [simp del]

definition base_skip :: "int \<Rightarrow> instream \<Rightarrow> (int \<times> instream) result" where
  "base_skip num st =
     (if num \<le> 0 then Ok (0, st) else catch_io (skip_loop (if num < 4096 then num else 4096) num 0 st))"

function skip_bytes_loop :: "int \<Rightarrow> int \<Rightarrow> instream \<Rightarrow> (int \<times> instream) result" where
  "skip_bytes_loop totl num st =
     (if totl < num then
        (case base_skip (num - totl) st of
           Inl e \<Rightarrow> Throw e
         | Inr (cur, st') \<Rightarrow>
             (if cur > 0 then skip_bytes_loop (totl + cur) num st' else Ok (totl, st')))
      else Ok (totl, st))"
  by pat_completeness auto
termination
  by (relation "measure (\<lambda>(totl, num, st). nat (num - totl))") auto

declare skip_bytes_loop.simps [simp del]

definition skipBytes :: "int \<Rightarrow> data_input \<Rightarrow> (int \<times> data_input) result" where
  "skipBytes num inp =
     catch_io (case is_base inp of
         None \<Rightarrow> Throw IOException
       | Some st \<Rightarrow> with_base inp (skip_bytes_loop 0 num st))"

end
