(* ===== verification/Data_Codecs.thy ===== *)
theory Data_Codecs
  imports Data_Streams
begin

text \<open>
  What \<open>DataOutputStream\<close> writes \<open>DataInputStream\<close> reads back: the contract of one kind of value is the
  locale \<open>codec\<close>, interpreted for every kind the two classes have; a record of fields follows from it.
  The contract fixes the bytes, the result on a truncated or broken stream included, for every way the
  underlying stream splits its deliveries.
\<close>

section \<open>The contract\<close>

definition is_open :: "data_output \<Rightarrow> bool" where
  "is_open out \<longleftrightarrow> os_sink out \<noteq> None \<and> \<not> os_closed out"

definition appended :: "data_output \<Rightarrow> byte list \<Rightarrow> data_output" where
  "appended out d = out\<lparr>os_sink := map_option (\<lambda>bs. bs @ d) (os_sink out), written := written out + int (length d)\<rparr>"

text \<open>The stream will deliver exactly \<open>bs\<close>, and then break off or end.\<close>

definition delivers :: "data_input \<Rightarrow> byte list \<Rightarrow> bool \<Rightarrow> bool" where
  "delivers inp bs br \<longleftrightarrow> (\<exists>st. is_base inp = Some st \<and> avail st = bs \<and> broken st = br)"

definition cut_off :: "bool \<Rightarrow> exn" where
  "cut_off br = (if br then IOException else EOFException)"

lemma is_open_appended [simp]: "is_open out \<Longrightarrow> is_open (appended out d)"
  by (auto simp: is_open_def appended_def)

lemma appended_appended [simp]: "appended (appended out d) e = appended out (d @ e)"
  by (cases "os_sink out") (simp_all add: appended_def)

lemma appended_Nil [simp]: "appended out [] = out"
  by (cases "os_sink out") (simp_all add: appended_def)

locale codec =
  fixes ok :: "'v \<Rightarrow> bool" and enc :: "'v \<Rightarrow> byte list"
    and put :: "'v \<Rightarrow> data_output \<Rightarrow> data_output result"
    and get :: "data_input \<Rightarrow> ('v \<times> data_input) result"
  assumes put_law: "ok v \<Longrightarrow> is_open out \<Longrightarrow> put v out = Ok (appended out (enc v))"
    and get_law: "ok v \<Longrightarrow> delivers inp (enc v @ rest) br \<Longrightarrow> \<exists>inp'. get inp = Ok (v, inp') \<and> delivers inp' rest br"
    and cut_law: "ok v \<Longrightarrow> delivers inp p br \<Longrightarrow> enc v = p @ missing \<Longrightarrow> missing \<noteq> [] \<Longrightarrow> get inp = Throw (cut_off br)"
begin

lemma get_or_cut:
  assumes "ok v" "delivers inp p br" "enc v @ rest = p @ missing"
  shows "(\<exists>inp' q. get inp = Ok (v, inp') \<and> p = enc v @ q \<and> delivers inp' q br) \<or>
    (get inp = Throw (cut_off br) \<and> length p < length (enc v))"
proof (cases "length (enc v) \<le> length p")
  case True
  then obtain q where q: "p = enc v @ q" using assms(3) by (metis append_eq_append_conv_if append_take_drop_id)
  then show ?thesis using get_law [OF assms(1), of inp q br] assms(2) by blast
next
  case False
  then obtain m where m: "enc v = p @ m" "m \<noteq> []"
    using assms(3) by (metis append.right_neutral append_eq_append_conv_if append_take_drop_id le_refl nat_le_linear)
  then show ?thesis using cut_law [OF assms(1,2) m] False by simp
qed

end

section \<open>Filling a buffer\<close>

lemma read_loop_fill:
  assumes "n \<le> len" "length buf = len"
  shows "if length (avail st) < len - n
    then read_loop (int len) 0 (int n) (int len) buf st = Throw (cut_off (broken st))
    else \<exists>st'. read_loop (int len) 0 (int n) (int len) buf st = Ok (take n buf @ take (len - n) (avail st), st') \<and>
      avail st' = drop (len - n) (avail st) \<and> broken st' = broken st"
  using assms
proof (induction "len - n" arbitrary: n buf st rule: less_induct)
  case less
  show ?case
  proof (cases "n < len")
    case False
    then show ?thesis using less.prems by (simp add: read_loop.simps)
  next
    case n: True
    have rd: "base_read (int len) (0 + int n) (int len - int n) st = take_block (len - n) st"
      using n by (simp add: base_read_def nat_diff_distrib)
    show ?thesis
    proof (cases "avail st = []")
      case True
      then show ?thesis
        using n take_block_spec(1) [of "len - n" st] rd
        by (subst (1 2) read_loop.simps) (simp add: cut_off_def)
    next
      case False
      obtain k st' where k: "0 < k" "k \<le> len - n" "k \<le> length (avail st)"
        "take_block (len - n) st = Ok (Some (take k (avail st), st'))" "avail st' = drop k (avail st)" "broken st' = broken st"
        using take_block_spec(2) [OF _ False, of "len - n"] n by auto
      let ?buf = "take n buf @ take k (avail st) @ drop (n + k) buf"
      have pb: "put_bytes buf (0 + int n) (take k (avail st)) = Ok ?buf"
        using k n less.prems by (simp add: put_bytes_def min_def)
      have step: "read_loop (int len) 0 (int n) (int len) buf st = read_loop (int len) 0 (int (n + k)) (int len) ?buf st'"
        using n k(3,4) rd pb by (subst read_loop.simps) (simp add: min_def)
      have l1: "length ?buf = len" using k n less.prems by (simp add: min_def)
      have l2: "take (n + k) ?buf = take n buf @ take k (avail st)" using k n less.prems by (simp add: min_def)
      have l3: "len - (n + k) < len - n" "n + k \<le> len" using k n by auto
      have IH: "if length (avail st') < len - (n + k)
        then read_loop (int len) 0 (int (n + k)) (int len) ?buf st' = Throw (cut_off (broken st'))
        else \<exists>st2. read_loop (int len) 0 (int (n + k)) (int len) ?buf st' =
            Ok (take n buf @ take k (avail st) @ take (len - (n + k)) (avail st'), st2) \<and>
          avail st2 = drop (len - (n + k)) (avail st') \<and> broken st2 = broken st'"
        using less.hyps [OF l3 l1, of st'] unfolding l2 append_assoc .
      have cond: "length (avail st') < len - (n + k) \<longleftrightarrow> length (avail st) < len - n" using k by auto
      have len: "len - n = k + (len - (n + k))" using k by simp
      have td: "take k (avail st) @ take (len - (n + k)) (avail st') = take (len - n) (avail st)"
        "drop (len - (n + k)) (avail st') = drop (len - n) (avail st)"
        unfolding k(5) len by (simp_all add: take_add add.commute)
      show ?thesis using IH unfolding cond td k(6) step .
    qed
  qed
qed

lemma io_convert_cut_off [simp]: "io_convert (cut_off br) = cut_off br"
  by (simp add: cut_off_def io_convert_def)

lemma readAllData_law:
  assumes "0 < k" "delivers inp p br"
  shows "if length p < k then readAllData (int k) inp = Throw (cut_off br)
    else \<exists>inp'. readAllData (int k) inp = Ok (take k p, inp') \<and> delivers inp' (drop k p) br"
proof -
  obtain st where st: "is_base inp = Some st" "avail st = p" "broken st = br"
    using assms(2) by (auto simp: delivers_def)
  have "readAllData (int k) inp =
      catch_io (with_base inp (catch_io (read_loop (int k) 0 (int 0) (int k) (replicate k 0) st)))"
    using assms(1) st(1) by (simp add: readAllData_def)
  then show ?thesis
    using read_loop_fill [of 0 k "replicate k 0" st] st
    by (auto simp: with_base_def delivers_def split: if_splits)
qed

section \<open>Values of a fixed size\<close>

lemma fixed_codec:
  assumes k: "0 < k" "\<And>v. length (enc v) = k"
    and put: "\<And>v out. put v out = null_checked out (sink_write (enc v) out)"
    and get: "\<And>inp. get inp = catch_io (rbind (readAllData (int k) inp) (\<lambda>(b, i). Ok (dec b, i)))"
    and dec: "\<And>v. dec (enc v) = v"
  shows "codec (\<lambda>_. True) enc put get"
proof
  fix v out
  assume "is_open out"
  then show "put v out = Ok (appended out (enc v))"
    by (auto simp: put null_checked_def sink_write_def is_open_def appended_def)
next
  fix v inp rest br
  assume "delivers inp (enc v @ rest) br"
  from readAllData_law [OF k(1) this]
  show "\<exists>inp'. get inp = Ok (v, inp') \<and> delivers inp' rest br" by (auto simp: get k(2) dec)
next
  fix v inp p br missing
  assume d: "delivers inp p br" and e: "enc v = p @ missing" "missing \<noteq> []"
  have "length p < k" using e k(2) [of v] by auto
  with readAllData_law [OF k(1) d] show "get inp = Throw (cut_off br)" by (simp add: get)
qed


lemma byte_masks16: "(0xFF00 :: 16 word) = push_bit 8 (mask 8)" "(0x00FF :: 16 word) = mask 8"
  by (simp_all add: mask_eq_exp_minus_1 push_bit_eq_mult)

lemma byte_masks32: "(0xFF000000 :: 32 word) = push_bit 24 (mask 8)" "(0x00FF0000 :: 32 word) = push_bit 16 (mask 8)"
  "(0x0000FF00 :: 32 word) = push_bit 8 (mask 8)" "(0x000000FF :: 32 word) = mask 8"
  by (simp_all add: mask_eq_exp_minus_1 push_bit_eq_mult)

lemma byte_masks64: "(0xFF00000000000000 :: 64 word) = push_bit 56 (mask 8)" "(0x00FF000000000000 :: 64 word) = push_bit 48 (mask 8)"
 "(0x0000FF0000000000 :: 64 word) = push_bit 40 (mask 8)" "(0x000000FF00000000 :: 64 word) = push_bit 32 (mask 8)"
 "(0xFF000000 :: 64 word) = push_bit 24 (mask 8)" "(0x00FF0000 :: 64 word) = push_bit 16 (mask 8)"
  "(0x0000FF00 :: 64 word) = push_bit 8 (mask 8)" "(0x000000FF :: 64 word) = mask 8"
  by (simp_all add: mask_eq_exp_minus_1 push_bit_eq_mult)

lemma byte_of: "n + 8 \<le> LENGTH('a) \<Longrightarrow> (ucast (drop_bit n ((v :: 'a::len word) AND push_bit n (mask 8))) :: 8 word) = ucast (drop_bit n v)"
  by (rule bit_word_eqI) (auto simp: bit_simps)

lemma byte_of0: "8 \<le> LENGTH('a) \<Longrightarrow> (ucast ((v :: 'a::len word) AND mask 8) :: 8 word) = ucast v"
  by (rule bit_word_eqI) (auto simp: bit_simps)

lemma byte_at: "push_bit k (ucast (ucast (drop_bit k (v :: 'a::len word)) :: 8 word)) = v AND push_bit k (mask 8)"
proof (rule bit_word_eqI)
  fix n assume n: "n < LENGTH('a)"
  show "bit (push_bit k (ucast (ucast (drop_bit k v) :: 8 word)) :: 'a word) n = bit (v AND push_bit k (mask 8)) n"
  proof (cases "k \<le> n")
    case True
    then show ?thesis using n by (auto simp: bit_simps)
  qed (simp add: bit_simps)
qed

lemma byte_at0: "(ucast (ucast (v :: 'a::len word) :: 8 word)) = v AND mask 8"
  by (rule bit_word_eqI) (auto simp: bit_simps)

lemma join16: "(ucast (push_bit 8 (ucast (ucast (drop_bit 8 (v::16 word)) :: 8 word) :: 32 word) OR ucast (ucast v :: 8 word)) :: 16 word) = v"
  by (rule bit_word_eqI) (auto simp: bit_simps)

lemma and_top: "(v :: 'a::len word) AND w = v" if "w = - 1" using that by simp

lemma join32: "push_bit 24 (ucast (ucast (drop_bit 24 (v::32 word)) :: 8 word) :: 32 word) OR push_bit 16 (ucast (ucast (drop_bit 16 v) :: 8 word)) OR push_bit 8 (ucast (ucast (drop_bit 8 v) :: 8 word))  OR ucast (ucast v :: 8 word) = v"
  unfolding byte_at unfolding byte_at0 bit.conj_disj_distrib [symmetric]
  by (rule and_top) (simp add: mask_eq_exp_minus_1 push_bit_eq_mult)

lemma join64: "push_bit 56 (ucast (ucast (drop_bit 56 (v::64 word)) :: 8 word) :: 64 word) OR push_bit 48 (ucast (ucast (drop_bit 48 v) :: 8 word)) OR push_bit 40 (ucast (ucast (drop_bit 40 v) :: 8 word)) OR push_bit 32 (ucast (ucast (drop_bit 32 v) :: 8 word))
 OR push_bit 24 (ucast (ucast (drop_bit 24 v) :: 8 word)) OR push_bit 16 (ucast (ucast (drop_bit 16 v) :: 8 word)) OR push_bit 8 (ucast (ucast (drop_bit 8 v) :: 8 word))  OR ucast (ucast v :: 8 word) = v"
  unfolding byte_at unfolding byte_at0 bit.conj_disj_distrib [symmetric]
  by (rule and_top) (simp add: mask_eq_exp_minus_1 push_bit_eq_mult)

lemma byte_and_255: "(ucast (b :: 8 word) :: 64 word) AND 0xFF = ucast b"
  unfolding byte_masks64(8) by (rule bit_word_eqI) (auto simp: bit_simps dest: bit_imp_le_length)

text \<open>The bytes of the integers, most significant first.\<close>

definition bytes16 :: "16 word \<Rightarrow> byte list" where
  "bytes16 v = [ucast (drop_bit 8 v), ucast v]"

definition bytes32 :: "32 word \<Rightarrow> byte list" where
  "bytes32 v = [ucast (drop_bit 24 v), ucast (drop_bit 16 v), ucast (drop_bit 8 v), ucast v]"

definition bytes64 :: "64 word \<Rightarrow> byte list" where
  "bytes64 v = [ucast (drop_bit 56 v), ucast (drop_bit 48 v), ucast (drop_bit 40 v), ucast (drop_bit 32 v),
     ucast (drop_bit 24 v), ucast (drop_bit 16 v), ucast (drop_bit 8 v), ucast v]"

lemma short_bytes16: "short_bytes v = bytes16 v"
  unfolding short_bytes_def bytes16_def byte_masks16 by (simp add: byte_of byte_of0 del: drop_bit_and)

lemma writeInt_bytes32: "writeInt v out = null_checked out (sink_write (bytes32 v) out)"
  unfolding writeInt_def bytes32_def byte_masks32 by (simp add: byte_of byte_of0 del: drop_bit_and)

lemma writeLong_bytes64: "writeLong v out = null_checked out (sink_write (bytes64 v) out)"
  unfolding writeLong_def bytes64_def byte_masks64 by (simp add: byte_of byte_of0 del: drop_bit_and)

lemma char_byte [simp]: "char_of_byte (byte_of_char c) = c"
proof -
  have "unat (word_of_nat (of_char c) :: byte) = (of_char c :: nat)" by (simp add: unat_of_nat)
  then show ?thesis by (simp add: char_of_byte_def byte_of_char_def)
qed

interpretation bool: codec "\<lambda>_. True" "\<lambda>v. [if v then 1 else 0]" writeBoolean readBoolean
  by (rule fixed_codec [where k = 1 and dec = "\<lambda>b. b ! 0 \<noteq> 0"])
    (simp_all add: writeBoolean_def readBoolean_def)

interpretation byte: codec "\<lambda>_. True" "\<lambda>v. [v]" writeByte readByte
  by (rule fixed_codec [where k = 1 and dec = "\<lambda>b. b ! 0"]) (simp_all add: writeByte_def readByte_def)

interpretation ubyte: codec "\<lambda>_. True" "\<lambda>v. [v]" writeByte readUnsignedByte
  by (rule fixed_codec [where k = 1 and dec = "\<lambda>b. b ! 0"]) (simp_all add: writeByte_def readUnsignedByte_def)

interpretation chr: codec "\<lambda>_. True" "\<lambda>v. [byte_of_char v]" writeChar readChar
  by (rule fixed_codec [where k = 1 and dec = "\<lambda>b. char_of_byte (b ! 0)"]) (simp_all add: writeChar_def readChar_def)

lemma join16_bytes: "0 OR ucast (push_bit 8 (ucast (bytes16 v ! 0) :: 32 word) OR ucast (bytes16 v ! 1)) = v"
  using join16 [of v] by (simp add: bytes16_def)

interpretation short: codec "\<lambda>_. True" bytes16 writeShort readShort
  by (rule fixed_codec [where k = 2 and dec = "\<lambda>b. 0 OR ucast (push_bit 8 (ucast (b ! 0) :: 32 word) OR ucast (b ! 1))"])
    (simp_all only: writeShort_def readShort_def short_bytes16 join16_bytes of_nat_numeral, simp_all add: bytes16_def)

interpretation ushort: codec "\<lambda>_. True" bytes16 writeUnsignedShort readUnsignedShort
  by (rule fixed_codec [where k = 2 and dec = "\<lambda>b. 0 OR ucast (push_bit 8 (ucast (b ! 0) :: 32 word) OR ucast (b ! 1))"])
    (simp_all only: writeUnsignedShort_def readUnsignedShort_def short_bytes16 join16_bytes of_nat_numeral, simp_all add: bytes16_def)

interpretation int: codec "\<lambda>_. True" bytes32 writeInt readInt
  by (rule fixed_codec [where k = 4 and dec = "\<lambda>b. 0 OR (push_bit 24 (ucast (b ! 0)) OR push_bit 16 (ucast (b ! 1))
        OR push_bit 8 (ucast (b ! 2)) OR ucast (b ! 3))"])
    (simp_all only: writeInt_bytes32 readInt_def of_nat_numeral, simp_all add: bytes32_def join32)

interpretation long: codec "\<lambda>_. True" bytes64 writeLong readLong
  by (rule fixed_codec [where k = 8 and dec = "\<lambda>b. let byt = (\<lambda>k. ucast (b ! k) AND 0x00000000000000FF :: 64 word) in
        push_bit 56 (byt 0) OR push_bit 48 (byt 1) OR push_bit 40 (byt 2) OR push_bit 32 (byt 3) OR
        push_bit 24 (byt 4) OR push_bit 16 (byt 5) OR push_bit 8 (byt 6) OR byt 7"])
    (simp_all only: writeLong_bytes64 readLong_def of_nat_numeral Let_def, simp_all add: bytes64_def byte_and_255 join64)

lemma catch_io_codec:
  assumes "codec ok enc put get"
  shows "codec ok enc (\<lambda>v out. catch_io (put v out)) (\<lambda>inp. catch_io (get inp))"
  using codec.put_law [OF assms] codec.get_law [OF assms] codec.cut_law [OF assms]
  by unfold_locales simp_all

interpretation float: codec "\<lambda>_. True" bytes32 writeFloat readFloat
  using catch_io_codec [OF int.codec_axioms] by (simp add: writeFloat_def [abs_def] readFloat_def [abs_def])

interpretation double: codec "\<lambda>_. True" bytes64 writeDouble readDouble
  using catch_io_codec [OF long.codec_axioms] by (simp add: writeDouble_def [abs_def] readDouble_def [abs_def])


section \<open>Modified UTF-8\<close>

lemma bitlt8: "bit (b :: 8 word) n \<Longrightarrow> n < 8" using bit_imp_le_length by fastforce

lemma utf_masks: "(0xc0 :: 32 word) = push_bit 6 (mask 2)" "(0x1f :: 32 word) = mask 5" "(0x80 :: 32 word) = push_bit 7 1" "(0x3f :: 32 word) = mask 6"
  "(0xE0 :: 8 word) = push_bit 5 (mask 3)" "(0xC0 :: 8 word) = push_bit 6 (mask 2)" "(0x80 :: 8 word) = push_bit 7 1" "(0x1C :: 8 word) = push_bit 2 (mask 3)"
 "(0x1F :: 8 word) = mask 5" "(0x3F :: 8 word) = mask 6"
  by (simp_all add: mask_eq_exp_minus_1 push_bit_eq_mult)

lemma lt80: "bit (a :: 8 word) 7 \<Longrightarrow> \<not> a < 0x80"
proof
  assume "bit a 7" "a < 0x80"
  then have "uint a < 128" by (simp add: word_less_def)
  then have "uint a div 2 ^ 7 = 0" by (simp add: div_pos_pos_trivial)
  then have "\<not> bit (uint a) 7" by (simp add: bit_iff_odd)
  with \<open>bit a 7\<close> show False by (simp add: bit_uint_iff)
qed

lemma less_8: "n < (8 :: nat) \<Longrightarrow> n = 0 \<or> n = 1 \<or> n = 2 \<or> n = 3 \<or> n = 4 \<or> n = 5 \<or> n = 6 \<or> n = 7" by linarith

lemma two_bytes:
  fixes w a b :: "8 word"
  assumes a: "a = ucast (0xc0 OR (0x1f AND drop_bit 6 (ucast w :: 32 word)))" and b: "b = ucast (0x80 OR (0x3f AND (ucast w :: 32 word)))"
  shows "a AND 0xE0 = 0xC0" "b AND 0xC0 = 0x80" "a AND 0x1C = 0" "bit a 7"
  "(ucast (push_bit 6 (ucast (a AND 0x1F) :: 32 word) OR ucast (b AND 0x3F)) :: 8 word) = w"
proof -
  show "a AND 0xE0 = 0xC0" unfolding a utf_masks by (rule bit_word_eqI) (auto simp: bit_simps dest: bitlt8)
  show "b AND 0xC0 = 0x80" unfolding b by (rule bit_word_eqI) (auto simp: bit_simps bit_numeral_rec dest!: less_8)
  show "a AND 0x1C = 0" unfolding a utf_masks by (rule bit_word_eqI) (auto simp: bit_simps dest: bitlt8)
  show "bit a 7" unfolding a utf_masks by (auto simp: bit_simps)
  have a2: "a AND 0x1F = drop_bit 6 w" unfolding a utf_masks by (rule bit_word_eqI) (auto simp: bit_simps dest: bitlt8)
  have b2: "b AND 0x3F = w AND mask 6"
    unfolding b by (rule bit_word_eqI) (auto simp: bit_simps bit_numeral_rec dest!: less_8)
  show "(ucast (push_bit 6 (ucast (a AND 0x1F) :: 32 word) OR ucast (b AND 0x3F)) :: 8 word) = w"
    unfolding a2 b2 by (rule bit_word_eqI) (auto simp: bit_simps)
qed

lemma of_char_256: "of_char c < (256 :: nat)"
  by (cases c) (simp add: of_char_def)

lemma ucast_up_down: "(ucast (ucast (w :: 8 word) :: 32 word) :: 8 word) = w"
  by (rule bit_word_eqI) (simp add: bit_simps)

lemma utf_char_eq:
  "utf_char c =
     (let w = byte_of_char c; n = of_char c :: nat in
      if 0 < n \<and> n \<le> 127 then [w]
      else [ucast (0xc0 OR (0x1f AND drop_bit 6 (ucast w :: 32 word))), ucast (0x80 OR (0x3f AND (ucast w :: 32 word)))])"
proof -
  have n: "of_char c < (256 :: nat)" by (rule of_char_256)
  have v: "(word_of_nat (of_char c) :: 32 word) = ucast (byte_of_char c)"
    using n by (simp add: byte_of_char_def unsigned_of_nat take_bit_nat_eq_self)
  have u: "unat (word_of_nat (of_char c) :: 32 word) = of_char c"
    using less_trans [OF n, of 4294967296] by (simp add: unat_of_nat)
  have "(word_of_nat (of_char c) :: 32 word) > 0 \<longleftrightarrow> 0 < (of_char c :: nat)"
    "(word_of_nat (of_char c) :: 32 word) \<le> 127 \<longleftrightarrow> of_char c \<le> (127 :: nat)"
    "(word_of_nat (of_char c) :: 32 word) \<le> 2047"
    using u le_trans [OF less_imp_le [OF n], of 2047] by (simp_all add: word_less_nat_alt word_le_nat_alt)
  then show ?thesis unfolding utf_char_def Let_def v by (simp add: ucast_up_down)
qed

lemma utf_decode_char: "utf_decode (utf_char c @ bs) = rbind (utf_decode bs) (\<lambda>r. Ok (byte_of_char c # r))"
proof (cases "0 < (of_char c :: nat) \<and> of_char c \<le> (127 :: nat)")
  case True
  then have "byte_of_char c < 0x80"
    using of_char_256 [of c] by (simp add: byte_of_char_def word_less_nat_alt unat_of_nat)
  then show ?thesis using True by (simp add: utf_char_eq Let_def)
next
  case False
  let ?w = "byte_of_char c"
  let ?a = "ucast (0xc0 OR (0x1f AND drop_bit 6 (ucast ?w :: 32 word))) :: byte"
  let ?b = "ucast (0x80 OR (0x3f AND (ucast ?w :: 32 word))) :: byte"
  note t = two_bytes [where a = ?a and b = ?b, OF refl refl]
  have "utf_char c = [?a, ?b]" using False by (simp only: utf_char_eq Let_def if_False)
  then show ?thesis
    using t(1-3) lt80 [OF t(4)] by (simp only: append_Cons append_Nil utf_decode.simps list.case t(5) if_True if_False simp_thms)
qed

lemma utf_decode_bytes: "utf_decode (utf_bytes s) = Ok (map byte_of_char s)"
  by (induction s) (simp_all add: utf_bytes_def utf_decode_char)

lemma countUTF_bytes: "countUTFLength s = length (utf_bytes s)"
proof -
  have l: "length (utf_char c) = (if 0 < (of_char c :: nat) \<and> of_char c \<le> (127 :: nat) then 1 else 2)" for c
    by (simp add: utf_char_eq Let_def)
  have "foldl (\<lambda>utfCount c. let charValue = of_char c :: nat in
       if charValue > 0 \<and> charValue \<le> 127 then utfCount + 1
       else if charValue \<le> 2047 then utfCount + 2 else utfCount + 3) m s = m + length (utf_bytes s)" for m
  proof (induction s arbitrary: m)
    case (Cons c s)
    have "of_char c \<le> (2047 :: nat)" by (rule le_trans [OF less_imp_le [OF of_char_256]]) simp
    with Cons show ?case by (simp add: utf_bytes_def l Let_def)
  qed (simp add: utf_bytes_def)
  then show ?thesis by (simp add: countUTFLength_def)
qed

lemma utf_bytes_empty: "utf_bytes s = [] \<longleftrightarrow> s = []"
  by (cases s) (auto simp: utf_bytes_def utf_char_eq Let_def)

definition utf_ok :: "string \<Rightarrow> bool" where
  "utf_ok s \<longleftrightarrow> length (utf_bytes s) \<le> 65535"

definition utf_enc :: "string \<Rightarrow> byte list" where
  "utf_enc s = bytes16 (word_of_nat (length (utf_bytes s))) @ utf_bytes s"

lemma readFully2_law:
  assumes "0 < k" "length buf = k" "delivers inp p br"
  shows "if length p < k then readFully2 (Some buf) (int k) inp = Throw (cut_off br)
    else \<exists>inp'. readFully2 (Some buf) (int k) inp = Ok (Some (take k p), inp') \<and> delivers inp' (drop k p) br"
proof -
  obtain st where st: "is_base inp = Some st" "avail st = p" "broken st = br"
    using assms(3) by (auto simp: delivers_def)
  have "readFully (Some buf) (int k) 0 (int k) inp =
      with_base inp (rbind (read_loop (int k) 0 (int 0) (int k) buf st) (\<lambda>(b, st'). Ok (Some b, st')))"
    using assms(1) st(1) by (simp add: readFully_def)
  then show ?thesis
    using read_loop_fill [of 0 k buf st] st assms(1,2)
    by (auto simp: readFully2_def with_base_def delivers_def cut_off_def io_convert_def split: if_splits)
qed

lemma write_array:
  "is_open out \<Longrightarrow> doWriteArrayBounded (Some d) (int (length d)) 0 (int (length d)) out = Ok (appended out d)"
  by (auto simp: doWriteArrayBounded_def FilterOutputStream_isClosed_def is_open_def sink_write_def appended_def)

interpretation utf: codec utf_ok utf_enc writeUTF readUTF
proof
  fix v out
  assume v: "utf_ok v" and out: "is_open out"
  have "writeUnsignedShort (word_of_nat (length (utf_bytes v))) out =
      Ok (appended out (bytes16 (word_of_nat (length (utf_bytes v)))))"
    by (rule ushort.put_law [OF TrueI out])
  then show "writeUTF v out = Ok (appended out (utf_enc v))"
    using v out write_array [OF is_open_appended [OF out], of "utf_bytes v"]
    by (auto simp: writeUTF_def countUTF_bytes utf_ok_def utf_enc_def Let_def)
next
  fix v inp rest br
  assume v: "utf_ok v" and d: "delivers inp (utf_enc v @ rest) br"
  let ?n = "length (utf_bytes v)"
  have n: "unat (word_of_nat ?n :: 16 word) = ?n" using v by (simp add: utf_ok_def unat_of_nat)
  then have z: "(word_of_nat ?n :: 16 word) = 0 \<longleftrightarrow> ?n = 0" by (metis unat_eq_zero)
  obtain st where b: "is_base inp = Some st" using d by (auto simp: delivers_def)
  obtain inp1 where i1: "readUnsignedShort inp = Ok (word_of_nat ?n, inp1)" "delivers inp1 (utf_bytes v @ rest) br"
    using ushort.get_law [OF TrueI] d unfolding utf_enc_def append_assoc by blast
  show "\<exists>inp'. readUTF inp = Ok (v, inp') \<and> delivers inp' rest br"
  proof (cases "?n = 0")
    case True
    then show ?thesis using i1 b utf_bytes_empty [of v] by (auto simp: readUTF_def)
  next
    case False
    obtain inp2 where i2: "readFully2 (Some (replicate ?n 0)) (int ?n) inp1 = Ok (Some (utf_bytes v), inp2)"
      "delivers inp2 rest br"
      using readFully2_law [of ?n "replicate ?n 0" inp1 "utf_bytes v @ rest" br] i1(2) False by auto
    moreover have "(word_of_nat ?n :: 16 word) \<noteq> 0" using z False by (simp only: simp_thms)
    ultimately show ?thesis
      using i1 b n by (simp add: readUTF_def utf_decode_bytes comp_def)
  qed
next
  fix v inp p br missing
  assume v: "utf_ok v" and d: "delivers inp p br" and e: "utf_enc v = p @ missing" "missing \<noteq> []"
  let ?n = "length (utf_bytes v)"
  have n: "unat (word_of_nat ?n :: 16 word) = ?n" using v by (simp add: utf_ok_def unat_of_nat)
  obtain st where b: "is_base inp = Some st" using d by (auto simp: delivers_def)
  from ushort.get_or_cut [OF TrueI d e(1) [unfolded utf_enc_def]]
  show "readUTF inp = Throw (cut_off br)"
  proof (elim disjE exE conjE)
    assume "readUnsignedShort inp = Throw (cut_off br)"
    then show ?thesis using b by (simp add: readUTF_def)
  next
    fix inp1 q
    assume q: "readUnsignedShort inp = Ok (word_of_nat ?n, inp1)" "p = bytes16 (word_of_nat ?n) @ q" "delivers inp1 q br"
    have l: "length q < ?n" using e q(2) by (auto simp: utf_enc_def)
    then have "(word_of_nat ?n :: 16 word) \<noteq> 0" using n by (metis gr_implies_not0 unat_0)
    moreover have "readFully2 (Some (replicate ?n 0)) (int ?n) inp1 = Throw (cut_off br)"
      using readFully2_law [of ?n "replicate ?n 0" inp1 q br, OF less_le_trans [OF le_less_trans [OF le0 l] order_refl] _ q(3)] l
      by simp
    ultimately show ?thesis using q(1) b n by (simp add: readUTF_def)
  qed
qed

section \<open>Records of fields\<close>

datatype field =
    FBoolean bool | FByte byte | FChar char | FShort "16 word" | FUnsignedShort "16 word" | FInt "32 word"
  | FLong "64 word" | FFloat "32 word" | FDouble "64 word" | FUTF string

datatype field_type =
    TBoolean | TByte | TChar | TShort | TUnsignedShort | TInt | TLong | TFloat | TDouble | TUTF

fun type_of :: "field \<Rightarrow> field_type" where
  "type_of (FBoolean _) = TBoolean" | "type_of (FByte _) = TByte" | "type_of (FChar _) = TChar"
| "type_of (FShort _) = TShort" | "type_of (FUnsignedShort _) = TUnsignedShort" | "type_of (FInt _) = TInt"
| "type_of (FLong _) = TLong" | "type_of (FFloat _) = TFloat" | "type_of (FDouble _) = TDouble" | "type_of (FUTF _) = TUTF"

fun field_ok :: "field \<Rightarrow> bool" where
  "field_ok (FUTF s) = utf_ok s" | "field_ok _ = True"

fun field_enc :: "field \<Rightarrow> byte list" where
  "field_enc (FBoolean b) = [if b then 1 else 0]" | "field_enc (FByte b) = [b]" | "field_enc (FChar c) = [byte_of_char c]"
| "field_enc (FShort v) = bytes16 v" | "field_enc (FUnsignedShort v) = bytes16 v" | "field_enc (FInt v) = bytes32 v"
| "field_enc (FLong v) = bytes64 v" | "field_enc (FFloat v) = bytes32 v" | "field_enc (FDouble v) = bytes64 v"
| "field_enc (FUTF s) = utf_enc s"

fun put_field :: "field \<Rightarrow> data_output \<Rightarrow> data_output result" where
  "put_field (FBoolean b) = writeBoolean b" | "put_field (FByte b) = writeByte b" | "put_field (FChar c) = writeChar c"
| "put_field (FShort v) = writeShort v" | "put_field (FUnsignedShort v) = writeUnsignedShort v" | "put_field (FInt v) = writeInt v"
| "put_field (FLong v) = writeLong v" | "put_field (FFloat v) = writeFloat v" | "put_field (FDouble v) = writeDouble v"
| "put_field (FUTF s) = writeUTF s"

definition as_field :: "('v \<Rightarrow> field) \<Rightarrow> ('v \<times> data_input) result \<Rightarrow> (field \<times> data_input) result" where
  "as_field con r = rbind r (\<lambda>(v, inp). Ok (con v, inp))"

fun get_field :: "field_type \<Rightarrow> data_input \<Rightarrow> (field \<times> data_input) result" where
  "get_field TBoolean inp = as_field FBoolean (readBoolean inp)" | "get_field TByte inp = as_field FByte (readByte inp)"
| "get_field TChar inp = as_field FChar (readChar inp)" | "get_field TShort inp = as_field FShort (readShort inp)"
| "get_field TUnsignedShort inp = as_field FUnsignedShort (readUnsignedShort inp)" | "get_field TInt inp = as_field FInt (readInt inp)"
| "get_field TLong inp = as_field FLong (readLong inp)" | "get_field TFloat inp = as_field FFloat (readFloat inp)"
| "get_field TDouble inp = as_field FDouble (readDouble inp)" | "get_field TUTF inp = as_field FUTF (readUTF inp)"

fun put_fields :: "field list \<Rightarrow> data_output \<Rightarrow> data_output result" where
  "put_fields [] out = Ok out"
| "put_fields (f # fs) out = rbind (put_field f out) (put_fields fs)"

fun get_fields :: "field_type list \<Rightarrow> data_input \<Rightarrow> (field list \<times> data_input) result" where
  "get_fields [] inp = Ok ([], inp)"
| "get_fields (t # ts) inp =
     rbind (get_field t inp) (\<lambda>(f, inp'). rbind (get_fields ts inp') (\<lambda>(fs, inp''). Ok (f # fs, inp'')))"

definition fields_enc :: "field list \<Rightarrow> byte list" where
  "fields_enc fs = concat (map field_enc fs)"

lemma put_field_law: "field_ok f \<Longrightarrow> is_open out \<Longrightarrow> put_field f out = Ok (appended out (field_enc f))"
  by (cases f) (simp_all add: bool.put_law byte.put_law chr.put_law short.put_law ushort.put_law int.put_law
      long.put_law float.put_law double.put_law utf.put_law)

lemmas get_or_cuts = bool.get_or_cut byte.get_or_cut chr.get_or_cut short.get_or_cut ushort.get_or_cut
  int.get_or_cut long.get_or_cut float.get_or_cut double.get_or_cut utf.get_or_cut

lemma get_field_law:
  assumes "field_ok f" "delivers inp p br" "field_enc f @ rest = p @ missing"
  shows "(\<exists>inp' q. get_field (type_of f) inp = Ok (f, inp') \<and> p = field_enc f @ q \<and> delivers inp' q br) \<or>
    (get_field (type_of f) inp = Throw (cut_off br) \<and> length p < length (field_enc f))"
  using assms
  by (cases f; simp only: field_enc.simps type_of.simps get_field.simps field_ok.simps)
    (drule get_or_cuts [OF _ assms(2), rotated], simp, fastforce simp: as_field_def)+

lemma put_fields_law:
  "\<forall>f \<in> set fs. field_ok f \<Longrightarrow> is_open out \<Longrightarrow> put_fields fs out = Ok (appended out (fields_enc fs))"
  by (induction fs arbitrary: out) (simp_all add: put_field_law fields_enc_def)

lemma get_fields_law:
  assumes "\<forall>f \<in> set fs. field_ok f" "delivers inp p br" "fields_enc fs @ rest = p @ missing"
  shows "(\<exists>inp' q. get_fields (map type_of fs) inp = Ok (fs, inp') \<and> p = fields_enc fs @ q \<and> delivers inp' q br) \<or>
    (get_fields (map type_of fs) inp = Throw (cut_off br) \<and> length p < length (fields_enc fs))"
  using assms
proof (induction fs arbitrary: inp p)
  case (Cons f fs)
  have f: "field_ok f" "field_enc f @ (fields_enc fs @ rest) = p @ missing"
    using Cons.prems by (simp_all add: fields_enc_def)
  from get_field_law [OF f(1) Cons.prems(2) f(2)] show ?case
  proof (elim disjE exE conjE)
    fix inp1 q
    assume q: "get_field (type_of f) inp = Ok (f, inp1)" "p = field_enc f @ q" "delivers inp1 q br"
    have "fields_enc fs @ rest = q @ missing" using f(2) q(2) by simp
    from Cons.IH [OF _ q(3) this] Cons.prems(1) q(1,2) show ?thesis by (auto simp: fields_enc_def)
  qed (auto simp: fields_enc_def)
qed (simp add: fields_enc_def)

text \<open>
  \<^bold>\<open>C8.\<close> Writing and reading back: any record of booleans, bytes, characters, integers, floating point
  numbers and strings of at most 65535 encoded bytes, written to an open stream, appends exactly its
  big-endian encoding and advances the counter by its length; reading the same types from any stream
  that delivers these bytes, in blocks of any sizes, gives the record and leaves what follows.
\<close>

theorem data_roundtrip:
  assumes "\<forall>f \<in> set fs. field_ok f" "is_open out" "delivers inp (fields_enc fs @ rest) br"
  shows "put_fields fs out = Ok (appended out (fields_enc fs)) \<and>
    (\<exists>inp'. get_fields (map type_of fs) inp = Ok (fs, inp') \<and> delivers inp' rest br)"
  using put_fields_law [OF assms(1,2)] get_fields_law [OF assms(1,3), of rest "[]"] by auto

definition new_output :: data_output where
  "new_output = \<lparr>os_sink = Some [], os_closed = False, written = 0\<rparr>"

theorem data_roundtrip_witness:
  "\<exists>inp'. get_fields [TShort, TUTF] \<lparr>is_base = Some [Data [255], Data [254, 0, 3, 65], Data [195, 169, 7]], is_pushback = False\<rparr> =
     Ok ([FShort (- 2), FUTF [CHR ''A'', CHR 0xE9]], inp') \<and> delivers inp' [7] False"
proof -
  let ?fs = "[FShort (- 2), FUTF [CHR ''A'', CHR 0xE9]]"
  have u: "utf_bytes [CHR ''A'', CHR 0xE9] = [65, 195, 169]" by (simp add: utf_bytes_def utf_char_def)
  have e: "fields_enc ?fs @ [7] = [255, 254, 0, 3, 65, 195, 169, 7]"
    by (simp add: fields_enc_def utf_enc_def u bytes16_def)
  have "delivers \<lparr>is_base = Some [Data [255], Data [254, 0, 3, 65], Data [195, 169, 7]], is_pushback = False\<rparr> (fields_enc ?fs @ [7]) False"
    unfolding e by (simp add: delivers_def broken_def)
  from data_roundtrip [OF _ _ this, of new_output] show ?thesis
    by (simp add: utf_ok_def u is_open_def new_output_def)
qed

text \<open>
  \<^bold>\<open>C27.\<close> Truncation: when the stream ends inside the record the reader throws \<open>EOFException\<close>, when the
  connection breaks inside it an \<open>IOException\<close>, wherever the cut is; no shortened value is returned.
\<close>

theorem data_truncated:
  assumes "\<forall>f \<in> set fs. field_ok f" "delivers inp p br" "fields_enc fs = p @ missing" "missing \<noteq> []"
  shows "get_fields (map type_of fs) inp = Throw (if br then IOException else EOFException)"
  using get_fields_law [OF assms(1,2), of "[]" missing] assms(3,4) by (auto simp: cut_off_def)

theorem data_truncated_witness:
  "get_fields [TInt, TLong] \<lparr>is_base = Some [Data [0, 0, 0, 1, 9], Broken], is_pushback = False\<rparr> = Throw IOException"
  using data_truncated [of "[FInt 1, FLong 0x0900000000000000]"
      "\<lparr>is_base = Some [Data [0, 0, 0, 1, 9], Broken], is_pushback = False\<rparr>" "[0, 0, 0, 1, 9]" True "[0, 0, 0, 0, 0, 0, 0]"]
  by (simp add: delivers_def broken_def fields_enc_def bytes32_def bytes64_def)

section \<open>Any input\<close>

text \<open>A reader that, on a stream that is there, returns or throws an I/O exception, and keeps the stream.\<close>

definition io_safe :: "('v \<times> data_input) result \<Rightarrow> bool" where
  "io_safe r \<longleftrightarrow> (case r of
     Inl e \<Rightarrow> e \<in> {IOException, EOFException, UTFDataFormatException}
   | Inr (_, inp) \<Rightarrow> is_base inp \<noteq> None)"

lemma io_safe_bind:
  assumes "io_safe r" "\<And>v inp. r = Ok (v, inp) \<Longrightarrow> is_base inp \<noteq> None \<Longrightarrow> io_safe (f v inp)"
  shows "io_safe (rbind r (\<lambda>(v, inp). f v inp))"
  using assms by (cases r) (auto simp: io_safe_def)

lemma io_safe_catch: "io_safe r \<Longrightarrow> io_safe (catch_io r)"
  by (cases r) (auto simp: io_safe_def io_convert_def)

lemma io_safe_cut_off [simp]: "io_safe (Throw (cut_off br))"
  by (simp add: io_safe_def cut_off_def)

lemma io_safe_readAllData: "0 < k \<Longrightarrow> is_base inp \<noteq> None \<Longrightarrow> io_safe (readAllData (int k) inp)"
proof -
  assume k: "0 < k" and "is_base inp \<noteq> None"
  then obtain st where "is_base inp = Some st" by blast
  then have "delivers inp (avail st) (broken st)" by (simp add: delivers_def)
  from readAllData_law [OF k this] show ?thesis by (auto simp: io_safe_def delivers_def cut_off_def split: if_splits)
qed

lemma io_safe_readers:
  assumes "is_base inp \<noteq> None"
  shows "io_safe (readBoolean inp)" "io_safe (readByte inp)" "io_safe (readChar inp)" "io_safe (readShort inp)"
    "io_safe (readUnsignedShort inp)" "io_safe (readInt inp)" "io_safe (readLong inp)" "io_safe (readFloat inp)"
    "io_safe (readDouble inp)"
  using io_safe_readAllData [of 1, OF _ assms] io_safe_readAllData [of 2, OF _ assms]
    io_safe_readAllData [of 4, OF _ assms] io_safe_readAllData [of 8, OF _ assms]
  unfolding readBoolean_def readByte_def readChar_def readShort_def readUnsignedShort_def readInt_def readLong_def
    readFloat_def readDouble_def
  by (auto intro!: io_safe_catch io_safe_bind simp: io_safe_def [of "Inr _"])

lemma utf_decode_throws: "utf_decode bs = Throw e \<Longrightarrow> e = UTFDataFormatException"
proof (induction bs arbitrary: e rule: utf_decode.induct)
  case (2 a bs)
  show ?case
  proof (cases "a < 0x80")
    case True
    with 2 show ?thesis by (cases "utf_decode bs") auto
  next
    case False
    then show ?thesis
      using "2.IH"(2) "2.prems" by (auto simp: rbind_def split: if_splits list.splits sum.splits)
  qed
qed simp

lemma io_safe_readUTF: "is_base inp \<noteq> None \<Longrightarrow> io_safe (readUTF inp)"
proof -
  assume b: "is_base inp \<noteq> None"
  have "io_safe (if n = 0 then Ok ([], i)
      else rbind (readFully2 (Some (replicate (unat n) 0)) (int (unat n)) i) (\<lambda>(buffer, i').
           rbind (utf_decode (the buffer)) (\<lambda>r. Ok (map char_of_byte r, i'))))"
    if "is_base i \<noteq> None" for n :: "16 word" and i
  proof (cases "n = 0")
    case True
    then show ?thesis using that by (simp add: io_safe_def)
  next
    case False
    then have n: "0 < unat n" by (simp add: unat_gt_0)
    from \<open>is_base i \<noteq> None\<close> obtain st where "is_base i = Some st" by blast
    then have "delivers i (avail st) (broken st)" by (simp add: delivers_def)
    from readFully2_law [OF n length_replicate this, of 0]
    have "io_safe (readFully2 (Some (replicate (unat n) 0)) (int (unat n)) i)"
      by (auto simp: io_safe_def delivers_def cut_off_def split: if_splits)
    moreover have "io_safe (rbind (utf_decode (the buffer)) (\<lambda>r. Ok (map char_of_byte r, i')))"
      if "is_base i' \<noteq> None" for buffer i'
      using utf_decode_throws [of "the buffer"] that by (cases "utf_decode (the buffer)") (auto simp: io_safe_def)
    ultimately show ?thesis using False by (auto intro!: io_safe_bind)
  qed
  with b show ?thesis
    unfolding readUTF_def by (auto intro!: io_safe_catch io_safe_bind io_safe_readers(5) simp del: if_split_asm)
qed

lemma as_field_safe:
  "io_safe r \<Longrightarrow> io_safe (as_field con r)" "as_field con r = Ok (f, i) \<Longrightarrow> \<exists>v. f = con v"
  unfolding as_field_def by (cases r; auto simp: io_safe_def)+

lemma get_field_safe:
  assumes "is_base inp \<noteq> None"
  shows "io_safe (get_field t inp)"
  using io_safe_readers [OF assms] io_safe_readUTF [OF assms]
  by (cases t) (simp_all add: as_field_safe(1))

lemma get_field_type: "get_field t inp = Ok (f, i) \<Longrightarrow> type_of f = t"
  by (cases t) (auto dest!: as_field_safe(2))

text \<open>
  \<^bold>\<open>C28.\<close> Whatever bytes arrive, reading any sequence of types ends: it returns values, or throws
  \<open>EOFException\<close>, \<open>UTFDataFormatException\<close> or \<open>IOException\<close>, and never touches memory outside its
  buffers; malformed UTF-8 lengths and sequences included.
\<close>

theorem data_reads_safe:
  assumes "is_base inp \<noteq> None"
  shows "(\<exists>fs inp'. get_fields ts inp = Ok (fs, inp') \<and> map type_of fs = ts) \<or>
    (\<exists>e \<in> {IOException, EOFException, UTFDataFormatException}. get_fields ts inp = Throw e)"
proof -
  have "io_safe (get_fields ts inp) \<and> (\<forall>fs i'. get_fields ts inp = Ok (fs, i') \<longrightarrow> map type_of fs = ts)"
    using assms
  proof (induction ts arbitrary: inp)
    case (Cons t ts)
    note o = get_field_safe [OF Cons.prems, of t]
    show ?case
    proof (cases "get_field t inp")
      case (Inl e)
      then show ?thesis using o by (simp add: io_safe_def)
    next
      case (Inr r)
      obtain f i where r: "r = (f, i)" by (cases r)
      then have i: "is_base i \<noteq> None" "type_of f = t" using o Inr get_field_type by (auto simp: io_safe_def)
      from Cons.IH [OF i(1)] show ?thesis
        using Inr r i(2) by (cases "get_fields ts i") (auto simp: io_safe_def)
    qed
  qed (simp add: io_safe_def)
  then show ?thesis by (cases "get_fields ts inp") (auto simp: io_safe_def)
qed

theorem data_reads_safe_witness:
  "get_fields [TUTF] \<lparr>is_base = Some [Data [0, 2], Data [200, 65, 1]], is_pushback = False\<rparr> = Throw UTFDataFormatException"
proof -
  let ?inp = "\<lparr>is_base = Some [Data [0, 2], Data [200, 65, 1]], is_pushback = False\<rparr>"
  have "get_fields [TUTF] ?inp = Throw UTFDataFormatException"
    by (simp add: as_field_def readUTF_def readUnsignedShort_def readAllData_def read_loop.simps base_read_def put_bytes_def
        with_base_def readFully2_def readFully_def io_convert_def)
  with data_reads_safe [of ?inp "[TUTF]"] show ?thesis by simp
qed

section \<open>C strings\<close>

lemma string_loop_step:
  assumes "avail st \<noteq> []"
  obtains st' where "avail st' = tl (avail st)" "broken st' = broken st"
    "string_loop acc st = (if hd (avail st) = 0 then Ok (acc, st') else string_loop (acc @ [hd (avail st)]) st')"
proof -
  obtain k st' where k: "0 < k" "k \<le> 1" "take_block 1 st = Ok (Some (take k (avail st), st'))"
    "avail st' = drop k (avail st)" "broken st' = broken st"
    using take_block_spec(2) [OF _ assms, of 1] by auto
  then have "k = 1" by simp
  moreover have "string_loop acc st = (if hd (avail st) = 0 then Ok (acc, st') else string_loop (acc @ [hd (avail st)]) st')"
    using k(3) \<open>k = 1\<close> assms by (subst string_loop.simps) (simp add: take_Suc)
  ultimately show thesis using that [of st'] k(4,5) by (simp add: drop_Suc)
qed

lemma string_loop_read:
  assumes "0 \<notin> set bs" "avail st = bs @ rest"
  shows "rest \<noteq> [] \<Longrightarrow> hd rest = 0 \<Longrightarrow>
      \<exists>st'. string_loop acc st = Ok (acc @ bs, st') \<and> avail st' = tl rest \<and> broken st' = broken st"
    "rest = [] \<Longrightarrow> string_loop acc st = Throw (cut_off (broken st))"
proof -
  show "rest \<noteq> [] \<Longrightarrow> hd rest = 0 \<Longrightarrow>
      \<exists>st'. string_loop acc st = Ok (acc @ bs, st') \<and> avail st' = tl rest \<and> broken st' = broken st"
    using assms
  proof (induction bs arbitrary: st acc)
    case Nil
    then have "avail st \<noteq> []" "hd (avail st) = 0" "tl (avail st) = tl rest" by simp_all
    then show ?case using string_loop_step [of st acc] by (metis append_Nil2)
  next
    case (Cons b bs)
    then have a: "avail st \<noteq> []" "hd (avail st) = b" "tl (avail st) = bs @ rest" "b \<noteq> 0" by simp_all
    obtain st' where st': "avail st' = bs @ rest" "broken st' = broken st" "string_loop acc st = string_loop (acc @ [b]) st'"
      using string_loop_step [OF a(1), of acc] a by metis
    from Cons.IH [OF Cons.prems(1,2) _ st'(1), of "acc @ [b]"] Cons.prems(3) st'(2,3) show ?case by simp
  qed
  show "rest = [] \<Longrightarrow> string_loop acc st = Throw (cut_off (broken st))"
    using assms
  proof (induction bs arbitrary: st acc)
    case Nil
    then have "take_block 1 st = (if broken st then Throw IOException else Ok None)"
      using take_block_spec(1) [of 1 st] by simp
    then show ?case by (subst string_loop.simps) (simp add: cut_off_def)
  next
    case (Cons b bs)
    then have a: "avail st \<noteq> []" "hd (avail st) = b" "tl (avail st) = bs @ rest" "b \<noteq> 0" by simp_all
    obtain st' where st': "avail st' = bs @ rest" "broken st' = broken st" "string_loop acc st = string_loop (acc @ [b]) st'"
      using string_loop_step [OF a(1), of acc] a by metis
    from Cons.IH [OF Cons.prems(1) _ st'(1), of "acc @ [b]"] Cons.prems(2) st'(2,3) show ?case by simp
  qed
qed

definition cstring_ok :: "string \<Rightarrow> bool" where
  "cstring_ok s \<longleftrightarrow> s \<noteq> [] \<and> CHR 0x00 \<notin> set s"

lemma byte_of_char_eq_0: "byte_of_char c = 0 \<longleftrightarrow> c = CHR 0x00"
proof
  assume "byte_of_char c = 0"
  then have "char_of_byte (byte_of_char c) = char_of (0 :: nat)" by (simp add: char_of_byte_def)
  then show "c = CHR 0x00" by (simp add: char_of_def)
qed (simp add: byte_of_char_def)

interpretation cstr: codec cstring_ok "\<lambda>s. string_bytes s @ [0]" writeChars readString
proof
  fix v out
  assume "cstring_ok v" "is_open out"
  then show "writeChars v out = Ok (appended out (string_bytes v @ [0]))"
    using write_array [of out "string_bytes v @ [0]"]
    by (simp add: writeChars_def cstring_ok_def string_bytes_def add.commute)
next
  fix v inp rest br
  assume v: "cstring_ok v" and d: "delivers inp ((string_bytes v @ [0]) @ rest) br"
  then obtain st where st: "is_base inp = Some st" "avail st = string_bytes v @ (0 # rest)" "broken st = br"
    by (auto simp: delivers_def)
  have "0 \<notin> set (string_bytes v)"
    using v by (metis (no_types) byte_of_char_eq_0 cstring_ok_def image_iff list.set_map string_bytes_def)
  from string_loop_read(1) [OF this st(2), of "[]"] show "\<exists>inp'. readString inp = Ok (v, inp') \<and> delivers inp' rest br"
    using st by (auto simp: readString_def with_base_def delivers_def string_bytes_def comp_def)
next
  fix v inp p br missing
  assume v: "cstring_ok v" and d: "delivers inp p br" and e: "string_bytes v @ [0] = p @ missing" "missing \<noteq> []"
  then obtain st where st: "is_base inp = Some st" "avail st = p @ []" "broken st = br"
    by (auto simp: delivers_def)
  have "set p \<subseteq> set (string_bytes v)" using e by (cases missing rule: rev_cases) auto
  moreover have "0 \<notin> set (string_bytes v)"
    using v by (metis (no_types) byte_of_char_eq_0 cstring_ok_def image_iff list.set_map string_bytes_def)
  ultimately have "0 \<notin> set p" by blast
  from string_loop_read(2) [OF this st(2), of "[]"] show "readString inp = Throw (cut_off br)"
    using st by (simp add: readString_def with_base_def)
qed

text \<open>
  A C string without NUL that is not empty is read back by \<open>readString\<close> as \<open>writeChars\<close> wrote
  it; the empty one is not written at all, so that reading it back consumes the value that follows.
\<close>

lemma cstring_roundtrip:
  assumes "CHR 0x00 \<notin> set s" "is_open out" "t \<noteq> []" "CHR 0x00 \<notin> set t"
    "delivers inp (drop (length (the (os_sink out))) (the (os_sink out2)) @ rest) br"
    "rbind (writeChars s out) (writeChars t) = Ok out2"
  shows "\<exists>inp'. readString inp = Ok (if s = [] then t else s, inp') \<and>
    delivers inp' ((if s = [] then [] else string_bytes t @ [0]) @ rest) br"
proof -
  obtain bs where bs: "os_sink out = Some bs" using assms(2) by (auto simp: is_open_def)
  have t: "cstring_ok t" using assms(3,4) by (simp add: cstring_ok_def)
  show ?thesis
  proof (cases "s = []")
    case True
    then have "out2 = appended out (string_bytes t @ [0])"
      using assms(6) cstr.put_law [OF t assms(2)] by (simp add: writeChars_def [of "[]"])
    then have "delivers inp ((string_bytes t @ [0]) @ rest) br" using assms(5) bs by (simp add: appended_def)
    from cstr.get_law [OF t this] show ?thesis using True by simp
  next
    case False
    then have s: "cstring_ok s" using assms(1) by (simp add: cstring_ok_def)
    have "out2 = appended out ((string_bytes s @ [0]) @ string_bytes t @ [0])"
      using assms(6) cstr.put_law [OF s assms(2)] cstr.put_law [OF t is_open_appended [OF assms(2)]] by simp
    then have "delivers inp ((string_bytes s @ [0]) @ ((string_bytes t @ [0]) @ rest)) br"
      using assms(5) bs by (simp add: appended_def)
    from cstr.get_law [OF s this] show ?thesis using False by simp
  qed
qed

lemma cstring_roundtrip_witness:
  "\<exists>inp'. readString \<lparr>is_base = Some [Data [104, 105], Data [0]], is_pushback = False\<rparr> = Ok (''hi'', inp')"
  using cstring_roundtrip [of "[]" new_output "''hi''" "\<lparr>is_base = Some [Data [104, 105], Data [0]], is_pushback = False\<rparr>"
      "appended new_output [104, 105, 0]" "[]" False]
    cstr.put_law [of "''hi''" new_output]
  by (auto simp: writeChars_def [of "[]"] cstring_ok_def is_open_def new_output_def delivers_def broken_def appended_def
      string_bytes_def byte_of_char_def)

section \<open>Bounds\<close>

text \<open>
  The bounded \<open>readFully\<close> passes the number of bytes to read as the size of the buffer: with a
  positive offset it throws \<open>IndexOutOfBoundsException\<close> whatever the stream delivers, even when the
  buffer has room and the bytes are there.
\<close>

theorem readFully_offset_fails:
  assumes "0 < offset" "0 < len" "offset + len \<le> sz" "int (length buf) = sz" "is_base inp \<noteq> None"
  shows "readFully (Some buf) sz offset len inp = Throw IndexOutOfBoundsException"
  using assms by (auto simp: readFully_def read_loop.simps [of len offset 0] base_read_def with_base_def)

theorem readFully_offset_fails_witness:
  "readFully (Some [0, 0, 0, 0]) 4 2 2 \<lparr>is_base = Some [Data [1, 2]], is_pushback = False\<rparr> = Throw IndexOutOfBoundsException"
  using readFully_offset_fails [of 2 2 4 "[0, 0, 0, 0]" "\<lparr>is_base = Some [Data [1, 2]], is_pushback = False\<rparr>"] by simp

section \<open>Skipping\<close>

text \<open>What one \<open>skip\<close> may do: fail on a broken stream, or skip some bytes, none only at its end.\<close>

definition skipped_some :: "int \<Rightarrow> int \<Rightarrow> instream \<Rightarrow> (int \<times> instream) result \<Rightarrow> bool" where
  "skipped_some num skipped st r \<longleftrightarrow>
     (r = Throw IOException \<and> broken st \<and> int (length (avail st)) < num - skipped) \<or>
     (\<exists>k st'. r = Ok (skipped + int k, st') \<and> int k \<le> num - skipped \<and> k \<le> length (avail st) \<and>
        avail st' = drop k (avail st) \<and> broken st' = broken st \<and> (k = 0 \<longrightarrow> avail st = [] \<and> \<not> broken st))"

lemma skip_loop_spec:
  assumes "0 < toRead" "toRead \<le> num - skipped"
  shows "skipped_some num skipped st (skip_loop toRead num skipped st)"
  using assms
proof (induction "nat (num - skipped)" arbitrary: toRead skipped st rule: less_induct)
  case less
  have lt: "skipped < num" and rd: "base_read toRead 0 toRead st = take_block (nat toRead) st"
    using less.prems by (simp_all add: base_read_def)
  have pos: "0 < nat toRead" using less.prems by simp
  show ?case
  proof (cases "avail st = []")
    case True
    then show ?thesis
      using take_block_spec(1) [OF pos True] lt rd
      by (subst skip_loop.simps) (auto simp: skipped_some_def intro: exI [of _ 0])
  next
    case False
    obtain k st' where k: "0 < k" "k \<le> nat toRead" "k \<le> length (avail st)"
      "take_block (nat toRead) st = Ok (Some (take k (avail st), st'))" "avail st' = drop k (avail st)" "broken st' = broken st"
      using take_block_spec(2) [OF pos False] by blast
    let ?s = "skipped + int k"
    let ?t = "if num - ?s < toRead then num - ?s else toRead"
    have step: "skip_loop toRead num skipped st = (if int k < toRead then Ok (?s, st') else skip_loop ?t num ?s st')"
      using lt rd k(3,4) less.prems by (subst skip_loop.simps) (simp add: min_def Let_def)
    show ?thesis
    proof (cases "int k < toRead \<or> num \<le> ?s")
      case True
      then have "skip_loop toRead num skipped st = Ok (?s, st')"
        by (cases "int k < toRead") (simp_all add: step skip_loop.simps [of ?t num ?s])
      then show ?thesis using k less.prems by (auto simp: skipped_some_def)
    next
      case f: False
      then have "skipped_some num ?s st' (skip_loop ?t num ?s st')"
        using less.hyps [of ?s ?t st'] k(1) lt less.prems by simp
      moreover have "skip_loop toRead num skipped st = skip_loop ?t num ?s st'" using f step by simp
      ultimately show ?thesis
        using k less.prems f unfolding skipped_some_def
        by (auto simp: add.commute algebra_simps intro!: exI [of _ "k + _"])
    qed
  qed
qed

lemma base_skip_spec:
  assumes "0 < num"
  shows "skipped_some num 0 st (base_skip num st)"
  using skip_loop_spec [of "if num < 4096 then num else 4096" num 0 st] assms
  by (auto simp: base_skip_def skipped_some_def io_convert_def split: if_splits)

lemma skip_bytes_spec:
  assumes "0 \<le> n" "n \<le> num" "num - n = int m"
  shows "if m \<le> length (avail st)
    then \<exists>st'. skip_bytes_loop n num st = Ok (num, st') \<and> avail st' = drop m (avail st) \<and> broken st' = broken st
    else if broken st then skip_bytes_loop n num st = Throw IOException
    else \<exists>st'. skip_bytes_loop n num st = Ok (n + int (length (avail st)), st') \<and> avail st' = [] \<and> broken st' = broken st"
  using assms
proof (induction m arbitrary: n st rule: less_induct)
  case (less m)
  show ?case
  proof (cases "m = 0")
    case True
    then show ?thesis using less.prems by (simp add: skip_bytes_loop.simps)
  next
    case False
    have sp: "skipped_some (num - n) 0 st (base_skip (num - n) st)"
      by (rule base_skip_spec) (use less.prems False in linarith)
    then consider (fail) "base_skip (num - n) st = Throw IOException" "broken st" "length (avail st) < m"
      | (some) k st' where "base_skip (num - n) st = Ok (int k, st')" "k \<le> m" "k \<le> length (avail st)"
        "avail st' = drop k (avail st)" "broken st' = broken st" "k = 0 \<longrightarrow> avail st = [] \<and> \<not> broken st"
      using less.prems by (auto simp: skipped_some_def)
    then show ?thesis
    proof cases
      case fail
      then show ?thesis using less.prems False by (simp add: skip_bytes_loop.simps [of n])
    next
      case some
      show ?thesis
      proof (cases "k = 0")
        case True
        then show ?thesis using some less.prems False by (simp add: skip_bytes_loop.simps [of n])
      next
        case k: False
        have step: "skip_bytes_loop n num st = skip_bytes_loop (n + int k) num st'"
          using some(1) k less.prems False by (subst skip_bytes_loop.simps) simp
        have "m - k < m" "0 \<le> n + int k" "n + int k \<le> num" "num - (n + int k) = int (m - k)"
          using k some(2) less.prems False by auto
        note IH = less.IH [OF this, of st']
        have c: "m - k \<le> length (avail st') \<longleftrightarrow> m \<le> length (avail st)" using some(2-4) by auto
        show ?thesis
          using IH some(2-5) unfolding c step by (auto simp: algebra_simps split: if_splits)
      qed
    qed
  qed
qed

text \<open>
  \<^bold>\<open>C36.\<close> \<open>skipBytes\<close> skips the number of bytes asked for, or all that are left when the stream ends
  earlier, whatever the sizes of the blocks and however often the underlying \<open>skip\<close> stops short; when
  the connection breaks earlier it throws \<open>IOException\<close>. It always returns.
\<close>

theorem skipBytes_skips:
  assumes "delivers inp p br"
  shows "if int (length p) < num \<and> br then skipBytes num inp = Throw IOException
    else \<exists>inp'. skipBytes num inp = Ok (max 0 (min num (int (length p))), inp') \<and> delivers inp' (drop (nat num) p) br"
proof -
  obtain st where st: "is_base inp = Some st" "avail st = p" "broken st = br" using assms by (auto simp: delivers_def)
  show ?thesis
  proof (cases "0 \<le> num")
    case True
    from skip_bytes_spec [of 0 num "nat num" st] True st show ?thesis
      by (auto simp: skipBytes_def with_base_def delivers_def io_convert_def min_def nat_le_iff split: if_splits)
  next
    case False
    then show ?thesis
      using st by (auto simp: skipBytes_def skip_bytes_loop.simps with_base_def delivers_def)
  qed
qed

theorem skipBytes_skips_witness:
  "\<exists>inp'. skipBytes 3 \<lparr>is_base = Some [Data [1, 2], Data [3, 4]], is_pushback = False\<rparr> = Ok (3, inp') \<and> delivers inp' [4] False"
  using skipBytes_skips [of "\<lparr>is_base = Some [Data [1, 2], Data [3, 4]], is_pushback = False\<rparr>" "[1, 2, 3, 4]" False 3]
  by (simp add: delivers_def broken_def)

end
