(* ===== verification/Boolean_Stream.thy ===== *)
theory Boolean_Stream
  imports Data_Codecs
begin

text \<open>
  \<open>activemq/wireformat/openwire/utils/BooleanStream.cpp\<close>: the flags of the tight encoding, packed eight to
  a byte. \<open>arrayLimit\<close> and \<open>arrayPos\<close> are \<open>short\<close>s and wrap; an index outside the vector is a
  \<open>MemoryFault\<close>, since the code indexes without a check.
\<close>

section \<open>The program\<close>

record boolean_stream =
  bdata :: "byte list"
  arrayLimit :: int
  arrayPos :: int
  bytePos :: nat

text \<open>The conversion of an \<open>int\<close> to \<open>short\<close>.\<close>

definition to_short :: "int \<Rightarrow> int" where
  "to_short i = sint (word_of_int i :: 16 word)"

definition BooleanStream_new :: boolean_stream where
  "BooleanStream_new = \<lparr>bdata = replicate 1000 0, arrayLimit = 0, arrayPos = 0, bytePos = 0\<rparr>"

definition next_bit :: "boolean_stream \<Rightarrow> boolean_stream" where
  "next_bit s =
     (if bytePos s + 1 \<ge> 8 then s\<lparr>bytePos := 0, arrayPos := to_short (arrayPos s + 1)\<rparr>
      else s\<lparr>bytePos := bytePos s + 1\<rparr>)"

definition BooleanStream_readBoolean :: "boolean_stream \<Rightarrow> (bool \<times> boolean_stream) result" where
  "BooleanStream_readBoolean s =
     rbind (arr_get (bdata s) (arrayPos s)) (\<lambda>b. Ok (drop_bit (bytePos s) b AND 0x01 \<noteq> 0, next_bit s))"

definition BooleanStream_writeBoolean :: "bool \<Rightarrow> boolean_stream \<Rightarrow> boolean_stream result" where
  "BooleanStream_writeBoolean val s =
     (let s1 = (if bytePos s = 0
                then let lim = to_short (arrayLimit s + 1)
                     in s\<lparr>arrayLimit := lim,
                          bdata := (if lim < 0 \<or> lim \<ge> int (length (bdata s))
                                    then bdata s @ replicate (length (bdata s)) 0 else bdata s)\<rparr>
                else s)
      in rbind (if val
                then rbind (arr_get (bdata s1) (arrayPos s1)) (\<lambda>b.
                     rbind (arr_set (bdata s1) (arrayPos s1) (b OR push_bit (bytePos s1) 0x01)) (\<lambda>d.
                     Ok (s1\<lparr>bdata := d\<rparr>)))
                else Ok s1) (\<lambda>s2. Ok (next_bit s2)))"

definition BooleanStream_clear :: "boolean_stream \<Rightarrow> boolean_stream" where
  "BooleanStream_clear s = s\<lparr>arrayPos := 0, bytePos := 0\<rparr>"

definition BooleanStream_marshal :: "data_output \<Rightarrow> boolean_stream \<Rightarrow> (data_output \<times> boolean_stream) result" where
  "BooleanStream_marshal dataOut s =
     catch_io (rbind
       (if arrayLimit s < 64 then writeByte (word_of_int (arrayLimit s)) dataOut
        else if arrayLimit s < 256 then
          rbind (writeByte 0xC0 dataOut) (writeByte (word_of_int (arrayLimit s)))
        else rbind (writeByte 0x80 dataOut) (writeShort (word_of_int (arrayLimit s)))) (\<lambda>out.
       rbind (doWriteArrayBounded (Some (bdata s)) (int (length (bdata s))) 0 (arrayLimit s) out) (\<lambda>out'.
       Ok (out', BooleanStream_clear s))))"

text \<open>\<open>dataOut.insert(dataOut.end(), &data[0], &data[arrayLimit - 1])\<close>: the end of the range is exclusive.\<close>

definition BooleanStream_marshal_vector :: "byte list \<Rightarrow> boolean_stream \<Rightarrow> byte list result" where
  "BooleanStream_marshal_vector dataOut s =
     (let lim = arrayLimit s;
          header = (if lim < 64 then [word_of_int lim]
                    else if lim < 256 then [0xC0, word_of_int lim]
                    else [0x80, word_of_int (lim div 256), word_of_int (lim mod 256)])
      in if lim - 1 < 0 \<or> lim - 1 \<ge> int (length (bdata s)) then Throw MemoryFault
         else Ok (dataOut @ header @ take (nat (lim - 1)) (bdata s)))"

text \<open>The number of bytes that follow, from the first byte \<open>b\<close>.\<close>

definition read_limit :: "byte \<Rightarrow> data_input \<Rightarrow> (int \<times> data_input) result" where
  "read_limit b in1 =
     (if uint b = 0xC0 then rbind (readByte in1) (\<lambda>(b', in2). Ok (uint b', in2))
      else if uint b = 0x80 then rbind (readShort in1) (\<lambda>(v, in2). Ok (sint v, in2))
      else Ok (uint b, in1))"

text \<open>\<open>data.resize(arrayLimit)\<close> throws \<open>std::length_error\<close> for a negative number.\<close>

definition BooleanStream_unmarshal :: "data_input \<Rightarrow> boolean_stream \<Rightarrow> (data_input \<times> boolean_stream) result" where
  "BooleanStream_unmarshal dataIn s =
     catch_io (rbind (readByte dataIn) (\<lambda>(b, in1).
       rbind (read_limit b in1) (\<lambda>(lim, in3).
       if lim < 0 then Throw StdException
       else
         let resized = take (nat lim) (bdata s) @ replicate (nat lim - length (bdata s)) 0
         in rbind (readFully (Some resized) lim 0 lim in3) (\<lambda>(d, in4).
            Ok (in4, BooleanStream_clear (s\<lparr>arrayLimit := lim, bdata := the d\<rparr>))))))"

definition BooleanStream_marshalledSize :: "boolean_stream \<Rightarrow> int" where
  "BooleanStream_marshalledSize s =
     (if arrayLimit s < 64 then 1 + arrayLimit s
      else if arrayLimit s < 256 then 2 + arrayLimit s else 3 + arrayLimit s)"

section \<open>The flags of a stream\<close>

definition flag :: "byte list \<Rightarrow> nat \<Rightarrow> bool" where
  "flag d i \<longleftrightarrow> i div 8 < length d \<and> bit (d ! (i div 8)) (i mod 8)"

text \<open>A stream at flag \<open>k\<close> whose first flags are \<open>bs\<close>.\<close>

definition reading :: "boolean_stream \<Rightarrow> bool list \<Rightarrow> nat \<Rightarrow> bool" where
  "reading s bs k \<longleftrightarrow>
     arrayPos s = int (k div 8) \<and> bytePos s = k mod 8 \<and> k \<le> length bs \<and>
     length bs \<le> 8 * length (bdata s) \<and> length (bdata s) \<le> 65534 \<and> length bs \<le> 8 * 32767 \<and>
     (\<forall>i < length bs. flag (bdata s) i = bs ! i)"

text \<open>A stream that has been given \<open>bs\<close>: its further flags are off.\<close>

definition holds :: "boolean_stream \<Rightarrow> bool list \<Rightarrow> bool" where
  "holds s bs \<longleftrightarrow>
     arrayPos s = int (length bs div 8) \<and> bytePos s = length bs mod 8 \<and>
     arrayLimit s = int ((length bs + 7) div 8) \<and> arrayLimit s < int (length (bdata s)) \<and>
     length (bdata s) \<le> 65534 \<and> length bs \<le> 8 * 32766 \<and>
     (\<forall>i. flag (bdata s) i \<longleftrightarrow> i < length bs \<and> bs ! i)"

lemma to_short_small: "0 \<le> i \<Longrightarrow> i < 32768 \<Longrightarrow> to_short i = i"
  using signed_take_bit_int_eq_self [of 15 i] by (simp add: to_short_def signed_of_int)

lemma flag_test:
  assumes "k div 8 < length d"
  shows "(drop_bit (k mod 8) (d ! (k div 8)) AND 0x01 \<noteq> 0) = flag d k"
proof -
  have "(w :: byte) AND 1 \<noteq> 0 \<longleftrightarrow> bit w 0" for w by (simp add: and_one_eq bit_0 odd_iff_mod_2_eq_one)
  then show ?thesis using assms by (simp add: flag_def bit_drop_bit_eq)
qed

lemma next_bit_data [simp]: "bdata (next_bit s) = bdata s"
  by (simp add: next_bit_def)

lemma next_bit_pos:
  assumes "arrayPos s = int (k div 8)" "bytePos s = k mod 8" "k div 8 < 32767"
  shows "arrayPos (next_bit s) = int (Suc k div 8)" "bytePos (next_bit s) = Suc k mod 8"
    "bdata (next_bit s) = bdata s" "arrayLimit (next_bit s) = arrayLimit s"
  using assms to_short_small [of "int (k div 8) + 1"]
  by (auto simp: next_bit_def div_Suc mod_Suc split: if_splits)

lemma readBoolean_flag:
  assumes "reading s bs k" "k < length bs"
  shows "\<exists>s'. BooleanStream_readBoolean s = Ok (bs ! k, s') \<and> reading s' bs (Suc k)"
proof -
  have k: "k div 8 < length (bdata s)" "k div 8 < 32767" using assms by (auto simp: reading_def)
  have p: "arrayPos s = int (k div 8)" "bytePos s = k mod 8" using assms(1) by (simp_all add: reading_def)
  have "BooleanStream_readBoolean s = Ok (flag (bdata s) k, next_bit s)"
    using k(1) flag_test [OF k(1)] by (simp add: BooleanStream_readBoolean_def p arr_get_def)
  moreover have "reading (next_bit s) bs (Suc k)"
    using assms next_bit_pos [OF p k(2)] by (simp add: reading_def)
  ultimately show ?thesis using assms by (simp add: reading_def)
qed

lemma flag_zeros: "flag (d @ replicate n 0) i = flag d i"
  by (auto simp: flag_def nth_append)

lemma flag_set:
  assumes "k div 8 < length d"
  shows "flag (d[k div 8 := d ! (k div 8) OR push_bit (k mod 8) 1]) i \<longleftrightarrow> i = k \<or> flag d i"
proof (cases "i div 8 = k div 8")
  case True
  have m: "i mod 8 < 8" by simp
  have "i mod 8 = k mod 8 \<longleftrightarrow> i = k" using True by (metis div_mult_mod_eq)
  then show ?thesis using True assms m by (auto simp: flag_def bit_simps)
next
  case False
  then show ?thesis by (auto simp: flag_def)
qed


lemma ceil8: "(k + 7) div 8 = (if k mod 8 = 0 then k div 8 else Suc (k div 8))" for k :: nat
proof -
  obtain q r where k: "k = 8 * q + r" "r < 8" using mod_less_divisor [of 8 k] by (metis div_mult_mod_eq mult.commute zero_less_numeral)
  have "(8 * q + r + 7) div 8 = q + (r + 7) div 8" by (simp add: add.assoc)
  moreover have "(r + 7) div 8 = (if r = 0 then 0 else 1)" using k(2) by auto
  ultimately show ?thesis using k by simp
qed

text \<open>The byte for the next flag, and the flags of the vector after a flag is put into it.\<close>

lemma room_for_flag:
  assumes "holds s bs" "length bs < 8 * 32766"
  obtains s1 where "BooleanStream_writeBoolean v s =
      rbind (if v then rbind (arr_get (bdata s1) (arrayPos s1)) (\<lambda>b.
                     rbind (arr_set (bdata s1) (arrayPos s1) (b OR push_bit (bytePos s1) 0x01)) (\<lambda>d.
                     Ok (s1\<lparr>bdata := d\<rparr>)))
                else Ok s1) (\<lambda>s2. Ok (next_bit s2))"
    "arrayPos s1 = int (length bs div 8)" "bytePos s1 = length bs mod 8" "length bs div 8 < length (bdata s1)"
    "arrayLimit s1 = int ((length bs + 8) div 8)" "arrayLimit s1 < int (length (bdata s1))" "length (bdata s1) \<le> 65534"
    "\<And>i. flag (bdata s1) i \<longleftrightarrow> i < length bs \<and> bs ! i"
proof -
  let ?k = "length bs"
  have h: "arrayPos s = int (?k div 8)" "bytePos s = ?k mod 8" "arrayLimit s = int ((?k + 7) div 8)"
    "arrayLimit s < int (length (bdata s))" "length (bdata s) \<le> 65534" "\<And>i. flag (bdata s) i \<longleftrightarrow> i < ?k \<and> bs ! i"
    using assms(1) by (simp_all add: holds_def)
  show thesis
  proof (cases "?k mod 8 = 0")
    case True
    have lim: "(?k + 7) div 8 = ?k div 8" "(?k + 8) div 8 = Suc (?k div 8)" using True by (simp_all add: ceil8)
    have sm: "to_short (int (?k div 8) + 1) = int (?k div 8) + 1" using assms(2) by (intro to_short_small) auto
    let ?d = "if int (?k div 8) + 1 \<ge> int (length (bdata s)) then bdata s @ replicate (length (bdata s)) 0 else bdata s"
    have d: "length ?d \<le> 65534" "int (?k div 8) + 1 < int (length ?d)" "flag ?d i = flag (bdata s) i" for i
      using h(3,4,5) lim(1) assms(2) by (auto simp: flag_zeros)
    show thesis
      by (rule that [of "s\<lparr>arrayLimit := int (?k div 8) + 1, bdata := ?d\<rparr>"])
        (use h lim sm d True in \<open>simp_all add: BooleanStream_writeBoolean_def Let_def\<close>)
  next
    case False
    have lim: "(?k + 7) div 8 = (?k + 8) div 8" "?k div 8 < (?k + 7) div 8" using False by (simp_all add: ceil8)
    show thesis
      by (rule that [of s]) (use h lim False in \<open>simp_all add: BooleanStream_writeBoolean_def\<close>)
  qed
qed

lemma writeBoolean_holds:
  assumes "holds s bs" "length bs < 8 * 32766"
  shows "\<exists>s'. BooleanStream_writeBoolean v s = Ok s' \<and> holds s' (bs @ [v])"
proof -
  let ?k = "length bs"
  obtain s1 where s1: "BooleanStream_writeBoolean v s =
      rbind (if v then rbind (arr_get (bdata s1) (arrayPos s1)) (\<lambda>b.
                     rbind (arr_set (bdata s1) (arrayPos s1) (b OR push_bit (bytePos s1) 0x01)) (\<lambda>d.
                     Ok (s1\<lparr>bdata := d\<rparr>)))
                else Ok s1) (\<lambda>s2. Ok (next_bit s2))"
    and p: "arrayPos s1 = int (?k div 8)" "bytePos s1 = ?k mod 8" "?k div 8 < length (bdata s1)"
    "arrayLimit s1 = int ((?k + 8) div 8)" "arrayLimit s1 < int (length (bdata s1))" "length (bdata s1) \<le> 65534"
    and fl: "\<And>i. flag (bdata s1) i \<longleftrightarrow> i < ?k \<and> bs ! i"
    by (rule room_for_flag [OF assms, of v]) blast
  let ?d = "if v then (bdata s1)[?k div 8 := bdata s1 ! (?k div 8) OR push_bit (?k mod 8) 1] else bdata s1"
  let ?s2 = "s1\<lparr>bdata := ?d\<rparr>"
  have "BooleanStream_writeBoolean v s = Ok (next_bit ?s2)"
    using p(3) by (simp add: s1 p(1,2) arr_get_def arr_set_def)
  moreover have "holds (next_bit ?s2) (bs @ [v])"
  proof -
    have "?k div 8 < 32767" using assms(2) by auto
    note nb = next_bit_pos [of ?s2, OF _ _ this]
    have "flag ?d i \<longleftrightarrow> i < length (bs @ [v]) \<and> (bs @ [v]) ! i" for i
      using flag_set [OF p(3)] fl [of i] by (cases v) (auto simp: nth_append less_Suc_eq)
    then show ?thesis using nb p assms(2) by (simp add: holds_def add.commute)
  qed
  ultimately show ?thesis by blast
qed

lemma holds_zeros: "0 < n \<Longrightarrow> n \<le> 65534 \<Longrightarrow> holds \<lparr>bdata = replicate n 0, arrayLimit = 0, arrayPos = 0, bytePos = 0\<rparr> []"
  by (simp add: holds_def flag_def)

lemma holds_new: "holds BooleanStream_new []"
  unfolding BooleanStream_new_def by (rule holds_zeros) simp_all

lemma holds_clear: "holds s bs \<Longrightarrow> reading (BooleanStream_clear s) bs 0"
proof -
  assume h: "holds s bs"
  have "length bs \<le> 8 * ((length bs + 7) div 8)" by simp
  moreover have "(length bs + 7) div 8 < length (bdata s)" using h by (simp add: holds_def)
  ultimately have "length bs \<le> 8 * length (bdata s)" by linarith
  then show ?thesis using h by (simp add: holds_def reading_def BooleanStream_clear_def)
qed

section \<open>Marshalling\<close>

definition flags_header :: "int \<Rightarrow> byte list" where
  "flags_header lim =
     (if lim < 64 then [word_of_int lim]
      else if lim < 256 then [0xC0, word_of_int lim] else 0x80 # bytes16 (word_of_int lim))"

definition flags_enc :: "boolean_stream \<Rightarrow> byte list" where
  "flags_enc s = flags_header (arrayLimit s) @ take (nat (arrayLimit s)) (bdata s)"

lemma holds_limit:
  assumes "holds s bs"
  shows "0 \<le> arrayLimit s" "arrayLimit s \<le> 32766" "nat (arrayLimit s) < length (bdata s)"
proof -
  have "length bs + 7 \<le> 8 * 32766 + 7" using assms by (simp add: holds_def)
  from div_le_mono [OF this, of 8] have "(length bs + 7) div 8 \<le> 32766" by simp
  then show "0 \<le> arrayLimit s" "arrayLimit s \<le> 32766" "nat (arrayLimit s) < length (bdata s)"
    using assms by (simp_all add: holds_def)
qed

lemma write_prefix:
  assumes "is_open out" "0 \<le> n" "n \<le> int (length d)"
  shows "doWriteArrayBounded (Some d) (int (length d)) 0 n out = Ok (appended out (take (nat n) d))"
  using assms
  by (auto simp: doWriteArrayBounded_def FilterOutputStream_isClosed_def is_open_def sink_write_def appended_def)

lemma marshal_law:
  assumes "holds s bs" "is_open out"
  shows "BooleanStream_marshal out s = Ok (appended out (flags_enc s), BooleanStream_clear s)"
proof -
  let ?l = "arrayLimit s"
  have "(if ?l < 64 then writeByte (word_of_int ?l) out
      else if ?l < 256 then rbind (writeByte 0xC0 out) (writeByte (word_of_int ?l))
      else rbind (writeByte 0x80 out) (writeShort (word_of_int ?l))) = Ok (appended out (flags_header ?l))"
    using assms(2) by (simp add: byte.put_law short.put_law flags_header_def)
  moreover have "doWriteArrayBounded (Some (bdata s)) (int (length (bdata s))) 0 ?l (appended out (flags_header ?l)) =
      Ok (appended (appended out (flags_header ?l)) (take (nat ?l) (bdata s)))"
    using holds_limit [OF assms(1)] assms(2) by (intro write_prefix) simp_all
  ultimately show ?thesis by (simp add: BooleanStream_marshal_def flags_enc_def)
qed

lemma readFully_law:
  assumes "length buf = k" "delivers inp p br" "k \<le> length p"
  shows "\<exists>inp'. readFully (Some buf) (int k) 0 (int k) inp = Ok (Some (take k p), inp') \<and> delivers inp' (drop k p) br"
proof (cases "k = 0")
  case True
  then show ?thesis using assms by (simp add: readFully_def)
next
  case False
  obtain st where st: "is_base inp = Some st" "avail st = p" "broken st = br" using assms(2) by (auto simp: delivers_def)
  then show ?thesis
    using read_loop_fill [of 0 k buf st] assms False
    by (auto simp: readFully_def with_base_def delivers_def)
qed

lemma limit_decoded:
  assumes "0 \<le> lim" "lim \<le> 32766" "delivers inp (flags_header lim @ rest) br"
  shows "\<exists>b in1. readByte inp = Ok (b, in1) \<and> (\<exists>in3. delivers in3 rest br \<and>
    read_limit b in1 = Ok (lim, in3))"
proof -
  consider "lim < 64" | "64 \<le> lim" "lim < 256" | "256 \<le> lim" by linarith
  then show ?thesis
  proof cases
    case 1
    then have d: "delivers inp ([word_of_int lim] @ rest) br" using assms(3) by (simp add: flags_header_def)
    have "uint (word_of_int lim :: byte) = lim" using 1 assms(1) by (simp add: uint_word_of_int)
    moreover obtain in1 where "readByte inp = Ok (word_of_int lim, in1)" "delivers in1 rest br"
      using byte.get_law [OF TrueI d] by blast
    ultimately show ?thesis using 1 by (intro exI [of _ "word_of_int lim"] exI [of _ in1]) (simp add: read_limit_def)
  next
    case 2
    then have d: "delivers inp ([0xC0] @ ([word_of_int lim] @ rest)) br" using assms(3) by (simp add: flags_header_def)
    obtain in1 where in1: "readByte inp = Ok (0xC0, in1)" "delivers in1 ([word_of_int lim] @ rest) br"
      using byte.get_law [OF TrueI d] by blast
    have "uint (word_of_int lim :: byte) = lim" using 2 by (simp add: uint_word_of_int)
    then show ?thesis using byte.get_law [OF TrueI in1(2)] in1(1) by (auto simp: read_limit_def)
  next
    case 3
    then have d: "delivers inp ([0x80] @ (bytes16 (word_of_int lim) @ rest)) br" using assms(3) by (simp add: flags_header_def)
    obtain in1 where in1: "readByte inp = Ok (0x80, in1)" "delivers in1 (bytes16 (word_of_int lim) @ rest) br"
      using byte.get_law [OF TrueI d] by blast
    have "sint (word_of_int lim :: 16 word) = lim"
      using assms(1,2) to_short_small [of lim] by (simp add: to_short_def)
    then show ?thesis using short.get_law [OF TrueI in1(2)] in1(1) by (auto simp: read_limit_def)
  qed
qed

lemma unmarshal_law:
  assumes "holds s bs" "delivers inp (flags_enc s @ rest) br"
  shows "\<exists>inp' s'. BooleanStream_unmarshal inp t = Ok (inp', s') \<and> delivers inp' rest br \<and> reading s' bs 0"
proof -
  let ?l = "arrayLimit s"
  note l = holds_limit [OF assms(1)]
  have d: "delivers inp (flags_header ?l @ (take (nat ?l) (bdata s) @ rest)) br"
    using assms(2) by (simp add: flags_enc_def)
  obtain b in1 in3 where in3: "readByte inp = Ok (b, in1)" "delivers in3 (take (nat ?l) (bdata s) @ rest) br"
    "read_limit b in1 = Ok (?l, in3)"
    using limit_decoded [OF l(1,2) d] by blast
  let ?buf = "take (nat ?l) (bdata t) @ replicate (nat ?l - length (bdata t)) 0"
  have buf: "length ?buf = nat ?l" by (simp add: min_def)
  obtain in4 where in4: "readFully (Some ?buf) ?l 0 ?l in3 = Ok (Some (take (nat ?l) (bdata s)), in4)" "delivers in4 rest br"
    using readFully_law [of ?buf "nat ?l", OF buf in3(2)] l by auto
  let ?s = "BooleanStream_clear (t\<lparr>arrayLimit := ?l, bdata := take (nat ?l) (bdata s)\<rparr>)"
  have "BooleanStream_unmarshal inp t = Ok (in4, ?s)"
    unfolding BooleanStream_unmarshal_def in3(1) using in3(3) in4(1) l(1) by (simp add: Let_def)
  moreover have "reading ?s bs 0"
  proof -
    have lim: "?l = int ((length bs + 7) div 8)" using assms(1) by (simp add: holds_def)
    have "i div 8 < nat ?l" if "i < length bs" for i
    proof -
      have "i div 8 \<le> (length bs - 1) div 8" using that by (intro div_le_mono) simp
      moreover have "(length bs - 1 + 8) div 8 = (length bs + 7) div 8" using that by simp
      ultimately show ?thesis using lim by simp
    qed
    then have "flag (take (nat ?l) (bdata s)) i = bs ! i" if "i < length bs" for i
      using assms(1) that l(3) by (auto simp: holds_def flag_def)
    moreover have "length bs \<le> 8 * nat ?l" using lim by simp
    ultimately show ?thesis
      using assms(1) l by (simp add: reading_def BooleanStream_clear_def holds_def)
  qed
  ultimately show ?thesis using in4(2) by blast
qed

fun write_flags :: "bool list \<Rightarrow> boolean_stream \<Rightarrow> boolean_stream result" where
  "write_flags [] s = Ok s"
| "write_flags (b # bs) s = rbind (BooleanStream_writeBoolean b s) (write_flags bs)"

fun read_flags :: "nat \<Rightarrow> boolean_stream \<Rightarrow> (bool list \<times> boolean_stream) result" where
  "read_flags 0 s = Ok ([], s)"
| "read_flags (Suc n) s =
     rbind (BooleanStream_readBoolean s) (\<lambda>(b, s'). rbind (read_flags n s') (\<lambda>(bs, s''). Ok (b # bs, s'')))"

lemma write_flags_hold:
  assumes "holds s bs" "length bs + length cs \<le> 8 * 32766"
  shows "\<exists>s'. write_flags cs s = Ok s' \<and> holds s' (bs @ cs)"
  using assms
proof (induction cs arbitrary: s bs)
  case (Cons c cs)
  obtain s1 where s1: "BooleanStream_writeBoolean c s = Ok s1" "holds s1 (bs @ [c])"
    using writeBoolean_holds [OF Cons.prems(1), of c] Cons.prems(2) by auto
  from Cons.IH [OF s1(2)] Cons.prems(2) s1(1) show ?case by auto
qed auto

lemma read_flags_reading:
  assumes "reading s bs k" "k + n \<le> length bs"
  shows "\<exists>s'. read_flags n s = Ok (take n (drop k bs), s') \<and> reading s' bs (k + n)"
  using assms
proof (induction n arbitrary: s k)
  case (Suc n)
  obtain s1 where s1: "BooleanStream_readBoolean s = Ok (bs ! k, s1)" "reading s1 bs (Suc k)"
    using readBoolean_flag [OF Suc.prems(1)] Suc.prems(2) by auto
  obtain s2 where s2: "read_flags n s1 = Ok (take n (drop (Suc k) bs), s2)" "reading s2 bs (Suc k + n)"
    using Suc.IH [OF s1(2)] Suc.prems(2) by auto
  have "take (Suc n) (drop k bs) = bs ! k # take n (drop (Suc k) bs)"
    using Suc.prems(2) Cons_nth_drop_Suc [of k bs, symmetric] by simp
  then show ?case using s1 s2 by simp
qed simp

lemma flags_enc_length: "holds s bs \<Longrightarrow> int (length (flags_enc s)) = BooleanStream_marshalledSize s"
  using holds_limit [of s bs] by (simp add: flags_enc_def flags_header_def BooleanStream_marshalledSize_def bytes16_def)

text \<open>
  \<^bold>\<open>C23.\<close> The flags of a command: up to 262128 booleans written to a new stream are marshalled to an
  open output in exactly the announced number of bytes; unmarshalled from any split of these bytes into
  any stream, with whatever content it had, they are read back in order, and nothing that follows is
  consumed.
\<close>

theorem boolean_stream_roundtrip:
  assumes "length bs \<le> 262128" "is_open out"
  shows "\<exists>s enc. write_flags bs BooleanStream_new = Ok s \<and>
    BooleanStream_marshal out s = Ok (appended out enc, BooleanStream_clear s) \<and>
    int (length enc) = BooleanStream_marshalledSize s \<and>
    (\<forall>inp rest br t. delivers inp (enc @ rest) br \<longrightarrow>
      (\<exists>inp' s1 s2. BooleanStream_unmarshal inp t = Ok (inp', s1) \<and> delivers inp' rest br \<and>
        read_flags (length bs) s1 = Ok (bs, s2)))"
proof -
  obtain s where s: "write_flags bs BooleanStream_new = Ok s" "holds s bs"
    using write_flags_hold [OF holds_new, of bs] assms(1) by auto
  note len = flags_enc_length [OF s(2)]
  have rd: "\<exists>inp' s1 s2. BooleanStream_unmarshal inp t = Ok (inp', s1) \<and> delivers inp' rest br \<and>
      read_flags (length bs) s1 = Ok (bs, s2)" if "delivers inp (flags_enc s @ rest) br" for inp rest br t
    using unmarshal_law [OF s(2) that, of t] read_flags_reading [of _ bs 0 "length bs"] by fastforce
  show ?thesis using s marshal_law [OF s(2) assms(2)] len rd by blast
qed

theorem boolean_stream_roundtrip_witness:
  "\<exists>s enc. write_flags [True, False, True] BooleanStream_new = Ok s \<and>
    BooleanStream_marshal new_output s = Ok (appended new_output enc, BooleanStream_clear s) \<and>
    int (length enc) = BooleanStream_marshalledSize s \<and>
    (\<exists>inp' s1 s2. BooleanStream_unmarshal \<lparr>is_base = Some [Data enc], is_pushback = False\<rparr> BooleanStream_new = Ok (inp', s1) \<and>
      delivers inp' [] False \<and> read_flags 3 s1 = Ok ([True, False, True], s2))"
proof -
  obtain s enc where *: "write_flags [True, False, True] BooleanStream_new = Ok s"
    "BooleanStream_marshal new_output s = Ok (appended new_output enc, BooleanStream_clear s)"
    "int (length enc) = BooleanStream_marshalledSize s"
    and rd: "\<forall>inp rest br t. delivers inp (enc @ rest) br \<longrightarrow>
      (\<exists>inp' s1 s2. BooleanStream_unmarshal inp t = Ok (inp', s1) \<and> delivers inp' rest br \<and>
        read_flags (length [True, False, True]) s1 = Ok ([True, False, True], s2))"
    using boolean_stream_roundtrip [of "[True, False, True]" new_output] by (auto simp: is_open_def new_output_def)
  have "delivers \<lparr>is_base = Some [Data enc], is_pushback = False\<rparr> (enc @ []) False"
    by (simp add: delivers_def broken_def)
  then obtain inp' s1 s2 where "BooleanStream_unmarshal \<lparr>is_base = Some [Data enc], is_pushback = False\<rparr> BooleanStream_new = Ok (inp', s1)"
    "delivers inp' [] False" "read_flags (length [True, False, True]) s1 = Ok ([True, False, True], s2)"
    using rd by blast
  moreover have "length [True, False, True] = 3" by simp
  ultimately show ?thesis using * by (metis (no_types))
qed

lemma vector_header:
  assumes "0 \<le> lim" "lim < 32768"
  shows "[word_of_int (lim div 256), word_of_int (lim mod 256)] = bytes16 (word_of_int lim)"
proof -
  have u: "uint (word_of_int lim :: 16 word) = lim" using assms by (simp add: uint_word_of_int)
  have m: "lim div 256 mod 256 = lim div 256" by (rule mod_pos_pos_trivial) (use assms in auto)
  have "uint (ucast (drop_bit 8 (word_of_int lim :: 16 word)) :: byte) = lim div 256 mod 256"
    unfolding unsigned_ucast_eq unsigned_drop_bit_eq u using assms m by (simp add: take_bit_eq_mod drop_bit_eq_div)
  moreover have "uint (ucast (word_of_int lim :: 16 word) :: byte) = lim mod 256"
    using u by (simp add: unsigned_ucast_eq take_bit_eq_mod)
  ultimately show ?thesis by (simp add: bytes16_def word_uint_eq_iff uint_word_of_int)
qed

lemma readFully_short:
  assumes "length buf = k" "delivers inp p br" "length p < k"
  shows "readFully (Some buf) (int k) 0 (int k) inp = Throw (cut_off br)"
proof -
  obtain st where st: "is_base inp = Some st" "avail st = p" "broken st = br" using assms(2) by (auto simp: delivers_def)
  then show ?thesis
    using read_loop_fill [of 0 k buf st] assms by (auto simp: readFully_def with_base_def)
qed

lemma unmarshal_short:
  assumes "0 \<le> lim" "lim \<le> 32766" "delivers inp (flags_header lim @ p) br" "int (length p) < lim"
  shows "BooleanStream_unmarshal inp t = Throw (cut_off br)"
proof -
  obtain b in1 in3 where in3: "readByte inp = Ok (b, in1)" "delivers in3 p br"
    "read_limit b in1 = Ok (lim, in3)"
    using limit_decoded [OF assms(1-3)] by blast
  let ?buf = "take (nat lim) (bdata t) @ replicate (nat lim - length (bdata t)) 0"
  have "length ?buf = nat lim" by (simp add: min_def)
  then have "readFully (Some ?buf) lim 0 lim in3 = Throw (cut_off br)"
    using readFully_short [of ?buf "nat lim", OF _ in3(2)] assms(1,4) by simp
  then show ?thesis
    unfolding BooleanStream_unmarshal_def in3(1) using in3(3) assms(1) by (simp add: Let_def)
qed

text \<open>
  Marshalling into a vector loses the last byte of flags: the result is the stream's encoding
  without its last byte, and unmarshalling it throws \<open>EOFException\<close>. A stream without flags makes it
  read before the beginning of its data.
\<close>

theorem marshal_vector_drops_last_byte:
  assumes "length bs \<le> 262128" "write_flags bs BooleanStream_new = Ok s" "is_open out"
  shows "BooleanStream_marshal out s = Ok (appended out (flags_enc s), BooleanStream_clear s) \<and>
    BooleanStream_marshal_vector v s = (if bs = [] then Throw MemoryFault else Ok (v @ butlast (flags_enc s))) \<and>
    (\<forall>inp t. bs \<noteq> [] \<and> delivers inp (butlast (flags_enc s)) False \<longrightarrow> BooleanStream_unmarshal inp t = Throw EOFException)"
proof -
  have h: "holds s bs" using write_flags_hold [OF holds_new, of bs] assms(1,2) by auto
  note l = holds_limit [OF h]
  have lim: "arrayLimit s = int ((length bs + 7) div 8)" using h by (simp add: holds_def)
  have pos: "bs \<noteq> [] \<longleftrightarrow> 1 \<le> arrayLimit s"
    using lim ceil8 [of "length bs"] by (cases bs) (auto simp: div_greater_zero_iff)
  have bl: "bs \<noteq> [] \<Longrightarrow> butlast (flags_enc s) = flags_header (arrayLimit s) @ take (nat (arrayLimit s - 1)) (bdata s)"
  proof -
    assume "bs \<noteq> []"
    then have "1 \<le> arrayLimit s" using pos by simp
    then have ne: "take (nat (arrayLimit s)) (bdata s) \<noteq> []" using l(3) by auto
    have "butlast (take (nat (arrayLimit s)) (bdata s)) = take (nat (arrayLimit s - 1)) (bdata s)"
      using l(3) \<open>1 \<le> arrayLimit s\<close> by (simp add: butlast_take nat_diff_distrib)
    then show ?thesis using ne by (simp add: flags_enc_def butlast_append)
  qed
  have "BooleanStream_marshal_vector v s = (if bs = [] then Throw MemoryFault else Ok (v @ butlast (flags_enc s)))"
  proof (cases "bs = []")
    case True
    then show ?thesis using lim by (simp add: BooleanStream_marshal_vector_def)
  next
    case False
    then show ?thesis
      using l pos bl [OF False] vector_header [of "arrayLimit s"]
      by (simp add: BooleanStream_marshal_vector_def Let_def flags_header_def)
  qed
  moreover have "BooleanStream_unmarshal inp t = Throw EOFException"
    if "bs \<noteq> []" "delivers inp (butlast (flags_enc s)) False" for inp t
    using unmarshal_short [OF l(1,2) that(2) [unfolded bl [OF that(1)]], of t] pos that(1) l(3)
    by (simp add: cut_off_def)
  ultimately show ?thesis using marshal_law [OF h assms(3)] by blast
qed

theorem marshal_vector_drops_last_byte_witness:
  "\<exists>s. write_flags [True] BooleanStream_new = Ok s \<and> BooleanStream_marshal_vector [] s = Ok (butlast (flags_enc s))"
  using write_flags_hold [OF holds_new, of "[True]"]
    marshal_vector_drops_last_byte [of "[True]" _ new_output "[]"]
  by (fastforce simp: is_open_def new_output_def)

section \<open>Reading too much\<close>

lemma put_bytes_length: "put_bytes buf i d = Ok b \<Longrightarrow> length b = length buf"
  by (auto simp: put_bytes_def split: if_splits)

lemma read_loop_length: "read_loop sz offset n len buf st = Ok (b, st') \<Longrightarrow> length b = length buf"
proof (induction sz offset n len buf st rule: read_loop.induct)
  case (1 sz offset n len buf st)
  show ?case
  proof (cases "n < len")
    case True
    with "1.prems" obtain d st1 buf1 where "base_read sz (offset + n) (len - n) st = Ok (Some (d, st1))"
      "put_bytes buf (offset + n) d = Ok buf1" "read_loop sz offset (n + int (length d)) len buf1 st1 = Ok (b, st')"
      by (subst (asm) read_loop.simps) (auto split: sum.splits option.splits)
    then show ?thesis using "1.IH" [OF True _ refl refl] put_bytes_length by metis
  next
    case False
    with "1.prems" show ?thesis by (subst (asm) read_loop.simps) simp
  qed
qed

lemma readFully_length: "readFully (Some buf) sz offset len inp = Ok (d, inp') \<Longrightarrow> length (the d) = length buf"
  by (auto simp: readFully_def with_base_def rbind_Ok_iff split: if_splits option.splits dest: read_loop_length)

lemma read_limit_bound:
  assumes "read_limit b i = Ok (lim, i')"
  shows "lim \<le> 32767"
proof -
  have "uint (w :: byte) < 256" for w using uint_lt2p [of w] by simp
  moreover have "sint (w :: 16 word) < 32768" for w using sint_lt [of w] by simp
  ultimately have *: "uint (w :: byte) \<le> 32767" "sint (v :: 16 word) \<le> 32767" for w v
    by (smt (verit))+
  from assms show ?thesis by (auto simp: read_limit_def rbind_Ok_iff * split: if_splits)
qed

lemma unmarshal_state:
  assumes "BooleanStream_unmarshal inp t = Ok (inp', s)"
  shows "arrayPos s = 0" "bytePos s = 0" "length (bdata s) \<le> 32767"
proof -
  obtain b in1 where rb: "readByte inp = Ok (b, in1)"
    using assms by (cases "readByte inp") (auto simp: BooleanStream_unmarshal_def)
  obtain lim in3 where l: "read_limit b in1 = Ok (lim, in3)"
    using assms rb by (cases "read_limit b in1") (auto simp: BooleanStream_unmarshal_def)
  obtain d in4 where d: "0 \<le> lim"
    "readFully (Some (take (nat lim) (bdata t) @ replicate (nat lim - length (bdata t)) 0)) lim 0 lim in3 = Ok (d, in4)"
    "s = BooleanStream_clear (t\<lparr>arrayLimit := lim, bdata := the d\<rparr>)"
    using assms by (auto simp: BooleanStream_unmarshal_def rb l rbind_Ok_iff Let_def split: if_splits)
  have "length (the d) = nat lim" using readFully_length [OF d(2)] by (simp add: min_def)
  then show "arrayPos s = 0" "bytePos s = 0" "length (bdata s) \<le> 32767"
    using d read_limit_bound [OF l] by (simp_all add: BooleanStream_clear_def)
qed

lemma read_flags_data: "read_flags n s = Ok (bs, s') \<Longrightarrow> bdata s' = bdata s"
proof (induction n arbitrary: s bs)
  case (Suc n)
  then obtain b s1 cs where "BooleanStream_readBoolean s = Ok (b, s1)" "read_flags n s1 = Ok (cs, s')"
    by (auto simp: rbind_Ok_iff)
  moreover have "bdata s1 = bdata s"
    using calculation(1) by (auto simp: BooleanStream_readBoolean_def rbind_Ok_iff)
  ultimately show ?case using Suc.IH by simp
qed simp

lemma read_flags_add:
  "read_flags (m + n) s = rbind (read_flags m s) (\<lambda>(bs, s'). rbind (read_flags n s') (\<lambda>(cs, s''). Ok (bs @ cs, s'')))"
proof (induction m arbitrary: s)
  case 0
  show ?case by (cases "read_flags n s") auto
next
  case (Suc m)
  show ?case
    by (cases "BooleanStream_readBoolean s") (auto simp: Suc.IH rbind_assoc case_prod_unfold)
qed

text \<open>
  A command that reads more flags than its stream carried runs out of the vector: after any
  successful \<open>unmarshal\<close> of \<open>n\<close> bytes, \<open>8 * n\<close> flags can be read and the next \<open>readBoolean\<close> accesses
  memory beyond the data instead of throwing.
\<close>

theorem boolean_stream_overrun:
  assumes "BooleanStream_unmarshal inp t = Ok (inp', s)"
  shows "(\<exists>bs s'. read_flags (8 * length (bdata s)) s = Ok (bs, s') \<and> BooleanStream_readBoolean s' = Throw MemoryFault) \<and>
    read_flags (8 * length (bdata s) + 1) s = Throw MemoryFault"
proof -
  let ?n = "length (bdata s)"
  let ?bs = "map (flag (bdata s)) [0..<8 * ?n]"
  note st = unmarshal_state [OF assms]
  have "reading s ?bs 0" using st by (simp add: reading_def)
  from read_flags_reading [OF this, of "8 * ?n"] obtain s' where
    s': "read_flags (8 * ?n) s = Ok (?bs, s')" "reading s' ?bs (8 * ?n)" by auto
  have "bdata s' = bdata s" by (rule read_flags_data [OF s'(1)])
  then have "BooleanStream_readBoolean s' = Throw MemoryFault"
    using s'(2) by (simp add: BooleanStream_readBoolean_def reading_def arr_get_def)
  moreover have "read_flags (8 * ?n + 1) s = Throw MemoryFault"
    unfolding read_flags_add s'(1) using calculation by simp
  ultimately show ?thesis using s'(1) by blast
qed

theorem boolean_stream_overrun_witness:
  "\<exists>inp' s. BooleanStream_unmarshal \<lparr>is_base = Some [Data [1, 5]], is_pushback = False\<rparr>
      \<lparr>bdata = [], arrayLimit = 0, arrayPos = 0, bytePos = 0\<rparr> = Ok (inp', s) \<and>
    read_flags (8 * length (bdata s) + 1) s = Throw MemoryFault"
proof -
  let ?t = "\<lparr>bdata = [], arrayLimit = 0, arrayPos = 0, bytePos = 0\<rparr>"
  let ?inp = "\<lparr>is_base = Some [Data [1, 5]], is_pushback = False\<rparr>"
  have "\<exists>inp' s. BooleanStream_unmarshal ?inp ?t = Ok (inp', s)"
    by (simp add: BooleanStream_unmarshal_def readByte_def readAllData_def read_loop.simps base_read_def put_bytes_def
        with_base_def read_limit_def readFully_def)
  then show ?thesis using boolean_stream_overrun [of ?inp ?t] by blast
qed

end
