(* ===== verification/Marshal_Contracts.thy ===== *)
theory Marshal_Contracts
  imports Boolean_Stream
begin

text \<open>
  The shape of the marshallers in \<open>activemq/wireformat/openwire/marshal\<close>: they run one operation after the
  other on the flags and the data. This theory has the sequencing of such operations and their contracts.
  A pass over a value is specified by the flags and the bytes it takes or gives; the contracts compose by
  concatenation. The locale \<open>tight_codec\<close> is the interface of a tight marshaller.
\<close>

section \<open>Sequencing\<close>

text \<open>\<open>rc += f; rc += g\<close> of the first pass, whose sizes are \<open>int\<close>s; \<open>size_only\<close> adds to the size.\<close>

type_synonym size = "32 word"

definition seq1 :: "('s \<Rightarrow> (size \<times> 's) result) \<Rightarrow> ('s \<Rightarrow> (size \<times> 's) result) \<Rightarrow> 's \<Rightarrow> (size \<times> 's) result" where
  "seq1 f g s = rbind (f s) (\<lambda>(a, s'). rbind (g s') (\<lambda>(b, s''). Ok (a + b, s'')))"

definition size_only :: "size \<Rightarrow> 's \<Rightarrow> (size \<times> 's) result" where
  "size_only n s = Ok (n, s)"

definition flag1 :: "bool \<Rightarrow> boolean_stream \<Rightarrow> (size \<times> boolean_stream) result" where
  "flag1 b s = rbind (BooleanStream_writeBoolean b s) (\<lambda>s'. Ok (0, s'))"

text \<open>The second pass reads the flags again and writes the data.\<close>

definition seq2 :: "('o \<Rightarrow> 's \<Rightarrow> ('o \<times> 's) result) \<Rightarrow> ('o \<Rightarrow> 's \<Rightarrow> ('o \<times> 's) result) \<Rightarrow> 'o \<Rightarrow> 's \<Rightarrow> ('o \<times> 's) result" where
  "seq2 f g out s = rbind (f out s) (\<lambda>(out', s'). g out' s')"

definition skip2 :: "'o \<Rightarrow> 's \<Rightarrow> ('o \<times> 's) result" where
  "skip2 out s = Ok (out, s)"

definition put2 :: "(data_output \<Rightarrow> data_output result) \<Rightarrow> data_output \<Rightarrow> 's \<Rightarrow> (data_output \<times> 's) result" where
  "put2 f out s = rbind (f out) (\<lambda>out'. Ok (out', s))"

definition if2 :: "(data_output \<Rightarrow> boolean_stream \<Rightarrow> (data_output \<times> boolean_stream) result) \<Rightarrow>
    (data_output \<Rightarrow> boolean_stream \<Rightarrow> (data_output \<times> boolean_stream) result) \<Rightarrow>
    data_output \<Rightarrow> boolean_stream \<Rightarrow> (data_output \<times> boolean_stream) result" where
  "if2 f g out s = rbind (BooleanStream_readBoolean s) (\<lambda>(b, s'). if b then f out s' else g out s')"

text \<open>Reading a value, from the flags and the data.\<close>

definition bind3 :: "('i \<Rightarrow> 's \<Rightarrow> ('a \<times> 'i \<times> 's) result) \<Rightarrow> ('a \<Rightarrow> 'i \<Rightarrow> 's \<Rightarrow> ('b \<times> 'i \<times> 's) result) \<Rightarrow>
    'i \<Rightarrow> 's \<Rightarrow> ('b \<times> 'i \<times> 's) result" where
  "bind3 f g inp s = rbind (f inp s) (\<lambda>(a, inp', s'). g a inp' s')"

definition ret3 :: "'a \<Rightarrow> 'i \<Rightarrow> 's \<Rightarrow> ('a \<times> 'i \<times> 's) result" where
  "ret3 a inp s = Ok (a, inp, s)"

definition get3 :: "('i \<Rightarrow> ('a \<times> 'i) result) \<Rightarrow> 'i \<Rightarrow> 's \<Rightarrow> ('a \<times> 'i \<times> 's) result" where
  "get3 f inp s = rbind (f inp) (\<lambda>(a, inp'). Ok (a, inp', s))"

definition flag3 :: "'i \<Rightarrow> boolean_stream \<Rightarrow> (bool \<times> 'i \<times> boolean_stream) result" where
  "flag3 inp s = rbind (BooleanStream_readBoolean s) (\<lambda>(b, s'). Ok (b, inp, s'))"

definition if3 :: "('i \<Rightarrow> boolean_stream \<Rightarrow> ('a \<times> 'i \<times> boolean_stream) result) \<Rightarrow>
    ('i \<Rightarrow> boolean_stream \<Rightarrow> ('a \<times> 'i \<times> boolean_stream) result) \<Rightarrow> 'i \<Rightarrow> boolean_stream \<Rightarrow> ('a \<times> 'i \<times> boolean_stream) result" where
  "if3 f g = bind3 flag3 (\<lambda>b. if b then f else g)"

text \<open>The loose encoding has no flags.\<close>

definition seqL :: "('o \<Rightarrow> 'o result) \<Rightarrow> ('o \<Rightarrow> 'o result) \<Rightarrow> 'o \<Rightarrow> 'o result" where
  "seqL f g out = rbind (f out) g"

definition bindL :: "('i \<Rightarrow> ('a \<times> 'i) result) \<Rightarrow> ('a \<Rightarrow> 'i \<Rightarrow> ('b \<times> 'i) result) \<Rightarrow> 'i \<Rightarrow> ('b \<times> 'i) result" where
  "bindL f g inp = rbind (f inp) (\<lambda>(a, inp'). g a inp')"

definition retL :: "'a \<Rightarrow> 'i \<Rightarrow> ('a \<times> 'i) result" where
  "retL a inp = Ok (a, inp)"

section \<open>Contracts\<close>

text \<open>The flags still to be read.\<close>

definition upcoming :: "boolean_stream \<Rightarrow> bool list \<Rightarrow> bool" where
  "upcoming s fs \<longleftrightarrow> (\<exists>bs k. reading s bs k \<and> drop k bs = fs)"

definition writes1 :: "(boolean_stream \<Rightarrow> (size \<times> boolean_stream) result) \<Rightarrow> bool list \<Rightarrow> nat \<Rightarrow> bool" where
  "writes1 f fs n \<longleftrightarrow> (\<forall>s bs. holds s bs \<longrightarrow> length bs + length fs \<le> 262128 \<longrightarrow>
     (\<exists>s'. f s = Ok (word_of_nat n, s') \<and> holds s' (bs @ fs)))"

definition writes2 :: "(data_output \<Rightarrow> boolean_stream \<Rightarrow> (data_output \<times> boolean_stream) result) \<Rightarrow> bool list \<Rightarrow> byte list \<Rightarrow> bool" where
  "writes2 f fs d \<longleftrightarrow> (\<forall>out s gs. is_open out \<longrightarrow> upcoming s (fs @ gs) \<longrightarrow>
     (\<exists>s'. f out s = Ok (appended out d, s') \<and> upcoming s' gs))"

definition reads3 :: "(data_input \<Rightarrow> boolean_stream \<Rightarrow> ('a \<times> data_input \<times> boolean_stream) result) \<Rightarrow>
    bool list \<Rightarrow> byte list \<Rightarrow> 'a \<Rightarrow> bool" where
  "reads3 f fs d v \<longleftrightarrow> (\<forall>inp s gs rest br. upcoming s (fs @ gs) \<longrightarrow> delivers inp (d @ rest) br \<longrightarrow>
     (\<exists>inp' s'. f inp s = Ok (v, inp', s') \<and> upcoming s' gs \<and> delivers inp' rest br))"

definition putsL :: "(data_output \<Rightarrow> data_output result) \<Rightarrow> byte list \<Rightarrow> bool" where
  "putsL f d \<longleftrightarrow> (\<forall>out. is_open out \<longrightarrow> f out = Ok (appended out d))"

definition getsL :: "(data_input \<Rightarrow> ('a \<times> data_input) result) \<Rightarrow> byte list \<Rightarrow> 'a \<Rightarrow> bool" where
  "getsL f d v \<longleftrightarrow> (\<forall>inp rest br. delivers inp (d @ rest) br \<longrightarrow> (\<exists>inp'. f inp = Ok (v, inp') \<and> delivers inp' rest br))"

named_theorems contract \<open>how the contracts compose\<close>

lemma upcoming_reading: "reading s bs 0 \<Longrightarrow> upcoming s bs"
  by (auto simp: upcoming_def intro!: exI [of _ 0])

lemma upcoming_clear: "holds s bs \<Longrightarrow> upcoming (BooleanStream_clear s) bs"
  by (rule upcoming_reading [OF holds_clear])

lemma upcoming_flag:
  assumes "upcoming s (b # fs)"
  shows "\<exists>s'. BooleanStream_readBoolean s = Ok (b, s') \<and> upcoming s' fs"
proof -
  obtain bs k where r: "reading s bs k" and d: "drop k bs = b # fs" using assms by (auto simp: upcoming_def)
  then have k: "k < length bs" by (metis drop_all leI list.distinct(1))
  have "bs ! k = b" "drop (Suc k) bs = fs" using d k by (simp_all add: Cons_nth_drop_Suc [symmetric])
  then show ?thesis using readBoolean_flag [OF r k] by (auto simp: upcoming_def)
qed

subsection \<open>First pass\<close>

lemma writes1_seq [contract]:
  assumes "writes1 f fs m" "writes1 g gs n" "hs = fs @ gs" "k = m + n"
  shows "writes1 (seq1 f g) hs k"
  unfolding writes1_def
proof (intro allI impI)
  fix s bs assume s: "holds s bs" "length bs + length hs \<le> 262128"
  have "length bs + length fs \<le> 262128" using s(2) assms(3) by simp
  then obtain s1 where s1: "f s = Ok (word_of_nat m, s1)" "holds s1 (bs @ fs)"
    using assms(1) s(1) unfolding writes1_def by blast
  have "length (bs @ fs) + length gs \<le> 262128" using s(2) assms(3) by simp
  then obtain s2 where "g s1 = Ok (word_of_nat n, s2)" "holds s2 ((bs @ fs) @ gs)"
    using assms(2) s1(2) unfolding writes1_def by blast
  then show "\<exists>s'. seq1 f g s = Ok (word_of_nat k, s') \<and> holds s' (bs @ hs)"
    using s1(1) assms(3,4) by (simp add: seq1_def)
qed

lemma writes1_size [contract]: "n = word_of_nat k \<Longrightarrow> writes1 (size_only n) [] k"
  by (simp add: writes1_def size_only_def)

lemma writes1_flag [contract]: "writes1 (flag1 b) [b] 0"
  unfolding writes1_def
proof (intro allI impI)
  fix s bs assume "holds s bs" "length bs + length [b] \<le> 262128"
  then show "\<exists>s'. flag1 b s = Ok (word_of_nat 0, s') \<and> holds s' (bs @ [b])"
    using writeBoolean_holds [of s bs b] by (auto simp: flag1_def)
qed

lemma writes1_catch [contract]: "writes1 f fs n \<Longrightarrow> writes1 (\<lambda>s. catch_io (f s)) fs n"
  by (simp add: writes1_def)

subsection \<open>Second pass\<close>

lemma writes2_seq [contract]:
  assumes "writes2 f fs d" "writes2 g gs e" "hs = fs @ gs" "h = d @ e"
  shows "writes2 (seq2 f g) hs h"
  unfolding writes2_def
proof (intro allI impI)
  fix out s rs assume o: "is_open out" and s: "upcoming s (hs @ rs)"
  then obtain s1 where s1: "f out s = Ok (appended out d, s1)" "upcoming s1 (gs @ rs)"
    using assms(1,3) unfolding writes2_def append_assoc by fastforce
  moreover obtain s2 where "g (appended out d) s1 = Ok (appended (appended out d) e, s2)" "upcoming s2 rs"
    using assms(2) o s1(2) unfolding writes2_def by (meson is_open_appended)
  ultimately show "\<exists>s'. seq2 f g out s = Ok (appended out h, s') \<and> upcoming s' rs"
    using assms(4) by (simp add: seq2_def)
qed

lemma writes2_skip [contract]: "writes2 skip2 [] []"
  by (simp add: writes2_def skip2_def)

lemma writes2_put [contract]: "putsL f d \<Longrightarrow> writes2 (put2 f) [] d"
  by (simp add: writes2_def put2_def putsL_def)

lemma writes2_if [contract]:
  assumes "fs = b # gs" "b \<Longrightarrow> writes2 f gs d" "\<not> b \<Longrightarrow> writes2 g gs d"
  shows "writes2 (if2 f g) fs d"
  unfolding writes2_def
proof (intro allI impI)
  fix out s rs assume o: "is_open out" and "upcoming s (fs @ rs)"
  then obtain s1 where "BooleanStream_readBoolean s = Ok (b, s1)" "upcoming s1 (gs @ rs)"
    using upcoming_flag [of s b "gs @ rs"] assms(1) by auto
  then show "\<exists>s'. if2 f g out s = Ok (appended out d, s') \<and> upcoming s' rs"
    using assms(2,3) o by (cases b) (auto simp: writes2_def if2_def)
qed

lemma writes2_catch [contract]: "writes2 f fs d \<Longrightarrow> writes2 (\<lambda>out s. catch_io (f out s)) fs d"
  by (simp add: writes2_def)

subsection \<open>Reading\<close>

lemma reads3_bind [contract]:
  assumes "reads3 f fs d a" "reads3 (g a) gs e v" "hs = fs @ gs" "h = d @ e"
  shows "reads3 (bind3 f g) hs h v"
  unfolding reads3_def
proof (intro allI impI)
  fix inp s rs rest br assume s: "upcoming s (hs @ rs)" and i: "delivers inp (h @ rest) br"
  obtain i1 s1 where 1: "f inp s = Ok (a, i1, s1)" "upcoming s1 (gs @ rs)" "delivers i1 (e @ rest) br"
    using assms(1) s i unfolding reads3_def assms(3,4) append_assoc by meson
  obtain i2 s2 where "g a i1 s1 = Ok (v, i2, s2)" "upcoming s2 rs" "delivers i2 rest br"
    using assms(2) 1(2,3) unfolding reads3_def by meson
  then show "\<exists>inp' s'. bind3 f g inp s = Ok (v, inp', s') \<and> upcoming s' rs \<and> delivers inp' rest br"
    using 1(1) by (simp add: bind3_def)
qed

lemma reads3_ret [contract]: "v = a \<Longrightarrow> reads3 (ret3 a) [] [] v"
  by (simp add: reads3_def ret3_def)

lemma reads3_get [contract]:
  assumes "getsL f d v"
  shows "reads3 (get3 f) [] d v"
  unfolding reads3_def get3_def
proof (intro allI impI)
  fix inp rest br and s :: boolean_stream and gs
  assume "delivers inp (d @ rest) br" "upcoming s ([] @ gs)"
  then show "\<exists>inp' s'. rbind (f inp) (\<lambda>(a, inp'). Ok (a, inp', s)) = Ok (v, inp', s') \<and> upcoming s' gs \<and> delivers inp' rest br"
    using assms by (fastforce simp: getsL_def)
qed

lemma reads3_flag [contract]: "reads3 flag3 [b] [] b"
  unfolding reads3_def
proof (intro allI impI)
  fix inp rest br and s :: boolean_stream and gs
  assume "delivers inp ([] @ rest) br" "upcoming s ([b] @ gs)"
  then show "\<exists>inp' s'. flag3 inp s = Ok (b, inp', s') \<and> upcoming s' gs \<and> delivers inp' rest br"
    using upcoming_flag [of s b gs] by (auto simp: flag3_def)
qed

lemma reads3_if [contract]:
  assumes "fs = b # gs" "b \<Longrightarrow> reads3 f gs d v" "\<not> b \<Longrightarrow> reads3 g gs d v"
  shows "reads3 (if3 f g) fs d v"
  unfolding if3_def by (rule reads3_bind [OF reads3_flag [of b]]) (use assms in auto)

lemma reads3_catch [contract]: "reads3 f fs d v \<Longrightarrow> reads3 (\<lambda>inp s. catch_io (f inp s)) fs d v"
  by (simp add: reads3_def)

subsection \<open>The loose encoding\<close>

lemma putsL_seq [contract]: "putsL f d \<Longrightarrow> putsL g e \<Longrightarrow> h = d @ e \<Longrightarrow> putsL (seqL f g) h"
  by (simp add: putsL_def seqL_def)

lemma putsL_ok [contract]: "putsL Ok []"
  by (simp add: putsL_def)

lemma putsL_catch [contract]: "putsL f d \<Longrightarrow> putsL (\<lambda>out. catch_io (f out)) d"
  by (simp add: putsL_def)

lemma getsL_bind [contract]:
  assumes "getsL f d a" "getsL (g a) e v" "h = d @ e"
  shows "getsL (bindL f g) h v"
  unfolding getsL_def
proof (intro allI impI)
  fix inp rest br assume i: "delivers inp (h @ rest) br"
  then obtain i1 where 1: "f inp = Ok (a, i1)" "delivers i1 (e @ rest) br"
    using assms(1,3) unfolding getsL_def append_assoc by fastforce
  then show "\<exists>inp'. bindL f g inp = Ok (v, inp') \<and> delivers inp' rest br"
    using assms(2) unfolding getsL_def bindL_def by fastforce
qed

lemma getsL_ret [contract]: "v = a \<Longrightarrow> getsL (retL a) [] v"
  by (simp add: getsL_def retL_def)

lemma getsL_catch [contract]: "getsL f d v \<Longrightarrow> getsL (\<lambda>inp. catch_io (f inp)) d v"
  by (simp add: getsL_def)

context codec
begin

lemma contracts:
  assumes "ok v"
  shows "putsL (put v) (enc v)" "getsL get (enc v) v"
  using assms put_law get_law by (simp_all add: putsL_def getsL_def)

end

section \<open>The interface of a marshaller\<close>

text \<open>\<open>seen v\<close> is what the reader gets of \<open>v\<close>.\<close>

locale tight_codec =
  fixes ok :: "'v \<Rightarrow> bool" and seen :: "'v \<Rightarrow> 'w" and flags :: "'v \<Rightarrow> bool list" and bytes :: "'v \<Rightarrow> byte list"
    and pass1 :: "'v \<Rightarrow> boolean_stream \<Rightarrow> (size \<times> boolean_stream) result"
    and pass2 :: "'v \<Rightarrow> data_output \<Rightarrow> boolean_stream \<Rightarrow> (data_output \<times> boolean_stream) result"
    and get :: "data_input \<Rightarrow> boolean_stream \<Rightarrow> ('w \<times> data_input \<times> boolean_stream) result"
  assumes pass1_law: "ok v \<Longrightarrow> writes1 (pass1 v) (flags v) (length (bytes v))"
    and pass2_law: "ok v \<Longrightarrow> writes2 (pass2 v) (flags v) (bytes v)"
    and get_law: "ok v \<Longrightarrow> reads3 get (flags v) (bytes v) (seen v)"
begin

text \<open>A value on its own: its flags in a stream of their own, then its data.\<close>

lemma command_written:
  assumes "ok v" "length (flags v) \<le> 262128"
  obtains s where "pass1 v BooleanStream_new = Ok (word_of_nat (length (bytes v)), s)" "holds s (flags v)"
    "\<And>out. is_open out \<Longrightarrow> \<exists>s'. pass2 v out (BooleanStream_clear s) = Ok (appended out (bytes v), s')"
proof -
  obtain s where s: "pass1 v BooleanStream_new = Ok (word_of_nat (length (bytes v)), s)" "holds s (flags v)"
    using pass1_law [OF assms(1)] holds_new assms(2) unfolding writes1_def by fastforce
  have "\<exists>s'. pass2 v out (BooleanStream_clear s) = Ok (appended out (bytes v), s')" if "is_open out" for out
    using pass2_law [OF assms(1)] upcoming_clear [OF s(2)] that unfolding writes2_def by (metis append_Nil2)
  with s show thesis by (rule that)
qed

lemma command_read:
  assumes "ok v" "holds s (flags v)" "delivers inp (flags_enc s @ bytes v @ rest) br"
  obtains in1 s1 in2 s2 where "BooleanStream_unmarshal inp t = Ok (in1, s1)" "get in1 s1 = Ok (seen v, in2, s2)"
    "delivers in2 rest br"
proof -
  obtain in1 s1 where 1: "BooleanStream_unmarshal inp t = Ok (in1, s1)" "delivers in1 (bytes v @ rest) br"
    "upcoming s1 (flags v @ [])"
    using unmarshal_law [OF assms(2,3), of t] upcoming_reading by auto
  then show thesis using get_law [OF assms(1)] that unfolding reads3_def by meson
qed

end

locale loose_codec =
  fixes ok :: "'v \<Rightarrow> bool" and seen :: "'v \<Rightarrow> 'w" and bytes :: "'v \<Rightarrow> byte list"
    and put :: "'v \<Rightarrow> data_output \<Rightarrow> data_output result"
    and get :: "data_input \<Rightarrow> ('w \<times> data_input) result"
  assumes put_law: "ok v \<Longrightarrow> putsL (put v) (bytes v)"
    and get_law: "ok v \<Longrightarrow> getsL get (bytes v) (seen v)"

text \<open>A marshaller for both encodings.\<close>

locale marshalled = tight_codec ok seen flags bytes pass1 pass2 get + loose: loose_codec ok seen lbytes put getL
  for ok :: "'v \<Rightarrow> bool" and seen :: "'v \<Rightarrow> 'w" and flags bytes pass1 pass2 get lbytes put getL

end
