(* ===== verification/Base_Marshaller.thy ===== *)
theory Base_Marshaller
  imports Marshal_Contracts String_Utils Identifiers
begin

text \<open>
  \<open>activemq/wireformat/openwire/marshal/BaseDataStreamMarshaller.cpp\<close>: the fields every generated
  marshaller is made of, in the tight encoding (a pass that writes the flags and counts the bytes, a pass
  that writes the bytes) and in the loose one. \<open>ste\<close> is the wire format's \<open>isStackTraceEnabled()\<close>.
\<close>

section \<open>Strings\<close>

definition readAsciiString :: "data_input \<Rightarrow> (string \<times> data_input) result" where
  "readAsciiString dataIn =
     catch_io (rbind (readShort dataIn) (\<lambda>(v, in1).
       if sint v > 0 then
         rbind (readFully2 (Some (replicate (nat (sint v)) 0)) (sint v) in1) (\<lambda>(data, in2).
         Ok (map char_of_byte (the data), in2))
       else Ok ([], in1)))"

definition tightUnmarshalString :: "data_input \<Rightarrow> boolean_stream \<Rightarrow> (string \<times> data_input \<times> boolean_stream) result" where
  "tightUnmarshalString = (\<lambda>dataIn bs.
     catch_io (if3 (if3 (get3 readAsciiString) (get3 readUTF)) (ret3 []) dataIn bs))"

text \<open>The loop over the characters, which are signed.\<close>

definition string1_loop :: "string \<Rightarrow> int \<times> bool" where
  "string1_loop val =
     foldl (\<lambda>(utflen, isOnlyAscii) x. let c = schar x in
       if c \<ge> 0x0001 \<and> c \<le> 0x007F then (utflen + 1, isOnlyAscii)
       else if c > 0x07FF then (utflen + 3, False) else (utflen + 2, False)) (0, True) val"

definition tightMarshalString1 :: "string \<Rightarrow> boolean_stream \<Rightarrow> (size \<times> boolean_stream) result" where
  "tightMarshalString1 val = (\<lambda>bs.
     catch_io (seq1 (flag1 (val \<noteq> []))
       (if val \<noteq> [] then
          let (utflen, isOnlyAscii) = string1_loop val
          in if utflen \<ge> 0x10000 then (\<lambda>bs. Throw IOException)
             else seq1 (flag1 isOnlyAscii) (size_only (word_of_int (utflen + 2)))
        else size_only 0) bs))"

definition tightMarshalString2 :: "string \<Rightarrow> data_output \<Rightarrow> boolean_stream \<Rightarrow> (data_output \<times> boolean_stream) result" where
  "tightMarshalString2 val = (\<lambda>dataOut bs.
     catch_io (if2
       (if2 (put2 (seqL (writeShort (word_of_nat (length val))) (writeBytes val))) (put2 (writeUTF val)))
       skip2 dataOut bs))"

definition looseMarshalString :: "string \<Rightarrow> data_output \<Rightarrow> data_output result" where
  "looseMarshalString val = (\<lambda>dataOut.
     catch_io (seqL (writeBoolean (val \<noteq> [])) (if val \<noteq> [] then writeUTF val else Ok) dataOut))"

definition looseUnmarshalString :: "data_input \<Rightarrow> (string \<times> data_input) result" where
  "looseUnmarshalString = (\<lambda>dataIn.
     catch_io (bindL readBoolean (\<lambda>b. if b then readUTF else retL []) dataIn))"

section \<open>Longs\<close>

definition tightMarshalLong1 :: "64 word \<Rightarrow> boolean_stream \<Rightarrow> (size \<times> boolean_stream) result" where
  "tightMarshalLong1 val = (\<lambda>bs.
     catch_io ((if val = 0 then seq1 (flag1 False) (flag1 False)
       else if val AND 0xFFFFFFFFFFFF0000 = 0 then seq1 (flag1 False) (seq1 (flag1 True) (size_only 2))
       else if val AND 0xFFFFFFFF00000000 = 0 then seq1 (flag1 True) (seq1 (flag1 False) (size_only 4))
       else seq1 (flag1 True) (seq1 (flag1 True) (size_only 8))) bs))"

definition tightMarshalLong2 :: "64 word \<Rightarrow> data_output \<Rightarrow> boolean_stream \<Rightarrow> (data_output \<times> boolean_stream) result" where
  "tightMarshalLong2 val = (\<lambda>dataOut bs.
     catch_io (if2
       (if2 (put2 (writeLong val)) (put2 (writeInt (ucast val))))
       (if2 (put2 (writeShort (ucast val))) skip2) dataOut bs))"

definition tightUnmarshalLong :: "data_input \<Rightarrow> boolean_stream \<Rightarrow> (64 word \<times> data_input \<times> boolean_stream) result" where
  "tightUnmarshalLong = (\<lambda>dataIn bs.
     catch_io (if3
       (if3 (get3 readLong) (bind3 (get3 readInt) (\<lambda>v. ret3 (ucast v))))
       (if3 (bind3 (get3 readUnsignedShort) (\<lambda>v. ret3 (ucast v))) (ret3 0)) dataIn bs))"

definition looseMarshalLong :: "64 word \<Rightarrow> data_output \<Rightarrow> data_output result" where
  "looseMarshalLong val = (\<lambda>dataOut. catch_io (writeLong val dataOut))"

definition looseUnmarshalLong :: "data_input \<Rightarrow> (64 word \<times> data_input) result" where
  "looseUnmarshalLong = (\<lambda>dataIn. catch_io (readLong dataIn))"

section \<open>Byte arrays\<close>

text \<open>\<open>data.resize(size); readFully(&data[0], data.size())\<close> for a positive \<open>size\<close>\<close>

definition read_vector :: "int \<Rightarrow> data_input \<Rightarrow> (byte list \<times> data_input) result" where
  "read_vector sz =
     (if sz > 0
      then bindL (readFully2 (Some (replicate (nat sz) 0)) sz) (\<lambda>data. retL (the data))
      else retL [])"

definition tightUnmarshalByteArray :: "data_input \<Rightarrow> boolean_stream \<Rightarrow> (byte list \<times> data_input \<times> boolean_stream) result" where
  "tightUnmarshalByteArray = (\<lambda>dataIn bs.
     catch_io (if3 (bind3 (get3 readInt) (\<lambda>sz. get3 (read_vector (sint sz)))) (ret3 []) dataIn bs))"

definition looseUnmarshalByteArray :: "data_input \<Rightarrow> (byte list \<times> data_input) result" where
  "looseUnmarshalByteArray = (\<lambda>dataIn.
     catch_io (bindL readBoolean (\<lambda>b.
       if b then bindL readInt (\<lambda>sz. read_vector (sint sz)) else retL []) dataIn))"

definition tightUnmarshalConstByteArray :: "int \<Rightarrow> data_input \<Rightarrow> boolean_stream \<Rightarrow> (byte list \<times> data_input \<times> boolean_stream) result" where
  "tightUnmarshalConstByteArray sz = (\<lambda>dataIn bs. catch_io (get3 (read_vector sz) dataIn bs))"

definition looseUnmarshalConstByteArray :: "int \<Rightarrow> data_input \<Rightarrow> (byte list \<times> data_input) result" where
  "looseUnmarshalConstByteArray sz = (\<lambda>dataIn. catch_io (read_vector sz dataIn))"

section \<open>Broker errors\<close>

record stack_trace_element =
  ClassName :: string
  FileName :: string
  MethodName :: string
  LineNumber :: "32 word"

text \<open>\<open>BrokerError\<close>; its local exception is not sent. The pointer to an error is an option.\<close>

datatype broker_error = BrokerError
  (message: string) (exceptionClass: string) (stackTraceElements: "stack_trace_element list") (cause: "broker_error option")

definition element1 :: "stack_trace_element \<Rightarrow> boolean_stream \<Rightarrow> (size \<times> boolean_stream) result" where
  "element1 e = seq1 (tightMarshalString1 (ClassName e)) (seq1 (tightMarshalString1 (MethodName e))
     (seq1 (tightMarshalString1 (FileName e)) (size_only 4)))"

definition element2 :: "stack_trace_element \<Rightarrow> data_output \<Rightarrow> boolean_stream \<Rightarrow> (data_output \<times> boolean_stream) result" where
  "element2 e = seq2 (tightMarshalString2 (ClassName e)) (seq2 (tightMarshalString2 (MethodName e))
     (seq2 (tightMarshalString2 (FileName e)) (put2 (writeInt (LineNumber e)))))"

definition element3 :: "data_input \<Rightarrow> boolean_stream \<Rightarrow> (stack_trace_element \<times> data_input \<times> boolean_stream) result" where
  "element3 =
     bind3 tightUnmarshalString (\<lambda>c. bind3 tightUnmarshalString (\<lambda>m. bind3 tightUnmarshalString (\<lambda>f.
     bind3 (get3 readInt) (\<lambda>l. ret3 \<lparr>ClassName = c, FileName = f, MethodName = m, LineNumber = l\<rparr>))))"

definition elementL :: "stack_trace_element \<Rightarrow> data_output \<Rightarrow> data_output result" where
  "elementL e = seqL (looseMarshalString (ClassName e)) (seqL (looseMarshalString (MethodName e))
     (seqL (looseMarshalString (FileName e)) (writeInt (LineNumber e))))"

definition elementG :: "data_input \<Rightarrow> (stack_trace_element \<times> data_input) result" where
  "elementG =
     bindL looseUnmarshalString (\<lambda>c. bindL looseUnmarshalString (\<lambda>m. bindL looseUnmarshalString (\<lambda>f.
     bindL readInt (\<lambda>l. retL \<lparr>ClassName = c, FileName = f, MethodName = m, LineNumber = l\<rparr>))))"

fun elements1 :: "stack_trace_element list \<Rightarrow> boolean_stream \<Rightarrow> (size \<times> boolean_stream) result" where
  "elements1 [] = size_only 0"
| "elements1 (e # es) = seq1 (element1 e) (elements1 es)"

fun elements2 :: "stack_trace_element list \<Rightarrow> data_output \<Rightarrow> boolean_stream \<Rightarrow> (data_output \<times> boolean_stream) result" where
  "elements2 [] = skip2"
| "elements2 (e # es) = seq2 (element2 e) (elements2 es)"

fun elements3 :: "nat \<Rightarrow> data_input \<Rightarrow> boolean_stream \<Rightarrow> (stack_trace_element list \<times> data_input \<times> boolean_stream) result" where
  "elements3 0 = ret3 []"
| "elements3 (Suc n) = bind3 element3 (\<lambda>e. bind3 (elements3 n) (\<lambda>es. ret3 (e # es)))"

fun elementsL :: "stack_trace_element list \<Rightarrow> data_output \<Rightarrow> data_output result" where
  "elementsL [] = Ok"
| "elementsL (e # es) = seqL (elementL e) (elementsL es)"

fun elementsG :: "nat \<Rightarrow> data_input \<Rightarrow> (stack_trace_element list \<times> data_input) result" where
  "elementsG 0 = retL []"
| "elementsG (Suc n) = bindL elementG (\<lambda>e. bindL (elementsG n) (\<lambda>es. retL (e # es)))"

text \<open>The number of elements as a \<open>short\<close>.\<close>

definition short_length :: "stack_trace_element list \<Rightarrow> 16 word" where
  "short_length es = word_of_nat (length es)"

fun tightMarshalBrokerError1 :: "bool \<Rightarrow> broker_error option \<Rightarrow> boolean_stream \<Rightarrow> (size \<times> boolean_stream) result" where
  "tightMarshalBrokerError1 ste None = (\<lambda>bs. catch_io (flag1 False bs))"
| "tightMarshalBrokerError1 ste (Some (BrokerError msg cls els cse)) = (\<lambda>bs.
     catch_io (seq1 (flag1 True) (seq1 (tightMarshalString1 cls) (seq1 (tightMarshalString1 msg)
       (if ste then seq1 (size_only 2) (seq1 (elements1 els) (tightMarshalBrokerError1 ste cse))
        else size_only 0))) bs))"

text \<open>The loop of the second pass runs to the number of elements as a \<open>short\<close>, negative or truncated.\<close>

fun tightMarshalBrokerError2 :: "bool \<Rightarrow> broker_error option \<Rightarrow> data_output \<Rightarrow> boolean_stream \<Rightarrow> (data_output \<times> boolean_stream) result" where
  "tightMarshalBrokerError2 ste None = (\<lambda>dataOut bs.
     catch_io (if2 (\<lambda>dataOut bs. Throw MemoryFault) skip2 dataOut bs))"
| "tightMarshalBrokerError2 ste (Some (BrokerError msg cls els cse)) = (\<lambda>dataOut bs.
     catch_io (if2 (seq2 (tightMarshalString2 cls) (seq2 (tightMarshalString2 msg)
       (if ste then seq2 (put2 (writeShort (short_length els)))
          (seq2 (elements2 (take (nat (sint (short_length els))) els)) (tightMarshalBrokerError2 ste cse))
        else skip2))) skip2 dataOut bs))"

text \<open>\<open>n\<close> is the room on the stack for nested calls; beyond it the program dies.\<close>

fun tightUnmarshalBrokerError :: "nat \<Rightarrow> bool \<Rightarrow> data_input \<Rightarrow> boolean_stream \<Rightarrow> (broker_error option \<times> data_input \<times> boolean_stream) result" where
  "tightUnmarshalBrokerError 0 ste = (\<lambda>dataIn bs. Throw MemoryFault)"
| "tightUnmarshalBrokerError (Suc n) ste = (\<lambda>dataIn bs.
     catch_io (if3 (bind3 tightUnmarshalString (\<lambda>cls. bind3 tightUnmarshalString (\<lambda>msg.
       if ste then
         bind3 (get3 readShort) (\<lambda>len. bind3 (elements3 (nat (sint len))) (\<lambda>els.
         bind3 (tightUnmarshalBrokerError n ste) (\<lambda>cse. ret3 (Some (BrokerError msg cls els cse)))))
       else ret3 (Some (BrokerError msg cls [] None))))) (ret3 None) dataIn bs))"

fun looseMarshalBrokerError :: "bool \<Rightarrow> broker_error option \<Rightarrow> data_output \<Rightarrow> data_output result" where
  "looseMarshalBrokerError ste None = (\<lambda>dataOut. catch_io (doWriteByte 0 dataOut))"
| "looseMarshalBrokerError ste (Some (BrokerError msg cls els cse)) = (\<lambda>dataOut.
     catch_io (seqL (doWriteByte 1) (seqL (looseMarshalString cls) (seqL (looseMarshalString msg)
       (if ste then seqL (writeShort (short_length els)) (seqL (elementsL els) (looseMarshalBrokerError ste cse))
        else Ok))) dataOut))"

fun looseUnmarshalBrokerError :: "nat \<Rightarrow> bool \<Rightarrow> data_input \<Rightarrow> (broker_error option \<times> data_input) result" where
  "looseUnmarshalBrokerError 0 ste = (\<lambda>dataIn. Throw MemoryFault)"
| "looseUnmarshalBrokerError (Suc n) ste = (\<lambda>dataIn.
     catch_io (bindL readBoolean (\<lambda>b. if b then
       bindL looseUnmarshalString (\<lambda>cls. bindL looseUnmarshalString (\<lambda>msg.
       if ste then
         bindL readShort (\<lambda>len. bindL (elementsG (nat (sint len))) (\<lambda>els.
         bindL (looseUnmarshalBrokerError n ste) (\<lambda>cse. retL (Some (BrokerError msg cls els cse)))))
       else retL (Some (BrokerError msg cls [] None)))) else retL None) dataIn))"

section \<open>Contracts of the fields\<close>

lemmas data_contracts [contract] =
  bool.contracts [OF TrueI] byte.contracts [OF TrueI] short.contracts [OF TrueI] ushort.contracts [OF TrueI]
  int.contracts [OF TrueI] long.contracts [OF TrueI] utf.contracts

definition only_ascii :: "string \<Rightarrow> bool" where
  "only_ascii v \<longleftrightarrow> (\<forall>c \<in> set v. 0 < (of_char c :: nat) \<and> of_char c \<le> (127 :: nat))"

definition str_ok :: "string \<Rightarrow> bool" where
  "str_ok v \<longleftrightarrow> utf_ok v \<and> (only_ascii v \<longrightarrow> length v \<le> 32767)"

definition str_flags :: "string \<Rightarrow> bool list" where
  "str_flags v = (if v = [] then [False] else [True, only_ascii v])"

definition str_bytes :: "string \<Rightarrow> byte list" where
  "str_bytes v = (if v = [] then [] else if only_ascii v then bytes16 (word_of_nat (length v)) @ string_bytes v else utf_enc v)"

lemma utf_char_length: "length (utf_char c) = (if 0 < (of_char c :: nat) \<and> of_char c \<le> (127 :: nat) then 1 else 2)"
  by (simp add: utf_char_eq Let_def)

lemma schar_ascii: "schar c \<ge> 1 \<and> schar c \<le> 127 \<longleftrightarrow> 0 < (of_char c :: nat) \<and> of_char c \<le> (127 :: nat)" "\<not> schar c > 2047"
proof -
  obtain n :: nat where n: "of_char c = n" "n < 256" using of_char_256 by blast
  have "schar c = (if n < 128 then int n else int n - 256)" unfolding schar_def n(1) Let_def by simp
  then show "schar c \<ge> 1 \<and> schar c \<le> 127 \<longleftrightarrow> 0 < (of_char c :: nat) \<and> of_char c \<le> (127 :: nat)" "\<not> schar c > 2047"
    using n(2) unfolding n(1) by auto
qed

lemma string1_loop_eq: "string1_loop v = (int (length (utf_bytes v)), only_ascii v)"
proof -
  have "foldl (\<lambda>(utflen, isOnlyAscii) x. let c = schar x in
       if c \<ge> 0x0001 \<and> c \<le> 0x007F then (utflen + 1, isOnlyAscii)
       else if c > 0x07FF then (utflen + 3, False) else (utflen + 2, False)) (n, a) v =
    (n + int (length (utf_bytes v)), a \<and> only_ascii v)" for n a
  proof (induction v arbitrary: n a)
    case (Cons c v)
    show ?case
      using Cons.IH schar_ascii [of c] by (cases "0 < (of_char c :: nat) \<and> of_char c \<le> (127 :: nat)")
        (auto simp: Let_def utf_bytes_def only_ascii_def utf_char_length)
  qed (simp add: utf_bytes_def only_ascii_def)
  then show ?thesis by (simp add: string1_loop_def)
qed

lemma ascii_utf_length: "only_ascii v \<Longrightarrow> length (utf_bytes v) = length v"
  by (induction v) (auto simp: only_ascii_def utf_bytes_def utf_char_length)

lemma str_bytes_length:
  "length (str_bytes v) = (if v = [] then 0 else length (utf_bytes v) + 2)"
  by (simp add: str_bytes_def utf_enc_def bytes16_def string_bytes_def ascii_utf_length)

lemma writeBytes_putsL: "putsL (writeBytes v) (string_bytes v)"
proof -
  have "length v = length (string_bytes v)" by (simp add: string_bytes_def)
  then show ?thesis
    using write_array [of _ "string_bytes v"]
    by (auto simp: putsL_def writeBytes_def string_bytes_def)
qed

lemma readAsciiString_getsL:
  assumes "length v \<le> 32767"
  shows "getsL readAsciiString (bytes16 (word_of_nat (length v)) @ string_bytes v) v"
  unfolding getsL_def
proof (intro allI impI)
  fix inp rest br
  let ?n = "word_of_nat (length v) :: 16 word"
  assume d: "delivers inp ((bytes16 ?n @ string_bytes v) @ rest) br"
  have n: "sint ?n = int (length v)"
    using assms signed_take_bit_int_eq_self [of 15 "int (length v)"] by (simp add: signed_of_nat)
  obtain in1 where in1: "readShort inp = Ok (?n, in1)" "delivers in1 (string_bytes v @ rest) br"
    using short.get_law [OF TrueI, of inp ?n "string_bytes v @ rest" br] d by auto
  show "\<exists>inp'. readAsciiString inp = Ok (v, inp') \<and> delivers inp' rest br"
  proof (cases "v = []")
    case True
    then show ?thesis using in1 n by (auto simp: readAsciiString_def string_bytes_def)
  next
    case False
    then obtain in2 where "readFully2 (Some (replicate (length v) 0)) (int (length v)) in1 = Ok (Some (string_bytes v), in2)" "delivers in2 rest br"
      using readFully2_law [of "length v" "replicate (length v) 0" in1 "string_bytes v @ rest" br] in1(2)
      by (auto simp: string_bytes_def)
    then show ?thesis using in1(1) n False by (simp add: readAsciiString_def string_bytes_def comp_def)
  qed
qed

lemma readAsciiString_negative:
  assumes "32768 \<le> k" "k \<le> 65535"
  shows "getsL readAsciiString (bytes16 (word_of_nat k)) []"
proof -
  let ?n = "word_of_nat k :: 16 word"
  have "(int k - 32768 + 65536) mod 65536 = int k - 32768"
    using assms by (subst mod_add_self2) (simp add: mod_pos_pos_trivial)
  then have "signed_take_bit 15 (int k) = int k - 65536"
    by (simp add: signed_take_bit_eq_take_bit_shift take_bit_eq_mod algebra_simps)
  then have "\<not> sint ?n > 0" using assms by (simp add: signed_of_nat)
  moreover have "getsL readShort (bytes16 ?n) ?n" by (rule short.contracts(2) [OF TrueI])
  ultimately show ?thesis unfolding getsL_def readAsciiString_def by fastforce
qed

lemma string_pass1: "utf_ok v \<Longrightarrow> writes1 (tightMarshalString1 v) (str_flags v) (length (str_bytes v))"
proof -
  assume "utf_ok v"
  then have "\<not> int (length (utf_bytes v)) \<ge> 0x10000" by (simp add: utf_ok_def)
  then have "tightMarshalString1 v = (\<lambda>bs. catch_io (seq1 (flag1 (v \<noteq> []))
     (if v \<noteq> [] then seq1 (flag1 (only_ascii v)) (size_only (word_of_int (int (length (utf_bytes v)) + 2)))
      else size_only 0) bs))"
    by (simp add: tightMarshalString1_def string1_loop_eq)
  moreover have "writes1 \<dots> (str_flags v) (length (str_bytes v))"
    by (cases "v = []") (auto simp: str_flags_def str_bytes_length intro!: contract)
  ultimately show ?thesis by simp
qed

lemma string_pass2: "utf_ok v \<Longrightarrow> writes2 (tightMarshalString2 v) (str_flags v) (str_bytes v)"
  unfolding tightMarshalString2_def
  by (cases "v = []"; cases "only_ascii v")
    (auto simp: str_flags_def str_bytes_def intro!: contract writeBytes_putsL)

lemma string_get: "str_ok v \<Longrightarrow> reads3 tightUnmarshalString (str_flags v) (str_bytes v) v"
  unfolding tightUnmarshalString_def
  by (cases "v = []"; cases "only_ascii v")
    (auto simp: str_flags_def str_bytes_def str_ok_def intro!: contract readAsciiString_getsL)

interpretation str: tight_codec str_ok "\<lambda>v. v" str_flags str_bytes tightMarshalString1 tightMarshalString2 tightUnmarshalString
  by unfold_locales (simp_all add: string_pass1 string_pass2 string_get str_ok_def)

definition loose_str :: "string \<Rightarrow> byte list" where
  "loose_str v = (if v = [] then [0] else 1 # utf_enc v)"

interpretation loose_str: loose_codec utf_ok "\<lambda>v. v" loose_str looseMarshalString looseUnmarshalString
proof
  fix v assume v: "utf_ok v"
  have b: "loose_str v = [if v \<noteq> [] then 1 else 0] @ (if v = [] then [] else utf_enc v)" by (simp add: loose_str_def)
  show "putsL (looseMarshalString v) (loose_str v)"
    unfolding looseMarshalString_def b using v
    by (intro putsL_catch putsL_seq [OF bool.contracts(1) [OF TrueI]] refl) (auto intro!: contract)
  show "getsL looseUnmarshalString (loose_str v) v"
    unfolding looseUnmarshalString_def b using v
    by (intro getsL_catch getsL_bind [OF bool.contracts(2) [OF TrueI]] refl) (auto intro!: contract)
qed

definition long_flags :: "64 word \<Rightarrow> bool list" where
  "long_flags v =
     (if v = 0 then [False, False] else if v AND 0xFFFFFFFFFFFF0000 = 0 then [False, True]
      else if v AND 0xFFFFFFFF00000000 = 0 then [True, False] else [True, True])"

definition long_bytes :: "64 word \<Rightarrow> byte list" where
  "long_bytes v =
     (if v = 0 then [] else if v AND 0xFFFFFFFFFFFF0000 = 0 then bytes16 (ucast v)
      else if v AND 0xFFFFFFFF00000000 = 0 then bytes32 (ucast v) else bytes64 v)"

lemma low_bits: "(v :: 64 word) AND NOT (mask n) = 0 \<Longrightarrow> v AND mask n = v"
proof -
  have "v = (v AND mask n) OR (v AND NOT (mask n))" by (rule bit_word_eqI) (auto simp: bit_simps)
  moreover assume "v AND NOT (mask n) = 0"
  ultimately show ?thesis by simp
qed

lemma short_long: "v AND 0xFFFFFFFFFFFF0000 = 0 \<Longrightarrow> ucast (ucast v :: 16 word) = (v :: 64 word)"
proof -
  assume "v AND 0xFFFFFFFFFFFF0000 = 0"
  moreover have "(0xFFFFFFFFFFFF0000 :: 64 word) = NOT (mask 16)" by (simp add: mask_eq_exp_minus_1)
  ultimately have "v AND mask 16 = v" using low_bits by metis
  moreover have "ucast (ucast v :: 16 word) = v AND mask 16" by (rule bit_word_eqI) (auto simp: bit_simps)
  ultimately show ?thesis by simp
qed

lemma int_long: "v AND 0xFFFFFFFF00000000 = 0 \<Longrightarrow> ucast (ucast v :: 32 word) = (v :: 64 word)"
proof -
  assume "v AND 0xFFFFFFFF00000000 = 0"
  moreover have "(0xFFFFFFFF00000000 :: 64 word) = NOT (mask 32)" by (simp add: mask_eq_exp_minus_1)
  ultimately have "v AND mask 32 = v" using low_bits by metis
  moreover have "ucast (ucast v :: 32 word) = v AND mask 32" by (rule bit_word_eqI) (auto simp: bit_simps)
  ultimately show ?thesis by simp
qed

lemma fixed_lengths [simp]: "length (bytes16 a) = 2" "length (bytes32 b) = 4" "length (bytes64 c) = 8"
  by (simp_all add: bytes16_def bytes32_def bytes64_def)

interpretation lng: tight_codec "\<lambda>_. True" "\<lambda>v. v" long_flags long_bytes tightMarshalLong1 tightMarshalLong2 tightUnmarshalLong
proof
  fix v :: "64 word"
  consider (zero) "v = 0" | (short) "v \<noteq> 0" "v AND 0xFFFFFFFFFFFF0000 = 0"
    | (int) "v \<noteq> 0" "v AND 0xFFFFFFFFFFFF0000 \<noteq> 0" "v AND 0xFFFFFFFF00000000 = 0"
    | (long) "v \<noteq> 0" "v AND 0xFFFFFFFFFFFF0000 \<noteq> 0" "v AND 0xFFFFFFFF00000000 \<noteq> 0" by blast
  note cases = this
  show "writes1 (tightMarshalLong1 v) (long_flags v) (length (long_bytes v))"
    unfolding tightMarshalLong1_def long_flags_def long_bytes_def
    by (cases rule: cases) (auto intro!: contract)
  show "writes2 (tightMarshalLong2 v) (long_flags v) (long_bytes v)"
    unfolding tightMarshalLong2_def long_flags_def long_bytes_def
    by (cases rule: cases) (auto intro!: contract)
  show "reads3 tightUnmarshalLong (long_flags v) (long_bytes v) v"
    unfolding tightUnmarshalLong_def long_flags_def long_bytes_def
    by (cases rule: cases) (auto intro!: contract simp: short_long int_long)
qed

interpretation loose_lng: loose_codec "\<lambda>_. True" "\<lambda>v. v" bytes64 looseMarshalLong looseUnmarshalLong
  by unfold_locales (auto simp: looseMarshalLong_def looseUnmarshalLong_def intro!: contract)

section \<open>Contracts of broker errors\<close>

definition el_ok :: "stack_trace_element \<Rightarrow> bool" where
  "el_ok e \<longleftrightarrow> str_ok (ClassName e) \<and> str_ok (MethodName e) \<and> str_ok (FileName e)"

definition el_flags :: "stack_trace_element \<Rightarrow> bool list" where
  "el_flags e = str_flags (ClassName e) @ str_flags (MethodName e) @ str_flags (FileName e)"

definition el_bytes :: "stack_trace_element \<Rightarrow> byte list" where
  "el_bytes e = str_bytes (ClassName e) @ str_bytes (MethodName e) @ str_bytes (FileName e) @ bytes32 (LineNumber e)"

definition el_loose :: "stack_trace_element \<Rightarrow> byte list" where
  "el_loose e = loose_str (ClassName e) @ loose_str (MethodName e) @ loose_str (FileName e) @ bytes32 (LineNumber e)"

lemmas field_contracts [contract] =
  str.pass1_law str.pass2_law str.get_law loose_str.put_law loose_str.get_law
  lng.pass1_law [OF TrueI] lng.pass2_law [OF TrueI] lng.get_law [OF TrueI]
  loose_lng.put_law [OF TrueI] loose_lng.get_law [OF TrueI]

lemma str_ok_utf [simp]: "str_ok v \<Longrightarrow> utf_ok v"
  by (simp add: str_ok_def)

interpretation elt: tight_codec el_ok "\<lambda>e. e" el_flags el_bytes element1 element2 element3
proof
  fix e assume "el_ok e"
  then have e: "str_ok (ClassName e)" "str_ok (MethodName e)" "str_ok (FileName e)" by (simp_all add: el_ok_def)
  show "writes1 (element1 e) (el_flags e) (length (el_bytes e))"
    unfolding element1_def el_flags_def el_bytes_def
    by (rule writes1_seq writes1_size [where k = 4] str.pass1_law e refl | simp)+
  show "writes2 (element2 e) (el_flags e) (el_bytes e)"
    unfolding element2_def el_flags_def el_bytes_def
    by (rule writes2_seq writes2_put str.pass2_law int.contracts e TrueI refl | simp)+
  show "reads3 element3 (el_flags e) (el_bytes e) e"
    unfolding element3_def el_flags_def el_bytes_def
    by (rule reads3_bind [OF str.get_law [OF e(1)]], rule reads3_bind [OF str.get_law [OF e(2)]],
        rule reads3_bind [OF str.get_law [OF e(3)]], rule reads3_bind [OF reads3_get, OF int.contracts(2) [OF TrueI, of "LineNumber e"]],
        rule reads3_ret) simp_all
qed

interpretation loose_elt: loose_codec el_ok "\<lambda>e. e" el_loose elementL elementG
proof
  fix e assume "el_ok e"
  then have e: "utf_ok (ClassName e)" "utf_ok (MethodName e)" "utf_ok (FileName e)" by (simp_all add: el_ok_def)
  show "putsL (elementL e) (el_loose e)"
    unfolding elementL_def el_loose_def
    by (rule putsL_seq loose_str.put_law int.contracts e TrueI refl)+
  show "getsL elementG (el_loose e) e"
    unfolding elementG_def el_loose_def
    by (rule getsL_bind [OF loose_str.get_law [OF e(1)]], rule getsL_bind [OF loose_str.get_law [OF e(2)]],
        rule getsL_bind [OF loose_str.get_law [OF e(3)]], rule getsL_bind [OF int.contracts(2) [OF TrueI, of "LineNumber e"]],
        rule getsL_ret) simp_all
qed

lemma elements_contracts:
  assumes "\<forall>e \<in> set es. el_ok e"
  shows "writes1 (elements1 es) (concat (map el_flags es)) (length (concat (map el_bytes es)))"
    and "writes2 (elements2 es) (concat (map el_flags es)) (concat (map el_bytes es))"
    and "reads3 (elements3 (length es)) (concat (map el_flags es)) (concat (map el_bytes es)) es"
    and "putsL (elementsL es) (concat (map el_loose es))"
    and "getsL (elementsG (length es)) (concat (map el_loose es)) es"
  using assms
proof (induction es)
  case (Cons e es)
  { case 1 then show ?case using Cons(1) elt.pass1_law [of e] by (auto intro!: contract) }
  { case 2 then show ?case using Cons(2) elt.pass2_law [of e] by (auto intro!: contract) }
  { case 3 then show ?case using Cons(3) elt.get_law [of e] by (auto intro!: contract) }
  { case 4 then show ?case using Cons(4) loose_elt.put_law [of e] by (auto intro!: contract) }
  { case 5 then show ?case using Cons(5) loose_elt.get_law [of e] by (auto intro!: contract) }
qed (auto intro!: contract)

text \<open>Without stack traces neither the elements nor the cause are sent.\<close>

fun err_ok :: "bool \<Rightarrow> broker_error option \<Rightarrow> bool" where
  "err_ok ste None \<longleftrightarrow> True"
| "err_ok ste (Some (BrokerError msg cls els cse)) \<longleftrightarrow> str_ok msg \<and> str_ok cls \<and>
     (ste \<longrightarrow> length els \<le> 32767 \<and> (\<forall>e \<in> set els. el_ok e) \<and> err_ok ste cse)"

fun err_depth :: "broker_error option \<Rightarrow> nat" where
  "err_depth None = 0"
| "err_depth (Some (BrokerError msg cls els cse)) = Suc (err_depth cse)"

fun err_seen :: "bool \<Rightarrow> broker_error option \<Rightarrow> broker_error option" where
  "err_seen ste None = None"
| "err_seen ste (Some (BrokerError msg cls els cse)) =
     Some (if ste then BrokerError msg cls els cse else BrokerError msg cls [] None)"

fun err_flags :: "bool \<Rightarrow> broker_error option \<Rightarrow> bool list" where
  "err_flags ste None = [False]"
| "err_flags ste (Some (BrokerError msg cls els cse)) =
     True # str_flags cls @ str_flags msg @ (if ste then concat (map el_flags els) @ err_flags ste cse else [])"

fun err_bytes :: "bool \<Rightarrow> broker_error option \<Rightarrow> byte list" where
  "err_bytes ste None = []"
| "err_bytes ste (Some (BrokerError msg cls els cse)) =
     str_bytes cls @ str_bytes msg @
     (if ste then bytes16 (short_length els) @ concat (map el_bytes els) @ err_bytes ste cse else [])"

fun err_loose :: "bool \<Rightarrow> broker_error option \<Rightarrow> byte list" where
  "err_loose ste None = [0]"
| "err_loose ste (Some (BrokerError msg cls els cse)) =
     1 # loose_str cls @ loose_str msg @
     (if ste then bytes16 (short_length els) @ concat (map el_loose els) @ err_loose ste cse else [])"

lemma short_length_int: "length els \<le> 32767 \<Longrightarrow> nat (sint (short_length els)) = length els"
  using signed_take_bit_int_eq_self [of 15 "int (length els)"] by (simp add: short_length_def signed_of_nat)

lemma err_seen_ste [simp]: "err_seen True e = e"
  by (cases "(True, e)" rule: err_seen.cases) auto

lemma error_pass1: "err_ok ste e \<Longrightarrow> writes1 (tightMarshalBrokerError1 ste e) (err_flags ste e) (length (err_bytes ste e))"
proof (induction ste e rule: err_ok.induct)
  case (2 ste msg cls els cse)
  then show ?case
    using elements_contracts(1) [of els] str.pass1_law [of msg] str.pass1_law [of cls]
    by (cases ste) (auto intro!: contract)
qed (auto intro!: contract)

lemma error_pass2: "err_ok ste e \<Longrightarrow> writes2 (tightMarshalBrokerError2 ste e) (err_flags ste e) (err_bytes ste e)"
proof (induction ste e rule: err_ok.induct)
  case (2 ste msg cls els cse)
  then show ?case
    using elements_contracts(2) [of els] str.pass2_law [of msg] str.pass2_law [of cls]
    by (cases ste) (auto simp: short_length_int intro!: contract)
qed (auto intro!: contract)

lemma error_get:
  "err_ok ste e \<Longrightarrow> err_depth e < n \<Longrightarrow> reads3 (tightUnmarshalBrokerError n ste) (err_flags ste e) (err_bytes ste e) (err_seen ste e)"
proof (induction ste e arbitrary: n rule: err_ok.induct)
  case (1 ste)
  then show ?case by (cases n) (auto intro!: contract)
next
  case (2 ste msg cls els cse)
  then obtain m where n: "n = Suc m" "err_depth cse < m" by (cases n) auto
  have strs: "reads3 tightUnmarshalString (str_flags cls) (str_bytes cls) cls" "reads3 tightUnmarshalString (str_flags msg) (str_bytes msg) msg"
    using 2(2) by (simp_all add: str.get_law)
  have tail: "reads3 (if ste then
         bind3 (get3 readShort) (\<lambda>len. bind3 (elements3 (nat (sint len))) (\<lambda>els.
         bind3 (tightUnmarshalBrokerError m ste) (\<lambda>cse. ret3 (Some (BrokerError msg cls els cse)))))
       else ret3 (Some (BrokerError msg cls [] None)))
     (if ste then concat (map el_flags els) @ err_flags ste cse else [])
     (if ste then bytes16 (short_length els) @ concat (map el_bytes els) @ err_bytes ste cse else [])
     (err_seen ste (Some (BrokerError msg cls els cse)))"
  proof (cases ste)
    case True
    have els: "reads3 (elements3 (nat (sint (short_length els)))) (concat (map el_flags els)) (concat (map el_bytes els)) els"
      using 2(2) True elements_contracts(3) [of els] by (simp add: short_length_int)
    have cse: "reads3 (tightUnmarshalBrokerError m ste) (err_flags ste cse) (err_bytes ste cse) cse" using 2 True n by auto
    show ?thesis
      unfolding if_P [OF True]
      by (rule reads3_bind [OF reads3_get, OF short.contracts(2) [OF TrueI, of "short_length els"]],
          rule reads3_bind [OF els], rule reads3_bind [OF cse], rule reads3_ret) (simp_all add: True)
  qed (simp add: reads3_ret)
  show ?case
    unfolding n tightUnmarshalBrokerError.simps
    by (rule reads3_catch, rule reads3_if [where b = True], rule err_flags.simps,
        rule reads3_bind [OF strs(1)], rule reads3_bind [OF strs(2)], rule tail) simp_all
qed

interpretation err: tight_codec "\<lambda>e. err_ok ste e \<and> err_depth e < n" "err_seen ste" "err_flags ste" "err_bytes ste"
  "tightMarshalBrokerError1 ste" "tightMarshalBrokerError2 ste" "tightUnmarshalBrokerError n ste" for ste n
  by unfold_locales (simp_all add: error_pass1 error_pass2 error_get)

lemma doWriteByte_writeByte: "doWriteByte = writeByte"
  by (intro ext) (simp add: doWriteByte_def writeByte_def)

lemma error_loose_put: "err_ok ste e \<Longrightarrow> putsL (looseMarshalBrokerError ste e) (err_loose ste e)"
proof (induction ste e rule: err_ok.induct)
  case (2 ste msg cls els cse)
  have head: "putsL (doWriteByte 1) [1]" using byte.contracts(1) [OF TrueI] by (simp add: doWriteByte_writeByte)
  show ?case
    using 2 elements_contracts(4) [of els] head
    by (cases ste) (auto intro!: contract)
qed (auto simp: doWriteByte_writeByte intro!: contract)

lemma error_loose_get:
  "err_ok ste e \<Longrightarrow> err_depth e < n \<Longrightarrow> getsL (looseUnmarshalBrokerError n ste) (err_loose ste e) (err_seen ste e)"
proof (induction ste e arbitrary: n rule: err_ok.induct)
  case (1 ste)
  have "getsL readBoolean [0] False" using bool.contracts(2) [OF TrueI, of False] by simp
  then show ?case using 1 by (cases n) (auto intro!: getsL_catch getsL_bind getsL_ret)
next
  case (2 ste msg cls els cse)
  then obtain m where n: "n = Suc m" "err_depth cse < m" by (cases n) auto
  have strs: "getsL looseUnmarshalString (loose_str cls) cls" "getsL looseUnmarshalString (loose_str msg) msg"
    using 2(2) by (simp_all add: loose_str.get_law)
  have tail: "getsL (if ste then
         bindL readShort (\<lambda>len. bindL (elementsG (nat (sint len))) (\<lambda>els.
         bindL (looseUnmarshalBrokerError m ste) (\<lambda>cse. retL (Some (BrokerError msg cls els cse)))))
       else retL (Some (BrokerError msg cls [] None)))
     (if ste then bytes16 (short_length els) @ concat (map el_loose els) @ err_loose ste cse else [])
     (err_seen ste (Some (BrokerError msg cls els cse)))"
  proof (cases ste)
    case True
    have els: "getsL (elementsG (nat (sint (short_length els)))) (concat (map el_loose els)) els"
      using 2(2) True elements_contracts(5) [of els] by (simp add: short_length_int)
    have cse: "getsL (looseUnmarshalBrokerError m ste) (err_loose ste cse) cse" using 2 True n by auto
    show ?thesis
      unfolding if_P [OF True]
      by (rule getsL_bind [OF short.contracts(2) [OF TrueI, of "short_length els"]],
          rule getsL_bind [OF els], rule getsL_bind [OF cse], rule getsL_ret) (simp_all add: True)
  qed (simp add: getsL_ret)
  show ?case
    unfolding n looseUnmarshalBrokerError.simps
    by (rule getsL_catch, rule getsL_bind [OF bool.contracts(2) [OF TrueI, of True]], simp only: if_True,
        rule getsL_bind [OF strs(1)], rule getsL_bind [OF strs(2)], rule tail) simp_all
qed

interpretation loose_err: loose_codec "\<lambda>e. err_ok ste e \<and> err_depth e < n" "err_seen ste" "err_loose ste"
  "looseMarshalBrokerError ste" "looseUnmarshalBrokerError n ste" for ste n
  by unfold_locales (simp_all add: error_loose_put error_loose_get)

section \<open>Properties\<close>

text \<open>
  \<^bold>\<open>C22.\<close> An error reported by the broker survives the wire: with strings of encodable length, at most
  32767 stack trace elements per error and room on the stack for its chain of causes, the first pass
  announces exactly the bytes that the second pass writes, and the reader gets the same error back, from
  any split of the bytes, in the tight as in the loose encoding (class and message only when stack traces
  are disabled), and consumes nothing that follows.
\<close>

theorem broker_error_roundtrip:
  assumes "err_ok ste e" "err_depth e < n" "length (err_flags ste e) \<le> 262128" "is_open out"
  shows "(\<exists>s d. tightMarshalBrokerError1 ste e BooleanStream_new = Ok (word_of_nat (length d), s) \<and>
      (\<exists>s'. tightMarshalBrokerError2 ste e out (BooleanStream_clear s) = Ok (appended out d, s')) \<and>
      (\<forall>inp rest br t. delivers inp (flags_enc s @ d @ rest) br \<longrightarrow>
        (\<exists>in1 s1 in2 s2. BooleanStream_unmarshal inp t = Ok (in1, s1) \<and>
          tightUnmarshalBrokerError n ste in1 s1 = Ok (err_seen ste e, in2, s2) \<and> delivers in2 rest br))) \<and>
    (\<exists>d. looseMarshalBrokerError ste e out = Ok (appended out d) \<and>
      (\<forall>inp rest br. delivers inp (d @ rest) br \<longrightarrow>
        (\<exists>inp'. looseUnmarshalBrokerError n ste inp = Ok (err_seen ste e, inp') \<and> delivers inp' rest br)))"
proof (rule conjI, goal_cases)
  case 1
  have e: "err_ok ste e \<and> err_depth e < n" using assms by simp
  obtain s where s: "tightMarshalBrokerError1 ste e BooleanStream_new = Ok (word_of_nat (length (err_bytes ste e)), s)"
    "holds s (err_flags ste e)"
    "\<And>out. is_open out \<Longrightarrow> \<exists>s'. tightMarshalBrokerError2 ste e out (BooleanStream_clear s) = Ok (appended out (err_bytes ste e), s')"
    using err.command_written [OF e assms(3)] by metis
  have "\<exists>in1 s1 in2 s2. BooleanStream_unmarshal inp t = Ok (in1, s1) \<and>
      tightUnmarshalBrokerError n ste in1 s1 = Ok (err_seen ste e, in2, s2) \<and> delivers in2 rest br"
    if "delivers inp (flags_enc s @ err_bytes ste e @ rest) br" for inp rest br t
    using err.command_read [OF e s(2) that, of t] by metis
  then show ?case using s(1) s(3) [OF assms(4)] by blast
next
  case 2
  have e: "err_ok ste e \<and> err_depth e < n" using assms by simp
  show ?case
    using loose_err.put_law [OF e] loose_err.get_law [OF e] assms(4) unfolding putsL_def getsL_def by blast
qed

theorem broker_error_roundtrip_witness:
  "let e = Some (BrokerError ''denied'' ''E'' [\<lparr>ClassName = ''A'', FileName = ''A.java'', MethodName = ''f'', LineNumber = 7\<rparr>]
             (Some (BrokerError ''root'' ''F'' [] None)))
   in \<exists>s d. tightMarshalBrokerError1 True e BooleanStream_new = Ok (word_of_nat (length d), s) \<and>
      (\<exists>s'. tightMarshalBrokerError2 True e new_output (BooleanStream_clear s) = Ok (appended new_output d, s'))"
proof -
  let ?e = "Some (BrokerError ''denied'' ''E'' [\<lparr>ClassName = ''A'', FileName = ''A.java'', MethodName = ''f'', LineNumber = 7\<rparr>]
             (Some (BrokerError ''root'' ''F'' [] None)))"
  have str: "str_ok ''denied''" "str_ok ''E''" "str_ok ''A''" "str_ok ''A.java''" "str_ok ''f''" "str_ok ''root''" "str_ok ''F''"
    by (simp_all add: str_ok_def utf_ok_def utf_bytes_def utf_char_length)
  then have "err_ok True ?e" "err_depth ?e < 3" "length (err_flags True ?e) \<le> 262128" "is_open new_output"
    by (simp_all add: el_ok_def el_flags_def str_flags_def is_open_def new_output_def)
  from broker_error_roundtrip [OF this] show ?thesis unfolding Let_def by blast
qed

text \<open>
  \<^bold>\<open>C40.\<close> A string of 32768 to 65535 ASCII characters is lost in the tight encoding: both writing passes
  accept it, but the reader takes its length for a negative number, returns the empty string and leaves
  the characters in the stream, where the next field is read from them.
\<close>

theorem long_ascii_string_lost:
  assumes "only_ascii v" "32768 \<le> length v" "length v \<le> 65535" "is_open out"
  shows "\<exists>s d. tightMarshalString1 v BooleanStream_new = Ok (word_of_nat (length d), s) \<and>
    (\<exists>s'. tightMarshalString2 v out (BooleanStream_clear s) = Ok (appended out d, s')) \<and>
    length d = 2 + length v \<and>
    (\<forall>inp rest br t. delivers inp (flags_enc s @ d @ rest) br \<longrightarrow>
      (\<exists>in1 s1 in2 s2. BooleanStream_unmarshal inp t = Ok (in1, s1) \<and>
        tightUnmarshalString in1 s1 = Ok ('''', in2, s2) \<and> delivers in2 (string_bytes v @ rest) br))"
proof -
  let ?n = "word_of_nat (length v) :: 16 word"
  have v: "utf_ok v" "v \<noteq> []" using assms by (auto simp: utf_ok_def ascii_utf_length)
  have b: "str_bytes v = bytes16 ?n @ string_bytes v" "str_flags v = [True, True]"
    using v assms(1) by (simp_all add: str_bytes_def str_flags_def)
  obtain s where s: "tightMarshalString1 v BooleanStream_new = Ok (word_of_nat (length (str_bytes v)), s)" "holds s [True, True]"
    using string_pass1 [OF v(1)] holds_new unfolding writes1_def b(2) by fastforce
  have "\<exists>s'. tightMarshalString2 v out (BooleanStream_clear s) = Ok (appended out (str_bytes v), s')"
    using string_pass2 [OF v(1)] upcoming_clear [OF s(2)] assms(4) unfolding writes2_def b(2) by (metis append_Nil2)
  moreover have "\<exists>in1 s1 in2 s2. BooleanStream_unmarshal inp t = Ok (in1, s1) \<and>
      tightUnmarshalString in1 s1 = Ok ([], in2, s2) \<and> delivers in2 (string_bytes v @ rest) br"
    if d: "delivers inp (flags_enc s @ str_bytes v @ rest) br" for inp rest br t
  proof -
    obtain in1 s1 where 1: "BooleanStream_unmarshal inp t = Ok (in1, s1)" "delivers in1 (bytes16 ?n @ string_bytes v @ rest) br"
      "upcoming s1 ([True, True] @ [])"
      using unmarshal_law [OF s(2), of inp "bytes16 ?n @ string_bytes v @ rest" br t] d upcoming_reading
      unfolding b(1) by auto
    have "reads3 tightUnmarshalString [True, True] (bytes16 ?n) []"
      unfolding tightUnmarshalString_def
      using assms(2,3) by (auto intro!: contract readAsciiString_negative)
    then show ?thesis using 1 unfolding reads3_def by meson
  qed
  moreover have "length (str_bytes v) = 2 + length v" unfolding b(1) by (simp add: string_bytes_def)
  ultimately show ?thesis using s(1) by blast
qed

theorem long_ascii_string_lost_witness:
  "\<exists>s d. tightMarshalString1 (replicate 40000 CHR ''a'') BooleanStream_new = Ok (word_of_nat (length d), s) \<and>
    length d = 2 + 40000 \<and>
    (\<forall>inp rest br t. delivers inp (flags_enc s @ d @ rest) br \<longrightarrow>
      (\<exists>in1 s1 in2 s2. BooleanStream_unmarshal inp t = Ok (in1, s1) \<and> tightUnmarshalString in1 s1 = Ok ([], in2, s2)))"
proof -
  let ?v = "replicate 40000 (CHR ''a'')"
  have "only_ascii ?v" "32768 \<le> length ?v" "length ?v \<le> 65535" "is_open new_output"
    by (simp_all only: only_ascii_def set_replicate_conv_if length_replicate) (simp_all add: is_open_def new_output_def)
  from long_ascii_string_lost [OF this] show ?thesis unfolding length_replicate by meson
qed

end
