(* ===== verification/Wire_Programs.thy ===== *)
theory Wire_Programs
  imports Base_Marshaller
begin

text \<open>
  The data structures of the OpenWire protocol and what their marshallers execute. Each function of a
  class in \<open>activemq/wireformat/openwire/marshal/generated\<close> is a list of statements, one for each member
  it reads or writes; this theory has the statements' meaning, the object arrays of
  \<open>BaseDataStreamMarshaller.h\<close> and the nested objects of \<open>OpenWireFormat.cpp\<close>. The argument \<open>n\<close> of the
  nested calls is the room on the stack; beyond it the program dies.
\<close>

section \<open>Data structures\<close>

text \<open>
  An object has the type code of its class and its members. A pointer to an object is an option. A member
  that a constructor has set and no setter has changed is not listed.
\<close>

datatype data_value =
    BoolV bool
  | ByteV byte
  | IntV "32 word"
  | LongV "64 word"
  | StringV string
  | BytesV "byte list"
  | ErrorV "broker_error option"
  | ObjectV "data_structure option"
  | ArrayV "data_structure option list"
and data_structure = DataStructure (ds_type: byte) (ds_members: "(string \<times> data_value) list")

section \<open>Statements\<close>

datatype kind = BoolK | ByteK | IntK | LongK | StringK | BytesK | ConstBytesK nat | ErrorK | NestedK | CachedK | ArrayK

text \<open>
  \<open>since\<close> is the bound of a guard \<open>wireVersion >= since\<close>, 0 where there is none; \<open>cast\<close> is the class of the
  \<open>dynamic_cast\<close> around a pointer that was read.
\<close>

record writing =
  w_since :: int
  w_kind :: kind
  w_member :: string

record reading_stmt =
  r_since :: int
  r_kind :: kind
  r_member :: string
  r_cast :: string

abbreviation W :: "int \<Rightarrow> kind \<Rightarrow> string \<Rightarrow> writing" where
  "W g k f \<equiv> \<lparr>w_since = g, w_kind = k, w_member = f\<rparr>"

abbreviation R :: "int \<Rightarrow> kind \<Rightarrow> string \<Rightarrow> string \<Rightarrow> reading_stmt" where
  "R g k f c \<equiv> \<lparr>r_since = g, r_kind = k, r_member = f, r_cast = c\<rparr>"

text \<open>A marshaller: its five functions, and the constant that \<open>tightMarshal1\<close> adds for the members of fixed size.\<close>

record marshaller =
  tightUnmarshal :: "reading_stmt list"
  tightMarshal1 :: "writing list"
  fixed_size :: nat
  tightMarshal2 :: "writing list"
  looseUnmarshal :: "reading_stmt list"
  looseMarshal :: "writing list"

definition active :: "int \<Rightarrow> int \<Rightarrow> bool" where
  "active version since \<longleftrightarrow> since = 0 \<or> version \<ge> since"

text \<open>\<open>dynamic_cast\<close> to a class, given by the type codes of the class and its subclasses.\<close>

definition cast_to :: "(string \<Rightarrow> byte list) \<Rightarrow> string \<Rightarrow> data_structure option \<Rightarrow> data_structure option" where
  "cast_to codes c obj =
     (case obj of None \<Rightarrow> None | Some d \<Rightarrow> (if c = ''DataStructure'' \<or> ds_type d \<in> set (codes c) then Some d else None))"

text \<open>
  The setters assign, but \<open>ActiveMQDestination::setPhysicalName\<close> cuts the options off the name.
\<close>

definition set_member :: "string \<Rightarrow> data_value \<Rightarrow> string \<times> data_value" where
  "set_member f v =
     (f, case v of StringV s \<Rightarrow> StringV (if f = ''PhysicalName'' then takeWhile (\<lambda>c. c \<noteq> CHR ''?'') s else s) | _ \<Rightarrow> v)"

section \<open>Object arrays\<close>

type_synonym nested1_fun = "data_structure option \<Rightarrow> boolean_stream \<Rightarrow> (size \<times> boolean_stream) result"
type_synonym nested2_fun = "data_structure option \<Rightarrow> data_output \<Rightarrow> boolean_stream \<Rightarrow> (data_output \<times> boolean_stream) result"
type_synonym nested3_fun = "data_input \<Rightarrow> boolean_stream \<Rightarrow> (data_structure option \<times> data_input \<times> boolean_stream) result"
type_synonym nestedL_fun = "data_structure option \<Rightarrow> data_output \<Rightarrow> data_output result"
type_synonym nestedG_fun = "data_input \<Rightarrow> (data_structure option \<times> data_input) result"

fun objects1 :: "nested1_fun \<Rightarrow> data_structure option list \<Rightarrow> boolean_stream \<Rightarrow> (size \<times> boolean_stream) result" where
  "objects1 nst [] = size_only 0"
| "objects1 nst (x # xs) = seq1 (nst x) (objects1 nst xs)"

fun objects2 :: "nested2_fun \<Rightarrow> data_structure option list \<Rightarrow> data_output \<Rightarrow> boolean_stream \<Rightarrow> (data_output \<times> boolean_stream) result" where
  "objects2 nst [] = skip2"
| "objects2 nst (x # xs) = seq2 (nst x) (objects2 nst xs)"

fun objectsL :: "nestedL_fun \<Rightarrow> data_structure option list \<Rightarrow> data_output \<Rightarrow> data_output result" where
  "objectsL nst [] = Ok"
| "objectsL nst (x # xs) = seqL (nst x) (objectsL nst xs)"

fun objects3 :: "nested3_fun \<Rightarrow> (data_structure option \<Rightarrow> data_structure option) \<Rightarrow> nat \<Rightarrow>
    data_input \<Rightarrow> boolean_stream \<Rightarrow> (data_structure option list \<times> data_input \<times> boolean_stream) result" where
  "objects3 nst cst 0 = ret3 []"
| "objects3 nst cst (Suc n) = bind3 nst (\<lambda>x. bind3 (objects3 nst cst n) (\<lambda>xs. ret3 (cst x # xs)))"

fun objectsG :: "nestedG_fun \<Rightarrow> (data_structure option \<Rightarrow> data_structure option) \<Rightarrow> nat \<Rightarrow>
    data_input \<Rightarrow> (data_structure option list \<times> data_input) result" where
  "objectsG nst cst 0 = retL []"
| "objectsG nst cst (Suc n) = bindL nst (\<lambda>x. bindL (objectsG nst cst n) (\<lambda>xs. retL (cst x # xs)))"

definition tightMarshalObjectArray1 :: "nested1_fun \<Rightarrow> data_structure option list \<Rightarrow> boolean_stream \<Rightarrow> (size \<times> boolean_stream) result" where
  "tightMarshalObjectArray1 nst objects = (\<lambda>bs.
     catch_io ((if objects \<noteq> [] then seq1 (flag1 True) (seq1 (size_only 2) (objects1 nst objects)) else flag1 False) bs))"

definition tightMarshalObjectArray2 :: "nested2_fun \<Rightarrow> data_structure option list \<Rightarrow> data_output \<Rightarrow> boolean_stream \<Rightarrow> (data_output \<times> boolean_stream) result" where
  "tightMarshalObjectArray2 nst objects = (\<lambda>dataOut bs.
     catch_io (if2 (seq2 (put2 (writeShort (word_of_nat (length objects)))) (objects2 nst objects)) skip2 dataOut bs))"

definition looseMarshalObjectArray :: "nestedL_fun \<Rightarrow> data_structure option list \<Rightarrow> data_output \<Rightarrow> data_output result" where
  "looseMarshalObjectArray nst objects = (\<lambda>dataOut.
     catch_io (seqL (writeBoolean (objects \<noteq> []))
       (if objects \<noteq> [] then seqL (writeShort (word_of_nat (length objects))) (objectsL nst objects) else Ok) dataOut))"

text \<open>\<open>short size = dataIn->readShort(); v.reserve(size); for (...) v.push_back(...)\<close>: a negative size throws \<open>std::length_error\<close>.\<close>

definition read_objects3 :: "nested3_fun \<Rightarrow> (data_structure option \<Rightarrow> data_structure option) \<Rightarrow>
    data_input \<Rightarrow> boolean_stream \<Rightarrow> (data_structure option list \<times> data_input \<times> boolean_stream) result" where
  "read_objects3 nst cst =
     if3 (bind3 (get3 readShort) (\<lambda>sz. if sint sz < 0 then (\<lambda>inp bs. Throw StdException) else objects3 nst cst (nat (sint sz)))) (ret3 [])"

definition read_objectsG :: "nestedG_fun \<Rightarrow> (data_structure option \<Rightarrow> data_structure option) \<Rightarrow>
    data_input \<Rightarrow> (data_structure option list \<times> data_input) result" where
  "read_objectsG nst cst =
     bindL readBoolean (\<lambda>b. if b then
       bindL readShort (\<lambda>sz. if sint sz < 0 then (\<lambda>inp. Throw StdException) else objectsG nst cst (nat (sint sz))) else retL [])"

section \<open>Running the statements\<close>

text \<open>Writing one member. A statement whose member has no value of its kind stands for no C++ code.\<close>

definition write_array_of :: "byte list \<Rightarrow> data_output \<Rightarrow> data_output result" where
  "write_array_of d = doWriteArrayBounded (Some d) (int (length d)) 0 (int (length d))"

definition write1 :: "nested1_fun \<Rightarrow> bool \<Rightarrow> kind \<Rightarrow> data_value \<Rightarrow> boolean_stream \<Rightarrow> (size \<times> boolean_stream) result" where
  "write1 nst ste k v =
     (case (k, v) of
        (BoolK, BoolV b) \<Rightarrow> flag1 b
      | (LongK, LongV i) \<Rightarrow> tightMarshalLong1 i
      | (StringK, StringV s) \<Rightarrow> tightMarshalString1 s
      | (BytesK, BytesV d) \<Rightarrow> seq1 (flag1 (length d \<noteq> 0)) (size_only (if length d = 0 then 0 else word_of_nat (length d) + 4))
      | (ErrorK, ErrorV e) \<Rightarrow> tightMarshalBrokerError1 ste e
      | (NestedK, ObjectV obj) \<Rightarrow> nst obj
      | (CachedK, ObjectV obj) \<Rightarrow> nst obj
      | (ArrayK, ArrayV objs) \<Rightarrow> tightMarshalObjectArray1 nst objs
      | _ \<Rightarrow> (\<lambda>s. Throw MemoryFault))"

definition write2 :: "nested2_fun \<Rightarrow> bool \<Rightarrow> kind \<Rightarrow> data_value \<Rightarrow> data_output \<Rightarrow> boolean_stream \<Rightarrow> (data_output \<times> boolean_stream) result" where
  "write2 nst ste k v =
     (case (k, v) of
        (ByteK, ByteV b) \<Rightarrow> put2 (doWriteByte b)
      | (IntK, IntV i) \<Rightarrow> put2 (writeInt i)
      | (LongK, LongV i) \<Rightarrow> tightMarshalLong2 i
      | (StringK, StringV s) \<Rightarrow> tightMarshalString2 s
      | (BytesK, BytesV d) \<Rightarrow> if2 (put2 (seqL (writeInt (word_of_nat (length d))) (write_array_of d))) skip2
      | (ConstBytesK m, BytesV d) \<Rightarrow> put2 (doWriteArrayBounded (Some d) (int m) 0 (int m))
      | (ErrorK, ErrorV e) \<Rightarrow> tightMarshalBrokerError2 ste e
      | (NestedK, ObjectV obj) \<Rightarrow> nst obj
      | (CachedK, ObjectV obj) \<Rightarrow> nst obj
      | (ArrayK, ArrayV objs) \<Rightarrow> tightMarshalObjectArray2 nst objs
      | _ \<Rightarrow> (\<lambda>out s. Throw MemoryFault))"

definition writeL :: "nestedL_fun \<Rightarrow> bool \<Rightarrow> kind \<Rightarrow> data_value \<Rightarrow> data_output \<Rightarrow> data_output result" where
  "writeL nst ste k v =
     (case (k, v) of
        (BoolK, BoolV b) \<Rightarrow> writeBoolean b
      | (ByteK, ByteV b) \<Rightarrow> doWriteByte b
      | (IntK, IntV i) \<Rightarrow> writeInt i
      | (LongK, LongV i) \<Rightarrow> looseMarshalLong i
      | (StringK, StringV s) \<Rightarrow> looseMarshalString s
      | (BytesK, BytesV d) \<Rightarrow> seqL (doWriteByte (if length d \<noteq> 0 then 1 else 0))
          (if length d \<noteq> 0 then seqL (writeInt (word_of_nat (length d))) (write_array_of d) else Ok)
      | (ConstBytesK m, BytesV d) \<Rightarrow> doWriteArrayBounded (Some d) (int m) 0 (int m)
      | (ErrorK, ErrorV e) \<Rightarrow> looseMarshalBrokerError ste e
      | (NestedK, ObjectV obj) \<Rightarrow> nst obj
      | (CachedK, ObjectV obj) \<Rightarrow> nst obj
      | (ArrayK, ArrayV objs) \<Rightarrow> looseMarshalObjectArray nst objs
      | _ \<Rightarrow> (\<lambda>out. Throw MemoryFault))"

definition map3 :: "('a \<Rightarrow> 'b) \<Rightarrow> ('i \<Rightarrow> 's \<Rightarrow> ('a \<times> 'i \<times> 's) result) \<Rightarrow> 'i \<Rightarrow> 's \<Rightarrow> ('b \<times> 'i \<times> 's) result" where
  "map3 f g = bind3 g (\<lambda>a. ret3 (f a))"

definition mapL :: "('a \<Rightarrow> 'b) \<Rightarrow> ('i \<Rightarrow> ('a \<times> 'i) result) \<Rightarrow> 'i \<Rightarrow> ('b \<times> 'i) result" where
  "mapL f g = bindL g (\<lambda>a. retL (f a))"

definition read3 :: "nested3_fun \<Rightarrow> nat \<Rightarrow> bool \<Rightarrow> (data_structure option \<Rightarrow> data_structure option) \<Rightarrow> kind \<Rightarrow>
    data_input \<Rightarrow> boolean_stream \<Rightarrow> (data_value \<times> data_input \<times> boolean_stream) result" where
  "read3 nst n ste cst k =
     (case k of
        BoolK \<Rightarrow> map3 BoolV flag3
      | ByteK \<Rightarrow> map3 ByteV (get3 readByte)
      | IntK \<Rightarrow> map3 IntV (get3 readInt)
      | LongK \<Rightarrow> map3 LongV tightUnmarshalLong
      | StringK \<Rightarrow> map3 StringV tightUnmarshalString
      | BytesK \<Rightarrow> map3 BytesV tightUnmarshalByteArray
      | ConstBytesK m \<Rightarrow> map3 BytesV (tightUnmarshalConstByteArray (int m))
      | ErrorK \<Rightarrow> map3 ErrorV (tightUnmarshalBrokerError n ste)
      | NestedK \<Rightarrow> map3 (\<lambda>x. ObjectV (cst x)) nst
      | CachedK \<Rightarrow> map3 (\<lambda>x. ObjectV (cst x)) nst
      | ArrayK \<Rightarrow> map3 ArrayV (read_objects3 nst cst))"

definition readG :: "nestedG_fun \<Rightarrow> nat \<Rightarrow> bool \<Rightarrow> (data_structure option \<Rightarrow> data_structure option) \<Rightarrow> kind \<Rightarrow>
    data_input \<Rightarrow> (data_value \<times> data_input) result" where
  "readG nst n ste cst k =
     (case k of
        BoolK \<Rightarrow> mapL BoolV readBoolean
      | ByteK \<Rightarrow> mapL ByteV readByte
      | IntK \<Rightarrow> mapL IntV readInt
      | LongK \<Rightarrow> mapL LongV looseUnmarshalLong
      | StringK \<Rightarrow> mapL StringV looseUnmarshalString
      | BytesK \<Rightarrow> mapL BytesV looseUnmarshalByteArray
      | ConstBytesK m \<Rightarrow> mapL BytesV (looseUnmarshalConstByteArray (int m))
      | ErrorK \<Rightarrow> mapL ErrorV (looseUnmarshalBrokerError n ste)
      | NestedK \<Rightarrow> mapL (\<lambda>x. ObjectV (cst x)) nst
      | CachedK \<Rightarrow> mapL (\<lambda>x. ObjectV (cst x)) nst
      | ArrayK \<Rightarrow> mapL ArrayV (read_objectsG nst cst))"

text \<open>A statement on a member without a value.\<close>

definition member_of :: "data_structure \<Rightarrow> string \<Rightarrow> data_value option" where
  "member_of obj f = map_of (ds_members obj) f"

fun run1 :: "nested1_fun \<Rightarrow> bool \<Rightarrow> int \<Rightarrow> writing list \<Rightarrow> data_structure \<Rightarrow> boolean_stream \<Rightarrow> (size \<times> boolean_stream) result" where
  "run1 nst ste ver [] obj = size_only 0"
| "run1 nst ste ver (c # cs) obj = seq1
     (if active ver (w_since c)
      then (case member_of obj (w_member c) of None \<Rightarrow> (\<lambda>s. Throw MemoryFault) | Some v \<Rightarrow> write1 nst ste (w_kind c) v)
      else size_only 0) (run1 nst ste ver cs obj)"

text \<open>In the second pass \<open>bs->readBoolean()\<close> skips a flag; it names no member.\<close>

fun run2 :: "nested2_fun \<Rightarrow> bool \<Rightarrow> int \<Rightarrow> writing list \<Rightarrow> data_structure \<Rightarrow> data_output \<Rightarrow> boolean_stream \<Rightarrow> (data_output \<times> boolean_stream) result" where
  "run2 nst ste ver [] obj = skip2"
| "run2 nst ste ver (c # cs) obj = seq2
     (if active ver (w_since c)
      then (if w_kind c = BoolK then if2 skip2 skip2
            else case member_of obj (w_member c) of None \<Rightarrow> (\<lambda>out s. Throw MemoryFault) | Some v \<Rightarrow> write2 nst ste (w_kind c) v)
      else skip2) (run2 nst ste ver cs obj)"

fun runL :: "nestedL_fun \<Rightarrow> bool \<Rightarrow> int \<Rightarrow> writing list \<Rightarrow> data_structure \<Rightarrow> data_output \<Rightarrow> data_output result" where
  "runL nst ste ver [] obj = Ok"
| "runL nst ste ver (c # cs) obj = seqL
     (if active ver (w_since c)
      then (case member_of obj (w_member c) of None \<Rightarrow> (\<lambda>out. Throw MemoryFault) | Some v \<Rightarrow> writeL nst ste (w_kind c) v)
      else Ok) (runL nst ste ver cs obj)"

fun run3 :: "nested3_fun \<Rightarrow> nat \<Rightarrow> (string \<Rightarrow> byte list) \<Rightarrow> bool \<Rightarrow> int \<Rightarrow> reading_stmt list \<Rightarrow>
    data_input \<Rightarrow> boolean_stream \<Rightarrow> ((string \<times> data_value) list \<times> data_input \<times> boolean_stream) result" where
  "run3 nst n codes ste ver [] = ret3 []"
| "run3 nst n codes ste ver (c # cs) =
     (if active ver (r_since c)
      then bind3 (read3 nst n ste (cast_to codes (r_cast c)) (r_kind c)) (\<lambda>v.
           map3 (\<lambda>vs. set_member (r_member c) v # vs) (run3 nst n codes ste ver cs))
      else run3 nst n codes ste ver cs)"

fun runG :: "nestedG_fun \<Rightarrow> nat \<Rightarrow> (string \<Rightarrow> byte list) \<Rightarrow> bool \<Rightarrow> int \<Rightarrow> reading_stmt list \<Rightarrow>
    data_input \<Rightarrow> ((string \<times> data_value) list \<times> data_input) result" where
  "runG nst n codes ste ver [] = retL []"
| "runG nst n codes ste ver (c # cs) =
     (if active ver (r_since c)
      then bindL (readG nst n ste (cast_to codes (r_cast c)) (r_kind c)) (\<lambda>v.
           mapL (\<lambda>vs. set_member (r_member c) v # vs) (runG nst n codes ste ver cs))
      else runG nst n codes ste ver cs)"

end
