(* ===== verification/Generated_Marshallers.thy ===== *)
theory Generated_Marshallers
  imports Wire_Programs
begin

text \<open>
  The marshallers of \<open>activemq/wireformat/openwire/marshal/generated\<close>: for each class the statements of its
  five functions, in their order, after those of the class it extends (its functions call the functions of
  the superclass first). The hooks \<open>beforeMarshal\<close>, \<open>afterMarshal\<close>, \<open>beforeUnmarshal\<close> and \<open>afterUnmarshal\<close>
  that seven of them call are no statements here: an object that is sent has the content and the properties
  that \<open>beforeMarshal\<close> has given it, an object that was received has them as they came.
\<close>

definition BaseCommandMarshaller :: marshaller where
  "BaseCommandMarshaller = \<lparr>
     tightUnmarshal = [R 0 IntK ''CommandId'' '''', R 0 BoolK ''ResponseRequired'' ''''],
     tightMarshal1 = [W 0 BoolK ''ResponseRequired''],
     fixed_size = 4,
     tightMarshal2 = [W 0 IntK ''CommandId'', W 0 BoolK ''''],
     looseUnmarshal = [R 0 IntK ''CommandId'' '''', R 0 BoolK ''ResponseRequired'' ''''],
     looseMarshal = [W 0 IntK ''CommandId'', W 0 BoolK ''ResponseRequired'']\<rparr>"

definition MessageMarshaller :: marshaller where
  "MessageMarshaller = \<lparr>
     tightUnmarshal = tightUnmarshal BaseCommandMarshaller @
      [R 0 CachedK ''ProducerId'' ''ProducerId'', R 0 CachedK ''Destination'' ''ActiveMQDestination'',
       R 0 CachedK ''TransactionId'' ''TransactionId'',
       R 0 CachedK ''OriginalDestination'' ''ActiveMQDestination'', R 0 NestedK ''MessageId'' ''MessageId'',
       R 0 CachedK ''OriginalTransactionId'' ''TransactionId'', R 0 StringK ''GroupID'' '''',
       R 0 IntK ''GroupSequence'' '''', R 0 StringK ''CorrelationId'' '''', R 0 BoolK ''Persistent'' '''',
       R 0 LongK ''Expiration'' '''', R 0 ByteK ''Priority'' '''',
       R 0 NestedK ''ReplyTo'' ''ActiveMQDestination'', R 0 LongK ''Timestamp'' '''',
       R 0 StringK ''Type'' '''', R 0 BytesK ''Content'' '''', R 0 BytesK ''MarshalledProperties'' '''',
       R 0 NestedK ''DataStructure'' ''DataStructure'', R 0 CachedK ''TargetConsumerId'' ''ConsumerId'',
       R 0 BoolK ''Compressed'' '''', R 0 IntK ''RedeliveryCounter'' '''',
       R 0 ArrayK ''BrokerPath'' ''BrokerId'', R 0 LongK ''Arrival'' '''', R 0 StringK ''UserID'' '''',
       R 0 BoolK ''RecievedByDFBridge'' '''', R 2 BoolK ''Droppable'' '''',
       R 3 ArrayK ''Cluster'' ''BrokerId'', R 3 LongK ''BrokerInTime'' '''', R 3 LongK ''BrokerOutTime'' '''',
       R 10 BoolK ''JMSXGroupFirstForConsumer'' ''''],
     tightMarshal1 = tightMarshal1 BaseCommandMarshaller @
      [W 0 CachedK ''ProducerId'', W 0 CachedK ''Destination'', W 0 CachedK ''TransactionId'',
       W 0 CachedK ''OriginalDestination'', W 0 NestedK ''MessageId'', W 0 CachedK ''OriginalTransactionId'',
       W 0 StringK ''GroupID'', W 0 StringK ''CorrelationId'', W 0 BoolK ''Persistent'',
       W 0 LongK ''Expiration'', W 0 NestedK ''ReplyTo'', W 0 LongK ''Timestamp'', W 0 StringK ''Type'',
       W 0 BytesK ''Content'', W 0 BytesK ''MarshalledProperties'', W 0 NestedK ''DataStructure'',
       W 0 CachedK ''TargetConsumerId'', W 0 BoolK ''Compressed'', W 0 ArrayK ''BrokerPath'',
       W 0 LongK ''Arrival'', W 0 StringK ''UserID'', W 0 BoolK ''RecievedByDFBridge'',
       W 2 BoolK ''Droppable'', W 3 ArrayK ''Cluster'', W 3 LongK ''BrokerInTime'',
       W 3 LongK ''BrokerOutTime'', W 10 BoolK ''JMSXGroupFirstForConsumer''],
     fixed_size = fixed_size BaseCommandMarshaller + 9,
     tightMarshal2 = tightMarshal2 BaseCommandMarshaller @
      [W 0 CachedK ''ProducerId'', W 0 CachedK ''Destination'', W 0 CachedK ''TransactionId'',
       W 0 CachedK ''OriginalDestination'', W 0 NestedK ''MessageId'', W 0 CachedK ''OriginalTransactionId'',
       W 0 StringK ''GroupID'', W 0 IntK ''GroupSequence'', W 0 StringK ''CorrelationId'', W 0 BoolK '''',
       W 0 LongK ''Expiration'', W 0 ByteK ''Priority'', W 0 NestedK ''ReplyTo'', W 0 LongK ''Timestamp'',
       W 0 StringK ''Type'', W 0 BytesK ''Content'', W 0 BytesK ''MarshalledProperties'',
       W 0 NestedK ''DataStructure'', W 0 CachedK ''TargetConsumerId'', W 0 BoolK '''',
       W 0 IntK ''RedeliveryCounter'', W 0 ArrayK ''BrokerPath'', W 0 LongK ''Arrival'',
       W 0 StringK ''UserID'', W 0 BoolK '''', W 2 BoolK '''', W 3 ArrayK ''Cluster'',
       W 3 LongK ''BrokerInTime'', W 3 LongK ''BrokerOutTime'', W 10 BoolK ''''],
     looseUnmarshal = looseUnmarshal BaseCommandMarshaller @
      [R 0 CachedK ''ProducerId'' ''ProducerId'', R 0 CachedK ''Destination'' ''ActiveMQDestination'',
       R 0 CachedK ''TransactionId'' ''TransactionId'',
       R 0 CachedK ''OriginalDestination'' ''ActiveMQDestination'', R 0 NestedK ''MessageId'' ''MessageId'',
       R 0 CachedK ''OriginalTransactionId'' ''TransactionId'', R 0 StringK ''GroupID'' '''',
       R 0 IntK ''GroupSequence'' '''', R 0 StringK ''CorrelationId'' '''', R 0 BoolK ''Persistent'' '''',
       R 0 LongK ''Expiration'' '''', R 0 ByteK ''Priority'' '''',
       R 0 NestedK ''ReplyTo'' ''ActiveMQDestination'', R 0 LongK ''Timestamp'' '''',
       R 0 StringK ''Type'' '''', R 0 BytesK ''Content'' '''', R 0 BytesK ''MarshalledProperties'' '''',
       R 0 NestedK ''DataStructure'' ''DataStructure'', R 0 CachedK ''TargetConsumerId'' ''ConsumerId'',
       R 0 BoolK ''Compressed'' '''', R 0 IntK ''RedeliveryCounter'' '''',
       R 0 ArrayK ''BrokerPath'' ''BrokerId'', R 0 LongK ''Arrival'' '''', R 0 StringK ''UserID'' '''',
       R 0 BoolK ''RecievedByDFBridge'' '''', R 2 BoolK ''Droppable'' '''',
       R 3 ArrayK ''Cluster'' ''BrokerId'', R 3 LongK ''BrokerInTime'' '''', R 3 LongK ''BrokerOutTime'' '''',
       R 10 BoolK ''JMSXGroupFirstForConsumer'' ''''],
     looseMarshal = looseMarshal BaseCommandMarshaller @
      [W 0 CachedK ''ProducerId'', W 0 CachedK ''Destination'', W 0 CachedK ''TransactionId'',
       W 0 CachedK ''OriginalDestination'', W 0 NestedK ''MessageId'', W 0 CachedK ''OriginalTransactionId'',
       W 0 StringK ''GroupID'', W 0 IntK ''GroupSequence'', W 0 StringK ''CorrelationId'',
       W 0 BoolK ''Persistent'', W 0 LongK ''Expiration'', W 0 ByteK ''Priority'', W 0 NestedK ''ReplyTo'',
       W 0 LongK ''Timestamp'', W 0 StringK ''Type'', W 0 BytesK ''Content'',
       W 0 BytesK ''MarshalledProperties'', W 0 NestedK ''DataStructure'', W 0 CachedK ''TargetConsumerId'',
       W 0 BoolK ''Compressed'', W 0 IntK ''RedeliveryCounter'', W 0 ArrayK ''BrokerPath'',
       W 0 LongK ''Arrival'', W 0 StringK ''UserID'', W 0 BoolK ''RecievedByDFBridge'',
       W 2 BoolK ''Droppable'', W 3 ArrayK ''Cluster'', W 3 LongK ''BrokerInTime'',
       W 3 LongK ''BrokerOutTime'', W 10 BoolK ''JMSXGroupFirstForConsumer'']\<rparr>"

definition ActiveMQBlobMessageMarshaller :: marshaller where
  "ActiveMQBlobMessageMarshaller = \<lparr>
     tightUnmarshal = tightUnmarshal MessageMarshaller @
      [R 3 StringK ''RemoteBlobUrl'' '''', R 3 StringK ''MimeType'' '''', R 3 BoolK ''DeletedByBroker'' ''''],
     tightMarshal1 = tightMarshal1 MessageMarshaller @
      [W 3 StringK ''RemoteBlobUrl'', W 3 StringK ''MimeType'', W 3 BoolK ''DeletedByBroker''],
     fixed_size = fixed_size MessageMarshaller + 0,
     tightMarshal2 = tightMarshal2 MessageMarshaller @
      [W 3 StringK ''RemoteBlobUrl'', W 3 StringK ''MimeType'', W 3 BoolK ''''],
     looseUnmarshal = looseUnmarshal MessageMarshaller @
      [R 3 StringK ''RemoteBlobUrl'' '''', R 3 StringK ''MimeType'' '''', R 3 BoolK ''DeletedByBroker'' ''''],
     looseMarshal = looseMarshal MessageMarshaller @
      [W 3 StringK ''RemoteBlobUrl'', W 3 StringK ''MimeType'', W 3 BoolK ''DeletedByBroker'']\<rparr>"

definition ActiveMQBytesMessageMarshaller :: marshaller where
  "ActiveMQBytesMessageMarshaller = \<lparr>
     tightUnmarshal = tightUnmarshal MessageMarshaller,
     tightMarshal1 = tightMarshal1 MessageMarshaller,
     fixed_size = fixed_size MessageMarshaller + 0,
     tightMarshal2 = tightMarshal2 MessageMarshaller,
     looseUnmarshal = looseUnmarshal MessageMarshaller,
     looseMarshal = looseMarshal MessageMarshaller\<rparr>"

definition ActiveMQDestinationMarshaller :: marshaller where
  "ActiveMQDestinationMarshaller = \<lparr>
     tightUnmarshal = [R 0 StringK ''PhysicalName'' ''''],
     tightMarshal1 = [W 0 StringK ''PhysicalName''],
     fixed_size = 0,
     tightMarshal2 = [W 0 StringK ''PhysicalName''],
     looseUnmarshal = [R 0 StringK ''PhysicalName'' ''''],
     looseMarshal = [W 0 StringK ''PhysicalName'']\<rparr>"

definition ActiveMQMapMessageMarshaller :: marshaller where
  "ActiveMQMapMessageMarshaller = \<lparr>
     tightUnmarshal = tightUnmarshal MessageMarshaller,
     tightMarshal1 = tightMarshal1 MessageMarshaller,
     fixed_size = fixed_size MessageMarshaller + 0,
     tightMarshal2 = tightMarshal2 MessageMarshaller,
     looseUnmarshal = looseUnmarshal MessageMarshaller,
     looseMarshal = looseMarshal MessageMarshaller\<rparr>"

definition ActiveMQMessageMarshaller :: marshaller where
  "ActiveMQMessageMarshaller = \<lparr>
     tightUnmarshal = tightUnmarshal MessageMarshaller,
     tightMarshal1 = tightMarshal1 MessageMarshaller,
     fixed_size = fixed_size MessageMarshaller + 0,
     tightMarshal2 = tightMarshal2 MessageMarshaller,
     looseUnmarshal = looseUnmarshal MessageMarshaller,
     looseMarshal = looseMarshal MessageMarshaller\<rparr>"

definition ActiveMQObjectMessageMarshaller :: marshaller where
  "ActiveMQObjectMessageMarshaller = \<lparr>
     tightUnmarshal = tightUnmarshal MessageMarshaller,
     tightMarshal1 = tightMarshal1 MessageMarshaller,
     fixed_size = fixed_size MessageMarshaller + 0,
     tightMarshal2 = tightMarshal2 MessageMarshaller,
     looseUnmarshal = looseUnmarshal MessageMarshaller,
     looseMarshal = looseMarshal MessageMarshaller\<rparr>"

definition ActiveMQQueueMarshaller :: marshaller where
  "ActiveMQQueueMarshaller = \<lparr>
     tightUnmarshal = tightUnmarshal ActiveMQDestinationMarshaller,
     tightMarshal1 = tightMarshal1 ActiveMQDestinationMarshaller,
     fixed_size = fixed_size ActiveMQDestinationMarshaller + 0,
     tightMarshal2 = tightMarshal2 ActiveMQDestinationMarshaller,
     looseUnmarshal = looseUnmarshal ActiveMQDestinationMarshaller,
     looseMarshal = looseMarshal ActiveMQDestinationMarshaller\<rparr>"

definition ActiveMQStreamMessageMarshaller :: marshaller where
  "ActiveMQStreamMessageMarshaller = \<lparr>
     tightUnmarshal = tightUnmarshal MessageMarshaller,
     tightMarshal1 = tightMarshal1 MessageMarshaller,
     fixed_size = fixed_size MessageMarshaller + 0,
     tightMarshal2 = tightMarshal2 MessageMarshaller,
     looseUnmarshal = looseUnmarshal MessageMarshaller,
     looseMarshal = looseMarshal MessageMarshaller\<rparr>"

definition ActiveMQTempDestinationMarshaller :: marshaller where
  "ActiveMQTempDestinationMarshaller = \<lparr>
     tightUnmarshal = tightUnmarshal ActiveMQDestinationMarshaller,
     tightMarshal1 = tightMarshal1 ActiveMQDestinationMarshaller,
     fixed_size = fixed_size ActiveMQDestinationMarshaller + 0,
     tightMarshal2 = tightMarshal2 ActiveMQDestinationMarshaller,
     looseUnmarshal = looseUnmarshal ActiveMQDestinationMarshaller,
     looseMarshal = looseMarshal ActiveMQDestinationMarshaller\<rparr>"

definition ActiveMQTempQueueMarshaller :: marshaller where
  "ActiveMQTempQueueMarshaller = \<lparr>
     tightUnmarshal = tightUnmarshal ActiveMQTempDestinationMarshaller,
     tightMarshal1 = tightMarshal1 ActiveMQTempDestinationMarshaller,
     fixed_size = fixed_size ActiveMQTempDestinationMarshaller + 0,
     tightMarshal2 = tightMarshal2 ActiveMQTempDestinationMarshaller,
     looseUnmarshal = looseUnmarshal ActiveMQTempDestinationMarshaller,
     looseMarshal = looseMarshal ActiveMQTempDestinationMarshaller\<rparr>"

definition ActiveMQTempTopicMarshaller :: marshaller where
  "ActiveMQTempTopicMarshaller = \<lparr>
     tightUnmarshal = tightUnmarshal ActiveMQTempDestinationMarshaller,
     tightMarshal1 = tightMarshal1 ActiveMQTempDestinationMarshaller,
     fixed_size = fixed_size ActiveMQTempDestinationMarshaller + 0,
     tightMarshal2 = tightMarshal2 ActiveMQTempDestinationMarshaller,
     looseUnmarshal = looseUnmarshal ActiveMQTempDestinationMarshaller,
     looseMarshal = looseMarshal ActiveMQTempDestinationMarshaller\<rparr>"

definition ActiveMQTextMessageMarshaller :: marshaller where
  "ActiveMQTextMessageMarshaller = \<lparr>
     tightUnmarshal = tightUnmarshal MessageMarshaller,
     tightMarshal1 = tightMarshal1 MessageMarshaller,
     fixed_size = fixed_size MessageMarshaller + 0,
     tightMarshal2 = tightMarshal2 MessageMarshaller,
     looseUnmarshal = looseUnmarshal MessageMarshaller,
     looseMarshal = looseMarshal MessageMarshaller\<rparr>"

definition ActiveMQTopicMarshaller :: marshaller where
  "ActiveMQTopicMarshaller = \<lparr>
     tightUnmarshal = tightUnmarshal ActiveMQDestinationMarshaller,
     tightMarshal1 = tightMarshal1 ActiveMQDestinationMarshaller,
     fixed_size = fixed_size ActiveMQDestinationMarshaller + 0,
     tightMarshal2 = tightMarshal2 ActiveMQDestinationMarshaller,
     looseUnmarshal = looseUnmarshal ActiveMQDestinationMarshaller,
     looseMarshal = looseMarshal ActiveMQDestinationMarshaller\<rparr>"

definition BrokerIdMarshaller :: marshaller where
  "BrokerIdMarshaller = \<lparr>
     tightUnmarshal = [R 0 StringK ''Value'' ''''],
     tightMarshal1 = [W 0 StringK ''Value''],
     fixed_size = 0,
     tightMarshal2 = [W 0 StringK ''Value''],
     looseUnmarshal = [R 0 StringK ''Value'' ''''],
     looseMarshal = [W 0 StringK ''Value'']\<rparr>"

definition BrokerInfoMarshaller :: marshaller where
  "BrokerInfoMarshaller = \<lparr>
     tightUnmarshal = tightUnmarshal BaseCommandMarshaller @
      [R 0 CachedK ''BrokerId'' ''BrokerId'', R 0 StringK ''BrokerURL'' '''',
       R 0 ArrayK ''PeerBrokerInfos'' ''BrokerInfo'', R 0 StringK ''BrokerName'' '''',
       R 0 BoolK ''SlaveBroker'' '''', R 0 BoolK ''MasterBroker'' '''',
       R 0 BoolK ''FaultTolerantConfiguration'' '''', R 2 BoolK ''DuplexConnection'' '''',
       R 2 BoolK ''NetworkConnection'' '''', R 2 LongK ''ConnectionId'' '''',
       R 3 StringK ''BrokerUploadUrl'' '''', R 3 StringK ''NetworkProperties'' ''''],
     tightMarshal1 = tightMarshal1 BaseCommandMarshaller @
      [W 0 CachedK ''BrokerId'', W 0 StringK ''BrokerURL'', W 0 ArrayK ''PeerBrokerInfos'',
       W 0 StringK ''BrokerName'', W 0 BoolK ''SlaveBroker'', W 0 BoolK ''MasterBroker'',
       W 0 BoolK ''FaultTolerantConfiguration'', W 2 BoolK ''DuplexConnection'',
       W 2 BoolK ''NetworkConnection'', W 2 LongK ''ConnectionId'', W 3 StringK ''BrokerUploadUrl'',
       W 3 StringK ''NetworkProperties''],
     fixed_size = fixed_size BaseCommandMarshaller + 0,
     tightMarshal2 = tightMarshal2 BaseCommandMarshaller @
      [W 0 CachedK ''BrokerId'', W 0 StringK ''BrokerURL'', W 0 ArrayK ''PeerBrokerInfos'',
       W 0 StringK ''BrokerName'', W 0 BoolK '''', W 0 BoolK '''', W 0 BoolK '''', W 2 BoolK '''',
       W 2 BoolK '''', W 2 LongK ''ConnectionId'', W 3 StringK ''BrokerUploadUrl'',
       W 3 StringK ''NetworkProperties''],
     looseUnmarshal = looseUnmarshal BaseCommandMarshaller @
      [R 0 CachedK ''BrokerId'' ''BrokerId'', R 0 StringK ''BrokerURL'' '''',
       R 0 ArrayK ''PeerBrokerInfos'' ''BrokerInfo'', R 0 StringK ''BrokerName'' '''',
       R 0 BoolK ''SlaveBroker'' '''', R 0 BoolK ''MasterBroker'' '''',
       R 0 BoolK ''FaultTolerantConfiguration'' '''', R 2 BoolK ''DuplexConnection'' '''',
       R 2 BoolK ''NetworkConnection'' '''', R 2 LongK ''ConnectionId'' '''',
       R 3 StringK ''BrokerUploadUrl'' '''', R 3 StringK ''NetworkProperties'' ''''],
     looseMarshal = looseMarshal BaseCommandMarshaller @
      [W 0 CachedK ''BrokerId'', W 0 StringK ''BrokerURL'', W 0 ArrayK ''PeerBrokerInfos'',
       W 0 StringK ''BrokerName'', W 0 BoolK ''SlaveBroker'', W 0 BoolK ''MasterBroker'',
       W 0 BoolK ''FaultTolerantConfiguration'', W 2 BoolK ''DuplexConnection'',
       W 2 BoolK ''NetworkConnection'', W 2 LongK ''ConnectionId'', W 3 StringK ''BrokerUploadUrl'',
       W 3 StringK ''NetworkProperties'']\<rparr>"

definition ConnectionControlMarshaller :: marshaller where
  "ConnectionControlMarshaller = \<lparr>
     tightUnmarshal = tightUnmarshal BaseCommandMarshaller @
      [R 0 BoolK ''Close'' '''', R 0 BoolK ''Exit'' '''', R 0 BoolK ''FaultTolerant'' '''',
       R 0 BoolK ''Resume'' '''', R 0 BoolK ''Suspend'' '''', R 6 StringK ''ConnectedBrokers'' '''',
       R 6 StringK ''ReconnectTo'' '''', R 6 BoolK ''RebalanceConnection'' '''', R 8 BytesK ''Token'' ''''],
     tightMarshal1 = tightMarshal1 BaseCommandMarshaller @
      [W 0 BoolK ''Close'', W 0 BoolK ''Exit'', W 0 BoolK ''FaultTolerant'', W 0 BoolK ''Resume'',
       W 0 BoolK ''Suspend'', W 6 StringK ''ConnectedBrokers'', W 6 StringK ''ReconnectTo'',
       W 6 BoolK ''RebalanceConnection'', W 8 BytesK ''Token''],
     fixed_size = fixed_size BaseCommandMarshaller + 0,
     tightMarshal2 = tightMarshal2 BaseCommandMarshaller @
      [W 0 BoolK '''', W 0 BoolK '''', W 0 BoolK '''', W 0 BoolK '''', W 0 BoolK '''',
       W 6 StringK ''ConnectedBrokers'', W 6 StringK ''ReconnectTo'', W 6 BoolK '''', W 8 BytesK ''Token''],
     looseUnmarshal = looseUnmarshal BaseCommandMarshaller @
      [R 0 BoolK ''Close'' '''', R 0 BoolK ''Exit'' '''', R 0 BoolK ''FaultTolerant'' '''',
       R 0 BoolK ''Resume'' '''', R 0 BoolK ''Suspend'' '''', R 6 StringK ''ConnectedBrokers'' '''',
       R 6 StringK ''ReconnectTo'' '''', R 6 BoolK ''RebalanceConnection'' '''', R 8 BytesK ''Token'' ''''],
     looseMarshal = looseMarshal BaseCommandMarshaller @
      [W 0 BoolK ''Close'', W 0 BoolK ''Exit'', W 0 BoolK ''FaultTolerant'', W 0 BoolK ''Resume'',
       W 0 BoolK ''Suspend'', W 6 StringK ''ConnectedBrokers'', W 6 StringK ''ReconnectTo'',
       W 6 BoolK ''RebalanceConnection'', W 8 BytesK ''Token'']\<rparr>"

definition ConnectionErrorMarshaller :: marshaller where
  "ConnectionErrorMarshaller = \<lparr>
     tightUnmarshal = tightUnmarshal BaseCommandMarshaller @
      [R 0 ErrorK ''Exception'' '''', R 0 NestedK ''ConnectionId'' ''ConnectionId''],
     tightMarshal1 = tightMarshal1 BaseCommandMarshaller @
      [W 0 ErrorK ''Exception'', W 0 NestedK ''ConnectionId''],
     fixed_size = fixed_size BaseCommandMarshaller + 0,
     tightMarshal2 = tightMarshal2 BaseCommandMarshaller @
      [W 0 ErrorK ''Exception'', W 0 NestedK ''ConnectionId''],
     looseUnmarshal = looseUnmarshal BaseCommandMarshaller @
      [R 0 ErrorK ''Exception'' '''', R 0 NestedK ''ConnectionId'' ''ConnectionId''],
     looseMarshal = looseMarshal BaseCommandMarshaller @
      [W 0 ErrorK ''Exception'', W 0 NestedK ''ConnectionId'']\<rparr>"

definition ConnectionIdMarshaller :: marshaller where
  "ConnectionIdMarshaller = \<lparr>
     tightUnmarshal = [R 0 StringK ''Value'' ''''],
     tightMarshal1 = [W 0 StringK ''Value''],
     fixed_size = 0,
     tightMarshal2 = [W 0 StringK ''Value''],
     looseUnmarshal = [R 0 StringK ''Value'' ''''],
     looseMarshal = [W 0 StringK ''Value'']\<rparr>"

definition ConnectionInfoMarshaller :: marshaller where
  "ConnectionInfoMarshaller = \<lparr>
     tightUnmarshal = tightUnmarshal BaseCommandMarshaller @
      [R 0 CachedK ''ConnectionId'' ''ConnectionId'', R 0 StringK ''ClientId'' '''',
       R 0 StringK ''Password'' '''', R 0 StringK ''UserName'' '''', R 0 ArrayK ''BrokerPath'' ''BrokerId'',
       R 0 BoolK ''BrokerMasterConnector'' '''', R 0 BoolK ''Manageable'' '''',
       R 2 BoolK ''ClientMaster'' '''', R 6 BoolK ''FaultTolerant'' '''', R 6 BoolK ''FailoverReconnect'' '''',
       R 8 StringK ''ClientIp'' ''''],
     tightMarshal1 = tightMarshal1 BaseCommandMarshaller @
      [W 0 CachedK ''ConnectionId'', W 0 StringK ''ClientId'', W 0 StringK ''Password'',
       W 0 StringK ''UserName'', W 0 ArrayK ''BrokerPath'', W 0 BoolK ''BrokerMasterConnector'',
       W 0 BoolK ''Manageable'', W 2 BoolK ''ClientMaster'', W 6 BoolK ''FaultTolerant'',
       W 6 BoolK ''FailoverReconnect'', W 8 StringK ''ClientIp''],
     fixed_size = fixed_size BaseCommandMarshaller + 0,
     tightMarshal2 = tightMarshal2 BaseCommandMarshaller @
      [W 0 CachedK ''ConnectionId'', W 0 StringK ''ClientId'', W 0 StringK ''Password'',
       W 0 StringK ''UserName'', W 0 ArrayK ''BrokerPath'', W 0 BoolK '''', W 0 BoolK '''', W 2 BoolK '''',
       W 6 BoolK '''', W 6 BoolK '''', W 8 StringK ''ClientIp''],
     looseUnmarshal = looseUnmarshal BaseCommandMarshaller @
      [R 0 CachedK ''ConnectionId'' ''ConnectionId'', R 0 StringK ''ClientId'' '''',
       R 0 StringK ''Password'' '''', R 0 StringK ''UserName'' '''', R 0 ArrayK ''BrokerPath'' ''BrokerId'',
       R 0 BoolK ''BrokerMasterConnector'' '''', R 0 BoolK ''Manageable'' '''',
       R 2 BoolK ''ClientMaster'' '''', R 6 BoolK ''FaultTolerant'' '''', R 6 BoolK ''FailoverReconnect'' '''',
       R 8 StringK ''ClientIp'' ''''],
     looseMarshal = looseMarshal BaseCommandMarshaller @
      [W 0 CachedK ''ConnectionId'', W 0 StringK ''ClientId'', W 0 StringK ''Password'',
       W 0 StringK ''UserName'', W 0 ArrayK ''BrokerPath'', W 0 BoolK ''BrokerMasterConnector'',
       W 0 BoolK ''Manageable'', W 2 BoolK ''ClientMaster'', W 6 BoolK ''FaultTolerant'',
       W 6 BoolK ''FailoverReconnect'', W 8 StringK ''ClientIp'']\<rparr>"

definition ConsumerControlMarshaller :: marshaller where
  "ConsumerControlMarshaller = \<lparr>
     tightUnmarshal = tightUnmarshal BaseCommandMarshaller @
      [R 6 NestedK ''Destination'' ''ActiveMQDestination'', R 0 BoolK ''Close'' '''',
       R 0 NestedK ''ConsumerId'' ''ConsumerId'', R 0 IntK ''Prefetch'' '''', R 2 BoolK ''Flush'' '''',
       R 2 BoolK ''Start'' '''', R 2 BoolK ''Stop'' ''''],
     tightMarshal1 = tightMarshal1 BaseCommandMarshaller @
      [W 6 NestedK ''Destination'', W 0 BoolK ''Close'', W 0 NestedK ''ConsumerId'', W 2 BoolK ''Flush'',
       W 2 BoolK ''Start'', W 2 BoolK ''Stop''],
     fixed_size = fixed_size BaseCommandMarshaller + 4,
     tightMarshal2 = tightMarshal2 BaseCommandMarshaller @
      [W 6 NestedK ''Destination'', W 0 BoolK '''', W 0 NestedK ''ConsumerId'', W 0 IntK ''Prefetch'',
       W 2 BoolK '''', W 2 BoolK '''', W 2 BoolK ''''],
     looseUnmarshal = looseUnmarshal BaseCommandMarshaller @
      [R 6 NestedK ''Destination'' ''ActiveMQDestination'', R 0 BoolK ''Close'' '''',
       R 0 NestedK ''ConsumerId'' ''ConsumerId'', R 0 IntK ''Prefetch'' '''', R 2 BoolK ''Flush'' '''',
       R 2 BoolK ''Start'' '''', R 2 BoolK ''Stop'' ''''],
     looseMarshal = looseMarshal BaseCommandMarshaller @
      [W 6 NestedK ''Destination'', W 0 BoolK ''Close'', W 0 NestedK ''ConsumerId'', W 0 IntK ''Prefetch'',
       W 2 BoolK ''Flush'', W 2 BoolK ''Start'', W 2 BoolK ''Stop'']\<rparr>"

definition ConsumerIdMarshaller :: marshaller where
  "ConsumerIdMarshaller = \<lparr>
     tightUnmarshal = [R 0 StringK ''ConnectionId'' '''', R 0 LongK ''SessionId'' '''', R 0 LongK ''Value'' ''''],
     tightMarshal1 = [W 0 StringK ''ConnectionId'', W 0 LongK ''SessionId'', W 0 LongK ''Value''],
     fixed_size = 0,
     tightMarshal2 = [W 0 StringK ''ConnectionId'', W 0 LongK ''SessionId'', W 0 LongK ''Value''],
     looseUnmarshal = [R 0 StringK ''ConnectionId'' '''', R 0 LongK ''SessionId'' '''', R 0 LongK ''Value'' ''''],
     looseMarshal = [W 0 StringK ''ConnectionId'', W 0 LongK ''SessionId'', W 0 LongK ''Value'']\<rparr>"

definition ConsumerInfoMarshaller :: marshaller where
  "ConsumerInfoMarshaller = \<lparr>
     tightUnmarshal = tightUnmarshal BaseCommandMarshaller @
      [R 0 CachedK ''ConsumerId'' ''ConsumerId'', R 0 BoolK ''Browser'' '''',
       R 0 CachedK ''Destination'' ''ActiveMQDestination'', R 0 IntK ''PrefetchSize'' '''',
       R 0 IntK ''MaximumPendingMessageLimit'' '''', R 0 BoolK ''DispatchAsync'' '''',
       R 0 StringK ''Selector'' '''', R 10 StringK ''ClientId'' '''', R 0 StringK ''SubscriptionName'' '''',
       R 0 BoolK ''NoLocal'' '''', R 0 BoolK ''Exclusive'' '''', R 0 BoolK ''Retroactive'' '''',
       R 0 ByteK ''Priority'' '''', R 0 ArrayK ''BrokerPath'' ''BrokerId'',
       R 0 NestedK ''AdditionalPredicate'' ''BooleanExpression'', R 0 BoolK ''NetworkSubscription'' '''',
       R 0 BoolK ''OptimizedAcknowledge'' '''', R 0 BoolK ''NoRangeAcks'' '''',
       R 4 ArrayK ''NetworkConsumerPath'' ''ConsumerId''],
     tightMarshal1 = tightMarshal1 BaseCommandMarshaller @
      [W 0 CachedK ''ConsumerId'', W 0 BoolK ''Browser'', W 0 CachedK ''Destination'',
       W 0 BoolK ''DispatchAsync'', W 0 StringK ''Selector'', W 10 StringK ''ClientId'',
       W 0 StringK ''SubscriptionName'', W 0 BoolK ''NoLocal'', W 0 BoolK ''Exclusive'',
       W 0 BoolK ''Retroactive'', W 0 ArrayK ''BrokerPath'', W 0 NestedK ''AdditionalPredicate'',
       W 0 BoolK ''NetworkSubscription'', W 0 BoolK ''OptimizedAcknowledge'', W 0 BoolK ''NoRangeAcks'',
       W 4 ArrayK ''NetworkConsumerPath''],
     fixed_size = fixed_size BaseCommandMarshaller + 9,
     tightMarshal2 = tightMarshal2 BaseCommandMarshaller @
      [W 0 CachedK ''ConsumerId'', W 0 BoolK '''', W 0 CachedK ''Destination'', W 0 IntK ''PrefetchSize'',
       W 0 IntK ''MaximumPendingMessageLimit'', W 0 BoolK '''', W 0 StringK ''Selector'',
       W 10 StringK ''ClientId'', W 0 StringK ''SubscriptionName'', W 0 BoolK '''', W 0 BoolK '''',
       W 0 BoolK '''', W 0 ByteK ''Priority'', W 0 ArrayK ''BrokerPath'', W 0 NestedK ''AdditionalPredicate'',
       W 0 BoolK '''', W 0 BoolK '''', W 0 BoolK '''', W 4 ArrayK ''NetworkConsumerPath''],
     looseUnmarshal = looseUnmarshal BaseCommandMarshaller @
      [R 0 CachedK ''ConsumerId'' ''ConsumerId'', R 0 BoolK ''Browser'' '''',
       R 0 CachedK ''Destination'' ''ActiveMQDestination'', R 0 IntK ''PrefetchSize'' '''',
       R 0 IntK ''MaximumPendingMessageLimit'' '''', R 0 BoolK ''DispatchAsync'' '''',
       R 0 StringK ''Selector'' '''', R 10 StringK ''ClientId'' '''', R 0 StringK ''SubscriptionName'' '''',
       R 0 BoolK ''NoLocal'' '''', R 0 BoolK ''Exclusive'' '''', R 0 BoolK ''Retroactive'' '''',
       R 0 ByteK ''Priority'' '''', R 0 ArrayK ''BrokerPath'' ''BrokerId'',
       R 0 NestedK ''AdditionalPredicate'' ''BooleanExpression'', R 0 BoolK ''NetworkSubscription'' '''',
       R 0 BoolK ''OptimizedAcknowledge'' '''', R 0 BoolK ''NoRangeAcks'' '''',
       R 4 ArrayK ''NetworkConsumerPath'' ''ConsumerId''],
     looseMarshal = looseMarshal BaseCommandMarshaller @
      [W 0 CachedK ''ConsumerId'', W 0 BoolK ''Browser'', W 0 CachedK ''Destination'',
       W 0 IntK ''PrefetchSize'', W 0 IntK ''MaximumPendingMessageLimit'', W 0 BoolK ''DispatchAsync'',
       W 0 StringK ''Selector'', W 10 StringK ''ClientId'', W 0 StringK ''SubscriptionName'',
       W 0 BoolK ''NoLocal'', W 0 BoolK ''Exclusive'', W 0 BoolK ''Retroactive'', W 0 ByteK ''Priority'',
       W 0 ArrayK ''BrokerPath'', W 0 NestedK ''AdditionalPredicate'', W 0 BoolK ''NetworkSubscription'',
       W 0 BoolK ''OptimizedAcknowledge'', W 0 BoolK ''NoRangeAcks'', W 4 ArrayK ''NetworkConsumerPath'']\<rparr>"

definition ControlCommandMarshaller :: marshaller where
  "ControlCommandMarshaller = \<lparr>
     tightUnmarshal = tightUnmarshal BaseCommandMarshaller @
      [R 0 StringK ''Command'' ''''],
     tightMarshal1 = tightMarshal1 BaseCommandMarshaller @
      [W 0 StringK ''Command''],
     fixed_size = fixed_size BaseCommandMarshaller + 0,
     tightMarshal2 = tightMarshal2 BaseCommandMarshaller @
      [W 0 StringK ''Command''],
     looseUnmarshal = looseUnmarshal BaseCommandMarshaller @
      [R 0 StringK ''Command'' ''''],
     looseMarshal = looseMarshal BaseCommandMarshaller @
      [W 0 StringK ''Command'']\<rparr>"

definition ResponseMarshaller :: marshaller where
  "ResponseMarshaller = \<lparr>
     tightUnmarshal = tightUnmarshal BaseCommandMarshaller @
      [R 0 IntK ''CorrelationId'' ''''],
     tightMarshal1 = tightMarshal1 BaseCommandMarshaller,
     fixed_size = fixed_size BaseCommandMarshaller + 4,
     tightMarshal2 = tightMarshal2 BaseCommandMarshaller @
      [W 0 IntK ''CorrelationId''],
     looseUnmarshal = looseUnmarshal BaseCommandMarshaller @
      [R 0 IntK ''CorrelationId'' ''''],
     looseMarshal = looseMarshal BaseCommandMarshaller @
      [W 0 IntK ''CorrelationId'']\<rparr>"

definition DataArrayResponseMarshaller :: marshaller where
  "DataArrayResponseMarshaller = \<lparr>
     tightUnmarshal = tightUnmarshal ResponseMarshaller @
      [R 0 ArrayK ''Data'' ''DataStructure''],
     tightMarshal1 = tightMarshal1 ResponseMarshaller @
      [W 0 ArrayK ''Data''],
     fixed_size = fixed_size ResponseMarshaller + 0,
     tightMarshal2 = tightMarshal2 ResponseMarshaller @
      [W 0 ArrayK ''Data''],
     looseUnmarshal = looseUnmarshal ResponseMarshaller @
      [R 0 ArrayK ''Data'' ''DataStructure''],
     looseMarshal = looseMarshal ResponseMarshaller @
      [W 0 ArrayK ''Data'']\<rparr>"

definition DataResponseMarshaller :: marshaller where
  "DataResponseMarshaller = \<lparr>
     tightUnmarshal = tightUnmarshal ResponseMarshaller @
      [R 0 NestedK ''Data'' ''DataStructure''],
     tightMarshal1 = tightMarshal1 ResponseMarshaller @
      [W 0 NestedK ''Data''],
     fixed_size = fixed_size ResponseMarshaller + 0,
     tightMarshal2 = tightMarshal2 ResponseMarshaller @
      [W 0 NestedK ''Data''],
     looseUnmarshal = looseUnmarshal ResponseMarshaller @
      [R 0 NestedK ''Data'' ''DataStructure''],
     looseMarshal = looseMarshal ResponseMarshaller @
      [W 0 NestedK ''Data'']\<rparr>"

definition DestinationInfoMarshaller :: marshaller where
  "DestinationInfoMarshaller = \<lparr>
     tightUnmarshal = tightUnmarshal BaseCommandMarshaller @
      [R 0 CachedK ''ConnectionId'' ''ConnectionId'', R 0 CachedK ''Destination'' ''ActiveMQDestination'',
       R 0 ByteK ''OperationType'' '''', R 0 LongK ''Timeout'' '''', R 0 ArrayK ''BrokerPath'' ''BrokerId''],
     tightMarshal1 = tightMarshal1 BaseCommandMarshaller @
      [W 0 CachedK ''ConnectionId'', W 0 CachedK ''Destination'', W 0 LongK ''Timeout'',
       W 0 ArrayK ''BrokerPath''],
     fixed_size = fixed_size BaseCommandMarshaller + 1,
     tightMarshal2 = tightMarshal2 BaseCommandMarshaller @
      [W 0 CachedK ''ConnectionId'', W 0 CachedK ''Destination'', W 0 ByteK ''OperationType'',
       W 0 LongK ''Timeout'', W 0 ArrayK ''BrokerPath''],
     looseUnmarshal = looseUnmarshal BaseCommandMarshaller @
      [R 0 CachedK ''ConnectionId'' ''ConnectionId'', R 0 CachedK ''Destination'' ''ActiveMQDestination'',
       R 0 ByteK ''OperationType'' '''', R 0 LongK ''Timeout'' '''', R 0 ArrayK ''BrokerPath'' ''BrokerId''],
     looseMarshal = looseMarshal BaseCommandMarshaller @
      [W 0 CachedK ''ConnectionId'', W 0 CachedK ''Destination'', W 0 ByteK ''OperationType'',
       W 0 LongK ''Timeout'', W 0 ArrayK ''BrokerPath'']\<rparr>"

definition DiscoveryEventMarshaller :: marshaller where
  "DiscoveryEventMarshaller = \<lparr>
     tightUnmarshal = [R 0 StringK ''ServiceName'' '''', R 0 StringK ''BrokerName'' ''''],
     tightMarshal1 = [W 0 StringK ''ServiceName'', W 0 StringK ''BrokerName''],
     fixed_size = 0,
     tightMarshal2 = [W 0 StringK ''ServiceName'', W 0 StringK ''BrokerName''],
     looseUnmarshal = [R 0 StringK ''ServiceName'' '''', R 0 StringK ''BrokerName'' ''''],
     looseMarshal = [W 0 StringK ''ServiceName'', W 0 StringK ''BrokerName'']\<rparr>"

definition ExceptionResponseMarshaller :: marshaller where
  "ExceptionResponseMarshaller = \<lparr>
     tightUnmarshal = tightUnmarshal ResponseMarshaller @
      [R 0 ErrorK ''Exception'' ''''],
     tightMarshal1 = tightMarshal1 ResponseMarshaller @
      [W 0 ErrorK ''Exception''],
     fixed_size = fixed_size ResponseMarshaller + 0,
     tightMarshal2 = tightMarshal2 ResponseMarshaller @
      [W 0 ErrorK ''Exception''],
     looseUnmarshal = looseUnmarshal ResponseMarshaller @
      [R 0 ErrorK ''Exception'' ''''],
     looseMarshal = looseMarshal ResponseMarshaller @
      [W 0 ErrorK ''Exception'']\<rparr>"

definition FlushCommandMarshaller :: marshaller where
  "FlushCommandMarshaller = \<lparr>
     tightUnmarshal = tightUnmarshal BaseCommandMarshaller,
     tightMarshal1 = tightMarshal1 BaseCommandMarshaller,
     fixed_size = fixed_size BaseCommandMarshaller + 0,
     tightMarshal2 = tightMarshal2 BaseCommandMarshaller,
     looseUnmarshal = looseUnmarshal BaseCommandMarshaller,
     looseMarshal = looseMarshal BaseCommandMarshaller\<rparr>"

definition IntegerResponseMarshaller :: marshaller where
  "IntegerResponseMarshaller = \<lparr>
     tightUnmarshal = tightUnmarshal ResponseMarshaller @
      [R 0 IntK ''Result'' ''''],
     tightMarshal1 = tightMarshal1 ResponseMarshaller,
     fixed_size = fixed_size ResponseMarshaller + 4,
     tightMarshal2 = tightMarshal2 ResponseMarshaller @
      [W 0 IntK ''Result''],
     looseUnmarshal = looseUnmarshal ResponseMarshaller @
      [R 0 IntK ''Result'' ''''],
     looseMarshal = looseMarshal ResponseMarshaller @
      [W 0 IntK ''Result'']\<rparr>"

definition JournalQueueAckMarshaller :: marshaller where
  "JournalQueueAckMarshaller = \<lparr>
     tightUnmarshal = [R 0 NestedK ''Destination'' ''ActiveMQDestination'', R 0 NestedK ''MessageAck'' ''MessageAck''],
     tightMarshal1 = [W 0 NestedK ''Destination'', W 0 NestedK ''MessageAck''],
     fixed_size = 0,
     tightMarshal2 = [W 0 NestedK ''Destination'', W 0 NestedK ''MessageAck''],
     looseUnmarshal = [R 0 NestedK ''Destination'' ''ActiveMQDestination'', R 0 NestedK ''MessageAck'' ''MessageAck''],
     looseMarshal = [W 0 NestedK ''Destination'', W 0 NestedK ''MessageAck'']\<rparr>"

definition JournalTopicAckMarshaller :: marshaller where
  "JournalTopicAckMarshaller = \<lparr>
     tightUnmarshal = [R 0 NestedK ''Destination'' ''ActiveMQDestination'', R 0 NestedK ''MessageId'' ''MessageId'',
       R 0 LongK ''MessageSequenceId'' '''', R 0 StringK ''SubscritionName'' '''',
       R 0 StringK ''ClientId'' '''', R 0 NestedK ''TransactionId'' ''TransactionId''],
     tightMarshal1 = [W 0 NestedK ''Destination'', W 0 NestedK ''MessageId'', W 0 LongK ''MessageSequenceId'',
       W 0 StringK ''SubscritionName'', W 0 StringK ''ClientId'', W 0 NestedK ''TransactionId''],
     fixed_size = 0,
     tightMarshal2 = [W 0 NestedK ''Destination'', W 0 NestedK ''MessageId'', W 0 LongK ''MessageSequenceId'',
       W 0 StringK ''SubscritionName'', W 0 StringK ''ClientId'', W 0 NestedK ''TransactionId''],
     looseUnmarshal = [R 0 NestedK ''Destination'' ''ActiveMQDestination'', R 0 NestedK ''MessageId'' ''MessageId'',
       R 0 LongK ''MessageSequenceId'' '''', R 0 StringK ''SubscritionName'' '''',
       R 0 StringK ''ClientId'' '''', R 0 NestedK ''TransactionId'' ''TransactionId''],
     looseMarshal = [W 0 NestedK ''Destination'', W 0 NestedK ''MessageId'', W 0 LongK ''MessageSequenceId'',
       W 0 StringK ''SubscritionName'', W 0 StringK ''ClientId'', W 0 NestedK ''TransactionId'']\<rparr>"

definition JournalTraceMarshaller :: marshaller where
  "JournalTraceMarshaller = \<lparr>
     tightUnmarshal = [R 0 StringK ''Message'' ''''],
     tightMarshal1 = [W 0 StringK ''Message''],
     fixed_size = 0,
     tightMarshal2 = [W 0 StringK ''Message''],
     looseUnmarshal = [R 0 StringK ''Message'' ''''],
     looseMarshal = [W 0 StringK ''Message'']\<rparr>"

definition JournalTransactionMarshaller :: marshaller where
  "JournalTransactionMarshaller = \<lparr>
     tightUnmarshal = [R 0 NestedK ''TransactionId'' ''TransactionId'', R 0 ByteK ''Type'' '''', R 0 BoolK ''WasPrepared'' ''''],
     tightMarshal1 = [W 0 NestedK ''TransactionId'', W 0 BoolK ''WasPrepared''],
     fixed_size = 1,
     tightMarshal2 = [W 0 NestedK ''TransactionId'', W 0 ByteK ''Type'', W 0 BoolK ''''],
     looseUnmarshal = [R 0 NestedK ''TransactionId'' ''TransactionId'', R 0 ByteK ''Type'' '''', R 0 BoolK ''WasPrepared'' ''''],
     looseMarshal = [W 0 NestedK ''TransactionId'', W 0 ByteK ''Type'', W 0 BoolK ''WasPrepared'']\<rparr>"

definition KeepAliveInfoMarshaller :: marshaller where
  "KeepAliveInfoMarshaller = \<lparr>
     tightUnmarshal = tightUnmarshal BaseCommandMarshaller,
     tightMarshal1 = tightMarshal1 BaseCommandMarshaller,
     fixed_size = fixed_size BaseCommandMarshaller + 0,
     tightMarshal2 = tightMarshal2 BaseCommandMarshaller,
     looseUnmarshal = looseUnmarshal BaseCommandMarshaller,
     looseMarshal = looseMarshal BaseCommandMarshaller\<rparr>"

definition PartialCommandMarshaller :: marshaller where
  "PartialCommandMarshaller = \<lparr>
     tightUnmarshal = [R 0 IntK ''CommandId'' '''', R 0 BytesK ''Data'' ''''],
     tightMarshal1 = [W 0 BytesK ''Data''],
     fixed_size = 4,
     tightMarshal2 = [W 0 IntK ''CommandId'', W 0 BytesK ''Data''],
     looseUnmarshal = [R 0 IntK ''CommandId'' '''', R 0 BytesK ''Data'' ''''],
     looseMarshal = [W 0 IntK ''CommandId'', W 0 BytesK ''Data'']\<rparr>"

definition LastPartialCommandMarshaller :: marshaller where
  "LastPartialCommandMarshaller = \<lparr>
     tightUnmarshal = tightUnmarshal PartialCommandMarshaller,
     tightMarshal1 = tightMarshal1 PartialCommandMarshaller,
     fixed_size = fixed_size PartialCommandMarshaller + 0,
     tightMarshal2 = tightMarshal2 PartialCommandMarshaller,
     looseUnmarshal = looseUnmarshal PartialCommandMarshaller,
     looseMarshal = looseMarshal PartialCommandMarshaller\<rparr>"

definition TransactionIdMarshaller :: marshaller where
  "TransactionIdMarshaller = \<lparr>
     tightUnmarshal = [],
     tightMarshal1 = [],
     fixed_size = 0,
     tightMarshal2 = [],
     looseUnmarshal = [],
     looseMarshal = []\<rparr>"

definition LocalTransactionIdMarshaller :: marshaller where
  "LocalTransactionIdMarshaller = \<lparr>
     tightUnmarshal = tightUnmarshal TransactionIdMarshaller @
      [R 0 LongK ''Value'' '''', R 0 CachedK ''ConnectionId'' ''ConnectionId''],
     tightMarshal1 = tightMarshal1 TransactionIdMarshaller @
      [W 0 LongK ''Value'', W 0 CachedK ''ConnectionId''],
     fixed_size = fixed_size TransactionIdMarshaller + 0,
     tightMarshal2 = tightMarshal2 TransactionIdMarshaller @
      [W 0 LongK ''Value'', W 0 CachedK ''ConnectionId''],
     looseUnmarshal = looseUnmarshal TransactionIdMarshaller @
      [R 0 LongK ''Value'' '''', R 0 CachedK ''ConnectionId'' ''ConnectionId''],
     looseMarshal = looseMarshal TransactionIdMarshaller @
      [W 0 LongK ''Value'', W 0 CachedK ''ConnectionId'']\<rparr>"

definition MessageAckMarshaller :: marshaller where
  "MessageAckMarshaller = \<lparr>
     tightUnmarshal = tightUnmarshal BaseCommandMarshaller @
      [R 0 CachedK ''Destination'' ''ActiveMQDestination'', R 0 CachedK ''TransactionId'' ''TransactionId'',
       R 0 CachedK ''ConsumerId'' ''ConsumerId'', R 0 ByteK ''AckType'' '''',
       R 0 NestedK ''FirstMessageId'' ''MessageId'', R 0 NestedK ''LastMessageId'' ''MessageId'',
       R 0 IntK ''MessageCount'' '''', R 7 ErrorK ''PoisonCause'' ''''],
     tightMarshal1 = tightMarshal1 BaseCommandMarshaller @
      [W 0 CachedK ''Destination'', W 0 CachedK ''TransactionId'', W 0 CachedK ''ConsumerId'',
       W 0 NestedK ''FirstMessageId'', W 0 NestedK ''LastMessageId'', W 7 ErrorK ''PoisonCause''],
     fixed_size = fixed_size BaseCommandMarshaller + 5,
     tightMarshal2 = tightMarshal2 BaseCommandMarshaller @
      [W 0 CachedK ''Destination'', W 0 CachedK ''TransactionId'', W 0 CachedK ''ConsumerId'',
       W 0 ByteK ''AckType'', W 0 NestedK ''FirstMessageId'', W 0 NestedK ''LastMessageId'',
       W 0 IntK ''MessageCount'', W 7 ErrorK ''PoisonCause''],
     looseUnmarshal = looseUnmarshal BaseCommandMarshaller @
      [R 0 CachedK ''Destination'' ''ActiveMQDestination'', R 0 CachedK ''TransactionId'' ''TransactionId'',
       R 0 CachedK ''ConsumerId'' ''ConsumerId'', R 0 ByteK ''AckType'' '''',
       R 0 NestedK ''FirstMessageId'' ''MessageId'', R 0 NestedK ''LastMessageId'' ''MessageId'',
       R 0 IntK ''MessageCount'' '''', R 7 ErrorK ''PoisonCause'' ''''],
     looseMarshal = looseMarshal BaseCommandMarshaller @
      [W 0 CachedK ''Destination'', W 0 CachedK ''TransactionId'', W 0 CachedK ''ConsumerId'',
       W 0 ByteK ''AckType'', W 0 NestedK ''FirstMessageId'', W 0 NestedK ''LastMessageId'',
       W 0 IntK ''MessageCount'', W 7 ErrorK ''PoisonCause'']\<rparr>"

definition MessageDispatchMarshaller :: marshaller where
  "MessageDispatchMarshaller = \<lparr>
     tightUnmarshal = tightUnmarshal BaseCommandMarshaller @
      [R 0 CachedK ''ConsumerId'' ''ConsumerId'', R 0 CachedK ''Destination'' ''ActiveMQDestination'',
       R 0 NestedK ''Message'' ''Message'', R 0 IntK ''RedeliveryCounter'' ''''],
     tightMarshal1 = tightMarshal1 BaseCommandMarshaller @
      [W 0 CachedK ''ConsumerId'', W 0 CachedK ''Destination'', W 0 NestedK ''Message''],
     fixed_size = fixed_size BaseCommandMarshaller + 4,
     tightMarshal2 = tightMarshal2 BaseCommandMarshaller @
      [W 0 CachedK ''ConsumerId'', W 0 CachedK ''Destination'', W 0 NestedK ''Message'',
       W 0 IntK ''RedeliveryCounter''],
     looseUnmarshal = looseUnmarshal BaseCommandMarshaller @
      [R 0 CachedK ''ConsumerId'' ''ConsumerId'', R 0 CachedK ''Destination'' ''ActiveMQDestination'',
       R 0 NestedK ''Message'' ''Message'', R 0 IntK ''RedeliveryCounter'' ''''],
     looseMarshal = looseMarshal BaseCommandMarshaller @
      [W 0 CachedK ''ConsumerId'', W 0 CachedK ''Destination'', W 0 NestedK ''Message'',
       W 0 IntK ''RedeliveryCounter'']\<rparr>"

definition MessageDispatchNotificationMarshaller :: marshaller where
  "MessageDispatchNotificationMarshaller = \<lparr>
     tightUnmarshal = tightUnmarshal BaseCommandMarshaller @
      [R 0 CachedK ''ConsumerId'' ''ConsumerId'', R 0 CachedK ''Destination'' ''ActiveMQDestination'',
       R 0 LongK ''DeliverySequenceId'' '''', R 0 NestedK ''MessageId'' ''MessageId''],
     tightMarshal1 = tightMarshal1 BaseCommandMarshaller @
      [W 0 CachedK ''ConsumerId'', W 0 CachedK ''Destination'', W 0 LongK ''DeliverySequenceId'',
       W 0 NestedK ''MessageId''],
     fixed_size = fixed_size BaseCommandMarshaller + 0,
     tightMarshal2 = tightMarshal2 BaseCommandMarshaller @
      [W 0 CachedK ''ConsumerId'', W 0 CachedK ''Destination'', W 0 LongK ''DeliverySequenceId'',
       W 0 NestedK ''MessageId''],
     looseUnmarshal = looseUnmarshal BaseCommandMarshaller @
      [R 0 CachedK ''ConsumerId'' ''ConsumerId'', R 0 CachedK ''Destination'' ''ActiveMQDestination'',
       R 0 LongK ''DeliverySequenceId'' '''', R 0 NestedK ''MessageId'' ''MessageId''],
     looseMarshal = looseMarshal BaseCommandMarshaller @
      [W 0 CachedK ''ConsumerId'', W 0 CachedK ''Destination'', W 0 LongK ''DeliverySequenceId'',
       W 0 NestedK ''MessageId'']\<rparr>"

definition MessageIdMarshaller :: marshaller where
  "MessageIdMarshaller = \<lparr>
     tightUnmarshal = [R 10 StringK ''TextView'' '''', R 0 CachedK ''ProducerId'' ''ProducerId'',
       R 0 LongK ''ProducerSequenceId'' '''', R 0 LongK ''BrokerSequenceId'' ''''],
     tightMarshal1 = [W 10 StringK ''TextView'', W 0 CachedK ''ProducerId'', W 0 LongK ''ProducerSequenceId'',
       W 0 LongK ''BrokerSequenceId''],
     fixed_size = 0,
     tightMarshal2 = [W 10 StringK ''TextView'', W 0 CachedK ''ProducerId'', W 0 LongK ''ProducerSequenceId'',
       W 0 LongK ''BrokerSequenceId''],
     looseUnmarshal = [R 10 StringK ''TextView'' '''', R 0 CachedK ''ProducerId'' ''ProducerId'',
       R 0 LongK ''ProducerSequenceId'' '''', R 0 LongK ''BrokerSequenceId'' ''''],
     looseMarshal = [W 10 StringK ''TextView'', W 0 CachedK ''ProducerId'', W 0 LongK ''ProducerSequenceId'',
       W 0 LongK ''BrokerSequenceId'']\<rparr>"

definition MessagePullMarshaller :: marshaller where
  "MessagePullMarshaller = \<lparr>
     tightUnmarshal = tightUnmarshal BaseCommandMarshaller @
      [R 0 CachedK ''ConsumerId'' ''ConsumerId'', R 0 CachedK ''Destination'' ''ActiveMQDestination'',
       R 0 LongK ''Timeout'' '''', R 3 StringK ''CorrelationId'' '''', R 3 NestedK ''MessageId'' ''MessageId''],
     tightMarshal1 = tightMarshal1 BaseCommandMarshaller @
      [W 0 CachedK ''ConsumerId'', W 0 CachedK ''Destination'', W 0 LongK ''Timeout'',
       W 3 StringK ''CorrelationId'', W 3 NestedK ''MessageId''],
     fixed_size = fixed_size BaseCommandMarshaller + 0,
     tightMarshal2 = tightMarshal2 BaseCommandMarshaller @
      [W 0 CachedK ''ConsumerId'', W 0 CachedK ''Destination'', W 0 LongK ''Timeout'',
       W 3 StringK ''CorrelationId'', W 3 NestedK ''MessageId''],
     looseUnmarshal = looseUnmarshal BaseCommandMarshaller @
      [R 0 CachedK ''ConsumerId'' ''ConsumerId'', R 0 CachedK ''Destination'' ''ActiveMQDestination'',
       R 0 LongK ''Timeout'' '''', R 3 StringK ''CorrelationId'' '''', R 3 NestedK ''MessageId'' ''MessageId''],
     looseMarshal = looseMarshal BaseCommandMarshaller @
      [W 0 CachedK ''ConsumerId'', W 0 CachedK ''Destination'', W 0 LongK ''Timeout'',
       W 3 StringK ''CorrelationId'', W 3 NestedK ''MessageId'']\<rparr>"

definition NetworkBridgeFilterMarshaller :: marshaller where
  "NetworkBridgeFilterMarshaller = \<lparr>
     tightUnmarshal = [R 0 CachedK ''NetworkBrokerId'' ''BrokerId'', R 10 IntK ''MessageTTL'' '''',
       R 10 IntK ''ConsumerTTL'' ''''],
     tightMarshal1 = [W 0 CachedK ''NetworkBrokerId''],
     fixed_size = 8,
     tightMarshal2 = [W 0 CachedK ''NetworkBrokerId'', W 10 IntK ''MessageTTL'', W 10 IntK ''ConsumerTTL''],
     looseUnmarshal = [R 0 CachedK ''NetworkBrokerId'' ''BrokerId'', R 10 IntK ''MessageTTL'' '''',
       R 10 IntK ''ConsumerTTL'' ''''],
     looseMarshal = [W 0 CachedK ''NetworkBrokerId'', W 10 IntK ''MessageTTL'', W 10 IntK ''ConsumerTTL'']\<rparr>"

definition ProducerAckMarshaller :: marshaller where
  "ProducerAckMarshaller = \<lparr>
     tightUnmarshal = tightUnmarshal BaseCommandMarshaller @
      [R 3 NestedK ''ProducerId'' ''ProducerId'', R 3 IntK ''Size'' ''''],
     tightMarshal1 = tightMarshal1 BaseCommandMarshaller @
      [W 3 NestedK ''ProducerId''],
     fixed_size = fixed_size BaseCommandMarshaller + 4,
     tightMarshal2 = tightMarshal2 BaseCommandMarshaller @
      [W 3 NestedK ''ProducerId'', W 3 IntK ''Size''],
     looseUnmarshal = looseUnmarshal BaseCommandMarshaller @
      [R 3 NestedK ''ProducerId'' ''ProducerId'', R 3 IntK ''Size'' ''''],
     looseMarshal = looseMarshal BaseCommandMarshaller @
      [W 3 NestedK ''ProducerId'', W 3 IntK ''Size'']\<rparr>"

definition ProducerIdMarshaller :: marshaller where
  "ProducerIdMarshaller = \<lparr>
     tightUnmarshal = [R 0 StringK ''ConnectionId'' '''', R 0 LongK ''Value'' '''', R 0 LongK ''SessionId'' ''''],
     tightMarshal1 = [W 0 StringK ''ConnectionId'', W 0 LongK ''Value'', W 0 LongK ''SessionId''],
     fixed_size = 0,
     tightMarshal2 = [W 0 StringK ''ConnectionId'', W 0 LongK ''Value'', W 0 LongK ''SessionId''],
     looseUnmarshal = [R 0 StringK ''ConnectionId'' '''', R 0 LongK ''Value'' '''', R 0 LongK ''SessionId'' ''''],
     looseMarshal = [W 0 StringK ''ConnectionId'', W 0 LongK ''Value'', W 0 LongK ''SessionId'']\<rparr>"

definition ProducerInfoMarshaller :: marshaller where
  "ProducerInfoMarshaller = \<lparr>
     tightUnmarshal = tightUnmarshal BaseCommandMarshaller @
      [R 0 CachedK ''ProducerId'' ''ProducerId'', R 0 CachedK ''Destination'' ''ActiveMQDestination'',
       R 0 ArrayK ''BrokerPath'' ''BrokerId'', R 2 BoolK ''DispatchAsync'' '''', R 3 IntK ''WindowSize'' ''''],
     tightMarshal1 = tightMarshal1 BaseCommandMarshaller @
      [W 0 CachedK ''ProducerId'', W 0 CachedK ''Destination'', W 0 ArrayK ''BrokerPath'',
       W 2 BoolK ''DispatchAsync''],
     fixed_size = fixed_size BaseCommandMarshaller + 4,
     tightMarshal2 = tightMarshal2 BaseCommandMarshaller @
      [W 0 CachedK ''ProducerId'', W 0 CachedK ''Destination'', W 0 ArrayK ''BrokerPath'', W 2 BoolK '''',
       W 3 IntK ''WindowSize''],
     looseUnmarshal = looseUnmarshal BaseCommandMarshaller @
      [R 0 CachedK ''ProducerId'' ''ProducerId'', R 0 CachedK ''Destination'' ''ActiveMQDestination'',
       R 0 ArrayK ''BrokerPath'' ''BrokerId'', R 2 BoolK ''DispatchAsync'' '''', R 3 IntK ''WindowSize'' ''''],
     looseMarshal = looseMarshal BaseCommandMarshaller @
      [W 0 CachedK ''ProducerId'', W 0 CachedK ''Destination'', W 0 ArrayK ''BrokerPath'',
       W 2 BoolK ''DispatchAsync'', W 3 IntK ''WindowSize'']\<rparr>"

definition RemoveInfoMarshaller :: marshaller where
  "RemoveInfoMarshaller = \<lparr>
     tightUnmarshal = tightUnmarshal BaseCommandMarshaller @
      [R 0 CachedK ''ObjectId'' ''DataStructure'', R 5 LongK ''LastDeliveredSequenceId'' ''''],
     tightMarshal1 = tightMarshal1 BaseCommandMarshaller @
      [W 0 CachedK ''ObjectId'', W 5 LongK ''LastDeliveredSequenceId''],
     fixed_size = fixed_size BaseCommandMarshaller + 0,
     tightMarshal2 = tightMarshal2 BaseCommandMarshaller @
      [W 0 CachedK ''ObjectId'', W 5 LongK ''LastDeliveredSequenceId''],
     looseUnmarshal = looseUnmarshal BaseCommandMarshaller @
      [R 0 CachedK ''ObjectId'' ''DataStructure'', R 5 LongK ''LastDeliveredSequenceId'' ''''],
     looseMarshal = looseMarshal BaseCommandMarshaller @
      [W 0 CachedK ''ObjectId'', W 5 LongK ''LastDeliveredSequenceId'']\<rparr>"

definition RemoveSubscriptionInfoMarshaller :: marshaller where
  "RemoveSubscriptionInfoMarshaller = \<lparr>
     tightUnmarshal = tightUnmarshal BaseCommandMarshaller @
      [R 0 CachedK ''ConnectionId'' ''ConnectionId'', R 0 StringK ''SubcriptionName'' '''',
       R 0 StringK ''ClientId'' ''''],
     tightMarshal1 = tightMarshal1 BaseCommandMarshaller @
      [W 0 CachedK ''ConnectionId'', W 0 StringK ''SubcriptionName'', W 0 StringK ''ClientId''],
     fixed_size = fixed_size BaseCommandMarshaller + 0,
     tightMarshal2 = tightMarshal2 BaseCommandMarshaller @
      [W 0 CachedK ''ConnectionId'', W 0 StringK ''SubcriptionName'', W 0 StringK ''ClientId''],
     looseUnmarshal = looseUnmarshal BaseCommandMarshaller @
      [R 0 CachedK ''ConnectionId'' ''ConnectionId'', R 0 StringK ''SubcriptionName'' '''',
       R 0 StringK ''ClientId'' ''''],
     looseMarshal = looseMarshal BaseCommandMarshaller @
      [W 0 CachedK ''ConnectionId'', W 0 StringK ''SubcriptionName'', W 0 StringK ''ClientId'']\<rparr>"

definition ReplayCommandMarshaller :: marshaller where
  "ReplayCommandMarshaller = \<lparr>
     tightUnmarshal = tightUnmarshal BaseCommandMarshaller @
      [R 0 IntK ''FirstNakNumber'' '''', R 0 IntK ''LastNakNumber'' ''''],
     tightMarshal1 = tightMarshal1 BaseCommandMarshaller,
     fixed_size = fixed_size BaseCommandMarshaller + 8,
     tightMarshal2 = tightMarshal2 BaseCommandMarshaller @
      [W 0 IntK ''FirstNakNumber'', W 0 IntK ''LastNakNumber''],
     looseUnmarshal = looseUnmarshal BaseCommandMarshaller @
      [R 0 IntK ''FirstNakNumber'' '''', R 0 IntK ''LastNakNumber'' ''''],
     looseMarshal = looseMarshal BaseCommandMarshaller @
      [W 0 IntK ''FirstNakNumber'', W 0 IntK ''LastNakNumber'']\<rparr>"

definition SessionIdMarshaller :: marshaller where
  "SessionIdMarshaller = \<lparr>
     tightUnmarshal = [R 0 StringK ''ConnectionId'' '''', R 0 LongK ''Value'' ''''],
     tightMarshal1 = [W 0 StringK ''ConnectionId'', W 0 LongK ''Value''],
     fixed_size = 0,
     tightMarshal2 = [W 0 StringK ''ConnectionId'', W 0 LongK ''Value''],
     looseUnmarshal = [R 0 StringK ''ConnectionId'' '''', R 0 LongK ''Value'' ''''],
     looseMarshal = [W 0 StringK ''ConnectionId'', W 0 LongK ''Value'']\<rparr>"

definition SessionInfoMarshaller :: marshaller where
  "SessionInfoMarshaller = \<lparr>
     tightUnmarshal = tightUnmarshal BaseCommandMarshaller @
      [R 0 CachedK ''SessionId'' ''SessionId''],
     tightMarshal1 = tightMarshal1 BaseCommandMarshaller @
      [W 0 CachedK ''SessionId''],
     fixed_size = fixed_size BaseCommandMarshaller + 0,
     tightMarshal2 = tightMarshal2 BaseCommandMarshaller @
      [W 0 CachedK ''SessionId''],
     looseUnmarshal = looseUnmarshal BaseCommandMarshaller @
      [R 0 CachedK ''SessionId'' ''SessionId''],
     looseMarshal = looseMarshal BaseCommandMarshaller @
      [W 0 CachedK ''SessionId'']\<rparr>"

definition ShutdownInfoMarshaller :: marshaller where
  "ShutdownInfoMarshaller = \<lparr>
     tightUnmarshal = tightUnmarshal BaseCommandMarshaller,
     tightMarshal1 = tightMarshal1 BaseCommandMarshaller,
     fixed_size = fixed_size BaseCommandMarshaller + 0,
     tightMarshal2 = tightMarshal2 BaseCommandMarshaller,
     looseUnmarshal = looseUnmarshal BaseCommandMarshaller,
     looseMarshal = looseMarshal BaseCommandMarshaller\<rparr>"

definition SubscriptionInfoMarshaller :: marshaller where
  "SubscriptionInfoMarshaller = \<lparr>
     tightUnmarshal = [R 0 StringK ''ClientId'' '''', R 0 CachedK ''Destination'' ''ActiveMQDestination'',
       R 0 StringK ''Selector'' '''', R 0 StringK ''SubcriptionName'' '''',
       R 3 NestedK ''SubscribedDestination'' ''ActiveMQDestination'', R 11 BoolK ''NoLocal'' ''''],
     tightMarshal1 = [W 0 StringK ''ClientId'', W 0 CachedK ''Destination'', W 0 StringK ''Selector'',
       W 0 StringK ''SubcriptionName'', W 3 NestedK ''SubscribedDestination'', W 11 BoolK ''NoLocal''],
     fixed_size = 0,
     tightMarshal2 = [W 0 StringK ''ClientId'', W 0 CachedK ''Destination'', W 0 StringK ''Selector'',
       W 0 StringK ''SubcriptionName'', W 3 NestedK ''SubscribedDestination'', W 11 BoolK ''''],
     looseUnmarshal = [R 0 StringK ''ClientId'' '''', R 0 CachedK ''Destination'' ''ActiveMQDestination'',
       R 0 StringK ''Selector'' '''', R 0 StringK ''SubcriptionName'' '''',
       R 3 NestedK ''SubscribedDestination'' ''ActiveMQDestination'', R 11 BoolK ''NoLocal'' ''''],
     looseMarshal = [W 0 StringK ''ClientId'', W 0 CachedK ''Destination'', W 0 StringK ''Selector'',
       W 0 StringK ''SubcriptionName'', W 3 NestedK ''SubscribedDestination'', W 11 BoolK ''NoLocal'']\<rparr>"

definition TransactionInfoMarshaller :: marshaller where
  "TransactionInfoMarshaller = \<lparr>
     tightUnmarshal = tightUnmarshal BaseCommandMarshaller @
      [R 0 CachedK ''ConnectionId'' ''ConnectionId'', R 0 CachedK ''TransactionId'' ''TransactionId'',
       R 0 ByteK ''Type'' ''''],
     tightMarshal1 = tightMarshal1 BaseCommandMarshaller @
      [W 0 CachedK ''ConnectionId'', W 0 CachedK ''TransactionId''],
     fixed_size = fixed_size BaseCommandMarshaller + 1,
     tightMarshal2 = tightMarshal2 BaseCommandMarshaller @
      [W 0 CachedK ''ConnectionId'', W 0 CachedK ''TransactionId'', W 0 ByteK ''Type''],
     looseUnmarshal = looseUnmarshal BaseCommandMarshaller @
      [R 0 CachedK ''ConnectionId'' ''ConnectionId'', R 0 CachedK ''TransactionId'' ''TransactionId'',
       R 0 ByteK ''Type'' ''''],
     looseMarshal = looseMarshal BaseCommandMarshaller @
      [W 0 CachedK ''ConnectionId'', W 0 CachedK ''TransactionId'', W 0 ByteK ''Type'']\<rparr>"

definition WireFormatInfoMarshaller :: marshaller where
  "WireFormatInfoMarshaller = \<lparr>
     tightUnmarshal = [R 0 (ConstBytesK 8) ''Magic'' '''', R 0 IntK ''Version'' '''', R 0 BytesK ''MarshalledProperties'' ''''],
     tightMarshal1 = [W 0 BytesK ''MarshalledProperties''],
     fixed_size = 12,
     tightMarshal2 = [W 0 (ConstBytesK 8) ''Magic'', W 0 IntK ''Version'', W 0 BytesK ''MarshalledProperties''],
     looseUnmarshal = [R 0 (ConstBytesK 8) ''Magic'' '''', R 0 IntK ''Version'' '''', R 0 BytesK ''MarshalledProperties'' ''''],
     looseMarshal = [W 0 (ConstBytesK 8) ''Magic'', W 0 IntK ''Version'', W 0 BytesK ''MarshalledProperties'']\<rparr>"

definition XATransactionIdMarshaller :: marshaller where
  "XATransactionIdMarshaller = \<lparr>
     tightUnmarshal = tightUnmarshal TransactionIdMarshaller @
      [R 0 IntK ''FormatId'' '''', R 0 BytesK ''GlobalTransactionId'' '''', R 0 BytesK ''BranchQualifier'' ''''],
     tightMarshal1 = tightMarshal1 TransactionIdMarshaller @
      [W 0 BytesK ''GlobalTransactionId'', W 0 BytesK ''BranchQualifier''],
     fixed_size = fixed_size TransactionIdMarshaller + 4,
     tightMarshal2 = tightMarshal2 TransactionIdMarshaller @
      [W 0 IntK ''FormatId'', W 0 BytesK ''GlobalTransactionId'', W 0 BytesK ''BranchQualifier''],
     looseUnmarshal = looseUnmarshal TransactionIdMarshaller @
      [R 0 IntK ''FormatId'' '''', R 0 BytesK ''GlobalTransactionId'' '''', R 0 BytesK ''BranchQualifier'' ''''],
     looseMarshal = looseMarshal TransactionIdMarshaller @
      [W 0 IntK ''FormatId'', W 0 BytesK ''GlobalTransactionId'', W 0 BytesK ''BranchQualifier'']\<rparr>"

text \<open>\<open>MarshallerFactory::configure\<close>: each marshaller is registered under its \<open>getDataStructureType()\<close>.\<close>

definition registered :: "(byte \<times> marshaller) list" where
  "registered =
    [(29, ActiveMQBlobMessageMarshaller), (24, ActiveMQBytesMessageMarshaller),
     (25, ActiveMQMapMessageMarshaller), (23, ActiveMQMessageMarshaller),
     (26, ActiveMQObjectMessageMarshaller), (100, ActiveMQQueueMarshaller),
     (27, ActiveMQStreamMessageMarshaller), (102, ActiveMQTempQueueMarshaller),
     (103, ActiveMQTempTopicMarshaller), (28, ActiveMQTextMessageMarshaller), (101, ActiveMQTopicMarshaller),
     (124, BrokerIdMarshaller), (2, BrokerInfoMarshaller), (18, ConnectionControlMarshaller),
     (16, ConnectionErrorMarshaller), (120, ConnectionIdMarshaller), (3, ConnectionInfoMarshaller),
     (17, ConsumerControlMarshaller), (122, ConsumerIdMarshaller), (5, ConsumerInfoMarshaller),
     (14, ControlCommandMarshaller), (33, DataArrayResponseMarshaller), (32, DataResponseMarshaller),
     (8, DestinationInfoMarshaller), (40, DiscoveryEventMarshaller), (31, ExceptionResponseMarshaller),
     (15, FlushCommandMarshaller), (34, IntegerResponseMarshaller), (52, JournalQueueAckMarshaller),
     (50, JournalTopicAckMarshaller), (53, JournalTraceMarshaller), (54, JournalTransactionMarshaller),
     (10, KeepAliveInfoMarshaller), (61, LastPartialCommandMarshaller), (111, LocalTransactionIdMarshaller),
     (22, MessageAckMarshaller), (21, MessageDispatchMarshaller),
     (90, MessageDispatchNotificationMarshaller), (110, MessageIdMarshaller), (20, MessagePullMarshaller),
     (91, NetworkBridgeFilterMarshaller), (60, PartialCommandMarshaller), (19, ProducerAckMarshaller),
     (123, ProducerIdMarshaller), (6, ProducerInfoMarshaller), (12, RemoveInfoMarshaller),
     (9, RemoveSubscriptionInfoMarshaller), (65, ReplayCommandMarshaller), (30, ResponseMarshaller),
     (121, SessionIdMarshaller), (4, SessionInfoMarshaller), (11, ShutdownInfoMarshaller),
     (55, SubscriptionInfoMarshaller), (7, TransactionInfoMarshaller), (1, WireFormatInfoMarshaller),
     (112, XATransactionIdMarshaller)]"

definition addMarshaller :: "byte \<times> marshaller \<Rightarrow> (byte \<Rightarrow> marshaller option) \<Rightarrow> byte \<Rightarrow> marshaller option" where
  "addMarshaller tm tbl = tbl(fst tm := Some (snd tm))"

definition MarshallerFactory_configure :: "(byte \<Rightarrow> marshaller option) \<Rightarrow> byte \<Rightarrow> marshaller option" where
  "MarshallerFactory_configure tbl = fold addMarshaller registered tbl"

text \<open>
  The class hierarchy of \<open>activemq/commands\<close>: the type codes of the classes that a \<open>dynamic_cast\<close> to the
  named class accepts. No command is a \<open>BooleanExpression\<close>.
\<close>

definition class_codes :: "string \<Rightarrow> byte list" where
  "class_codes c =
     (if c = ''ActiveMQDestination'' then [100, 101, 102, 103]
      else if c = ''BrokerId'' then [124]
      else if c = ''BrokerInfo'' then [2]
      else if c = ''ConnectionId'' then [120]
      else if c = ''ConsumerId'' then [122]
      else if c = ''Message'' then [23, 24, 25, 26, 27, 28, 29]
      else if c = ''MessageAck'' then [22]
      else if c = ''MessageId'' then [110]
      else if c = ''ProducerId'' then [123]
      else if c = ''SessionId'' then [121]
      else if c = ''TransactionId'' then [111, 112]
      else if c = ''Command'' then [1, 2, 3, 4, 5, 6, 7, 8, 9, 10, 11, 12, 14, 15, 16, 17, 18, 19, 20, 21, 22, 23, 24, 25, 26, 27, 28, 29,
        30, 31, 32, 33, 34, 65, 90]
      else [])"

text \<open>\<open>isMarshalAware()\<close>: the messages and \<open>WireFormatInfo\<close>. Their \<open>getMarshaledForm\<close> is that of
  \<open>BaseDataStructure\<close>, an empty vector.\<close>

definition isMarshalAware :: "byte \<Rightarrow> bool" where
  "isMarshalAware t \<longleftrightarrow> t \<in> set (class_codes ''Message'') \<or> t = 1"

end
