(* ===== verification/Open_Wire_Format.thy ===== *)
theory Open_Wire_Format
  imports Generated_Marshallers
begin

text \<open>
  \<open>activemq/wireformat/openwire/OpenWireFormat.cpp\<close>: the frame of a command, the dispatch on its type to a
  marshaller, nested objects and the negotiation of the format.
\<close>

section \<open>The wire format\<close>

text \<open>The values that the getters of a \<open>WireFormatInfo\<close> return.\<close>

record wire_format_info =
  wi_version :: int
  wi_stackTraceEnabled :: bool
  wi_tcpNoDelayEnabled :: bool
  wi_cacheEnabled :: bool
  wi_tightEncodingEnabled :: bool
  wi_sizePrefixDisabled :: bool
  wi_cacheSize :: int
  wi_maxInactivityDuration :: int
  wi_maxInactivityDurationInitalDelay :: int

record open_wire_format =
  preferedWireFormatInfo :: "wire_format_info option"
  dataMarshallers :: "byte \<Rightarrow> marshaller option"
  version :: int
  stackTraceEnabled :: bool
  tcpNoDelayEnabled :: bool
  cacheEnabled :: bool
  cacheSize :: int
  tightEncodingEnabled :: bool
  sizePrefixDisabled :: bool
  maxInactivityDuration :: int
  maxInactivityDurationInitialDelay :: int

definition DEFAULT_VERSION :: int where "DEFAULT_VERSION = 1"
definition MAX_SUPPORTED_VERSION :: int where "MAX_SUPPORTED_VERSION = 11"
definition NULL_TYPE :: byte where "NULL_TYPE = 0"

definition setVersion :: "int \<Rightarrow> open_wire_format \<Rightarrow> open_wire_format result" where
  "setVersion v fmt =
     (if v = version fmt then Ok fmt
      else if v > MAX_SUPPORTED_VERSION then Throw IllegalArgumentException
      else Ok (fmt\<lparr>version := v\<rparr>))"

definition OpenWireFormat_new :: "open_wire_format result" where
  "OpenWireFormat_new =
     setVersion DEFAULT_VERSION
       \<lparr>preferedWireFormatInfo = None, dataMarshallers = MarshallerFactory_configure (\<lambda>_. None), version = 0,
        stackTraceEnabled = True, tcpNoDelayEnabled = True, cacheEnabled = True, cacheSize = 1024,
        tightEncodingEnabled = False, sizePrefixDisabled = False, maxInactivityDuration = 30000,
        maxInactivityDurationInitialDelay = 10000\<rparr>"

definition renegotiateWireFormat :: "wire_format_info \<Rightarrow> open_wire_format \<Rightarrow> open_wire_format result" where
  "renegotiateWireFormat info fmt =
     (case preferedWireFormatInfo fmt of
        None \<Rightarrow> Throw IllegalStateException
      | Some pref \<Rightarrow>
          rbind (setVersion (min (wi_version pref) (wi_version info)) fmt) (\<lambda>fmt.
          Ok (fmt\<lparr>stackTraceEnabled := wi_stackTraceEnabled info \<and> wi_stackTraceEnabled pref,
                 tcpNoDelayEnabled := wi_tcpNoDelayEnabled info \<and> wi_tcpNoDelayEnabled pref,
                 cacheEnabled := wi_cacheEnabled info \<and> wi_cacheEnabled pref,
                 tightEncodingEnabled := wi_tightEncodingEnabled info \<and> wi_tightEncodingEnabled pref,
                 sizePrefixDisabled := wi_sizePrefixDisabled info \<and> wi_sizePrefixDisabled pref,
                 cacheSize := min (wi_cacheSize info) (wi_cacheSize pref),
                 maxInactivityDuration := min (wi_maxInactivityDuration info) (wi_maxInactivityDuration pref),
                 maxInactivityDurationInitialDelay :=
                   min (wi_maxInactivityDurationInitalDelay info) (wi_maxInactivityDurationInitalDelay pref)\<rparr>)))"

section \<open>The functions of a marshaller\<close>

definition dsm_tightMarshal1 :: "nested1_fun \<Rightarrow> open_wire_format \<Rightarrow> marshaller \<Rightarrow> data_structure \<Rightarrow> boolean_stream \<Rightarrow> (size \<times> boolean_stream) result" where
  "dsm_tightMarshal1 nst fmt m obj = (\<lambda>bs.
     catch_io (seq1 (run1 nst (stackTraceEnabled fmt) (version fmt) (tightMarshal1 m) obj) (size_only (word_of_nat (fixed_size m))) bs))"

definition dsm_tightMarshal2 :: "nested2_fun \<Rightarrow> open_wire_format \<Rightarrow> marshaller \<Rightarrow> data_structure \<Rightarrow> data_output \<Rightarrow> boolean_stream \<Rightarrow> (data_output \<times> boolean_stream) result" where
  "dsm_tightMarshal2 nst fmt m obj = (\<lambda>dataOut bs.
     catch_io (run2 nst (stackTraceEnabled fmt) (version fmt) (tightMarshal2 m) obj dataOut bs))"

definition dsm_looseMarshal :: "nestedL_fun \<Rightarrow> open_wire_format \<Rightarrow> marshaller \<Rightarrow> data_structure \<Rightarrow> data_output \<Rightarrow> data_output result" where
  "dsm_looseMarshal nst fmt m obj = (\<lambda>dataOut.
     catch_io (runL nst (stackTraceEnabled fmt) (version fmt) (looseMarshal m) obj dataOut))"

text \<open>Reading fills the object that \<open>createObject\<close> has made, of the marshaller's type \<open>t\<close>.\<close>

definition dsm_tightUnmarshal :: "nested3_fun \<Rightarrow> nat \<Rightarrow> open_wire_format \<Rightarrow> byte \<Rightarrow> marshaller \<Rightarrow>
    data_input \<Rightarrow> boolean_stream \<Rightarrow> (data_structure \<times> data_input \<times> boolean_stream) result" where
  "dsm_tightUnmarshal nst n fmt t m = (\<lambda>dataIn bs.
     catch_io (map3 (DataStructure t) (run3 nst n class_codes (stackTraceEnabled fmt) (version fmt) (tightUnmarshal m)) dataIn bs))"

definition dsm_looseUnmarshal :: "nestedG_fun \<Rightarrow> nat \<Rightarrow> open_wire_format \<Rightarrow> byte \<Rightarrow> marshaller \<Rightarrow>
    data_input \<Rightarrow> (data_structure \<times> data_input) result" where
  "dsm_looseUnmarshal nst n fmt t m = (\<lambda>dataIn.
     catch_io (mapL (DataStructure t) (runG nst n class_codes (stackTraceEnabled fmt) (version fmt) (looseUnmarshal m)) dataIn))"

section \<open>Nested objects\<close>

text \<open>\<open>getMarshaledForm\<close> is empty for every class, so that the flag for it is false.\<close>

fun tightMarshalNestedObject1 :: "nat \<Rightarrow> open_wire_format \<Rightarrow> nested1_fun" where
  "tightMarshalNestedObject1 0 fmt obj = (\<lambda>bs. Throw MemoryFault)"
| "tightMarshalNestedObject1 (Suc n) fmt None = (\<lambda>bs. catch_io (flag1 False bs))"
| "tightMarshalNestedObject1 (Suc n) fmt (Some obj) = (\<lambda>bs.
     catch_io (seq1 (flag1 True) (seq1 (if isMarshalAware (ds_type obj) then flag1 False else size_only 0)
       (if ds_type obj = 0 then (\<lambda>bs. Throw IOException)
        else case dataMarshallers fmt (ds_type obj) of
          None \<Rightarrow> (\<lambda>bs. Throw IOException)
        | Some dsm \<Rightarrow> seq1 (size_only 1) (dsm_tightMarshal1 (tightMarshalNestedObject1 n fmt) fmt dsm obj))) bs))"

text \<open>For an object that gave its marshalled form the flag is set, and \<open>&sequence[0]\<close> of an empty vector is written with length 0.\<close>

fun tightMarshalNestedObject2 :: "nat \<Rightarrow> open_wire_format \<Rightarrow> nested2_fun" where
  "tightMarshalNestedObject2 0 fmt obj = (\<lambda>ds bs. Throw MemoryFault)"
| "tightMarshalNestedObject2 (Suc n) fmt None = (\<lambda>ds bs. catch_io (if2 (\<lambda>ds bs. Throw MemoryFault) skip2 ds bs))"
| "tightMarshalNestedObject2 (Suc n) fmt (Some obj) =
     (let marshal_it = (case dataMarshallers fmt (ds_type obj) of
          None \<Rightarrow> (\<lambda>ds bs. Throw IOException)
        | Some dsm \<Rightarrow> dsm_tightMarshal2 (tightMarshalNestedObject2 n fmt) fmt dsm obj)
      in (\<lambda>ds bs. catch_io (if2 (seq2 (put2 (writeByte (ds_type obj)))
           (if isMarshalAware (ds_type obj) then if2 skip2 marshal_it else marshal_it)) skip2 ds bs)))"

fun tightUnmarshalNestedObject :: "nat \<Rightarrow> open_wire_format \<Rightarrow> nested3_fun" where
  "tightUnmarshalNestedObject 0 fmt = (\<lambda>dis bs. Throw MemoryFault)"
| "tightUnmarshalNestedObject (Suc n) fmt = (\<lambda>dis bs.
     catch_io (if3 (bind3 (get3 readByte) (\<lambda>t.
       case dataMarshallers fmt t of
         None \<Rightarrow> (\<lambda>dis bs. Throw IOException)
       | Some dsm \<Rightarrow>
           (let get = map3 Some (dsm_tightUnmarshal (tightUnmarshalNestedObject n fmt) n fmt t dsm)
            in if isMarshalAware t then
                 if3 (bind3 (get3 readInt) (\<lambda>_. bind3 (get3 readByte) (\<lambda>_ dis bs.
                   rbind (BooleanStream_unmarshal dis BooleanStream_new) (\<lambda>(dis', bs2).
                   rbind (get dis' bs2) (\<lambda>(obj, dis'', _). Ok (obj, dis'', bs))))))
                   get
               else get))) (ret3 None) dis bs))"

fun looseMarshalNestedObject :: "nat \<Rightarrow> open_wire_format \<Rightarrow> nestedL_fun" where
  "looseMarshalNestedObject 0 fmt obj = (\<lambda>dataOut. Throw MemoryFault)"
| "looseMarshalNestedObject (Suc n) fmt None = (\<lambda>dataOut. catch_io (writeBoolean False dataOut))"
| "looseMarshalNestedObject (Suc n) fmt (Some obj) = (\<lambda>dataOut.
     catch_io (seqL (writeBoolean True) (seqL (writeByte (ds_type obj))
       (case dataMarshallers fmt (ds_type obj) of
          None \<Rightarrow> (\<lambda>dataOut. Throw IOException)
        | Some dsm \<Rightarrow> dsm_looseMarshal (looseMarshalNestedObject n fmt) fmt dsm obj)) dataOut))"

fun looseUnmarshalNestedObject :: "nat \<Rightarrow> open_wire_format \<Rightarrow> nestedG_fun" where
  "looseUnmarshalNestedObject 0 fmt = (\<lambda>dis. Throw MemoryFault)"
| "looseUnmarshalNestedObject (Suc n) fmt = (\<lambda>dis.
     catch_io (bindL readBoolean (\<lambda>b. if b then
       bindL readByte (\<lambda>t. case dataMarshallers fmt t of
         None \<Rightarrow> (\<lambda>dis. Throw IOException)
       | Some dsm \<Rightarrow> mapL Some (dsm_looseUnmarshal (looseUnmarshalNestedObject n fmt) n fmt t dsm)) else retL None) dis))"

section \<open>Commands\<close>

text \<open>
  \<open>marshal\<close> and \<open>unmarshal\<close> for a transport that is not null. The loose encoding with a size prefix goes
  through a buffer, \<open>ByteArrayOutputStream\<close>; the cast to \<open>Command\<close> of what was read gives a null pointer for
  other types.
\<close>

definition empty_buffer :: data_output where
  "empty_buffer = \<lparr>os_sink = Some [], os_closed = False, written = 0\<rparr>"

definition OpenWireFormat_marshal :: "nat \<Rightarrow> open_wire_format \<Rightarrow> data_structure option \<Rightarrow> data_output \<Rightarrow> data_output result" where
  "OpenWireFormat_marshal n fmt command dataOut =
     catch_io (case command of
       None \<Rightarrow> seqL (writeInt 1) (writeByte NULL_TYPE) dataOut
     | Some obj \<Rightarrow>
         (case dataMarshallers fmt (ds_type obj) of
            None \<Rightarrow> Throw IOException
          | Some dsm \<Rightarrow>
              (if tightEncodingEnabled fmt then
                 rbind (dsm_tightMarshal1 (tightMarshalNestedObject1 n fmt) fmt dsm obj BooleanStream_new) (\<lambda>(sz, bs).
                 rbind ((if sizePrefixDisabled fmt then Ok else writeInt (1 + sz + word_of_int (BooleanStream_marshalledSize bs))) dataOut) (\<lambda>out1.
                 rbind (writeByte (ds_type obj) out1) (\<lambda>out2.
                 rbind (BooleanStream_marshal out2 bs) (\<lambda>(out3, bs2).
                 rbind (dsm_tightMarshal2 (tightMarshalNestedObject2 n fmt) fmt dsm obj out3 bs2) (\<lambda>(out4, _). Ok out4)))))
               else if sizePrefixDisabled fmt then
                 seqL (writeByte (ds_type obj)) (dsm_looseMarshal (looseMarshalNestedObject n fmt) fmt dsm obj) dataOut
               else
                 rbind (seqL (writeByte (ds_type obj)) (dsm_looseMarshal (looseMarshalNestedObject n fmt) fmt dsm obj) empty_buffer) (\<lambda>baos.
                 let array = the (os_sink baos)
                 in seqL (writeInt (word_of_nat (length array)))
                      (if length array > 0 then write_array_of array else Ok) dataOut))))"

definition doUnmarshal :: "nat \<Rightarrow> open_wire_format \<Rightarrow> data_input \<Rightarrow> (data_structure option \<times> data_input) result" where
  "doUnmarshal n fmt dis =
     catch_io (bindL readByte (\<lambda>t.
       if t \<noteq> NULL_TYPE then
         case dataMarshallers fmt t of
           None \<Rightarrow> (\<lambda>dis. Throw IOException)
         | Some dsm \<Rightarrow>
             (if tightEncodingEnabled fmt then (\<lambda>dis.
                rbind (BooleanStream_unmarshal dis BooleanStream_new) (\<lambda>(dis', bs).
                rbind (dsm_tightUnmarshal (tightUnmarshalNestedObject n fmt) n fmt t dsm dis' bs) (\<lambda>(obj, dis'', _).
                Ok (Some obj, dis''))))
              else mapL Some (dsm_looseUnmarshal (looseUnmarshalNestedObject n fmt) n fmt t dsm))
       else retL None) dis)"

definition OpenWireFormat_unmarshal :: "nat \<Rightarrow> open_wire_format \<Rightarrow> data_input \<Rightarrow> (data_structure option \<times> data_input) result" where
  "OpenWireFormat_unmarshal n fmt dis =
     catch_io (rbind (if sizePrefixDisabled fmt then Ok dis else rbind (readInt dis) (\<lambda>(_, dis'). Ok dis')) (\<lambda>dis1.
       rbind (doUnmarshal n fmt dis1) (\<lambda>(data, dis2).
       case data of
         None \<Rightarrow> Throw IOException
       | Some obj \<Rightarrow> Ok (cast_to class_codes ''Command'' (Some obj), dis2))))"

end
