(* ===== verification/Wire_Contracts.thy ===== *)
theory Wire_Contracts
  imports Wire_Programs
begin

text \<open>
  What the statements of a marshaller do together: when the five functions of a class agree
  (\<open>matched\<close>, a check on their statements), they keep the contract of a marshaller, provided the calls for
  nested objects do (locale \<open>nested_objects\<close>). The flags and bytes of a value are functions of those of
  the nested objects.
\<close>

section \<open>The flags and bytes of a value\<close>

definition val_ok :: "(data_structure option \<Rightarrow> bool) \<Rightarrow> (data_structure option \<Rightarrow> data_structure option) \<Rightarrow> nat \<Rightarrow> bool \<Rightarrow>
    (data_structure option \<Rightarrow> data_structure option) \<Rightarrow> kind \<Rightarrow> data_value \<Rightarrow> bool" where
  "val_ok nok nseen n ste cst k v =
     (case v of
        BoolV b \<Rightarrow> k = BoolK
      | ByteV b \<Rightarrow> k = ByteK
      | IntV i \<Rightarrow> k = IntK
      | LongV i \<Rightarrow> k = LongK
      | StringV s \<Rightarrow> k = StringK \<and> str_ok s
      | BytesV d \<Rightarrow> (k = BytesK \<and> length d < 2 ^ 31) \<or> k = ConstBytesK (length d)
      | ErrorV e \<Rightarrow> k = ErrorK \<and> err_ok ste e \<and> err_depth e < n
      | ObjectV x \<Rightarrow> (k = NestedK \<or> k = CachedK) \<and> nok x \<and> cst (nseen x) = nseen x
      | ArrayV xs \<Rightarrow> k = ArrayK \<and> length xs \<le> 32767 \<and> (\<forall>x \<in> set xs. nok x \<and> cst (nseen x) = nseen x))"

fun val_seen :: "(data_structure option \<Rightarrow> data_structure option) \<Rightarrow> bool \<Rightarrow> data_value \<Rightarrow> data_value" where
  "val_seen nseen ste (ErrorV e) = ErrorV (err_seen ste e)"
| "val_seen nseen ste (ObjectV x) = ObjectV (nseen x)"
| "val_seen nseen ste (ArrayV xs) = ArrayV (map nseen xs)"
| "val_seen nseen ste v = v"

fun val_flags :: "(data_structure option \<Rightarrow> bool list) \<Rightarrow> bool \<Rightarrow> kind \<Rightarrow> data_value \<Rightarrow> bool list" where
  "val_flags nflags ste k (BoolV b) = [b]"
| "val_flags nflags ste k (LongV i) = long_flags i"
| "val_flags nflags ste k (StringV s) = str_flags s"
| "val_flags nflags ste k (BytesV d) = (if k = BytesK then [d \<noteq> []] else [])"
| "val_flags nflags ste k (ErrorV e) = err_flags ste e"
| "val_flags nflags ste k (ObjectV x) = nflags x"
| "val_flags nflags ste k (ArrayV xs) = (xs \<noteq> []) # concat (map nflags xs)"
| "val_flags nflags ste k v = []"

fun val_bytes :: "(data_structure option \<Rightarrow> byte list) \<Rightarrow> bool \<Rightarrow> kind \<Rightarrow> data_value \<Rightarrow> byte list" where
  "val_bytes nbytes ste k (BoolV b) = []"
| "val_bytes nbytes ste k (ByteV b) = [b]"
| "val_bytes nbytes ste k (IntV i) = bytes32 i"
| "val_bytes nbytes ste k (LongV i) = long_bytes i"
| "val_bytes nbytes ste k (StringV s) = str_bytes s"
| "val_bytes nbytes ste k (BytesV d) = (if k = BytesK \<and> d \<noteq> [] then bytes32 (word_of_nat (length d)) else []) @ d"
| "val_bytes nbytes ste k (ErrorV e) = err_bytes ste e"
| "val_bytes nbytes ste k (ObjectV x) = nbytes x"
| "val_bytes nbytes ste k (ArrayV xs) = (if xs = [] then [] else bytes16 (word_of_nat (length xs)) @ concat (map nbytes xs))"

fun val_loose :: "(data_structure option \<Rightarrow> byte list) \<Rightarrow> bool \<Rightarrow> kind \<Rightarrow> data_value \<Rightarrow> byte list" where
  "val_loose nloose ste k (BoolV b) = [if b then 1 else 0]"
| "val_loose nloose ste k (ByteV b) = [b]"
| "val_loose nloose ste k (IntV i) = bytes32 i"
| "val_loose nloose ste k (LongV i) = bytes64 i"
| "val_loose nloose ste k (StringV s) = loose_str s"
| "val_loose nloose ste k (BytesV d) =
     (if k = BytesK then (if d = [] then [0] else 1 # bytes32 (word_of_nat (length d))) else []) @ d"
| "val_loose nloose ste k (ErrorV e) = err_loose ste e"
| "val_loose nloose ste k (ObjectV x) = nloose x"
| "val_loose nloose ste k (ArrayV xs) = (if xs = [] then [0] else 1 # bytes16 (word_of_nat (length xs)) @ concat (map nloose xs))"

text \<open>Members of fixed size have no part in the first pass.\<close>

fun fixed_of :: "kind \<Rightarrow> nat option" where
  "fixed_of ByteK = Some 1"
| "fixed_of IntK = Some 4"
| "fixed_of (ConstBytesK m) = Some m"
| "fixed_of k = None"

lemma val_fixed:
  assumes "val_ok nok nseen n ste cst k v"
  shows "fixed_of k = Some m \<Longrightarrow> val_flags nflags ste k v = [] \<and> length (val_bytes nbytes ste k v) = m"
  using assms by (cases v) (auto simp: val_ok_def)

section \<open>Members\<close>

definition to_writing :: "reading_stmt \<Rightarrow> writing" where
  "to_writing c = \<lparr>w_since = r_since c, w_kind = r_kind c, w_member = r_member c\<rparr>"

definition to_writing2 :: "reading_stmt \<Rightarrow> writing" where
  "to_writing2 c = \<lparr>w_since = r_since c, w_kind = r_kind c, w_member = (if r_kind c = BoolK then [] else r_member c)\<rparr>"

lemma to_writing_simps [simp]:
  "w_since (to_writing c) = r_since c" "w_kind (to_writing c) = r_kind c" "w_member (to_writing c) = r_member c"
  "w_since (to_writing2 c) = r_since c" "w_kind (to_writing2 c) = r_kind c"
  "r_kind c \<noteq> BoolK \<Longrightarrow> w_member (to_writing2 c) = r_member c"
  by (simp_all add: to_writing_def to_writing2_def)

text \<open>
  The five functions of a marshaller agree: all treat the same members in the same order under the same
  guards, the first pass leaves out those of fixed size, and adds their sizes, which none of the guards
  may suppress at this version.
\<close>

definition matched :: "int \<Rightarrow> marshaller \<Rightarrow> bool" where
  "matched ver m \<longleftrightarrow>
     looseUnmarshal m = tightUnmarshal m \<and>
     looseMarshal m = map to_writing (tightUnmarshal m) \<and>
     tightMarshal2 m = map to_writing2 (tightUnmarshal m) \<and>
     tightMarshal1 m = map to_writing (filter (\<lambda>c. fixed_of (r_kind c) = None) (tightUnmarshal m)) \<and>
     fixed_size m = sum_list (map (\<lambda>c. case fixed_of (r_kind c) of None \<Rightarrow> 0 | Some k \<Rightarrow> k) (tightUnmarshal m)) \<and>
     (\<forall>c \<in> set (tightUnmarshal m). fixed_of (r_kind c) \<noteq> None \<longrightarrow> active ver (r_since c))"

definition member_ok :: "(data_structure option \<Rightarrow> bool) \<Rightarrow> (data_structure option \<Rightarrow> data_structure option) \<Rightarrow> nat \<Rightarrow> bool \<Rightarrow>
    (string \<Rightarrow> byte list) \<Rightarrow> int \<Rightarrow> data_structure \<Rightarrow> reading_stmt \<Rightarrow> bool" where
  "member_ok nok nseen n ste codes ver obj c \<longleftrightarrow>
     (active ver (r_since c) \<longrightarrow>
       (case member_of obj (r_member c) of
          None \<Rightarrow> False
        | Some v \<Rightarrow> val_ok nok nseen n ste (cast_to codes (r_cast c)) (r_kind c) v \<and> set_member (r_member c) v = (r_member c, v)))"

definition members_flags :: "(data_structure option \<Rightarrow> bool list) \<Rightarrow> bool \<Rightarrow> int \<Rightarrow> data_structure \<Rightarrow> reading_stmt list \<Rightarrow> bool list" where
  "members_flags nflags ste ver obj cs =
     concat (map (\<lambda>c. if active ver (r_since c) then val_flags nflags ste (r_kind c) (the (member_of obj (r_member c))) else []) cs)"

definition members_bytes :: "(data_structure option \<Rightarrow> byte list) \<Rightarrow> bool \<Rightarrow> int \<Rightarrow> data_structure \<Rightarrow> reading_stmt list \<Rightarrow> byte list" where
  "members_bytes nbytes ste ver obj cs =
     concat (map (\<lambda>c. if active ver (r_since c) then val_bytes nbytes ste (r_kind c) (the (member_of obj (r_member c))) else []) cs)"

definition members_loose :: "(data_structure option \<Rightarrow> byte list) \<Rightarrow> bool \<Rightarrow> int \<Rightarrow> data_structure \<Rightarrow> reading_stmt list \<Rightarrow> byte list" where
  "members_loose nloose ste ver obj cs =
     concat (map (\<lambda>c. if active ver (r_since c) then val_loose nloose ste (r_kind c) (the (member_of obj (r_member c))) else []) cs)"

definition members_seen :: "(data_structure option \<Rightarrow> data_structure option) \<Rightarrow> bool \<Rightarrow> int \<Rightarrow> data_structure \<Rightarrow> reading_stmt list \<Rightarrow>
    (string \<times> data_value) list" where
  "members_seen nseen ste ver obj cs =
     map (\<lambda>c. (r_member c, val_seen nseen ste (the (member_of obj (r_member c))))) (filter (\<lambda>c. active ver (r_since c)) cs)"

lemmas members_defs = members_flags_def members_bytes_def members_loose_def members_seen_def

lemma set_member_seen: "set_member f v = (f, v) \<Longrightarrow> set_member f (val_seen nseen ste v) = (f, val_seen nseen ste v)"
  by (cases v) (auto simp: set_member_def)

lemma fixed_members:
  assumes "\<forall>c \<in> set cs. member_ok nok nseen n ste codes ver obj c"
    "\<forall>c \<in> set cs. fixed_of (r_kind c) \<noteq> None \<longrightarrow> active ver (r_since c)"
  shows "members_flags nflags ste ver obj (filter (\<lambda>c. fixed_of (r_kind c) = None) cs) = members_flags nflags ste ver obj cs \<and>
    length (members_bytes nbytes ste ver obj cs) =
      length (members_bytes nbytes ste ver obj (filter (\<lambda>c. fixed_of (r_kind c) = None) cs)) +
      sum_list (map (\<lambda>c. case fixed_of (r_kind c) of None \<Rightarrow> 0 | Some k \<Rightarrow> k) cs)"
  using assms
proof (induction cs)
  case (Cons c cs)
  show ?case
  proof (cases "fixed_of (r_kind c)")
    case None
    then show ?thesis using Cons by (simp add: members_defs)
  next
    case (Some m)
    then have a: "active ver (r_since c)" using Cons.prems by auto
    then obtain v where "member_of obj (r_member c) = Some v" "val_ok nok nseen n ste (cast_to codes (r_cast c)) (r_kind c) v"
      using Cons.prems(1) by (auto simp: member_ok_def split: option.splits)
    then show ?thesis using Cons Some a val_fixed [of nok nseen n ste _ "r_kind c" v m nflags nbytes] by (simp add: members_defs)
  qed
qed (simp add: members_defs)

section \<open>Byte arrays\<close>

lemma read_vector_getsL: "getsL (read_vector (int (length d))) d d"
  unfolding getsL_def
proof (intro allI impI)
  fix inp rest br
  assume i: "delivers inp (d @ rest) br"
  show "\<exists>inp'. read_vector (int (length d)) inp = Ok (d, inp') \<and> delivers inp' rest br"
  proof (cases "d = []")
    case True
    then show ?thesis using i by (auto simp: read_vector_def retL_def)
  next
    case False
    then obtain in2 where "readFully2 (Some (replicate (length d) 0)) (int (length d)) inp = Ok (Some d, in2)" "delivers in2 rest br"
      using readFully2_law [of "length d" "replicate (length d) 0" inp "d @ rest" br] i by auto
    then show ?thesis using False by (simp add: read_vector_def bindL_def retL_def)
  qed
qed

lemma array_length_int: "length d < 2 ^ 31 \<Longrightarrow> sint (word_of_nat (length d) :: 32 word) = int (length d)"
  using signed_take_bit_int_eq_self [of 31 "int (length d)"] by (simp add: signed_of_nat)

lemma write_array_putsL: "putsL (write_array_of d) d"
  using write_array by (simp add: putsL_def write_array_of_def)

lemma const_bytes_putsL: "putsL (doWriteArrayBounded (Some d) (int (length d)) 0 (int (length d))) d"
  using write_array by (simp add: putsL_def)

lemma bytes_contracts:
  assumes "length d < 2 ^ 31"
  shows "writes2 (if2 (put2 (seqL (writeInt (word_of_nat (length d))) (write_array_of d))) skip2) [d \<noteq> []]
      ((if d \<noteq> [] then bytes32 (word_of_nat (length d)) else []) @ d)"
    and "reads3 tightUnmarshalByteArray [d \<noteq> []] ((if d \<noteq> [] then bytes32 (word_of_nat (length d)) else []) @ d) d"
    and "putsL (seqL (doWriteByte (if length d \<noteq> 0 then 1 else 0))
          (if length d \<noteq> 0 then seqL (writeInt (word_of_nat (length d))) (write_array_of d) else Ok))
      ((if d = [] then [0] else 1 # bytes32 (word_of_nat (length d))) @ d)"
    and "getsL looseUnmarshalByteArray ((if d = [] then [0] else 1 # bytes32 (word_of_nat (length d))) @ d) d"
proof -
  let ?l = "word_of_nat (length d) :: 32 word"
  have v: "getsL (read_vector (sint ?l)) d d" using read_vector_getsL by (simp add: array_length_int [OF assms])
  show "writes2 (if2 (put2 (seqL (writeInt ?l) (write_array_of d))) skip2) [d \<noteq> []] ((if d \<noteq> [] then bytes32 ?l else []) @ d)"
    using write_array_putsL [of d] by (cases "d = []") (auto intro!: contract)
  show "reads3 tightUnmarshalByteArray [d \<noteq> []] ((if d \<noteq> [] then bytes32 ?l else []) @ d) d"
    unfolding tightUnmarshalByteArray_def using v int.contracts(2) [OF TrueI, of ?l]
    by (cases "d = []") (auto intro!: reads3_catch reads3_if [where b = "d \<noteq> []"] reads3_ret reads3_bind [where a = ?l] reads3_get)
  show "putsL (seqL (doWriteByte (if length d \<noteq> 0 then 1 else 0))
        (if length d \<noteq> 0 then seqL (writeInt ?l) (write_array_of d) else Ok)) ((if d = [] then [0] else 1 # bytes32 ?l) @ d)"
    unfolding doWriteByte_writeByte
    using write_array_putsL [of d] byte.contracts(1) [OF TrueI, of 0] byte.contracts(1) [OF TrueI, of 1] int.contracts(1) [OF TrueI, of ?l]
    by (cases "d = []") (auto intro!: putsL_seq putsL_ok)
  show "getsL looseUnmarshalByteArray ((if d = [] then [0] else 1 # bytes32 ?l) @ d) d"
    unfolding looseUnmarshalByteArray_def
    using v bool.contracts(2) [OF TrueI, of "d \<noteq> []"] int.contracts(2) [OF TrueI, of ?l]
    by (cases "d = []") (auto intro!: getsL_catch getsL_bind [where a = "d \<noteq> []"] getsL_bind [where a = ?l] getsL_ret)
qed

lemma reads3_map [contract]: "reads3 f fs d a \<Longrightarrow> v = g a \<Longrightarrow> reads3 (map3 g f) fs d v"
  unfolding map3_def by (rule reads3_bind [where a = a, OF _ reads3_ret]) simp_all

lemma getsL_map [contract]: "getsL f d a \<Longrightarrow> v = g a \<Longrightarrow> getsL (mapL g f) d v"
  unfolding mapL_def by (rule getsL_bind [where a = a, OF _ getsL_ret]) simp_all

section \<open>Contracts of nested objects\<close>

locale nested_objects = marshalled nok nseen nflags nbytes nst1 nst2 nst3 nloose nstL nstG
  for nok :: "data_structure option \<Rightarrow> bool" and nseen :: "data_structure option \<Rightarrow> data_structure option"
    and nflags nbytes and nst1 :: nested1_fun and nst2 :: nested2_fun and nst3 :: nested3_fun
    and nloose and nstL :: nestedL_fun and nstG :: nestedG_fun
begin

lemma objects_written:
  assumes "\<forall>x \<in> set xs. nok x"
  shows "writes1 (objects1 nst1 xs) (concat (map nflags xs)) (length (concat (map nbytes xs)))"
    and "writes2 (objects2 nst2 xs) (concat (map nflags xs)) (concat (map nbytes xs))"
    and "putsL (objectsL nstL xs) (concat (map nloose xs))"
  using assms
proof (induction xs)
  case (Cons x xs)
  { case 1 then show ?case using Cons(1) pass1_law [of x] by (auto intro!: writes1_seq) }
  { case 2 then show ?case using Cons(2) pass2_law [of x] by (auto intro!: writes2_seq) }
  { case 3 then show ?case using Cons(3) loose.put_law [of x] by (auto intro!: putsL_seq) }
qed (auto intro!: contract)

lemma objects_read:
  assumes "\<forall>x \<in> set xs. nok x \<and> cst (nseen x) = nseen x"
  shows "reads3 (objects3 nst3 cst (length xs)) (concat (map nflags xs)) (concat (map nbytes xs)) (map nseen xs)"
    and "getsL (objectsG nstG cst (length xs)) (concat (map nloose xs)) (map nseen xs)"
  using assms
proof (induction xs)
  case (Cons x xs)
  { case 1 then show ?case using Cons(1) get_law [of x]
      by (auto intro!: reads3_bind [where a = "nseen x"] reads3_bind [where a = "map nseen xs"] reads3_ret) }
  { case 2 then show ?case using Cons(2) loose.get_law [of x]
      by (auto intro!: getsL_bind [where a = "nseen x"] getsL_bind [where a = "map nseen xs"] getsL_ret) }
qed (auto intro!: contract)

lemma array_contracts:
  assumes "length xs \<le> 32767" "\<forall>x \<in> set xs. nok x \<and> cst (nseen x) = nseen x"
  shows "writes1 (tightMarshalObjectArray1 nst1 xs) ((xs \<noteq> []) # concat (map nflags xs)) (length (val_bytes nbytes ste k (ArrayV xs)))"
    and "writes2 (tightMarshalObjectArray2 nst2 xs) ((xs \<noteq> []) # concat (map nflags xs)) (val_bytes nbytes ste k (ArrayV xs))"
    and "reads3 (read_objects3 nst3 cst) ((xs \<noteq> []) # concat (map nflags xs)) (val_bytes nbytes ste k (ArrayV xs)) (map nseen xs)"
    and "putsL (looseMarshalObjectArray nstL xs) (val_loose nloose ste k (ArrayV xs))"
    and "getsL (read_objectsG nstG cst) (val_loose nloose ste k (ArrayV xs)) (map nseen xs)"
proof -
  let ?l = "word_of_nat (length xs) :: 16 word"
  have l: "sint ?l = int (length xs)"
    using assms(1) signed_take_bit_int_eq_self [of 15 "int (length xs)"] by (simp add: signed_of_nat)
  have ok: "\<forall>x \<in> set xs. nok x" using assms(2) by simp
  note w = objects_written [OF ok] and r = objects_read [OF assms(2)]
  show "writes1 (tightMarshalObjectArray1 nst1 xs) ((xs \<noteq> []) # concat (map nflags xs)) (length (val_bytes nbytes ste k (ArrayV xs)))"
    using w(1) by (cases "xs = []") (auto simp: tightMarshalObjectArray1_def intro!: contract)
  show "writes2 (tightMarshalObjectArray2 nst2 xs) ((xs \<noteq> []) # concat (map nflags xs)) (val_bytes nbytes ste k (ArrayV xs))"
    using w(2) by (cases "xs = []") (auto simp: tightMarshalObjectArray2_def intro!: contract)
  show "reads3 (read_objects3 nst3 cst) ((xs \<noteq> []) # concat (map nflags xs)) (val_bytes nbytes ste k (ArrayV xs)) (map nseen xs)"
    using r(1) l by (cases "xs = []")
      (auto simp: read_objects3_def intro!: reads3_if [where b = "xs \<noteq> []"] reads3_ret reads3_bind [where a = ?l] reads3_get data_contracts)
  show "putsL (looseMarshalObjectArray nstL xs) (val_loose nloose ste k (ArrayV xs))"
    using w(3) bool.contracts(1) [OF TrueI, of "xs \<noteq> []"] short.contracts(1) [OF TrueI, of ?l]
    by (cases "xs = []") (auto simp: looseMarshalObjectArray_def intro!: putsL_catch putsL_seq putsL_ok)
  show "getsL (read_objectsG nstG cst) (val_loose nloose ste k (ArrayV xs)) (map nseen xs)"
    using r(2) l bool.contracts(2) [OF TrueI, of "xs \<noteq> []"] short.contracts(2) [OF TrueI, of ?l]
    by (cases "xs = []") (auto simp: read_objectsG_def intro!: getsL_bind [where a = "xs \<noteq> []"] getsL_bind [where a = ?l] getsL_ret)
qed

lemma value_pass1:
  assumes "val_ok nok nseen n ste cst k v" "fixed_of k = None"
  shows "writes1 (write1 nst1 ste k v) (val_flags nflags ste k v) (length (val_bytes nbytes ste k v))"
proof (cases v)
  case (BytesV d)
  then show ?thesis using assms by (cases "d = []") (auto simp: val_ok_def write1_def intro!: contract)
next
  case (ArrayV xs)
  then show ?thesis using assms array_contracts(1) [of xs cst ste k] by (simp add: val_ok_def write1_def)
next
  case (ErrorV e)
  then show ?thesis using assms err.pass1_law [of ste e n] by (simp add: val_ok_def write1_def)
qed (use assms in \<open>auto simp: val_ok_def write1_def pass1_law intro!: contract\<close>)

lemma value_pass2:
  assumes "val_ok nok nseen n ste cst k v" "k \<noteq> BoolK"
  shows "writes2 (write2 nst2 ste k v) (val_flags nflags ste k v) (val_bytes nbytes ste k v)"
proof (cases v)
  case (BytesV d)
  then show ?thesis
    using assms bytes_contracts(1) [of d] writes2_put [OF const_bytes_putsL, of d] by (auto simp: val_ok_def write2_def)
next
  case (ArrayV xs)
  then show ?thesis using assms array_contracts(2) [of xs cst ste k] by (simp add: val_ok_def write2_def)
next
  case (ErrorV e)
  then show ?thesis using assms err.pass2_law [of ste e n] by (simp add: val_ok_def write2_def)
qed (use assms in \<open>auto simp: val_ok_def write2_def pass2_law doWriteByte_writeByte intro!: contract\<close>)

lemma value_get:
  assumes "val_ok nok nseen n ste cst k v"
  shows "reads3 (read3 nst3 n ste cst k) (val_flags nflags ste k v) (val_bytes nbytes ste k v) (val_seen nseen ste v)"
proof (cases v)
  case (BytesV d)
  then show ?thesis
    using assms bytes_contracts(2) [of d] read_vector_getsL [of d]
    by (auto simp: val_ok_def read3_def tightUnmarshalConstByteArray_def intro!: reads3_map [where a = d] reads3_catch reads3_get)
next
  case (ArrayV xs)
  then show ?thesis
    using assms array_contracts(3) [of xs cst ste k]
    by (auto simp: val_ok_def read3_def simp del: val_bytes.simps intro!: reads3_map [where a = "map nseen xs"])
next
  case (ErrorV e)
  then show ?thesis
    using assms err.get_law [of ste e n] by (auto simp: val_ok_def read3_def intro!: reads3_map [where a = "err_seen ste e"])
next
  case (ObjectV x)
  then show ?thesis
    using assms get_law [of x] by (auto simp: val_ok_def read3_def intro!: reads3_map [where a = "nseen x"])
qed (use assms in \<open>auto simp: val_ok_def read3_def intro!: contract\<close>)

lemma value_put:
  assumes "val_ok nok nseen n ste cst k v"
  shows "putsL (writeL nstL ste k v) (val_loose nloose ste k v)"
proof (cases v)
  case (BytesV d)
  then show ?thesis
    using assms bytes_contracts(3) [of d] const_bytes_putsL [of d] by (auto simp: val_ok_def writeL_def)
next
  case (ArrayV xs)
  then show ?thesis using assms array_contracts(4) [of xs cst ste k] by (simp add: val_ok_def writeL_def)
next
  case (ErrorV e)
  then show ?thesis using assms loose_err.put_law [of ste e n] by (simp add: val_ok_def writeL_def)
next
  case (BoolV b)
  then show ?thesis using assms bool.contracts(1) [OF TrueI, of b] by (simp add: val_ok_def writeL_def)
qed (use assms in \<open>auto simp: val_ok_def writeL_def loose.put_law doWriteByte_writeByte intro!: contract\<close>)

lemma value_getL:
  assumes "val_ok nok nseen n ste cst k v"
  shows "getsL (readG nstG n ste cst k) (val_loose nloose ste k v) (val_seen nseen ste v)"
proof (cases v)
  case (BytesV d)
  then show ?thesis
    using assms bytes_contracts(4) [of d] read_vector_getsL [of d]
    by (auto simp: val_ok_def readG_def looseUnmarshalConstByteArray_def intro!: getsL_map [where a = d] getsL_catch)
next
  case (ArrayV xs)
  then show ?thesis
    using assms array_contracts(5) [of xs cst ste k]
    by (auto simp: val_ok_def readG_def simp del: val_loose.simps intro!: getsL_map [where a = "map nseen xs"])
next
  case (ErrorV e)
  then show ?thesis
    using assms loose_err.get_law [of ste e n] by (auto simp: val_ok_def readG_def intro!: getsL_map [where a = "err_seen ste e"])
next
  case (ObjectV x)
  then show ?thesis
    using assms loose.get_law [of x] by (auto simp: val_ok_def readG_def intro!: getsL_map [where a = "nseen x"])
next
  case (BoolV b)
  then show ?thesis using assms bool.contracts(2) [OF TrueI, of b] by (auto simp: val_ok_def readG_def intro!: getsL_map [where a = b])
qed (use assms in \<open>auto simp: val_ok_def readG_def intro!: contract\<close>)

lemma active_member:
  assumes "member_ok nok nseen n ste codes ver obj c" "active ver (r_since c)"
  obtains v where "member_of obj (r_member c) = Some v" "val_ok nok nseen n ste (cast_to codes (r_cast c)) (r_kind c) v"
    "set_member (r_member c) v = (r_member c, v)"
  using assms by (auto simp: member_ok_def split: option.splits)

lemma members_pass1:
  assumes "\<forall>c \<in> set cs. member_ok nok nseen n ste codes ver obj c" "\<forall>c \<in> set cs. fixed_of (r_kind c) = None"
  shows "writes1 (run1 nst1 ste ver (map to_writing cs) obj) (members_flags nflags ste ver obj cs) (length (members_bytes nbytes ste ver obj cs))"
  using assms
proof (induction cs)
  case (Cons c cs)
  show ?case
  proof (cases "active ver (r_since c)")
    case True
    then obtain v where "member_of obj (r_member c) = Some v" "val_ok nok nseen n ste (cast_to codes (r_cast c)) (r_kind c) v"
      using Cons.prems by (auto elim: active_member)
    then show ?thesis
      using Cons True value_pass1 [of n ste _ "r_kind c" v] by (auto simp: members_defs intro!: writes1_seq)
  next
    case False
    then show ?thesis using Cons by (auto simp: members_defs intro!: contract)
  qed
qed (auto simp: members_defs intro!: contract)

lemma members_pass2:
  assumes "\<forall>c \<in> set cs. member_ok nok nseen n ste codes ver obj c"
  shows "writes2 (run2 nst2 ste ver (map to_writing2 cs) obj) (members_flags nflags ste ver obj cs) (members_bytes nbytes ste ver obj cs)"
  using assms
proof (induction cs)
  case (Cons c cs)
  have IH: "writes2 (run2 nst2 ste ver (map to_writing2 cs) obj) (members_flags nflags ste ver obj cs) (members_bytes nbytes ste ver obj cs)"
    using Cons by simp
  show ?case
  proof (cases "active ver (r_since c)")
    case True
    then obtain v where v: "member_of obj (r_member c) = Some v" "val_ok nok nseen n ste (cast_to codes (r_cast c)) (r_kind c) v"
      using Cons.prems by (auto elim: active_member)
    show ?thesis
    proof (cases "r_kind c = BoolK")
      case B: True
      then obtain b where b: "v = BoolV b" using v(2) by (cases v) (auto simp: val_ok_def)
      have "writes2 (if2 skip2 skip2) [b] []" by (auto intro!: contract)
      then show ?thesis
        using writes2_seq [OF \<open>writes2 (if2 skip2 skip2) [b] []\<close> IH refl refl] True B v(1) b by (simp add: members_defs)
    next
      case False
      then show ?thesis
        using writes2_seq [OF value_pass2 [OF v(2) False] IH refl refl] True v(1) by (simp add: members_defs)
    qed
  next
    case False
    then show ?thesis using writes2_seq [OF writes2_skip IH refl refl] by (simp add: members_defs)
  qed
qed (auto simp: members_defs intro!: contract)

lemma members_get:
  assumes "\<forall>c \<in> set cs. member_ok nok nseen n ste codes ver obj c"
  shows "reads3 (run3 nst3 n codes ste ver cs) (members_flags nflags ste ver obj cs) (members_bytes nbytes ste ver obj cs)
    (members_seen nseen ste ver obj cs)"
  using assms
proof (induction cs)
  case (Cons c cs)
  have IH: "reads3 (run3 nst3 n codes ste ver cs) (members_flags nflags ste ver obj cs) (members_bytes nbytes ste ver obj cs)
    (members_seen nseen ste ver obj cs)" using Cons by simp
  show ?case
  proof (cases "active ver (r_since c)")
    case True
    then obtain v where v: "member_of obj (r_member c) = Some v" "val_ok nok nseen n ste (cast_to codes (r_cast c)) (r_kind c) v"
      "set_member (r_member c) v = (r_member c, v)"
      using Cons.prems by (auto elim: active_member)
    show ?thesis
      unfolding run3.simps if_P [OF True]
      by (rule reads3_bind [OF value_get [OF v(2)]], rule reads3_map [OF IH])
        (simp_all add: members_defs True v(1) set_member_seen [OF v(3)])
  next
    case False
    then show ?thesis using IH by (simp add: members_defs)
  qed
qed (auto simp: members_defs intro!: contract)

lemma members_put:
  assumes "\<forall>c \<in> set cs. member_ok nok nseen n ste codes ver obj c"
  shows "putsL (runL nstL ste ver (map to_writing cs) obj) (members_loose nloose ste ver obj cs)"
  using assms
proof (induction cs)
  case (Cons c cs)
  have IH: "putsL (runL nstL ste ver (map to_writing cs) obj) (members_loose nloose ste ver obj cs)" using Cons by simp
  show ?case
  proof (cases "active ver (r_since c)")
    case True
    then obtain v where v: "member_of obj (r_member c) = Some v" "val_ok nok nseen n ste (cast_to codes (r_cast c)) (r_kind c) v"
      using Cons.prems by (auto elim: active_member)
    then show ?thesis using putsL_seq [OF value_put [OF v(2)] IH refl] True by (simp add: members_defs)
  next
    case False
    then show ?thesis using putsL_seq [OF putsL_ok IH refl] by (simp add: members_defs)
  qed
qed (auto simp: members_defs intro!: contract)

lemma members_getL:
  assumes "\<forall>c \<in> set cs. member_ok nok nseen n ste codes ver obj c"
  shows "getsL (runG nstG n codes ste ver cs) (members_loose nloose ste ver obj cs) (members_seen nseen ste ver obj cs)"
  using assms
proof (induction cs)
  case (Cons c cs)
  have IH: "getsL (runG nstG n codes ste ver cs) (members_loose nloose ste ver obj cs) (members_seen nseen ste ver obj cs)"
    using Cons by simp
  show ?case
  proof (cases "active ver (r_since c)")
    case True
    then obtain v where v: "member_of obj (r_member c) = Some v" "val_ok nok nseen n ste (cast_to codes (r_cast c)) (r_kind c) v"
      "set_member (r_member c) v = (r_member c, v)"
      using Cons.prems by (auto elim: active_member)
    show ?thesis
      unfolding runG.simps if_P [OF True]
      by (rule getsL_bind [OF value_getL [OF v(2)]], rule getsL_map [OF IH])
        (simp_all add: members_defs True v(1) set_member_seen [OF v(3)])
  next
    case False
    then show ?thesis using IH by (simp add: members_defs)
  qed
qed (auto simp: members_defs intro!: contract)

end

end
