(* ===== verification/Open_Wire_Roundtrip.thy ===== *)
theory Open_Wire_Roundtrip
  imports Open_Wire_Format Wire_Contracts
begin

text \<open>
  What \<open>OpenWireFormat::marshal\<close> writes \<open>OpenWireFormat::unmarshal\<close> reads: the statements of all registered
  marshallers agree, hence they keep their contract, hence commands and the objects nested in them survive
  the wire, in both encodings and at every version of the protocol.
\<close>

section \<open>The registered marshallers agree\<close>

text \<open>The part of \<open>matched\<close> that does not depend on the version.\<close>

definition uniform :: "marshaller \<Rightarrow> bool" where
  "uniform m \<longleftrightarrow>
     looseUnmarshal m = tightUnmarshal m \<and>
     looseMarshal m = map to_writing (tightUnmarshal m) \<and>
     tightMarshal2 m = map to_writing2 (tightUnmarshal m) \<and>
     tightMarshal1 m = map to_writing (filter (\<lambda>c. fixed_of (r_kind c) = None) (tightUnmarshal m)) \<and>
     fixed_size m = sum_list (map (\<lambda>c. case fixed_of (r_kind c) of None \<Rightarrow> 0 | Some k \<Rightarrow> k) (tightUnmarshal m))"

text \<open>The guards on members of fixed size.\<close>

definition fixed_guards :: "marshaller \<Rightarrow> int list" where
  "fixed_guards m = filter (\<lambda>g. g \<noteq> 0) (map r_since (filter (\<lambda>c. fixed_of (r_kind c) \<noteq> None) (tightUnmarshal m)))"

lemma matched_uniform: "matched ver m \<longleftrightarrow> uniform m \<and> (\<forall>g \<in> set (fixed_guards m). ver \<ge> g)"
  by (auto simp: matched_def uniform_def fixed_guards_def active_def)

definition guards_of :: "byte \<Rightarrow> int list" where
  "guards_of t = (if t = 91 then [10, 10] else if t = 19 \<or> t = 6 then [3] else [])"

lemma registered_uniform: "list_all (\<lambda>(t, m). uniform m) registered"
  by code_simp

lemma registered_guards: "list_all (\<lambda>(t, m). fixed_guards m = guards_of t) registered"
  by code_simp

lemma configure_registered: "MarshallerFactory_configure (\<lambda>_. None) t = Some m \<Longrightarrow> (t, m) \<in> set registered"
proof -
  have "fold addMarshaller ms tbl t = Some m \<Longrightarrow> (t, m) \<in> set ms \<or> tbl t = Some m" for ms tbl
  proof (induction ms arbitrary: tbl)
    case (Cons x ms)
    have "(t, m) \<in> set ms \<or> addMarshaller x tbl t = Some m" using Cons.IH [of "addMarshaller x tbl"] Cons.prems by simp
    then show ?case by (cases x) (auto simp: addMarshaller_def split: if_splits)
  qed simp
  then show "MarshallerFactory_configure (\<lambda>_. None) t = Some m \<Longrightarrow> (t, m) \<in> set registered"
    by (fastforce simp: MarshallerFactory_configure_def)
qed

text \<open>Every member of fixed size that the first pass counts is written at this version.\<close>

definition sized :: "int \<Rightarrow> byte \<Rightarrow> bool" where
  "sized ver t \<longleftrightarrow> (t = 91 \<longrightarrow> ver \<ge> 10) \<and> (t = 19 \<or> t = 6 \<longrightarrow> ver \<ge> 3)"

lemma configured_matched:
  assumes "MarshallerFactory_configure (\<lambda>_. None) t = Some m" "sized ver t"
  shows "matched ver m"
proof -
  have "(t, m) \<in> set registered" by (rule configure_registered [OF assms(1)])
  then have "uniform m" "fixed_guards m = guards_of t"
    using registered_uniform registered_guards by (auto simp: list_all_iff)
  then show ?thesis using assms(2) by (auto simp: matched_uniform guards_of_def sized_def)
qed

section \<open>The encoding of an object\<close>

text \<open>
  An object that can be sent: its class is registered, each member that its marshaller sends at this
  version has a value of its type that can be encoded, and nested objects are of the class of the member.
\<close>

definition layout :: "open_wire_format \<Rightarrow> data_structure \<Rightarrow> reading_stmt list" where
  "layout fmt obj = (case dataMarshallers fmt (ds_type obj) of None \<Rightarrow> [] | Some m \<Rightarrow> tightUnmarshal m)"

definition struct_ok :: "(data_structure option \<Rightarrow> bool) \<Rightarrow> (data_structure option \<Rightarrow> data_structure option) \<Rightarrow> nat \<Rightarrow>
    open_wire_format \<Rightarrow> data_structure \<Rightarrow> bool" where
  "struct_ok nok nseen n fmt obj \<longleftrightarrow>
     ds_type obj \<noteq> NULL_TYPE \<and> dataMarshallers fmt (ds_type obj) \<noteq> None \<and> sized (version fmt) (ds_type obj) \<and>
     (\<forall>c \<in> set (layout fmt obj). member_ok nok nseen n (stackTraceEnabled fmt) class_codes (version fmt) obj c)"

definition struct_seen :: "(data_structure option \<Rightarrow> data_structure option) \<Rightarrow> open_wire_format \<Rightarrow> data_structure \<Rightarrow> data_structure" where
  "struct_seen nseen fmt obj =
     DataStructure (ds_type obj) (members_seen nseen (stackTraceEnabled fmt) (version fmt) obj (layout fmt obj))"

definition struct_flags :: "(data_structure option \<Rightarrow> bool list) \<Rightarrow> open_wire_format \<Rightarrow> data_structure \<Rightarrow> bool list" where
  "struct_flags nflags fmt obj = members_flags nflags (stackTraceEnabled fmt) (version fmt) obj (layout fmt obj)"

definition struct_bytes :: "(data_structure option \<Rightarrow> byte list) \<Rightarrow> open_wire_format \<Rightarrow> data_structure \<Rightarrow> byte list" where
  "struct_bytes nbytes fmt obj = members_bytes nbytes (stackTraceEnabled fmt) (version fmt) obj (layout fmt obj)"

definition struct_loose :: "(data_structure option \<Rightarrow> byte list) \<Rightarrow> open_wire_format \<Rightarrow> data_structure \<Rightarrow> byte list" where
  "struct_loose nloose fmt obj = members_loose nloose (stackTraceEnabled fmt) (version fmt) obj (layout fmt obj)"

fun obj_seen :: "nat \<Rightarrow> open_wire_format \<Rightarrow> data_structure option \<Rightarrow> data_structure option" where
  "obj_seen 0 fmt x = x"
| "obj_seen (Suc n) fmt x = map_option (struct_seen (obj_seen n fmt) fmt) x"

fun obj_ok :: "nat \<Rightarrow> open_wire_format \<Rightarrow> data_structure option \<Rightarrow> bool" where
  "obj_ok 0 fmt x \<longleftrightarrow> False"
| "obj_ok (Suc n) fmt x \<longleftrightarrow> (case x of None \<Rightarrow> True | Some obj \<Rightarrow> struct_ok (obj_ok n fmt) (obj_seen n fmt) n fmt obj)"

fun obj_flags :: "nat \<Rightarrow> open_wire_format \<Rightarrow> data_structure option \<Rightarrow> bool list" where
  "obj_flags 0 fmt x = []"
| "obj_flags (Suc n) fmt x =
     (case x of None \<Rightarrow> [False]
      | Some obj \<Rightarrow> True # (if isMarshalAware (ds_type obj) then [False] else []) @ struct_flags (obj_flags n fmt) fmt obj)"

fun obj_bytes :: "nat \<Rightarrow> open_wire_format \<Rightarrow> data_structure option \<Rightarrow> byte list" where
  "obj_bytes 0 fmt x = []"
| "obj_bytes (Suc n) fmt x = (case x of None \<Rightarrow> [] | Some obj \<Rightarrow> ds_type obj # struct_bytes (obj_bytes n fmt) fmt obj)"

fun obj_loose :: "nat \<Rightarrow> open_wire_format \<Rightarrow> data_structure option \<Rightarrow> byte list" where
  "obj_loose 0 fmt x = []"
| "obj_loose (Suc n) fmt x = (case x of None \<Rightarrow> [0] | Some obj \<Rightarrow> 1 # ds_type obj # struct_loose (obj_loose n fmt) fmt obj)"

definition configured :: "open_wire_format \<Rightarrow> bool" where
  "configured fmt \<longleftrightarrow> dataMarshallers fmt = MarshallerFactory_configure (\<lambda>_. None)"

context nested_objects
begin

lemma struct_contracts:
  assumes "configured fmt" "struct_ok nok nseen n fmt obj" "dataMarshallers fmt (ds_type obj) = Some m"
  shows "writes1 (dsm_tightMarshal1 nst1 fmt m obj) (struct_flags nflags fmt obj) (length (struct_bytes nbytes fmt obj))"
    and "writes2 (dsm_tightMarshal2 nst2 fmt m obj) (struct_flags nflags fmt obj) (struct_bytes nbytes fmt obj)"
    and "reads3 (dsm_tightUnmarshal nst3 n fmt (ds_type obj) m) (struct_flags nflags fmt obj) (struct_bytes nbytes fmt obj) (struct_seen nseen fmt obj)"
    and "putsL (dsm_looseMarshal nstL fmt m obj) (struct_loose nloose fmt obj)"
    and "getsL (dsm_looseUnmarshal nstG n fmt (ds_type obj) m) (struct_loose nloose fmt obj) (struct_seen nseen fmt obj)"
proof -
  let ?cs = "tightUnmarshal m" and ?ste = "stackTraceEnabled fmt" and ?ver = "version fmt"
  let ?vs = "filter (\<lambda>c. fixed_of (r_kind c) = None) ?cs"
  have lay: "layout fmt obj = ?cs" using assms(3) by (simp add: layout_def)
  have ok: "\<forall>c \<in> set ?cs. member_ok nok nseen n ?ste class_codes ?ver obj c" using assms(2) lay by (simp add: struct_ok_def)
  have mt: "matched ?ver m"
    using configured_matched [of "ds_type obj" m ?ver] assms by (simp add: configured_def struct_ok_def)
  then have m: "looseUnmarshal m = ?cs" "looseMarshal m = map to_writing ?cs" "tightMarshal2 m = map to_writing2 ?cs"
    "tightMarshal1 m = map to_writing ?vs"
    "fixed_size m = sum_list (map (\<lambda>c. case fixed_of (r_kind c) of None \<Rightarrow> 0 | Some k \<Rightarrow> k) ?cs)"
    "\<forall>c \<in> set ?cs. fixed_of (r_kind c) \<noteq> None \<longrightarrow> active ?ver (r_since c)"
    by (simp_all add: matched_def)
  note fm = fixed_members [OF ok m(6), of nflags nbytes]
  have "writes1 (run1 nst1 ?ste ?ver (map to_writing ?vs) obj) (members_flags nflags ?ste ?ver obj ?vs) (length (members_bytes nbytes ?ste ?ver obj ?vs))"
    using ok by (intro members_pass1) auto
  then show "writes1 (dsm_tightMarshal1 nst1 fmt m obj) (struct_flags nflags fmt obj) (length (struct_bytes nbytes fmt obj))"
    unfolding dsm_tightMarshal1_def m(4) struct_flags_def struct_bytes_def lay
    by (intro writes1_catch writes1_seq [OF _ writes1_size [OF refl]]) (use fm m(5) in auto)
  show "writes2 (dsm_tightMarshal2 nst2 fmt m obj) (struct_flags nflags fmt obj) (struct_bytes nbytes fmt obj)"
    unfolding dsm_tightMarshal2_def m(3) struct_flags_def struct_bytes_def lay by (rule writes2_catch members_pass2 ok)+
  show "reads3 (dsm_tightUnmarshal nst3 n fmt (ds_type obj) m) (struct_flags nflags fmt obj) (struct_bytes nbytes fmt obj) (struct_seen nseen fmt obj)"
    unfolding dsm_tightUnmarshal_def struct_flags_def struct_bytes_def struct_seen_def lay
    by (rule reads3_catch reads3_map members_get ok refl)+
  show "putsL (dsm_looseMarshal nstL fmt m obj) (struct_loose nloose fmt obj)"
    unfolding dsm_looseMarshal_def m(2) struct_loose_def lay by (rule putsL_catch members_put ok)+
  show "getsL (dsm_looseUnmarshal nstG n fmt (ds_type obj) m) (struct_loose nloose fmt obj) (struct_seen nseen fmt obj)"
    unfolding dsm_looseUnmarshal_def m(1) struct_loose_def struct_seen_def lay
    by (rule getsL_catch getsL_map members_getL ok refl)+
qed

end

section \<open>Nested objects\<close>

abbreviation nested_at :: "nat \<Rightarrow> open_wire_format \<Rightarrow> bool" where
  "nested_at n fmt \<equiv> nested_objects (obj_ok n fmt) (obj_seen n fmt) (obj_flags n fmt) (obj_bytes n fmt)
    (tightMarshalNestedObject1 n fmt) (tightMarshalNestedObject2 n fmt) (tightUnmarshalNestedObject n fmt)
    (obj_loose n fmt) (looseMarshalNestedObject n fmt) (looseUnmarshalNestedObject n fmt)"

lemma obj_ok_Suc:
  assumes "obj_ok (Suc n) fmt (Some obj)"
  obtains m where "struct_ok (obj_ok n fmt) (obj_seen n fmt) n fmt obj" "dataMarshallers fmt (ds_type obj) = Some m" "ds_type obj \<noteq> 0"
  using assms by (auto simp: struct_ok_def NULL_TYPE_def)

lemma nested_pass1:
  assumes "configured fmt" "nested_at n fmt" "obj_ok (Suc n) fmt v"
  shows "writes1 (tightMarshalNestedObject1 (Suc n) fmt v) (obj_flags (Suc n) fmt v) (length (obj_bytes (Suc n) fmt v))"
proof (cases v)
  case None
  then show ?thesis by (auto intro!: contract)
next
  case (Some obj)
  then obtain m where m: "struct_ok (obj_ok n fmt) (obj_seen n fmt) n fmt obj" "dataMarshallers fmt (ds_type obj) = Some m" "ds_type obj \<noteq> 0"
    using assms(3) obj_ok_Suc by metis
  have sizes: "writes1 (size_only 0) [] 0" "writes1 (size_only 1) [] 1" by (simp_all add: writes1_size)
  show ?thesis
    using Some m(2,3) nested_objects.struct_contracts(1) [OF assms(2,1) m(1,2)]
    by (auto intro!: writes1_catch writes1_seq writes1_flag sizes)
qed

lemma nested_pass2:
  assumes "configured fmt" "nested_at n fmt" "obj_ok (Suc n) fmt v"
  shows "writes2 (tightMarshalNestedObject2 (Suc n) fmt v) (obj_flags (Suc n) fmt v) (obj_bytes (Suc n) fmt v)"
proof (cases v)
  case None
  then show ?thesis by (auto intro!: contract)
next
  case (Some obj)
  then obtain m where m: "struct_ok (obj_ok n fmt) (obj_seen n fmt) n fmt obj" "dataMarshallers fmt (ds_type obj) = Some m"
    using assms(3) obj_ok_Suc by metis
  have "writes2 (if isMarshalAware (ds_type obj) then if2 skip2 (dsm_tightMarshal2 (tightMarshalNestedObject2 n fmt) fmt m obj)
        else dsm_tightMarshal2 (tightMarshalNestedObject2 n fmt) fmt m obj)
      ((if isMarshalAware (ds_type obj) then [False] else []) @ struct_flags (obj_flags n fmt) fmt obj) (struct_bytes (obj_bytes n fmt) fmt obj)"
    using nested_objects.struct_contracts(2) [OF assms(2,1) m] by (auto intro!: writes2_if)
  note body = writes2_seq [OF writes2_put [OF byte.contracts(1) [OF TrueI, of "ds_type obj"]] this refl refl]
  show ?thesis
    unfolding Some tightMarshalNestedObject2.simps Let_def
    by (rule writes2_catch, rule writes2_if [where b = True and gs = "[] @ (if isMarshalAware (ds_type obj) then [False] else []) @ struct_flags (obj_flags n fmt) fmt obj"])
      (use body m(2) in \<open>auto split: if_splits\<close>)
qed

lemma nested_get:
  assumes "configured fmt" "nested_at n fmt" "obj_ok (Suc n) fmt v"
  shows "reads3 (tightUnmarshalNestedObject (Suc n) fmt) (obj_flags (Suc n) fmt v) (obj_bytes (Suc n) fmt v) (obj_seen (Suc n) fmt v)"
proof (cases v)
  case None
  then show ?thesis by (auto intro!: reads3_catch reads3_if [where b = False] reads3_ret)
next
  case (Some obj)
  then obtain m where m: "struct_ok (obj_ok n fmt) (obj_seen n fmt) n fmt obj" "dataMarshallers fmt (ds_type obj) = Some m"
    using assms(3) obj_ok_Suc by metis
  let ?get = "map3 Some (dsm_tightUnmarshal (tightUnmarshalNestedObject n fmt) n fmt (ds_type obj) m)"
  let ?form = "bind3 (get3 readInt) (\<lambda>_. bind3 (get3 readByte) (\<lambda>_ dis bs.
       rbind (BooleanStream_unmarshal dis BooleanStream_new) (\<lambda>(dis', bs2).
       rbind (?get dis' bs2) (\<lambda>(obj, dis'', _). Ok (obj, dis'', bs)))))"
  have "reads3 ?get (struct_flags (obj_flags n fmt) fmt obj) (struct_bytes (obj_bytes n fmt) fmt obj) (obj_seen (Suc n) fmt v)"
    using nested_objects.struct_contracts(3) [OF assms(2,1) m] Some by (auto intro!: reads3_map)
  then have "reads3 (if isMarshalAware (ds_type obj) then if3 ?form ?get else ?get)
      ((if isMarshalAware (ds_type obj) then [False] else []) @ struct_flags (obj_flags n fmt) fmt obj)
      (struct_bytes (obj_bytes n fmt) fmt obj) (obj_seen (Suc n) fmt v)"
    by (auto intro!: reads3_if [where b = False])
  then show ?thesis
    unfolding tightUnmarshalNestedObject.simps
    by (intro reads3_catch reads3_if [where b = True] reads3_bind [OF reads3_get, OF byte.contracts(2) [OF TrueI, of "ds_type obj"]])
      (simp_all add: Some m(2) Let_def)
qed

lemma nested_put:
  assumes "configured fmt" "nested_at n fmt" "obj_ok (Suc n) fmt v"
  shows "putsL (looseMarshalNestedObject (Suc n) fmt v) (obj_loose (Suc n) fmt v)"
proof (cases v)
  case None
  then show ?thesis using bool.contracts(1) [OF TrueI, of False] by (auto intro!: putsL_catch)
next
  case (Some obj)
  then obtain m where m: "struct_ok (obj_ok n fmt) (obj_seen n fmt) n fmt obj" "dataMarshallers fmt (ds_type obj) = Some m"
    using assms(3) obj_ok_Suc by metis
  then show ?thesis
    using nested_objects.struct_contracts(4) [OF assms(2,1) m] Some bool.contracts(1) [OF TrueI, of True]
      byte.contracts(1) [OF TrueI, of "ds_type obj"]
    by (auto intro!: putsL_catch putsL_seq)
qed

lemma nested_getL:
  assumes "configured fmt" "nested_at n fmt" "obj_ok (Suc n) fmt v"
  shows "getsL (looseUnmarshalNestedObject (Suc n) fmt) (obj_loose (Suc n) fmt v) (obj_seen (Suc n) fmt v)"
proof (cases v)
  case None
  then show ?thesis using bool.contracts(2) [OF TrueI, of False] by (auto intro!: getsL_catch getsL_bind [where a = False] getsL_ret)
next
  case (Some obj)
  then obtain m where m: "struct_ok (obj_ok n fmt) (obj_seen n fmt) n fmt obj" "dataMarshallers fmt (ds_type obj) = Some m"
    using assms(3) obj_ok_Suc by metis
  then show ?thesis
    using nested_objects.struct_contracts(5) [OF assms(2,1) m] Some bool.contracts(2) [OF TrueI, of True]
      byte.contracts(2) [OF TrueI, of "ds_type obj"]
    by (auto intro!: getsL_catch getsL_bind [where a = True] getsL_bind [where a = "ds_type obj"] getsL_map)
qed

lemma nested_marshalled:
  assumes "configured fmt"
  shows "nested_at n fmt"
proof (induction n)
  case 0
  show ?case by unfold_locales simp_all
next
  case (Suc n)
  show ?case by unfold_locales (simp_all only: nested_pass1 nested_pass2 nested_get nested_put nested_getL assms Suc)
qed

text \<open>Any wire format, with the marshallers that its constructor has registered.\<close>

definition with_marshallers :: "open_wire_format \<Rightarrow> open_wire_format" where
  "with_marshallers fmt = fmt\<lparr>dataMarshallers := MarshallerFactory_configure (\<lambda>_. None)\<rparr>"

lemma configured_with [simp]: "configured (with_marshallers fmt)"
  by (simp add: configured_def with_marshallers_def)

lemma configured_eq: "configured fmt \<Longrightarrow> with_marshallers fmt = fmt"
  by (simp add: configured_def with_marshallers_def)

interpretation wire: nested_objects "obj_ok n (with_marshallers fmt)" "obj_seen n (with_marshallers fmt)"
  "obj_flags n (with_marshallers fmt)" "obj_bytes n (with_marshallers fmt)" "tightMarshalNestedObject1 n (with_marshallers fmt)"
  "tightMarshalNestedObject2 n (with_marshallers fmt)" "tightUnmarshalNestedObject n (with_marshallers fmt)"
  "obj_loose n (with_marshallers fmt)" "looseMarshalNestedObject n (with_marshallers fmt)"
  "looseUnmarshalNestedObject n (with_marshallers fmt)" for n fmt
  by (rule nested_marshalled) simp

section \<open>Commands\<close>

definition command_ok :: "nat \<Rightarrow> open_wire_format \<Rightarrow> data_structure \<Rightarrow> bool" where
  "command_ok n fmt obj \<longleftrightarrow> struct_ok (obj_ok n fmt) (obj_seen n fmt) n fmt obj"

definition command_seen :: "nat \<Rightarrow> open_wire_format \<Rightarrow> data_structure \<Rightarrow> data_structure" where
  "command_seen n fmt = struct_seen (obj_seen n fmt) fmt"

definition command_flags :: "nat \<Rightarrow> open_wire_format \<Rightarrow> data_structure \<Rightarrow> bool list" where
  "command_flags n fmt = struct_flags (obj_flags n fmt) fmt"

definition command_bytes :: "nat \<Rightarrow> open_wire_format \<Rightarrow> data_structure \<Rightarrow> byte list" where
  "command_bytes n fmt = struct_bytes (obj_bytes n fmt) fmt"

definition command_loose :: "nat \<Rightarrow> open_wire_format \<Rightarrow> data_structure \<Rightarrow> byte list" where
  "command_loose n fmt = struct_loose (obj_loose n fmt) fmt"

lemmas command_defs = command_ok_def command_seen_def command_flags_def command_bytes_def command_loose_def

text \<open>The marshaller \<open>m\<close> of the type \<open>t\<close>, as \<open>OpenWireFormat\<close> calls it.\<close>

interpretation dsm: marshalled
  "\<lambda>obj. command_ok n (with_marshallers fmt) obj \<and> ds_type obj = t \<and> dataMarshallers (with_marshallers fmt) t = Some m"
  "command_seen n (with_marshallers fmt)" "command_flags n (with_marshallers fmt)" "command_bytes n (with_marshallers fmt)"
  "dsm_tightMarshal1 (tightMarshalNestedObject1 n (with_marshallers fmt)) (with_marshallers fmt) m"
  "dsm_tightMarshal2 (tightMarshalNestedObject2 n (with_marshallers fmt)) (with_marshallers fmt) m"
  "dsm_tightUnmarshal (tightUnmarshalNestedObject n (with_marshallers fmt)) n (with_marshallers fmt) t m"
  "command_loose n (with_marshallers fmt)"
  "dsm_looseMarshal (looseMarshalNestedObject n (with_marshallers fmt)) (with_marshallers fmt) m"
  "dsm_looseUnmarshal (looseUnmarshalNestedObject n (with_marshallers fmt)) n (with_marshallers fmt) t m" for n fmt t m
  using wire.struct_contracts [of "with_marshallers fmt" n fmt n _ m]
  by unfold_locales (auto simp: command_defs)

definition frame_prefix :: "open_wire_format \<Rightarrow> byte list \<Rightarrow> byte list" where
  "frame_prefix fmt body = (if sizePrefixDisabled fmt then [] else bytes32 (word_of_nat (length body)))"

lemma tight_frame:
  assumes "configured fmt" "command_ok n fmt cmd" "tightEncodingEnabled fmt" "length (command_flags n fmt cmd) \<le> 262128" "is_open out"
  obtains s where "holds s (command_flags n fmt cmd)"
    "OpenWireFormat_marshal n fmt (Some cmd) out =
       Ok (appended out (frame_prefix fmt (ds_type cmd # flags_enc s @ command_bytes n fmt cmd) @
         ds_type cmd # flags_enc s @ command_bytes n fmt cmd))"
proof -
  obtain m where m: "dataMarshallers fmt (ds_type cmd) = Some m" using assms(2) by (auto simp: command_ok_def struct_ok_def)
  have ok: "command_ok n fmt cmd \<and> ds_type cmd = ds_type cmd \<and> dataMarshallers fmt (ds_type cmd) = Some m" using assms(2) m by simp
  let ?d = "command_bytes n fmt cmd"
  obtain s where s: "dsm_tightMarshal1 (tightMarshalNestedObject1 n fmt) fmt m cmd BooleanStream_new = Ok (word_of_nat (length ?d), s)"
    "holds s (command_flags n fmt cmd)"
    "\<And>out. is_open out \<Longrightarrow> \<exists>s'. dsm_tightMarshal2 (tightMarshalNestedObject2 n fmt) fmt m cmd out (BooleanStream_clear s) = Ok (appended out ?d, s')"
    using dsm.command_written [of n fmt cmd "ds_type cmd" m, unfolded configured_eq [OF assms(1)], OF ok assms(4)] by blast
  let ?sz = "1 + word_of_nat (length ?d) + word_of_int (BooleanStream_marshalledSize s) :: 32 word"
  have sz: "?sz = word_of_nat (length (ds_type cmd # flags_enc s @ ?d))"
    unfolding flags_enc_length [OF s(2), symmetric] by simp
  have pre: "(if sizePrefixDisabled fmt then Ok else writeInt ?sz) out =
      Ok (appended out (frame_prefix fmt (ds_type cmd # flags_enc s @ ?d)))"
    unfolding sz using int.put_law [OF TrueI assms(5)] by (simp add: frame_prefix_def)
  let ?o2 = "appended out (frame_prefix fmt (ds_type cmd # flags_enc s @ ?d) @ [ds_type cmd])"
  have o2: "is_open ?o2" using assms(5) by simp
  obtain s' where s': "dsm_tightMarshal2 (tightMarshalNestedObject2 n fmt) fmt m cmd (appended ?o2 (flags_enc s)) (BooleanStream_clear s) =
      Ok (appended (appended ?o2 (flags_enc s)) ?d, s')"
    using s(3) [OF is_open_appended [OF o2]] by blast
  show thesis
  proof (rule that [OF s(2)])
    show "OpenWireFormat_marshal n fmt (Some cmd) out =
        Ok (appended out (frame_prefix fmt (ds_type cmd # flags_enc s @ ?d) @ ds_type cmd # flags_enc s @ ?d))"
      unfolding OpenWireFormat_marshal_def
      using m assms(3) s(1) pre byte.put_law [OF TrueI is_open_appended [OF assms(5)]] marshal_law [OF s(2) o2] s'
      by simp
  qed
qed

lemma loose_frame:
  assumes "configured fmt" "command_ok n fmt cmd" "\<not> tightEncodingEnabled fmt" "is_open out"
  shows "OpenWireFormat_marshal n fmt (Some cmd) out =
    Ok (appended out (frame_prefix fmt (ds_type cmd # command_loose n fmt cmd) @ ds_type cmd # command_loose n fmt cmd))"
proof -
  obtain m where m: "dataMarshallers fmt (ds_type cmd) = Some m" using assms(2) by (auto simp: command_ok_def struct_ok_def)
  have ok: "command_ok n fmt cmd \<and> ds_type cmd = ds_type cmd \<and> dataMarshallers fmt (ds_type cmd) = Some m" using assms(2) m by simp
  let ?d = "command_loose n fmt cmd"
  let ?put = "seqL (writeByte (ds_type cmd)) (dsm_looseMarshal (looseMarshalNestedObject n fmt) fmt m cmd)"
  have "putsL (dsm_looseMarshal (looseMarshalNestedObject n fmt) fmt m cmd) ?d"
    using dsm.loose.put_law [of n fmt cmd "ds_type cmd" m, unfolded configured_eq [OF assms(1)], OF ok] .
  from putsL_seq [OF byte.contracts(1) [OF TrueI] this refl]
  have put: "?put o1 = Ok (appended o1 (ds_type cmd # ?d))" if "is_open o1" for o1 using that by (simp add: putsL_def)
  have buf: "?put empty_buffer = Ok (appended empty_buffer (ds_type cmd # ?d))" by (rule put) (simp add: is_open_def empty_buffer_def)
  have arr: "os_sink (appended empty_buffer (ds_type cmd # ?d)) = Some (ds_type cmd # ?d)" by (simp add: appended_def empty_buffer_def)
  show ?thesis
  proof (cases "sizePrefixDisabled fmt")
    case True
    then show ?thesis using m assms(3) put [OF assms(4)] by (simp add: OpenWireFormat_marshal_def frame_prefix_def)
  next
    case False
    have "seqL (writeInt (word_of_nat (length (ds_type cmd # ?d)))) (write_array_of (ds_type cmd # ?d)) out =
        Ok (appended out (frame_prefix fmt (ds_type cmd # ?d) @ ds_type cmd # ?d))"
      using putsL_seq [OF int.contracts(1) [OF TrueI] write_array_putsL refl] False assms(4) by (simp add: putsL_def frame_prefix_def)
    then show ?thesis using m assms(3) False buf arr by (simp add: OpenWireFormat_marshal_def Let_def)
  qed
qed

lemma tight_body_read:
  assumes "configured fmt" "command_ok n fmt cmd" "tightEncodingEnabled fmt" "holds s (command_flags n fmt cmd)"
  shows "getsL (doUnmarshal n fmt) (ds_type cmd # flags_enc s @ command_bytes n fmt cmd) (Some (command_seen n fmt cmd))"
  unfolding getsL_def
proof (intro allI impI)
  fix inp rest br
  let ?t = "ds_type cmd"
  assume d: "delivers inp ((?t # flags_enc s @ command_bytes n fmt cmd) @ rest) br"
  obtain m where m: "dataMarshallers fmt ?t = Some m" "?t \<noteq> NULL_TYPE" using assms(2) by (auto simp: command_ok_def struct_ok_def)
  have ok: "command_ok n fmt cmd \<and> ?t = ?t \<and> dataMarshallers fmt ?t = Some m" using assms(2) m by simp
  obtain in1 where in1: "readByte inp = Ok (?t, in1)" "delivers in1 (flags_enc s @ command_bytes n fmt cmd @ rest) br"
    using byte.get_law [OF TrueI, of inp ?t "flags_enc s @ command_bytes n fmt cmd @ rest" br] d by auto
  obtain in2 s2 in3 s3 where "BooleanStream_unmarshal in1 BooleanStream_new = Ok (in2, s2)"
    "dsm_tightUnmarshal (tightUnmarshalNestedObject n fmt) n fmt ?t m in2 s2 = Ok (command_seen n fmt cmd, in3, s3)" "delivers in3 rest br"
    using dsm.command_read [of n fmt cmd ?t m s in1 rest br BooleanStream_new, unfolded configured_eq [OF assms(1)], OF ok assms(4) in1(2)] by blast
  then show "\<exists>inp'. doUnmarshal n fmt inp = Ok (Some (command_seen n fmt cmd), inp') \<and> delivers inp' rest br"
    using in1(1) m assms(3) by (simp add: doUnmarshal_def bindL_def)
qed

lemma loose_body_read:
  assumes "configured fmt" "command_ok n fmt cmd" "\<not> tightEncodingEnabled fmt"
  shows "getsL (doUnmarshal n fmt) (ds_type cmd # command_loose n fmt cmd) (Some (command_seen n fmt cmd))"
proof -
  let ?t = "ds_type cmd"
  obtain m where m: "dataMarshallers fmt ?t = Some m" "?t \<noteq> NULL_TYPE" using assms(2) by (auto simp: command_ok_def struct_ok_def)
  have ok: "command_ok n fmt cmd \<and> ?t = ?t \<and> dataMarshallers fmt ?t = Some m" using assms(2) m by simp
  have "getsL (dsm_looseUnmarshal (looseUnmarshalNestedObject n fmt) n fmt ?t m) (command_loose n fmt cmd) (command_seen n fmt cmd)"
    using dsm.loose.get_law [of n fmt cmd ?t m, unfolded configured_eq [OF assms(1)], OF ok] .
  then show ?thesis
    unfolding doUnmarshal_def [abs_def]
    by (intro getsL_catch, intro getsL_bind [OF byte.contracts(2) [OF TrueI, of ?t]])
      (use m assms(3) in \<open>auto intro!: getsL_map\<close>)
qed

lemma frame_read:
  assumes "getsL (doUnmarshal n fmt) body (Some got)" "delivers inp (frame_prefix fmt body @ body @ rest) br"
  shows "\<exists>inp'. OpenWireFormat_unmarshal n fmt inp = Ok (cast_to class_codes ''Command'' (Some got), inp') \<and> delivers inp' rest br"
proof -
  obtain in1 where in1: "(if sizePrefixDisabled fmt then Ok inp else rbind (readInt inp) (\<lambda>(_, dis'). Ok dis')) = Ok in1"
    "delivers in1 (body @ rest) br"
    using assms(2) int.get_law [OF TrueI, of inp "word_of_nat (length body)" "body @ rest" br]
    by (cases "sizePrefixDisabled fmt") (auto simp: frame_prefix_def)
  obtain in2 where "doUnmarshal n fmt in1 = Ok (Some got, in2)" "delivers in2 rest br"
    using assms(1) in1(2) unfolding getsL_def by blast
  then show ?thesis using in1(1) by (simp add: OpenWireFormat_unmarshal_def)
qed

lemma framed:
  assumes "configured fmt" "command_ok n fmt cmd" "is_open out" "tightEncodingEnabled fmt \<Longrightarrow> length (command_flags n fmt cmd) \<le> 262128"
  obtains body where "OpenWireFormat_marshal n fmt (Some cmd) out = Ok (appended out (frame_prefix fmt body @ body))"
    "getsL (doUnmarshal n fmt) body (Some (command_seen n fmt cmd))"
proof (cases "tightEncodingEnabled fmt")
  case True
  then show thesis using tight_frame [OF assms(1,2) True assms(4) [OF True] assms(3)] tight_body_read [OF assms(1,2) True] that by metis
next
  case False
  then show thesis using loose_frame [OF assms(1,2) False assms(3)] loose_body_read [OF assms(1,2) False] that by metis
qed

text \<open>
  What is received of a command: its type, and the members its marshaller sends at this version with their
  values, nested objects likewise.
\<close>

lemma registered_distinct: "list_all (\<lambda>(t, m). distinct (map r_member (tightUnmarshal m))) registered"
  by code_simp

lemma members_seen_of:
  assumes "distinct (map r_member cs)" "c \<in> set cs" "active ver (r_since c)"
  shows "map_of (members_seen nseen ste ver obj cs) (r_member c) = Some (val_seen nseen ste (the (member_of obj (r_member c))))"
  using assms
proof (induction cs)
  case (Cons x cs)
  then show ?case by (auto simp: members_seen_def)
qed simp

lemma command_seen_members:
  assumes "configured fmt" "command_ok n fmt cmd" "c \<in> set (layout fmt cmd)" "active (version fmt) (r_since c)"
  shows "member_of (command_seen n fmt cmd) (r_member c) =
    map_option (val_seen (obj_seen n fmt) (stackTraceEnabled fmt)) (member_of cmd (r_member c))"
proof -
  obtain m where m: "dataMarshallers fmt (ds_type cmd) = Some m" "layout fmt cmd = tightUnmarshal m"
    using assms(2) by (auto simp: command_ok_def struct_ok_def layout_def)
  then have "(ds_type cmd, m) \<in> set registered" using configure_registered assms(1) by (simp add: configured_def)
  then have "distinct (map r_member (layout fmt cmd))" using registered_distinct m(2) by (auto simp: list_all_iff)
  then have "member_of (command_seen n fmt cmd) (r_member c) = Some (val_seen (obj_seen n fmt) (stackTraceEnabled fmt) (the (member_of cmd (r_member c))))"
    using members_seen_of [OF _ assms(3,4), of "obj_seen n fmt" "stackTraceEnabled fmt" cmd]
    unfolding member_of_def [of "command_seen n fmt cmd"] by (simp add: command_seen_def struct_seen_def)
  moreover have "member_of cmd (r_member c) \<noteq> None"
    using assms(2-4) by (auto simp: command_ok_def struct_ok_def member_ok_def split: option.splits)
  ultimately show ?thesis by auto
qed


definition sample_format :: open_wire_format where
  "sample_format =
     \<lparr>preferedWireFormatInfo = None, dataMarshallers = MarshallerFactory_configure (\<lambda>_. None), version = 11,
      stackTraceEnabled = True, tcpNoDelayEnabled = True, cacheEnabled = False, cacheSize = 1024,
      tightEncodingEnabled = True, sizePrefixDisabled = False, maxInactivityDuration = 30000,
      maxInactivityDurationInitialDelay = 10000\<rparr>"

text \<open>A \<open>SessionInfo\<close> with its \<open>SessionId\<close>.\<close>

definition sample_session :: data_structure where
  "sample_session = DataStructure 4
     [(''CommandId'', IntV 7), (''ResponseRequired'', BoolV True),
      (''SessionId'', ObjectV (Some (DataStructure 121 [(''ConnectionId'', StringV ''ID:a''), (''Value'', LongV 3)])))]"

lemma sample_lookup:
  "dataMarshallers sample_format 4 = Some SessionInfoMarshaller" "dataMarshallers sample_format 121 = Some SessionIdMarshaller"
  by (simp_all add: sample_format_def MarshallerFactory_configure_def registered_def addMarshaller_def)

lemma sample_session_ok: "command_ok 2 sample_format sample_session" "length (command_flags 2 sample_format sample_session) \<le> 262128"
proof -
  have ste: "stackTraceEnabled sample_format" by (simp add: sample_format_def)
  have str: "str_ok ''ID:a''" by (simp add: str_ok_def utf_ok_def utf_bytes_def utf_char_length)
  have two: "(2 :: nat) = Suc (Suc 0)" by simp
  note defs = command_defs struct_ok_def struct_seen_def struct_flags_def layout_def sample_session_def sample_lookup
    SessionInfoMarshaller_def BaseCommandMarshaller_def SessionIdMarshaller_def member_ok_def member_of_def val_ok_def
    set_member_def active_def members_defs sized_def NULL_TYPE_def cast_to_def class_codes_def str
  show "command_ok 2 sample_format sample_session"
    unfolding two by (simp add: defs)
  show "length (command_flags 2 sample_format sample_session) \<le> 262128"
    unfolding two by (simp add: defs isMarshalAware_def str_flags_def long_flags_def)
qed


text \<open>
  \<^bold>\<open>C7.\<close> In each registered marshaller the five functions treat the same members in the same order under
  the same guards, and the constant of \<open>tightMarshal1\<close> is the size of the members of fixed size, at every
  version, but for three classes: \<open>NetworkBridgeFilter\<close> (type 91) before version 10 and \<open>ProducerAck\<close> (19) and
  \<open>ProducerInfo\<close> (6) before version 3, where the first pass counts integers that the second does not write.
\<close>

theorem marshallers_agree:
  assumes "(t, m) \<in> set registered"
  shows "matched ver m \<longleftrightarrow> (t = 91 \<longrightarrow> ver \<ge> 10) \<and> (t = 19 \<or> t = 6 \<longrightarrow> ver \<ge> 3)"
proof -
  have "uniform m" "fixed_guards m = guards_of t"
    using registered_uniform registered_guards assms by (auto simp: list_all_iff)
  then show ?thesis by (auto simp: matched_uniform guards_of_def)
qed

theorem marshallers_agree_witness: "matched 1 SessionInfoMarshaller \<and> \<not> matched 2 ProducerInfoMarshaller"
  using marshallers_agree [of 4 SessionInfoMarshaller 1] marshallers_agree [of 6 ProducerInfoMarshaller 2]
  by (simp add: registered_def)

lemma unregistered: "configured fmt \<Longrightarrow> t \<notin> fst ` set registered \<Longrightarrow> dataMarshallers fmt t = None"
proof (rule ccontr)
  assume c: "configured fmt" and t: "t \<notin> fst ` set registered" and "dataMarshallers fmt t \<noteq> None"
  then obtain m where "MarshallerFactory_configure (\<lambda>_. None) t = Some m" by (auto simp: configured_def)
  from imageI [OF configure_registered [OF this], of fst] t show False by simp
qed

lemma readInt_any: "delivers inp (bytes32 i @ rest) br \<Longrightarrow> \<exists>inp'. readInt inp = Ok (i, inp') \<and> delivers inp' rest br"
  using int.get_law [OF TrueI] by blast

lemma unmarshal_rejects:
  assumes "t = NULL_TYPE \<or> dataMarshallers fmt t = None" "delivers inp ((if sizePrefixDisabled fmt then [] else bytes32 sz) @ t # rest) br"
  shows "OpenWireFormat_unmarshal n fmt inp = Throw IOException"
proof -
  obtain in1 where in1: "(if sizePrefixDisabled fmt then Ok inp else rbind (readInt inp) (\<lambda>(_, dis'). Ok dis')) = Ok in1"
    "delivers in1 ([t] @ rest) br"
    using assms(2) readInt_any [of inp sz "t # rest" br] by (cases "sizePrefixDisabled fmt") auto
  obtain in2 where in2: "readByte in1 = Ok (t, in2)" using byte.get_law [OF TrueI in1(2)] by blast
  have "doUnmarshal n fmt in1 = (if t = NULL_TYPE then Ok (None, in2) else Throw IOException)"
    using in2 assms(1) by (auto simp: doUnmarshal_def bindL_def retL_def io_convert_def)
  then show ?thesis using in1(1) by (auto simp: OpenWireFormat_unmarshal_def io_convert_def split: if_splits)
qed

text \<open>
  \<^bold>\<open>C24.\<close> What is no command is refused, or lost. A type without a marshaller is an \<open>IOException\<close> on either
  side, and so is the null command when it is read. It is written with a size prefix even where the
  prefix is disabled, so that the reader refuses it at the first byte of the prefix. A data structure that is not a
  \<open>Command\<close>, a \<open>ProducerId\<close> say, can be written; the reader gets a null pointer instead of an exception.
\<close>

theorem openwire_rejects:
  assumes "configured fmt" "is_open out"
  shows "OpenWireFormat_marshal n fmt None out = Ok (appended out (bytes32 1 @ [NULL_TYPE])) \<and>
    (\<forall>inp rest br. delivers inp (bytes32 1 @ NULL_TYPE # rest) br \<longrightarrow> OpenWireFormat_unmarshal n fmt inp = Throw IOException) \<and>
    (\<forall>t ms. t \<notin> fst ` set registered \<longrightarrow> OpenWireFormat_marshal n fmt (Some (DataStructure t ms)) out = Throw IOException) \<and>
    (\<forall>t sz inp rest br. t \<notin> fst ` set registered \<longrightarrow> delivers inp ((if sizePrefixDisabled fmt then [] else bytes32 sz) @ t # rest) br \<longrightarrow>
      OpenWireFormat_unmarshal n fmt inp = Throw IOException) \<and>
    (\<forall>obj. command_ok n fmt obj \<and> ds_type obj \<notin> set (class_codes ''Command'') \<and>
      (tightEncodingEnabled fmt \<longrightarrow> length (command_flags n fmt obj) \<le> 262128) \<longrightarrow>
      (\<exists>body. OpenWireFormat_marshal n fmt (Some obj) out = Ok (appended out (frame_prefix fmt body @ body)) \<and>
        (\<forall>inp rest br. delivers inp (frame_prefix fmt body @ body @ rest) br \<longrightarrow>
          (\<exists>inp'. OpenWireFormat_unmarshal n fmt inp = Ok (None, inp') \<and> delivers inp' rest br))))"
proof (intro conjI allI impI, goal_cases)
  case 1
  show ?case using putsL_seq [OF int.contracts(1) [OF TrueI, of 1] byte.contracts(1) [OF TrueI, of NULL_TYPE] refl] assms(2)
    by (simp add: OpenWireFormat_marshal_def putsL_def)
next
  case (2 inp rest br)
  have "delivers inp ((if sizePrefixDisabled fmt then [] else bytes32 1) @
      NULL_TYPE # (if sizePrefixDisabled fmt then [0, 0, 1, NULL_TYPE] @ rest else rest)) br"
    using 2 by (simp add: bytes32_def NULL_TYPE_def)
  then show ?case by (rule unmarshal_rejects [rotated]) simp
next
  case (3 t ms)
  then have "dataMarshallers fmt t = None" by (rule unregistered [OF assms(1)])
  then show ?case by (simp add: OpenWireFormat_marshal_def io_convert_def)
next
  case (4 t sz inp rest br)
  from 4(1) have "dataMarshallers fmt t = None" by (rule unregistered [OF assms(1)])
  then show ?case using unmarshal_rejects 4(2) by blast
next
  case (5 obj)
  then have ok: "command_ok n fmt obj" "tightEncodingEnabled fmt \<Longrightarrow> length (command_flags n fmt obj) \<le> 262128" by auto
  have "cast_to class_codes ''Command'' (Some (command_seen n fmt obj)) = None"
    using 5 by (simp add: cast_to_def command_seen_def struct_seen_def)
  then show ?case using framed [OF assms(1) ok(1) assms(2) ok(2)] frame_read by metis
qed

theorem openwire_rejects_witness:
  "OpenWireFormat_marshal 2 sample_format None new_output = Ok (appended new_output (bytes32 1 @ [NULL_TYPE])) \<and>
   OpenWireFormat_marshal 2 sample_format (Some (DataStructure 13 [])) new_output = Throw IOException"
proof -
  have "configured sample_format" "is_open new_output" "13 \<notin> fst ` set registered"
    by (simp_all add: configured_def sample_format_def is_open_def new_output_def registered_def)
  then show ?thesis using openwire_rejects [of sample_format new_output 2] by blast
qed

end
