(* ===== verification/Stl_Map.thy ===== *)
theory Stl_Map
  imports String_Utils
begin

text \<open>
  The ordered maps \<open>decaf/util/StlMap.h\<close> and \<open>decaf/util/concurrent/ConcurrentStlMap.h\<close> (a \<open>std::map\<close> with a
  comparator) as lists of entries in key order, and the comparisons of the identifiers that the maps of
  \<open>activemq/state\<close> are keyed by. The locale \<open>comparison\<close> states what a comparator promises; under it the map
  operations are those of a partial function on the classes of keys the comparator identifies.
\<close>

section \<open>The program\<close>

text \<open>\<open>valueMap.find(key)\<close>, \<open>valueMap[key] = value\<close> (the key that is there stays) and \<open>valueMap.erase(key)\<close>\<close>

fun stl_find :: "('k \<Rightarrow> 'k \<Rightarrow> bool) \<Rightarrow> 'k \<Rightarrow> ('k \<times> 'v) list \<Rightarrow> 'v option" where
  "stl_find lt k [] = None"
| "stl_find lt k ((j, v) # es) = (if lt j k then stl_find lt k es else if lt k j then None else Some v)"

fun stl_put :: "('k \<Rightarrow> 'k \<Rightarrow> bool) \<Rightarrow> 'k \<Rightarrow> 'v \<Rightarrow> ('k \<times> 'v) list \<Rightarrow> ('k \<times> 'v) list" where
  "stl_put lt k v [] = [(k, v)]"
| "stl_put lt k v ((j, w) # es) =
     (if lt j k then (j, w) # stl_put lt k v es else if lt k j then (k, v) # (j, w) # es else (j, v) # es)"

fun stl_remove :: "('k \<Rightarrow> 'k \<Rightarrow> bool) \<Rightarrow> 'k \<Rightarrow> ('k \<times> 'v) list \<Rightarrow> ('k \<times> 'v) list" where
  "stl_remove lt k [] = []"
| "stl_remove lt k ((j, w) # es) =
     (if lt j k then (j, w) # stl_remove lt k es else if lt k j then (j, w) # es else es)"

text \<open>\<open>get\<close> throws when the key is missing; \<open>remove\<close> of \<open>ConcurrentStlMap\<close> does not.\<close>

definition stl_get :: "('k \<Rightarrow> 'k \<Rightarrow> bool) \<Rightarrow> 'k \<Rightarrow> ('k \<times> 'v) list \<Rightarrow> 'v result" where
  "stl_get lt k m = (case stl_find lt k m of None \<Rightarrow> Throw NoSuchElementException | Some v \<Rightarrow> Ok v)"

text \<open>
  \<open>compareTo\<close> of the identifiers. The connection id is compared ignoring case. (A comparison that leaves the
  strings, which needs white space in a connection id, is not followed further: it counts as 0.)
\<close>

type_synonym session_id = "string \<times> int"
type_synonym object_id = "string \<times> int \<times> int"

definition long_compare :: "int \<Rightarrow> int \<Rightarrow> int" where
  "long_compare v w = (if v > w then 1 else if v < w then - 1 else 0)"

definition ConnectionId_compareTo :: "string \<Rightarrow> string \<Rightarrow> int" where
  "ConnectionId_compareTo a b = (case StringUtils_compareIgnoreCase a b of Ok c \<Rightarrow> c | Throw _ \<Rightarrow> 0)"

definition SessionId_compareTo :: "session_id \<Rightarrow> session_id \<Rightarrow> int" where
  "SessionId_compareTo = (\<lambda>(c, v) (d, w).
     let connectionIdComp = ConnectionId_compareTo c d
     in if connectionIdComp \<noteq> 0 then connectionIdComp else long_compare v w)"

text \<open>A producer or consumer id is its connection id, session id and value.\<close>

definition ConsumerId_compareTo :: "object_id \<Rightarrow> object_id \<Rightarrow> int" where
  "ConsumerId_compareTo = (\<lambda>(c, s, v) (d, t, w).
     let connectionIdComp = ConnectionId_compareTo c d
     in if connectionIdComp \<noteq> 0 then connectionIdComp
        else if long_compare s t \<noteq> 0 then long_compare s t else long_compare v w)"

definition ProducerId_compareTo :: "object_id \<Rightarrow> object_id \<Rightarrow> int" where
  "ProducerId_compareTo = (\<lambda>(c, s, v) (d, t, w).
     let connectionIdComp = ConnectionId_compareTo c d
     in if connectionIdComp \<noteq> 0 then connectionIdComp
        else if long_compare v w \<noteq> 0 then long_compare v w else long_compare s t)"

definition LocalTransactionId_compareTo :: "session_id \<Rightarrow> session_id \<Rightarrow> int" where
  "LocalTransactionId_compareTo = (\<lambda>(c, v) (d, w).
     if long_compare v w \<noteq> 0 then long_compare v w else ConnectionId_compareTo c d)"

text \<open>\<open>SharedPtrComparator\<close> on two identifiers: \<open>operator<\<close>, which is \<open>compareTo(...) < 0\<close>\<close>

definition id_less :: "('k \<Rightarrow> 'k \<Rightarrow> int) \<Rightarrow> 'k \<Rightarrow> 'k \<Rightarrow> bool" where
  "id_less compareTo a b \<longleftrightarrow> compareTo a b < 0"

definition parent_session :: "object_id \<Rightarrow> session_id" where
  "parent_session p = (fst p, fst (snd p))"

section \<open>Comparators\<close>

text \<open>\<open>K\<close>: the keys in use; \<open>canon\<close>: what the comparator sees of a key.\<close>

locale comparison =
  fixes cmp :: "'k \<Rightarrow> 'k \<Rightarrow> int" and K :: "'k \<Rightarrow> bool" and canon :: "'k \<Rightarrow> 'c"
  assumes zero: "K j \<Longrightarrow> K k \<Longrightarrow> cmp j k = 0 \<longleftrightarrow> canon j = canon k"
    and swap: "K j \<Longrightarrow> K k \<Longrightarrow> cmp k j = - cmp j k"
    and less_trans: "K i \<Longrightarrow> K j \<Longrightarrow> K k \<Longrightarrow> cmp i j < 0 \<Longrightarrow> cmp j k < 0 \<Longrightarrow> cmp i k < 0"
    and less_canon: "K i \<Longrightarrow> K j \<Longrightarrow> K k \<Longrightarrow> canon i = canon j \<Longrightarrow> cmp i k = cmp j k"
begin

lemma less_canon2: "K i \<Longrightarrow> K j \<Longrightarrow> K k \<Longrightarrow> canon i = canon j \<Longrightarrow> cmp k i = cmp k j"
  using less_canon [of i j k] swap [of i k] swap [of j k] by simp

end

text \<open>The invariant of a map, and the partial function it stands for.\<close>

definition stl_ok :: "('k \<Rightarrow> 'k \<Rightarrow> int) \<Rightarrow> ('k \<Rightarrow> bool) \<Rightarrow> ('k \<times> 'v) list \<Rightarrow> bool" where
  "stl_ok cmp K m \<longleftrightarrow> sorted_wrt (id_less cmp) (map fst m) \<and> list_all K (map fst m)"

definition stl_abs :: "('k \<Rightarrow> 'c) \<Rightarrow> ('k \<times> 'v) list \<Rightarrow> 'c \<Rightarrow> 'v option" where
  "stl_abs canon m = map_of (map (\<lambda>(k, v). (canon k, v)) m)"

lemma stl_abs_Nil [simp]: "stl_abs canon [] = Map.empty"
  by (simp add: stl_abs_def)

lemma stl_abs_Cons [simp]: "stl_abs canon ((k, v) # m) = (stl_abs canon m)(canon k \<mapsto> v)"
  by (simp add: stl_abs_def)

lemma stl_abs_None: "canon k \<notin> canon ` set (map fst m) \<Longrightarrow> stl_abs canon m (canon k) = None"
  by (force simp: stl_abs_def map_of_eq_None_iff)

lemma stl_ok_Nil [simp]: "stl_ok cmp K []"
  by (simp add: stl_ok_def)

lemma stl_ok_Cons: "stl_ok cmp K ((k, v) # m) \<longleftrightarrow> (\<forall>e \<in> set m. cmp k (fst e) < 0) \<and> K k \<and> stl_ok cmp K m"
  by (auto simp: stl_ok_def id_less_def)

context comparison
begin

lemma ok_fresh: "stl_ok cmp K ((k, v) # m) \<Longrightarrow> canon k \<notin> canon ` fst ` set m"
proof
  assume o: "stl_ok cmp K ((k, v) # m)" and "canon k \<in> canon ` fst ` set m"
  then obtain e where e: "e \<in> set m" "canon k = canon (fst e)" by auto
  have "K (fst e)" using o e(1) by (auto simp: stl_ok_def list_all_iff)
  then show False using o e zero [of k "fst e"] by (auto simp: stl_ok_Cons)
qed

lemma ok_distinct: "stl_ok cmp K m \<Longrightarrow> distinct (map (canon \<circ> fst) m)"
proof (induction m)
  case (Cons e m)
  obtain k v where e: "e = (k, v)" by (cases e)
  have "canon k \<notin> canon ` fst ` set m" using ok_fresh Cons.prems unfolding e .
  then show ?case using Cons by (auto simp: e stl_ok_Cons)
qed simp

lemma find_beyond: "\<forall>e \<in> set m. cmp k (fst e) < 0 \<Longrightarrow> K k \<Longrightarrow> list_all K (map fst m) \<Longrightarrow> stl_abs canon m (canon k) = None"
proof (rule stl_abs_None, rule notI)
  assume a: "\<forall>e \<in> set m. cmp k (fst e) < 0" "K k" "list_all K (map fst m)" "canon k \<in> canon ` set (map fst m)"
  then obtain e where e: "e \<in> set m" "canon k = canon (fst e)" by auto
  have "K (fst e)" using a(3) e(1) by (auto simp: list_all_iff)
  then show False using a(1,2) e zero [of k "fst e"] by auto
qed

lemma find_abs:
  assumes "stl_ok cmp K m" "K k"
  shows "stl_find (id_less cmp) k m = stl_abs canon m (canon k)"
  using assms
proof (induction m)
  case (Cons e m)
  obtain j v where e: "e = (j, v)" by (cases e)
  have j: "K j" "stl_ok cmp K m" "list_all K (map fst m)" using Cons.prems by (auto simp: e stl_ok_def)
  show ?case
  proof (cases "canon j = canon k")
    case True
    then have "cmp j k = 0" "cmp k j = 0" using zero [of j k] zero [of k j] j(1) Cons.prems(2) by simp_all
    then show ?thesis using True by (simp add: e id_less_def)
  next
    case False
    then have n: "cmp j k < 0 \<or> cmp k j < 0 \<and> \<not> cmp j k < 0"
      using zero [of j k] swap [of j k] j(1) Cons.prems(2) by linarith
    have b: "stl_abs canon m (canon k) = None" if "cmp k j < 0"
    proof (rule find_beyond)
      show "\<forall>e \<in> set m. cmp k (fst e) < 0"
        using that Cons.prems j less_trans [of k j] by (auto simp: e stl_ok_Cons list_all_iff)
    qed (use Cons.prems j in auto)
    from n show ?thesis
    proof
      assume "cmp j k < 0"
      then show ?thesis using Cons.IH [OF j(2) Cons.prems(2)] False by (simp add: e id_less_def)
    next
      assume "cmp k j < 0 \<and> \<not> cmp j k < 0"
      then show ?thesis using b False by (simp add: e id_less_def)
    qed
  qed
qed simp

lemma put_only_keys: "set (map fst (stl_put (id_less cmp) k v m)) \<subseteq> insert k (set (map fst m))"
proof (induction m)
  case (Cons e m)
  then show ?case by (cases e) auto
qed simp

lemma put_ok: "stl_ok cmp K m \<Longrightarrow> K k \<Longrightarrow> stl_ok cmp K (stl_put (id_less cmp) k v m)"
proof (induction m)
  case (Cons e m)
  obtain j w where e: "e = (j, w)" by (cases e)
  have j: "K j" "stl_ok cmp K m" "\<forall>e \<in> set m. cmp j (fst e) < 0 \<and> K (fst e)"
    using Cons.prems by (auto simp: e stl_ok_def id_less_def list_all_iff)
  note ih = Cons.IH [OF j(2) Cons.prems(2)]
  have keys: "\<forall>e \<in> set (stl_put (id_less cmp) k v m). fst e = k \<or> (\<exists>e' \<in> set m. fst e = fst e')"
    using put_only_keys [of k v m] by force
  consider "cmp j k < 0" | "cmp k j < 0" "\<not> cmp j k < 0" | "\<not> cmp j k < 0" "\<not> cmp k j < 0" by blast
  then show ?case
  proof cases
    case 1
    have "\<forall>e \<in> set (stl_put (id_less cmp) k v m). cmp j (fst e) < 0" using keys j(3) 1 by fastforce
    then show ?thesis using ih j(1) 1 by (simp add: e id_less_def [of cmp j k] id_less_def [of cmp k j] stl_ok_Cons)
  next
    case 2
    then show ?thesis using j Cons.prems less_trans [of k j] by (auto simp: e id_less_def stl_ok_Cons)
  next
    case 3
    then show ?thesis using j by (auto simp: e id_less_def stl_ok_Cons)
  qed
qed (simp add: stl_ok_def)

lemma put_abs:
  assumes "stl_ok cmp K m" "K k"
  shows "stl_abs canon (stl_put (id_less cmp) k v m) = (stl_abs canon m)(canon k \<mapsto> v)"
  using assms
proof (induction m)
  case (Cons e m)
  obtain j w where e: "e = (j, w)" by (cases e)
  have j: "K j" "stl_ok cmp K m" using Cons.prems by (auto simp: e stl_ok_Cons)
  note ih = Cons.IH [OF j(2) Cons.prems(2)]
  consider "cmp j k < 0" "canon j \<noteq> canon k" | "cmp k j < 0" "\<not> cmp j k < 0" | "\<not> cmp j k < 0" "\<not> cmp k j < 0" "canon j = canon k"
    using zero [of j k] swap [of j k] j(1) Cons.prems(2) by linarith
  then show ?case by cases (use ih in \<open>auto simp: e id_less_def [of cmp j k] id_less_def [of cmp k j] fun_eq_iff\<close>)
qed simp

lemma remove_ok: "stl_ok cmp K m \<Longrightarrow> stl_ok cmp K (stl_remove (id_less cmp) k m)"
proof (induction m)
  case (Cons e m)
  obtain j w where e: "e = (j, w)" by (cases e)
  have "set (stl_remove (id_less cmp) k m) \<subseteq> set m" by (induction m) (auto split: if_splits)
  then show ?case using Cons by (auto simp: e stl_ok_Cons)
qed simp

lemma remove_abs:
  assumes "stl_ok cmp K m" "K k"
  shows "stl_abs canon (stl_remove (id_less cmp) k m) = (stl_abs canon m)(canon k := None)"
  using assms
proof (induction m)
  case (Cons e m)
  obtain j w where e: "e = (j, w)" by (cases e)
  have j: "K j" "stl_ok cmp K m" using Cons.prems by (auto simp: e stl_ok_Cons)
  note ih = Cons.IH [OF j(2) Cons.prems(2)]
  have o: "stl_abs canon m (canon j) = None"
    using Cons.prems(1) ok_fresh [of j w m] stl_abs_None [of canon j m] by (auto simp: e)
  consider "cmp j k < 0" "canon j \<noteq> canon k" | "cmp k j < 0" "\<not> cmp j k < 0" "canon j \<noteq> canon k"
    | "\<not> cmp j k < 0" "\<not> cmp k j < 0" "canon j = canon k"
    using zero [of j k] swap [of j k] j(1) Cons.prems(2) by linarith
  then show ?case
  proof cases
    case 1
    then have "stl_remove (id_less cmp) k (e # m) = e # stl_remove (id_less cmp) k m" by (simp add: e id_less_def)
    then have "stl_abs canon (stl_remove (id_less cmp) k (e # m)) = (stl_abs canon m)(canon k := None, canon j \<mapsto> w)"
      by (simp only: e stl_abs_Cons ih)
    then show ?thesis unfolding e stl_abs_Cons fun_upd_twist [OF 1(2)] .
  next
    case 2
    have "stl_abs canon m (canon k) = None"
    proof (rule find_beyond)
      have "\<forall>e \<in> set m. cmp j (fst e) < 0 \<and> K (fst e)" using Cons.prems(1) by (auto simp: e stl_ok_def id_less_def list_all_iff)
      then show "\<forall>e \<in> set m. cmp k (fst e) < 0" using less_trans [OF Cons.prems(2) j(1) _ 2(1)] by blast
      show "list_all K (map fst m)" using j(2) by (simp add: stl_ok_def)
    qed (rule Cons.prems)
    then show ?thesis using 2 by (simp add: e id_less_def [of cmp j k] id_less_def [of cmp k j] fun_upd_idem)
  next
    case 3
    then have "stl_remove (id_less cmp) k (e # m) = m" by (simp add: e id_less_def)
    then show ?thesis using o 3(3) unfolding e by (simp add: fun_eq_iff)
  qed
qed simp

lemma put_every:
  assumes "stl_ok cmp K m" "K k" "\<forall>(j, w) \<in> set m. P j w" "\<And>j. K j \<Longrightarrow> canon j = canon k \<Longrightarrow> P j v"
  shows "\<forall>(j, w) \<in> set (stl_put (id_less cmp) k v m). P j w"
  using assms(1-3)
proof (induction m)
  case Nil
  then show ?case using assms(2,4) by simp
next
  case (Cons e m)
  obtain j w where e: "e = (j, w)" by (cases e)
  have j: "K j" "stl_ok cmp K m" "\<forall>(j, w) \<in> set m. P j w" "P j w" using Cons.prems by (auto simp: e stl_ok_Cons)
  note ih = Cons.IH [OF j(2) assms(2) j(3)]
  consider "cmp j k < 0" | "cmp k j < 0" "\<not> cmp j k < 0" | "\<not> cmp j k < 0" "\<not> cmp k j < 0" "canon j = canon k"
    using zero [of j k] swap [of j k] j(1) assms(2) by linarith
  then show ?case
    by cases (use ih j assms(2) assms(4) [of k] assms(4) [of j] in \<open>simp_all add: e id_less_def [of cmp j k] id_less_def [of cmp k j]\<close>)
qed

lemma remove_set: "set (stl_remove (id_less cmp) k m) \<subseteq> set m"
proof (induction m)
  case (Cons e m)
  then show ?case by (cases e) auto
qed simp

lemma find_mem:
  assumes "stl_ok cmp K m" "K k" "stl_find (id_less cmp) k m = Some v"
  obtains j where "(j, v) \<in> set m" "canon j = canon k"
proof -
  have "map_of (map (\<lambda>(k, v). (canon k, v)) m) (canon k) = Some v"
    using find_abs [OF assms(1,2)] assms(3) by (simp add: stl_abs_def)
  then have "(canon k, v) \<in> set (map (\<lambda>(k, v). (canon k, v)) m)" by (rule map_of_SomeD)
  then show thesis using that by auto
qed

lemma mem_abs: "stl_ok cmp K m \<Longrightarrow> (k, v) \<in> set m \<Longrightarrow> stl_abs canon m (canon k) = Some v"
proof (induction m)
  case (Cons e m)
  obtain j w where e: "e = (j, w)" by (cases e)
  have f: "canon j \<notin> canon ` fst ` set m" using Cons.prems(1) unfolding e by (rule ok_fresh)
  show ?case
  proof (cases "(k, v) \<in> set m")
    case True
    then have "canon k \<noteq> canon j" using f by (metis fst_conv image_eqI)
    then show ?thesis using Cons True by (simp add: e stl_ok_Cons)
  next
    case False
    then show ?thesis using Cons.prems by (simp add: e)
  qed
qed simp

lemma fold_abs:
  assumes "stl_ok cmp K m"
  shows "fold (\<lambda>(k, v) a. a(canon k \<mapsto> v)) m a0 = a0 ++ stl_abs canon m"
  using assms
proof (induction m arbitrary: a0)
  case (Cons e m)
  obtain k v where e: "e = (k, v)" by (cases e)
  have "stl_abs canon m (canon k) = None"
    using Cons.prems ok_fresh [of k v m] stl_abs_None [of canon k m] by (auto simp: e)
  then show ?case using Cons by (auto simp: e stl_ok_Cons fun_eq_iff map_add_def)
qed simp

end

section \<open>The comparators of the identifiers\<close>

text \<open>\<open>compareIgnoreCase\<close> compares like \<open>compare\<close> on the names in upper case.\<close>

abbreviation upper :: "string \<Rightarrow> string" where
  "upper \<equiv> map toUpperCase"

lemma upper_code: "97 \<le> schar c \<and> schar c \<le> 122 \<Longrightarrow> schar (toUpperCase c) = schar c - 32"
proof -
  assume c: "97 \<le> schar c \<and> schar c \<le> 122"
  have "of_char c < (256 :: nat)" by (metis mod_less_divisor of_char_mod_256 zero_less_numeral)
  then have "97 \<le> (of_char c :: nat) \<and> of_char c \<le> (122 :: nat)"
    using c unfolding schar_def Let_def by (cases "int (of_char c) < 128") (simp_all only: if_True if_False, linarith+)
  moreover from this have "(of_char c - 32 :: nat) mod 256 = of_char c - 32" by (intro mod_less) linarith
  ultimately show ?thesis using c by (simp add: toUpperCase_def schar_def Let_def of_nat_diff)
qed

lemma upper_char:
  "isDigit (toUpperCase c) = isDigit c" "isWhitespace (toUpperCase c) = isWhitespace c"
  "isDigit c \<Longrightarrow> toUpperCase c = c"
  using upper_code [of c] by (auto simp: isDigit_def isWhitespace_def toUpperCase_def)

lemma upper_eq_iff: "schar d < 65 \<Longrightarrow> toUpperCase c = d \<longleftrightarrow> c = d"
  using upper_code [of c] by (cases "97 \<le> schar c \<and> schar c \<le> 122") (auto simp: toUpperCase_def)

lemma hd0_upper: "hd0 (upper s) = toUpperCase (hd0 s)"
  by (cases s) (simp_all add: hd0_def)

lemma plain_upper: "plain (upper s) = plain s"
  using upper_eq_iff [of NUL] by (auto simp: plain_def upper_char)

lemma compareRightFrom_upper: "compareRightFrom b (upper xs) (upper ys) = compareRightFrom b xs ys"
  by (induction b xs ys rule: compareRightFrom.induct) (auto simp: upper_char)

lemma compareLeft_upper: "compareLeft (upper xs) (upper ys) = compareLeft xs ys"
  by (induction xs ys rule: compareLeft.induct) (auto simp: upper_char)

lemma runs_upper: "runs (upper xs) (upper ys) = runs xs ys"
  using upper_eq_iff [of "CHR ''0''"] compareRightFrom_upper [of 0 xs ys] compareLeft_upper [of xs ys]
  by (simp add: runs_def hd0_upper upper_char compareRight_def schar_def)

lemma natcmp_upper: "natcmp True xs ys = natcmp False (upper xs) (upper ys)"
proof (induction True xs ys rule: natcmp.induct)
  case (1 x xs y ys)
  have "runs (toUpperCase x # upper xs) (toUpperCase y # upper ys) = runs (x # xs) (y # ys)"
    using runs_upper [of "x # xs" "y # ys"] by simp
  then show ?case using 1 by (simp add: fold_case_def)
qed (simp_all add: fold_case_def)

definition plain_id :: "string \<times> 'a \<Rightarrow> bool" where
  "plain_id p \<longleftrightarrow> plain (fst p)"

definition canon_id :: "string \<times> 'a \<Rightarrow> string \<times> 'a" where
  "canon_id p = (upper (fst p), snd p)"

interpretation conn: comparison ConnectionId_compareTo plain upper
proof -
  have c: "plain j \<Longrightarrow> plain k \<Longrightarrow> ConnectionId_compareTo j k = natcmp False (upper j) (upper k)" for j k
    using doCompare_natcmp [of j k 0 True]
    by (simp add: ConnectionId_compareTo_def StringUtils_compareIgnoreCase_def doCompare_def natcmp_upper)
  show "comparison ConnectionId_compareTo plain upper"
  proof
    fix i j k assume p: "plain i" "plain j" "plain k"
    then have u: "plain (upper i)" "plain (upper j)" "plain (upper k)" by (simp_all add: plain_upper)
    show "(ConnectionId_compareTo j k = 0) = (upper j = upper k)" using p c [of j k] natcmp_eq_0 by simp
    show "ConnectionId_compareTo k j = - ConnectionId_compareTo j k" using p c natcmp_swap [OF u(2,3)] by simp
    show "ConnectionId_compareTo i j < 0 \<Longrightarrow> ConnectionId_compareTo j k < 0 \<Longrightarrow> ConnectionId_compareTo i k < 0"
      using p c natcmp_trans [OF u] by simp
    show "upper i = upper j \<Longrightarrow> ConnectionId_compareTo i k = ConnectionId_compareTo j k" using p c by simp
  qed
qed

interpretation long: comparison long_compare "\<lambda>_. True" "\<lambda>v. v"
  by unfold_locales (auto simp: long_compare_def split: if_splits)

text \<open>Writing a value twice, or back.\<close>

lemma stl_put_same: "stl_find lt k m = Some v \<Longrightarrow> stl_put lt k v m = m"
  by (induction m) (auto split: if_splits)

lemma stl_find_put: "\<not> lt k k \<Longrightarrow> stl_find lt k (stl_put lt k v m) = Some v"
  by (induction m) auto

lemma stl_put_put: "\<not> lt k k \<Longrightarrow> stl_put lt k v (stl_put lt k w m) = stl_put lt k v m"
  by (induction m) auto

text \<open>Comparing one part after the other.\<close>

definition lex_compare :: "('a \<Rightarrow> 'a \<Rightarrow> int) \<Rightarrow> ('a \<Rightarrow> 'a \<Rightarrow> int) \<Rightarrow> 'a \<Rightarrow> 'a \<Rightarrow> int" where
  "lex_compare c1 c2 x y = (if c1 x y \<noteq> 0 then c1 x y else c2 x y)"

lemma comparison_lex:
  assumes 1: "comparison c1 K f1" and 2: "comparison c2 K f2"
  shows "comparison (lex_compare c1 c2) K (\<lambda>x. (f1 x, f2 x))"
proof
  fix i j k assume p: "K i" "K j" "K k"
  note z = comparison.zero [OF 1] comparison.zero [OF 2] and s = comparison.swap [OF 1] comparison.swap [OF 2]
  note u = comparison.less_canon [OF 1] comparison.less_canon2 [OF 1] and t = comparison.less_trans [OF 1] comparison.less_trans [OF 2]
  show "(lex_compare c1 c2 j k = 0) = ((f1 j, f2 j) = (f1 k, f2 k))"
    using z(1) [of j k] z(2) [of j k] p by (simp add: lex_compare_def)
  show "lex_compare c1 c2 k j = - lex_compare c1 c2 j k"
    using s(1) [of j k] s(2) [of j k] p by (simp add: lex_compare_def)
  show "(f1 i, f2 i) = (f1 j, f2 j) \<Longrightarrow> lex_compare c1 c2 i k = lex_compare c1 c2 j k"
    using u(1) [of i j k] comparison.less_canon [OF 2, of i j k] p by (simp add: lex_compare_def)
  assume l: "lex_compare c1 c2 i j < 0" "lex_compare c1 c2 j k < 0"
  have e: "c1 i j = 0 \<Longrightarrow> c1 i k = c1 j k" "c1 j k = 0 \<Longrightarrow> c1 i k = c1 i j"
    using z(1) [of i j] z(1) [of j k] u(1) [of i j k] u(2) [of j k i] p by auto
  show "lex_compare c1 c2 i k < 0"
    using l e t(1) [of i j k] t(2) [of i j k] p unfolding lex_compare_def by (smt (verit))
qed

lemma comparison_part:
  assumes c: "comparison c K f" and p: "\<And>x. K' x \<Longrightarrow> K (p x)" and g: "\<And>x y. K' x \<Longrightarrow> K' y \<Longrightarrow> f (p x) = f (p y) \<longleftrightarrow> g x = g y"
  shows "comparison (\<lambda>x y. c (p x) (p y)) K' g"
proof
  fix i j k assume k: "K' i" "K' j" "K' k"
  then have q: "K (p i)" "K (p j)" "K (p k)" using p by simp_all
  show "(c (p j) (p k) = 0) = (g j = g k)" using comparison.zero [OF c q(2,3)] g k by simp
  show "c (p k) (p j) = - c (p j) (p k)" by (rule comparison.swap [OF c q(2,3)])
  show "c (p i) (p j) < 0 \<Longrightarrow> c (p j) (p k) < 0 \<Longrightarrow> c (p i) (p k) < 0" by (rule comparison.less_trans [OF c q])
  show "g i = g j \<Longrightarrow> c (p i) (p k) = c (p j) (p k)" using comparison.less_canon [OF c q] g k by simp
qed

lemma comparison_same: "comparison c K f \<Longrightarrow> (\<And>x y. f x = f y \<longleftrightarrow> g x = g y) \<Longrightarrow> comparison c K g"
  by (rule comparison_part [where p = "\<lambda>x. x"])

lemmas id_comparison = comparison_lex comparison_part [OF conn.comparison_axioms _ refl] comparison_part [OF long.comparison_axioms _ refl]

interpretation sess: comparison SessionId_compareTo plain_id canon_id
proof -
  have e: "SessionId_compareTo = lex_compare (\<lambda>x y. ConnectionId_compareTo (fst x) (fst y)) (\<lambda>x y. long_compare (snd x) (snd y))"
    by (auto simp: SessionId_compareTo_def lex_compare_def fun_eq_iff Let_def)
  show "comparison SessionId_compareTo plain_id canon_id"
    unfolding e by (rule comparison_same, rule id_comparison, rule id_comparison(2), simp add: plain_id_def, rule id_comparison(3), simp,
      simp add: canon_id_def)
qed

interpretation cons: comparison ConsumerId_compareTo plain_id canon_id
proof -
  have e: "ConsumerId_compareTo = lex_compare (\<lambda>x y. ConnectionId_compareTo (fst x) (fst y))
      (lex_compare (\<lambda>x y. long_compare (fst (snd x)) (fst (snd y))) (\<lambda>x y. long_compare (snd (snd x)) (snd (snd y))))"
    by (auto simp: ConsumerId_compareTo_def lex_compare_def fun_eq_iff Let_def)
  show "comparison ConsumerId_compareTo plain_id canon_id"
    unfolding e by (rule comparison_same, rule id_comparison, rule id_comparison(2), simp add: plain_id_def, rule id_comparison,
      rule id_comparison(3), simp, rule id_comparison(3), simp, simp add: canon_id_def prod_eq_iff)
qed

interpretation prod: comparison ProducerId_compareTo plain_id canon_id
proof -
  have e: "ProducerId_compareTo = lex_compare (\<lambda>x y. ConnectionId_compareTo (fst x) (fst y))
      (lex_compare (\<lambda>x y. long_compare (snd (snd x)) (snd (snd y))) (\<lambda>x y. long_compare (fst (snd x)) (fst (snd y))))"
    by (auto simp: ProducerId_compareTo_def lex_compare_def fun_eq_iff Let_def)
  show "comparison ProducerId_compareTo plain_id canon_id"
    unfolding e by (rule comparison_same, rule id_comparison, rule id_comparison(2), simp add: plain_id_def, rule id_comparison,
      rule id_comparison(3), simp, rule id_comparison(3), simp, auto simp: canon_id_def prod_eq_iff)
qed

interpretation ltx: comparison LocalTransactionId_compareTo plain_id canon_id
proof -
  have e: "LocalTransactionId_compareTo = lex_compare (\<lambda>x y. long_compare (snd x) (snd y)) (\<lambda>x y. ConnectionId_compareTo (fst x) (fst y))"
    by (auto simp: LocalTransactionId_compareTo_def lex_compare_def fun_eq_iff)
  show "comparison LocalTransactionId_compareTo plain_id canon_id"
    unfolding e by (rule comparison_same, rule id_comparison, rule id_comparison(3), simp, rule id_comparison(2), simp add: plain_id_def,
      auto simp: canon_id_def)
qed

end
