(* ===== verification/Primitive_Marshaller.thy ===== *)
theory Primitive_Marshaller
  imports Wire_Contracts Stl_Map
begin

text \<open>
  \<open>activemq/wireformat/openwire/marshal/PrimitiveTypesMarshaller.cpp\<close>: the maps of message properties (and
  the bodies of map and stream messages), whose values are of the types of \<open>PrimitiveValueNode\<close> and may be
  lists and maps again; and the hooks of \<open>Message\<close> and \<open>WireFormatInfo\<close> that call it.
\<close>

section \<open>The program\<close>

text \<open>\<open>PrimitiveValueNode\<close>; a float or double is its bits. A \<open>PrimitiveMap\<close> is an \<open>StlMap\<close>, ordered by \<open>std::less\<close>.\<close>

datatype primitive =
    NullP
  | BoolP bool
  | ByteP byte
  | CharP char
  | ShortP "16 word"
  | IntP "32 word"
  | LongP "64 word"
  | DoubleP "64 word"
  | FloatP "32 word"
  | StringP string
  | ByteArrayP "byte list"
  | MapP "(string \<times> primitive) list"
  | ListP "primitive list"

definition BOOLEAN_TYPE :: byte where "BOOLEAN_TYPE = 1"
definition BYTE_TYPE :: byte where "BYTE_TYPE = 2"
definition CHAR_TYPE :: byte where "CHAR_TYPE = 3"
definition SHORT_TYPE :: byte where "SHORT_TYPE = 4"
definition INTEGER_TYPE :: byte where "INTEGER_TYPE = 5"
definition LONG_TYPE :: byte where "LONG_TYPE = 6"
definition DOUBLE_TYPE :: byte where "DOUBLE_TYPE = 7"
definition FLOAT_TYPE :: byte where "FLOAT_TYPE = 8"
definition STRING_TYPE :: byte where "STRING_TYPE = 9"
definition BYTE_ARRAY_TYPE :: byte where "BYTE_ARRAY_TYPE = 10"
definition MAP_TYPE :: byte where "MAP_TYPE = 11"
definition LIST_TYPE :: byte where "LIST_TYPE = 12"
definition BIG_STRING_TYPE :: byte where "BIG_STRING_TYPE = 13"

lemmas type_codes = BOOLEAN_TYPE_def BYTE_TYPE_def CHAR_TYPE_def SHORT_TYPE_def INTEGER_TYPE_def LONG_TYPE_def
  DOUBLE_TYPE_def FLOAT_TYPE_def STRING_TYPE_def BYTE_ARRAY_TYPE_def MAP_TYPE_def LIST_TYPE_def BIG_STRING_TYPE_def

text \<open>\<open>std::less<std::string>\<close> compares characters as unsigned.\<close>

fun str_less :: "string \<Rightarrow> string \<Rightarrow> bool" where
  "str_less s [] \<longleftrightarrow> False"
| "str_less [] (c # t) \<longleftrightarrow> True"
| "str_less (a # s) (b # t) \<longleftrightarrow> (of_char a :: nat) < of_char b \<or> a = b \<and> str_less s t"

definition PrimitiveMap_put :: "string \<Rightarrow> 'v \<Rightarrow> (string \<times> 'v) list \<Rightarrow> (string \<times> 'v) list" where
  "PrimitiveMap_put = stl_put str_less"

text \<open>\<open>dataOut.write((unsigned char*)data.c_str(), size, 0, size)\<close>\<close>

definition write_chars :: "string \<Rightarrow> data_output \<Rightarrow> data_output result" where
  "write_chars data = doWriteArrayBounded (Some (string_bytes data)) (int (length data)) 0 (int (length data))"

definition marshalString :: "string \<Rightarrow> data_output \<Rightarrow> data_output result" where
  "marshalString data =
     (if length data = 0 then seqL (writeByte STRING_TYPE) (writeShort (word_of_nat (length data)))
      else if int (length data) > 32767 div 4 then
        seqL (writeByte BIG_STRING_TYPE) (seqL (writeInt (word_of_nat (length data))) (write_chars data))
      else seqL (writeByte STRING_TYPE) (seqL (writeShort (word_of_nat (length data))) (write_chars data)))"

fun marshalPrimitive :: "primitive \<Rightarrow> data_output \<Rightarrow> data_output result"
  and marshalItems :: "primitive list \<Rightarrow> data_output \<Rightarrow> data_output result"
  and marshalEntries :: "(string \<times> primitive) list \<Rightarrow> data_output \<Rightarrow> data_output result" where
  "marshalPrimitive NullP = (\<lambda>dataOut. catch_io (Throw IOException))"
| "marshalPrimitive (BoolP b) = (\<lambda>dataOut. catch_io (seqL (writeByte BOOLEAN_TYPE) (writeBoolean b) dataOut))"
| "marshalPrimitive (ByteP b) = (\<lambda>dataOut. catch_io (seqL (writeByte BYTE_TYPE) (writeByte b) dataOut))"
| "marshalPrimitive (CharP c) = (\<lambda>dataOut.
     catch_io (seqL (writeByte CHAR_TYPE) (seqL (writeChar (CHR 0x00)) (writeChar c)) dataOut))"
| "marshalPrimitive (ShortP i) = (\<lambda>dataOut. catch_io (seqL (writeByte SHORT_TYPE) (writeShort i) dataOut))"
| "marshalPrimitive (IntP i) = (\<lambda>dataOut. catch_io (seqL (writeByte INTEGER_TYPE) (writeInt i) dataOut))"
| "marshalPrimitive (LongP i) = (\<lambda>dataOut. catch_io (seqL (writeByte LONG_TYPE) (writeLong i) dataOut))"
| "marshalPrimitive (FloatP i) = (\<lambda>dataOut. catch_io (seqL (writeByte FLOAT_TYPE) (writeFloat i) dataOut))"
| "marshalPrimitive (DoubleP i) = (\<lambda>dataOut. catch_io (seqL (writeByte DOUBLE_TYPE) (writeDouble i) dataOut))"
| "marshalPrimitive (ByteArrayP d) = (\<lambda>dataOut.
     catch_io (seqL (writeByte BYTE_ARRAY_TYPE) (seqL (writeInt (word_of_nat (length d)))
       (if d \<noteq> [] then write_array_of d else Ok)) dataOut))"
| "marshalPrimitive (StringP s) = (\<lambda>dataOut. catch_io (marshalString s dataOut))"
| "marshalPrimitive (ListP xs) = (\<lambda>dataOut.
     catch_io (seqL (writeByte LIST_TYPE) (\<lambda>out. catch_io (seqL (writeInt (word_of_nat (length xs))) (marshalItems xs) out)) dataOut))"
| "marshalPrimitive (MapP es) = (\<lambda>dataOut.
     catch_io (seqL (writeByte MAP_TYPE) (\<lambda>out. catch_io (seqL (writeInt (word_of_nat (length es))) (marshalEntries es) out)) dataOut))"
| "marshalItems [] = Ok"
| "marshalItems (x # xs) = seqL (marshalPrimitive x) (marshalItems xs)"
| "marshalEntries [] = Ok"
| "marshalEntries ((k, x) # es) = seqL (writeUTF k) (seqL (marshalPrimitive x) (marshalEntries es))"

definition marshalPrimitiveList :: "primitive list \<Rightarrow> data_output \<Rightarrow> data_output result" where
  "marshalPrimitiveList xs = (\<lambda>dataOut. catch_io (seqL (writeInt (word_of_nat (length xs))) (marshalItems xs) dataOut))"

definition marshalPrimitiveMap :: "(string \<times> primitive) list \<Rightarrow> data_output \<Rightarrow> data_output result" where
  "marshalPrimitiveMap es = (\<lambda>dataOut. catch_io (seqL (writeInt (word_of_nat (length es))) (marshalEntries es) dataOut))"

text \<open>A loop that reads \<open>k\<close> items.\<close>

fun read_items :: "(data_input \<Rightarrow> ('a \<times> data_input) result) \<Rightarrow> nat \<Rightarrow> data_input \<Rightarrow> ('a list \<times> data_input) result" where
  "read_items f 0 = retL []"
| "read_items f (Suc k) = bindL f (\<lambda>x. mapL (\<lambda>xs. x # xs) (read_items f k))"

definition unmarshalPrimitiveList :: "(data_input \<Rightarrow> (primitive \<times> data_input) result) \<Rightarrow> data_input \<Rightarrow> (primitive list \<times> data_input) result" where
  "unmarshalPrimitiveList item = (\<lambda>dataIn. catch_io (bindL readInt (\<lambda>sz. read_items item (nat (sint sz))) dataIn))"

definition unmarshalPrimitiveMap :: "(data_input \<Rightarrow> (primitive \<times> data_input) result) \<Rightarrow> (string \<times> primitive) list \<Rightarrow>
    data_input \<Rightarrow> ((string \<times> primitive) list \<times> data_input) result" where
  "unmarshalPrimitiveMap item map0 = (\<lambda>dataIn.
     catch_io (bindL readInt (\<lambda>sz.
       mapL (\<lambda>es. fold (\<lambda>(k, v). PrimitiveMap_put k v) es map0)
         (read_items (bindL readUTF (\<lambda>k. mapL (\<lambda>v. (k, v)) item)) (nat (sint sz)))) dataIn))"

text \<open>An empty string is not set: the value stays null.\<close>

definition unmarshalString :: "int \<Rightarrow> data_input \<Rightarrow> (primitive \<times> data_input) result" where
  "unmarshalString utfLength =
     (if utfLength > 0
      then mapL (\<lambda>d. StringP (map char_of_byte (the d))) (readFully2 (Some (replicate (nat utfLength) 0)) utfLength)
      else retL NullP)"

fun unmarshalPrimitive :: "nat \<Rightarrow> data_input \<Rightarrow> (primitive \<times> data_input) result" where
  "unmarshalPrimitive 0 = (\<lambda>dataIn. Throw MemoryFault)"
| "unmarshalPrimitive (Suc n) = (\<lambda>dataIn.
     catch_io (bindL readByte (\<lambda>t.
       if t = 0 then retL NullP
       else if t = BYTE_TYPE then mapL ByteP readByte
       else if t = BOOLEAN_TYPE then mapL BoolP readBoolean
       else if t = CHAR_TYPE then bindL readByte (\<lambda>_. mapL CharP readChar)
       else if t = SHORT_TYPE then mapL ShortP readShort
       else if t = INTEGER_TYPE then mapL IntP readInt
       else if t = LONG_TYPE then mapL LongP readLong
       else if t = FLOAT_TYPE then mapL FloatP readFloat
       else if t = DOUBLE_TYPE then mapL DoubleP readDouble
       else if t = BYTE_ARRAY_TYPE then bindL readInt (\<lambda>sz. mapL ByteArrayP (read_vector (sint sz)))
       else if t = STRING_TYPE then bindL readShort (\<lambda>sz. unmarshalString (sint sz))
       else if t = BIG_STRING_TYPE then bindL readInt (\<lambda>sz. unmarshalString (sint sz))
       else if t = LIST_TYPE then mapL ListP (unmarshalPrimitiveList (unmarshalPrimitive n))
       else if t = MAP_TYPE then mapL MapP (unmarshalPrimitiveMap (unmarshalPrimitive n) [])
       else (\<lambda>dataIn. Throw IOException)) dataIn))"

text \<open>
  \<open>marshal(const PrimitiveMap*, std::vector<unsigned char>&)\<close> and \<open>unmarshal(PrimitiveMap*, const
  std::vector<unsigned char>&)\<close>, through streams over byte arrays.
\<close>

definition marshal_map :: "(string \<times> primitive) list option \<Rightarrow> byte list \<Rightarrow> byte list result" where
  "marshal_map m buffer =
     rbind ((case m of None \<Rightarrow> writeInt (- 1) | Some es \<Rightarrow> marshalPrimitiveMap es)
       \<lparr>os_sink = Some [], os_closed = False, written = 0\<rparr>) (\<lambda>bytesOut. Ok (the (os_sink bytesOut) @ buffer))"

definition unmarshal_map :: "nat \<Rightarrow> (string \<times> primitive) list \<Rightarrow> byte list \<Rightarrow> (string \<times> primitive) list result" where
  "unmarshal_map n m buffer =
     (if buffer = [] then Ok m
      else rbind (unmarshalPrimitiveMap (unmarshalPrimitive n) [] \<lparr>is_base = Some [Data buffer], is_pushback = False\<rparr>)
        (\<lambda>(m', _). Ok m'))"

definition marshal_list :: "primitive list option \<Rightarrow> byte list \<Rightarrow> byte list result" where
  "marshal_list l buffer =
     rbind ((case l of None \<Rightarrow> writeInt (- 1) | Some xs \<Rightarrow> marshalPrimitiveList xs)
       \<lparr>os_sink = Some [], os_closed = False, written = 0\<rparr>) (\<lambda>bytesOut. Ok (the (os_sink bytesOut) @ buffer))"

definition unmarshal_list :: "nat \<Rightarrow> primitive list \<Rightarrow> byte list \<Rightarrow> primitive list result" where
  "unmarshal_list n l buffer =
     (if buffer = [] then Ok l
      else rbind (unmarshalPrimitiveList (unmarshalPrimitive n) \<lparr>is_base = Some [Data buffer], is_pushback = False\<rparr>)
        (\<lambda>(l', _). Ok l'))"

text \<open>The same on a stream of the caller, for the bodies of map and stream messages.\<close>

definition marshalMap :: "(string \<times> primitive) list option \<Rightarrow> data_output \<Rightarrow> data_output result" where
  "marshalMap m = (case m of None \<Rightarrow> writeInt (- 1) | Some es \<Rightarrow> marshalPrimitiveMap es)"

definition unmarshalMap :: "nat \<Rightarrow> data_input \<Rightarrow> ((string \<times> primitive) list \<times> data_input) result" where
  "unmarshalMap n = unmarshalPrimitiveMap (unmarshalPrimitive n) []"

definition marshalList :: "primitive list option \<Rightarrow> data_output \<Rightarrow> data_output result" where
  "marshalList l = (case l of None \<Rightarrow> writeInt (- 1) | Some xs \<Rightarrow> marshalPrimitiveList xs)"

definition unmarshalList :: "nat \<Rightarrow> data_input \<Rightarrow> (primitive list \<times> data_input) result" where
  "unmarshalList n = unmarshalPrimitiveList (unmarshalPrimitive n)"

text \<open>\<open>Message::beforeMarshal\<close>, \<open>WireFormatInfo::beforeMarshal\<close>: the marshalled properties.\<close>

definition beforeMarshal :: "(string \<times> primitive) list \<Rightarrow> byte list result" where
  "beforeMarshal props = catch_io (if props \<noteq> [] then marshal_map (Some props) [] else Ok [])"

text \<open>\<open>WireFormatInfo::afterUnmarshal\<close>\<close>

definition afterUnmarshal :: "nat \<Rightarrow> (string \<times> primitive) list \<Rightarrow> byte list \<Rightarrow> (string \<times> primitive) list result" where
  "afterUnmarshal n props buffer = catch_io (unmarshal_map n props buffer)"

text \<open>
  The properties of a \<open>Message\<close> are read lazily: \<open>afterUnmarshal\<close> only notes that they are still in their
  marshalled form, \<open>ensurePropertiesUnmarshaled\<close> reads them on the first access.
\<close>

record message_properties =
  properties :: "(string \<times> primitive) list"
  marshalledProperties :: "byte list"
  propertiesUnmarshaled :: bool

definition Message_new :: message_properties where
  "Message_new = \<lparr>properties = [], marshalledProperties = [], propertiesUnmarshaled = False\<rparr>"

definition Message_beforeMarshal :: "message_properties \<Rightarrow> message_properties result" where
  "Message_beforeMarshal msg = rbind (beforeMarshal (properties msg)) (\<lambda>d. Ok (msg\<lparr>marshalledProperties := d\<rparr>))"

definition Message_afterUnmarshal :: "message_properties \<Rightarrow> message_properties" where
  "Message_afterUnmarshal msg = msg\<lparr>propertiesUnmarshaled := False\<rparr>"

definition ensurePropertiesUnmarshaled :: "nat \<Rightarrow> message_properties \<Rightarrow> message_properties result" where
  "ensurePropertiesUnmarshaled n msg =
     (if propertiesUnmarshaled msg then Ok msg
      else if marshalledProperties msg = [] then Ok (msg\<lparr>propertiesUnmarshaled := True\<rparr>)
      else catch_io (rbind (unmarshal_map n (properties msg) (marshalledProperties msg))
        (\<lambda>m. Ok (msg\<lparr>properties := m, propertiesUnmarshaled := True\<rparr>))))"

text \<open>\<open>copyDataStructure\<close>, which \<open>ActiveMQSessionKernel::send\<close> uses for every message: the source is read first.\<close>

definition copyDataStructure :: "nat \<Rightarrow> message_properties \<Rightarrow> message_properties \<Rightarrow> (message_properties \<times> message_properties) result" where
  "copyDataStructure n src dst =
     rbind (ensurePropertiesUnmarshaled n src) (\<lambda>src'.
       Ok (src', dst\<lparr>marshalledProperties := marshalledProperties src, properties := properties src', propertiesUnmarshaled := True\<rparr>))"

section \<open>Ordered maps\<close>

definition entries_sorted :: "(string \<times> 'v) list \<Rightarrow> bool" where
  "entries_sorted es = sorted_wrt str_less (map fst es)"

lemma put_last: "\<forall>e \<in> set acc. str_less (fst e) k \<Longrightarrow> PrimitiveMap_put k v acc = acc @ [(k, v)]"
  unfolding PrimitiveMap_put_def by (induction acc) auto

lemma put_all: "entries_sorted (acc @ es) \<Longrightarrow> fold (\<lambda>(k, v). PrimitiveMap_put k v) es acc = acc @ es"
proof (induction es arbitrary: acc)
  case (Cons e es)
  obtain k v where e: "e = (k, v)" by (cases e)
  have "PrimitiveMap_put k v acc = acc @ [e]"
    using Cons.prems put_last [of acc k v] by (auto simp: e entries_sorted_def sorted_wrt_append)
  then show ?case using Cons.IH [of "acc @ [e]"] Cons.prems by (simp add: e)
qed simp

section \<open>The encoding of a value\<close>

definition string_enc :: "string \<Rightarrow> byte list" where
  "string_enc s = (if length s \<le> 8191 then STRING_TYPE # bytes16 (word_of_nat (length s))
     else BIG_STRING_TYPE # bytes32 (word_of_nat (length s))) @ string_bytes s"

primrec prim_enc :: "primitive \<Rightarrow> byte list" where
  "prim_enc NullP = []"
| "prim_enc (BoolP b) = [BOOLEAN_TYPE, if b then 1 else 0]"
| "prim_enc (ByteP b) = [BYTE_TYPE, b]"
| "prim_enc (CharP c) = [CHAR_TYPE, 0, byte_of_char c]"
| "prim_enc (ShortP i) = SHORT_TYPE # bytes16 i"
| "prim_enc (IntP i) = INTEGER_TYPE # bytes32 i"
| "prim_enc (LongP i) = LONG_TYPE # bytes64 i"
| "prim_enc (DoubleP i) = DOUBLE_TYPE # bytes64 i"
| "prim_enc (FloatP i) = FLOAT_TYPE # bytes32 i"
| "prim_enc (StringP s) = string_enc s"
| "prim_enc (ByteArrayP d) = BYTE_ARRAY_TYPE # bytes32 (word_of_nat (length d)) @ d"
| "prim_enc (MapP es) = MAP_TYPE # bytes32 (word_of_nat (length es)) @
     concat (map (\<lambda>(k, e). utf_enc k @ e) (map (map_prod id prim_enc) es))"
| "prim_enc (ListP xs) = LIST_TYPE # bytes32 (word_of_nat (length xs)) @ concat (map prim_enc xs)"

text \<open>Values that can be sent, and what the reader gets: an empty string becomes null.\<close>

primrec prim_ok :: "primitive \<Rightarrow> bool" where
  "prim_ok NullP \<longleftrightarrow> False"
| "prim_ok (BoolP b) \<longleftrightarrow> True"
| "prim_ok (ByteP b) \<longleftrightarrow> True"
| "prim_ok (CharP c) \<longleftrightarrow> True"
| "prim_ok (ShortP i) \<longleftrightarrow> True"
| "prim_ok (IntP i) \<longleftrightarrow> True"
| "prim_ok (LongP i) \<longleftrightarrow> True"
| "prim_ok (DoubleP i) \<longleftrightarrow> True"
| "prim_ok (FloatP i) \<longleftrightarrow> True"
| "prim_ok (StringP s) \<longleftrightarrow> length s < 2 ^ 31"
| "prim_ok (ByteArrayP d) \<longleftrightarrow> length d < 2 ^ 31"
| "prim_ok (MapP es) \<longleftrightarrow> length es < 2 ^ 31 \<and> entries_sorted es \<and>
     list_all (\<lambda>(k, ok). utf_ok k \<and> ok) (map (map_prod id prim_ok) es)"
| "prim_ok (ListP xs) \<longleftrightarrow> length xs < 2 ^ 31 \<and> list_all id (map prim_ok xs)"

primrec prim_seen :: "primitive \<Rightarrow> primitive" where
  "prim_seen NullP = NullP"
| "prim_seen (BoolP b) = BoolP b"
| "prim_seen (ByteP b) = ByteP b"
| "prim_seen (CharP c) = CharP c"
| "prim_seen (ShortP i) = ShortP i"
| "prim_seen (IntP i) = IntP i"
| "prim_seen (LongP i) = LongP i"
| "prim_seen (DoubleP i) = DoubleP i"
| "prim_seen (FloatP i) = FloatP i"
| "prim_seen (StringP s) = (if s = [] then NullP else StringP s)"
| "prim_seen (ByteArrayP d) = ByteArrayP d"
| "prim_seen (MapP es) = MapP (map (map_prod id prim_seen) es)"
| "prim_seen (ListP xs) = ListP (map prim_seen xs)"

primrec prim_depth :: "primitive \<Rightarrow> nat" where
  "prim_depth NullP = 0"
| "prim_depth (BoolP b) = 0"
| "prim_depth (ByteP b) = 0"
| "prim_depth (CharP c) = 0"
| "prim_depth (ShortP i) = 0"
| "prim_depth (IntP i) = 0"
| "prim_depth (LongP i) = 0"
| "prim_depth (DoubleP i) = 0"
| "prim_depth (FloatP i) = 0"
| "prim_depth (StringP s) = 0"
| "prim_depth (ByteArrayP d) = 0"
| "prim_depth (MapP es) = Suc (foldr max (map snd (map (map_prod id prim_depth) es)) 0)"
| "prim_depth (ListP xs) = Suc (foldr max (map prim_depth xs) 0)"

lemma foldr_max_less: "foldr max ns 0 < m \<Longrightarrow> n \<in> set ns \<Longrightarrow> n < (m :: nat)"
  by (induction ns) auto

abbreviation entry_enc :: "string \<times> primitive \<Rightarrow> byte list" where
  "entry_enc \<equiv> \<lambda>e. utf_enc (fst e) @ prim_enc (snd e)"

definition map_ok :: "nat \<Rightarrow> (string \<times> primitive) list \<Rightarrow> bool" where
  "map_ok n es \<longleftrightarrow> length es < 2 ^ 31 \<and> entries_sorted es \<and>
     (\<forall>e \<in> set es. utf_ok (fst e) \<and> prim_ok (snd e) \<and> prim_depth (snd e) \<le> n)"

section \<open>Writing\<close>

lemma string_length_short: "length s \<le> 8191 \<Longrightarrow> sint (word_of_nat (length s) :: 16 word) = int (length s)"
  using signed_take_bit_int_eq_self [of 15 "int (length s)"] by (simp add: signed_of_nat)

lemma write_chars_putsL: "putsL (write_chars s) (string_bytes s)"
  using const_bytes_putsL [of "string_bytes s"] by (simp add: write_chars_def string_bytes_def)

lemma marshalString_putsL: "putsL (marshalString s) (string_enc s)"
proof -
  note c = putsL_seq byte.contracts(1) [OF TrueI] short.contracts(1) [OF TrueI] int.contracts(1) [OF TrueI] write_chars_putsL
  consider "s = []" | "s \<noteq> []" "length s \<le> 8191" | "\<not> length s \<le> 8191" by linarith
  then show ?thesis
  proof cases
    case 1 then show ?thesis by (auto simp: marshalString_def string_enc_def string_bytes_def intro!: c)
  next
    case 2 then show ?thesis by (auto simp: marshalString_def string_enc_def intro!: c)
  next
    case 3 then show ?thesis by (auto simp: marshalString_def string_enc_def intro!: c)
  qed
qed

lemma marshal_putsL:
  shows "prim_ok v \<Longrightarrow> putsL (marshalPrimitive v) (prim_enc v)"
    and "list_all prim_ok xs \<Longrightarrow> putsL (marshalItems xs) (concat (map prim_enc xs))"
    and "list_all (\<lambda>(k, x). utf_ok k \<and> prim_ok x) es \<Longrightarrow> putsL (marshalEntries es) (concat (map entry_enc es))"
proof (induction v and xs and es rule: marshalPrimitive_marshalItems_marshalEntries.induct)
qed (auto intro!: putsL_catch putsL_seq putsL_ok byte.contracts(1) bool.contracts(1) chr.contracts(1) short.contracts(1) int.contracts(1)
    long.contracts(1) float.contracts(1) double.contracts(1) utf.contracts(1) marshalString_putsL write_array_putsL
    simp: list.map_comp comp_def list_all_iff case_prod_beta byte_of_char_def)

section \<open>Reading\<close>

lemma getsL_length:
  "getsL (g i) e v \<Longrightarrow> getsL (bindL readInt g) (bytes32 i @ e) v"
  "getsL (g' j) e v \<Longrightarrow> getsL (bindL readShort g') (bytes16 j @ e) v"
  "getsL (h b) e v \<Longrightarrow> getsL (bindL readByte h) (b # e) v"
  by (erule getsL_bind [OF int.contracts(2) [OF TrueI]] getsL_bind [OF short.contracts(2) [OF TrueI]]
      getsL_bind [OF byte.contracts(2) [OF TrueI]], simp)+

lemma read_items_getsL:
  assumes "\<And>x. x \<in> set xs \<Longrightarrow> getsL f (enc x) (seen x)"
  shows "getsL (read_items f (length xs)) (concat (map enc xs)) (map seen xs)"
  using assms
proof (induction xs)
  case (Cons x xs)
  then have "getsL (read_items f (length xs)) (concat (map enc xs)) (map seen xs)" by simp
  then show ?case using Cons.prems [of x] by (auto intro!: getsL_bind [where a = "seen x"] getsL_map)
qed (simp add: getsL_ret)

lemma unmarshalString_getsL: "getsL (unmarshalString (int (length s))) (string_bytes s) (if s = [] then NullP else StringP s)"
  unfolding getsL_def
proof (intro allI impI)
  fix inp rest br
  assume i: "delivers inp (string_bytes s @ rest) br"
  show "\<exists>inp'. unmarshalString (int (length s)) inp = Ok (if s = [] then NullP else StringP s, inp') \<and> delivers inp' rest br"
  proof (cases "s = []")
    case True
    then show ?thesis using i by (auto simp: unmarshalString_def retL_def string_bytes_def)
  next
    case False
    then obtain in2 where "readFully2 (Some (replicate (length s) 0)) (int (length s)) inp = Ok (Some (string_bytes s), in2)" "delivers in2 rest br"
      using readFully2_law [of "length s" "replicate (length s) 0" inp "string_bytes s @ rest" br] i by (auto simp: string_bytes_def)
    then show ?thesis using False by (simp add: unmarshalString_def mapL_def bindL_def retL_def string_bytes_def comp_def)
  qed
qed

lemma unmarshalPrimitiveList_getsL:
  assumes "length xs < 2 ^ 31" "\<And>x. x \<in> set xs \<Longrightarrow> getsL item (enc x) (seen x)"
  shows "getsL (unmarshalPrimitiveList item) (bytes32 (word_of_nat (length xs)) @ concat (map enc xs)) (map seen xs)"
  unfolding unmarshalPrimitiveList_def
  using read_items_getsL [of xs item enc seen] assms(2) array_length_int [OF assms(1)]
  by (auto intro!: getsL_catch getsL_length)

lemma unmarshalPrimitiveMap_getsL:
  assumes "length es < 2 ^ 31" "entries_sorted es" "\<And>e. e \<in> set es \<Longrightarrow> utf_ok (fst e) \<and> getsL item (enc (snd e)) (seen (snd e))"
  shows "getsL (unmarshalPrimitiveMap item []) (bytes32 (word_of_nat (length es)) @ concat (map (\<lambda>e. utf_enc (fst e) @ enc (snd e)) es))
    (map (map_prod id seen) es)"
proof -
  have e: "getsL (bindL readUTF (\<lambda>k. mapL (\<lambda>v. (k, v)) item)) (utf_enc (fst e) @ enc (snd e)) (map_prod id seen e)" if "e \<in> set es" for e
    using assms(3) [OF that] by (cases e) (auto intro!: getsL_bind [OF utf.contracts(2)] getsL_map)
  have "entries_sorted (map (map_prod id seen) es)" using assms(2) by (simp add: entries_sorted_def)
  then have p: "map (map_prod id seen) es = fold (\<lambda>(k, v). PrimitiveMap_put k v) (map (map_prod id seen) es) []"
    using put_all [of "[]" "map (map_prod id seen) es"] by simp
  have r: "getsL (read_items (bindL readUTF (\<lambda>k. mapL (\<lambda>v. (k, v)) item)) (nat (sint (word_of_nat (length es) :: 32 word))))
      (concat (map (\<lambda>e. utf_enc (fst e) @ enc (snd e)) es)) (map (map_prod id seen) es)"
    using read_items_getsL [of es _ "\<lambda>e. utf_enc (fst e) @ enc (snd e)" "map_prod id seen", OF e] array_length_int [OF assms(1)] by simp
  show ?thesis
    unfolding unmarshalPrimitiveMap_def
    by (rule getsL_catch, rule getsL_length, rule getsL_map [OF r], rule p)
qed

text \<open>The value that follows a type code.\<close>

definition typed_get :: "nat \<Rightarrow> byte \<Rightarrow> data_input \<Rightarrow> (primitive \<times> data_input) result" where
  "typed_get n t =
      (if t = 0 then retL NullP
       else if t = BYTE_TYPE then mapL ByteP readByte
       else if t = BOOLEAN_TYPE then mapL BoolP readBoolean
       else if t = CHAR_TYPE then bindL readByte (\<lambda>_. mapL CharP readChar)
       else if t = SHORT_TYPE then mapL ShortP readShort
       else if t = INTEGER_TYPE then mapL IntP readInt
       else if t = LONG_TYPE then mapL LongP readLong
       else if t = FLOAT_TYPE then mapL FloatP readFloat
       else if t = DOUBLE_TYPE then mapL DoubleP readDouble
       else if t = BYTE_ARRAY_TYPE then bindL readInt (\<lambda>sz. mapL ByteArrayP (read_vector (sint sz)))
       else if t = STRING_TYPE then bindL readShort (\<lambda>sz. unmarshalString (sint sz))
       else if t = BIG_STRING_TYPE then bindL readInt (\<lambda>sz. unmarshalString (sint sz))
       else if t = LIST_TYPE then mapL ListP (unmarshalPrimitiveList (unmarshalPrimitive n))
       else if t = MAP_TYPE then mapL MapP (unmarshalPrimitiveMap (unmarshalPrimitive n) [])
       else (\<lambda>dataIn. Throw IOException))"

lemma unmarshalPrimitive_getsL: "getsL (typed_get n t) d v \<Longrightarrow> getsL (unmarshalPrimitive (Suc n)) (t # d) v"
  unfolding unmarshalPrimitive.simps typed_get_def
  by (rule getsL_catch, erule getsL_length)

declare unmarshalPrimitive.simps(2) [simp del]

lemma typed_get_simps [simp]:
  "typed_get n BYTE_TYPE = mapL ByteP readByte"
  "typed_get n BOOLEAN_TYPE = mapL BoolP readBoolean"
  "typed_get n CHAR_TYPE = bindL readByte (\<lambda>_. mapL CharP readChar)"
  "typed_get n SHORT_TYPE = mapL ShortP readShort"
  "typed_get n INTEGER_TYPE = mapL IntP readInt"
  "typed_get n LONG_TYPE = mapL LongP readLong"
  "typed_get n FLOAT_TYPE = mapL FloatP readFloat"
  "typed_get n DOUBLE_TYPE = mapL DoubleP readDouble"
  "typed_get n BYTE_ARRAY_TYPE = bindL readInt (\<lambda>sz. mapL ByteArrayP (read_vector (sint sz)))"
  "typed_get n STRING_TYPE = bindL readShort (\<lambda>sz. unmarshalString (sint sz))"
  "typed_get n BIG_STRING_TYPE = bindL readInt (\<lambda>sz. unmarshalString (sint sz))"
  "typed_get n LIST_TYPE = mapL ListP (unmarshalPrimitiveList (unmarshalPrimitive n))"
  "typed_get n MAP_TYPE = mapL MapP (unmarshalPrimitiveMap (unmarshalPrimitive n) [])"
  by (simp_all add: typed_get_def type_codes)

lemma string_getsL:
  assumes "length s < 2 ^ 31"
  shows "getsL (unmarshalPrimitive (Suc n)) (string_enc s) (if s = [] then NullP else StringP s)"
proof (cases "length s \<le> 8191")
  case True
  then show ?thesis using unmarshalString_getsL [of s]
    by (auto simp: string_enc_def string_length_short intro!: unmarshalPrimitive_getsL getsL_length)
next
  case False
  then show ?thesis using unmarshalString_getsL [of s]
    by (auto simp: string_enc_def array_length_int [OF assms] intro!: unmarshalPrimitive_getsL getsL_length)
qed

lemma scalar_getsL:
  "getsL (unmarshalPrimitive (Suc n)) (prim_enc (BoolP b)) (BoolP b)"
  "getsL (unmarshalPrimitive (Suc n)) (prim_enc (ByteP d)) (ByteP d)"
  "getsL (unmarshalPrimitive (Suc n)) (prim_enc (CharP c)) (CharP c)"
  "getsL (unmarshalPrimitive (Suc n)) (prim_enc (ShortP h)) (ShortP h)"
  "getsL (unmarshalPrimitive (Suc n)) (prim_enc (IntP i)) (IntP i)"
  "getsL (unmarshalPrimitive (Suc n)) (prim_enc (FloatP i)) (FloatP i)"
  "getsL (unmarshalPrimitive (Suc n)) (prim_enc (LongP l)) (LongP l)"
  "getsL (unmarshalPrimitive (Suc n)) (prim_enc (DoubleP l)) (DoubleP l)"
  unfolding prim_enc.simps
  by (rule unmarshalPrimitive_getsL, unfold typed_get_simps,
      (rule getsL_length)?, rule getsL_map [OF _ refl], rule bool.contracts byte.contracts chr.contracts short.contracts
        int.contracts float.contracts long.contracts double.contracts, rule TrueI)+

lemma array_getsL:
  assumes "length d < 2 ^ 31"
  shows "getsL (unmarshalPrimitive (Suc n)) (prim_enc (ByteArrayP d)) (ByteArrayP d)"
proof -
  have "getsL (read_vector (sint (word_of_nat (length d) :: 32 word))) d d"
    using assms read_vector_getsL [of d] by (simp add: array_length_int)
  from getsL_map [OF this refl, of ByteArrayP] show ?thesis
    unfolding prim_enc.simps by (intro unmarshalPrimitive_getsL, unfold typed_get_simps) (rule getsL_length)
qed

lemma list_getsL:
  assumes "prim_ok (ListP xs)" "\<And>x. x \<in> set xs \<Longrightarrow> getsL (unmarshalPrimitive n) (prim_enc x) (prim_seen x)"
  shows "getsL (unmarshalPrimitive (Suc n)) (prim_enc (ListP xs)) (prim_seen (ListP xs))"
  unfolding prim_enc.simps prim_seen.simps
  using unmarshalPrimitiveList_getsL [of xs _ prim_enc prim_seen] assms
  by (intro unmarshalPrimitive_getsL, unfold typed_get_simps) (auto intro!: getsL_map)

lemma map_getsL:
  assumes "length es < 2 ^ 31" "entries_sorted es"
    "\<And>e. e \<in> set es \<Longrightarrow> utf_ok (fst e) \<and> getsL (unmarshalPrimitive n) (prim_enc (snd e)) (prim_seen (snd e))"
  shows "getsL (unmarshalPrimitive (Suc n)) (prim_enc (MapP es)) (prim_seen (MapP es))"
proof -
  have e: "map (\<lambda>(k, e). utf_enc k @ e) (map (map_prod id prim_enc) es) = map entry_enc es" by (simp add: case_prod_beta)
  show ?thesis
    unfolding prim_enc.simps prim_seen.simps e
    using unmarshalPrimitiveMap_getsL [of es _ prim_enc prim_seen, OF assms]
    by (intro unmarshalPrimitive_getsL, unfold typed_get_simps) (auto intro!: getsL_map)
qed

lemma unmarshal_getsL: "prim_ok v \<Longrightarrow> prim_depth v \<le> n \<Longrightarrow> getsL (unmarshalPrimitive (Suc n)) (prim_enc v) (prim_seen v)"
proof (induction v arbitrary: n)
  case (MapP es)
  then obtain m where n: "n = Suc m" by (cases n) auto
  show ?case
  proof (rule map_getsL)
    fix e assume e: "e \<in> set es"
    have "foldr max (map snd (map (map_prod id prim_depth) es)) 0 < Suc m" using MapP.prems(2) unfolding n by simp
    then have "prim_depth (snd e) < Suc m" by (rule foldr_max_less) (use e in auto)
    moreover have "utf_ok (fst e) \<and> prim_ok (snd e)" using MapP.prems(1) e by (auto simp: list_all_iff case_prod_beta)
    moreover have "snd e \<in> Basic_BNFs.snds e" by (cases e) auto
    ultimately show "utf_ok (fst e) \<and> getsL (unmarshalPrimitive n) (prim_enc (snd e)) (prim_seen (snd e))"
      using MapP.IH [OF e, of "snd e" m] n by auto
  qed (use MapP.prems in auto)
next
  case (ListP xs)
  then obtain m where n: "n = Suc m" by (cases n) auto
  show ?case
  proof (rule list_getsL)
    fix x assume x: "x \<in> set xs"
    have "foldr max (map prim_depth xs) 0 < Suc m" using ListP.prems(2) unfolding n by simp
    then have "prim_depth x < Suc m" by (rule foldr_max_less) (use x in auto)
    then show "getsL (unmarshalPrimitive n) (prim_enc x) (prim_seen x)"
      using ListP.IH [OF x, of m] ListP.prems(1) x n by (auto simp: list_all_iff)
  qed (rule ListP.prems)
qed (simp_all only: prim_seen.simps prim_ok.simps scalar_getsL array_getsL string_getsL prim_enc.simps(10) not_False_eq_True simp_thms)

text \<open>The marshallers of maps and lists are codecs.\<close>

interpretation map_body: loose_codec "map_ok n" "map (map_prod id prim_seen)"
  "\<lambda>es. bytes32 (word_of_nat (length es)) @ concat (map entry_enc es)" "\<lambda>es. marshalMap (Some es)" "unmarshalMap (Suc n)"
proof
  fix es assume m: "map_ok n es"
  then have "list_all (\<lambda>(k, x). utf_ok k \<and> prim_ok x) es" by (auto simp: map_ok_def list_all_iff)
  then show "putsL (marshalMap (Some es)) (bytes32 (word_of_nat (length es)) @ concat (map entry_enc es))"
    unfolding marshalMap_def marshalPrimitiveMap_def
    using marshal_putsL(3) [of es] int.contracts(1) [OF TrueI] by (auto intro!: putsL_catch putsL_seq)
  show "getsL (unmarshalMap (Suc n)) (bytes32 (word_of_nat (length es)) @ concat (map entry_enc es)) (map (map_prod id prim_seen) es)"
    unfolding unmarshalMap_def using m unmarshal_getsL
    by (intro unmarshalPrimitiveMap_getsL) (auto simp: map_ok_def)
qed

interpretation list_body: loose_codec "\<lambda>xs. prim_ok (ListP xs) \<and> prim_depth (ListP xs) \<le> Suc n" "map prim_seen"
  "\<lambda>xs. bytes32 (word_of_nat (length xs)) @ concat (map prim_enc xs)" "\<lambda>xs. marshalList (Some xs)" "unmarshalList (Suc n)"
proof
  fix xs assume m: "prim_ok (ListP xs) \<and> prim_depth (ListP xs) \<le> Suc n"
  then have "list_all prim_ok xs" by (auto simp: list_all_iff)
  then show "putsL (marshalList (Some xs)) (bytes32 (word_of_nat (length xs)) @ concat (map prim_enc xs))"
    unfolding marshalList_def marshalPrimitiveList_def
    using marshal_putsL(2) [of xs] int.contracts(1) [OF TrueI] by (auto intro!: putsL_catch putsL_seq)
  have "getsL (unmarshalPrimitive (Suc n)) (prim_enc x) (prim_seen x)" if x: "x \<in> set xs" for x
  proof (rule unmarshal_getsL)
    have "foldr max (map prim_depth xs) 0 < Suc n" using m by simp
    then have "prim_depth x < Suc n" by (rule foldr_max_less) (use x in auto)
    then show "prim_depth x \<le> n" by simp
    show "prim_ok x" using m x by (auto simp: list_all_iff)
  qed
  then show "getsL (unmarshalList (Suc n)) (bytes32 (word_of_nat (length xs)) @ concat (map prim_enc xs)) (map prim_seen xs)"
    unfolding unmarshalList_def using m by (intro unmarshalPrimitiveList_getsL) auto
qed

section \<open>Sending what was received\<close>

definition tidy :: "(data_output \<Rightarrow> data_output result) \<Rightarrow> bool" where
  "tidy f \<longleftrightarrow> (\<exists>d. putsL f d) \<or> (\<forall>out. is_open out \<longrightarrow> f out = Throw IOException)"

lemma tidy_puts: "putsL f d \<Longrightarrow> tidy f"
  by (auto simp: tidy_def)

lemma tidy_seq: "tidy f \<Longrightarrow> tidy g \<Longrightarrow> tidy (seqL f g)"
  unfolding tidy_def putsL_def seqL_def
  by (elim disjE exE) (fastforce intro: exI [of _ "d @ e" for d e])+

lemma tidy_catch: "tidy f \<Longrightarrow> tidy (\<lambda>out. catch_io (f out))"
  by (auto simp: tidy_def putsL_def io_convert_def)

lemma tidy_marshal:
  shows "prim_ok v \<Longrightarrow> tidy (marshalPrimitive (prim_seen v))"
    and "list_all prim_ok xs \<Longrightarrow> tidy (marshalItems (map prim_seen xs))"
    and "list_all (\<lambda>(k, x). utf_ok k \<and> prim_ok x) es \<Longrightarrow> tidy (marshalEntries (map (map_prod id prim_seen) es))"
proof (induction v and xs and es rule: marshalPrimitive_marshalItems_marshalEntries.induct)
  case (11 s)
  then show ?case using marshal_putsL(1) [of "StringP s"]
    by (cases "s = []") (auto simp: tidy_def io_convert_def putsL_def)
next
  case (12 xs)
  then show ?case
    by (auto simp: list_all_iff intro!: tidy_catch tidy_seq tidy_puts [OF byte.contracts(1)] tidy_puts [OF int.contracts(1)])
next
  case (13 es)
  then show ?case
    by (auto simp: list_all_iff case_prod_beta id_def intro!: tidy_catch tidy_seq tidy_puts [OF byte.contracts(1)] tidy_puts [OF int.contracts(1)])
next
  case (17 k x es)
  then show ?case by (auto intro!: tidy_seq tidy_puts [OF utf.contracts(1)])
qed (auto simp: tidy_seq simp del: marshalPrimitive.simps intro: tidy_puts [OF putsL_ok] tidy_puts [OF marshal_putsL(1)])

lemma null_entry_throws:
  assumes "list_all (\<lambda>(k, x). utf_ok k \<and> prim_ok x) es" "(k, StringP []) \<in> set es" "is_open out"
  shows "marshalEntries (map (map_prod id prim_seen) es) out = Throw IOException"
  using assms
proof (induction es arbitrary: out)
  case (Cons e es)
  obtain j x where e: "e = (j, x)" by (cases e)
  have k: "writeUTF j out = Ok (appended out (utf_enc j))"
    using Cons.prems utf.contracts(1) [of j] by (auto simp: e putsL_def)
  have o: "is_open (appended out (utf_enc j))" using Cons.prems(3) by simp
  show ?case
  proof (cases "x = StringP []")
    case True
    then show ?thesis using k by (simp add: e seqL_def io_convert_def)
  next
    case False
    have "tidy (marshalPrimitive (prim_seen x))" using tidy_marshal(1) Cons.prems(1) by (simp add: e)
    then consider d where "putsL (marshalPrimitive (prim_seen x)) d"
      | "marshalPrimitive (prim_seen x) (appended out (utf_enc j)) = Throw IOException"
      using o unfolding tidy_def by blast
    then show ?thesis
    proof cases
      case (1 d)
      then have "marshalPrimitive (prim_seen x) (appended out (utf_enc j)) = Ok (appended (appended out (utf_enc j)) d)"
        using o by (simp add: putsL_def)
      then show ?thesis using Cons.IH [of "appended (appended out (utf_enc j)) d"] Cons.prems False k by (auto simp: e seqL_def)
    next
      case 2
      then show ?thesis using k by (simp add: e seqL_def)
    qed
  qed
qed simp

section \<open>The properties of a message\<close>

lemma marshal_map_bytes:
  assumes "map_ok n es"
  shows "marshal_map (Some es) [] = Ok (bytes32 (word_of_nat (length es)) @ concat (map entry_enc es))"
  using map_body.put_law [OF assms] by (simp add: marshal_map_def marshalMap_def putsL_def is_open_def appended_def)

lemma unmarshal_map_bytes:
  assumes "map_ok n es"
  shows "unmarshal_map (Suc n) old (bytes32 (word_of_nat (length es)) @ concat (map entry_enc es)) = Ok (map (map_prod id prim_seen) es)"
proof -
  let ?b = "bytes32 (word_of_nat (length es)) @ concat (map entry_enc es)"
  have "delivers \<lparr>is_base = Some [Data ?b], is_pushback = False\<rparr> (?b @ []) False" by (simp add: delivers_def broken_def)
  then obtain i where "unmarshalPrimitiveMap (unmarshalPrimitive (Suc n)) [] \<lparr>is_base = Some [Data ?b], is_pushback = False\<rparr> =
      Ok (map (map_prod id prim_seen) es, i)"
    using map_body.get_law [OF assms] unfolding getsL_def unmarshalMap_def by blast
  moreover have "?b \<noteq> []" by (simp add: bytes32_def)
  ultimately show ?thesis unfolding unmarshal_map_def by (simp only: if_False rbind_simps prod.case)
qed

lemma received_null_throws:
  assumes "map_ok n es" "(k, StringP []) \<in> set es"
  shows "beforeMarshal (map (map_prod id prim_seen) es) = Throw IOException"
proof -
  let ?out = "\<lparr>os_sink = Some [], os_closed = False, written = 0\<rparr>"
  have o: "is_open ?out" by (simp add: is_open_def)
  have "list_all (\<lambda>(k, x). utf_ok k \<and> prim_ok x) es" using assms by (auto simp: map_ok_def list_all_iff)
  then have "marshalEntries (map (map_prod id prim_seen) es) (appended ?out (bytes32 (word_of_nat (length es)))) = Throw IOException"
    using assms(2) o by (intro null_entry_throws) auto
  moreover have "writeInt (word_of_nat (length es)) ?out = Ok (appended ?out (bytes32 (word_of_nat (length es))))"
    using int.contracts(1) [OF TrueI] o by (simp add: putsL_def)
  ultimately have "marshalPrimitiveMap (map (map_prod id prim_seen) es) ?out = Throw IOException"
    by (simp add: marshalPrimitiveMap_def seqL_def io_convert_def)
  moreover have "es \<noteq> []" using assms(2) by auto
  ultimately show ?thesis by (simp add: beforeMarshal_def marshal_map_def io_convert_def)
qed

lemma properties_buffer:
  assumes "map_ok n es" "es \<noteq> []"
  obtains b where "b \<noteq> []" "beforeMarshal es = Ok b" "\<And>old. unmarshal_map (Suc n) old b = Ok (map (map_prod id prim_seen) es)"
proof (rule that)
  show "bytes32 (word_of_nat (length es)) @ concat (map entry_enc es) \<noteq> []" by (simp add: bytes32_def)
  show "beforeMarshal es = Ok (bytes32 (word_of_nat (length es)) @ concat (map entry_enc es))"
    using marshal_map_bytes [OF assms(1)] assms(2) by (simp add: beforeMarshal_def)
qed (rule unmarshal_map_bytes [OF assms(1)])

text \<open>
  \<^bold>\<open>C20.\<close> The properties of a message survive the wire and forwarding. For a map of sendable values (nested
  lists and maps included, strings short or big) \<open>beforeMarshal\<close> produces a buffer; the receiver, which reads it
  when \<open>copyDataStructure\<close> or an accessor asks for it, gets the map in the same order, every value unchanged
  except that an empty string arrives as null. The copy of a received message marshals to the same buffer if no
  value changed; if one of the properties was an empty string, sending the copy throws \<open>IOException\<close>. Marshalling the
  received message itself before its properties were read would send none.
\<close>

theorem properties_roundtrip:
  assumes "map_ok n es" "es \<noteq> []"
  shows "\<exists>buffer received copy.
    Message_beforeMarshal (Message_new\<lparr>properties := es, propertiesUnmarshaled := True\<rparr>) =
      Ok \<lparr>properties = es, marshalledProperties = buffer, propertiesUnmarshaled = True\<rparr> \<and>
    received = Message_afterUnmarshal (Message_new\<lparr>marshalledProperties := buffer\<rparr>) \<and>
    (\<exists>read. copyDataStructure (Suc n) received Message_new = Ok (read, copy) \<and> properties read = map (map_prod id prim_seen) es) \<and>
    properties copy = map (map_prod id prim_seen) es \<and>
    (map (map_prod id prim_seen) es = es \<longrightarrow> Message_beforeMarshal copy = Ok copy) \<and>
    ((k, StringP []) \<in> set es \<longrightarrow> Message_beforeMarshal copy = Throw IOException) \<and>
    Message_beforeMarshal received = Ok (Message_new\<lparr>propertiesUnmarshaled := False\<rparr>)"
proof -
  obtain b where b: "b \<noteq> []" "beforeMarshal es = Ok b" "\<And>old. unmarshal_map (Suc n) old b = Ok (map (map_prod id prim_seen) es)"
    using properties_buffer [OF assms] by metis
  have e: "beforeMarshal [] = Ok []" by (simp add: beforeMarshal_def)
  show ?thesis
    by (rule exI [of _ b], rule exI, rule exI [of _ "\<lparr>properties = map (map_prod id prim_seen) es, marshalledProperties = b,
        propertiesUnmarshaled = True\<rparr>"])
      (use b e received_null_throws [OF assms(1), of k] in \<open>auto simp: Message_beforeMarshal_def Message_afterUnmarshal_def
        copyDataStructure_def ensurePropertiesUnmarshaled_def Message_new_def\<close>)
qed

definition sample_properties :: "(string \<times> primitive) list" where
  "sample_properties = [(''a'', IntP 7), (''b'', ListP [BoolP True, MapP [(''x'', StringP ''y''), (''z'', CharP (CHR ''q''))]]), (''c'', StringP [])]"

lemma sample_properties_ok: "map_ok 2 sample_properties"
  by (simp add: map_ok_def sample_properties_def entries_sorted_def utf_ok_def utf_bytes_def utf_char_def byte_of_char_def)

theorem properties_roundtrip_witness:
  "\<exists>buffer read copy.
    Message_beforeMarshal (Message_new\<lparr>properties := sample_properties, propertiesUnmarshaled := True\<rparr>) =
      Ok \<lparr>properties = sample_properties, marshalledProperties = buffer, propertiesUnmarshaled = True\<rparr> \<and>
    copyDataStructure (Suc 2) (Message_afterUnmarshal (Message_new\<lparr>marshalledProperties := buffer\<rparr>)) Message_new = Ok (read, copy) \<and>
    properties copy = map (map_prod id prim_seen) sample_properties \<and> Message_beforeMarshal copy = Throw IOException"
proof -
  have "sample_properties \<noteq> []" "(''c'', StringP []) \<in> set sample_properties" by (simp_all add: sample_properties_def)
  then show ?thesis using properties_roundtrip [OF sample_properties_ok, of "''c''"] by blast
qed

end
