(* ===== verification/State_Tracker.thy ===== *)
theory State_Tracker
  imports Stl_Map LRU_Cache
begin

text \<open>
  \<open>activemq/state\<close>: what the failover transport remembers of the commands it sent, to replay it to the next
  broker. \<open>ConnectionState\<close>, \<open>SessionState\<close>, \<open>ProducerState\<close> and \<open>TransactionState\<close> are records; the
  transaction states, which a connection and its producers share by pointer, live in a store and are referred to by
  their address. \<open>disposed\<close> is left out: nothing shuts a tracked state down. The members of a command that
  the tracker only copies are its \<open>rest\<close>.
\<close>

section \<open>Commands\<close>

type_synonym payload = string

record connection_info =
  ci_id :: string
  ci_failoverReconnect :: bool
  ci_rest :: payload

record session_info =
  si_id :: session_id
  si_rest :: payload

record producer_info =
  pi_id :: object_id
  pi_rest :: payload

record consumer_info =
  co_id :: object_id
  co_prefetch :: int
  co_destination :: string
  co_rest :: payload

record destination_info =
  di_connection :: string
  di_destination :: string
  di_temporary :: bool
  di_operation :: nat

datatype tx_id = LocalTx session_id | XATx payload

record transaction_info =
  ti_connection :: "string option"
  ti_id :: tx_id
  ti_type :: nat
  ti_command :: int

text \<open>\<open>tm_ref\<close>: the address of the \<open>MessageId\<close> object; \<open>tm_size\<close>: \<open>getSize()\<close>.\<close>

record tracked_message =
  tm_ref :: nat
  tm_producer :: object_id
  tm_tx :: "tx_id option"
  tm_size :: int
  tm_rest :: payload

record message_pull =
  mp_destination :: "string option"
  mp_consumer :: "object_id option"
  mp_rest :: payload

datatype object = ConnectionObj string | SessionObj session_id | ConsumerObj object_id | ProducerObj object_id | OtherObj

datatype command =
    ConnectionInfo connection_info
  | SessionInfo session_info
  | ProducerInfo producer_info
  | ConsumerInfo consumer_info
  | DestinationInfo destination_info
  | RemoveInfo object
  | Message tracked_message
  | TransactionInfo transaction_info
  | MessagePull message_pull
  | ConsumerControl object_id int string
  | OtherCommand payload

definition TRANSACTION_STATE_BEGIN :: nat where "TRANSACTION_STATE_BEGIN = 0"
definition TRANSACTION_STATE_PREPARE :: nat where "TRANSACTION_STATE_PREPARE = 1"
definition TRANSACTION_STATE_COMMITONEPHASE :: nat where "TRANSACTION_STATE_COMMITONEPHASE = 2"
definition TRANSACTION_STATE_COMMITTWOPHASE :: nat where "TRANSACTION_STATE_COMMITTWOPHASE = 3"
definition TRANSACTION_STATE_ROLLBACK :: nat where "TRANSACTION_STATE_ROLLBACK = 4"
definition TRANSACTION_STATE_RECOVER :: nat where "TRANSACTION_STATE_RECOVER = 5"
definition TRANSACTION_STATE_FORGET :: nat where "TRANSACTION_STATE_FORGET = 6"
definition TRANSACTION_STATE_END :: nat where "TRANSACTION_STATE_END = 7"

lemmas transaction_states = TRANSACTION_STATE_BEGIN_def TRANSACTION_STATE_PREPARE_def TRANSACTION_STATE_COMMITONEPHASE_def
  TRANSACTION_STATE_COMMITTWOPHASE_def TRANSACTION_STATE_ROLLBACK_def TRANSACTION_STATE_RECOVER_def
  TRANSACTION_STATE_FORGET_def TRANSACTION_STATE_END_def

section \<open>The tracked state\<close>

record producer_state =
  ps_info :: producer_info
  ps_tx :: "nat option"

record transaction_state =
  ts_id :: tx_id
  ts_commands :: "command list"
  ts_producers :: "(object_id \<times> producer_state) list"

record session_state =
  ss_info :: session_info
  ss_producers :: "(object_id \<times> producer_state) list"
  ss_consumers :: "(object_id \<times> consumer_info) list"

record connection_state =
  cs_info :: connection_info
  cs_transactions :: "(session_id option \<times> nat) list"
  cs_sessions :: "(session_id \<times> session_state) list"
  cs_temps :: "destination_info list"
  cs_complete :: bool
  cs_recovering :: "(object_id \<times> consumer_info) list"

record tracker =
  connectionStates :: "(string \<times> connection_state) list"
  tx_store :: "transaction_state list"
  messageCache :: "(nat \<times> tracked_message) list"
  currentCacheSize :: int
  messagePullCache :: "(string \<times> message_pull) list"
  trackTransactions :: bool
  restoreSessions :: bool
  restoreConsumers :: bool
  restoreProducers :: bool
  restoreTransaction :: bool
  trackMessages :: bool
  trackTransactionProducers :: bool
  maxMessageCacheSize :: int
  maxMessagePullCacheSize :: int

definition ConnectionStateTracker_new :: tracker where
  "ConnectionStateTracker_new =
     \<lparr>connectionStates = [], tx_store = [], messageCache = [], currentCacheSize = 0, messagePullCache = [],
      trackTransactions = False, restoreSessions = True, restoreConsumers = True, restoreProducers = True,
      restoreTransaction = True, trackMessages = True, trackTransactionProducers = True,
      maxMessageCacheSize = 128 * 1024, maxMessagePullCacheSize = 10\<rparr>"

definition SessionState_new :: "session_info \<Rightarrow> session_state" where
  "SessionState_new info = \<lparr>ss_info = info, ss_producers = [], ss_consumers = []\<rparr>"

abbreviation conn_less :: "string \<Rightarrow> string \<Rightarrow> bool" where "conn_less \<equiv> id_less ConnectionId_compareTo"
abbreviation sess_less :: "session_id \<Rightarrow> session_id \<Rightarrow> bool" where "sess_less \<equiv> id_less SessionId_compareTo"
abbreviation prod_less :: "object_id \<Rightarrow> object_id \<Rightarrow> bool" where "prod_less \<equiv> id_less ProducerId_compareTo"
abbreviation cons_less :: "object_id \<Rightarrow> object_id \<Rightarrow> bool" where "cons_less \<equiv> id_less ConsumerId_compareTo"

definition addSession :: "session_info \<Rightarrow> connection_state \<Rightarrow> connection_state" where
  "addSession info cs = cs\<lparr>cs_sessions := stl_put sess_less (si_id info) (SessionState_new info) (cs_sessions cs)\<rparr>"

text \<open>The default session has the value -1.\<close>

definition ConnectionState_new :: "connection_info \<Rightarrow> connection_state" where
  "ConnectionState_new info =
     addSession \<lparr>si_id = (ci_id info, - 1), si_rest = ''''\<rparr>
       \<lparr>cs_info = info, cs_transactions = [], cs_sessions = [], cs_temps = [], cs_complete = True, cs_recovering = []\<rparr>"

definition addProducer :: "producer_info \<Rightarrow> session_state \<Rightarrow> session_state" where
  "addProducer info ss = ss\<lparr>ss_producers := stl_put prod_less (pi_id info) \<lparr>ps_info = info, ps_tx = None\<rparr> (ss_producers ss)\<rparr>"

definition addConsumer :: "consumer_info \<Rightarrow> session_state \<Rightarrow> session_state" where
  "addConsumer info ss = ss\<lparr>ss_consumers := stl_put cons_less (co_id info) info (ss_consumers ss)\<rparr>"

definition removeConsumer :: "object_id \<Rightarrow> session_state \<Rightarrow> session_state" where
  "removeConsumer k ss = ss\<lparr>ss_consumers := stl_remove cons_less k (ss_consumers ss)\<rparr>"

definition addTempDestination :: "destination_info \<Rightarrow> connection_state \<Rightarrow> connection_state" where
  "addTempDestination info cs = cs\<lparr>cs_temps := cs_temps cs @ [info]\<rparr>"

definition removeTempDestination :: "string \<Rightarrow> connection_state \<Rightarrow> connection_state" where
  "removeTempDestination d cs = cs\<lparr>cs_temps := filter (\<lambda>di. di_destination di \<noteq> d) (cs_temps cs)\<rparr>"

subsection \<open>Transaction states\<close>

definition update_tx :: "nat \<Rightarrow> (transaction_state \<Rightarrow> transaction_state) \<Rightarrow> tracker \<Rightarrow> tracker" where
  "update_tx a f st = st\<lparr>tx_store := (tx_store st)[a := f (tx_store st ! a)]\<rparr>"

definition addCommand :: "command \<Rightarrow> transaction_state \<Rightarrow> transaction_state" where
  "addCommand c ts = ts\<lparr>ts_commands := ts_commands ts @ [c]\<rparr>"

definition addProducerState :: "producer_state \<Rightarrow> transaction_state \<Rightarrow> transaction_state" where
  "addProducerState ps ts =
     ts\<lparr>ts_producers := stl_put prod_less (pi_id (ps_info ps)) (ps\<lparr>ps_tx := None\<rparr>) (ts_producers ts)\<rparr>"

definition TransactionState_clear :: "transaction_state \<Rightarrow> transaction_state" where
  "TransactionState_clear ts = ts\<lparr>ts_commands := [], ts_producers := []\<rparr>"

text \<open>\<open>removeProducer\<close> hands a producer that took part in a transaction over to it.\<close>

definition removeProducer :: "object_id \<Rightarrow> session_state \<Rightarrow> tracker \<Rightarrow> session_state \<times> tracker" where
  "removeProducer k ss st =
     (let ss' = ss\<lparr>ss_producers := stl_remove prod_less k (ss_producers ss)\<rparr>
      in case stl_find prod_less k (ss_producers ss) of
           None \<Rightarrow> (ss', st)
         | Some ps \<Rightarrow> (case ps_tx ps of None \<Rightarrow> (ss', st) | Some a \<Rightarrow> (ss', update_tx a (addProducerState ps) st)))"

text \<open>
  The transactions are keyed by the result of \<open>dynamic_pointer_cast<LocalTransactionId>\<close>, a null pointer for an XA
  transaction; the comparator dereferences its arguments.
\<close>

fun tx_key :: "tx_id \<Rightarrow> session_id option" where
  "tx_key (LocalTx t) = Some t"
| "tx_key (XATx x) = None"

definition tx_less :: "session_id option \<Rightarrow> session_id option \<Rightarrow> bool" where
  "tx_less a b = id_less LocalTransactionId_compareTo (the a) (the b)"

definition null_compared :: "session_id option \<Rightarrow> (session_id option \<times> nat) list \<Rightarrow> bool" where
  "null_compared k m \<longleftrightarrow> m \<noteq> [] \<and> (k = None \<or> None \<in> set (map fst m))"

definition getTransactionState :: "tx_id \<Rightarrow> connection_state \<Rightarrow> nat result" where
  "getTransactionState t cs =
     (if null_compared (tx_key t) (cs_transactions cs) then Throw MemoryFault else stl_get tx_less (tx_key t) (cs_transactions cs))"

definition addTransactionState :: "tx_id \<Rightarrow> nat \<Rightarrow> connection_state \<Rightarrow> connection_state result" where
  "addTransactionState t a cs =
     (if null_compared (tx_key t) (cs_transactions cs) then Throw MemoryFault
      else Ok (cs\<lparr>cs_transactions := stl_put tx_less (tx_key t) a (cs_transactions cs)\<rparr>))"

definition removeTransactionState :: "tx_id \<Rightarrow> connection_state \<Rightarrow> (nat option \<times> connection_state) result" where
  "removeTransactionState t cs =
     (if null_compared (tx_key t) (cs_transactions cs) then Throw MemoryFault
      else Ok (stl_find tx_less (tx_key t) (cs_transactions cs), cs\<lparr>cs_transactions := stl_remove tx_less (tx_key t) (cs_transactions cs)\<rparr>))"

section \<open>Tracking\<close>

text \<open>The answer of a handler: nothing, the marker, or a response to wait for; an exception leaves the changes made before it.\<close>

datatype tracked = Marker | Waiting transaction_info

type_synonym handler = "tracker \<Rightarrow> tracked option result \<times> tracker"

definition get_connection :: "string \<Rightarrow> tracker \<Rightarrow> connection_state result" where
  "get_connection c st = stl_get conn_less c (connectionStates st)"

definition set_connection :: "string \<Rightarrow> connection_state \<Rightarrow> tracker \<Rightarrow> tracker" where
  "set_connection c cs st = st\<lparr>connectionStates := stl_put conn_less c cs (connectionStates st)\<rparr>"

definition with_connection :: "string \<Rightarrow> (connection_state \<Rightarrow> handler) \<Rightarrow> handler" where
  "with_connection c f st = (case get_connection c st of Throw e \<Rightarrow> (Throw e, st) | Ok cs \<Rightarrow> f cs st)"

definition with_session :: "session_id \<Rightarrow> (connection_state \<Rightarrow> session_state \<Rightarrow> handler) \<Rightarrow> handler" where
  "with_session s f = with_connection (fst s) (\<lambda>cs st.
     case stl_get sess_less s (cs_sessions cs) of Throw e \<Rightarrow> (Throw e, st) | Ok ss \<Rightarrow> f cs ss st)"

definition set_session :: "session_id \<Rightarrow> session_state \<Rightarrow> connection_state \<Rightarrow> tracker \<Rightarrow> tracker" where
  "set_session s ss cs = set_connection (fst s) (cs\<lparr>cs_sessions := stl_put sess_less s ss (cs_sessions cs)\<rparr>)"

abbreviation marked :: "tracker \<Rightarrow> tracked option result \<times> tracker" where
  "marked st \<equiv> (Ok (Some Marker), st)"

definition processDestinationInfo :: "destination_info \<Rightarrow> handler" where
  "processDestinationInfo info = with_connection (di_connection info) (\<lambda>cs st.
     marked (if di_temporary info then set_connection (di_connection info) (addTempDestination info cs) st else st))"

definition processRemoveDestination :: "destination_info \<Rightarrow> handler" where
  "processRemoveDestination info = with_connection (di_connection info) (\<lambda>cs st.
     marked (if di_temporary info
             then set_connection (di_connection info) (removeTempDestination (di_destination info) cs) st else st))"

definition processProducerInfo :: "producer_info \<Rightarrow> handler" where
  "processProducerInfo info = with_session (parent_session (pi_id info)) (\<lambda>cs ss st.
     marked (set_session (parent_session (pi_id info)) (addProducer info ss) cs st))"

definition processRemoveProducer :: "object_id \<Rightarrow> handler" where
  "processRemoveProducer k = with_session (parent_session k) (\<lambda>cs ss st.
     case removeProducer k ss st of (ss', st') \<Rightarrow> marked (set_session (parent_session k) ss' cs st'))"

definition processConsumerInfo :: "consumer_info \<Rightarrow> handler" where
  "processConsumerInfo info = with_session (parent_session (co_id info)) (\<lambda>cs ss st.
     marked (set_session (parent_session (co_id info)) (addConsumer info ss) cs st))"

definition processRemoveConsumer :: "object_id \<Rightarrow> handler" where
  "processRemoveConsumer k = with_session (parent_session k) (\<lambda>cs ss st.
     marked (set_session (parent_session k) (removeConsumer k ss)
       (cs\<lparr>cs_recovering := stl_remove cons_less k (cs_recovering cs)\<rparr>) st))"

definition processSessionInfo :: "session_info \<Rightarrow> handler" where
  "processSessionInfo info = with_connection (fst (si_id info)) (\<lambda>cs st.
     marked (set_connection (fst (si_id info)) (addSession info cs) st))"

definition processRemoveSession :: "session_id \<Rightarrow> handler" where
  "processRemoveSession s = with_connection (fst s) (\<lambda>cs st.
     marked (set_connection (fst s) (cs\<lparr>cs_sessions := stl_remove sess_less s (cs_sessions cs)\<rparr>) st))"

definition processConnectionInfo :: "connection_info \<Rightarrow> handler" where
  "processConnectionInfo info st = marked (set_connection (ci_id info) (ConnectionState_new info) st)"

definition processRemoveConnection :: "string \<Rightarrow> handler" where
  "processRemoveConnection c st = marked (st\<lparr>connectionStates := stl_remove conn_less c (connectionStates st)\<rparr>)"

text \<open>\<open>MessageCache\<close>: a \<open>LinkedHashMap\<close> whose eldest entry is evicted while the size of the messages is too large.\<close>

definition MessageCache_put :: "tracked_message \<Rightarrow> tracker \<Rightarrow> tracker" where
  "MessageCache_put m st =
     (let es = LinkedHashMap_putImpl False (tm_ref m) m (messageCache st)
      in if currentCacheSize st > maxMessageCacheSize st
         then st\<lparr>messageCache := unlink (fst (hd es)) es, currentCacheSize := currentCacheSize st - tm_size (snd (hd es))\<rparr>
         else st\<lparr>messageCache := es\<rparr>)"

text \<open>The producer of a message in a transaction notes the transaction, in case it is closed before the commit.\<close>

definition setTransactionState :: "object_id \<Rightarrow> nat \<Rightarrow> handler" where
  "setTransactionState p a = with_session (parent_session p) (\<lambda>cs ss st.
     case stl_get prod_less p (ss_producers ss) of
       Throw e \<Rightarrow> (Throw e, st)
     | Ok ps \<Rightarrow> marked (set_session (parent_session p)
         (ss\<lparr>ss_producers := stl_put prod_less p (ps\<lparr>ps_tx := Some a\<rparr>) (ss_producers ss)\<rparr>) cs st))"

definition processMessage :: "tracked_message \<Rightarrow> handler" where
  "processMessage m st =
     (case tm_tx m of
        Some t \<Rightarrow>
          if trackTransactions st then
            with_connection (fst (tm_producer m)) (\<lambda>cs st.
              case getTransactionState t cs of
                Throw e \<Rightarrow> (Throw e, st)
              | Ok a \<Rightarrow>
                  let st1 = update_tx a (addCommand (Message m)) st
                  in if \<not> trackTransactionProducers st then marked st1
                     else setTransactionState (tm_producer m) a st1) st
          else (Ok None, if trackMessages st then MessageCache_put m st else st)
      | None \<Rightarrow> (Ok None, if trackMessages st then MessageCache_put m st else st))"

definition processBeginTransaction :: "transaction_info \<Rightarrow> handler" where
  "processBeginTransaction info st =
     (if \<not> trackTransactions st then (Ok None, st)
      else case ti_connection info of
        None \<Rightarrow> marked st
      | Some c \<Rightarrow> with_connection c (\<lambda>cs st.
          case addTransactionState (ti_id info) (length (tx_store st)) cs of
            Throw e \<Rightarrow> (Throw e, st)
          | Ok cs' \<Rightarrow>
              let st1 = set_connection c cs' (st\<lparr>tx_store := tx_store st @ [\<lparr>ts_id = ti_id info, ts_commands = [], ts_producers = []\<rparr>]\<rparr>)
              in case getTransactionState (ti_id info) cs' of
                   Throw e \<Rightarrow> (Throw e, st1)
                 | Ok a \<Rightarrow> marked (update_tx a (addCommand (TransactionInfo info)) st1)) st)"

text \<open>What the other transaction handlers share: note the command in the transaction, and what they answer.\<close>

definition note_in_transaction :: "transaction_info \<Rightarrow> tracked option \<Rightarrow> tracked option \<Rightarrow> handler" where
  "note_in_transaction info noted missing st =
     (if \<not> trackTransactions st then (Ok None, st)
      else case ti_connection info of
        None \<Rightarrow> (Ok missing, st)
      | Some c \<Rightarrow> with_connection c (\<lambda>cs st.
          case getTransactionState (ti_id info) cs of
            Throw e \<Rightarrow> (Throw e, st)
          | Ok a \<Rightarrow> (Ok noted, update_tx a (addCommand (TransactionInfo info)) st)) st)"

definition processPrepareTransaction :: "transaction_info \<Rightarrow> handler" where
  "processPrepareTransaction info = note_in_transaction info (Some Marker) (Some Marker)"

definition processEndTransaction :: "transaction_info \<Rightarrow> handler" where
  "processEndTransaction info = note_in_transaction info (Some Marker) (Some Marker)"

definition processCommitTransactionOnePhase :: "transaction_info \<Rightarrow> handler" where
  "processCommitTransactionOnePhase info = note_in_transaction info (Some (Waiting info)) None"

definition processCommitTransactionTwoPhase :: "transaction_info \<Rightarrow> handler" where
  "processCommitTransactionTwoPhase info = note_in_transaction info (Some (Waiting info)) None"

definition processRollbackTransaction :: "transaction_info \<Rightarrow> handler" where
  "processRollbackTransaction info = note_in_transaction info (Some (Waiting info)) None"

text \<open>\<open>RemoveTransactionAction::run\<close> and \<open>Tracked::onResponse\<close>, when the response to a commit or rollback arrives\<close>

definition RemoveTransactionAction_run :: "transaction_info \<Rightarrow> tracker \<Rightarrow> unit result \<times> tracker" where
  "RemoveTransactionAction_run info st =
     (case ti_connection info of
        None \<Rightarrow> (Throw MemoryFault, st)
      | Some c \<Rightarrow>
          (case get_connection c st of
             Throw e \<Rightarrow> (Throw e, st)
           | Ok cs \<Rightarrow>
               (case removeTransactionState (ti_id info) cs of
                  Throw e \<Rightarrow> (Throw e, st)
                | Ok (found, cs') \<Rightarrow>
                    (let st1 = set_connection c cs' st
                     in (Ok (), case found of None \<Rightarrow> st1 | Some a \<Rightarrow> update_tx a TransactionState_clear st1)))))"

definition Tracked_onResponse :: "tracked \<Rightarrow> tracker \<Rightarrow> unit result \<times> tracker" where
  "Tracked_onResponse t st =
     (case t of
        Marker \<Rightarrow> (Ok (), st)
      | Waiting info \<Rightarrow>
          (case RemoveTransactionAction_run info st of
             (Throw e, st') \<Rightarrow> (Throw (if e = MemoryFault then e else ActiveMQException), st')
           | (Ok _, st') \<Rightarrow> (Ok (), st')))"

definition ConsumerId_toString :: "object_id \<Rightarrow> string" where
  "ConsumerId_toString = (\<lambda>(c, s, v). c @ '':'' @ to_string s @ '':'' @ to_string v)"

definition MessagePullCache_put :: "string \<Rightarrow> message_pull \<Rightarrow> tracker \<Rightarrow> tracker" where
  "MessagePullCache_put k p st =
     (let es = LinkedHashMap_putImpl False k p (messagePullCache st)
      in st\<lparr>messagePullCache := if int (length es) > maxMessagePullCacheSize st then unlink (fst (hd es)) es else es\<rparr>)"

definition processMessagePull :: "message_pull \<Rightarrow> handler" where
  "processMessagePull p st =
     (case (mp_destination p, mp_consumer p) of
        (Some d, Some k) \<Rightarrow> (Ok None, MessagePullCache_put (d @ ''::'' @ ConsumerId_toString k) p st)
      | _ \<Rightarrow> (Ok None, st))"

text \<open>\<open>CommandVisitorAdapter\<close>: the dispatch on the kind of the command\<close>

definition processTransactionInfo :: "transaction_info \<Rightarrow> handler" where
  "processTransactionInfo info =
     (let t = ti_type info in
      if t = TRANSACTION_STATE_BEGIN then processBeginTransaction info
      else if t = TRANSACTION_STATE_COMMITONEPHASE then processCommitTransactionOnePhase info
      else if t = TRANSACTION_STATE_COMMITTWOPHASE then processCommitTransactionTwoPhase info
      else if t = TRANSACTION_STATE_END then processEndTransaction info
      else if t = TRANSACTION_STATE_FORGET then (\<lambda>st. (Ok None, st))
      else if t = TRANSACTION_STATE_PREPARE then processPrepareTransaction info
      else if t = TRANSACTION_STATE_RECOVER then (\<lambda>st. (Ok None, st))
      else if t = TRANSACTION_STATE_ROLLBACK then processRollbackTransaction info
      else (\<lambda>st. (Throw ActiveMQException, st)))"

fun processRemoveInfo :: "object \<Rightarrow> handler" where
  "processRemoveInfo (ConnectionObj c) = processRemoveConnection c"
| "processRemoveInfo (SessionObj s) = processRemoveSession s"
| "processRemoveInfo (ConsumerObj k) = processRemoveConsumer k"
| "processRemoveInfo (ProducerObj k) = processRemoveProducer k"
| "processRemoveInfo OtherObj = (\<lambda>st. (Throw ActiveMQException, st))"

text \<open>\<open>Command::visit\<close>. A \<open>DestinationInfo\<close> is processed as an addition whatever its operation is.\<close>

fun visit :: "command \<Rightarrow> handler" where
  "visit (ConnectionInfo info) = processConnectionInfo info"
| "visit (SessionInfo info) = processSessionInfo info"
| "visit (ProducerInfo info) = processProducerInfo info"
| "visit (ConsumerInfo info) = processConsumerInfo info"
| "visit (DestinationInfo info) = processDestinationInfo info"
| "visit (RemoveInfo x) = processRemoveInfo x"
| "visit (Message m) = processMessage m"
| "visit (TransactionInfo info) = processTransactionInfo info"
| "visit (MessagePull p) = processMessagePull p"
| "visit (ConsumerControl k p d) = (\<lambda>st. (Ok None, st))"
| "visit (OtherCommand x) = (\<lambda>st. (Ok None, st))"

definition track :: "command \<Rightarrow> handler" where
  "track c st = (case visit c st of (r, st') \<Rightarrow> (catch_io r, st'))"

definition trackBack :: "command \<Rightarrow> tracker \<Rightarrow> tracker" where
  "trackBack c st =
     (case c of
        Message m \<Rightarrow> if trackMessages st \<and> tm_tx m = None then st\<lparr>currentCacheSize := currentCacheSize st + tm_size m\<rparr> else st
      | _ \<Rightarrow> st)"

section \<open>Replaying\<close>

text \<open>What a replay does, in order: \<open>transport->oneway(command)\<close>, or a response handed to the listener.\<close>

datatype action = Send command | Respond int

type_synonym replay = "tracker \<Rightarrow> action list \<times> unit result \<times> tracker"

definition replay_then :: "replay \<Rightarrow> replay \<Rightarrow> replay" where
  "replay_then f g st =
     (case f st of
        (as, Throw e, st') \<Rightarrow> (as, Throw e, st')
      | (as, Ok _, st') \<Rightarrow> (case g st' of (bs, r, st'') \<Rightarrow> (as @ bs, r, st'')))"

definition replay_skip :: replay where "replay_skip st = ([], Ok (), st)"

definition oneway :: "command \<Rightarrow> replay" where "oneway c st = ([Send c], Ok (), st)"

fun replay_each :: "('a \<Rightarrow> replay) \<Rightarrow> 'a list \<Rightarrow> replay" where
  "replay_each f [] = replay_skip"
| "replay_each f (x # xs) = replay_then (f x) (replay_each f xs)"

definition doRestoreTempDestinations :: "connection_state \<Rightarrow> replay" where
  "doRestoreTempDestinations cs = replay_each (\<lambda>di. oneway (DestinationInfo di)) (cs_temps cs)"

definition doRestoreProducers :: "session_state \<Rightarrow> replay" where
  "doRestoreProducers ss = replay_each (\<lambda>(_, ps). oneway (ProducerInfo (ps_info ps))) (ss_producers ss)"

text \<open>\<open>version\<close>: that of the wire format of the transport.\<close>

definition restoreConsumer :: "int \<Rightarrow> string \<Rightarrow> bool \<Rightarrow> consumer_info \<Rightarrow> replay" where
  "restoreConsumer version c complete info =
     (if \<not> complete \<and> co_prefetch info > 0 \<and> version > 5
      then replay_then
        (\<lambda>st. case get_connection c st of
           Throw e \<Rightarrow> ([], Throw e, st)
         | Ok cs \<Rightarrow> ([], Ok (), set_connection c (cs\<lparr>cs_recovering := stl_put cons_less (co_id info) info (cs_recovering cs)\<rparr>) st))
        (oneway (ConsumerInfo (info\<lparr>co_prefetch := 0\<rparr>)))
      else oneway (ConsumerInfo info))"

definition doRestoreConsumers :: "int \<Rightarrow> session_state \<Rightarrow> replay" where
  "doRestoreConsumers version ss st =
     (let c = fst (si_id (ss_info ss))
      in case get_connection c st of
           Throw e \<Rightarrow> ([], Throw e, st)
         | Ok cs \<Rightarrow> replay_each (\<lambda>(_, info). restoreConsumer version c (cs_complete cs) info) (ss_consumers ss) st)"

definition doRestoreSessions :: "int \<Rightarrow> connection_state \<Rightarrow> replay" where
  "doRestoreSessions version cs =
     replay_each (\<lambda>(_, ss).
       replay_then (oneway (SessionInfo (ss_info ss)))
         (replay_then (\<lambda>st. if restoreProducers st then doRestoreProducers ss st else replay_skip st)
           (\<lambda>st. if restoreConsumers st then doRestoreConsumers version ss st else replay_skip st))) (cs_sessions cs)"

text \<open>A transaction that ends with a one-phase commit is in doubt; it is not replayed but reported as rolled back.\<close>

definition in_doubt :: "command \<Rightarrow> transaction_info option" where
  "in_doubt c = (case c of TransactionInfo info \<Rightarrow> if ti_type info = TRANSACTION_STATE_COMMITONEPHASE then Some info else None | _ \<Rightarrow> None)"

definition restoreTransactionState :: "transaction_state \<Rightarrow> replay" where
  "restoreTransactionState ts =
     replay_then (replay_each (\<lambda>(_, ps). oneway (ProducerInfo (ps_info ps))) (ts_producers ts))
       (replay_then (replay_each oneway (ts_commands ts))
         (replay_each (\<lambda>(_, ps). oneway (RemoveInfo (ProducerObj (pi_id (ps_info ps))))) (ts_producers ts)))"

fun restore_transactions :: "transaction_state list \<Rightarrow> transaction_info list \<Rightarrow> replay" where
  "restore_transactions [] toRollback = (\<lambda>st. (map (\<lambda>info. Respond (ti_command info)) toRollback, Ok (), st))"
| "restore_transactions (ts # rest) toRollback =
     (if ts_commands ts = [] then (\<lambda>st. ([], Throw NoSuchElementException, st))
      else case in_doubt (last (ts_commands ts)) of
        Some info \<Rightarrow> restore_transactions rest (toRollback @ [info])
      | None \<Rightarrow> replay_then (restoreTransactionState ts) (restore_transactions rest toRollback))"

definition doRestoreTransactions :: "connection_state \<Rightarrow> replay" where
  "doRestoreTransactions cs st = restore_transactions (map (\<lambda>(_, a). tx_store st ! a) (cs_transactions cs)) [] st"

definition restore_connection :: "int \<Rightarrow> string \<Rightarrow> replay" where
  "restore_connection version c st =
     (case get_connection c st of
        Throw e \<Rightarrow> ([], Throw e, st)
      | Ok cs \<Rightarrow>
          let cs1 = cs\<lparr>cs_info := (cs_info cs)\<lparr>ci_failoverReconnect := True\<rparr>\<rparr>
          in replay_then (oneway (ConnectionInfo (cs_info cs1)))
               (replay_then (doRestoreTempDestinations cs1)
                 (replay_then (\<lambda>st. if restoreSessions st then doRestoreSessions version cs1 st else replay_skip st)
                   (\<lambda>st. if restoreTransaction st then doRestoreTransactions cs1 st else replay_skip st)))
               (set_connection c cs1 st))"

definition restore :: "int \<Rightarrow> replay" where
  "restore version st =
     (case replay_then (replay_each (restore_connection version) (map fst (connectionStates st)))
        (replay_then (\<lambda>st. replay_each (\<lambda>(_, m). oneway (Message m)) (messageCache st) st)
          (\<lambda>st. replay_each (\<lambda>(_, p). oneway (MessagePull p)) (messagePullCache st) st)) st of
        (as, r, st') \<Rightarrow> (as, catch_io r, st'))"

definition connectionInterruptProcessingComplete :: "string \<Rightarrow> replay" where
  "connectionInterruptProcessingComplete c st =
     (case get_connection c st of
        Throw e \<Rightarrow> ([], Throw e, st)
      | Ok cs \<Rightarrow>
          (map (\<lambda>(k, info). Send (ConsumerControl k (co_prefetch info) (co_destination info))) (cs_recovering cs), Ok (),
           set_connection c (cs\<lparr>cs_complete := True, cs_recovering := []\<rparr>) st))"

definition transportInterrupted :: "tracker \<Rightarrow> tracker" where
  "transportInterrupted st = st\<lparr>connectionStates := map (\<lambda>(c, cs). (c, cs\<lparr>cs_complete := False\<rparr>)) (connectionStates st)\<rparr>"

end
