(* ===== verification/Broker_View.thy ===== *)
theory Broker_View
  imports State_Tracker
begin

text \<open>
  What a broker knows of its clients: the connections with their temporary destinations, sessions, producers and
  consumers, as partial functions, and how the commands change it. The tracker of \<open>activemq/state\<close> implements
  this abstract machine: tracking a command changes the view of the tracked state as the command changes the
  broker. Ids that differ in the case of letters only are one id, as for the comparators of the tracker.
\<close>

section \<open>The broker\<close>

record broker_session =
  bs_info :: session_info
  bs_producers :: "object_id \<Rightarrow> producer_info option"
  bs_consumers :: "object_id \<Rightarrow> consumer_info option"

record broker_connection =
  bc_info :: connection_info
  bc_temps :: "string set"
  bc_sessions :: "session_id \<Rightarrow> broker_session option"

type_synonym broker = "string \<Rightarrow> broker_connection option"

definition new_session :: "session_info \<Rightarrow> broker_session" where
  "new_session info = \<lparr>bs_info = info, bs_producers = Map.empty, bs_consumers = Map.empty\<rparr>"

definition new_connection :: "connection_info \<Rightarrow> broker_connection" where
  "new_connection info = \<lparr>bc_info = info, bc_temps = {},
     bc_sessions = [canon_id (ci_id info, - 1) \<mapsto> new_session \<lparr>si_id = (ci_id info, - 1), si_rest = ''''\<rparr>]\<rparr>"

definition on_connection :: "string \<Rightarrow> (broker_connection \<Rightarrow> broker_connection) \<Rightarrow> broker \<Rightarrow> broker" where
  "on_connection c f b = (case b (upper c) of None \<Rightarrow> b | Some bc \<Rightarrow> b(upper c \<mapsto> f bc))"

definition upd_session :: "session_id \<Rightarrow> (broker_session \<Rightarrow> broker_session) \<Rightarrow> broker_connection \<Rightarrow> broker_connection" where
  "upd_session s f bc =
     (case bc_sessions bc (canon_id s) of None \<Rightarrow> bc | Some bs \<Rightarrow> bc\<lparr>bc_sessions := (bc_sessions bc)(canon_id s \<mapsto> f bs)\<rparr>)"

abbreviation on_session :: "session_id \<Rightarrow> (broker_session \<Rightarrow> broker_session) \<Rightarrow> broker \<Rightarrow> broker" where
  "on_session s f \<equiv> on_connection (fst s) (upd_session s f)"

definition temp_op :: "destination_info \<Rightarrow> string set \<Rightarrow> string set" where
  "temp_op info ds = (if di_operation info = 0 then insert (di_destination info) ds else ds - {di_destination info})"

fun broker_step :: "command \<Rightarrow> broker \<Rightarrow> broker" where
  "broker_step (ConnectionInfo info) b = b(upper (ci_id info) \<mapsto> new_connection info)"
| "broker_step (SessionInfo info) b =
     on_connection (fst (si_id info)) (\<lambda>bc. bc\<lparr>bc_sessions := (bc_sessions bc)(canon_id (si_id info) \<mapsto> new_session info)\<rparr>) b"
| "broker_step (ProducerInfo info) b =
     on_session (parent_session (pi_id info)) (\<lambda>bs. bs\<lparr>bs_producers := (bs_producers bs)(canon_id (pi_id info) \<mapsto> info)\<rparr>) b"
| "broker_step (ConsumerInfo info) b =
     on_session (parent_session (co_id info)) (\<lambda>bs. bs\<lparr>bs_consumers := (bs_consumers bs)(canon_id (co_id info) \<mapsto> info)\<rparr>) b"
| "broker_step (DestinationInfo info) b =
     (if di_temporary info then on_connection (di_connection info) (\<lambda>bc. bc\<lparr>bc_temps := temp_op info (bc_temps bc)\<rparr>) b else b)"
| "broker_step (RemoveInfo (ConnectionObj c)) b = b(upper c := None)"
| "broker_step (RemoveInfo (SessionObj s)) b = on_connection (fst s) (\<lambda>bc. bc\<lparr>bc_sessions := (bc_sessions bc)(canon_id s := None)\<rparr>) b"
| "broker_step (RemoveInfo (ConsumerObj k)) b =
     on_session (parent_session k) (\<lambda>bs. bs\<lparr>bs_consumers := (bs_consumers bs)(canon_id k := None)\<rparr>) b"
| "broker_step (RemoveInfo (ProducerObj k)) b =
     on_session (parent_session k) (\<lambda>bs. bs\<lparr>bs_producers := (bs_producers bs)(canon_id k := None)\<rparr>) b"
| "broker_step (ConsumerControl k p d) b =
     on_session (parent_session k) (\<lambda>bs. bs\<lparr>bs_consumers :=
       (bs_consumers bs)(canon_id k := map_option (\<lambda>info. info\<lparr>co_prefetch := p\<rparr>) (bs_consumers bs (canon_id k)))\<rparr>) b"
| "broker_step c b = b"

section \<open>The view of a tracker\<close>

definition session_view :: "session_state \<Rightarrow> broker_session" where
  "session_view ss = \<lparr>bs_info = ss_info ss, bs_producers = map_option ps_info \<circ> stl_abs canon_id (ss_producers ss),
     bs_consumers = stl_abs canon_id (ss_consumers ss)\<rparr>"

definition connection_view :: "connection_state \<Rightarrow> broker_connection" where
  "connection_view cs = \<lparr>bc_info = cs_info cs, bc_temps = fold temp_op (cs_temps cs) {},
     bc_sessions = map_option session_view \<circ> stl_abs canon_id (cs_sessions cs)\<rparr>"

definition view :: "tracker \<Rightarrow> broker" where
  "view st = map_option connection_view \<circ> stl_abs upper (connectionStates st)"

text \<open>The invariant of the tracker; the ids have no white space.\<close>

definition member_ok :: "session_id \<Rightarrow> object_id \<Rightarrow> object_id \<Rightarrow> bool" where
  "member_ok s k k' \<longleftrightarrow> canon_id k' = canon_id k \<and> canon_id (parent_session k) = canon_id s \<and> plain_id k'"

definition session_ok :: "session_id \<Rightarrow> session_state \<Rightarrow> bool" where
  "session_ok s ss \<longleftrightarrow> canon_id (si_id (ss_info ss)) = canon_id s \<and> plain_id (si_id (ss_info ss)) \<and>
     stl_ok ProducerId_compareTo plain_id (ss_producers ss) \<and> stl_ok ConsumerId_compareTo plain_id (ss_consumers ss) \<and>
     (\<forall>(k, ps) \<in> set (ss_producers ss). member_ok s k (pi_id (ps_info ps))) \<and>
     (\<forall>(k, info) \<in> set (ss_consumers ss). member_ok s k (co_id info))"

definition connection_ok :: "string \<Rightarrow> connection_state \<Rightarrow> bool" where
  "connection_ok c cs \<longleftrightarrow> upper (ci_id (cs_info cs)) = upper c \<and> plain (ci_id (cs_info cs)) \<and>
     stl_ok SessionId_compareTo plain_id (cs_sessions cs) \<and>
     (\<forall>(s, ss) \<in> set (cs_sessions cs). upper (fst s) = upper c \<and> session_ok s ss) \<and>
     (\<forall>di \<in> set (cs_temps cs). upper (di_connection di) = upper c \<and> di_temporary di) \<and>
     stl_abs canon_id (cs_sessions cs) (canon_id (c, - 1)) \<noteq> None"

definition objects_ok :: "tracker \<Rightarrow> bool" where
  "objects_ok st \<longleftrightarrow> stl_ok ConnectionId_compareTo plain (connectionStates st) \<and>
     (\<forall>(c, cs) \<in> set (connectionStates st). connection_ok c cs)"

lemma canon_parent: "canon_id (parent_session k) = parent_session (canon_id k)"
  by (simp add: canon_id_def parent_session_def)

lemma fst_canon [simp]: "fst (canon_id p) = upper (fst p)"
  by (simp add: canon_id_def)

lemma fst_parent [simp]: "fst (parent_session k) = fst k"
  by (simp add: parent_session_def)

lemma plain_parent [simp]: "plain_id (parent_session k) = plain_id k"
  by (simp add: plain_id_def)

lemma session_ok_canon: "canon_id s = canon_id s' \<Longrightarrow> session_ok s ss = session_ok s' ss"
  by (simp add: session_ok_def member_ok_def)

lemma connection_ok_canon: "upper c = upper c' \<Longrightarrow> connection_ok c cs = connection_ok c' cs"
  by (simp add: connection_ok_def canon_id_def)

section \<open>Reading and writing the tracked state\<close>

lemma get_connection_view:
  assumes "objects_ok st" "plain c"
  shows "case get_connection c st of
      Throw e \<Rightarrow> e = NoSuchElementException \<and> view st (upper c) = None
    | Ok cs \<Rightarrow> view st (upper c) = Some (connection_view cs) \<and> connection_ok c cs"
proof -
  have o: "stl_ok ConnectionId_compareTo plain (connectionStates st)" using assms(1) by (simp add: objects_ok_def)
  have f: "stl_find conn_less c (connectionStates st) = stl_abs upper (connectionStates st) (upper c)"
    by (rule conn.find_abs [OF o assms(2)])
  show ?thesis
  proof (cases "stl_find conn_less c (connectionStates st)")
    case None
    then show ?thesis using f by (simp add: get_connection_def stl_get_def view_def)
  next
    case (Some cs)
    obtain j where "(j, cs) \<in> set (connectionStates st)" "upper j = upper c" using conn.find_mem [OF o assms(2) Some] .
    then have "connection_ok c cs" using assms(1) connection_ok_canon [of j c] by (auto simp: objects_ok_def)
    then show ?thesis using Some f by (simp add: get_connection_def stl_get_def view_def)
  qed
qed

lemma set_connection_view:
  assumes "objects_ok st" "plain c" "connection_ok c cs"
  shows "view (set_connection c cs st) = (view st)(upper c \<mapsto> connection_view cs)" "objects_ok (set_connection c cs st)"
proof -
  have o: "stl_ok ConnectionId_compareTo plain (connectionStates st)" using assms(1) by (simp add: objects_ok_def)
  show "view (set_connection c cs st) = (view st)(upper c \<mapsto> connection_view cs)"
    using conn.put_abs [OF o assms(2), of cs] by (auto simp: view_def set_connection_def fun_eq_iff)
  have "\<forall>(c, cs) \<in> set (stl_put conn_less c cs (connectionStates st)). connection_ok c cs"
  proof (rule conn.put_every [OF o assms(2)])
    fix j assume "upper j = upper c"
    then show "connection_ok j cs" using assms(3) connection_ok_canon [of j c] by blast
  qed (use assms(1) in \<open>simp add: objects_ok_def\<close>)
  then show "objects_ok (set_connection c cs st)"
    using conn.put_ok [OF o assms(2)] by (simp add: objects_ok_def set_connection_def)
qed

lemma session_get_view:
  assumes "connection_ok c cs" "plain_id s"
  shows "case stl_get sess_less s (cs_sessions cs) of
      Throw e \<Rightarrow> e = NoSuchElementException \<and> bc_sessions (connection_view cs) (canon_id s) = None
    | Ok ss \<Rightarrow> bc_sessions (connection_view cs) (canon_id s) = Some (session_view ss) \<and> session_ok s ss"
proof -
  have o: "stl_ok SessionId_compareTo plain_id (cs_sessions cs)" using assms(1) by (simp add: connection_ok_def)
  have f: "stl_find sess_less s (cs_sessions cs) = stl_abs canon_id (cs_sessions cs) (canon_id s)"
    by (rule sess.find_abs [OF o assms(2)])
  show ?thesis
  proof (cases "stl_find sess_less s (cs_sessions cs)")
    case None
    then show ?thesis using f by (simp add: stl_get_def connection_view_def)
  next
    case (Some ss)
    obtain j where "(j, ss) \<in> set (cs_sessions cs)" "canon_id j = canon_id s" using sess.find_mem [OF o assms(2) Some] .
    then have "session_ok s ss" using assms(1) session_ok_canon [of j s] by (auto simp: connection_ok_def)
    then show ?thesis using Some f by (simp add: stl_get_def connection_view_def)
  qed
qed

lemma session_put_view:
  assumes "connection_ok c cs" "plain_id s" "upper (fst s) = upper c" "session_ok s ss"
  shows "connection_view (cs\<lparr>cs_sessions := stl_put sess_less s ss (cs_sessions cs)\<rparr>) =
      (connection_view cs)\<lparr>bc_sessions := (bc_sessions (connection_view cs))(canon_id s \<mapsto> session_view ss)\<rparr>"
    and "connection_ok c (cs\<lparr>cs_sessions := stl_put sess_less s ss (cs_sessions cs)\<rparr>)"
proof -
  have o: "stl_ok SessionId_compareTo plain_id (cs_sessions cs)" using assms(1) by (simp add: connection_ok_def)
  note a = sess.put_abs [OF o assms(2), of ss]
  show "connection_view (cs\<lparr>cs_sessions := stl_put sess_less s ss (cs_sessions cs)\<rparr>) =
      (connection_view cs)\<lparr>bc_sessions := (bc_sessions (connection_view cs))(canon_id s \<mapsto> session_view ss)\<rparr>"
    using a by (auto simp: connection_view_def fun_eq_iff)
  have "\<forall>(s, ss) \<in> set (stl_put sess_less s ss (cs_sessions cs)). upper (fst s) = upper c \<and> session_ok s ss"
  proof (rule sess.put_every [OF o assms(2)])
    fix j :: session_id assume "canon_id j = canon_id s"
    then show "upper (fst j) = upper c \<and> session_ok j ss"
      using assms(3,4) session_ok_canon [of j s] by (metis fst_canon)
  qed (use assms(1) in \<open>simp add: connection_ok_def\<close>)
  then show "connection_ok c (cs\<lparr>cs_sessions := stl_put sess_less s ss (cs_sessions cs)\<rparr>)"
    using assms(1) sess.put_ok [OF o assms(2)] a by (simp add: connection_ok_def)
qed

section \<open>Tracking implements the broker\<close>

definition local_tx :: "string \<Rightarrow> tx_id \<Rightarrow> bool" where
  "local_tx c t = (case t of LocalTx i \<Rightarrow> plain_id i \<and> upper (fst i) = upper c | XATx x \<Rightarrow> False)"

text \<open>The commands of a client: plain ids, local transactions of its own, and the default session stays.\<close>

fun command_ok :: "command \<Rightarrow> bool" where
  "command_ok (ConnectionInfo info) \<longleftrightarrow> plain (ci_id info)"
| "command_ok (SessionInfo info) \<longleftrightarrow> plain_id (si_id info)"
| "command_ok (ProducerInfo info) \<longleftrightarrow> plain_id (pi_id info)"
| "command_ok (ConsumerInfo info) \<longleftrightarrow> plain_id (co_id info)"
| "command_ok (DestinationInfo info) \<longleftrightarrow> plain (di_connection info)"
| "command_ok (RemoveInfo (ConnectionObj c)) \<longleftrightarrow> plain c"
| "command_ok (RemoveInfo (SessionObj s)) \<longleftrightarrow> plain_id s \<and> snd s \<noteq> - 1"
| "command_ok (RemoveInfo (ConsumerObj k)) \<longleftrightarrow> plain_id k"
| "command_ok (RemoveInfo (ProducerObj k)) \<longleftrightarrow> plain_id k"
| "command_ok (Message m) \<longleftrightarrow> plain_id (tm_producer m) \<and> (case tm_tx m of None \<Rightarrow> True | Some t \<Rightarrow> local_tx (fst (tm_producer m)) t)"
| "command_ok (TransactionInfo info) \<longleftrightarrow> (case ti_connection info of None \<Rightarrow> True | Some c \<Rightarrow> plain c \<and> local_tx c (ti_id info))"
| "command_ok c \<longleftrightarrow> c \<noteq> RemoveInfo OtherObj \<and> (\<forall>k p d. c \<noteq> ConsumerControl k p d)"

text \<open>How a handler is analysed: the connection, and the session, is there or it is not.\<close>

lemma with_connection_cases:
  assumes "objects_ok st" "plain c"
    and "view st (upper c) = None \<Longrightarrow> Q (Throw NoSuchElementException, st)"
    and "\<And>cs. get_connection c st = Ok cs \<Longrightarrow> view st (upper c) = Some (connection_view cs) \<Longrightarrow> connection_ok c cs \<Longrightarrow> Q (f cs st)"
  shows "Q (with_connection c f st)"
  using get_connection_view [OF assms(1,2)] assms(3,4) by (cases "get_connection c st") (auto simp: with_connection_def)

lemma with_session_cases:
  assumes "objects_ok st" "plain_id s"
    and "(\<And>f. on_session s f (view st) = view st) \<Longrightarrow> Q (Throw NoSuchElementException, st)"
    and "\<And>cs ss. get_connection (fst s) st = Ok cs \<Longrightarrow> stl_get sess_less s (cs_sessions cs) = Ok ss \<Longrightarrow>
      view st (upper (fst s)) = Some (connection_view cs) \<Longrightarrow> connection_ok (fst s) cs \<Longrightarrow>
      bc_sessions (connection_view cs) (canon_id s) = Some (session_view ss) \<Longrightarrow> session_ok s ss \<Longrightarrow> Q (f cs ss st)"
  shows "Q (with_session s f st)"
  unfolding with_session_def
proof (rule with_connection_cases)
  show "plain (fst s)" using assms(2) by (simp add: plain_id_def)
  show "Q (Throw NoSuchElementException, st)" if "view st (upper (fst s)) = None"
    using that by (intro assms(3)) (simp add: on_connection_def)
  show "Q (case stl_get sess_less s (cs_sessions cs) of Throw e \<Rightarrow> (Throw e, st) | Ok ss \<Rightarrow> f cs ss st)"
    if c: "get_connection (fst s) st = Ok cs" "view st (upper (fst s)) = Some (connection_view cs)" "connection_ok (fst s) cs" for cs
  proof (cases "stl_get sess_less s (cs_sessions cs)")
    case (Inl e)
    then have "e = NoSuchElementException" "bc_sessions (connection_view cs) (canon_id s) = None"
      using session_get_view [OF c(3) assms(2)] by auto
    then show ?thesis using Inl c(2) assms(3) by (auto simp: on_connection_def upd_session_def fun_upd_idem)
  next
    case (Inr ss)
    then show ?thesis using session_get_view [OF c(3) assms(2)] assms(4) c by auto
  qed
qed (rule assms)

definition follows :: "command \<Rightarrow> tracker \<Rightarrow> tracked option result \<times> tracker \<Rightarrow> bool" where
  "follows c st out \<longleftrightarrow> view (snd out) = broker_step c (view st) \<and> objects_ok (snd out)"

lemma set_session_view:
  assumes "objects_ok st" "plain_id s" "view st (upper (fst s)) = Some (connection_view cs)" "connection_ok (fst s) cs"
    "bc_sessions (connection_view cs) (canon_id s) = Some (session_view ss)" "session_ok s ss'" "session_view ss' = f (session_view ss)"
  shows "view (set_session s ss' cs st) = on_session s f (view st)" "objects_ok (set_session s ss' cs st)"
proof -
  note p = session_put_view [OF assms(4,2) refl assms(6)]
  have "plain (fst s)" using assms(2) by (simp add: plain_id_def)
  note q = set_connection_view [OF assms(1) this p(2)]
  show "view (set_session s ss' cs st) = on_session s f (view st)" "objects_ok (set_session s ss' cs st)"
    using q p(1) assms(3,5,7) by (simp_all add: set_session_def on_connection_def upd_session_def)
qed

lemma addProducer_view:
  assumes "session_ok s ss" "plain_id (pi_id info)" "s = parent_session (pi_id info)"
  shows "session_view (addProducer info ss) =
      (session_view ss)\<lparr>bs_producers := (bs_producers (session_view ss))(canon_id (pi_id info) \<mapsto> info)\<rparr>"
    "session_ok s (addProducer info ss)"
proof -
  have o: "stl_ok ProducerId_compareTo plain_id (ss_producers ss)" using assms(1) by (simp add: session_ok_def)
  show "session_view (addProducer info ss) =
      (session_view ss)\<lparr>bs_producers := (bs_producers (session_view ss))(canon_id (pi_id info) \<mapsto> info)\<rparr>"
    using prod.put_abs [OF o assms(2)] by (auto simp: session_view_def addProducer_def fun_eq_iff)
  have "\<forall>(k, ps) \<in> set (stl_put prod_less (pi_id info) \<lparr>ps_info = info, ps_tx = None\<rparr> (ss_producers ss)). member_ok s k (pi_id (ps_info ps))"
    using assms by (intro prod.put_every [OF o assms(2)]) (auto simp: session_ok_def member_ok_def canon_parent)
  then show "session_ok s (addProducer info ss)"
    using assms(1) prod.put_ok [OF o assms(2)] by (simp add: session_ok_def addProducer_def)
qed

lemma addConsumer_view:
  assumes "session_ok s ss" "plain_id (co_id info)" "s = parent_session (co_id info)"
  shows "session_view (addConsumer info ss) =
      (session_view ss)\<lparr>bs_consumers := (bs_consumers (session_view ss))(canon_id (co_id info) \<mapsto> info)\<rparr>"
    "session_ok s (addConsumer info ss)"
proof -
  have o: "stl_ok ConsumerId_compareTo plain_id (ss_consumers ss)" using assms(1) by (simp add: session_ok_def)
  show "session_view (addConsumer info ss) =
      (session_view ss)\<lparr>bs_consumers := (bs_consumers (session_view ss))(canon_id (co_id info) \<mapsto> info)\<rparr>"
    using cons.put_abs [OF o assms(2)] by (auto simp: session_view_def addConsumer_def fun_eq_iff)
  have "\<forall>(k, i) \<in> set (stl_put cons_less (co_id info) info (ss_consumers ss)). member_ok s k (co_id i)"
    using assms by (intro cons.put_every [OF o assms(2)]) (auto simp: session_ok_def member_ok_def canon_parent)
  then show "session_ok s (addConsumer info ss)"
    using assms(1) cons.put_ok [OF o assms(2)] by (simp add: session_ok_def addConsumer_def)
qed

lemma removeConsumer_view:
  assumes "session_ok s ss" "plain_id k"
  shows "session_view (removeConsumer k ss) = (session_view ss)\<lparr>bs_consumers := (bs_consumers (session_view ss))(canon_id k := None)\<rparr>"
    "session_ok s (removeConsumer k ss)"
proof -
  have o: "stl_ok ConsumerId_compareTo plain_id (ss_consumers ss)" using assms(1) by (simp add: session_ok_def)
  show "session_view (removeConsumer k ss) = (session_view ss)\<lparr>bs_consumers := (bs_consumers (session_view ss))(canon_id k := None)\<rparr>"
    using cons.remove_abs [OF o assms(2)] by (auto simp: session_view_def removeConsumer_def fun_eq_iff)
  show "session_ok s (removeConsumer k ss)"
    using assms(1) cons.remove_ok [OF o] cons.remove_set [of k "ss_consumers ss"]
    by (auto simp: session_ok_def removeConsumer_def)
qed

lemma remove_producer_view:
  assumes "session_ok s ss" "plain_id k"
  shows "session_view (ss\<lparr>ss_producers := stl_remove prod_less k (ss_producers ss)\<rparr>) =
      (session_view ss)\<lparr>bs_producers := (bs_producers (session_view ss))(canon_id k := None)\<rparr>"
    "session_ok s (ss\<lparr>ss_producers := stl_remove prod_less k (ss_producers ss)\<rparr>)"
proof -
  have o: "stl_ok ProducerId_compareTo plain_id (ss_producers ss)" using assms(1) by (simp add: session_ok_def)
  show "session_view (ss\<lparr>ss_producers := stl_remove prod_less k (ss_producers ss)\<rparr>) =
      (session_view ss)\<lparr>bs_producers := (bs_producers (session_view ss))(canon_id k := None)\<rparr>"
    using prod.remove_abs [OF o assms(2)] by (auto simp: session_view_def fun_eq_iff)
  show "session_ok s (ss\<lparr>ss_producers := stl_remove prod_less k (ss_producers ss)\<rparr>)"
    using assms(1) prod.remove_ok [OF o] prod.remove_set [of k "ss_producers ss"] by (auto simp: session_ok_def)
qed

lemma view_frame [simp]:
  "view (update_tx a f st) = view st" "objects_ok (update_tx a f st) = objects_ok st"
  "view (st\<lparr>tx_store := x\<rparr>) = view st" "objects_ok (st\<lparr>tx_store := x\<rparr>) = objects_ok st"
  "view (MessageCache_put m st) = view st" "objects_ok (MessageCache_put m st) = objects_ok st"
  "view (MessagePullCache_put k p st) = view st" "objects_ok (MessagePullCache_put k p st) = objects_ok st"
  "view (trackBack c st) = view st" "objects_ok (trackBack c st) = objects_ok st"
  by (simp_all add: view_def objects_ok_def update_tx_def MessageCache_put_def MessagePullCache_put_def trackBack_def Let_def split: command.split)

lemma frame_connection [simp]:
  "get_connection c (update_tx a f st) = get_connection c st" "set_connection c cs (update_tx a f st) = update_tx a f (set_connection c cs st)"
  "set_session s ss cs (update_tx a f st) = update_tx a f (set_session s ss cs st)"
  by (simp_all add: get_connection_def set_connection_def set_session_def update_tx_def)

text \<open>The members a connection keeps besides the objects.\<close>

lemma connection_frame [simp]:
  fixes cs :: connection_state
  shows "connection_view (cs\<lparr>cs_transactions := x\<rparr>) = connection_view cs" "connection_ok c (cs\<lparr>cs_transactions := x\<rparr>) = connection_ok c cs"
  "connection_view (cs\<lparr>cs_recovering := y\<rparr>) = connection_view cs" "connection_ok c (cs\<lparr>cs_recovering := y\<rparr>) = connection_ok c cs"
  "connection_view (cs\<lparr>cs_complete := z\<rparr>) = connection_view cs" "connection_ok c (cs\<lparr>cs_complete := z\<rparr>) = connection_ok c cs"
  by (simp_all add: connection_view_def connection_ok_def)

lemma set_connection_same:
  assumes "objects_ok st" "plain c" "view st (upper c) = Some (connection_view cs)" "connection_ok c cs'" "connection_view cs' = connection_view cs"
  shows "view (set_connection c cs' st) = view st" "objects_ok (set_connection c cs' st)"
  using set_connection_view [OF assms(1,2,4)] assms(3,5) by (simp_all add: fun_upd_idem)

lemma on_connection_present: "b (upper c) = Some bc \<Longrightarrow> on_connection c f b = b(upper c \<mapsto> f bc)"
  by (simp add: on_connection_def)

lemma on_connection_absent: "b (upper c) = None \<Longrightarrow> on_connection c f b = b"
  by (simp add: on_connection_def)

text \<open>A handler that changes one session.\<close>

lemma session_handler_follows:
  assumes "objects_ok st" "plain_id s" "\<And>b. broker_step c b = on_session s f b"
    and ok: "\<And>ss. session_ok s ss \<Longrightarrow> session_view (g ss) = f (session_view ss) \<and> session_ok s (g ss)"
    and h: "\<And>cs ss. \<exists>y r u. h cs ss st = (r, u (set_session s (g ss) (cs\<lparr>cs_recovering := y\<rparr>) st)) \<and>
      (\<forall>st. view (u st) = view st \<and> objects_ok (u st) = objects_ok st)"
  shows "follows c st (with_session s h st)"
proof (rule with_session_cases [OF assms(1,2)])
  assume "\<And>f. on_session s f (view st) = view st"
  then show "follows c st (Throw NoSuchElementException, st)" using assms(1,3) by (simp add: follows_def)
next
  fix cs ss
  assume a: "view st (upper (fst s)) = Some (connection_view cs)" "connection_ok (fst s) cs"
    "bc_sessions (connection_view cs) (canon_id s) = Some (session_view ss)" "session_ok s ss"
  obtain y r u where u: "h cs ss st = (r, u (set_session s (g ss) (cs\<lparr>cs_recovering := y\<rparr>) st))"
    "\<And>st. view (u st) = view st \<and> objects_ok (u st) = objects_ok st" using h by blast
  show "follows c st (h cs ss st)"
    using set_session_view [OF assms(1,2), of "cs\<lparr>cs_recovering := y\<rparr>" ss "g ss" f] a ok [OF a(4)] u assms(3) by (simp add: follows_def)
qed

lemma processProducerInfo_follows:
  assumes "objects_ok st" "plain_id (pi_id info)"
  shows "follows (ProducerInfo info) st (processProducerInfo info st)"
  unfolding processProducerInfo_def
proof (rule session_handler_follows [where g = "addProducer info", OF assms(1) _ broker_step.simps(3)])
  show "\<exists>y r u. marked (set_session (parent_session (pi_id info)) (addProducer info ss) cs st) =
      (r, u (set_session (parent_session (pi_id info)) (addProducer info ss) (cs\<lparr>cs_recovering := y\<rparr>) st)) \<and>
      (\<forall>st. view (u st) = view st \<and> objects_ok (u st) = objects_ok st)" for cs ss
    by (intro exI [of _ "cs_recovering cs"] exI [of _ id] exI) simp
qed (use assms addProducer_view [OF _ assms(2) refl] in auto)

lemma processConsumerInfo_follows:
  assumes "objects_ok st" "plain_id (co_id info)"
  shows "follows (ConsumerInfo info) st (processConsumerInfo info st)"
  unfolding processConsumerInfo_def
proof (rule session_handler_follows [where g = "addConsumer info", OF assms(1) _ broker_step.simps(4)])
  show "\<exists>y r u. marked (set_session (parent_session (co_id info)) (addConsumer info ss) cs st) =
      (r, u (set_session (parent_session (co_id info)) (addConsumer info ss) (cs\<lparr>cs_recovering := y\<rparr>) st)) \<and>
      (\<forall>st. view (u st) = view st \<and> objects_ok (u st) = objects_ok st)" for cs ss
    by (intro exI [of _ "cs_recovering cs"] exI [of _ id] exI) simp
qed (use assms addConsumer_view [OF _ assms(2) refl] in auto)

lemma processRemoveConsumer_follows:
  assumes "objects_ok st" "plain_id k"
  shows "follows (RemoveInfo (ConsumerObj k)) st (processRemoveConsumer k st)"
  unfolding processRemoveConsumer_def
proof (rule session_handler_follows [where g = "removeConsumer k", OF assms(1) _ broker_step.simps(8)])
  show "\<exists>y r u. marked (set_session (parent_session k) (removeConsumer k ss) (cs\<lparr>cs_recovering := stl_remove cons_less k (cs_recovering cs)\<rparr>) st) =
      (r, u (set_session (parent_session k) (removeConsumer k ss) (cs\<lparr>cs_recovering := y\<rparr>) st)) \<and>
      (\<forall>st. view (u st) = view st \<and> objects_ok (u st) = objects_ok st)" for cs ss
    by (intro exI [of _ "stl_remove cons_less k (cs_recovering cs)"] exI [of _ id] exI) simp
qed (use assms removeConsumer_view [OF _ assms(2)] in auto)

lemma processRemoveProducer_follows:
  assumes "objects_ok st" "plain_id k"
  shows "follows (RemoveInfo (ProducerObj k)) st (processRemoveProducer k st)"
  unfolding processRemoveProducer_def
proof (rule session_handler_follows [where g = "\<lambda>ss. ss\<lparr>ss_producers := stl_remove prod_less k (ss_producers ss)\<rparr>",
    OF assms(1) _ broker_step.simps(9)])
  fix cs and ss :: session_state
  let ?ss = "ss\<lparr>ss_producers := stl_remove prod_less k (ss_producers ss)\<rparr>"
  have "\<exists>u. removeProducer k ss st = (?ss, u st) \<and> set_session (parent_session k) ?ss cs (u st) = u (set_session (parent_session k) ?ss cs st) \<and>
      (\<forall>st. view (u st) = view st \<and> objects_ok (u st) = objects_ok st)"
  proof (cases "\<exists>ps a. stl_find prod_less k (ss_producers ss) = Some ps \<and> ps_tx ps = Some a")
    case True
    then obtain ps a where "stl_find prod_less k (ss_producers ss) = Some ps" "ps_tx ps = Some a" by blast
    then show ?thesis by (intro exI [of _ "update_tx a (addProducerState ps)"]) (simp add: removeProducer_def)
  next
    case False
    then show ?thesis by (intro exI [of _ id]) (auto simp: removeProducer_def Let_def split: option.split)
  qed
  then show "\<exists>y r u. (case removeProducer k ss st of (ss', st') \<Rightarrow> marked (set_session (parent_session k) ss' cs st')) =
      (r, u (set_session (parent_session k) ?ss (cs\<lparr>cs_recovering := y\<rparr>) st)) \<and>
      (\<forall>st. view (u st) = view st \<and> objects_ok (u st) = objects_ok st)"
    by (intro exI [of _ "cs_recovering cs"]) auto
qed (use assms remove_producer_view [OF _ assms(2)] in auto)

lemma empty_session_ok: "plain_id s \<Longrightarrow> canon_id s' = canon_id s \<Longrightarrow> si_id info = s' \<Longrightarrow> plain_id s' \<Longrightarrow> session_ok s (SessionState_new info)"
  by (simp add: session_ok_def SessionState_new_def)

lemma SessionState_new_view [simp]: "session_view (SessionState_new info) = new_session info"
  by (auto simp: session_view_def SessionState_new_def new_session_def fun_eq_iff)

lemma ConnectionState_new_view:
  assumes "plain (ci_id info)"
  shows "connection_view (ConnectionState_new info) = new_connection info" "connection_ok (ci_id info) (ConnectionState_new info)"
  using assms empty_session_ok [of "(ci_id info, - 1)"]
  by (auto simp: connection_view_def ConnectionState_new_def addSession_def new_connection_def fun_eq_iff connection_ok_def stl_ok_def plain_id_def)

lemma processConnectionInfo_follows:
  assumes "objects_ok st" "plain (ci_id info)"
  shows "follows (ConnectionInfo info) st (processConnectionInfo info st)"
  using set_connection_view [OF assms ConnectionState_new_view(2) [OF assms(2)]] ConnectionState_new_view(1) [OF assms(2)]
  by (simp add: follows_def processConnectionInfo_def)

lemma processRemoveConnection_follows:
  assumes "objects_ok st" "plain c"
  shows "follows (RemoveInfo (ConnectionObj c)) st (processRemoveConnection c st)"
proof -
  have o: "stl_ok ConnectionId_compareTo plain (connectionStates st)" using assms(1) by (simp add: objects_ok_def)
  show ?thesis
    using conn.remove_abs [OF o assms(2)] conn.remove_ok [OF o, of c] conn.remove_set [of c "connectionStates st"] assms(1)
    by (auto simp: follows_def processRemoveConnection_def view_def objects_ok_def fun_eq_iff)
qed

lemma connection_handler_follows:
  assumes "objects_ok st" "plain c" "\<And>b. broker_step cmd b = on_connection c f b"
    and ok: "\<And>cs. connection_ok c cs \<Longrightarrow> connection_view (g cs) = f (connection_view cs) \<and> connection_ok c (g cs)"
  shows "follows cmd st (with_connection c (\<lambda>cs st. marked (set_connection c (g cs) st)) st)"
proof (rule with_connection_cases [OF assms(1,2)])
  assume "view st (upper c) = None"
  then show "follows cmd st (Throw NoSuchElementException, st)" using assms(1,3) by (simp add: follows_def on_connection_absent)
next
  fix cs assume "view st (upper c) = Some (connection_view cs)" "connection_ok c cs"
  then show "follows cmd st (marked (set_connection c (g cs) st))"
    using ok [of cs] set_connection_view [OF assms(1,2), of "g cs"] assms(3) by (simp add: follows_def on_connection_present)
qed

lemma processSessionInfo_follows:
  assumes "objects_ok st" "plain_id (si_id info)"
  shows "follows (SessionInfo info) st (processSessionInfo info st)"
  unfolding processSessionInfo_def
proof (rule connection_handler_follows [OF assms(1) _ broker_step.simps(2)])
  show "plain (fst (si_id info))" using assms(2) by (simp add: plain_id_def)
  fix cs assume c: "connection_ok (fst (si_id info)) cs"
  show "connection_view (addSession info cs) =
      (connection_view cs)\<lparr>bc_sessions := (bc_sessions (connection_view cs))(canon_id (si_id info) \<mapsto> new_session info)\<rparr> \<and>
      connection_ok (fst (si_id info)) (addSession info cs)"
    using session_put_view [OF c assms(2) refl empty_session_ok [OF assms(2) refl refl assms(2)]] by (simp add: addSession_def)
qed

lemma processRemoveSession_follows:
  assumes "objects_ok st" "plain_id s" "snd s \<noteq> - 1"
  shows "follows (RemoveInfo (SessionObj s)) st (processRemoveSession s st)"
  unfolding processRemoveSession_def
proof (rule connection_handler_follows [OF assms(1) _ broker_step.simps(7)])
  show "plain (fst s)" using assms(2) by (simp add: plain_id_def)
  fix cs :: connection_state assume c: "connection_ok (fst s) cs"
  have o: "stl_ok SessionId_compareTo plain_id (cs_sessions cs)" using c by (simp add: connection_ok_def)
  note r = sess.remove_abs [OF o assms(2)] sess.remove_ok [OF o, of s] sess.remove_set [of s "cs_sessions cs"]
  have "canon_id (fst s, - 1) \<noteq> canon_id s" using assms(3) by (cases s) (auto simp: canon_id_def)
  then have "connection_ok (fst s) (cs\<lparr>cs_sessions := stl_remove sess_less s (cs_sessions cs)\<rparr>)"
    using c r by (auto simp: connection_ok_def)
  moreover have "connection_view (cs\<lparr>cs_sessions := stl_remove sess_less s (cs_sessions cs)\<rparr>) =
      (connection_view cs)\<lparr>bc_sessions := (bc_sessions (connection_view cs))(canon_id s := None)\<rparr>"
    using r(1) by (auto simp: connection_view_def fun_eq_iff)
  ultimately show "connection_view (cs\<lparr>cs_sessions := stl_remove sess_less s (cs_sessions cs)\<rparr>) =
      (connection_view cs)\<lparr>bc_sessions := (bc_sessions (connection_view cs))(canon_id s := None)\<rparr> \<and>
      connection_ok (fst s) (cs\<lparr>cs_sessions := stl_remove sess_less s (cs_sessions cs)\<rparr>)" by blast
qed

lemma processDestinationInfo_follows:
  assumes "objects_ok st" "plain (di_connection info)"
  shows "follows (DestinationInfo info) st (processDestinationInfo info st)"
proof (cases "di_temporary info")
  case True
  have "follows (DestinationInfo info) st (with_connection (di_connection info)
      (\<lambda>cs st. marked (set_connection (di_connection info) (addTempDestination info cs) st)) st)"
  proof (rule connection_handler_follows [OF assms])
    show "broker_step (DestinationInfo info) b =
        on_connection (di_connection info) (\<lambda>bc. bc\<lparr>bc_temps := temp_op info (bc_temps bc)\<rparr>) b" for b using True by simp
  qed (use True in \<open>auto simp: connection_view_def connection_ok_def addTempDestination_def\<close>)
  then show ?thesis using True by (simp add: processDestinationInfo_def)
next
  case False
  then show ?thesis unfolding processDestinationInfo_def
    using assms(1) by (intro with_connection_cases [where Q = "follows (DestinationInfo info) st", OF assms]) (simp_all add: follows_def)
qed

subsection \<open>Transactions do not touch the objects\<close>

lemma producer_tx_view:
  assumes "session_ok s ss" "plain_id k" "stl_find prod_less k (ss_producers ss) = Some ps"
  shows "session_view (ss\<lparr>ss_producers := stl_put prod_less k (ps\<lparr>ps_tx := x\<rparr>) (ss_producers ss)\<rparr>) = session_view ss"
    "session_ok s (ss\<lparr>ss_producers := stl_put prod_less k (ps\<lparr>ps_tx := x\<rparr>) (ss_producers ss)\<rparr>)"
proof -
  have o: "stl_ok ProducerId_compareTo plain_id (ss_producers ss)" using assms(1) by (simp add: session_ok_def)
  have f: "stl_abs canon_id (ss_producers ss) (canon_id k) = Some ps" using prod.find_abs [OF o assms(2)] assms(3) by simp
  show "session_view (ss\<lparr>ss_producers := stl_put prod_less k (ps\<lparr>ps_tx := x\<rparr>) (ss_producers ss)\<rparr>) = session_view ss"
    using prod.put_abs [OF o assms(2)] f by (auto simp: session_view_def fun_eq_iff)
  obtain j where j: "(j, ps) \<in> set (ss_producers ss)" "canon_id j = canon_id k" using prod.find_mem [OF o assms(2,3)] .
  have "\<forall>(k, ps) \<in> set (stl_put prod_less k (ps\<lparr>ps_tx := x\<rparr>) (ss_producers ss)). member_ok s k (pi_id (ps_info ps))"
  proof (rule prod.put_every [OF o assms(2)])
    fix i :: object_id assume "canon_id i = canon_id k"
    then show "member_ok s i (pi_id (ps_info (ps\<lparr>ps_tx := x\<rparr>)))"
      using j assms(1) by (auto simp: session_ok_def member_ok_def canon_parent)
  qed (use assms(1) in \<open>simp add: session_ok_def\<close>)
  then show "session_ok s (ss\<lparr>ss_producers := stl_put prod_less k (ps\<lparr>ps_tx := x\<rparr>) (ss_producers ss)\<rparr>)"
    using assms(1) prod.put_ok [OF o assms(2)] by (simp add: session_ok_def)
qed

definition unchanged :: "tracker \<Rightarrow> 'a \<times> tracker \<Rightarrow> bool" where
  "unchanged st out \<longleftrightarrow> view (snd out) = view st \<and> objects_ok (snd out)"

lemma setTransactionState_unchanged:
  assumes "objects_ok st" "plain_id p"
  shows "unchanged st (setTransactionState p a st)"
  unfolding setTransactionState_def
proof (rule with_session_cases [where Q = "unchanged st", OF assms(1)])
  show "plain_id (parent_session p)" using assms(2) by simp
  show "unchanged st (Throw NoSuchElementException, st)" using assms(1) by (simp add: unchanged_def)
  fix cs ss
  assume c: "view st (upper (fst (parent_session p))) = Some (connection_view cs)" "connection_ok (fst (parent_session p)) cs"
    "bc_sessions (connection_view cs) (canon_id (parent_session p)) = Some (session_view ss)" "session_ok (parent_session p) ss"
  show "unchanged st (case stl_get prod_less p (ss_producers ss) of
        Throw e \<Rightarrow> (Throw e, st)
      | Ok ps \<Rightarrow> marked (set_session (parent_session p)
          (ss\<lparr>ss_producers := stl_put prod_less p (ps\<lparr>ps_tx := Some a\<rparr>) (ss_producers ss)\<rparr>) cs st))"
  proof (cases "stl_find prod_less p (ss_producers ss)")
    case None
    then show ?thesis using assms(1) by (simp add: stl_get_def unchanged_def)
  next
    case (Some ps)
    let ?ss = "ss\<lparr>ss_producers := stl_put prod_less p (ps\<lparr>ps_tx := Some a\<rparr>) (ss_producers ss)\<rparr>"
    have q: "session_view ?ss = session_view ss" "session_ok (parent_session p) ?ss"
      by (rule producer_tx_view [OF c(4) assms(2) Some])+
    have "on_session (parent_session p) (\<lambda>bs. bs) (view st) = view st"
      using c(1,3) by (simp add: on_connection_def upd_session_def fun_upd_idem)
    then show ?thesis
      using set_session_view [OF assms(1) _ c(1-3) q(2), of "\<lambda>bs. bs"] q(1) assms(2) Some by (simp add: stl_get_def unchanged_def)
  qed
qed

lemma processMessage_unchanged:
  assumes "objects_ok st" "plain_id (tm_producer m)"
  shows "unchanged st (processMessage m st)"
proof (cases "tm_tx m \<noteq> None \<and> trackTransactions st")
  case True
  then obtain t where t: "tm_tx m = Some t" "trackTransactions st" by auto
  have p: "plain (fst (tm_producer m))" using assms(2) by (simp add: plain_id_def)
  have u: "unchanged st (setTransactionState (tm_producer m) a (update_tx a f st))" for a f
    using setTransactionState_unchanged [of "update_tx a f st" "tm_producer m" a] assms by (simp add: unchanged_def)
  show ?thesis
    by (simp only: processMessage_def t option.simps if_True, rule with_connection_cases [where Q = "unchanged st", OF assms(1) p])
      (use u assms(1) in \<open>auto simp: unchanged_def Let_def t split: sum.split\<close>)
next
  case False
  then show ?thesis using assms(1) by (auto simp: processMessage_def unchanged_def split: option.split)
qed

lemma with_transaction_unchanged:
  assumes "objects_ok st" "plain c"
  shows "unchanged st (with_connection c (\<lambda>cs st.
          case getTransactionState t cs of Throw e \<Rightarrow> (Throw e, st) | Ok a \<Rightarrow> (r, update_tx a f st)) st)"
  using assms(1)
  by (intro with_connection_cases [where Q = "unchanged st", OF assms]) (auto simp: unchanged_def split: sum.split)

lemma begin_unchanged:
  assumes "objects_ok st" "plain c"
  shows "unchanged st (with_connection c (\<lambda>cs st.
          case addTransactionState t (length (tx_store st)) cs of
            Throw e \<Rightarrow> (Throw e, st)
          | Ok cs' \<Rightarrow>
              let st1 = set_connection c cs' (st\<lparr>tx_store := tx_store st @ [ts]\<rparr>)
              in case getTransactionState t cs' of Throw e \<Rightarrow> (Throw e, st1) | Ok a \<Rightarrow> marked (update_tx a f st1)) st)"
proof (rule with_connection_cases [where Q = "unchanged st", OF assms])
  fix cs assume c: "view st (upper c) = Some (connection_view cs)" "connection_ok c cs"
  have "view (set_connection c cs' (st\<lparr>tx_store := x\<rparr>)) = view st \<and> objects_ok (set_connection c cs' (st\<lparr>tx_store := x\<rparr>))"
    if "addTransactionState t a cs = Ok cs'" for cs' x a
    using that c assms set_connection_same [of "st\<lparr>tx_store := x\<rparr>" c cs cs'] by (auto simp: addTransactionState_def split: if_splits)
  then show "unchanged st (case addTransactionState t (length (tx_store st)) cs of
            Throw e \<Rightarrow> (Throw e, st)
          | Ok cs' \<Rightarrow>
              let st1 = set_connection c cs' (st\<lparr>tx_store := tx_store st @ [ts]\<rparr>)
              in case getTransactionState t cs' of Throw e \<Rightarrow> (Throw e, st1) | Ok a \<Rightarrow> marked (update_tx a f st1))"
    using assms(1) by (auto simp: unchanged_def Let_def split: sum.split)
qed (use assms(1) in \<open>simp add: unchanged_def\<close>)

lemma processTransactionInfo_unchanged:
  assumes "objects_ok st" "case ti_connection info of None \<Rightarrow> True | Some c \<Rightarrow> plain c"
  shows "unchanged st (processTransactionInfo info st)"
proof -
  have "unchanged st (note_in_transaction info x y st)" for x y
    using assms with_transaction_unchanged [OF assms(1)]
    by (cases "ti_connection info") (auto simp: note_in_transaction_def, auto simp: unchanged_def)
  moreover have "unchanged st (processBeginTransaction info st)"
    using assms begin_unchanged [OF assms(1)]
    by (cases "ti_connection info") (auto simp: processBeginTransaction_def, auto simp: unchanged_def)
  ultimately show ?thesis
    using assms(1)
    by (simp add: processTransactionInfo_def Let_def processCommitTransactionOnePhase_def processCommitTransactionTwoPhase_def
        processEndTransaction_def processPrepareTransaction_def processRollbackTransaction_def) (simp add: unchanged_def)
qed

lemma onResponse_unchanged:
  assumes "objects_ok st" "case ti_connection info of None \<Rightarrow> True | Some c \<Rightarrow> plain c"
  shows "unchanged st (Tracked_onResponse (Waiting info) st)"
proof -
  have "unchanged st (RemoveTransactionAction_run info st)"
  proof (cases "ti_connection info")
    case None
    then show ?thesis using assms(1) by (simp add: RemoveTransactionAction_run_def unchanged_def)
  next
    case (Some c)
    have v: "view (set_connection c cs' st) = view st \<and> objects_ok (set_connection c cs' st)"
      if "get_connection c st = Ok cs" "removeTransactionState t cs = Ok (x, cs')" for cs t x cs'
      using that get_connection_view [OF assms(1), of c] assms Some set_connection_same [of st c cs cs']
      by (auto simp: removeTransactionState_def split: if_splits)
    show ?thesis using Some assms(1) v
      by (auto simp: RemoveTransactionAction_run_def unchanged_def Let_def split: sum.split option.split)
  qed
  then show ?thesis
    by (auto simp: Tracked_onResponse_def unchanged_def split: prod.splits sum.splits)
qed

text \<open>Every command a client sends changes the view as it changes the broker, whether it is accepted or not.\<close>

lemma track_follows:
  assumes "objects_ok st" "command_ok c"
  shows "view (snd (track c st)) = broker_step c (view st) \<and> objects_ok (snd (track c st))"
proof -
  have "follows c st (visit c st)"
  proof (cases c rule: command_ok.cases)
    case (10 m)
    then show ?thesis using assms processMessage_unchanged [of st m] by (auto simp: follows_def unchanged_def)
  next
    case (11 info)
    then show ?thesis using assms processTransactionInfo_unchanged [of st info]
      by (auto simp: follows_def unchanged_def split: option.splits)
  qed (use assms in \<open>auto simp: processConnectionInfo_follows processSessionInfo_follows processProducerInfo_follows processConsumerInfo_follows
      processDestinationInfo_follows processRemoveConnection_follows processRemoveSession_follows processRemoveConsumer_follows
      processRemoveProducer_follows, auto simp: follows_def processMessagePull_def split: option.split\<close>)
  then show ?thesis by (simp add: track_def follows_def case_prod_beta)
qed

end
