(* ===== verification/Tracker_Invariant.thy ===== *)
theory Tracker_Invariant
  imports Broker_View
begin

text \<open>
  The invariant of a tracker at work: its transactions refer to transaction states of their own that are not empty,
  no consumer is recovering, and the producers that a transaction keeps after they were closed are not among
  those of the sessions. \<open>U\<close> is the set of the producer ids used so far, which clients do not use again.
\<close>

section \<open>The parts of the invariant\<close>

definition tx_compare :: "session_id option \<Rightarrow> session_id option \<Rightarrow> int" where
  "tx_compare a b = LocalTransactionId_compareTo (the a) (the b)"

definition plain_key :: "session_id option \<Rightarrow> bool" where
  "plain_key k = (case k of None \<Rightarrow> False | Some i \<Rightarrow> plain_id i)"

interpretation txs: comparison tx_compare plain_key "map_option canon_id"
proof -
  have "comparison (\<lambda>a b. LocalTransactionId_compareTo (the a) (the b)) plain_key (map_option canon_id)"
    by (rule comparison_part [OF ltx.comparison_axioms]) (auto simp: plain_key_def split: option.splits)
  then show "comparison tx_compare plain_key (map_option canon_id)" by (simp add: tx_compare_def [abs_def])
qed

lemma tx_less_compare: "tx_less = id_less tx_compare"
  by (auto simp: fun_eq_iff tx_less_def id_less_def tx_compare_def)

definition tx_entry_ok :: "transaction_state list \<Rightarrow> string \<Rightarrow> session_id option \<Rightarrow> nat \<Rightarrow> bool" where
  "tx_entry_ok store c k a \<longleftrightarrow> a < length store \<and> ts_commands (store ! a) \<noteq> [] \<and>
     (\<exists>i. ts_id (store ! a) = LocalTx i \<and> map_option canon_id k = Some (canon_id i) \<and> upper (fst i) = upper c)"

definition working :: "transaction_state list \<Rightarrow> string \<Rightarrow> connection_state \<Rightarrow> bool" where
  "working store c cs \<longleftrightarrow> stl_ok tx_compare plain_key (cs_transactions cs) \<and>
     (\<forall>(k, a) \<in> set (cs_transactions cs). tx_entry_ok store c k a) \<and> cs_recovering cs = [] \<and> cs_complete cs"

definition all_working :: "tracker \<Rightarrow> bool" where
  "all_working st \<longleftrightarrow> (\<forall>(c, cs) \<in> set (connectionStates st). working (tx_store st) c cs)"

definition producer_free :: "broker \<Rightarrow> object_id \<Rightarrow> bool" where
  "producer_free b p =
     (case b (upper (fst p)) of
        None \<Rightarrow> True
      | Some bc \<Rightarrow> (case bc_sessions bc (canon_id (parent_session p)) of None \<Rightarrow> True | Some bs \<Rightarrow> bs_producers bs (canon_id p) = None))"

definition held_ok :: "object_id set \<Rightarrow> broker \<Rightarrow> transaction_state \<Rightarrow> bool" where
  "held_ok U b ts \<longleftrightarrow> stl_ok ProducerId_compareTo plain_id (ts_producers ts) \<and>
     (\<forall>(k, ps) \<in> set (ts_producers ts). canon_id (pi_id (ps_info ps)) = canon_id k \<and> plain_id (pi_id (ps_info ps)) \<and>
        canon_id k \<in> U \<and> producer_free b (pi_id (ps_info ps)))"

definition flags :: "tracker \<Rightarrow> bool" where
  "flags st \<longleftrightarrow> restoreSessions st \<and> restoreConsumers st \<and> restoreProducers st \<and> restoreTransaction st"

definition tracker_inv :: "object_id set \<Rightarrow> tracker \<Rightarrow> bool" where
  "tracker_inv U st \<longleftrightarrow> objects_ok st \<and> all_working st \<and> (\<forall>ts \<in> set (tx_store st). held_ok U (view st) ts) \<and>
     (\<forall>p. producer_free (view st) p \<or> canon_id p \<in> U) \<and> flags st"

lemma tracker_inv_new: "tracker_inv {} (ConnectionStateTracker_new\<lparr>trackTransactions := t\<rparr>)"
  by (simp add: tracker_inv_def ConnectionStateTracker_new_def objects_ok_def all_working_def view_def producer_free_def flags_def)

section \<open>How the parts are kept\<close>

lemma producer_free_canon: "canon_id p = canon_id q \<Longrightarrow> producer_free b p = producer_free b q"
  unfolding producer_free_def canon_parent by (metis fst_canon)

text \<open>Only a \<open>ProducerInfo\<close> makes a producer live.\<close>

definition new_producer :: "command \<Rightarrow> object_id set" where
  "new_producer c = (case c of ProducerInfo info \<Rightarrow> {canon_id (pi_id info)} | _ \<Rightarrow> {})"

lemma producer_free_on_connection:
  assumes "producer_free b p"
    "\<And>bc. b (upper c) = Some bc \<Longrightarrow> upper c = upper (fst p) \<Longrightarrow>
      (case bc_sessions (f bc) (canon_id (parent_session p)) of None \<Rightarrow> True
       | Some bs \<Rightarrow> bs_producers bs (canon_id p) = None)"
  shows "producer_free (on_connection c f b) p"
  using assms by (auto simp: producer_free_def on_connection_def split: option.splits)

lemma producer_free_on_session:
  assumes "producer_free b p" "\<And>bs. bs_producers bs (canon_id p) = None \<Longrightarrow> bs_producers (f bs) (canon_id p) = None"
  shows "producer_free (on_connection c (upd_session s f) b) p"
proof (rule producer_free_on_connection [OF assms(1)])
  fix bc assume "b (upper c) = Some bc" "upper c = upper (fst p)"
  then show "case bc_sessions (upd_session s f bc) (canon_id (parent_session p)) of None \<Rightarrow> True
       | Some bs \<Rightarrow> bs_producers bs (canon_id p) = None"
    using assms by (auto simp: producer_free_def upd_session_def split: option.splits)
qed

lemma producer_free_step:
  assumes "producer_free b p" "canon_id p \<notin> new_producer c"
  shows "producer_free (broker_step c b) p"
proof (cases "(c, b)" rule: broker_step.cases)
  case (1 info b)
  then show ?thesis using assms(1)
    by (auto simp: producer_free_def new_connection_def new_session_def split: option.splits)
next
  case (2 info b)
  then show ?thesis
    using assms by (auto simp: new_session_def producer_free_def on_connection_def split: option.splits if_splits)
next
  case (5 info b)
  then show ?thesis
    using assms by (auto simp: producer_free_def on_connection_def split: option.splits if_splits)
next
  case (6 d b)
  then show ?thesis using assms by (auto simp: producer_free_def)
next
  case (7 s b)
  then show ?thesis
    using assms by (auto simp: producer_free_def on_connection_def split: option.splits if_splits)
qed (use assms in \<open>auto simp: new_producer_def intro!: producer_free_on_session\<close>)

lemma held_ok_step:
  assumes "held_ok U b ts" "new_producer c \<inter> U = {}"
  shows "held_ok (U \<union> new_producer c) (broker_step c b) ts"
proof -
  have "producer_free (broker_step c b) (pi_id (ps_info ps))" if "(k, ps) \<in> set (ts_producers ts)" for k ps
  proof (rule producer_free_step)
    show "producer_free b (pi_id (ps_info ps))" using assms(1) that by (auto simp: held_ok_def)
    have "canon_id (pi_id (ps_info ps)) \<in> U" using assms(1) that by (auto simp: held_ok_def)
    then show "canon_id (pi_id (ps_info ps)) \<notin> new_producer c" using assms(2) by blast
  qed
  then show ?thesis using assms(1) by (auto simp: held_ok_def)
qed

text \<open>The store grows: states keep their id and do not become empty.\<close>

definition grown :: "transaction_state list \<Rightarrow> transaction_state list \<Rightarrow> bool" where
  "grown store store' \<longleftrightarrow> length store \<le> length store' \<and>
     (\<forall>a < length store. ts_id (store' ! a) = ts_id (store ! a) \<and> (ts_commands (store ! a) \<noteq> [] \<longrightarrow> ts_commands (store' ! a) \<noteq> []))"

lemma grown_refl [simp]: "grown store store"
  by (simp add: grown_def)

lemma grown_update:
  "(\<And>ts. ts_id (f ts) = ts_id ts) \<Longrightarrow> (\<And>ts. ts_commands ts \<noteq> [] \<Longrightarrow> ts_commands (f ts) \<noteq> []) \<Longrightarrow> grown (tx_store st) (tx_store (update_tx a f st))"
  by (auto simp: grown_def update_tx_def) (metis nth_list_update_eq nth_list_update_neq)+

lemma tx_entry_grown: "tx_entry_ok store c k a \<Longrightarrow> grown store store' \<Longrightarrow> tx_entry_ok store' c k a"
  by (auto simp: tx_entry_ok_def grown_def)

lemma working_grown: "working store c cs \<Longrightarrow> grown store store' \<Longrightarrow> working store' c cs"
  using tx_entry_grown by (fastforce simp: working_def)

lemma working_canon: "upper c = upper c' \<Longrightarrow> working store c cs = working store c' cs"
  by (simp add: working_def tx_entry_ok_def)

lemma get_connection_working:
  assumes "objects_ok st" "plain c" "all_working st" "get_connection c st = Ok cs"
  shows "working (tx_store st) c cs"
proof -
  have o: "stl_ok ConnectionId_compareTo plain (connectionStates st)" using assms(1) by (simp add: objects_ok_def)
  have "stl_find conn_less c (connectionStates st) = Some cs"
    using assms(4) by (auto simp: get_connection_def stl_get_def split: option.splits)
  then obtain j where "(j, cs) \<in> set (connectionStates st)" "upper j = upper c" using conn.find_mem [OF o assms(2)] by blast
  then show ?thesis using assms(3) working_canon [of j c] by (auto simp: all_working_def)
qed

lemma set_connection_working:
  assumes "objects_ok st" "plain c" "\<forall>(c, cs) \<in> set (connectionStates st). working store c cs" "working store c cs"
  shows "\<forall>(c, cs) \<in> set (connectionStates (set_connection c cs st)). working store c cs"
proof -
  have "\<forall>(c, cs) \<in> set (stl_put conn_less c cs (connectionStates st)). working store c cs"
  proof (rule conn.put_every)
    show "stl_ok ConnectionId_compareTo plain (connectionStates st)" using assms(1) by (simp add: objects_ok_def)
    show "working store j cs" if "upper j = upper c" for j using that assms(4) working_canon [of j c] by blast
  qed (use assms in auto)
  then show ?thesis by (simp add: set_connection_def)
qed

lemma all_working_set:
  assumes "objects_ok st" "plain c" "all_working st" "working (tx_store st) c cs"
  shows "all_working (set_connection c cs st)"
  using set_connection_working [OF assms(1,2) _ assms(4)] assms(3) by (simp add: all_working_def set_connection_def)

lemma all_working_update:
  assumes "all_working st" "grown (tx_store st) (tx_store (update_tx a f st))"
  shows "all_working (update_tx a f st)"
  using assms working_grown by (fastforce simp: all_working_def update_tx_def)

lemma flags_frame [simp]:
  "flags (set_connection c cs st) = flags st" "flags (update_tx a f st) = flags st" "flags (set_session s ss cs st) = flags st"
  "flags (MessageCache_put m st) = flags st" "flags (MessagePullCache_put k p st) = flags st" "flags (trackBack cmd st) = flags st"
  "flags (st\<lparr>tx_store := x\<rparr>) = flags st" "flags (st\<lparr>connectionStates := y\<rparr>) = flags st"
  by (auto simp: flags_def set_connection_def update_tx_def set_session_def MessageCache_put_def MessagePullCache_put_def trackBack_def Let_def
      split: command.split)

lemma store_frame [simp]:
  "tx_store (set_connection c cs st) = tx_store st" "tx_store (set_session s ss cs st) = tx_store st"
  "tx_store (MessageCache_put m st) = tx_store st" "tx_store (MessagePullCache_put k p st) = tx_store st"
  "connectionStates (MessageCache_put m st) = connectionStates st" "connectionStates (MessagePullCache_put k p st) = connectionStates st"
  "connectionStates (update_tx a f st) = connectionStates st"
  by (auto simp: set_connection_def update_tx_def set_session_def MessageCache_put_def MessagePullCache_put_def Let_def)

section \<open>Every command keeps the invariant\<close>

text \<open>
  The parts that are not about the objects. \<open>kept st out\<close>: the connections work on, the flags stay, and no
  transaction state has got a producer it did not have.
\<close>

definition kept :: "tracker \<Rightarrow> 'a \<times> tracker \<Rightarrow> bool" where
  "kept st out \<longleftrightarrow> all_working (snd out) \<and> flags (snd out) = flags st \<and>
     (\<forall>ts \<in> set (tx_store (snd out)). ts_producers ts = [] \<or> ts_producers ts \<in> ts_producers ` set (tx_store st))"

lemma kept_refl [simp]: "all_working st \<Longrightarrow> kept st (r, st)"
  by (simp add: kept_def)

lemma kept_set: "objects_ok st \<Longrightarrow> plain c \<Longrightarrow> all_working st \<Longrightarrow> working (tx_store st) c cs \<Longrightarrow> kept st (r, set_connection c cs st)"
  by (simp add: kept_def all_working_set)

lemma set_update_tx: "ts \<in> set (tx_store (update_tx a f st)) \<Longrightarrow> ts \<in> set (tx_store st) \<or> (a < length (tx_store st) \<and> ts = f (tx_store st ! a))"
  unfolding update_tx_def by (cases "a < length (tx_store st)") (auto dest: subsetD [OF set_update_subset_insert] simp: list_update_beyond)

lemma kept_command:
  assumes "all_working st"
  shows "kept st (r, update_tx a (addCommand c) st)"
proof -
  have "grown (tx_store st) (tx_store (update_tx a (addCommand c) st))" by (rule grown_update) (simp_all add: addCommand_def)
  then show ?thesis
    using all_working_update [OF assms] set_update_tx [of _ a "addCommand c" st] by (fastforce simp: kept_def addCommand_def)
qed

lemma with_connection_kept:
  assumes "objects_ok st" "plain c" "all_working st"
    and "\<And>cs. get_connection c st = Ok cs \<Longrightarrow> connection_ok c cs \<Longrightarrow> working (tx_store st) c cs \<Longrightarrow> kept st (f cs st)"
  shows "kept st (with_connection c f st)"
  using assms(3,4) get_connection_working [OF assms(1-3)]
  by (intro with_connection_cases [where Q = "kept st", OF assms(1,2)]) auto

lemma with_session_kept:
  assumes "objects_ok st" "plain_id s" "all_working st"
    and "\<And>cs ss. get_connection (fst s) st = Ok cs \<Longrightarrow> connection_ok (fst s) cs \<Longrightarrow> working (tx_store st) (fst s) cs \<Longrightarrow> session_ok s ss \<Longrightarrow> kept st (f cs ss st)"
  shows "kept st (with_session s f st)"
proof (rule with_session_cases [where Q = "kept st", OF assms(1,2)])
  fix cs ss assume "get_connection (fst s) st = Ok cs" "connection_ok (fst s) cs" "session_ok s ss"
  then show "kept st (f cs ss st)"
    using assms(4) get_connection_working [OF assms(1) _ assms(3)] assms(2) by (simp add: plain_id_def)
qed (use assms(3) in simp)

lemma set_session_kept:
  assumes "objects_ok st" "plain_id s" "all_working st" "working (tx_store st) (fst s) cs"
  shows "kept st (r, set_session s ss cs st)"
  using assms unfolding set_session_def by (intro kept_set) (simp_all add: plain_id_def working_def)

lemma working_recovering: "working store c cs \<Longrightarrow> working store c (cs\<lparr>cs_recovering := stl_remove lt k (cs_recovering cs)\<rparr>)"
  by (simp add: working_def)

lemma working_new: "working store c (ConnectionState_new info)"
  by (simp add: working_def ConnectionState_new_def addSession_def)

lemma working_members [simp]:
  fixes cs :: connection_state
  shows "working store c (cs\<lparr>cs_sessions := x\<rparr>) = working store c cs" "working store c (cs\<lparr>cs_temps := y\<rparr>) = working store c cs"
    "working store c (cs\<lparr>cs_info := z\<rparr>) = working store c cs"
  by (simp_all add: working_def)

lemma object_handlers_kept:
  assumes "objects_ok st" "all_working st"
  shows "plain_id (pi_id pinfo) \<Longrightarrow> kept st (processProducerInfo pinfo st)"
    "plain_id (co_id cinfo) \<Longrightarrow> kept st (processConsumerInfo cinfo st)"
    "plain_id k \<Longrightarrow> kept st (processRemoveConsumer k st)"
    "plain_id (si_id sinfo) \<Longrightarrow> kept st (processSessionInfo sinfo st)"
    "plain_id s \<Longrightarrow> kept st (processRemoveSession s st)"
    "plain (di_connection di) \<Longrightarrow> kept st (processDestinationInfo di st)"
    "plain (ci_id info) \<Longrightarrow> kept st (processConnectionInfo info st)"
    "kept st (processRemoveConnection c st)"
proof -
  show "kept st (processProducerInfo pinfo st)" if "plain_id (pi_id pinfo)"
    unfolding processProducerInfo_def using that assms by (intro with_session_kept) (auto intro: set_session_kept)
  show "kept st (processConsumerInfo cinfo st)" if "plain_id (co_id cinfo)"
    unfolding processConsumerInfo_def using that assms by (intro with_session_kept) (auto intro: set_session_kept)
  show "kept st (processRemoveConsumer k st)" if "plain_id k"
    unfolding processRemoveConsumer_def using that assms by (intro with_session_kept) (auto intro!: set_session_kept working_recovering)
  show "kept st (processSessionInfo sinfo st)" if "plain_id (si_id sinfo)"
    unfolding processSessionInfo_def using that assms
    by (intro with_connection_kept) (auto intro!: kept_set simp: addSession_def plain_id_def)
  show "kept st (processRemoveSession s st)" if "plain_id s"
    unfolding processRemoveSession_def using that assms by (intro with_connection_kept) (auto intro!: kept_set simp: plain_id_def)
  show "kept st (processDestinationInfo di st)" if "plain (di_connection di)"
    unfolding processDestinationInfo_def using that assms
    by (intro with_connection_kept) (auto intro!: kept_set simp: addTempDestination_def)
  show "kept st (processConnectionInfo info st)" if "plain (ci_id info)"
    unfolding processConnectionInfo_def using that assms by (auto intro!: kept_set working_new)
  show "kept st (processRemoveConnection c st)"
    using assms conn.remove_set [of c "connectionStates st"] by (auto simp: processRemoveConnection_def kept_def all_working_def)
qed

lemma kept_trans:
  assumes "kept st (r, st1)" "kept st1 out"
  shows "kept st out"
  using assms unfolding kept_def by (auto simp: image_iff) (metis snd_conv)+

lemma setTransactionState_kept:
  assumes "objects_ok st" "all_working st" "plain_id p"
  shows "kept st (setTransactionState p a st)"
  unfolding setTransactionState_def using assms
  by (intro with_session_kept) (auto intro!: set_session_kept split: sum.split)

lemma processMessage_kept:
  assumes "objects_ok st" "all_working st" "plain_id (tm_producer m)"
  shows "kept st (processMessage m st)"
proof (cases "tm_tx m \<noteq> None \<and> trackTransactions st")
  case True
  then obtain t where t: "tm_tx m = Some t" "trackTransactions st" by auto
  have p: "plain (fst (tm_producer m))" using assms(3) by (simp add: plain_id_def)
  have k: "kept st (marked (update_tx a (addCommand (Message m)) st))" for a by (rule kept_command [OF assms(2)])
  have s: "kept st (setTransactionState (tm_producer m) a (update_tx a (addCommand (Message m)) st))" for a
    by (rule kept_trans [OF k setTransactionState_kept]) (use assms k [of a] in \<open>simp_all add: kept_def\<close>)
  show ?thesis
    by (simp only: processMessage_def t option.simps if_True, intro with_connection_kept [OF assms(1) p assms(2)])
      (use k s assms(2) in \<open>auto simp: Let_def t split: sum.split\<close>)
next
  case False
  then show ?thesis using assms(2) by (auto simp: processMessage_def kept_def all_working_def split: option.split)
qed

lemma note_kept:
  assumes "objects_ok st" "all_working st" "case ti_connection info of None \<Rightarrow> True | Some c \<Rightarrow> plain c"
  shows "kept st (note_in_transaction info x y st)"
proof (cases "ti_connection info")
  case (Some c)
  have "kept st (with_connection c (\<lambda>cs st.
          case getTransactionState (ti_id info) cs of
            Throw e \<Rightarrow> (Throw e, st)
          | Ok a \<Rightarrow> (Ok x, update_tx a (addCommand (TransactionInfo info)) st)) st)"
    using assms Some by (intro with_connection_kept) (auto split: sum.split intro: kept_command)
  then show ?thesis using assms(2) Some by (simp add: note_in_transaction_def)
qed (use assms(2) in \<open>simp add: note_in_transaction_def\<close>)

text \<open>A new transaction gets a state of its own.\<close>

lemma begin_kept:
  assumes "objects_ok st" "all_working st" "plain c" "local_tx c (ti_id info)" "ti_connection info = Some c"
  shows "kept st (processBeginTransaction info st)"
proof -
  obtain i where i: "ti_id info = LocalTx i" "plain_id i" "upper (fst i) = upper c"
    using assms(4) by (auto simp: local_tx_def split: tx_id.splits)
  let ?a = "length (tx_store st)" and ?ts = "\<lparr>ts_id = ti_id info, ts_commands = [], ts_producers = []\<rparr>"
  let ?f = "addCommand (TransactionInfo info)"
  have main: "kept st (case addTransactionState (ti_id info) ?a cs of
            Throw e \<Rightarrow> (Throw e, st)
          | Ok cs' \<Rightarrow>
              let st1 = set_connection c cs' (st\<lparr>tx_store := tx_store st @ [?ts]\<rparr>)
              in case getTransactionState (ti_id info) cs' of Throw e \<Rightarrow> (Throw e, st1) | Ok a \<Rightarrow> marked (update_tx a ?f st1))"
    if cs: "working (tx_store st) c cs" for cs
  proof -
    have m: "stl_ok tx_compare plain_key (cs_transactions cs)" "\<forall>(k, a) \<in> set (cs_transactions cs). tx_entry_ok (tx_store st) c k a"
      using cs by (simp_all add: working_def)
    have k: "plain_key (Some i)" using i(2) by (simp add: plain_key_def)
    let ?m = "stl_put tx_less (Some i) ?a (cs_transactions cs)" and ?store = "tx_store st @ [?f ?ts]"
    have put: "stl_ok tx_compare plain_key ?m" "stl_find tx_less (Some i) ?m = Some ?a"
      using txs.put_ok [OF m(1) k] txs.find_abs [OF txs.put_ok [OF m(1) k] k] txs.put_abs [OF m(1) k] by (simp_all add: tx_less_compare)
    have grow: "grown (tx_store st) ?store" by (auto simp: grown_def nth_append)
    have "\<forall>(k, a) \<in> set ?m. tx_entry_ok ?store c k a"
      unfolding tx_less_compare
    proof (rule txs.put_every [OF m(1) k])
      show "\<forall>(k, a) \<in> set (cs_transactions cs). tx_entry_ok ?store c k a" using m(2) tx_entry_grown [OF _ grow] by blast
      show "tx_entry_ok ?store c j ?a" if "map_option canon_id j = map_option canon_id (Some i)" for j
        using that i by (auto simp: tx_entry_ok_def nth_append addCommand_def)
    qed
    then have w: "working ?store c (cs\<lparr>cs_transactions := ?m\<rparr>)" using cs put(1) by (simp add: working_def)
    have nn: "\<not> null_compared (Some i) (cs_transactions cs)" "\<not> null_compared (Some i) ?m"
      using m(1) put(1) by (auto simp: null_compared_def stl_ok_def list_all_iff plain_key_def)
    let ?st1 = "set_connection c (cs\<lparr>cs_transactions := ?m\<rparr>) (st\<lparr>tx_store := ?store\<rparr>)"
    have e: "update_tx ?a ?f (set_connection c (cs\<lparr>cs_transactions := ?m\<rparr>) (st\<lparr>tx_store := tx_store st @ [?ts]\<rparr>)) = ?st1"
      by (simp add: update_tx_def set_connection_def)
    have "\<forall>(c, cs) \<in> set (connectionStates (st\<lparr>tx_store := ?store\<rparr>)). working ?store c cs"
      using assms(2) working_grown [OF _ grow] by (fastforce simp: all_working_def)
    then have "all_working ?st1"
      using set_connection_working [of "st\<lparr>tx_store := ?store\<rparr>" c ?store] assms(1,3) w by (simp add: all_working_def)
    then have "kept st (marked ?st1)" by (auto simp: kept_def addCommand_def)
    then show ?thesis
      using put(2) nn e i(1) by (simp add: addTransactionState_def getTransactionState_def stl_get_def Let_def)
  qed
  have "kept st (with_connection c (\<lambda>cs st.
          case addTransactionState (ti_id info) (length (tx_store st)) cs of
            Throw e \<Rightarrow> (Throw e, st)
          | Ok cs' \<Rightarrow>
              let st1 = set_connection c cs' (st\<lparr>tx_store := tx_store st @ [?ts]\<rparr>)
              in case getTransactionState (ti_id info) cs' of Throw e \<Rightarrow> (Throw e, st1) | Ok a \<Rightarrow> marked (update_tx a ?f st1)) st)"
    by (rule with_connection_kept [OF assms(1,3,2)]) (rule main)
  then show ?thesis using assms(2,5) by (simp add: processBeginTransaction_def)
qed

lemma inv_from_kept:
  assumes "tracker_inv U st" "command_ok c" "new_producer c \<inter> U = {}" "kept st (visit c st)"
  shows "tracker_inv (U \<union> new_producer c) (snd (track c st))"
proof -
  have i: "objects_ok st" "\<forall>ts \<in> set (tx_store st). held_ok U (view st) ts" "\<forall>p. producer_free (view st) p \<or> canon_id p \<in> U" "flags st"
    using assms(1) by (simp_all add: tracker_inv_def)
  have s: "snd (track c st) = snd (visit c st)" by (simp add: track_def case_prod_beta)
  have v: "view (snd (visit c st)) = broker_step c (view st)" "objects_ok (snd (visit c st))" using track_follows [OF i(1) assms(2)] s by simp_all
  have k: "all_working (snd (visit c st))" "flags (snd (visit c st))"
    "\<And>ts. ts \<in> set (tx_store (snd (visit c st))) \<Longrightarrow> ts_producers ts = [] \<or> ts_producers ts \<in> ts_producers ` set (tx_store st)"
    using assms(4) i(4) by (simp_all add: kept_def)
  have "held_ok (U \<union> new_producer c) (broker_step c (view st)) ts" if t: "ts \<in> set (tx_store (snd (visit c st)))" for ts
  proof (cases "ts_producers ts = []")
    case False
    then obtain ts' where "ts' \<in> set (tx_store st)" "ts_producers ts = ts_producers ts'" using k(3) [OF t] by blast
    then show ?thesis using held_ok_step [OF bspec [OF i(2)] assms(3)] by (simp add: held_ok_def)
  qed (simp add: held_ok_def)
  moreover have "producer_free (broker_step c (view st)) p \<or> canon_id p \<in> U \<union> new_producer c" for p
    using i(3) producer_free_step [of "view st" p c] by blast
  ultimately show ?thesis unfolding s tracker_inv_def v using v k by blast
qed

lemma processRemoveProducer_inv:
  assumes "tracker_inv U st" "plain_id k"
  shows "tracker_inv U (snd (track (RemoveInfo (ProducerObj k)) st))"
proof -
  let ?c = "RemoveInfo (ProducerObj k)"
  have i: "objects_ok st" "all_working st" "\<forall>ts \<in> set (tx_store st). held_ok U (view st) ts"
    "\<forall>p. producer_free (view st) p \<or> canon_id p \<in> U" "flags st"
    using assms(1) by (simp_all add: tracker_inv_def)
  have n: "new_producer ?c = {}" by (simp add: new_producer_def)
  have s: "snd (track ?c st) = snd (processRemoveProducer k st)" by (simp add: track_def case_prod_beta)
  have v: "view (snd (processRemoveProducer k st)) = broker_step ?c (view st)" "objects_ok (snd (processRemoveProducer k st))"
    using track_follows [OF i(1), of ?c] assms(2) s by simp_all
  have free: "producer_free (broker_step ?c (view st)) k"
    by (auto simp: producer_free_def on_connection_def upd_session_def split: option.splits if_splits)
  have store: "all_working (snd out) \<and> flags (snd out) \<and> (\<forall>ts \<in> set (tx_store (snd out)). held_ok U (broker_step ?c (view st)) ts)"
    if "out = processRemoveProducer k st" for out
    unfolding that processRemoveProducer_def
  proof (rule with_session_cases [where Q = "\<lambda>out. all_working (snd out) \<and> flags (snd out) \<and>
        (\<forall>ts \<in> set (tx_store (snd out)). held_ok U (broker_step ?c (view st)) ts)", OF i(1)])
    have old: "held_ok U (broker_step ?c (view st)) ts" if "ts \<in> set (tx_store st)" for ts
      using held_ok_step [OF bspec [OF i(3) that], of ?c] n by simp
    show "all_working (snd (Throw NoSuchElementException, st)) \<and> flags (snd (Throw NoSuchElementException, st)) \<and>
      (\<forall>ts \<in> set (tx_store (snd (Throw NoSuchElementException, st))). held_ok U (broker_step ?c (view st)) ts)"
      using i old by simp
    show "plain_id (parent_session k)" using assms(2) by simp
    fix cs ss
    assume c: "get_connection (fst (parent_session k)) st = Ok cs" "view st (upper (fst (parent_session k))) = Some (connection_view cs)"
      "bc_sessions (connection_view cs) (canon_id (parent_session k)) = Some (session_view ss)" "session_ok (parent_session k) ss"
    let ?ss = "ss\<lparr>ss_producers := stl_remove prod_less k (ss_producers ss)\<rparr>"
    let ?st = "set_session (parent_session k) ?ss cs st"
    have p: "plain (fst (parent_session k))" using assms(2) by (simp add: plain_id_def)
    have w: "all_working ?st"
      using set_session_kept [of st "parent_session k" cs "()" ?ss] i get_connection_working [OF i(1) p i(2) c(1)] assms(2)
      by (simp add: kept_def)
    have o: "stl_ok ProducerId_compareTo plain_id (ss_producers ss)" using c(4) by (simp add: session_ok_def)
    have held: "held_ok U (broker_step ?c (view st)) (addProducerState ps ts)"
      if f: "stl_find prod_less k (ss_producers ss) = Some ps" and ts: "ts \<in> set (tx_store st)" for ps ts
    proof -
      obtain j where "(j, ps) \<in> set (ss_producers ss)" "canon_id j = canon_id k" using prod.find_mem [OF o assms(2) f] .
      then have m: "canon_id (pi_id (ps_info ps)) = canon_id k" "plain_id (pi_id (ps_info ps))"
        using c(4) by (auto simp: session_ok_def member_ok_def)
      have "\<not> producer_free (view st) k"
        using c(2,3) f prod.find_abs [OF o assms(2)] by (simp add: producer_free_def session_view_def)
      then have u: "canon_id k \<in> U" using i(4) by blast
      have h: "stl_ok ProducerId_compareTo plain_id (ts_producers ts)" using old [OF ts] by (simp add: held_ok_def)
      have "\<forall>(k', p) \<in> set (stl_put prod_less (pi_id (ps_info ps)) (ps\<lparr>ps_tx := None\<rparr>) (ts_producers ts)).
          canon_id (pi_id (ps_info p)) = canon_id k' \<and> plain_id (pi_id (ps_info p)) \<and> canon_id k' \<in> U \<and>
          producer_free (broker_step ?c (view st)) (pi_id (ps_info p))"
        using old [OF ts] m u free producer_free_canon [OF m(1), of "broker_step ?c (view st)"]
        by (intro prod.put_every [OF h m(2)]) (auto simp: held_ok_def)
      then show ?thesis using prod.put_ok [OF h m(2)] by (simp add: held_ok_def addProducerState_def)
    qed
    have g: "all_working (update_tx a (addProducerState ps) ?st)" for a ps
      by (rule all_working_update [OF w grown_update]) (simp_all add: addProducerState_def)
    have "\<forall>ts \<in> set (tx_store (update_tx a (addProducerState ps) ?st)). held_ok U (broker_step ?c (view st)) ts"
      if "stl_find prod_less k (ss_producers ss) = Some ps" for a ps
      using set_update_tx [of _ a "addProducerState ps" ?st] old held [OF that nth_mem] by auto
    then show "all_working (snd (case removeProducer k ss st of (ss', st') \<Rightarrow> marked (set_session (parent_session k) ss' cs st'))) \<and>
        flags (snd (case removeProducer k ss st of (ss', st') \<Rightarrow> marked (set_session (parent_session k) ss' cs st'))) \<and>
        (\<forall>ts \<in> set (tx_store (snd (case removeProducer k ss st of (ss', st') \<Rightarrow> marked (set_session (parent_session k) ss' cs st')))).
          held_ok U (broker_step ?c (view st)) ts)"
      using w g i(5) old by (auto simp: removeProducer_def Let_def split: option.split)
  qed
  show ?thesis
    unfolding s tracker_inv_def v(1) using store [OF refl] v(2) i(4) producer_free_step [of "view st" _ ?c] n by blast
qed

lemma processMessagePull_kept: "all_working st \<Longrightarrow> kept st (processMessagePull p st)"
  by (auto simp: processMessagePull_def kept_def all_working_def split: option.split)

lemma track_inv:
  assumes "tracker_inv U st" "command_ok c" "new_producer c \<inter> U = {}"
  shows "tracker_inv (U \<union> new_producer c) (snd (track c st))"
proof (cases "\<exists>k. c = RemoveInfo (ProducerObj k)")
  case True
  then show ?thesis using processRemoveProducer_inv [OF assms(1)] assms(2) by (auto simp: new_producer_def)
next
  case False
  have i: "objects_ok st" "all_working st" using assms(1) by (simp_all add: tracker_inv_def)
  have t: "kept st (processTransactionInfo info st)" if "c = TransactionInfo info" for info
  proof -
    have n: "kept st (note_in_transaction info x y st)" for x y
      using that assms(2) i by (intro note_kept) (auto split: option.splits)
    have "kept st (processBeginTransaction info st)"
      using that assms(2) i begin_kept [OF i] by (cases "ti_connection info") (auto simp: processBeginTransaction_def)
    then show ?thesis
      using n i(2) by (simp add: processTransactionInfo_def Let_def processCommitTransactionOnePhase_def processCommitTransactionTwoPhase_def
          processEndTransaction_def processPrepareTransaction_def processRollbackTransaction_def)
  qed
  have "kept st (visit c st)"
  proof (cases c rule: command_ok.cases)
    case (10 m)
    then show ?thesis using assms(2) processMessage_kept [OF i] by simp
  next
    case (11 info)
    then show ?thesis using t by simp
  qed (use assms(2) i(2) False in \<open>auto simp: object_handlers_kept [OF i] processMessagePull_kept\<close>)
  then show ?thesis by (rule inv_from_kept [OF assms])
qed

text \<open>When a commit or rollback is answered, the transaction is forgotten, and no other one.\<close>

lemma same_connection:
  assumes "objects_ok st" "(c, cs) \<in> set (connectionStates st)" "(c', cs') \<in> set (connectionStates st)" "upper c = upper c'"
  shows "cs = cs'"
  using conn.mem_abs [of "connectionStates st"] assms by (metis objects_ok_def option.inject)

lemma answered_working:
  assumes "objects_ok st" "all_working st" "plain c" "get_connection c st = Ok cs" "plain_id i" "upper (fst i) = upper c"
    "stl_find tx_less (Some i) (cs_transactions cs) = found"
  shows "all_working (case found of
        None \<Rightarrow> set_connection c (cs\<lparr>cs_transactions := stl_remove tx_less (Some i) (cs_transactions cs)\<rparr>) st
      | Some a \<Rightarrow> update_tx a TransactionState_clear (set_connection c (cs\<lparr>cs_transactions := stl_remove tx_less (Some i) (cs_transactions cs)\<rparr>) st))"
proof -
  let ?m = "stl_remove tx_less (Some i) (cs_transactions cs)" and ?cs = "cs\<lparr>cs_transactions := stl_remove tx_less (Some i) (cs_transactions cs)\<rparr>"
  have w: "working (tx_store st) c cs" by (rule get_connection_working [OF assms(1,3,2,4)])
  have k: "plain_key (Some i)" using assms(5) by (simp add: plain_key_def)
  have o: "stl_ok tx_compare plain_key (cs_transactions cs)" using w by (simp add: working_def)
  have r: "stl_ok tx_compare plain_key ?m" "set ?m \<subseteq> set (cs_transactions cs)"
    "stl_abs (map_option canon_id) ?m (Some (canon_id i)) = None"
    using txs.remove_ok [OF o] txs.remove_set txs.remove_abs [OF o k] by (simp_all add: tx_less_compare)
  have w': "working (tx_store st) c ?cs" using w r(1,2) by (auto simp: working_def)
  have set: "all_working (set_connection c ?cs st)" by (rule all_working_set [OF assms(1,3,2) w'])
  show ?thesis
  proof (cases found)
    case None
    then show ?thesis using set by simp
  next
    case (Some a)
    let ?st = "set_connection c ?cs st" and ?store = "(tx_store st)[a := TransactionState_clear (tx_store st ! a)]"
    have "stl_find (id_less tx_compare) (Some i) (cs_transactions cs) = Some a" using assms(7) Some by (simp add: tx_less_compare)
    then obtain j where "(j, a) \<in> set (cs_transactions cs)" "map_option canon_id j = map_option canon_id (Some i)"
      using txs.find_mem [OF o k] by blast
    then obtain i' where i': "ts_id (tx_store st ! a) = LocalTx i'" "canon_id i' = canon_id i" "upper (fst i') = upper c"
      using w by (auto simp: working_def tx_entry_ok_def)
    have obj: "objects_ok ?st" using assms(1,3,4) get_connection_view [OF assms(1,3)] by (intro set_connection_view) auto
    have here: "(c0, ?cs) \<in> set (connectionStates ?st)" if "(c0, cs0) \<in> set (connectionStates ?st)" "upper c0 = upper c" for c0 cs0
    proof -
      have "stl_abs upper (connectionStates ?st) (upper c) = Some ?cs"
        using conn.put_abs [of "connectionStates st" c ?cs] assms(1,3) by (simp add: set_connection_def objects_ok_def)
      moreover have "stl_abs upper (connectionStates ?st) (upper c0) = Some cs0" using conn.mem_abs that(1) obj by (auto simp: objects_ok_def)
      ultimately show ?thesis using that by simp
    qed
    have other: "tx_entry_ok ?store c0 k0 a0" if m: "(c0, cs0) \<in> set (connectionStates ?st)" "(k0, a0) \<in> set (cs_transactions cs0)" for c0 cs0 k0 a0
    proof -
      have t: "tx_entry_ok (tx_store st) c0 k0 a0" using set m by (auto simp: all_working_def working_def)
      have "a0 \<noteq> a"
      proof
        assume "a0 = a"
        then have "map_option canon_id k0 = Some (canon_id i)" "upper c0 = upper c" using t i' by (auto simp: tx_entry_ok_def)
        then have "cs0 = ?cs" using here [OF m(1)] same_connection [OF obj m(1)] by blast
        then have "(k0, a0) \<in> set ?m" using m(2) by simp
        then have "stl_abs (map_option canon_id) ?m (map_option canon_id k0) = Some a0" by (rule txs.mem_abs [OF r(1)])
        then show False using r(3) \<open>map_option canon_id k0 = Some (canon_id i)\<close> by simp
      qed
      then show ?thesis using t by (simp add: tx_entry_ok_def)
    qed
    have "working ?store c0 cs0" if "(c0, cs0) \<in> set (connectionStates ?st)" for c0 cs0
      using set other [OF that] that by (auto simp: all_working_def working_def)
    then show ?thesis using Some by (auto simp: all_working_def update_tx_def)
  qed
qed

lemma onResponse_inv:
  assumes "tracker_inv U st" "command_ok (TransactionInfo info)"
  shows "tracker_inv U (snd (Tracked_onResponse (Waiting info) st))"
proof -
  have i: "objects_ok st" "all_working st" "\<forall>ts \<in> set (tx_store st). held_ok U (view st) ts" "flags st"
    using assms(1) by (simp_all add: tracker_inv_def)
  have s: "snd (Tracked_onResponse (Waiting info) st) = snd (RemoveTransactionAction_run info st)"
    by (auto simp: Tracked_onResponse_def split: prod.splits sum.splits)
  have u: "view (snd (RemoveTransactionAction_run info st)) = view st" "objects_ok (snd (RemoveTransactionAction_run info st))"
    using onResponse_unchanged [OF i(1), of info] assms(2) s by (auto simp: unchanged_def split: option.splits)
  have clear: "held_ok U (view st) (TransactionState_clear ts)" for ts by (simp add: held_ok_def TransactionState_clear_def)
  have "all_working (snd (RemoveTransactionAction_run info st)) \<and> flags (snd (RemoveTransactionAction_run info st)) \<and>
      (\<forall>ts \<in> set (tx_store (snd (RemoveTransactionAction_run info st))). held_ok U (view st) ts)"
  proof (cases "ti_connection info")
    case None
    then show ?thesis using i by (simp add: RemoveTransactionAction_run_def)
  next
    case (Some c)
    obtain t where t: "ti_id info = LocalTx t" "plain_id t" "upper (fst t) = upper c" "plain c"
      using assms(2) Some by (auto simp: local_tx_def split: tx_id.splits)
    show ?thesis
    proof (cases "get_connection c st")
      case (Inl e)
      then show ?thesis using i Some by (simp add: RemoveTransactionAction_run_def)
    next
      case (Inr cs)
      note w = answered_working [OF i(1,2) t(4) Inr t(2,3) refl]
      show ?thesis
        using w i Some Inr t(1) clear
        by (auto simp: RemoveTransactionAction_run_def removeTransactionState_def Let_def split: option.splits dest!: set_update_tx)
    qed
  qed
  then show ?thesis using assms(1) u unfolding s tracker_inv_def by auto
qed

lemma trackBack_inv [simp]: "tracker_inv U (trackBack c st) = tracker_inv U st"
proof -
  have "tx_store (trackBack c st) = tx_store st" "connectionStates (trackBack c st) = connectionStates st"
    by (simp_all add: trackBack_def split: command.split)
  then show ?thesis by (simp add: tracker_inv_def all_working_def)
qed

end
