(* ===== verification/Tracker_Replay.thy ===== *)
theory Tracker_Replay
  imports Tracker_Invariant
begin

text \<open>
  What the replay of a tracker sends, as explicit lists of commands, and what it leaves: under the invariant
  every lookup of the replay succeeds, so nothing stops it.
\<close>

section \<open>Keys the comparator identifies\<close>

context comparison
begin

lemma irrefl: "K k \<Longrightarrow> \<not> id_less cmp k k"
  using zero [of k k] by (simp add: id_less_def)

lemma find_canon:
  assumes "list_all K (map fst m)" "K j" "K k" "canon j = canon k"
  shows "stl_find (id_less cmp) j m = stl_find (id_less cmp) k m"
  using assms(1)
proof (induction m)
  case (Cons e m)
  obtain i w where e: "e = (i, w)" by (cases e)
  have "cmp j i = cmp k i" "cmp i j = cmp i k"
    using Cons.prems assms(2-4) less_canon [of j k i] less_canon2 [of j k i] by (simp_all add: e)
  then show ?case using Cons by (simp add: e id_less_def)
qed simp

lemma put_canon:
  assumes "list_all K (map fst m)" "K j" "K k" "canon j = canon k" "stl_find (id_less cmp) k m \<noteq> None"
  shows "stl_put (id_less cmp) j v m = stl_put (id_less cmp) k v m"
  using assms(1,5)
proof (induction m)
  case (Cons e m)
  obtain i w where e: "e = (i, w)" by (cases e)
  have "cmp j i = cmp k i" "cmp i j = cmp i k"
    using Cons.prems assms(2-4) less_canon [of j k i] less_canon2 [of j k i] by (simp_all add: e)
  then show ?case using Cons by (auto simp: e id_less_def split: if_splits)
qed simp

lemma at_entry:
  assumes "stl_ok cmp K (xs @ (k, w) # ys)"
  shows "stl_find (id_less cmp) k (xs @ (k, w) # ys) = Some w" "stl_put (id_less cmp) k v (xs @ (k, w) # ys) = xs @ (k, v) # ys"
proof -
  have "K k" "\<forall>e \<in> set xs. id_less cmp (fst e) k" using assms by (auto simp: stl_ok_def sorted_wrt_append)
  then show "stl_find (id_less cmp) k (xs @ (k, w) # ys) = Some w" "stl_put (id_less cmp) k v (xs @ (k, w) # ys) = xs @ (k, v) # ys"
    using irrefl by (induction xs) auto
qed

end

lemma get_set_same: "plain c \<Longrightarrow> get_connection c (set_connection c cs st) = Ok cs"
  by (simp add: get_connection_def stl_get_def set_connection_def stl_find_put conn.irrefl)

lemma set_set_same: "plain c \<Longrightarrow> set_connection c cs (set_connection c cs' st) = set_connection c cs st"
  by (simp add: set_connection_def stl_put_put conn.irrefl)

lemma get_connection_find: "get_connection c st = Ok cs \<longleftrightarrow> stl_find conn_less c (connectionStates st) = Some cs"
  by (simp add: get_connection_def stl_get_def split: option.splits)

lemma set_get_same: "get_connection c st = Ok cs \<Longrightarrow> set_connection c cs st = st"
  by (simp add: set_connection_def stl_put_same get_connection_find)

lemma get_canon:
  assumes "objects_ok st" "plain c" "plain c'" "upper c = upper c'"
  shows "get_connection c st = get_connection c' st"
  using conn.find_canon [OF _ assms(2-4), of "connectionStates st"] assms(1)
  by (simp add: get_connection_def stl_get_def objects_ok_def stl_ok_def)

lemma set_canon:
  assumes "objects_ok st" "plain c" "plain c'" "upper c = upper c'" "get_connection c' st = Ok cs"
  shows "set_connection c x st = set_connection c' x st"
  using conn.put_canon [OF _ assms(2-4), of "connectionStates st" x] assms(1,5)
  by (simp add: get_connection_find set_connection_def objects_ok_def stl_ok_def)

section \<open>What is sent\<close>

definition throttled :: "int \<Rightarrow> consumer_info \<Rightarrow> bool" where
  "throttled version info \<longleftrightarrow> co_prefetch info > 0 \<and> version > 5"

definition throttle :: "int \<Rightarrow> consumer_info \<Rightarrow> consumer_info" where
  "throttle version info = (if throttled version info then info\<lparr>co_prefetch := 0\<rparr> else info)"

definition recover :: "int \<Rightarrow> consumer_info \<Rightarrow> (object_id \<times> consumer_info) list \<Rightarrow> (object_id \<times> consumer_info) list" where
  "recover version info m = (if throttled version info then stl_put cons_less (co_id info) info m else m)"

definition session_sends :: "int \<Rightarrow> session_state \<Rightarrow> command list" where
  "session_sends version ss = SessionInfo (ss_info ss) # map (\<lambda>(_, ps). ProducerInfo (ps_info ps)) (ss_producers ss) @
     map (\<lambda>(_, info). ConsumerInfo (throttle version info)) (ss_consumers ss)"

definition consumers_of :: "connection_state \<Rightarrow> consumer_info list" where
  "consumers_of cs = concat (map (\<lambda>(_, ss). map snd (ss_consumers ss)) (cs_sessions cs))"

definition reconnect :: "connection_info \<Rightarrow> connection_info" where
  "reconnect info = info\<lparr>ci_failoverReconnect := True\<rparr>"

definition connection_sends :: "int \<Rightarrow> connection_state \<Rightarrow> command list" where
  "connection_sends version cs = ConnectionInfo (reconnect (cs_info cs)) # map DestinationInfo (cs_temps cs) @
     concat (map (\<lambda>(_, ss). session_sends version ss) (cs_sessions cs))"

definition tx_sends :: "transaction_state \<Rightarrow> command list" where
  "tx_sends ts = map (\<lambda>(_, ps). ProducerInfo (ps_info ps)) (ts_producers ts) @ ts_commands ts @
     map (\<lambda>(_, ps). RemoveInfo (ProducerObj (pi_id (ps_info ps)))) (ts_producers ts)"

definition tx_actions :: "transaction_state list \<Rightarrow> action list" where
  "tx_actions tss =
     concat (map (\<lambda>ts. case in_doubt (last (ts_commands ts)) of Some _ \<Rightarrow> [] | None \<Rightarrow> map Send (tx_sends ts)) tss) @
     concat (map (\<lambda>ts. case in_doubt (last (ts_commands ts)) of Some info \<Rightarrow> [Respond (ti_command info)] | None \<Rightarrow> []) tss)"

definition restored :: "int \<Rightarrow> connection_state \<Rightarrow> connection_state" where
  "restored version cs = cs\<lparr>cs_info := reconnect (cs_info cs), cs_recovering := fold (recover version) (consumers_of cs) (cs_recovering cs)\<rparr>"

definition connection_actions :: "int \<Rightarrow> transaction_state list \<Rightarrow> connection_state \<Rightarrow> action list" where
  "connection_actions version store cs =
     map Send (connection_sends version cs) @ tx_actions (map (\<lambda>(_, a). store ! a) (cs_transactions cs))"

section \<open>The replay, step by step\<close>

lemma replay_then_Ok: "f st = (as, Ok (), st') \<Longrightarrow> replay_then f g st = (as @ fst (g st'), fst (snd (g st')), snd (snd (g st')))"
  by (simp add: replay_then_def split: prod.split)

lemma replay_each_oneway: "replay_each (\<lambda>x. oneway (f x)) xs st = (map (\<lambda>x. Send (f x)) xs, Ok (), st)"
  by (induction xs) (simp_all add: replay_skip_def oneway_def replay_then_def)

lemmas each_oneway = replay_each_oneway [where f = "\<lambda>c. c"] replay_each_oneway

lemma oneway_pair: "(\<lambda>(k, x). oneway (f x)) = (\<lambda>e. oneway (f (snd e)))"
  by (simp add: fun_eq_iff case_prod_beta)

lemma restoreConsumer_sends:
  assumes "plain c" "get_connection c st = Ok cs"
  shows "restoreConsumer version c False info st =
    ([Send (ConsumerInfo (throttle version info))], Ok (), set_connection c (cs\<lparr>cs_recovering := recover version info (cs_recovering cs)\<rparr>) st)"
  using assms
  by (auto simp: restoreConsumer_def throttle_def throttled_def recover_def oneway_def replay_then_def set_get_same)

lemma replay_consumers:
  assumes "plain c" "get_connection c st = Ok cs"
  shows "replay_each (\<lambda>(_, info). restoreConsumer version c False info) m st =
    (map (\<lambda>(_, info). Send (ConsumerInfo (throttle version info))) m, Ok (),
     set_connection c (cs\<lparr>cs_recovering := fold (recover version) (map snd m) (cs_recovering cs)\<rparr>) st)"
  using assms(2)
proof (induction m arbitrary: st cs)
  case Nil
  then show ?case by (simp add: replay_skip_def set_get_same)
next
  case (Cons e m)
  obtain k info where e: "e = (k, info)" by (cases e)
  let ?cs = "cs\<lparr>cs_recovering := recover version info (cs_recovering cs)\<rparr>"
  note r = restoreConsumer_sends [OF assms(1) Cons.prems, of version info]
  show ?case
    using Cons.IH [OF get_set_same [OF assms(1), of ?cs st]]
    by (simp add: e replay_then_Ok [where f = "restoreConsumer version c False info", OF r] set_set_same [OF assms(1)])
qed

lemma replay_session:
  assumes "objects_ok st" "flags st" "plain c" "get_connection c st = Ok cs" "\<not> cs_complete cs" "session_ok s ss" "upper (fst s) = upper c"
  shows "replay_then (oneway (SessionInfo (ss_info ss)))
         (replay_then (\<lambda>st. if restoreProducers st then doRestoreProducers ss st else replay_skip st)
           (\<lambda>st. if restoreConsumers st then doRestoreConsumers version ss st else replay_skip st)) st =
    (map Send (session_sends version ss), Ok (),
     set_connection c (cs\<lparr>cs_recovering := fold (recover version) (map snd (ss_consumers ss)) (cs_recovering cs)\<rparr>) st)"
proof -
  let ?c = "fst (si_id (ss_info ss))"
  have f: "restoreProducers st" "restoreConsumers st" using assms(2) by (simp_all add: flags_def)
  have c: "plain ?c" "upper ?c = upper c" using assms(6,7) by (auto simp: session_ok_def plain_id_def canon_id_def)
  have g: "get_connection ?c st = Ok cs" using get_canon [OF assms(1) c(1) assms(3) c(2)] assms(4) by simp
  note s = set_canon [OF assms(1) c(1) assms(3) c(2) assms(4)]
  have d: "doRestoreConsumers version ss st = (map (\<lambda>(_, info). Send (ConsumerInfo (throttle version info))) (ss_consumers ss), Ok (),
     set_connection c (cs\<lparr>cs_recovering := fold (recover version) (map snd (ss_consumers ss)) (cs_recovering cs)\<rparr>) st)"
    using replay_consumers [OF c(1) g] assms(5) g by (simp add: doRestoreConsumers_def Let_def s)
  have p: "doRestoreProducers ss st = (map (\<lambda>(_, ps). Send (ProducerInfo (ps_info ps))) (ss_producers ss), Ok (), st)"
    unfolding doRestoreProducers_def oneway_pair by (simp add: replay_each_oneway case_prod_beta)
  have o: "oneway (SessionInfo (ss_info ss)) st = ([Send (SessionInfo (ss_info ss))], Ok (), st)" by (simp add: oneway_def)
  show ?thesis using f d p o by (simp add: replay_then_Ok session_sends_def case_prod_beta comp_def)
qed

text \<open>The state of a connection during the replay of its sessions: only the recovering consumers change.\<close>

lemma recovering_ok:
  assumes "objects_ok st" "plain c" "connection_ok c cs"
  shows "objects_ok (set_connection c (cs\<lparr>cs_recovering := m\<rparr>) st)"
  using assms by (intro set_connection_view(2)) (simp_all add: connection_ok_def)

lemma replay_sessions:
  assumes "objects_ok st" "flags st" "plain c" "get_connection c st = Ok cs" "\<not> cs_complete cs"
    "\<forall>(s, ss) \<in> set sss. session_ok s ss \<and> upper (fst s) = upper c"
  shows "replay_each (\<lambda>(_, ss). replay_then (oneway (SessionInfo (ss_info ss)))
         (replay_then (\<lambda>st. if restoreProducers st then doRestoreProducers ss st else replay_skip st)
           (\<lambda>st. if restoreConsumers st then doRestoreConsumers version ss st else replay_skip st))) sss st =
    (map Send (concat (map (\<lambda>(_, ss). session_sends version ss) sss)), Ok (),
     set_connection c (cs\<lparr>cs_recovering := fold (recover version) (concat (map (\<lambda>(_, ss). map snd (ss_consumers ss)) sss)) (cs_recovering cs)\<rparr>) st)"
  using assms(1,2,4-6)
proof (induction sss arbitrary: st cs)
  case Nil
  then show ?case by (simp add: replay_skip_def set_get_same)
next
  case (Cons e sss)
  obtain s ss where e: "e = (s, ss)" by (cases e)
  have o: "session_ok s ss" "upper (fst s) = upper c" using Cons.prems(5) by (auto simp: e)
  have co: "connection_ok c cs" using get_connection_view [OF Cons.prems(1) assms(3)] Cons.prems(3) by simp
  let ?cs = "cs\<lparr>cs_recovering := fold (recover version) (map snd (ss_consumers ss)) (cs_recovering cs)\<rparr>"
  have ih: "replay_each (\<lambda>(_, ss). replay_then (oneway (SessionInfo (ss_info ss)))
         (replay_then (\<lambda>st. if restoreProducers st then doRestoreProducers ss st else replay_skip st)
           (\<lambda>st. if restoreConsumers st then doRestoreConsumers version ss st else replay_skip st))) sss (set_connection c ?cs st) =
    (map Send (concat (map (\<lambda>(_, ss). session_sends version ss) sss)), Ok (),
     set_connection c (?cs\<lparr>cs_recovering := fold (recover version) (concat (map (\<lambda>(_, ss). map snd (ss_consumers ss)) sss)) (cs_recovering ?cs)\<rparr>)
       (set_connection c ?cs st))"
    using Cons.prems by (intro Cons.IH recovering_ok [OF Cons.prems(1) assms(3) co]) (auto simp: get_set_same [OF assms(3)])
  show ?case
    unfolding e replay_each.simps prod.case
    by (subst replay_then_Ok, rule replay_session [OF Cons.prems(1,2) assms(3) Cons.prems(3,4) o])
      (simp add: ih set_set_same [OF assms(3)])
qed

lemma restoreTransactionState_sends: "restoreTransactionState ts st = (map Send (tx_sends ts), Ok (), st)"
  unfolding restoreTransactionState_def oneway_pair
  by (simp add: replay_then_def replay_each_oneway replay_each_oneway [where f = "\<lambda>c. c"] tx_sends_def case_prod_beta comp_def)

lemma replay_transactions:
  assumes "\<forall>ts \<in> set tss. ts_commands ts \<noteq> []"
  shows "restore_transactions tss rb st =
    (concat (map (\<lambda>ts. case in_doubt (last (ts_commands ts)) of Some _ \<Rightarrow> [] | None \<Rightarrow> map Send (tx_sends ts)) tss) @
     map (\<lambda>info. Respond (ti_command info)) rb @
     concat (map (\<lambda>ts. case in_doubt (last (ts_commands ts)) of Some info \<Rightarrow> [Respond (ti_command info)] | None \<Rightarrow> []) tss), Ok (), st)"
  using assms
proof (induction tss arbitrary: rb)
  case (Cons ts tss)
  then show ?case
    by (cases "in_doubt (last (ts_commands ts))") (auto simp: replay_then_def restoreTransactionState_sends)
qed simp

lemma replay_connection:
  assumes "objects_ok st" "flags st" "plain c" "get_connection c st = Ok cs" "\<not> cs_complete cs"
    "\<forall>(k, a) \<in> set (cs_transactions cs). ts_commands (tx_store st ! a) \<noteq> []"
  shows "restore_connection version c st = (connection_actions version (tx_store st) cs, Ok (), set_connection c (restored version cs) st)"
proof -
  let ?cs = "cs\<lparr>cs_info := reconnect (cs_info cs)\<rparr>"
  let ?st = "set_connection c ?cs st" and ?st' = "set_connection c (restored version cs) st"
  have co: "connection_ok c cs" using get_connection_view [OF assms(1,3)] assms(4) by simp
  then have co': "connection_ok c ?cs" by (simp add: connection_ok_def reconnect_def)
  have o: "objects_ok ?st" by (rule set_connection_view [OF assms(1,3) co'])
  have s: "doRestoreSessions version ?cs ?st = (map Send (concat (map (\<lambda>(_, ss). session_sends version ss) (cs_sessions cs))), Ok (), ?st')"
    unfolding doRestoreSessions_def
    by (subst replay_sessions [OF o _ assms(3) get_set_same [OF assms(3)]])
      (use assms co in \<open>auto simp: connection_ok_def set_set_same restored_def consumers_of_def\<close>)
  have t: "doRestoreTransactions ?cs ?st' = (tx_actions (map (\<lambda>(_, a). tx_store st ! a) (cs_transactions cs)), Ok (), ?st')"
    unfolding doRestoreTransactions_def
    by (subst replay_transactions) (use assms(6) in \<open>auto simp: tx_actions_def\<close>)
  have d: "doRestoreTempDestinations ?cs ?st = (map (\<lambda>di. Send (DestinationInfo di)) (cs_temps cs), Ok (), ?st)"
    by (simp add: doRestoreTempDestinations_def replay_each_oneway)
  have f: "restoreSessions ?st" "restoreTransaction ?st'" using assms(2) by (simp_all add: flags_def set_connection_def)
  have r: "cs\<lparr>cs_info := (cs_info cs)\<lparr>ci_failoverReconnect := True\<rparr>\<rparr> = ?cs" by (simp add: reconnect_def)
  show ?thesis
    using s t d f by (simp add: restore_connection_def assms(4) Let_def r oneway_def replay_then_def connection_actions_def connection_sends_def comp_def)
qed

section \<open>The replay of a tracker\<close>

text \<open>A replay that visits every connection once and changes no other one.\<close>

lemma replay_walk:
  assumes "objects_ok (st\<lparr>connectionStates := m\<rparr>)" "\<forall>(c, cs) \<in> set m. connection_ok c (f cs)"
    and step: "\<And>c cs n. (c, cs) \<in> set m \<Longrightarrow> objects_ok (st\<lparr>connectionStates := n\<rparr>) \<Longrightarrow> get_connection c (st\<lparr>connectionStates := n\<rparr>) = Ok cs \<Longrightarrow>
      g c (st\<lparr>connectionStates := n\<rparr>) = (acts cs, Ok (), set_connection c (f cs) (st\<lparr>connectionStates := n\<rparr>))"
  shows "replay_each g (map fst m) (st\<lparr>connectionStates := m\<rparr>) =
    (concat (map (\<lambda>(_, cs). acts cs) m), Ok (), st\<lparr>connectionStates := map (\<lambda>(c, cs). (c, f cs)) m\<rparr>)"
proof -
  have "replay_each g (map fst ys) (st\<lparr>connectionStates := xs @ ys\<rparr>) =
      (concat (map (\<lambda>(_, cs). acts cs) ys), Ok (), st\<lparr>connectionStates := xs @ map (\<lambda>(c, cs). (c, f cs)) ys\<rparr>)"
    if "objects_ok (st\<lparr>connectionStates := xs @ ys\<rparr>)" "set ys \<subseteq> set m" for xs ys
    using that
  proof (induction ys arbitrary: xs)
    case Nil
    then show ?case by (simp add: replay_skip_def)
  next
    case (Cons e ys)
    obtain c cs where e: "e = (c, cs)" by (cases e)
    let ?st = "st\<lparr>connectionStates := xs @ (c, cs) # ys\<rparr>"
    have o: "stl_ok ConnectionId_compareTo plain (xs @ (c, cs) # ys)" using Cons.prems(1) by (simp add: objects_ok_def e)
    have p: "set_connection c (f cs) ?st = st\<lparr>connectionStates := (xs @ [(c, f cs)]) @ ys\<rparr>"
      using conn.at_entry(2) [OF o] by (simp add: set_connection_def)
    have g: "g c ?st = (acts cs, Ok (), st\<lparr>connectionStates := (xs @ [(c, f cs)]) @ ys\<rparr>)"
      unfolding p [symmetric] by (rule step) (use Cons.prems conn.at_entry(1) [OF o] in \<open>auto simp: e get_connection_find\<close>)
    have c: "plain c" "connection_ok c (f cs)" using o Cons.prems(2) assms(2) by (auto simp: stl_ok_def e)
    have "objects_ok (st\<lparr>connectionStates := (xs @ [(c, f cs)]) @ ys\<rparr>)"
      unfolding p [symmetric] using Cons.prems(1) c by (intro set_connection_view(2)) (simp_all add: e)
    then show ?case using Cons.IH [of "xs @ [(c, f cs)]"] Cons.prems(2) by (simp add: e replay_then_def g)
  qed
  from this [of "[]" m] show ?thesis using assms(1) by simp
qed

definition completed :: "connection_state \<Rightarrow> connection_state" where
  "completed cs = cs\<lparr>cs_complete := True, cs_recovering := []\<rparr>"

definition interrupted :: "connection_state \<Rightarrow> connection_state" where
  "interrupted cs = cs\<lparr>cs_complete := False\<rparr>"

definition control_actions :: "connection_state \<Rightarrow> action list" where
  "control_actions cs = map (\<lambda>(k, info). Send (ConsumerControl k (co_prefetch info) (co_destination info))) (cs_recovering cs)"

lemmas state_changes = completed_def interrupted_def restored_def reconnect_def

lemma connection_ok_changes [simp]:
  "connection_ok c (completed cs) = connection_ok c cs" "connection_ok c (interrupted cs) = connection_ok c cs"
  "connection_ok c (restored version cs) = connection_ok c cs"
  by (simp_all add: connection_ok_def state_changes)

lemma objects_ok_map:
  assumes "objects_ok st" "\<And>c cs. connection_ok c (f cs) = connection_ok c cs" "connectionStates st' = map (\<lambda>(c, cs). (c, f cs)) (connectionStates st)"
  shows "objects_ok st'"
proof -
  have "map fst (connectionStates st') = map fst (connectionStates st)" by (simp add: assms(3) case_prod_beta)
  moreover have "\<forall>(c, cs) \<in> set (connectionStates st'). connection_ok c cs" using assms(1) by (auto simp: assms(2,3) objects_ok_def)
  ultimately show ?thesis using assms(1) by (simp add: objects_ok_def stl_ok_def)
qed

text \<open>
  A failover: the transport is interrupted, the state replayed to the next broker, and every connection then tells
  that it has processed the interruption.
\<close>

definition failover :: "int \<Rightarrow> replay" where
  "failover version st =
     replay_then (restore version) (replay_each connectionInterruptProcessingComplete (map fst (connectionStates st))) (transportInterrupted st)"

definition cache_actions :: "tracker \<Rightarrow> action list" where
  "cache_actions st = map (\<lambda>(_, m). Send (Message m)) (messageCache st) @ map (\<lambda>(_, p). Send (MessagePull p)) (messagePullCache st)"

definition recovered :: "int \<Rightarrow> connection_state \<Rightarrow> connection_state" where
  "recovered version cs = completed (restored version (interrupted cs))"

definition failover_actions :: "int \<Rightarrow> tracker \<Rightarrow> action list" where
  "failover_actions version st =
     concat (map (\<lambda>(_, cs). connection_actions version (tx_store st) cs) (connectionStates st)) @ cache_actions st @
     concat (map (\<lambda>(_, cs). control_actions (restored version cs)) (connectionStates st))"

lemma transportInterrupted_states:
  "transportInterrupted st = st\<lparr>connectionStates := map (\<lambda>(c, cs). (c, interrupted cs)) (connectionStates st)\<rparr>"
  by (simp add: transportInterrupted_def interrupted_def)

lemma complete_walk:
  assumes "objects_ok (st\<lparr>connectionStates := m\<rparr>)"
  shows "replay_each connectionInterruptProcessingComplete (map fst m) (st\<lparr>connectionStates := m\<rparr>) =
    (concat (map (\<lambda>(_, cs). control_actions cs) m), Ok (), st\<lparr>connectionStates := map (\<lambda>(c, cs). (c, completed cs)) m\<rparr>)"
proof (rule replay_walk [OF assms])
  show "\<forall>(c, cs) \<in> set m. connection_ok c (completed cs)" using assms by (auto simp: objects_ok_def)
qed (simp add: connectionInterruptProcessingComplete_def control_actions_def completed_def)

lemma restore_walk:
  assumes "objects_ok (st\<lparr>connectionStates := m\<rparr>)" "flags st"
    "\<forall>(c, cs) \<in> set m. \<not> cs_complete cs \<and> (\<forall>(k, a) \<in> set (cs_transactions cs). ts_commands (tx_store st ! a) \<noteq> [])"
  shows "replay_each (restore_connection version) (map fst m) (st\<lparr>connectionStates := m\<rparr>) =
    (concat (map (\<lambda>(_, cs). connection_actions version (tx_store st) cs) m), Ok (), st\<lparr>connectionStates := map (\<lambda>(c, cs). (c, restored version cs)) m\<rparr>)"
proof (rule replay_walk [OF assms(1)])
  show "\<forall>(c, cs) \<in> set m. connection_ok c (restored version cs)" using assms by (auto simp: objects_ok_def)
  fix c cs n
  assume a: "(c, cs) \<in> set m" "objects_ok (st\<lparr>connectionStates := n\<rparr>)" "get_connection c (st\<lparr>connectionStates := n\<rparr>) = Ok cs"
  have "plain c" using assms(1) a(1) by (auto simp: objects_ok_def stl_ok_def list_all_iff)
  then show "restore_connection version c (st\<lparr>connectionStates := n\<rparr>) =
      (connection_actions version (tx_store st) cs, Ok (), set_connection c (restored version cs) (st\<lparr>connectionStates := n\<rparr>))"
    using replay_connection [OF a(2) _ _ a(3)] assms(2,3) a(1) by auto
qed

lemma restore_Ok:
  assumes "replay_each (restore_connection version) (map fst (connectionStates st)) st = (as, Ok (), st')"
  shows "restore version st = (as @ cache_actions st', Ok (), st')"
  unfolding restore_def oneway_pair replay_then_Ok [where f = "replay_each (restore_connection version) (map fst (connectionStates st))", OF assms]
  by (simp add: replay_then_def replay_each_oneway cache_actions_def catch_io_def case_prod_beta)

lemma states_update: "connectionStates (st\<lparr>connectionStates := m\<rparr>) = m"
  by simp

lemma failover_replay:
  assumes "objects_ok st" "all_working st" "flags st"
  shows "failover version st =
    (failover_actions version st, Ok (), st\<lparr>connectionStates := map (\<lambda>(c, cs). (c, recovered version cs)) (connectionStates st)\<rparr>)"
proof -
  let ?m = "map (\<lambda>(c, cs). (c, interrupted cs)) (connectionStates st)"
  let ?n = "map (\<lambda>(c, cs). (c, restored version cs)) ?m"
  have o: "objects_ok (st\<lparr>connectionStates := ?m\<rparr>)" by (rule objects_ok_map [OF assms(1), where f = interrupted]) simp_all
  have o': "objects_ok (st\<lparr>connectionStates := ?n\<rparr>)" by (rule objects_ok_map [OF o, where f = "restored version"]) simp_all
  have k: "map fst ?m = map fst (connectionStates st)" "map fst ?n = map fst (connectionStates st)" by (simp_all add: case_prod_beta comp_def)
  have a: "connection_actions version (tx_store st) (interrupted cs) = connection_actions version (tx_store st) cs" for cs
    by (simp add: connection_actions_def connection_sends_def interrupted_def)
  have c: "control_actions (restored version (interrupted cs)) = control_actions (restored version cs)" for cs
    by (simp add: control_actions_def restored_def interrupted_def consumers_of_def)
  have w: "replay_each (restore_connection version) (map fst (connectionStates st)) (st\<lparr>connectionStates := ?m\<rparr>) =
      (concat (map (\<lambda>(_, cs). connection_actions version (tx_store st) cs) ?m), Ok (), st\<lparr>connectionStates := ?n\<rparr>)"
    unfolding k(1) [symmetric]
    by (rule restore_walk [OF o assms(3)])
      (use assms(2) in \<open>fastforce simp: all_working_def working_def tx_entry_ok_def interrupted_def\<close>)
  have r: "restore version (st\<lparr>connectionStates := ?m\<rparr>) =
      (concat (map (\<lambda>(_, cs). connection_actions version (tx_store st) cs) ?m) @ cache_actions st, Ok (), st\<lparr>connectionStates := ?n\<rparr>)"
  proof -
    have "cache_actions (st\<lparr>connectionStates := ?n\<rparr>) = cache_actions st" by (simp add: cache_actions_def)
    moreover have "replay_each (restore_connection version) (map fst (connectionStates (st\<lparr>connectionStates := ?m\<rparr>))) (st\<lparr>connectionStates := ?m\<rparr>) =
        (concat (map (\<lambda>(_, cs). connection_actions version (tx_store st) cs) ?m), Ok (), st\<lparr>connectionStates := ?n\<rparr>)"
      unfolding states_update k(1) by (rule w)
    ultimately show ?thesis using restore_Ok by metis
  qed
  have d: "replay_each connectionInterruptProcessingComplete (map fst (connectionStates st)) (st\<lparr>connectionStates := ?n\<rparr>) =
      (concat (map (\<lambda>(_, cs). control_actions cs) ?n), Ok (), st\<lparr>connectionStates := map (\<lambda>(c, cs). (c, completed cs)) ?n\<rparr>)"
    unfolding k(2) [symmetric] by (rule complete_walk [OF o'])
  show ?thesis
    unfolding failover_def transportInterrupted_states replay_then_Ok [where f = "restore version", OF r] d
    by (simp add: failover_actions_def recovered_def a c case_prod_unfold comp_def)
qed

end
