(* ===== verification/Failover_Restore.thy ===== *)
theory Failover_Restore
  imports Tracker_Replay "HOL-Library.Sublist"
begin

text \<open>
  A failover restores the broker: what the tracker replays makes of a broker that knows nothing the broker its
  clients have built up, for every run of commands, answers and failovers.
\<close>

section \<open>The objects of a connection\<close>

definition sent :: "action list \<Rightarrow> command list" where
  "sent as = concat (map (\<lambda>a. case a of Send c \<Rightarrow> [c] | Respond i \<Rightarrow> []) as)"

lemma sent_simps [simp]:
  "sent [] = []" "sent (as @ bs) = sent as @ sent bs" "sent (map Send cs) = cs" "sent (concat ass) = concat (map sent ass)"
  "sent (Send c # as) = c # sent as" "sent (Respond i # as) = sent as"
proof -
  show "sent (map Send cs) = cs" by (induction cs) (simp_all add: sent_def)
  show "sent (concat ass) = concat (map sent ass)" by (induction ass) (simp_all add: sent_def)
qed (simp_all add: sent_def)

context comparison
begin

lemma fold_abs_map:
  assumes "stl_ok cmp K m"
  shows "fold (\<lambda>(k, v) a. a(canon k \<mapsto> f v)) m a0 = a0 ++ (map_option f \<circ> stl_abs canon m)"
proof -
  have "stl_ok cmp K (map (\<lambda>(k, v). (k, f v)) m)" using assms by (simp add: stl_ok_def case_prod_unfold comp_def)
  then have "fold (\<lambda>(k, v) a. a(canon k \<mapsto> v)) (map (\<lambda>(k, v). (k, f v)) m) a0 = a0 ++ stl_abs canon (map (\<lambda>(k, v). (k, f v)) m)"
    by (rule fold_abs)
  moreover have "stl_abs canon (map (\<lambda>(k, v). (k, f v)) m) = map_option f \<circ> stl_abs canon m" by (induction m) (auto simp: fun_eq_iff)
  ultimately show ?thesis by (simp add: fold_map comp_def case_prod_unfold)
qed

end

lemma stl_abs_map: "stl_abs canon (map (\<lambda>(k, v). (k, f v)) m) = map_option f \<circ> stl_abs canon m"
  by (induction m) (auto simp: fun_eq_iff)

lemma on_connection_at: "upper d = c \<Longrightarrow> on_connection d f (b(c \<mapsto> bc)) = b(c \<mapsto> f bc)"
  by (simp add: on_connection_def)

lemma on_session_at:
  "upper d = c \<Longrightarrow> canon_id s = x \<Longrightarrow>
    on_connection d (upd_session s f) (b(c \<mapsto> bc\<lparr>bc_sessions := S(x \<mapsto> bs)\<rparr>)) = b(c \<mapsto> bc\<lparr>bc_sessions := S(x \<mapsto> f bs)\<rparr>)"
  by (simp add: on_connection_def upd_session_def)

lemma temps_sent:
  assumes "\<forall>di \<in> set ds. upper (di_connection di) = c \<and> di_temporary di"
  shows "fold broker_step (map DestinationInfo ds) (b(c \<mapsto> bc)) = b(c \<mapsto> bc\<lparr>bc_temps := fold temp_op ds (bc_temps bc)\<rparr>)"
  using assms by (induction ds arbitrary: bc) (simp_all add: on_connection_at)

text \<open>A series of commands on the members of one session.\<close>

lemma members_sent:
  assumes "\<forall>x \<in> set xs. canon_id (parent_session (p x)) = canon_id s" "upper (fst s) = c"
    and step: "\<And>x b. broker_step (cmd x) b = on_session (parent_session (p x)) (f x) b"
  shows "fold broker_step (map cmd xs) (b(c \<mapsto> bc\<lparr>bc_sessions := S(canon_id s \<mapsto> bs)\<rparr>)) = b(c \<mapsto> bc\<lparr>bc_sessions := S(canon_id s \<mapsto> fold f xs bs)\<rparr>)"
  using assms(1)
proof (induction xs arbitrary: bs)
  case (Cons x xs)
  have p: "canon_id (parent_session (p x)) = canon_id s" using Cons.prems by simp
  then have "upper (fst (parent_session (p x))) = c" using assms(2) by (metis fst_canon)
  note a = on_session_at [OF this p]
  have "\<forall>x \<in> set xs. canon_id (parent_session (p x)) = canon_id s" using Cons.prems by simp
  from Cons.IH [OF this] show ?case unfolding list.map fold_simps step a .
qed simp

lemma producers_sent:
  assumes "\<forall>(k, ps) \<in> set m. member_ok s k (pi_id (ps_info ps))" "upper (fst s) = c"
  shows "fold broker_step (map (\<lambda>(_, ps). ProducerInfo (ps_info ps)) m) (b(c \<mapsto> bc\<lparr>bc_sessions := S(canon_id s \<mapsto> bs)\<rparr>)) =
    b(c \<mapsto> bc\<lparr>bc_sessions := S(canon_id s \<mapsto> bs\<lparr>bs_producers := fold (\<lambda>(k, ps) a. a(canon_id k \<mapsto> ps_info ps)) m (bs_producers bs)\<rparr>)\<rparr>)"
proof -
  have "fold (\<lambda>e bs. bs\<lparr>bs_producers := (bs_producers bs)(canon_id (pi_id (ps_info (snd e))) \<mapsto> ps_info (snd e))\<rparr>) m bs =
      bs\<lparr>bs_producers := fold (\<lambda>(k, ps) a. a(canon_id k \<mapsto> ps_info ps)) m (bs_producers bs)\<rparr>"
    using assms(1) by (induction m arbitrary: bs) (auto simp: member_ok_def)
  then show ?thesis
    using members_sent [where xs = m and p = "\<lambda>e. pi_id (ps_info (snd e))" and s = s and c = c and cmd = "\<lambda>(_, ps). ProducerInfo (ps_info ps)" and
        f = "\<lambda>e bs. bs\<lparr>bs_producers := (bs_producers bs)(canon_id (pi_id (ps_info (snd e))) \<mapsto> ps_info (snd e))\<rparr>" and b = b and bc = bc and S = S and bs = bs] assms
    by (fastforce simp: member_ok_def canon_parent)
qed

lemma throttle_id [simp]: "co_id (throttle version info) = co_id info"
  by (simp add: throttle_def)

lemma consumers_sent:
  assumes "\<forall>(k, info) \<in> set m. member_ok s k (co_id info)" "upper (fst s) = c"
  shows "fold broker_step (map (\<lambda>(_, info). ConsumerInfo (throttle version info)) m) (b(c \<mapsto> bc\<lparr>bc_sessions := S(canon_id s \<mapsto> bs)\<rparr>)) =
    b(c \<mapsto> bc\<lparr>bc_sessions := S(canon_id s \<mapsto> bs\<lparr>bs_consumers := fold (\<lambda>(k, info) a. a(canon_id k \<mapsto> throttle version info)) m (bs_consumers bs)\<rparr>)\<rparr>)"
proof -
  have "fold (\<lambda>e bs. bs\<lparr>bs_consumers := (bs_consumers bs)(canon_id (co_id (snd e)) \<mapsto> throttle version (snd e))\<rparr>) m bs =
      bs\<lparr>bs_consumers := fold (\<lambda>(k, info) a. a(canon_id k \<mapsto> throttle version info)) m (bs_consumers bs)\<rparr>"
    using assms(1) by (induction m arbitrary: bs) (auto simp: member_ok_def)
  then show ?thesis
    using members_sent [where xs = m and p = "\<lambda>e. co_id (snd e)" and s = s and c = c and cmd = "\<lambda>(_, info). ConsumerInfo (throttle version info)" and
        f = "\<lambda>e bs. bs\<lparr>bs_consumers := (bs_consumers bs)(canon_id (co_id (snd e)) \<mapsto> throttle version (snd e))\<rparr>" and b = b and bc = bc and S = S and bs = bs] assms
    by (fastforce simp: member_ok_def canon_parent)
qed

definition throttled_session :: "int \<Rightarrow> session_state \<Rightarrow> broker_session" where
  "throttled_session version ss = (session_view ss)\<lparr>bs_consumers := map_option (throttle version) \<circ> bs_consumers (session_view ss)\<rparr>"

definition throttled_view :: "int \<Rightarrow> connection_state \<Rightarrow> broker_connection" where
  "throttled_view version cs = (connection_view cs)\<lparr>bc_info := reconnect (cs_info cs),
     bc_sessions := map_option (throttled_session version) \<circ> stl_abs canon_id (cs_sessions cs)\<rparr>"

lemma session_sent:
  assumes "session_ok s ss" "upper (fst s) = c"
  shows "fold broker_step (session_sends version ss) (b(c \<mapsto> bc)) =
    b(c \<mapsto> bc\<lparr>bc_sessions := (bc_sessions bc)(canon_id s \<mapsto> throttled_session version ss)\<rparr>)"
proof -
  have i: "canon_id (si_id (ss_info ss)) = canon_id s" using assms(1) by (simp add: session_ok_def)
  then have c: "upper (fst (si_id (ss_info ss))) = c" using assms(2) by (metis fst_canon)
  have p: "stl_ok ProducerId_compareTo plain_id (ss_producers ss)" "stl_ok ConsumerId_compareTo plain_id (ss_consumers ss)"
    using assms(1) by (simp_all add: session_ok_def)
  have m: "\<forall>(k, ps) \<in> set (ss_producers ss). member_ok s k (pi_id (ps_info ps))" "\<forall>(k, info) \<in> set (ss_consumers ss). member_ok s k (co_id info)"
    using assms(1) by (simp_all add: session_ok_def)
  show ?thesis
    unfolding session_sends_def
    by (simp add: on_connection_at c i producers_sent [OF m(1) assms(2)] consumers_sent [OF m(2) assms(2)]
        prod.fold_abs_map [OF p(1)] cons.fold_abs_map [OF p(2)] new_session_def throttled_session_def session_view_def)
qed

lemma sessions_sent:
  assumes "\<forall>(s, ss) \<in> set m. upper (fst s) = c \<and> session_ok s ss"
  shows "fold broker_step (concat (map (\<lambda>(_, ss). session_sends version ss) m)) (b(c \<mapsto> bc)) =
    b(c \<mapsto> bc\<lparr>bc_sessions := fold (\<lambda>(s, ss) a. a(canon_id s \<mapsto> throttled_session version ss)) m (bc_sessions bc)\<rparr>)"
  using assms
proof (induction m arbitrary: bc)
  case (Cons e m)
  obtain s ss where e: "e = (s, ss)" by (cases e)
  have "session_ok s ss" "upper (fst s) = c" using Cons.prems by (auto simp: e)
  then show ?case using Cons by (simp add: e session_sent del: fun_upd_apply)
qed simp

lemma reconnect_id [simp]: "ci_id (reconnect info) = ci_id info"
  by (simp add: reconnect_def)

lemma connection_sent:
  assumes "connection_ok c cs"
  shows "fold broker_step (connection_sends version cs) b = b(upper c \<mapsto> throttled_view version cs)"
proof -
  have o: "upper (ci_id (cs_info cs)) = upper c" "stl_ok SessionId_compareTo plain_id (cs_sessions cs)"
    "\<forall>(s, ss) \<in> set (cs_sessions cs). upper (fst s) = upper c \<and> session_ok s ss"
    "\<forall>di \<in> set (cs_temps cs). upper (di_connection di) = upper c \<and> di_temporary di"
    using assms by (simp_all add: connection_ok_def)
  have "stl_abs canon_id (cs_sessions cs) (canon_id (ci_id (cs_info cs), - 1)) \<noteq> None"
    using assms by (simp add: connection_ok_def canon_id_def)
  then have d: "[canon_id (ci_id (cs_info cs), - 1) \<mapsto> x] ++ (map_option f \<circ> stl_abs canon_id (cs_sessions cs)) = map_option f \<circ> stl_abs canon_id (cs_sessions cs)"
    for x :: broker_session and f by (auto simp: fun_eq_iff map_add_def split: option.split)
  show ?thesis
    unfolding connection_sends_def
    by (simp add: o(1) temps_sent [OF o(4)] sessions_sent [OF o(3)] sess.fold_abs_map [OF o(2)])
      (simp add: new_connection_def throttled_view_def connection_view_def d)
qed

section \<open>Transactions and messages\<close>

text \<open>A transaction keeps messages and transaction commands, which make and remove no object.\<close>

definition tx_command :: "command \<Rightarrow> bool" where
  "tx_command c = (case c of Message _ \<Rightarrow> True | TransactionInfo _ \<Rightarrow> True | _ \<Rightarrow> False)"

definition noted :: "tracker \<Rightarrow> bool" where
  "noted st \<longleftrightarrow> (\<forall>ts \<in> set (tx_store st). list_all tx_command (ts_commands ts))"

lemma tx_command_step: "tx_command c \<Longrightarrow> broker_step c b = b"
  by (auto simp: tx_command_def split: command.splits)

lemma tx_commands_sent: "list_all tx_command cs \<Longrightarrow> fold broker_step cs b = b"
  by (induction cs) (simp_all add: tx_command_step)

lemma noted_update:
  assumes "noted st" "\<And>ts. list_all tx_command (ts_commands ts) \<Longrightarrow> list_all tx_command (ts_commands (f ts))"
  shows "noted (update_tx a f st)"
  using assms unfolding noted_def by (auto dest!: set_update_tx)

lemma noted_frame [simp]:
  "noted (set_connection c cs st) = noted st" "noted (set_session s ss cs st) = noted st" "noted (MessageCache_put m st) = noted st"
  "noted (MessagePullCache_put k p st) = noted st" "noted (trackBack cmd st) = noted st" "noted (st\<lparr>connectionStates := n\<rparr>) = noted st"
  by (simp_all add: noted_def trackBack_def split: command.split)

lemma noted_with:
  "noted st \<Longrightarrow> (\<And>cs. noted (snd (f cs st))) \<Longrightarrow> noted (snd (with_connection c f st))"
  "noted st \<Longrightarrow> (\<And>cs ss. noted (snd (g cs ss st))) \<Longrightarrow> noted (snd (with_session s g st))"
  by (auto simp: with_session_def with_connection_def split: sum.splits)

lemma noted_transactions:
  assumes "noted st"
  shows "noted (snd (note_in_transaction info x y st))" "noted (snd (processBeginTransaction info st))" "noted (snd (processMessage m st))"
proof -
  have c: "tx_command c \<Longrightarrow> noted st' \<Longrightarrow> noted (update_tx a (addCommand c) st')" for a c st'
    by (rule noted_update) (simp_all add: addCommand_def)
  have t: "tx_command (TransactionInfo info)" "tx_command (Message m)" by (simp_all add: tx_command_def)
  show "noted (snd (note_in_transaction info x y st))"
    using assms c [OF t(1)] by (auto simp: note_in_transaction_def intro!: noted_with split: option.splits sum.splits)
  have "noted (st\<lparr>tx_store := tx_store st @ [\<lparr>ts_id = ti_id info, ts_commands = [], ts_producers = []\<rparr>]\<rparr>)"
    using assms by (auto simp: noted_def)
  then show "noted (snd (processBeginTransaction info st))"
    using assms c [OF t(1)] by (auto simp: processBeginTransaction_def Let_def intro!: noted_with split: option.splits sum.splits)
  show "noted (snd (processMessage m st))"
    using assms c [OF t(2)] by (auto simp: processMessage_def setTransactionState_def Let_def intro!: noted_with split: option.splits sum.splits)
qed

lemma noted_track:
  assumes "noted st"
  shows "noted (snd (track c st))"
proof -
  note t = noted_transactions [OF assms]
  have p: "noted (snd (processRemoveProducer k st))" for k
    using assms
    by (auto simp: processRemoveProducer_def removeProducer_def Let_def addProducerState_def intro!: noted_with noted_update split: option.splits)
  have r: "noted (snd (processRemoveInfo x st))" for x
    using assms p by (cases x) (auto simp: processRemoveConnection_def processRemoveSession_def processRemoveConsumer_def intro!: noted_with)
  have "noted (snd (visit c st))"
    using assms t r
    by (cases c) (auto simp: processConnectionInfo_def processSessionInfo_def processProducerInfo_def processConsumerInfo_def processDestinationInfo_def
        processTransactionInfo_def processCommitTransactionOnePhase_def processCommitTransactionTwoPhase_def processEndTransaction_def
        processPrepareTransaction_def processRollbackTransaction_def processMessagePull_def Let_def intro!: noted_with split: option.splits)
  then show ?thesis by (simp add: track_def case_prod_beta)
qed

lemma noted_onResponse: "noted st \<Longrightarrow> noted (snd (Tracked_onResponse t st))"
  by (auto simp: Tracked_onResponse_def RemoveTransactionAction_run_def TransactionState_clear_def Let_def
      intro!: noted_update split: tracked.splits option.splits sum.splits prod.splits)

text \<open>
  The producers a transaction keeps are announced before its commands and removed after them. As none of them is
  among those of the broker, the broker is afterwards as it was.
\<close>

lemma on_session_commute:
  assumes "\<And>bs. f (g bs) = g (f bs)"
  shows "on_session s f (on_session s' g b) = on_session s' g (on_session s f b)"
proof (cases "b (upper (fst s))")
  case None
  then show ?thesis by (auto simp: on_connection_def split: option.splits)
next
  case (Some bc)
  show ?thesis
  proof (cases "canon_id s = canon_id s'")
    case True
    then have "upper (fst s) = upper (fst s')" by (metis fst_canon)
    then show ?thesis using True Some assms by (auto simp: on_connection_def upd_session_def split: option.splits)
  next
    case False
    then show ?thesis using Some
      by (cases "upper (fst s) = upper (fst s')"; cases "b (upper (fst s'))")
        (auto simp: on_connection_def upd_session_def fun_upd_twist split: option.splits)
  qed
qed

abbreviation announce :: "producer_info \<Rightarrow> broker \<Rightarrow> broker" where "announce info \<equiv> broker_step (ProducerInfo info)"
abbreviation withdraw :: "object_id \<Rightarrow> broker \<Rightarrow> broker" where "withdraw k \<equiv> broker_step (RemoveInfo (ProducerObj k))"

lemma withdraw_announce_other: "canon_id k \<noteq> canon_id (pi_id info) \<Longrightarrow> withdraw k (announce info b) = announce info (withdraw k b)"
  unfolding broker_step.simps by (rule on_session_commute) (simp add: fun_upd_twist)

lemma withdraw_announce: "producer_free b (pi_id info) \<Longrightarrow> withdraw (pi_id info) (announce info b) = b"
  by (auto simp: on_connection_def upd_session_def producer_free_def fun_upd_idem split: option.splits)

lemma withdraw_announces:
  "canon_id k \<notin> (\<lambda>i. canon_id (pi_id i)) ` set is \<Longrightarrow> withdraw k (fold announce is b) = fold announce is (withdraw k b)"
proof (induction "is" arbitrary: b)
  case (Cons i "is")
  then show ?case using withdraw_announce_other [of k i b] by simp
qed simp

lemma announced_and_withdrawn:
  assumes "distinct (map (\<lambda>i. canon_id (pi_id i)) is)" "\<forall>i \<in> set is. producer_free b (pi_id i)"
  shows "fold (\<lambda>i. withdraw (pi_id i)) is (fold announce is b) = b"
  using assms
proof (induction "is")
  case (Cons i "is")
  have "fold (\<lambda>i. withdraw (pi_id i)) (i # is) (fold announce (i # is) b) =
      fold (\<lambda>i. withdraw (pi_id i)) is (fold announce is (withdraw (pi_id i) (announce i b)))"
    using withdraw_announces [of "pi_id i" "is" "announce i b"] Cons.prems(1) by simp
  also have "\<dots> = b" unfolding withdraw_announce [of b i, OF Cons.prems(2) [rule_format, OF list.set_intros(1)]] using Cons.prems by (intro Cons.IH) simp_all
  finally show ?case .
qed simp

lemma transaction_sent:
  assumes "held_ok U b' ts" "\<And>p. producer_free b' p \<Longrightarrow> producer_free b p" "list_all tx_command (ts_commands ts)"
  shows "fold broker_step (tx_sends ts) b = b"
proof -
  let ?is = "map (\<lambda>(k, ps). ps_info ps) (ts_producers ts)"
  have "map (\<lambda>i. canon_id (pi_id i)) ?is = map (canon_id \<circ> fst) (ts_producers ts)" using assms(1) by (auto simp: held_ok_def)
  moreover have "distinct (map (canon_id \<circ> fst) (ts_producers ts))" using assms(1) by (intro prod.ok_distinct) (simp add: held_ok_def)
  ultimately have d: "distinct (map (\<lambda>i. canon_id (pi_id i)) ?is)" by metis
  have "\<forall>i \<in> set ?is. producer_free b' (pi_id i)" using assms(1) by (auto simp: held_ok_def)
  then have f: "\<forall>i \<in> set ?is. producer_free b (pi_id i)" using assms(2) by blast
  have a: "fold broker_step (map (\<lambda>(_, ps). ProducerInfo (ps_info ps)) (ts_producers ts)) b = fold announce ?is b"
    by (simp add: fold_map comp_def case_prod_unfold)
  have w: "fold broker_step (map (\<lambda>(_, ps). RemoveInfo (ProducerObj (pi_id (ps_info ps)))) (ts_producers ts)) c = fold (\<lambda>i. withdraw (pi_id i)) ?is c" for c
    by (simp add: fold_map comp_def case_prod_unfold)
  show ?thesis
    unfolding tx_sends_def fold_append comp_def a w tx_commands_sent [OF assms(3)] by (rule announced_and_withdrawn [OF d f])
qed

lemma transactions_sent:
  assumes "\<forall>ts \<in> set tss. held_ok U b' ts \<and> list_all tx_command (ts_commands ts)" "\<And>p. producer_free b' p \<Longrightarrow> producer_free b p"
  shows "fold broker_step (sent (tx_actions tss)) b = b"
proof -
  have "sent (concat (map (\<lambda>ts. case in_doubt (last (ts_commands ts)) of Some info \<Rightarrow> [Respond (ti_command info)] | None \<Rightarrow> []) tss)) = []"
    by (auto split: option.split)
  moreover have "fold broker_step (sent (concat (map (\<lambda>ts. case in_doubt (last (ts_commands ts)) of Some _ \<Rightarrow> [] | None \<Rightarrow> map Send (tx_sends ts)) tss))) b = b"
    using assms(1)
  proof (induction tss)
    case (Cons ts tss)
    have "fold broker_step (tx_sends ts) b = b" using Cons.prems by (intro transaction_sent [OF _ assms(2)]) auto
    then show ?case using Cons by (auto split: option.split)
  qed simp
  ultimately show ?thesis unfolding tx_actions_def sent_simps(2) fold_append comp_def by (simp only: fold_simps)
qed

section \<open>All connections\<close>

lemma producer_free_le:
  assumes "b \<subseteq>\<^sub>m b'" "producer_free b' p"
  shows "producer_free b p"
  using assms by (auto simp: producer_free_def map_le_def dom_def split: option.splits)

definition throttled_broker :: "int \<Rightarrow> tracker \<Rightarrow> broker" where
  "throttled_broker version st = map_option (throttled_view version) \<circ> stl_abs upper (connectionStates st)"

lemma producer_free_throttled: "producer_free (throttled_broker version st) p = producer_free (view st) p"
  by (simp add: producer_free_def throttled_broker_def view_def throttled_view_def connection_view_def throttled_session_def session_view_def
      split: option.split)

lemma connections_sent:
  assumes "tracker_inv U st" "noted st"
  shows "fold broker_step (sent (concat (map (\<lambda>(_, cs). connection_actions version (tx_store st) cs) (connectionStates st)))) Map.empty =
    throttled_broker version st"
proof -
  let ?B = "throttled_broker version st" and ?f = "throttled_view version"
  have i: "objects_ok st" "all_working st" "\<forall>ts \<in> set (tx_store st). held_ok U (view st) ts" using assms(1) by (simp_all add: tracker_inv_def)
  have o: "stl_ok ConnectionId_compareTo plain (connectionStates st)" using i(1) by (simp add: objects_ok_def)
  have "fold broker_step (sent (concat (map (\<lambda>(_, cs). connection_actions version (tx_store st) cs) m))) b = fold (\<lambda>(c, cs) a. a(upper c \<mapsto> ?f cs)) m b"
    if "set m \<subseteq> set (connectionStates st)" "b \<subseteq>\<^sub>m ?B" for m b
    using that
  proof (induction m arbitrary: b)
    case (Cons e m)
    obtain c cs where e: "e = (c, cs)" by (cases e)
    have m: "(c, cs) \<in> set (connectionStates st)" using Cons.prems(1) by (simp add: e)
    then have "?B (upper c) = Some (?f cs)" using conn.mem_abs [OF o] by (simp add: throttled_broker_def)
    then have l: "b(upper c \<mapsto> ?f cs) \<subseteq>\<^sub>m ?B" using Cons.prems(2) by (auto simp: map_le_def)
    have k: "connection_ok c cs" "working (tx_store st) c cs" using m i(1,2) by (auto simp: objects_ok_def all_working_def)
    have "fold broker_step (sent (tx_actions (map (\<lambda>(_, a). tx_store st ! a) (cs_transactions cs)))) (b(upper c \<mapsto> ?f cs)) = b(upper c \<mapsto> ?f cs)"
    proof (rule transactions_sent [where b' = "view st"])
      show "producer_free (b(upper c \<mapsto> ?f cs)) p" if "producer_free (view st) p" for p
        using producer_free_le [OF l] that by (simp add: producer_free_throttled)
      show "\<forall>ts \<in> set (map (\<lambda>(_, a). tx_store st ! a) (cs_transactions cs)). held_ok U (view st) ts \<and> list_all tx_command (ts_commands ts)"
        using k(2) i(3) assms(2) by (fastforce simp: working_def tx_entry_ok_def noted_def)
    qed
    then have "fold broker_step (sent (connection_actions version (tx_store st) cs)) b = b(upper c \<mapsto> ?f cs)"
      by (simp add: connection_actions_def connection_sent [OF k(1)])
    then show ?case using Cons.IH [OF _ l] Cons.prems(1) by (simp add: e del: fun_upd_apply)
  qed simp
  from this [of "connectionStates st" Map.empty] show ?thesis
    using conn.fold_abs_map [OF o, of ?f Map.empty] by (simp add: throttled_broker_def)
qed

lemma cache_sent: "fold broker_step (sent (cache_actions st)) b = b"
proof -
  have "fold broker_step (sent (map (\<lambda>(_, m). Send (Message m)) ms)) b = b" for ms :: "(nat \<times> tracked_message) list" by (induction ms) auto
  moreover have "fold broker_step (sent (map (\<lambda>(_, p). Send (MessagePull p)) ps)) b = b" for ps :: "(string \<times> message_pull) list" by (induction ps) auto
  ultimately show ?thesis by (simp add: cache_actions_def)
qed

section \<open>The prefetch of the consumers\<close>

text \<open>What the \<open>ConsumerControl\<close> commands for the consumers \<open>r\<close> do to a connection.\<close>

definition set_prefetch :: "(object_id \<Rightarrow> consumer_info option) \<Rightarrow> session_id \<Rightarrow> broker_session \<Rightarrow> broker_session" where
  "set_prefetch r s bs = bs\<lparr>bs_consumers := \<lambda>k. if parent_session k = s
     then (case r k of None \<Rightarrow> bs_consumers bs k | Some i \<Rightarrow> map_option (\<lambda>info. info\<lparr>co_prefetch := co_prefetch i\<rparr>) (bs_consumers bs k))
     else bs_consumers bs k\<rparr>"

definition controlled :: "(object_id \<Rightarrow> consumer_info option) \<Rightarrow> broker_connection \<Rightarrow> broker_connection" where
  "controlled r bc = bc\<lparr>bc_sessions := \<lambda>s. map_option (set_prefetch r s) (bc_sessions bc s)\<rparr>"

lemma set_prefetch_empty: "set_prefetch Map.empty s bs = bs"
  by (rule broker_session.equality) (auto simp: set_prefetch_def)

lemma controlled_empty: "controlled Map.empty bc = bc"
  by (rule broker_connection.equality) (auto simp: controlled_def set_prefetch_empty [abs_def] option.map_ident)

lemma set_prefetch_other: "s \<noteq> parent_session x \<Longrightarrow> set_prefetch (r(x \<mapsto> i)) s bs = set_prefetch r s bs"
  by (rule broker_session.equality) (auto simp: set_prefetch_def fun_eq_iff)

lemma set_prefetch_one:
  "r x = None \<Longrightarrow> set_prefetch (r(x \<mapsto> i)) (parent_session x) bs =
    set_prefetch r (parent_session x) bs\<lparr>bs_consumers := (bs_consumers (set_prefetch r (parent_session x) bs))
      (x := map_option (\<lambda>info. info\<lparr>co_prefetch := co_prefetch i\<rparr>) (bs_consumers (set_prefetch r (parent_session x) bs) x))\<rparr>"
  by (rule broker_session.equality) (auto simp: set_prefetch_def fun_eq_iff)

lemma control_step:
  assumes "upper (fst k) = c" "r (canon_id k) = None"
  shows "broker_step (ConsumerControl k (co_prefetch i) d) (b(c \<mapsto> controlled r bc)) = b(c \<mapsto> controlled (r(canon_id k \<mapsto> i)) bc)"
proof -
  let ?f = "\<lambda>bs. bs\<lparr>bs_consumers :=
       (bs_consumers bs)(canon_id k := map_option (\<lambda>info. info\<lparr>co_prefetch := co_prefetch i\<rparr>) (bs_consumers bs (canon_id k)))\<rparr>"
  have "bc_sessions (upd_session (parent_session k) ?f (controlled r bc)) s = bc_sessions (controlled (r(canon_id k \<mapsto> i)) bc) s" for s
  proof (cases "s = parent_session (canon_id k)")
    case True
    then show ?thesis
      by (cases "bc_sessions bc s") (simp_all add: upd_session_def controlled_def canon_parent set_prefetch_one [of r, OF assms(2)])
  next
    case False
    then show ?thesis
      by (auto simp: upd_session_def controlled_def canon_parent set_prefetch_other [OF False, of r i, abs_def] split: option.splits)
  qed
  then have "upd_session (parent_session k) ?f (controlled r bc) = controlled (r(canon_id k \<mapsto> i)) bc"
    by (intro broker_connection.equality ext) (auto simp: upd_session_def controlled_def split: option.splits)
  then show ?thesis using assms(1) by (simp add: on_connection_at del: fun_upd_apply)
qed

lemma controls_sent:
  assumes "stl_ok ConsumerId_compareTo plain_id m" "\<forall>(k, i) \<in> set m. upper (fst k) = c"
  shows "fold broker_step (sent (map (\<lambda>(k, i). Send (ConsumerControl k (co_prefetch i) (co_destination i))) m)) (b(c \<mapsto> bc)) =
    b(c \<mapsto> controlled (stl_abs canon_id m) bc)"
proof -
  have "fold broker_step (sent (map (\<lambda>(k, i). Send (ConsumerControl k (co_prefetch i) (co_destination i))) m)) (b(c \<mapsto> controlled r bc)) =
      b(c \<mapsto> controlled (fold (\<lambda>(k, i) a. a(canon_id k \<mapsto> i)) m r) bc)"
    if "distinct (map (canon_id \<circ> fst) m)" "\<forall>(k, i) \<in> set m. upper (fst k) = c" "\<forall>(k, i) \<in> set m. r (canon_id k) = None" for m r
    using that
  proof (induction m arbitrary: r)
    case (Cons e m)
    obtain k i where e: "e = (k, i)" by (cases e)
    have "\<forall>(k', i') \<in> set m. (r(canon_id k \<mapsto> i)) (canon_id k') = None" using Cons.prems(1,3) by (force simp: e)
    then show ?case using Cons.IH [of "r(canon_id k \<mapsto> i)"] Cons.prems control_step [of k c r i] by (simp add: e del: fun_upd_apply broker_step.simps)
  qed simp
  from this [OF cons.ok_distinct [OF assms(1)] assms(2), of Map.empty] show ?thesis
    by (simp add: controlled_empty cons.fold_abs [OF assms(1)])
qed

text \<open>The recovering consumers of a connection: those that were throttled.\<close>

lemma recovering_abs:
  assumes "\<forall>i \<in> set is. plain_id (co_id i) \<and> upper (fst (co_id i)) = c" "stl_ok ConsumerId_compareTo plain_id m" "\<forall>(k, i) \<in> set m. upper (fst k) = c"
  shows "stl_ok ConsumerId_compareTo plain_id (fold (recover version) is m)" "\<forall>(k, i) \<in> set (fold (recover version) is m). upper (fst k) = c"
    "stl_abs canon_id (fold (recover version) is m) =
      fold (\<lambda>i a. if throttled version i then a(canon_id (co_id i) \<mapsto> i) else a) is (stl_abs canon_id m)"
proof -
  have "stl_ok ConsumerId_compareTo plain_id (fold (recover version) is m) \<and> (\<forall>(k, i) \<in> set (fold (recover version) is m). upper (fst k) = c) \<and>
      stl_abs canon_id (fold (recover version) is m) =
        fold (\<lambda>i a. if throttled version i then a(canon_id (co_id i) \<mapsto> i) else a) is (stl_abs canon_id m)"
    using assms
  proof (induction "is" arbitrary: m)
    case (Cons i "is")
    have p: "plain_id (co_id i)" "upper (fst (co_id i)) = c" using Cons.prems(1) by simp_all
    have "\<forall>(k, j) \<in> set (stl_put cons_less (co_id i) i m). upper (fst k) = c"
      using p Cons.prems(3) by (intro cons.put_every [OF Cons.prems(2) p(1)]) (auto simp: canon_id_def)
    then have "stl_ok ConsumerId_compareTo plain_id (recover version i m)" "\<forall>(k, j) \<in> set (recover version i m). upper (fst k) = c"
      using cons.put_ok [OF Cons.prems(2) p(1)] Cons.prems(2,3) by (simp_all add: recover_def)
    moreover have "stl_abs canon_id (recover version i m) = (if throttled version i then (stl_abs canon_id m)(canon_id (co_id i) \<mapsto> i) else stl_abs canon_id m)"
      using cons.put_abs [OF Cons.prems(2) p(1)] by (simp add: recover_def)
    ultimately show ?case using Cons.IH [of "recover version i m"] Cons.prems(1) by (simp del: fun_upd_apply)
  qed simp
  then show "stl_ok ConsumerId_compareTo plain_id (fold (recover version) is m)" "\<forall>(k, i) \<in> set (fold (recover version) is m). upper (fst k) = c"
    "stl_abs canon_id (fold (recover version) is m) =
      fold (\<lambda>i a. if throttled version i then a(canon_id (co_id i) \<mapsto> i) else a) is (stl_abs canon_id m)" by simp_all
qed

lemma fold_upd_Some:
  assumes "fold (\<lambda>i a. if P i then a(f i \<mapsto> i) else a) is a0 k = Some i" "a0 k = None"
  shows "i \<in> set is \<and> P i \<and> f i = k"
  using assms by (induction "is" rule: rev_induct) (auto split: if_splits)

lemma fold_upd_mem:
  assumes "i \<in> set is" "P i" "\<forall>j \<in> set is. f j = f i \<longrightarrow> j = i"
  shows "fold (\<lambda>i a. if P i then a(f i \<mapsto> i) else a) is a0 (f i) = Some i"
  using assms by (induction "is" rule: rev_induct) (auto split: if_splits)

lemma stl_abs_Some: "stl_abs canon m x = Some v \<Longrightarrow> \<exists>k. (k, v) \<in> set m \<and> canon k = x"
  by (auto simp: stl_abs_def dest!: map_of_SomeD)

lemma consumer_found:
  assumes "connection_ok c cs" "(s, ss) \<in> set (cs_sessions cs)" "(k, i) \<in> set (ss_consumers ss)"
  shows "stl_abs canon_id (cs_sessions cs) (parent_session (canon_id (co_id i))) = Some ss" "stl_abs canon_id (ss_consumers ss) (canon_id (co_id i)) = Some i"
    "plain_id (co_id i)" "upper (fst (co_id i)) = upper c"
proof -
  have o: "stl_ok SessionId_compareTo plain_id (cs_sessions cs)" "session_ok s ss" "upper (fst s) = upper c"
    using assms(1,2) by (auto simp: connection_ok_def)
  then have m: "canon_id (co_id i) = canon_id k" "canon_id (parent_session k) = canon_id s" "plain_id (co_id i)"
    using assms(3) by (auto simp: session_ok_def member_ok_def)
  show "stl_abs canon_id (cs_sessions cs) (parent_session (canon_id (co_id i))) = Some ss"
    using sess.mem_abs [OF o(1) assms(2)] m by (simp add: canon_parent)
  show "stl_abs canon_id (ss_consumers ss) (canon_id (co_id i)) = Some i"
    using cons.mem_abs [of "ss_consumers ss" k i] o(2) assms(3) m(1) by (simp add: session_ok_def)
  show "plain_id (co_id i)" by (rule m)
  show "upper (fst (co_id i)) = upper c" using m o(3) by (metis fst_canon fst_parent)
qed

lemma consumers_of_mem: "i \<in> set (consumers_of cs) \<longleftrightarrow> (\<exists>s ss k. (s, ss) \<in> set (cs_sessions cs) \<and> (k, i) \<in> set (ss_consumers ss))"
  by (force simp: consumers_of_def)

lemma consumer_unique:
  assumes "connection_ok c cs" "i \<in> set (consumers_of cs)" "j \<in> set (consumers_of cs)" "canon_id (co_id i) = canon_id (co_id j)"
  shows "i = j"
  using assms consumer_found(1,2) [OF assms(1)] unfolding consumers_of_mem by (metis option.inject)

lemma session_controlled:
  assumes "connection_ok c cs" "stl_abs canon_id (cs_sessions cs) s = Some ss"
    and r: "r = fold (\<lambda>i a. if throttled version i then a(canon_id (co_id i) \<mapsto> i) else a) (consumers_of cs) Map.empty"
  shows "set_prefetch r s (throttled_session version ss) = session_view ss"
proof -
  obtain s0 where s0: "(s0, ss) \<in> set (cs_sessions cs)" "canon_id s0 = s" using stl_abs_Some [OF assms(2)] by blast
  have "bs_consumers (set_prefetch r s (throttled_session version ss)) k = bs_consumers (session_view ss) k" for k
  proof (cases "stl_abs canon_id (ss_consumers ss) k")
    case None
    then show ?thesis by (auto simp: set_prefetch_def throttled_session_def session_view_def split: option.split)
  next
    case (Some i)
    obtain k0 where k0: "(k0, i) \<in> set (ss_consumers ss)" "canon_id k0 = k" using stl_abs_Some [OF Some] by blast
    have "session_ok s0 ss" using assms(1) s0(1) by (auto simp: connection_ok_def)
    then have k: "canon_id (co_id i) = k" "parent_session k = s" using k0 s0(2) by (auto simp: session_ok_def member_ok_def canon_parent)
    have m: "i \<in> set (consumers_of cs)" using s0(1) k0(1) consumers_of_mem by blast
    have u: "\<forall>j \<in> set (consumers_of cs). canon_id (co_id j) = canon_id (co_id i) \<longrightarrow> j = i" using consumer_unique [OF assms(1)] m by blast
    show ?thesis
    proof (cases "throttled version i")
      case True
      have "r (canon_id (co_id i)) = Some i" unfolding r using fold_upd_mem [where f = "\<lambda>i. canon_id (co_id i)" and P = "throttled version", OF m True u] .
      then show ?thesis using Some k by (simp add: set_prefetch_def throttled_session_def session_view_def throttle_def)
    next
      case False
      have "r k = None"
      proof (cases "r k")
        case (Some j)
        then have "j \<in> set (consumers_of cs) \<and> throttled version j \<and> canon_id (co_id j) = k" unfolding r by (rule fold_upd_Some) simp
        then show ?thesis using u k(1) False by auto
      qed simp
      then show ?thesis using Some False by (simp add: set_prefetch_def throttled_session_def session_view_def throttle_def)
    qed
  qed
  then show ?thesis by (intro broker_session.equality ext) (simp_all add: set_prefetch_def throttled_session_def)
qed

lemma recovered_view: "connection_view (recovered version cs) = (connection_view cs)\<lparr>bc_info := reconnect (bc_info (connection_view cs))\<rparr>"
  by (simp add: connection_view_def recovered_def state_changes)

lemma views:
  "bc_sessions (controlled r (throttled_view version cs)) s = map_option (set_prefetch r s) ((map_option (throttled_session version) \<circ> stl_abs canon_id (cs_sessions cs)) s)"
  "bc_sessions (connection_view (recovered version cs)) s = (map_option session_view \<circ> stl_abs canon_id (cs_sessions cs)) s"
  "bc_info (controlled r bc) = bc_info bc" "bc_temps (controlled r bc) = bc_temps bc" "broker_connection.more (controlled r bc) = broker_connection.more bc"
  by (simp_all add: controlled_def throttled_view_def recovered_view) (simp_all add: connection_view_def)

lemma connection_controlled:
  assumes "connection_ok c cs" "cs_recovering cs = []"
  shows "fold broker_step (sent (control_actions (restored version cs))) (b(upper c \<mapsto> throttled_view version cs)) =
    b(upper c \<mapsto> connection_view (recovered version cs))"
proof -
  let ?m = "cs_recovering (restored version cs)"
  let ?r = "fold (\<lambda>i a. if throttled version i then a(canon_id (co_id i) \<mapsto> i) else a) (consumers_of cs) Map.empty"
  have p: "\<forall>i \<in> set (consumers_of cs). plain_id (co_id i) \<and> upper (fst (co_id i)) = upper c"
  proof
    fix i assume "i \<in> set (consumers_of cs)"
    then obtain s ss k where "(s, ss) \<in> set (cs_sessions cs)" "(k, i) \<in> set (ss_consumers ss)" unfolding consumers_of_mem by blast
    then show "plain_id (co_id i) \<and> upper (fst (co_id i)) = upper c" using consumer_found(3,4) [OF assms(1)] by simp
  qed
  have q: "?m = fold (recover version) (consumers_of cs) []" using assms(2) by (simp add: restored_def)
  have e: "\<forall>(k, i) \<in> set ([] :: (object_id \<times> consumer_info) list). upper (fst k) = upper c" by simp
  note r = recovering_abs [OF p stl_ok_Nil e, of version]
  have m: "stl_ok ConsumerId_compareTo plain_id ?m" "\<forall>(k, i) \<in> set ?m. upper (fst k) = upper c" "stl_abs canon_id ?m = ?r"
    unfolding q by (rule r(1), rule r(2), unfold r(3) stl_abs_Nil, rule refl)
  have v: "controlled ?r (throttled_view version cs) = connection_view (recovered version cs)"
  proof (intro broker_connection.equality ext)
    fix s
    show "bc_sessions (controlled ?r (throttled_view version cs)) s = bc_sessions (connection_view (recovered version cs)) s"
    proof (cases "stl_abs canon_id (cs_sessions cs) s")
      case None
      then show ?thesis unfolding views by simp
    next
      case (Some ss)
      show ?thesis unfolding views o_apply Some option.map session_controlled [OF assms(1) Some refl] ..
    qed
  qed (simp_all add: views(3-) recovered_view throttled_view_def, simp_all add: connection_view_def)
  show ?thesis unfolding control_actions_def controls_sent [OF m(1,2)] m(3) v ..
qed

lemma connections_controlled:
  assumes "\<forall>(c, cs) \<in> set m. connection_ok c cs \<and> cs_recovering cs = [] \<and> b (upper c) = Some (throttled_view version cs)" "distinct (map (upper \<circ> fst) m)"
  shows "fold broker_step (sent (concat (map (\<lambda>(_, cs). control_actions (restored version cs)) m))) b =
    fold (\<lambda>(c, cs) a. a(upper c \<mapsto> connection_view (recovered version cs))) m b"
  using assms
proof (induction m arbitrary: b)
  case (Cons e m)
  obtain c cs where e: "e = (c, cs)" by (cases e)
  let ?b = "b(upper c \<mapsto> connection_view (recovered version cs))"
  have "b(upper c \<mapsto> throttled_view version cs) = b" using Cons.prems(1) by (simp add: e fun_upd_idem)
  then have "fold broker_step (sent (control_actions (restored version cs))) b = ?b"
    using connection_controlled [of c cs version b] Cons.prems(1) by (simp add: e del: fun_upd_apply)
  moreover have "\<forall>(c', cs') \<in> set m. ?b (upper c') = Some (throttled_view version cs')"
    using Cons.prems by (force simp: e)
  then have "fold broker_step (sent (concat (map (\<lambda>(_, cs). control_actions (restored version cs)) m))) ?b =
      fold (\<lambda>(c, cs) a. a(upper c \<mapsto> connection_view (recovered version cs))) m ?b"
    using Cons.prems by (intro Cons.IH) (auto simp: e)
  ultimately show ?case by (simp add: e del: fun_upd_apply)
qed simp

lemma failover_sent:
  assumes "tracker_inv U st" "noted st"
  shows "fold broker_step (sent (failover_actions version st)) Map.empty =
    map_option (\<lambda>cs. connection_view (recovered version cs)) \<circ> stl_abs upper (connectionStates st)"
proof -
  have i: "objects_ok st" "all_working st" using assms(1) by (simp_all add: tracker_inv_def)
  have o: "stl_ok ConnectionId_compareTo plain (connectionStates st)" using i(1) by (simp add: objects_ok_def)
  have a: "\<forall>(c, cs) \<in> set (connectionStates st). connection_ok c cs \<and> cs_recovering cs = [] \<and>
      throttled_broker version st (upper c) = Some (throttled_view version cs)"
    using i conn.mem_abs [OF o] by (fastforce simp: objects_ok_def all_working_def working_def throttled_broker_def)
  have "fold broker_step (sent (failover_actions version st)) Map.empty =
      fold (\<lambda>(c, cs) a. a(upper c \<mapsto> connection_view (recovered version cs))) (connectionStates st) (throttled_broker version st)"
    unfolding failover_actions_def sent_simps(2) fold_append comp_def connections_sent [OF assms] cache_sent
    by (rule connections_controlled [OF a conn.ok_distinct [OF o]])
  also have "\<dots> = throttled_broker version st ++ (map_option (\<lambda>cs. connection_view (recovered version cs)) \<circ> stl_abs upper (connectionStates st))"
    by (rule conn.fold_abs_map [OF o])
  also have "\<dots> = map_option (\<lambda>cs. connection_view (recovered version cs)) \<circ> stl_abs upper (connectionStates st)"
    by (auto simp: fun_eq_iff map_add_def throttled_broker_def split: option.split)
  finally show ?thesis .
qed

section \<open>Runs\<close>

text \<open>
  The life of a tracker and of the brokers its transport is connected to: commands are sent, commits and rollbacks
  answered, and now and then the broker is lost and a new one gets what the tracker replays. Producer ids are not
  used twice.
\<close>

inductive client_run :: "object_id set \<Rightarrow> tracker \<Rightarrow> broker \<Rightarrow> bool" where
  start: "client_run {} (ConnectionStateTracker_new\<lparr>trackTransactions := t\<rparr>) Map.empty"
| command: "client_run U st b \<Longrightarrow> command_ok c \<Longrightarrow> new_producer c \<inter> U = {} \<Longrightarrow>
    client_run (U \<union> new_producer c) (trackBack c (snd (track c st))) (broker_step c b)"
| answer: "client_run U st b \<Longrightarrow> command_ok (TransactionInfo info) \<Longrightarrow> client_run U (snd (Tracked_onResponse (Waiting info) st)) b"
| failure: "client_run U st b \<Longrightarrow> failover version st = (as, r, st') \<Longrightarrow> client_run U st' (fold broker_step (sent as) Map.empty)"

lemma failover_inv:
  assumes "tracker_inv U st"
  shows "tracker_inv U (st\<lparr>connectionStates := map (\<lambda>(c, cs). (c, recovered version cs)) (connectionStates st)\<rparr>)" (is "tracker_inv U ?st")
proof -
  have i: "objects_ok st" "all_working st" "flags st" using assms by (simp_all add: tracker_inv_def)
  have o: "objects_ok ?st" by (rule objects_ok_map [OF i(1), where f = "recovered version"]) (simp_all add: recovered_def)
  have w: "all_working ?st" using i(2) by (fastforce simp: all_working_def working_def recovered_def state_changes)
  have f: "producer_free (view ?st) = producer_free (view st)"
    by (auto simp: fun_eq_iff producer_free_def view_def stl_abs_map recovered_view split: option.split)
  then have "held_ok U (view ?st) = held_ok U (view st)" by (simp only: held_ok_def [abs_def])
  then show ?thesis using assms o w f by (simp add: tracker_inv_def)
qed

lemma client_run_inv: "client_run U st b \<Longrightarrow> tracker_inv U st \<and> noted st \<and> view st = b"
proof (induction rule: client_run.induct)
  case (start t)
  have "noted (ConnectionStateTracker_new\<lparr>trackTransactions := t\<rparr>)" "view (ConnectionStateTracker_new\<lparr>trackTransactions := t\<rparr>) = Map.empty"
    by (simp_all add: noted_def ConnectionStateTracker_new_def view_def)
  then show ?case using tracker_inv_new by blast
next
  case (command U st b c)
  then have "objects_ok st" by (simp add: tracker_inv_def)
  then show ?case using command track_inv [of U st c] track_follows [of st c] noted_track by simp
next
  case (answer U st b info)
  have "view (snd (Tracked_onResponse (Waiting info) st)) = view st"
    using onResponse_unchanged [of st info] answer by (auto simp: unchanged_def tracker_inv_def split: option.splits)
  then show ?case using answer onResponse_inv noted_onResponse by blast
next
  case (failure U st b version as r st')
  have r: "failover version st = (failover_actions version st, Ok (), st\<lparr>connectionStates := map (\<lambda>(c, cs). (c, recovered version cs)) (connectionStates st)\<rparr>)"
    using failure by (intro failover_replay) (simp_all add: tracker_inv_def)
  then have "st' = st\<lparr>connectionStates := map (\<lambda>(c, cs). (c, recovered version cs)) (connectionStates st)\<rparr>" "as = failover_actions version st"
    using failure.hyps(2) by simp_all
  then show ?case using failure failover_inv [of U st version] failover_sent [of U st version] by (simp add: view_def stl_abs_map fun_eq_iff option.map_comp comp_def)
qed

text \<open>
  \<^bold>\<open>C2.\<close> Failover restores the broker (\<open>ConnectionStateTracker::track\<close>, \<open>restore\<close>,
  \<open>connectionInterruptProcessingComplete\<close>). After every run of commands, answers and earlier failovers, the replay
  to a new broker that knows nothing succeeds, whatever its wire format version, and what it sends rebuilds
  exactly the connections, temporary destinations, sessions, producers and consumers (with their prefetch) that
  the lost broker had; only the connections are marked as reconnected.
\<close>

theorem failover_restores_broker:
  assumes "client_run U st b"
  shows "\<exists>as st'. failover version st = (as, Ok (), st') \<and>
    fold broker_step (sent as) Map.empty = map_option (\<lambda>bc. bc\<lparr>bc_info := reconnect (bc_info bc)\<rparr>) \<circ> b"
proof -
  have i: "tracker_inv U st" "noted st" "view st = b" using client_run_inv [OF assms] by simp_all
  have "map_option (\<lambda>cs. connection_view (recovered version cs)) \<circ> stl_abs upper (connectionStates st) = map_option (\<lambda>bc. bc\<lparr>bc_info := reconnect (bc_info bc)\<rparr>) \<circ> view st"
    by (auto simp: fun_eq_iff view_def option.map_comp comp_def recovered_view)
  then show ?thesis using failover_replay [of st version] failover_sent [OF i(1,2), of version] i(1,3) by (simp add: tracker_inv_def)
qed

lemma sublist_concat: "x \<in> set xs \<Longrightarrow> sublist x (concat xs)"
  by (induction xs) (auto intro: sublist_appendI sublist_order.order.trans simp: sublist_append_rightI sublist_append_leftI)


text \<open>A run: a client with a consumer sends a message in a transaction and closes the producer.\<close>

definition demo_commands :: "command list" where
  "demo_commands =
     [ConnectionInfo \<lparr>ci_id = ''c1'', ci_failoverReconnect = False, ci_rest = ''''\<rparr>,
      SessionInfo \<lparr>si_id = (''c1'', 1), si_rest = ''''\<rparr>,
      ConsumerInfo \<lparr>co_id = (''c1'', 1, 1), co_prefetch = 1000, co_destination = ''q'', co_rest = ''''\<rparr>,
      ProducerInfo \<lparr>pi_id = (''c1'', 1, 2), pi_rest = ''''\<rparr>,
      TransactionInfo \<lparr>ti_connection = Some ''c1'', ti_id = LocalTx (''c1'', 1), ti_type = 0, ti_command = 5\<rparr>,
      Message \<lparr>tm_ref = 1, tm_producer = (''c1'', 1, 2), tm_tx = Some (LocalTx (''c1'', 1)), tm_size = 10, tm_rest = ''m''\<rparr>,
      RemoveInfo (ProducerObj (''c1'', 1, 2))]"

definition demo_tracker :: tracker where
  "demo_tracker = fold (\<lambda>c st. trackBack c (snd (track c st))) demo_commands (ConnectionStateTracker_new\<lparr>trackTransactions := True\<rparr>)"

lemma demo_run: "client_run {(''C1'', 1, 2)} demo_tracker (fold broker_step demo_commands Map.empty)"
proof -
  have p: "plain ''c1''" by code_simp
  have u: "upper ''c1'' = ''C1''" by code_simp
  have "client_run (fold (\<lambda>c U. U \<union> new_producer c) demo_commands {}) demo_tracker (fold broker_step demo_commands Map.empty)"
    unfolding demo_tracker_def demo_commands_def fold_simps
    by (intro client_run.intros) (simp_all add: p plain_id_def local_tx_def new_producer_def)
  moreover have "fold (\<lambda>c U. U \<union> new_producer c) demo_commands {} = {(''C1'', 1, 2)}"
    using u by (simp add: demo_commands_def new_producer_def canon_id_def)
  ultimately show ?thesis by simp
qed

lemma demo_transactions:
  "map (\<lambda>(c, cs). (c, cs_transactions cs)) (connectionStates demo_tracker) = [(''c1'', [(Some (''c1'', 1), 0)])]"
  "map ts_commands (tx_store demo_tracker) = [take 2 (drop 4 demo_commands)]"
proof -
  have c: "ConnectionId_compareTo ''c1'' ''c1'' = 0" by code_simp
  note tracking = track_def processConnectionInfo_def processSessionInfo_def processConsumerInfo_def processProducerInfo_def processTransactionInfo_def
    processBeginTransaction_def processMessage_def processRemoveProducer_def setTransactionState_def
  note states = with_connection_def with_session_def get_connection_def set_connection_def set_session_def stl_get_def ConnectionState_new_def
    SessionState_new_def addSession_def addProducer_def addConsumer_def removeProducer_def addTransactionState_def getTransactionState_def
    update_tx_def addCommand_def addProducerState_def ConnectionStateTracker_new_def trackBack_def
  note keys = id_less_def c SessionId_compareTo_def ProducerId_compareTo_def ConsumerId_compareTo_def LocalTransactionId_compareTo_def long_compare_def
    parent_session_def tx_less_def null_compared_def transaction_states
  show "map (\<lambda>(c, cs). (c, cs_transactions cs)) (connectionStates demo_tracker) = [(''c1'', [(Some (''c1'', 1), 0)])]"
    "map ts_commands (tx_store demo_tracker) = [take 2 (drop 4 demo_commands)]"
    by (simp_all add: demo_tracker_def demo_commands_def tracking states keys Let_def catch_io_def)
qed

theorem failover_restores_broker_witness:
  "\<exists>as st'. failover 9 demo_tracker = (as, Ok (), st') \<and>
    fold broker_step (sent as) Map.empty =
      map_option (\<lambda>bc. bc\<lparr>bc_info := reconnect (bc_info bc)\<rparr>) \<circ> fold broker_step demo_commands Map.empty"
  by (rule failover_restores_broker [OF demo_run])


end
