(* ===== verification/Consumer_Kernel.thy ===== *)
theory Consumer_Kernel
  imports Connection_Audit
begin

text \<open>
  \<open>activemq/core/kernels/ActiveMQConsumerKernel.cpp\<close>: how a consumer takes the messages dispatched to it, hands
  them to the client, acknowledges them and gives them back. A call runs under the locks of the consumer, so it is a
  function of its state; the state carries what the consumer shares with its connection (the audit of the
  connection, the local transaction, the clock) and the log of what it sends. Counters are unbounded: they are
  reset long before 32 bits matter. The copy made for the client (\<open>createCMSMessage\<close>) and its transformer are left out.
\<close>

section \<open>State\<close>

text \<open>\<open>MessageDispatchChannel\<close>: the two implementations behind one pointer\<close>

datatype channel = Fifo fifo_channel | Prio prio_channel

fun ch_map :: "(fifo_channel \<Rightarrow> fifo_channel) \<Rightarrow> (prio_channel \<Rightarrow> prio_channel) \<Rightarrow> channel \<Rightarrow> channel" where
  "ch_map f g (Fifo c) = Fifo (f c)"
| "ch_map f g (Prio c) = Prio (g c)"

fun ch_get :: "(fifo_channel \<Rightarrow> 'a) \<Rightarrow> (prio_channel \<Rightarrow> 'a) \<Rightarrow> channel \<Rightarrow> 'a" where
  "ch_get f g (Fifo c) = f c"
| "ch_get f g (Prio c) = g c"

definition ch_enqueue :: "message_dispatch \<Rightarrow> channel \<Rightarrow> channel" where "ch_enqueue d = ch_map (fifo_enqueue d) (prio_enqueue d)"
definition ch_enqueueFirst :: "message_dispatch \<Rightarrow> channel \<Rightarrow> channel" where "ch_enqueueFirst d = ch_map (fifo_enqueueFirst d) (prio_enqueueFirst d)"
definition ch_start :: "channel \<Rightarrow> channel" where "ch_start = ch_map fifo_start prio_start"
definition ch_stop :: "channel \<Rightarrow> channel" where "ch_stop = ch_map fifo_stop prio_stop"
definition ch_close :: "channel \<Rightarrow> channel" where "ch_close = ch_map fifo_close prio_close"
definition ch_isEmpty :: "channel \<Rightarrow> bool" where "ch_isEmpty = ch_get fifo_isEmpty prio_isEmpty"
definition ch_isRunning :: "channel \<Rightarrow> bool" where "ch_isRunning = ch_get fifo_running prio_running"
definition ch_isClosed :: "channel \<Rightarrow> bool" where "ch_isClosed = ch_get fifo_closed prio_closed"

definition ch_dequeueNoWait :: "channel \<Rightarrow> message_dispatch option \<times> channel" where
  "ch_dequeueNoWait c = (case c of Fifo f \<Rightarrow> apsnd Fifo (fifo_dequeueNoWait f) | Prio p \<Rightarrow> apsnd Prio (prio_dequeueNoWait p))"

definition ch_removeAll :: "channel \<Rightarrow> message_dispatch list \<times> channel" where
  "ch_removeAll c = (case c of Fifo f \<Rightarrow> apsnd Fifo (fifo_removeAll f) | Prio p \<Rightarrow> apsnd Prio (prio_removeAll p))"

datatype ack_mode = AUTO_ACKNOWLEDGE | DUPS_OK_ACKNOWLEDGE | CLIENT_ACKNOWLEDGE | SESSION_TRANSACTED | INDIVIDUAL_ACKNOWLEDGE

definition ACK_TYPE_DELIVERED :: nat where "ACK_TYPE_DELIVERED = 0"
definition ACK_TYPE_POISON :: nat where "ACK_TYPE_POISON = 1"
definition ACK_TYPE_CONSUMED :: nat where "ACK_TYPE_CONSUMED = 2"
definition ACK_TYPE_REDELIVERED :: nat where "ACK_TYPE_REDELIVERED = 3"
definition ACK_TYPE_INDIVIDUAL :: nat where "ACK_TYPE_INDIVIDUAL = 4"
definition ACK_TYPE_EXPIRED :: nat where "ACK_TYPE_EXPIRED = 6"

lemmas ack_types = ACK_TYPE_DELIVERED_def ACK_TYPE_POISON_def ACK_TYPE_CONSUMED_def ACK_TYPE_REDELIVERED_def
  ACK_TYPE_INDIVIDUAL_def ACK_TYPE_EXPIRED_def

text \<open>The consumer id of an acknowledgement is that of the consumer; the cause of a poison acknowledgement is its text.\<close>

record message_ack =
  ak_type :: nat
  ak_destination :: "destination option"
  ak_first :: "message_id option"
  ak_last :: "message_id option"
  ak_count :: int
  ak_transaction :: "int option"

text \<open>\<open>RedeliveryPolicy\<close> is an interface that the client may implement.\<close>

record redelivery_policy =
  maximumRedeliveries :: int
  initialRedeliveryDelay :: int
  nextRedeliveryDelay :: "int \<Rightarrow> int"

definition NO_MAXIMUM_REDELIVERIES :: int where "NO_MAXIMUM_REDELIVERIES = - 1"

text \<open>What does not change during the life of a consumer; \<open>dispatcher\<close> and \<open>junk\<close> are for the audit of the connection.\<close>

record consumer_config =
  ackMode :: ack_mode
  cc_destination :: destination
  browser :: bool
  prefetchSize :: int
  optimizeAcknowledge :: bool
  optimizeAcknowledgeTimeOut :: int
  transactedIndividualAck :: bool
  nonBlockingRedelivery :: bool
  consumerExpiryCheckEnabled :: bool
  failoverRedeliveryWaitPeriod :: int
  redeliveryPolicy :: redelivery_policy
  isSendAcksAsync :: bool
  cc_checkForDuplicates :: bool
  dispatcher :: nat
  junk :: ulong

text \<open>What is sent, scheduled or handed on. \<open>SendAck sync ack\<close>: with or without waiting for the answer.\<close>

datatype effect =
    SendAck bool message_ack
  | Pull int
  | BeginTransaction int
  | CommitTransaction int
  | RollbackTransaction int
  | StartLater int
  | RedeliverLater "message_dispatch list" int
  | Redispatch "message_dispatch list"
  | Deliver message_dispatch
  | InterruptionProcessed
  | MessageAvailable

text \<open>The transaction of the session: none, a local one, or an XA one.\<close>

datatype session_tx = NoTransaction | LocalTransaction int | XATransaction string

text \<open>
  \<open>previouslyDeliveredMessages\<close> is keyed by the address of the message id (\<open>HashMap\<close> compares shared pointers);
  \<open>executor\<close> has the acknowledgements submitted for sending; \<open>competitor\<close> is the first consumer of the first
  session of the connection that has one, when it is not this consumer: whether its session is transacted, and its map.
  \<open>synchronizationAdded\<close>: the transaction context has the synchronization of this consumer in its set; it is the only one there.
\<close>

type_synonym delivered_map = "(nat \<times> message_id option \<times> bool) list"

datatype competitor = NoConsumer | ThisConsumer | OtherConsumer bool "delivered_map option"

record consumer =
  unconsumedMessages :: channel
  deliveredMessages :: "message_dispatch list"
  lastDeliveredSequenceId :: int
  pendingAck :: "message_ack option"
  deliveredCounter :: int
  additionalWindowSize :: int
  ackCounter :: int
  synchronizationRegistered :: bool
  synchronizationAdded :: bool
  isClearDeliveredList :: bool
  inProgressClearRequiredFlag :: int
  redeliveryDelay :: int
  previouslyDeliveredMessages :: "delivered_map option"
  deliveringAcks :: bool
  started :: bool
  hasListener :: bool
  hasAvailableListener :: bool
  sessionHasListener :: bool
  failureError :: bool
  optimizeAckTimestamp :: int
  dispatchedCount :: int
  executor :: "message_ack list"
  connectionAudit :: connection_audit
  transaction :: session_tx
  nextLocalTransactionId :: int
  clock :: int
  connectionFailed :: "exn option"
  connectionClosed :: bool
  competitor :: competitor
  log :: "effect list"

text \<open>
  The constructor, with what the connection and the session have at that moment; its checks of the destination, the
  destination options and the settings copied into the configuration are left out.
\<close>

definition ActiveMQConsumerKernel_new :: "bool \<Rightarrow> connection_audit \<Rightarrow> session_tx \<Rightarrow> int \<Rightarrow> int \<Rightarrow> bool \<Rightarrow> competitor \<Rightarrow> consumer" where
  "ActiveMQConsumerKernel_new messagePrioritySupported audit tx nextTx now sessionListener other =
     \<lparr>unconsumedMessages = (if messagePrioritySupported then Prio prio_new else Fifo fifo_new), deliveredMessages = [],
      lastDeliveredSequenceId = - 1, pendingAck = None, deliveredCounter = 0, additionalWindowSize = 0, ackCounter = 0,
      synchronizationRegistered = False, synchronizationAdded = False, isClearDeliveredList = False, inProgressClearRequiredFlag = 0, redeliveryDelay = 0,
      previouslyDeliveredMessages = None, deliveringAcks = False, started = False, hasListener = False,
      hasAvailableListener = False, sessionHasListener = sessionListener, failureError = False, optimizeAckTimestamp = now,
      dispatchedCount = 0, executor = [], connectionAudit = audit, transaction = tx, nextLocalTransactionId = nextTx,
      clock = now, connectionFailed = None, connectionClosed = False, competitor = other, log = []\<rparr>"

section \<open>Calls that may throw\<close>

type_synonym 'a call = "consumer \<Rightarrow> 'a result \<times> consumer"

definition ret :: "'a \<Rightarrow> 'a call" where "ret x k = (Ok x, k)"
definition throws :: "exn \<Rightarrow> 'a call" where "throws e k = (Throw e, k)"

definition andthen :: "'a call \<Rightarrow> ('a \<Rightarrow> 'b call) \<Rightarrow> 'b call" where
  "andthen f g k = (case f k of (Inl e, k') \<Rightarrow> (Throw e, k') | (Inr x, k') \<Rightarrow> g x k')"

definition sequel :: "unit call \<Rightarrow> 'a call \<Rightarrow> 'a call" where "sequel f g = andthen f (\<lambda>_. g)"
definition change :: "(consumer \<Rightarrow> consumer) \<Rightarrow> unit call" where "change f k = (Ok (), f k)"
definition only_if :: "bool \<Rightarrow> unit call \<Rightarrow> unit call" where "only_if b f = (if b then f else ret ())"
definition with_state :: "(consumer \<Rightarrow> 'a call) \<Rightarrow> 'a call" where "with_state f k = f k k"
definition lift :: "'a result \<Rightarrow> 'a call" where "lift r k = (r, k)"

fun for_each :: "('x \<Rightarrow> unit call) \<Rightarrow> 'x list \<Rightarrow> unit call" where
  "for_each f [] = ret ()"
| "for_each f (x # xs) = sequel (f x) (for_each f xs)"

text \<open>The catch clauses at the end of a function: \<open>AMQ_CATCH_RETHROW(ActiveMQException) ...\<close> and \<open>AMQ_CATCH_ALL_THROW_CMSEXCEPTION\<close>\<close>

definition to_amq :: "exn \<Rightarrow> exn" where "to_amq e = (if e = MemoryFault then e else ActiveMQException)"

definition to_cms :: "exn \<Rightarrow> exn" where
  "to_cms e = (if e \<in> {MemoryFault, CMSIllegalStateException, TransactionInProgressException, TransactionRolledBackException} then e else CMSException)"

definition catching :: "(exn \<Rightarrow> exn) \<Rightarrow> 'a call \<Rightarrow> 'a call" where
  "catching h f k = (case f k of (Inl e, k') \<Rightarrow> (Throw (h e), k') | (Inr x, k') \<Rightarrow> (Ok x, k'))"

lemmas call_defs = ret_def throws_def andthen_def sequel_def change_def only_if_def with_state_def lift_def

section \<open>The session and the connection\<close>

definition isTransacted :: "consumer_config \<Rightarrow> consumer \<Rightarrow> bool" where
  "isTransacted cfg k \<longleftrightarrow> ackMode cfg = SESSION_TRANSACTED \<or> (case transaction k of XATransaction _ \<Rightarrow> True | _ \<Rightarrow> False)"

definition isAutoAcknowledgeEach :: "consumer_config \<Rightarrow> bool" where
  "isAutoAcknowledgeEach cfg \<longleftrightarrow> ackMode cfg = AUTO_ACKNOWLEDGE \<or> (ackMode cfg = DUPS_OK_ACKNOWLEDGE \<and> isQueue (cc_destination cfg))"

definition isAutoAcknowledgeBatch :: "consumer_config \<Rightarrow> bool" where
  "isAutoAcknowledgeBatch cfg \<longleftrightarrow> ackMode cfg = DUPS_OK_ACKNOWLEDGE \<and> \<not> isQueue (cc_destination cfg)"

definition client_or_individual :: "consumer_config \<Rightarrow> bool" where
  "client_or_individual cfg \<longleftrightarrow> ackMode cfg = CLIENT_ACKNOWLEDGE \<or> ackMode cfg = INDIVIDUAL_ACKNOWLEDGE"

definition emit :: "effect \<Rightarrow> unit call" where
  "emit e = change (\<lambda>k. k\<lparr>log := log k @ [e]\<rparr>)"

text \<open>\<open>connection->oneway\<close> and \<open>connection->syncRequest\<close>: a failed connection throws, whatever it was as an \<open>ActiveMQException\<close>.\<close>

definition transmit :: "effect \<Rightarrow> unit call" where
  "transmit e = with_state (\<lambda>k. case connectionFailed k of Some x \<Rightarrow> throws (to_amq x) | None \<Rightarrow> emit e)"

definition sendAck :: "consumer_config \<Rightarrow> message_ack \<Rightarrow> bool \<Rightarrow> unit call" where
  "sendAck cfg ack async =
     with_state (\<lambda>k. if async \<or> isSendAcksAsync cfg \<or> isTransacted cfg k then transmit (SendAck False ack) else transmit (SendAck True ack))"

text \<open>\<open>ActiveMQConnection::isDuplicate\<close> and \<open>rollbackDuplicate\<close>\<close>

definition check_duplicate :: "consumer_config \<Rightarrow> message_dispatch \<Rightarrow> bool call" where
  "check_duplicate cfg d k =
     (if cc_checkForDuplicates cfg
      then (case ConnectionAudit_isDuplicate (junk cfg) (dispatcher cfg) (md_message d) (connectionAudit k) of
              (r, a) \<Rightarrow> (r, k\<lparr>connectionAudit := a\<rparr>))
      else (Ok False, k))"

definition rollback_duplicate :: "consumer_config \<Rightarrow> message_dispatch \<Rightarrow> unit call" where
  "rollback_duplicate cfg d k =
     (if connectionClosed k then (Ok (), k)
      else (case rollbackDuplicate (junk cfg) (dispatcher cfg) (md_message d) (connectionAudit k) of
              (r, a) \<Rightarrow> (r, k\<lparr>connectionAudit := a\<rparr>)))"

text \<open>\<open>ActiveMQTransactionContext::begin\<close>, called by \<open>ActiveMQSessionKernel::doStartTransaction\<close>\<close>

definition begin_transaction :: "unit call" where
  "begin_transaction = with_state (\<lambda>k.
     case transaction k of
       XATransaction _ \<Rightarrow> throws TransactionInProgressException
     | LocalTransaction _ \<Rightarrow> ret ()
     | NoTransaction \<Rightarrow>
         (let n = nextLocalTransactionId k
          in sequel (change (\<lambda>k. k\<lparr>synchronizationAdded := False, nextLocalTransactionId := n + 1\<rparr>))
               (sequel (transmit (BeginTransaction n)) (change (\<lambda>k. k\<lparr>transaction := LocalTransaction n\<rparr>)))))"

definition doStartTransaction :: "consumer_config \<Rightarrow> unit call" where
  "doStartTransaction cfg = with_state (\<lambda>k.
     only_if (isTransacted cfg k \<and> (case transaction k of XATransaction _ \<Rightarrow> False | _ \<Rightarrow> True)) begin_transaction)"

definition registerSync :: "consumer_config \<Rightarrow> unit call" where
  "registerSync cfg = sequel (doStartTransaction cfg) (with_state (\<lambda>k.
     only_if (\<not> synchronizationRegistered k) (change (\<lambda>k. k\<lparr>synchronizationRegistered := True, synchronizationAdded := True\<rparr>))))"

text \<open>The id of the transaction for an acknowledgement (XA ids are not kept).\<close>

definition transactionId :: "consumer \<Rightarrow> int option" where
  "transactionId k = (case transaction k of LocalTransaction n \<Rightarrow> Some n | _ \<Rightarrow> None)"

section \<open>Acknowledging\<close>

text \<open>The constructor \<open>MessageAck(dispatch, ackType, messageCount)\<close>\<close>

definition MessageAck_new :: "message_dispatch \<Rightarrow> nat \<Rightarrow> int \<Rightarrow> message_ack result" where
  "MessageAck_new d ackType messageCount =
     (case md_message d of
        None \<Rightarrow> Throw MemoryFault
      | Some m \<Rightarrow> Ok \<lparr>ak_type = ackType, ak_destination = md_destination d, ak_first = None, ak_last = messageId m,
                     ak_count = messageCount, ak_transaction = None\<rparr>)"

definition dispatch_id :: "message_dispatch \<Rightarrow> message_id option result" where
  "dispatch_id d = (case md_message d of None \<Rightarrow> Throw MemoryFault | Some m \<Rightarrow> Ok (messageId m))"

definition ackLater :: "consumer_config \<Rightarrow> message_dispatch \<Rightarrow> nat \<Rightarrow> unit call" where
  "ackLater cfg d ackType =
     sequel (with_state (\<lambda>k. only_if (isTransacted cfg k) (registerSync cfg)))
    (sequel (change (\<lambda>k. k\<lparr>deliveredCounter := deliveredCounter k + 1\<rparr>))
    (with_state (\<lambda>k. let oldPendingAck = pendingAck k in
      andthen (lift (MessageAck_new d ackType (deliveredCounter k))) (\<lambda>ack.
      sequel (change (\<lambda>k. k\<lparr>pendingAck := Some ack\<rparr>))
     (sequel (case oldPendingAck of
               None \<Rightarrow> change (\<lambda>k. k\<lparr>pendingAck := Some (ack\<lparr>ak_first := ak_last ack\<rparr>)\<rparr>)
             | Some old \<Rightarrow>
                 if ak_type old = ak_type ack then change (\<lambda>k. k\<lparr>pendingAck := Some (ack\<lparr>ak_first := ak_first old\<rparr>)\<rparr>)
                 else only_if (ak_type old \<noteq> ACK_TYPE_DELIVERED) (sendAck cfg old False))
     (sequel (with_state (\<lambda>k. only_if (isTransacted cfg k)
               (change (\<lambda>k. k\<lparr>pendingAck := map_option (\<lambda>a. a\<lparr>ak_transaction := transactionId k\<rparr>) (pendingAck k)\<rparr>))))
     (with_state (\<lambda>k. let pendingAcks = deliveredCounter k + ackCounter k - additionalWindowSize k in
       only_if (prefetchSize cfg \<le> 2 * pendingAcks)
         (sequel (case pendingAck k of None \<Rightarrow> throws MemoryFault | Some a \<Rightarrow> sendAck cfg a False)
           (change (\<lambda>k. k\<lparr>pendingAck := None, deliveredCounter := 0, additionalWindowSize := 0\<rparr>)))))))))))"

definition makeAckForAllDeliveredMessages :: "nat \<Rightarrow> consumer \<Rightarrow> message_ack option result" where
  "makeAckForAllDeliveredMessages type k =
     (case deliveredMessages k of
        [] \<Rightarrow> Ok None
      | d # ds \<Rightarrow>
          rbind (MessageAck_new d type (int (length (d # ds)))) (\<lambda>ack.
          rbind (dispatch_id (last (d # ds))) (\<lambda>first. Ok (Some (ack\<lparr>ak_first := first\<rparr>)))))"

definition immediateIndividualTransactedAck :: "consumer_config \<Rightarrow> message_dispatch \<Rightarrow> unit call" where
  "immediateIndividualTransactedAck cfg d =
     sequel (registerSync cfg)
       (andthen (lift (MessageAck_new d ACK_TYPE_INDIVIDUAL 1)) (\<lambda>ack.
          with_state (\<lambda>k. transmit (SendAck True (ack\<lparr>ak_transaction := transactionId k\<rparr>)))))"

definition beforeMessageIsConsumed :: "consumer_config \<Rightarrow> message_dispatch \<Rightarrow> unit call" where
  "beforeMessageIsConsumed cfg d =
     sequel (case md_message d of
               None \<Rightarrow> ret ()
             | Some m \<Rightarrow> (case messageId m of
                            None \<Rightarrow> throws MemoryFault
                          | Some i \<Rightarrow> change (\<lambda>k. k\<lparr>lastDeliveredSequenceId := brokerSequenceId i\<rparr>)))
       (only_if (\<not> isAutoAcknowledgeBatch cfg)
         (sequel (change (\<lambda>k. k\<lparr>deliveredMessages := d # deliveredMessages k\<rparr>))
           (with_state (\<lambda>k. only_if (isTransacted cfg k)
             (if transactedIndividualAck cfg then immediateIndividualTransactedAck cfg d else ackLater cfg d ACK_TYPE_DELIVERED)))))"

text \<open>The threshold is \<open>prefetchSize * 0.65\<close>; the product of doubles never changes the comparison with an integer.\<close>

definition isTimeForOptimizedAck :: "consumer_config \<Rightarrow> consumer \<Rightarrow> bool" where
  "isTimeForOptimizedAck cfg k \<longleftrightarrow> 13 * prefetchSize cfg \<le> 20 * (ackCounter k + deliveredCounter k) \<or>
     (optimizeAcknowledgeTimeOut cfg > 0 \<and> clock k \<ge> optimizeAckTimestamp k + optimizeAcknowledgeTimeOut cfg)"

text \<open>\<open>deliveredMessages.remove(dispatch)\<close> and \<open>contains(dispatch)\<close> compare pointers.\<close>

fun remove_dispatch :: "message_dispatch \<Rightarrow> message_dispatch list \<Rightarrow> message_dispatch list" where
  "remove_dispatch d [] = []"
| "remove_dispatch d (e # es) = (if md_ref e = md_ref d then es else e # remove_dispatch d es)"

text \<open>\<open>acknowledge(dispatch, ackType)\<close>\<close>

definition acknowledge_one :: "consumer_config \<Rightarrow> message_dispatch \<Rightarrow> nat \<Rightarrow> unit call" where
  "acknowledge_one cfg d ackType = catching to_cms
     (andthen (lift (MessageAck_new d ackType 1)) (\<lambda>ack.
        sequel (sendAck cfg (if ackType = ACK_TYPE_EXPIRED then ack\<lparr>ak_first := ak_last ack\<rparr> else ack) False)
          (change (\<lambda>k. k\<lparr>deliveredMessages := remove_dispatch d (deliveredMessages k)\<rparr>))))"

text \<open>The acknowledgement of everything delivered, in \<open>afterMessageIsConsumed\<close>\<close>

definition ack_delivered :: "consumer_config \<Rightarrow> unit call" where
  "ack_delivered cfg = with_state (\<lambda>k. andthen (lift (makeAckForAllDeliveredMessages ACK_TYPE_CONSUMED k)) (\<lambda>ack.
     case ack of
       None \<Rightarrow> ret ()
     | Some a \<Rightarrow> sequel (change (\<lambda>k. k\<lparr>deliveredMessages := []\<rparr>)) (sendAck cfg a False)))"

definition ack_delivered_optimized :: "consumer_config \<Rightarrow> unit call" where
  "ack_delivered_optimized cfg =
     sequel (change (\<lambda>k. k\<lparr>ackCounter := ackCounter k + 1\<rparr>)) (with_state (\<lambda>k.
       only_if (isTimeForOptimizedAck cfg k)
         (sequel (andthen (lift (makeAckForAllDeliveredMessages ACK_TYPE_CONSUMED k)) (\<lambda>ack.
                    case ack of
                      None \<Rightarrow> ret ()
                    | Some a \<Rightarrow>
                        sequel (change (\<lambda>k. k\<lparr>deliveredMessages := [], ackCounter := 0\<rparr>))
                          (sequel (sendAck cfg a False) (change (\<lambda>k. k\<lparr>optimizeAckTimestamp := clock k\<rparr>)))))
           (with_state (\<lambda>k. case pendingAck k of
              None \<Rightarrow> ret ()
            | Some a \<Rightarrow> only_if (deliveredCounter k > 0)
                (sequel (sendAck cfg a False) (change (\<lambda>k. k\<lparr>pendingAck := None, deliveredCounter := 0\<rparr>))))))))"

definition afterMessageIsConsumed :: "consumer_config \<Rightarrow> message_dispatch \<Rightarrow> bool \<Rightarrow> unit call" where
  "afterMessageIsConsumed cfg d messageExpired = catching to_amq (with_state (\<lambda>k.
     if ch_isClosed (unconsumedMessages k) then ret ()
     else if messageExpired then acknowledge_one cfg d ACK_TYPE_EXPIRED
     else if isTransacted cfg k then ret ()
     else if isAutoAcknowledgeEach cfg then
       only_if (\<not> deliveringAcks k)
         (sequel (change (\<lambda>k. k\<lparr>deliveringAcks := True\<rparr>))
           (sequel (with_state (\<lambda>k. only_if (deliveredMessages k \<noteq> [])
                      (if optimizeAcknowledge cfg then ack_delivered_optimized cfg else ack_delivered cfg)))
             (change (\<lambda>k. k\<lparr>deliveringAcks := False\<rparr>))))
     else if isAutoAcknowledgeBatch cfg then ackLater cfg d ACK_TYPE_CONSUMED
     else if client_or_individual cfg then only_if (md_ref d \<in> md_ref ` set (deliveredMessages k)) (ackLater cfg d ACK_TYPE_DELIVERED)
     else throws IllegalStateException))"

text \<open>\<open>deliverAcks\<close> hands the acknowledgement to a thread of its own, which runs \<open>AsyncMessageAckTask\<close>.\<close>

definition deliverAcks :: "consumer_config \<Rightarrow> unit call" where
  "deliverAcks cfg = catching to_amq (with_state (\<lambda>k.
     only_if (\<not> deliveringAcks k)
       (sequel (change (\<lambda>k. k\<lparr>deliveringAcks := True\<rparr>))
         (andthen
           (if isAutoAcknowledgeEach cfg then
              andthen (lift (makeAckForAllDeliveredMessages ACK_TYPE_CONSUMED k)) (\<lambda>ack.
                case ack of
                  Some a \<Rightarrow> sequel (change (\<lambda>k. k\<lparr>deliveredMessages := [], ackCounter := 0\<rparr>)) (ret (Some a))
                | None \<Rightarrow> sequel (change (\<lambda>k. k\<lparr>pendingAck := None\<rparr>)) (ret (pendingAck k)))
            else (case pendingAck k of
                    Some a \<Rightarrow> if ak_type a = ACK_TYPE_CONSUMED then sequel (change (\<lambda>k. k\<lparr>pendingAck := None\<rparr>)) (ret (Some a)) else ret None
                  | None \<Rightarrow> ret None))
           (\<lambda>ack. case ack of
              Some a \<Rightarrow> change (\<lambda>k. k\<lparr>executor := executor k @ [a]\<rparr>)
            | None \<Rightarrow> change (\<lambda>k. k\<lparr>deliveringAcks := False\<rparr>))))))"

definition AsyncMessageAckTask_run :: "consumer_config \<Rightarrow> consumer \<Rightarrow> consumer" where
  "AsyncMessageAckTask_run cfg k =
     (case executor k of
        [] \<Rightarrow> k
      | a # as \<Rightarrow> (snd (sendAck cfg a True (k\<lparr>executor := as\<rparr>)))\<lparr>deliveringAcks := False\<rparr>)"

section \<open>Redelivery after a failover\<close>

definition map_get :: "nat \<Rightarrow> delivered_map \<Rightarrow> (message_id option \<times> bool) option" where
  "map_get r m = map_of m r"

text \<open>\<open>put\<close>: the order of the entries stands for the order in which the \<open>HashMap\<close> is walked.\<close>

definition map_put :: "nat \<Rightarrow> message_id option \<Rightarrow> bool \<Rightarrow> delivered_map \<Rightarrow> delivered_map" where
  "map_put r i b m = (if map_of m r = None then m @ [(r, i, b)] else map (\<lambda>(r', i', b'). (r', i', if r' = r then b else b')) m)"

text \<open>\<open>dispatch->getMessage()->getMessageId()\<close>: the address and the id\<close>

definition id_of :: "message_dispatch \<Rightarrow> (nat \<times> message_id option) result" where
  "id_of d = (case md_message d of None \<Rightarrow> Throw MemoryFault | Some m \<Rightarrow> Ok (msg_ref m, messageId m))"

definition clearDeliveredList :: "consumer_config \<Rightarrow> unit call" where
  "clearDeliveredList cfg = with_state (\<lambda>k.
     only_if (isClearDeliveredList k)
       (sequel
         (only_if (deliveredMessages k \<noteq> [])
           (if isTransacted cfg k then
              sequel (change (\<lambda>k. k\<lparr>previouslyDeliveredMessages := Some (case previouslyDeliveredMessages k of None \<Rightarrow> [] | Some m \<Rightarrow> m)\<rparr>))
                (for_each (\<lambda>d. andthen (lift (id_of d)) (\<lambda>(r, i).
                   change (\<lambda>k. k\<lparr>previouslyDeliveredMessages := map_option (map_put r i False) (previouslyDeliveredMessages k)\<rparr>)))
                  (deliveredMessages k))
            else
              sequel (only_if (client_or_individual cfg \<and> \<not> browser cfg) (for_each (rollback_duplicate cfg) (deliveredMessages k)))
                (change (\<lambda>k. k\<lparr>deliveredMessages := [], pendingAck := None\<rparr>))))
         (change (\<lambda>k. k\<lparr>isClearDeliveredList := False\<rparr>))))"

definition clearPreviouslyDelivered :: "consumer \<Rightarrow> consumer" where
  "clearPreviouslyDelivered k = k\<lparr>previouslyDeliveredMessages := None\<rparr>"

text \<open>\<open>removeFromDeliveredMessages\<close>: the first delivered message with an equal id is taken off the list.\<close>

fun removeFromDelivered :: "consumer_config \<Rightarrow> message_id option \<Rightarrow> message_dispatch list \<Rightarrow> message_dispatch list \<Rightarrow> unit call" where
  "removeFromDelivered cfg key front [] = ret ()"
| "removeFromDelivered cfg key front (d # ds) =
     andthen (lift (id_of d)) (\<lambda>(_, i).
       if i = key then sequel (rollback_duplicate cfg d) (change (\<lambda>k. k\<lparr>deliveredMessages := front @ ds\<rparr>))
       else removeFromDelivered cfg key (front @ [d]) ds)"

definition rollbackPreviouslyDeliveredAndNotRedelivered :: "consumer_config \<Rightarrow> unit call" where
  "rollbackPreviouslyDeliveredAndNotRedelivered cfg = with_state (\<lambda>k.
     case previouslyDeliveredMessages k of
       None \<Rightarrow> ret ()
     | Some m \<Rightarrow>
         sequel (for_each (\<lambda>(r, i, received). only_if (\<not> received) (with_state (\<lambda>k. removeFromDelivered cfg i [] (deliveredMessages k)))) m)
           (change clearPreviouslyDelivered))"

definition not_replayed :: "consumer \<Rightarrow> nat" where
  "not_replayed k = (case previouslyDeliveredMessages k of None \<Rightarrow> 0 | Some m \<Rightarrow> length (filter (\<lambda>(r, i, received). \<not> received) m))"

definition rollbackOnFailedRecoveryRedelivery :: "unit call" where
  "rollbackOnFailedRecoveryRedelivery = with_state (\<lambda>k. if not_replayed k > 0 then throws TransactionRolledBackException else ret ())"

text \<open>
  \<open>waitForRedeliveries\<close>: \<open>env\<close> is what the other threads do during each sleep (the passing of time included); \<open>None\<close>:
  it still waits when the list ends. The loop goes on while the deadline has passed.
\<close>

fun wait_loop :: "int \<Rightarrow> (consumer \<Rightarrow> consumer) list \<Rightarrow> consumer \<Rightarrow> consumer option" where
  "wait_loop expiry env k =
     (if not_replayed k > 0
      then (case env of
              [] \<Rightarrow> None
            | f # env' \<Rightarrow> (let k' = f k in if expiry < clock k' then wait_loop expiry env' k' else Some k'))
      else Some k)"

declare wait_loop.simps [simp del]

definition waitForRedeliveries :: "consumer_config \<Rightarrow> (consumer \<Rightarrow> consumer) list \<Rightarrow> consumer \<Rightarrow> consumer option" where
  "waitForRedeliveries cfg env k =
     (if failoverRedeliveryWaitPeriod cfg > 0 \<and> previouslyDeliveredMessages k \<noteq> None
      then wait_loop (clock k + failoverRedeliveryWaitPeriod cfg) env k else Some k)"

definition redeliveryExpectedInCurrentTransaction :: "consumer_config \<Rightarrow> message_dispatch \<Rightarrow> bool \<Rightarrow> bool call" where
  "redeliveryExpectedInCurrentTransaction cfg d markReceipt = with_state (\<lambda>k.
     if \<not> isTransacted cfg k then ret False
     else case previouslyDeliveredMessages k of
       None \<Rightarrow> ret False
     | Some m \<Rightarrow> andthen (lift (id_of d)) (\<lambda>(r, i).
         if map_get r m = None then ret False
         else sequel (only_if markReceipt (change (\<lambda>k. k\<lparr>previouslyDeliveredMessages := Some (map_put r i True m)\<rparr>))) (ret True)))"

text \<open>The walk over the consumers of the sessions returns at the first one.\<close>

definition redeliveryPendingInCompetingTransaction :: "consumer_config \<Rightarrow> message_dispatch \<Rightarrow> bool call" where
  "redeliveryPendingInCompetingTransaction cfg d = with_state (\<lambda>k.
     case competitor k of
       NoConsumer \<Rightarrow> ret False
     | ThisConsumer \<Rightarrow> redeliveryExpectedInCurrentTransaction cfg d False
     | OtherConsumer transacted m \<Rightarrow> andthen (lift (id_of d)) (\<lambda>(r, i).
         ret (transacted \<and> (case m of None \<Rightarrow> False | Some m \<Rightarrow> map_get r m \<noteq> None))))"

definition isExpired :: "consumer \<Rightarrow> message \<Rightarrow> bool" where
  "isExpired k m \<longleftrightarrow> msg_expiration m > 0 \<and> clock k > msg_expiration m"

definition consumeExpiredMessage :: "consumer_config \<Rightarrow> message \<Rightarrow> consumer \<Rightarrow> bool" where
  "consumeExpiredMessage cfg m k = (if isExpired k m then \<not> browser cfg \<and> consumerExpiryCheckEnabled cfg else False)"

definition redeliveryExceeded :: "consumer_config \<Rightarrow> message_dispatch \<Rightarrow> message \<Rightarrow> bool" where
  "redeliveryExceeded cfg d m =
     (let p = redeliveryPolicy cfg
      in if maximumRedeliveries p = NO_MAXIMUM_REDELIVERIES then False
         else if redeliveryCounter d \<le> maximumRedeliveries p then False
         else (case msg_redeliveryDelay m of None \<Rightarrow> True | Some has \<Rightarrow> \<not> has))"

definition posionAck :: "consumer_config \<Rightarrow> message_dispatch \<Rightarrow> unit call" where
  "posionAck cfg d = andthen (lift (MessageAck_new d ACK_TYPE_POISON 1)) (\<lambda>ack. sendAck cfg (ack\<lparr>ak_first := ak_last ack\<rparr>) False)"

section \<open>Client calls\<close>

text \<open>\<open>acknowledge()\<close>: \<open>None\<close> while it waits for redeliveries\<close>

definition acknowledge_all :: "consumer_config \<Rightarrow> unit call" where
  "acknowledge_all cfg = with_state (\<lambda>k. andthen (lift (makeAckForAllDeliveredMessages ACK_TYPE_CONSUMED k)) (\<lambda>ack.
     case ack of
       None \<Rightarrow> ret ()
     | Some a \<Rightarrow>
         sequel (only_if (isTransacted cfg k) (sequel rollbackOnFailedRecoveryRedelivery (doStartTransaction cfg)))
        (sequel (change (\<lambda>k. k\<lparr>pendingAck := None\<rparr>))
        (sequel (with_state (\<lambda>k. sendAck cfg (if isTransacted cfg k then a\<lparr>ak_transaction := transactionId k\<rparr> else a) False))
        (sequel (change (\<lambda>k. k\<lparr>deliveredCounter := max 0 (deliveredCounter k - int (length (deliveredMessages k))),
                            additionalWindowSize := max 0 (additionalWindowSize k - int (length (deliveredMessages k)))\<rparr>))
          (with_state (\<lambda>k. only_if (\<not> isTransacted cfg k) (change (\<lambda>k. k\<lparr>deliveredMessages := []\<rparr>)))))))))"

definition acknowledge :: "consumer_config \<Rightarrow> (consumer \<Rightarrow> consumer) list \<Rightarrow> consumer \<Rightarrow> (unit result \<times> consumer) option" where
  "acknowledge cfg env k =
     (case clearDeliveredList cfg k of
        (Inl e, k') \<Rightarrow> Some (Throw (to_cms e), k')
      | (Inr _, k') \<Rightarrow> map_option (catching to_cms (acknowledge_all cfg)) (waitForRedeliveries cfg env k'))"

definition Consumer_commit :: "consumer \<Rightarrow> consumer" where
  "Consumer_commit k = clearPreviouslyDelivered (k\<lparr>deliveredMessages := []\<rparr>)\<lparr>redeliveryDelay := 0\<rparr>"

definition Consumer_start :: "consumer \<Rightarrow> consumer" where
  "Consumer_start k =
     (if ch_isClosed (unconsumedMessages k) then k else k\<lparr>started := True, unconsumedMessages := ch_start (unconsumedMessages k)\<rparr>)"

definition Consumer_stop :: "consumer \<Rightarrow> consumer" where
  "Consumer_stop k = k\<lparr>started := False, unconsumedMessages := ch_stop (unconsumedMessages k)\<rparr>"

text \<open>
  The loop over the messages that \<open>optimizeAcknowledge\<close> has not acknowledged:
  \<open>for (i = 0; i < deliveredMessages.size() && i < ackCounter; i++)\<close> takes the last one off in every pass.
\<close>

lemma rollback_duplicate_delivered [simp]: "deliveredMessages (snd (rollback_duplicate cfg d k)) = deliveredMessages k"
  by (simp add: rollback_duplicate_def split: prod.split)

function drop_unacknowledged :: "consumer_config \<Rightarrow> nat \<Rightarrow> unit call" where
  "drop_unacknowledged cfg i k =
     (if i < length (deliveredMessages k) \<and> int i < ackCounter k
      then (case rollback_duplicate cfg (last (deliveredMessages k)) (k\<lparr>deliveredMessages := butlast (deliveredMessages k)\<rparr>) of
              (Inl e, k') \<Rightarrow> (Throw e, k')
            | (Inr _, k') \<Rightarrow> drop_unacknowledged cfg (Suc i) k')
      else (Ok (), k))"
  by pat_completeness auto
termination
proof (relation "measure (\<lambda>(cfg, i, k). length (deliveredMessages k) - i)", simp)
  fix cfg i k r k' u
  assume a: "i < length (deliveredMessages k) \<and> int i < ackCounter k"
    "(r, k') = rollback_duplicate cfg (last (deliveredMessages k)) (k\<lparr>deliveredMessages := butlast (deliveredMessages k)\<rparr>)"
  have "deliveredMessages (snd (rollback_duplicate cfg (last (deliveredMessages k)) (k\<lparr>deliveredMessages := butlast (deliveredMessages k)\<rparr>))) =
      butlast (deliveredMessages k)" by simp
  then have "deliveredMessages k' = butlast (deliveredMessages k)" unfolding a(2) [symmetric] by simp
  moreover have "i < length (deliveredMessages k)" using a(1) by simp
  ultimately show "((cfg, Suc i, k'), (cfg, i, k)) \<in> measure (\<lambda>(cfg, i, k). length (deliveredMessages k) - i)" by simp
qed

text \<open>\<open>rollback()\<close>, from the point where something was delivered on\<close>

definition redelivered :: "message_dispatch \<Rightarrow> message_dispatch" where
  "redelivered d = d\<lparr>md_message := map_option (\<lambda>m. m\<lparr>msg_redeliveryCounter := msg_redeliveryCounter m + 1\<rparr>) (md_message d)\<rparr>"

text \<open>The counter of every message is increased, and its record in the audit undone, one after the other.\<close>

fun count_redeliveries :: "consumer_config \<Rightarrow> message_dispatch list \<Rightarrow> message_dispatch list \<Rightarrow> unit call" where
  "count_redeliveries cfg done [] = ret ()"
| "count_redeliveries cfg done (d # ds) =
     (case md_message d of
        None \<Rightarrow> throws MemoryFault
      | Some _ \<Rightarrow>
          sequel (change (\<lambda>k. k\<lparr>deliveredMessages := done @ redelivered d # ds\<rparr>))
            (sequel (rollback_duplicate cfg (redelivered d)) (count_redeliveries cfg (done @ [redelivered d]) ds)))"

definition message_counter :: "message_dispatch \<Rightarrow> int result" where
  "message_counter d = (case md_message d of None \<Rightarrow> Throw MemoryFault | Some m \<Rightarrow> Ok (msg_redeliveryCounter m))"

definition forget_delivered :: "unit call" where
  "forget_delivered = change (\<lambda>k. k\<lparr>deliveredCounter := deliveredCounter k - int (length (deliveredMessages k)), deliveredMessages := []\<rparr>)"

text \<open>Too many redeliveries: one poison acknowledgement for all delivered messages.\<close>

definition rollback_poison :: "consumer_config \<Rightarrow> message_id option \<Rightarrow> unit call" where
  "rollback_poison cfg firstMsgId = with_state (\<lambda>k.
     andthen (lift (MessageAck_new (hd (deliveredMessages k)) ACK_TYPE_POISON (int (length (deliveredMessages k))))) (\<lambda>ack.
     sequel (sendAck cfg (ack\<lparr>ak_first := firstMsgId\<rparr>) True)
    (sequel (change (\<lambda>k. k\<lparr>additionalWindowSize := max 0 (additionalWindowSize k - int (length (deliveredMessages k))), redeliveryDelay := 0\<rparr>))
    (sequel forget_delivered
      (change (\<lambda>k. if ch_isClosed (unconsumedMessages k) then k
                 else if nonBlockingRedelivery cfg then
                   (if ch_isRunning (unconsumedMessages k) then k else k\<lparr>unconsumedMessages := ch_start (unconsumedMessages k)\<rparr>)
                 else Consumer_start k))))))"

text \<open>Else they are given back: to the channel, oldest first, or to a task that dispatches them again later.\<close>

definition give_back :: "consumer_config \<Rightarrow> unit call" where
  "give_back cfg = with_state (\<lambda>k.
     if nonBlockingRedelivery cfg then
       only_if (\<not> ch_isClosed (unconsumedMessages k))
         (sequel forget_delivered (emit (RedeliverLater (rev (deliveredMessages k)) (redeliveryDelay k))))
     else
       sequel (change (\<lambda>k. k\<lparr>unconsumedMessages := fold ch_enqueueFirst (deliveredMessages k) (ch_stop (unconsumedMessages k))\<rparr>))
      (sequel forget_delivered
        (if redeliveryDelay k > 0 \<and> \<not> ch_isClosed (unconsumedMessages k) then emit (StartLater (redeliveryDelay k)) else change Consumer_start)))"

definition rollback_delivered :: "consumer_config \<Rightarrow> unit call" where
  "rollback_delivered cfg = with_state (\<lambda>k.
     let lastMsg = hd (deliveredMessages k); p = redeliveryPolicy cfg in
     andthen (lift (message_counter lastMsg)) (\<lambda>currentRedeliveryCount.
     sequel (change (\<lambda>k. k\<lparr>redeliveryDelay := if currentRedeliveryCount > 0 then nextRedeliveryDelay p (redeliveryDelay k) else initialRedeliveryDelay p\<rparr>))
    (andthen (lift (dispatch_id (last (deliveredMessages k)))) (\<lambda>firstMsgId.
     sequel (count_redeliveries cfg [] (deliveredMessages k))
    (if maximumRedeliveries p \<noteq> NO_MAXIMUM_REDELIVERIES \<and> currentRedeliveryCount + 1 > maximumRedeliveries p
     then rollback_poison cfg firstMsgId
     else sequel
       (only_if (currentRedeliveryCount > 0)
         (with_state (\<lambda>k. andthen (lift (MessageAck_new (hd (deliveredMessages k)) ACK_TYPE_REDELIVERED (int (length (deliveredMessages k))))) (\<lambda>ack.
            sendAck cfg (ack\<lparr>ak_first := firstMsgId\<rparr>) False))))
       (give_back cfg))))))"

text \<open>\<open>session->redispatch(*unconsumedMessages)\<close>\<close>

definition redispatch :: "unit call" where
  "redispatch = with_state (\<lambda>k. case ch_removeAll (unconsumedMessages k) of
     (ds, c) \<Rightarrow> sequel (change (\<lambda>k. k\<lparr>unconsumedMessages := c\<rparr>)) (emit (Redispatch ds)))"

definition Consumer_rollback :: "consumer_config \<Rightarrow> unit call" where
  "Consumer_rollback cfg =
     sequel (clearDeliveredList cfg)
    (sequel (only_if (optimizeAcknowledge cfg \<and> \<not> browser cfg) (drop_unacknowledged cfg 0))
    (sequel (rollbackPreviouslyDeliveredAndNotRedelivered cfg)
    (with_state (\<lambda>k.
       if deliveredMessages k = [] then ret ()
       else sequel (rollback_delivered cfg) (with_state (\<lambda>k. only_if (hasListener k) redispatch))))))"

text \<open>\<open>setMessageListener\<close>: a started session is stopped and started again, and its consumers with it.\<close>

definition setMessageListener :: "consumer_config \<Rightarrow> bool \<Rightarrow> bool \<Rightarrow> unit call" where
  "setMessageListener cfg wasStarted some_listener = catching to_cms (with_state (\<lambda>k.
     if ch_isClosed (unconsumedMessages k) then throws CMSIllegalStateException
     else if prefetchSize cfg = 0 \<and> some_listener then throws ActiveMQException
     else if some_listener then
       sequel (only_if wasStarted (change Consumer_stop))
      (sequel (change (\<lambda>k. k\<lparr>hasListener := True\<rparr>))
      (sequel redispatch (only_if wasStarted (change Consumer_start))))
     else change (\<lambda>k. k\<lparr>hasListener := False\<rparr>)))"

section \<open>Dispatching\<close>

definition inProgressClearRequired :: "consumer \<Rightarrow> consumer" where
  "inProgressClearRequired k = k\<lparr>inProgressClearRequiredFlag := inProgressClearRequiredFlag k + 1, isClearDeliveredList := True\<rparr>"

definition clearMessagesInProgress :: "consumer_config \<Rightarrow> unit call" where
  "clearMessagesInProgress cfg = with_state (\<lambda>k.
     only_if (inProgressClearRequiredFlag k > 0)
       (case ch_removeAll (unconsumedMessages k) of
          (ds, c) \<Rightarrow>
            sequel (change (\<lambda>k. k\<lparr>unconsumedMessages := c\<rparr>))
           (sequel (only_if (\<not> browser cfg) (for_each (rollback_duplicate cfg) ds))
           (sequel (emit InterruptionProcessed)
           (sequel (change (\<lambda>k. k\<lparr>inProgressClearRequiredFlag := 0\<rparr>)) (clearDeliveredList cfg))))))"

text \<open>
  The listener is client code: \<open>onMessage\<close> may call the consumer and may throw. An \<open>IOException\<close> or a
  \<open>RuntimeException\<close>, with their subclasses, makes the message be redelivered.
\<close>

definition io_or_runtime :: "exn \<Rightarrow> bool" where
  "io_or_runtime e \<longleftrightarrow> e \<in> {IOException, EOFException, UTFDataFormatException, NegativeArraySizeException, NoSuchElementException}"

definition to_listener :: "consumer_config \<Rightarrow> (message_dispatch \<Rightarrow> unit call) \<Rightarrow> message_dispatch \<Rightarrow> message \<Rightarrow> unit call" where
  "to_listener cfg onMessage d m =
     sequel (beforeMessageIsConsumed cfg d) (\<lambda>k.
       case with_state (\<lambda>k. let expired = consumerExpiryCheckEnabled cfg \<and> isExpired k m in
              sequel (only_if (\<not> expired) (sequel (emit (Deliver d)) (onMessage d))) (afterMessageIsConsumed cfg d expired)) k of
         (Inr u, k') \<Rightarrow> (Ok u, k')
       | (Inl e, k') \<Rightarrow>
           if io_or_runtime e
           then (if isAutoAcknowledgeBatch cfg \<or> isAutoAcknowledgeEach cfg \<or> ackMode cfg = INDIVIDUAL_ACKNOWLEDGE
                 then Consumer_rollback cfg k' else afterMessageIsConsumed cfg d False k')
           else (Throw e, k'))"

definition new_delivery :: "consumer_config \<Rightarrow> (message_dispatch \<Rightarrow> unit call) \<Rightarrow> message_dispatch \<Rightarrow> message \<Rightarrow> unit call" where
  "new_delivery cfg onMessage d m = with_state (\<lambda>k.
     if hasListener k \<and> ch_isRunning (unconsumedMessages k)
     then (if redeliveryExceeded cfg d m then posionAck cfg d else to_listener cfg onMessage d m)
     else sequel (only_if (\<not> ch_isRunning (unconsumedMessages k)) (rollback_duplicate cfg d))
         (sequel (change (\<lambda>k. k\<lparr>unconsumedMessages := ch_enqueue d (unconsumedMessages k)\<rparr>))
                 (only_if (hasAvailableListener k) (emit MessageAvailable))))"

definition count_dispatch :: "unit call" where
  "count_dispatch = change (\<lambda>k. k\<lparr>dispatchedCount := if (dispatchedCount k + 1) mod 1000 = 0 then 0 else dispatchedCount k + 1\<rparr>)"

text \<open>
  \<open>dispatch\<close> calls itself for a message that a competing transaction waits for; \<open>n\<close> is the room on the stack for this. A
  message whose redelivery limit is exceeded leaves the function before the counter of the dispatches.
\<close>

fun Consumer_dispatch :: "nat \<Rightarrow> consumer_config \<Rightarrow> (message_dispatch \<Rightarrow> unit call) \<Rightarrow> message_dispatch \<Rightarrow> unit call" where
  "Consumer_dispatch 0 cfg onMessage d = throws MemoryFault"
| "Consumer_dispatch (Suc n) cfg onMessage d =
     (case md_message d of
        None \<Rightarrow> throws StdException
      | Some m \<Rightarrow> catching to_amq
          (sequel (clearMessagesInProgress cfg) (sequel (clearDeliveredList cfg) (with_state (\<lambda>k.
             if ch_isClosed (unconsumedMessages k) then count_dispatch
             else andthen (if browser cfg then ret False else check_duplicate cfg d) (\<lambda>duplicate.
               if \<not> duplicate
               then with_state (\<lambda>k. sequel (new_delivery cfg onMessage d m)
                      (only_if (\<not> (hasListener k \<and> ch_isRunning (unconsumedMessages k) \<and> redeliveryExceeded cfg d m)) count_dispatch))
               else sequel
                 (andthen (redeliveryExpectedInCurrentTransaction cfg d True) (\<lambda>expected.
                    if expected
                    then (if transactedIndividualAck cfg then immediateIndividualTransactedAck cfg d
                          else andthen (lift (MessageAck_new d ACK_TYPE_DELIVERED 1)) (\<lambda>ack. sendAck cfg ack False))
                    else andthen (redeliveryPendingInCompetingTransaction cfg d) (\<lambda>competing.
                      if competing then sequel (rollback_duplicate cfg d) (Consumer_dispatch n cfg onMessage d)
                      else posionAck cfg d)))
                 count_dispatch))))))"

definition sendPullRequest :: "consumer_config \<Rightarrow> int \<Rightarrow> unit call" where
  "sendPullRequest cfg timeout = catching to_amq
     (sequel (clearDeliveredList cfg) (with_state (\<lambda>k.
        only_if (ch_isEmpty (unconsumedMessages k) \<and> prefetchSize cfg = 0) (transmit (Pull timeout)))))"

text \<open>\<open>iterate\<close>: whether there was work\<close>

definition iterate :: "nat \<Rightarrow> consumer_config \<Rightarrow> (message_dispatch \<Rightarrow> unit call) \<Rightarrow> bool call" where
  "iterate n cfg onMessage = with_state (\<lambda>k.
     if \<not> hasListener k then ret False
     else case ch_dequeueNoWait (unconsumedMessages k) of
       (None, c) \<Rightarrow> sequel (change (\<lambda>k. k\<lparr>unconsumedMessages := c\<rparr>)) (ret False)
     | (Some d, c) \<Rightarrow> sequel (change (\<lambda>k. k\<lparr>unconsumedMessages := c\<rparr>)) (sequel (Consumer_dispatch n cfg onMessage d) (ret True)))"

section \<open>Receiving\<close>

text \<open>
  The wait of \<open>unconsumedMessages->dequeue(timeout)\<close>: \<open>env\<close> is what the other threads do, one entry per wake-up, and
  a wait with a time-out in which nothing happens lets the time pass. The result has the entries left; \<open>None\<close>: it
  still waits when the list ends.
\<close>

fun await :: "int \<Rightarrow> (consumer \<Rightarrow> consumer) list \<Rightarrow> consumer \<Rightarrow> ((consumer \<Rightarrow> consumer) list \<times> consumer) option" where
  "await timeout env k =
     (if timeout \<noteq> 0 \<and> \<not> ch_isClosed (unconsumedMessages k) \<and> (ch_isEmpty (unconsumedMessages k) \<or> \<not> ch_isRunning (unconsumedMessages k))
      then (if timeout = - 1
            then (case env of [] \<Rightarrow> None | f # env' \<Rightarrow> await timeout env' (f k))
            else Some (case env of [] \<Rightarrow> ([], k\<lparr>clock := clock k + timeout\<rparr>) | f # env' \<Rightarrow> (env', f k)))
      else Some (env, k))"

declare await.simps [simp del]

definition remaining :: "int \<Rightarrow> int \<Rightarrow> consumer \<Rightarrow> int" where
  "remaining deadline timeout k = (if timeout > 0 then max (deadline - clock k) 0 else timeout)"

text \<open>\<open>dequeue\<close>: one pass of its loop for each expired or too often redelivered message; \<open>n\<close> bounds the passes.\<close>

fun dequeue_loop :: "nat \<Rightarrow> consumer_config \<Rightarrow> int \<Rightarrow> int \<Rightarrow> (consumer \<Rightarrow> consumer) list \<Rightarrow> consumer \<Rightarrow> (message_dispatch option result \<times> consumer) option" where
  "dequeue_loop 0 cfg deadline timeout env k = None"
| "dequeue_loop (Suc n) cfg deadline timeout env k =
     (case await timeout env k of
        None \<Rightarrow> None
      | Some (env', k1) \<Rightarrow>
          (case ch_dequeueNoWait (unconsumedMessages k1) of
             (None, c) \<Rightarrow>
               (let k2 = k1\<lparr>unconsumedMessages := c\<rparr>
                in if timeout > 0 \<and> \<not> ch_isClosed c then dequeue_loop n cfg deadline (remaining deadline timeout k2) env' k2
                   else if failureError k2 then Some (Throw CMSException, k2) else Some (Ok None, k2))
           | (Some d, c) \<Rightarrow>
               (let k2 = k1\<lparr>unconsumedMessages := c\<rparr>
                in case md_message d of
                     None \<Rightarrow> Some (Ok None, k2)
                   | Some m \<Rightarrow>
                       if consumeExpiredMessage cfg m k2 then
                         (case sequel (beforeMessageIsConsumed cfg d) (afterMessageIsConsumed cfg d True) k2 of
                            (Inl e, k3) \<Rightarrow> Some (Throw e, k3)
                          | (Inr _, k3) \<Rightarrow>
                              (case sendPullRequest cfg (remaining deadline timeout k3) k3 of
                                 (Inl e, k4) \<Rightarrow> Some (Throw e, k4)
                               | (Inr _, k4) \<Rightarrow> dequeue_loop n cfg deadline (remaining deadline timeout k3) env' k4))
                       else if redeliveryExceeded cfg d m then
                         (case posionAck cfg d k2 of
                            (Inl e, k3) \<Rightarrow> Some (Throw e, k3)
                          | (Inr _, k3) \<Rightarrow>
                              (case sendPullRequest cfg (remaining deadline timeout k3) k3 of
                                 (Inl e, k4) \<Rightarrow> Some (Throw e, k4)
                               | (Inr _, k4) \<Rightarrow> dequeue_loop n cfg deadline (remaining deadline timeout k3) env' k4))
                       else Some (Ok (Some d), k2))))"

definition Consumer_dequeue :: "nat \<Rightarrow> consumer_config \<Rightarrow> int \<Rightarrow> (consumer \<Rightarrow> consumer) list \<Rightarrow> consumer \<Rightarrow> (message_dispatch option result \<times> consumer) option" where
  "Consumer_dequeue n cfg timeout env k =
     map_option (\<lambda>(r, k'). (case r of Inl e \<Rightarrow> Throw (to_cms e) | Inr x \<Rightarrow> Ok x, k'))
       (dequeue_loop n cfg (if timeout > 0 then clock k + timeout else 0) timeout env k)"

text \<open>What the three \<open>receive\<close> functions share; \<open>pull\<close> and \<open>timeout\<close> are the arguments of \<open>sendPullRequest\<close> and \<open>dequeue\<close>.\<close>

definition receive_with :: "nat \<Rightarrow> consumer_config \<Rightarrow> int \<Rightarrow> int \<Rightarrow> (consumer \<Rightarrow> consumer) list \<Rightarrow> consumer \<Rightarrow> (message_dispatch option result \<times> consumer) option" where
  "receive_with n cfg pull timeout env k =
     (if ch_isClosed (unconsumedMessages k) then Some (Throw CMSIllegalStateException, k)
      else if hasListener k \<or> sessionHasListener k then Some (Throw CMSIllegalStateException, k)
      else case sendPullRequest cfg pull k of
        (Inl e, k1) \<Rightarrow> Some (Throw (to_cms e), k1)
      | (Inr _, k1) \<Rightarrow>
          (case Consumer_dequeue n cfg timeout env k1 of
             None \<Rightarrow> None
           | Some (Inl e, k2) \<Rightarrow> Some (Throw (to_cms e), k2)
           | Some (Inr None, k2) \<Rightarrow> Some (Ok None, k2)
           | Some (Inr (Some d), k2) \<Rightarrow>
               Some (catching to_cms (sequel (beforeMessageIsConsumed cfg d) (sequel (afterMessageIsConsumed cfg d False)
                 (sequel (emit (Deliver d)) (ret (Some d))))) k2)))"

definition receive :: "nat \<Rightarrow> consumer_config \<Rightarrow> (consumer \<Rightarrow> consumer) list \<Rightarrow> consumer \<Rightarrow> (message_dispatch option result \<times> consumer) option" where
  "receive n cfg = receive_with n cfg 0 (- 1)"

definition receive_timeout :: "nat \<Rightarrow> consumer_config \<Rightarrow> int \<Rightarrow> (consumer \<Rightarrow> consumer) list \<Rightarrow> consumer \<Rightarrow> (message_dispatch option result \<times> consumer) option" where
  "receive_timeout n cfg timeout = (if timeout = 0 then receive n cfg else receive_with n cfg timeout timeout)"

definition receiveNoWait :: "nat \<Rightarrow> consumer_config \<Rightarrow> consumer \<Rightarrow> (message_dispatch option result \<times> consumer) option" where
  "receiveNoWait n cfg = receive_with n cfg (- 1) 0 []"

section \<open>Closing\<close>

text \<open>The tasks of the executor are run before it ends.\<close>

definition run_executor :: "consumer_config \<Rightarrow> consumer \<Rightarrow> consumer" where
  "run_executor cfg k = ((AsyncMessageAckTask_run cfg) ^^ length (executor k)) k"

text \<open>\<open>dispose\<close>, by the one thread that gets to it; \<open>env\<close> for the wait of \<open>acknowledge\<close>\<close>

definition dispose :: "consumer_config \<Rightarrow> (consumer \<Rightarrow> consumer) list \<Rightarrow> consumer \<Rightarrow> (unit result \<times> consumer) option" where
  "dispose cfg env k =
     (if ch_isClosed (unconsumedMessages k) then Some (Ok (), k)
      else
        let rest = (\<lambda>k. catching to_amq
             (sequel (change (\<lambda>k. run_executor cfg (k\<lparr>started := False\<rparr>)))
             (sequel (with_state (\<lambda>k. only_if (client_or_individual cfg \<and> \<not> browser cfg \<and> \<not> connectionClosed k)
                        (for_each (rollback_duplicate cfg) (deliveredMessages k))))
             (sequel (with_state (\<lambda>k. only_if (\<not> isTransacted cfg k) (change (\<lambda>k. k\<lparr>deliveredMessages := []\<rparr>))))
             (sequel (change (\<lambda>k. k\<lparr>unconsumedMessages := ch_close (unconsumedMessages k)\<rparr>))
             (with_state (\<lambda>k. case ch_removeAll (unconsumedMessages k) of
                (ds, c) \<Rightarrow> sequel (change (\<lambda>k. k\<lparr>unconsumedMessages := c\<rparr>))
                            (only_if (\<not> browser cfg) (for_each (rollback_duplicate cfg) ds)))))))) k)
        in if isTransacted cfg k then Some (rest k)
           else (case deliverAcks cfg k of
                   (Inl e, k1) \<Rightarrow> Some (Throw (to_amq e), k1)
                 | (Inr _, k1) \<Rightarrow>
                     if isAutoAcknowledgeBatch cfg
                     then (case acknowledge cfg env k1 of
                             None \<Rightarrow> None
                           | Some (Inl e, k2) \<Rightarrow> Some (Throw (to_amq e), k2)
                           | Some (Inr _, k2) \<Rightarrow> Some (rest k2))
                     else Some (rest k1)))"

end
