(* ===== verification/Consumer_Acks.thy ===== *)
theory Consumer_Acks
  imports Consumer_Kernel
begin

text \<open>
  What the acknowledgements of a consumer cover: outside of transactions, the consumed acknowledgements it has sent
  partition the messages handed to the client, in order, up to those that are still to be acknowledged.
\<close>

section \<open>The channel\<close>

definition ch_ops :: "channel chan_ops" where
  "ch_ops = \<lparr>op_enqueue = ch_enqueue, op_enqueueFirst = ch_enqueueFirst, op_dequeueNoWait = ch_dequeueNoWait,
     op_peek = ch_get fifo_peek prio_peek, op_removeAll = ch_removeAll, op_start = ch_start, op_stop = ch_stop,
     op_close = ch_close, op_size = ch_get fifo_size prio_size\<rparr>"

definition ch_inv :: "channel \<Rightarrow> bool" where "ch_inv = ch_get (\<lambda>_. True) prio_inv"
definition ch_contents :: "channel \<Rightarrow> message_dispatch list" where "ch_contents = ch_get fifo_list prio_contents"

lemmas ch_defs = ch_enqueue_def ch_enqueueFirst_def ch_start_def ch_stop_def ch_close_def ch_isEmpty_def ch_isRunning_def
  ch_isClosed_def ch_dequeueNoWait_def ch_removeAll_def ch_inv_def ch_contents_def

lemma chan_step_channel:
  "chan_step ch_ops x (Fifo c) = apsnd Fifo (chan_step fifo_ops x c)"
  "chan_step ch_ops x (Prio p) = apsnd Prio (chan_step prio_ops x p)"
  by (cases x; simp add: ch_ops_def ch_defs fifo_ops_def prio_ops_def split: prod.split)+

lemma ops_channel:
  "op_enqueue ch_ops m (Fifo c) = Fifo (op_enqueue fifo_ops m c)" "op_enqueue ch_ops m (Prio p) = Prio (op_enqueue prio_ops m p)"
  "op_enqueueFirst ch_ops m (Fifo c) = Fifo (op_enqueueFirst fifo_ops m c)" "op_enqueueFirst ch_ops m (Prio p) = Prio (op_enqueueFirst prio_ops m p)"
  "op_dequeueNoWait ch_ops (Fifo c) = apsnd Fifo (op_dequeueNoWait fifo_ops c)" "op_dequeueNoWait ch_ops (Prio p) = apsnd Prio (op_dequeueNoWait prio_ops p)"
  "op_peek ch_ops (Fifo c) = op_peek fifo_ops c" "op_peek ch_ops (Prio p) = op_peek prio_ops p"
  "op_removeAll ch_ops (Fifo c) = apsnd Fifo (op_removeAll fifo_ops c)" "op_removeAll ch_ops (Prio p) = apsnd Prio (op_removeAll prio_ops p)"
  "op_start ch_ops (Fifo c) = Fifo (op_start fifo_ops c)" "op_start ch_ops (Prio p) = Prio (op_start prio_ops p)"
  "op_stop ch_ops (Fifo c) = Fifo (op_stop fifo_ops c)" "op_stop ch_ops (Prio p) = Prio (op_stop prio_ops p)"
  "op_close ch_ops (Fifo c) = Fifo (op_close fifo_ops c)" "op_close ch_ops (Prio p) = Prio (op_close prio_ops p)"
  "op_size ch_ops (Fifo c) = op_size fifo_ops c" "op_size ch_ops (Prio p) = op_size prio_ops p"
  by (simp_all add: ch_ops_def ch_defs fifo_ops_def prio_ops_def)

lemma states_channel:
  "ch_contents (Fifo c) = fifo_list c" "ch_contents (Prio p) = prio_contents p" "ch_inv (Fifo c)" "ch_inv (Prio p) = prio_inv p"
  "ch_isRunning (Fifo c) = fifo_running c" "ch_isRunning (Prio p) = prio_running p"
  "ch_isClosed (Fifo c) = fifo_closed c" "ch_isClosed (Prio p) = prio_closed p"
  by (simp_all add: ch_defs)

interpretation ch: dispatch_channel ch_ops ch_inv ch_contents ch_isRunning ch_isClosed
proof unfold_locales
  fix c x m ms
  assume i: "ch_inv c"
  note s = chan_step_channel ops_channel states_channel
  show "ch_inv (snd (chan_step ch_ops x c))" using i prio.inv_step by (cases c) (simp_all add: s)
  show "mset (ch_contents (op_enqueue ch_ops m c)) = add_mset m (mset (ch_contents c))"
    "mset (ch_contents (op_enqueueFirst ch_ops m c)) = add_mset m (mset (ch_contents c))"
    using i fifo.enqueue prio.enqueue fifo.enqueueFirst prio.enqueueFirst by (cases c; simp add: s)+
  show "ch_isClosed c \<or> \<not> ch_isRunning c \<or> ch_contents c = [] \<Longrightarrow> op_dequeueNoWait ch_ops c = (None, c)"
    using i fifo.dequeue_none prio.dequeue_none by (cases c) (auto simp: s)
  show "\<not> ch_isClosed c \<Longrightarrow> ch_isRunning c \<Longrightarrow> ch_contents c = m # ms \<Longrightarrow>
      \<exists>c'. op_dequeueNoWait ch_ops c = (Some m, c') \<and> ch_contents c' = ms"
  proof (cases c)
    case (Fifo f)
    assume "\<not> ch_isClosed c" "ch_isRunning c" "ch_contents c = m # ms"
    then obtain f' where "op_dequeueNoWait fifo_ops f = (Some m, f')" "fifo_list f' = ms"
      using fifo.dequeue_some [of f m ms] by (auto simp: Fifo s)
    then show ?thesis by (auto simp: Fifo s)
  next
    case (Prio p)
    assume "\<not> ch_isClosed c" "ch_isRunning c" "ch_contents c = m # ms"
    then obtain p' where "op_dequeueNoWait prio_ops p = (Some m, p')" "prio_contents p' = ms"
      using prio.dequeue_some [of p m ms] i by (auto simp: Prio s)
    then show ?thesis by (auto simp: Prio s)
  qed
  show "op_peek ch_ops c = fst (op_dequeueNoWait ch_ops c)" using i fifo.peek prio.peek by (cases c) (simp_all add: s)
  show "fst (op_removeAll ch_ops c) = ch_contents c \<and> ch_contents (snd (op_removeAll ch_ops c)) = []"
    using i fifo.removeAll prio.removeAll by (cases c) (simp_all add: s)
  show "ch_contents (op_start ch_ops c) = ch_contents c" "ch_contents (op_stop ch_ops c) = ch_contents c" "ch_contents (op_close ch_ops c) = ch_contents c"
    using i fifo.lifecycle prio.lifecycle by (cases c; simp add: s)+
  show "ch_isClosed (snd (chan_step ch_ops x c)) \<longleftrightarrow> ch_isClosed c \<or> x = Close"
    using i fifo.closed_step prio.closed_step by (cases c) (simp_all add: s)
  show "x \<notin> {Start, Stop, Close} \<Longrightarrow> ch_isRunning (snd (chan_step ch_ops x c)) = ch_isRunning c"
    using i fifo.running_step [where x = x] prio.running_step [where x = x] by (cases c) (simp_all add: s)
  show "op_size ch_ops c = int (length (ch_contents c))" using i fifo.size prio.size by (cases c) (simp_all add: s)
qed

text \<open>The operations on the channel as the kernel calls them.\<close>

lemma ch_dequeue:
  assumes "ch_inv c"
  shows "case ch_dequeueNoWait c of
      (None, c') \<Rightarrow> c' = c
    | (Some d, c') \<Rightarrow> ch_contents c = d # ch_contents c' \<and> ch_inv c' \<and> ch_isClosed c' = ch_isClosed c"
proof -
  have i: "ch_inv (snd (ch_dequeueNoWait c))" "ch_isClosed (snd (ch_dequeueNoWait c)) = ch_isClosed c"
    using ch.inv_step [OF assms, of Dequeue] ch.closed_step [OF assms, of Dequeue] by (simp_all add: ch_ops_def case_prod_beta split: option.splits)
  show ?thesis
  proof (rule ch.dequeue_cases [OF assms])
    assume "op_dequeueNoWait ch_ops c = (None, c)"
    then show ?thesis by (simp add: ch_ops_def)
  next
    fix m ms c'
    assume "op_dequeueNoWait ch_ops c = (Some m, c')" "ch_contents c = m # ms" "ch_contents c' = ms"
    then show ?thesis using i by (simp add: ch_ops_def)
  qed
qed

lemma ch_enqueue_facts:
  assumes "ch_inv c"
  shows "ch_inv (ch_enqueue d c)" "set (ch_contents (ch_enqueue d c)) = insert d (set (ch_contents c))" "ch_isClosed (ch_enqueue d c) = ch_isClosed c"
  using ch.inv_step [OF assms, of "Enqueue d"] ch.closed_step [OF assms, of "Enqueue d"] arg_cong [OF ch.enqueue [OF assms, of d], of set_mset]
  by (simp_all add: ch_ops_def)

section \<open>What acknowledgements cover\<close>

definition did :: "message_dispatch \<Rightarrow> message_id option" where
  "did d = (case md_message d of None \<Rightarrow> None | Some m \<Rightarrow> messageId m)"

definition has_id :: "message_dispatch \<Rightarrow> bool" where
  "has_id d \<longleftrightarrow> (\<exists>m i. md_message d = Some m \<and> messageId m = Some i)"

definition covers :: "message_ack \<Rightarrow> message_id option list \<Rightarrow> bool" where
  "covers a ids \<longleftrightarrow> ids \<noteq> [] \<and> ak_first a = hd ids \<and> ak_last a = last ids \<and> ak_count a = int (length ids)"

definition handed_over :: "effect list \<Rightarrow> message_id option list" where
  "handed_over es = concat (map (\<lambda>e. case e of Deliver d \<Rightarrow> [did d] | _ \<Rightarrow> []) es)"

definition consumed_acks :: "effect list \<Rightarrow> message_ack list" where
  "consumed_acks es = concat (map (\<lambda>e. case e of SendAck s a \<Rightarrow> if ak_type a = ACK_TYPE_CONSUMED then [a] else [] | _ \<Rightarrow> []) es)"

lemma handed_over_simps [simp]: "handed_over [] = []" "handed_over (es @ fs) = handed_over es @ handed_over fs"
  "handed_over (e # es) = (case e of Deliver d \<Rightarrow> [did d] | _ \<Rightarrow> []) @ handed_over es"
  by (simp_all add: handed_over_def)

lemma consumed_acks_simps [simp]: "consumed_acks [] = []" "consumed_acks (es @ fs) = consumed_acks es @ consumed_acks fs"
  "consumed_acks (e # es) = (case e of SendAck s a \<Rightarrow> if ak_type a = ACK_TYPE_CONSUMED then [a] else [] | _ \<Rightarrow> []) @ consumed_acks es"
  by (simp_all add: consumed_acks_def)

text \<open>The messages not acknowledged yet: those in the list of delivered messages, or those of the pending acknowledgement.\<close>

definition unacked :: "consumer_config \<Rightarrow> consumer \<Rightarrow> message_id option list \<Rightarrow> bool" where
  "unacked cfg k ids \<longleftrightarrow>
     (if isAutoAcknowledgeBatch cfg then
        deliveredMessages k = [] \<and>
        (case pendingAck k of
           None \<Rightarrow> ids = [] \<and> deliveredCounter k = 0
         | Some a \<Rightarrow> covers a ids \<and> ak_type a = ACK_TYPE_CONSUMED \<and> deliveredCounter k = int (length ids))
      else map did (rev (deliveredMessages k)) = ids \<and> list_all has_id (deliveredMessages k) \<and>
        (case pendingAck k of None \<Rightarrow> True | Some a \<Rightarrow> client_or_individual cfg \<and> ak_type a = ACK_TYPE_DELIVERED))"

text \<open>A consumer at work outside of transactions, on a connection that does not fail.\<close>

definition sound :: "consumer_config \<Rightarrow> consumer \<Rightarrow> bool" where
  "sound cfg k \<longleftrightarrow> ackMode cfg \<noteq> SESSION_TRANSACTED \<and> transaction k = NoTransaction \<and> connectionFailed k = None \<and>
     \<not> isClearDeliveredList k \<and> inProgressClearRequiredFlag k = 0 \<and> \<not> deliveringAcks k \<and> previouslyDeliveredMessages k = None \<and>
     \<not> ch_isClosed (unconsumedMessages k) \<and> ch_inv (unconsumedMessages k) \<and> (\<forall>d \<in> set (ch_contents (unconsumedMessages k)). has_id d)"

definition acked :: "consumer_config \<Rightarrow> consumer \<Rightarrow> message_id option list \<Rightarrow> bool" where
  "acked cfg k ids \<longleftrightarrow> (\<exists>segments rest. ids = concat segments @ rest \<and> list_all2 covers (consumed_acks (log k)) segments \<and> unacked cfg k rest)"

lemma sound_transacted: "sound cfg k \<Longrightarrow> \<not> isTransacted cfg k"
  by (simp add: sound_def isTransacted_def)

lemma MessageAck_new_id: "has_id d \<Longrightarrow> MessageAck_new d t n = Ok \<lparr>ak_type = t, ak_destination = md_destination d, ak_first = None, ak_last = did d,
    ak_count = n, ak_transaction = None\<rparr>"
  by (auto simp: has_id_def MessageAck_new_def did_def)

lemma dispatch_id_did: "has_id d \<Longrightarrow> dispatch_id d = Ok (did d)"
  by (auto simp: has_id_def dispatch_id_def did_def)

lemma sendAck_sent:
  assumes "connectionFailed k = None"
  shows "sendAck cfg a async k = (Ok (), k\<lparr>log := log k @ [SendAck (\<not> (async \<or> isSendAcksAsync cfg \<or> isTransacted cfg k)) a]\<rparr>)"
  using assms by (auto simp: sendAck_def transmit_def emit_def call_defs)

lemma make_ack:
  assumes "list_all has_id (deliveredMessages k)"
  shows "makeAckForAllDeliveredMessages t k = Ok (if deliveredMessages k = [] then None else Some
    \<lparr>ak_type = t, ak_destination = md_destination (hd (deliveredMessages k)), ak_first = did (last (deliveredMessages k)),
     ak_last = did (hd (deliveredMessages k)), ak_count = int (length (deliveredMessages k)), ak_transaction = None\<rparr>)"
  using assms by (cases "deliveredMessages k") (auto simp: makeAckForAllDeliveredMessages_def MessageAck_new_id dispatch_id_did list_all_iff)

lemma before_plain:
  assumes "sound cfg k" "has_id d"
  shows "\<exists>n. beforeMessageIsConsumed cfg d k = (Ok (), if isAutoAcknowledgeBatch cfg then k\<lparr>lastDeliveredSequenceId := n\<rparr>
    else k\<lparr>lastDeliveredSequenceId := n, deliveredMessages := d # deliveredMessages k\<rparr>)"
  using assms sound_transacted [OF assms(1)]
  by (auto simp: beforeMessageIsConsumed_def has_id_def call_defs isTransacted_def)

section \<open>Consuming a message\<close>

lemma acked_delivered:
  assumes "acked cfg k ids" "\<not> isAutoAcknowledgeBatch cfg" "has_id d" "deliveredMessages k' = d # deliveredMessages k"
    "consumed_acks (log k') = consumed_acks (log k)" "pendingAck k' = pendingAck k"
  shows "acked cfg k' (ids @ [did d])"
  using assms unfolding acked_def unacked_def by (auto 4 4)

lemma acked_flush:
  assumes "acked cfg k ids" "\<not> isAutoAcknowledgeBatch cfg" "deliveredMessages k \<noteq> []" "makeAckForAllDeliveredMessages ACK_TYPE_CONSUMED k = Ok (Some a)"
    "deliveredMessages k' = []" "log k' = log k @ [SendAck sync a]" "pendingAck k' = pendingAck k \<or> pendingAck k' = None"
  shows "acked cfg k' ids"
proof -
  obtain segments where s: "ids = concat segments @ map did (rev (deliveredMessages k))" "list_all2 covers (consumed_acks (log k)) segments"
    "list_all has_id (deliveredMessages k)" "case pendingAck k of None \<Rightarrow> True | Some a \<Rightarrow> client_or_individual cfg \<and> ak_type a = ACK_TYPE_DELIVERED"
    using assms(1,2) by (auto simp: acked_def unacked_def)
  have "covers a (map did (rev (deliveredMessages k)))" "ak_type a = ACK_TYPE_CONSUMED"
    using assms(3,4) make_ack [OF s(3)] by (auto simp: covers_def hd_map hd_rev last_map last_rev)
  then have "list_all2 covers (consumed_acks (log k')) (segments @ [map did (rev (deliveredMessages k))])"
    using s(2) assms(6) by (simp add: list_all2_appendI)
  moreover have "unacked cfg k' []" using assms(2,5,7) s(4) by (auto simp: unacked_def)
  moreover have "ids = concat (segments @ [map did (rev (deliveredMessages k))]) @ []" using s(1) by simp
  ultimately show ?thesis unfolding acked_def by blast
qed

lemma acked_other:
  assumes "acked cfg k ids" "\<not> isAutoAcknowledgeBatch cfg" "deliveredMessages k' = deliveredMessages k" "consumed_acks (log k') = consumed_acks (log k)"
    "case pendingAck k' of None \<Rightarrow> True | Some a \<Rightarrow> client_or_individual cfg \<and> ak_type a = ACK_TYPE_DELIVERED"
  shows "acked cfg k' ids"
  using assms by (auto simp: acked_def unacked_def)

text \<open>\<open>ackLater\<close> outside of a transaction\<close>

definition next_pending :: "message_dispatch \<Rightarrow> nat \<Rightarrow> consumer \<Rightarrow> message_ack" where
  "next_pending d t k = \<lparr>ak_type = t, ak_destination = md_destination d,
     ak_first = (case pendingAck k of None \<Rightarrow> did d | Some old \<Rightarrow> if ak_type old = t then ak_first old else None),
     ak_last = did d, ak_count = deliveredCounter k + 1, ak_transaction = None\<rparr>"

lemma ackLater_plain:
  assumes "sound cfg k" "has_id d" "case pendingAck k of None \<Rightarrow> True | Some old \<Rightarrow> ak_type old = t"
  shows "ackLater cfg d t k = (Ok (),
    if prefetchSize cfg \<le> 2 * (deliveredCounter k + 1 + ackCounter k - additionalWindowSize k)
    then k\<lparr>log := log k @ [SendAck (\<not> isSendAcksAsync cfg) (next_pending d t k)], pendingAck := None, deliveredCounter := 0, additionalWindowSize := 0\<rparr>
    else k\<lparr>deliveredCounter := deliveredCounter k + 1, pendingAck := Some (next_pending d t k)\<rparr>)"
proof -
  have t: "\<not> isTransacted cfg (k\<lparr>deliveredCounter := x, pendingAck := y\<rparr>)" "\<not> isTransacted cfg (k\<lparr>deliveredCounter := x\<rparr>)" "\<not> isTransacted cfg k" for x y
    using assms(1) by (simp_all add: sound_def isTransacted_def)
  have f: "connectionFailed k = None" using assms(1) by (simp add: sound_def)
  show ?thesis
    using assms(3) t f
    by (cases "pendingAck k")
      (auto simp: ackLater_def call_defs Let_def MessageAck_new_id [OF assms(2)] next_pending_def sendAck_def transmit_def emit_def)
qed

lemma covers_next:
  assumes "case pendingAck k of None \<Rightarrow> ids = [] \<and> deliveredCounter k = 0
    | Some a \<Rightarrow> covers a ids \<and> ak_type a = ACK_TYPE_CONSUMED \<and> deliveredCounter k = int (length ids)"
  shows "covers (next_pending d ACK_TYPE_CONSUMED k) (ids @ [did d])"
  using assms by (auto simp: covers_def next_pending_def hd_append split: option.splits)

lemma ackLater_batch:
  assumes "sound cfg k" "has_id d" "isAutoAcknowledgeBatch cfg" "acked cfg k ids"
  shows "\<exists>k'. ackLater cfg d ACK_TYPE_CONSUMED k = (Ok (), k') \<and> sound cfg k' \<and> acked cfg k' (ids @ [did d]) \<and>
    handed_over (log k') = handed_over (log k) \<and> unconsumedMessages k' = unconsumedMessages k"
proof -
  obtain segments rest where s: "ids = concat segments @ rest" "list_all2 covers (consumed_acks (log k)) segments" "deliveredMessages k = []"
    "case pendingAck k of None \<Rightarrow> rest = [] \<and> deliveredCounter k = 0
      | Some a \<Rightarrow> covers a rest \<and> ak_type a = ACK_TYPE_CONSUMED \<and> deliveredCounter k = int (length rest)"
    using assms(3,4) by (auto simp: acked_def unacked_def)
  have p: "case pendingAck k of None \<Rightarrow> True | Some old \<Rightarrow> ak_type old = ACK_TYPE_CONSUMED" using s(4) by (auto split: option.splits)
  have e: "ackLater cfg d ACK_TYPE_CONSUMED k = (Ok (),
    if prefetchSize cfg \<le> 2 * (deliveredCounter k + 1 + ackCounter k - additionalWindowSize k)
    then k\<lparr>log := log k @ [SendAck (\<not> isSendAcksAsync cfg) (next_pending d ACK_TYPE_CONSUMED k)], pendingAck := None, deliveredCounter := 0, additionalWindowSize := 0\<rparr>
    else k\<lparr>deliveredCounter := deliveredCounter k + 1, pendingAck := Some (next_pending d ACK_TYPE_CONSUMED k)\<rparr>)"
    by (rule ackLater_plain [OF assms(1,2) p])
  note c = covers_next [OF s(4), of d]
  have len: "deliveredCounter k + 1 = int (length (rest @ [did d]))" using s(4) by (auto split: option.splits)
  show ?thesis
  proof (cases "prefetchSize cfg \<le> 2 * (deliveredCounter k + 1 + ackCounter k - additionalWindowSize k)")
    case True
    let ?k = "k\<lparr>log := log k @ [SendAck (\<not> isSendAcksAsync cfg) (next_pending d ACK_TYPE_CONSUMED k)], pendingAck := None, deliveredCounter := 0, additionalWindowSize := 0\<rparr>"
    have "list_all2 covers (consumed_acks (log ?k)) (segments @ [rest @ [did d]])" using s(2) c by (simp add: list_all2_appendI next_pending_def)
    moreover have "unacked cfg ?k []" using assms(3) s(3) by (simp add: unacked_def)
    moreover have "ids @ [did d] = concat (segments @ [rest @ [did d]]) @ []" using s(1) by simp
    ultimately have "acked cfg ?k (ids @ [did d])" unfolding acked_def by blast
    then show ?thesis using e True assms(1) by (auto simp: sound_def)
  next
    case False
    let ?k = "k\<lparr>deliveredCounter := deliveredCounter k + 1, pendingAck := Some (next_pending d ACK_TYPE_CONSUMED k)\<rparr>"
    have "unacked cfg ?k (rest @ [did d])" using assms(3) s(3) c len by (simp add: unacked_def next_pending_def add.commute)
    moreover have "ids @ [did d] = concat segments @ (rest @ [did d])" "list_all2 covers (consumed_acks (log ?k)) segments" using s(1,2) by simp_all
    ultimately have "acked cfg ?k (ids @ [did d])" unfolding acked_def by blast
    then show ?thesis using e False assms(1) by (auto simp: sound_def)
  qed
qed

lemma ackLater_client:
  assumes "sound cfg k" "has_id d" "client_or_individual cfg" "acked cfg k ids"
  shows "\<exists>k'. ackLater cfg d ACK_TYPE_DELIVERED k = (Ok (), k') \<and> sound cfg k' \<and> acked cfg k' ids \<and>
    handed_over (log k') = handed_over (log k) \<and> unconsumedMessages k' = unconsumedMessages k"
proof -
  have b: "\<not> isAutoAcknowledgeBatch cfg" using assms(3) by (auto simp: client_or_individual_def isAutoAcknowledgeBatch_def)
  have p: "case pendingAck k of None \<Rightarrow> True | Some old \<Rightarrow> ak_type old = ACK_TYPE_DELIVERED"
    using assms(4) b by (auto simp: acked_def unacked_def split: option.splits)
  have e: "ackLater cfg d ACK_TYPE_DELIVERED k = (Ok (),
    if prefetchSize cfg \<le> 2 * (deliveredCounter k + 1 + ackCounter k - additionalWindowSize k)
    then k\<lparr>log := log k @ [SendAck (\<not> isSendAcksAsync cfg) (next_pending d ACK_TYPE_DELIVERED k)], pendingAck := None, deliveredCounter := 0, additionalWindowSize := 0\<rparr>
    else k\<lparr>deliveredCounter := deliveredCounter k + 1, pendingAck := Some (next_pending d ACK_TYPE_DELIVERED k)\<rparr>)"
    by (rule ackLater_plain [OF assms(1,2) p])
  have "acked cfg (if prefetchSize cfg \<le> 2 * (deliveredCounter k + 1 + ackCounter k - additionalWindowSize k)
    then k\<lparr>log := log k @ [SendAck (\<not> isSendAcksAsync cfg) (next_pending d ACK_TYPE_DELIVERED k)], pendingAck := None, deliveredCounter := 0, additionalWindowSize := 0\<rparr>
    else k\<lparr>deliveredCounter := deliveredCounter k + 1, pendingAck := Some (next_pending d ACK_TYPE_DELIVERED k)\<rparr>) ids"
    using assms(3) by (intro acked_other [OF assms(4) b]) (simp_all add: next_pending_def ack_types)
  then show ?thesis using e assms(1) by (auto simp: sound_def)
qed

text \<open>The result of a call that keeps what it should keep.\<close>

definition keeps :: "consumer_config \<Rightarrow> consumer \<Rightarrow> message_id option list \<Rightarrow> 'a result \<times> consumer \<Rightarrow> bool" where
  "keeps cfg k ids out \<longleftrightarrow> sound cfg (snd out) \<and> acked cfg (snd out) ids \<and> handed_over (log (snd out)) = handed_over (log k) \<and>
     unconsumedMessages (snd out) = unconsumedMessages k"

lemma modes:
  "isAutoAcknowledgeEach cfg \<Longrightarrow> \<not> isAutoAcknowledgeBatch cfg" "isAutoAcknowledgeEach cfg \<Longrightarrow> \<not> client_or_individual cfg"
  "client_or_individual cfg \<Longrightarrow> \<not> isAutoAcknowledgeBatch cfg"
  "ackMode cfg \<noteq> SESSION_TRANSACTED \<Longrightarrow> isAutoAcknowledgeEach cfg \<or> isAutoAcknowledgeBatch cfg \<or> client_or_individual cfg"
  by (cases "ackMode cfg"; simp add: isAutoAcknowledgeEach_def isAutoAcknowledgeBatch_def client_or_individual_def)+

lemma after_each:
  assumes "sound cfg k" "isAutoAcknowledgeEach cfg" "acked cfg k ids" "deliveredMessages k \<noteq> []"
  shows "\<exists>k'. afterMessageIsConsumed cfg d False k = (Ok (), k') \<and> keeps cfg k ids (Ok (), k') \<and> (\<not> optimizeAcknowledge cfg \<longrightarrow> deliveredMessages k' = [])"
proof -
  have b: "\<not> isAutoAcknowledgeBatch cfg" by (rule modes(1) [OF assms(2)])
  have u: "list_all has_id (deliveredMessages k)" "pendingAck k = None"
    using assms(3) b modes(2) [OF assms(2)] by (auto simp: acked_def unacked_def split: option.splits)
  have sd: "transaction k = NoTransaction" "connectionFailed k = None" "\<not> deliveringAcks k" "\<not> ch_isClosed (unconsumedMessages k)" "\<not> isTransacted cfg k"
    using assms(1) sound_transacted [OF assms(1)] by (simp_all add: sound_def)
  define a where "a = \<lparr>ak_type = ACK_TYPE_CONSUMED, ak_destination = md_destination (hd (deliveredMessages k)), ak_first = did (last (deliveredMessages k)),
     ak_last = did (hd (deliveredMessages k)), ak_count = int (length (deliveredMessages k)), ak_transaction = None\<rparr>"
  have m: "makeAckForAllDeliveredMessages ACK_TYPE_CONSUMED (k\<lparr>deliveringAcks := x\<rparr>) = Ok (Some a)"
    "makeAckForAllDeliveredMessages ACK_TYPE_CONSUMED (k\<lparr>deliveringAcks := x, ackCounter := y\<rparr>) = Ok (Some a)"
    "makeAckForAllDeliveredMessages ACK_TYPE_CONSUMED k = Ok (Some a)" for x y
    using make_ack [of "k\<lparr>deliveringAcks := x\<rparr>"] make_ack [of "k\<lparr>deliveringAcks := x, ackCounter := y\<rparr>"] make_ack [of k] u(1) assms(4)
    by (simp_all add: a_def)
  have t: "isTransacted cfg k' = False" if "transaction k' = NoTransaction" for k' :: consumer
    using that assms(1) by (simp add: isTransacted_def sound_def)
  have send: "sendAck cfg a False k' = (Ok (), k'\<lparr>log := log k' @ [SendAck (\<not> isSendAcksAsync cfg) a]\<rparr>)"
    if "transaction k' = NoTransaction" "connectionFailed k' = None" for k'
    using sendAck_sent [OF that(2), of cfg a False] t [OF that(1)] by simp
  show ?thesis
  proof (cases "optimizeAcknowledge cfg")
    case False
    let ?k = "k\<lparr>deliveringAcks := False, deliveredMessages := [], log := log k @ [SendAck (\<not> isSendAcksAsync cfg) a]\<rparr>"
    have "afterMessageIsConsumed cfg d False k = (Ok (), ?k)"
      using False sd assms(2,4) m send by (simp add: afterMessageIsConsumed_def ack_delivered_def catching_def call_defs)
    moreover have "acked cfg ?k ids" using acked_flush [OF assms(3) b assms(4) m(3)] by simp
    ultimately show ?thesis using assms(1) by (simp add: keeps_def sound_def)
  next
    case True
    let ?k1 = "k\<lparr>deliveringAcks := False, ackCounter := ackCounter k + 1\<rparr>"
    let ?k2 = "k\<lparr>deliveringAcks := False, ackCounter := 0, deliveredMessages := [], log := log k @ [SendAck (\<not> isSendAcksAsync cfg) a], optimizeAckTimestamp := clock k\<rparr>"
    have "afterMessageIsConsumed cfg d False k = (Ok (), if isTimeForOptimizedAck cfg ?k1 then ?k2 else ?k1)"
      using True sd assms(2,4) m send u(2)
      by (simp add: afterMessageIsConsumed_def ack_delivered_optimized_def catching_def call_defs isTimeForOptimizedAck_def)
    moreover have "acked cfg ?k1 ids" by (rule acked_other [OF assms(3) b]) (simp_all add: u)
    moreover have "acked cfg ?k2 ids" using acked_flush [OF assms(3) b assms(4) m(3)] by simp
    ultimately show ?thesis using assms(1) True by (auto simp: keeps_def sound_def)
  qed
qed

lemma acked_frame:
  assumes "acked cfg k ids" and eqs: "deliveredMessages k' = deliveredMessages k" "pendingAck k' = pendingAck k" "deliveredCounter k' = deliveredCounter k"
    "consumed_acks (log k') = consumed_acks (log k)"
  shows "acked cfg k' ids"
  using assms(1) unfolding acked_def unacked_def eqs .

lemma consume:
  assumes "sound cfg k" "has_id d" "acked cfg k ids" "consumed_acks es = []"
  shows "\<exists>k1 k2. beforeMessageIsConsumed cfg d k = (Ok (), k1) \<and> afterMessageIsConsumed cfg d False (k1\<lparr>log := log k1 @ es\<rparr>) = (Ok (), k2) \<and>
    sound cfg k2 \<and> acked cfg k2 (ids @ [did d]) \<and> handed_over (log k2) = handed_over (log k @ es) \<and> unconsumedMessages k2 = unconsumedMessages k \<and>
    (isAutoAcknowledgeEach cfg \<and> \<not> optimizeAcknowledge cfg \<longrightarrow> deliveredMessages k2 = [])"
proof -
  obtain n where b: "beforeMessageIsConsumed cfg d k = (Ok (), if isAutoAcknowledgeBatch cfg then k\<lparr>lastDeliveredSequenceId := n\<rparr>
    else k\<lparr>lastDeliveredSequenceId := n, deliveredMessages := d # deliveredMessages k\<rparr>)" using before_plain [OF assms(1,2)] by blast
  have m: "isAutoAcknowledgeEach cfg \<or> isAutoAcknowledgeBatch cfg \<or> client_or_individual cfg" using assms(1) modes(4) by (simp add: sound_def)
  show ?thesis
  proof (cases "isAutoAcknowledgeBatch cfg")
    case True
    let ?k = "k\<lparr>lastDeliveredSequenceId := n, log := log k @ es\<rparr>"
    have s: "sound cfg ?k" "acked cfg ?k ids" using assms by (simp add: sound_def, intro acked_frame [OF assms(3)]) simp_all
    obtain k' where k': "ackLater cfg d ACK_TYPE_CONSUMED ?k = (Ok (), k')" "sound cfg k'" "acked cfg k' (ids @ [did d])"
      "handed_over (log k') = handed_over (log ?k)" "unconsumedMessages k' = unconsumedMessages ?k"
      using ackLater_batch [OF s(1) assms(2) True s(2)] by blast
    have e: "\<not> isAutoAcknowledgeEach cfg" using True modes(1) by blast
    have "afterMessageIsConsumed cfg d False ?k = (Ok (), k')"
      using s(1) sound_transacted [OF s(1)] True e k'(1) by (simp add: afterMessageIsConsumed_def sound_def catching_def call_defs)
    then show ?thesis using b True k' e by simp
  next
    case False
    let ?k = "k\<lparr>lastDeliveredSequenceId := n, deliveredMessages := d # deliveredMessages k, log := log k @ es\<rparr>"
    have s: "sound cfg ?k" using assms(1) by (simp add: sound_def)
    have a: "acked cfg ?k (ids @ [did d])"
      by (rule acked_delivered [OF assms(3) False assms(2)]) (simp_all add: assms(4))
    have "\<exists>k2. afterMessageIsConsumed cfg d False ?k = (Ok (), k2) \<and> keeps cfg ?k (ids @ [did d]) (Ok (), k2) \<and>
        (isAutoAcknowledgeEach cfg \<and> \<not> optimizeAcknowledge cfg \<longrightarrow> deliveredMessages k2 = [])"
    proof (cases "isAutoAcknowledgeEach cfg")
      case True
      then show ?thesis using after_each [OF s True a, of d] by auto
    next
      case e: False
      then have c: "client_or_individual cfg" using m False by blast
      obtain k2 where k2: "ackLater cfg d ACK_TYPE_DELIVERED ?k = (Ok (), k2)" "keeps cfg ?k (ids @ [did d]) (Ok (), k2)"
        using ackLater_client [OF s assms(2) c a] by (auto simp: keeps_def)
      have "afterMessageIsConsumed cfg d False ?k = (Ok (), k2)"
        using s sound_transacted [OF s] False e c k2(1) by (simp add: afterMessageIsConsumed_def sound_def catching_def call_defs)
      then show ?thesis using k2 e by blast
    qed
    then show ?thesis using b False by (auto simp: keeps_def)
  qed
qed

text \<open>An expired message is acknowledged as such and nothing else changes.\<close>

lemma consume_expired:
  assumes "sound cfg k" "has_id d" "acked cfg k ids"
  shows "\<exists>k'. sequel (beforeMessageIsConsumed cfg d) (afterMessageIsConsumed cfg d True) k = (Ok (), k') \<and> keeps cfg k ids (Ok (), k') \<and>
    deliveredMessages k' = deliveredMessages k"
proof -
  obtain n where b: "beforeMessageIsConsumed cfg d k = (Ok (), if isAutoAcknowledgeBatch cfg then k\<lparr>lastDeliveredSequenceId := n\<rparr>
    else k\<lparr>lastDeliveredSequenceId := n, deliveredMessages := d # deliveredMessages k\<rparr>)" using before_plain [OF assms(1,2)] by blast
  let ?a = "\<lparr>ak_type = ACK_TYPE_EXPIRED, ak_destination = md_destination d, ak_first = did d, ak_last = did d, ak_count = 1, ak_transaction = None\<rparr>"
  let ?k = "k\<lparr>lastDeliveredSequenceId := n, log := log k @ [SendAck (\<not> isSendAcksAsync cfg) ?a]\<rparr>"
  have s: "ackMode cfg \<noteq> SESSION_TRANSACTED" "transaction k = NoTransaction" "connectionFailed k = None" "\<not> ch_isClosed (unconsumedMessages k)"
    using assms(1) by (simp_all add: sound_def)
  have "isAutoAcknowledgeBatch cfg \<Longrightarrow> deliveredMessages k = []" using assms(3) by (auto simp: acked_def unacked_def)
  then have "sequel (beforeMessageIsConsumed cfg d) (afterMessageIsConsumed cfg d True) k = (Ok (), ?k)"
    using s by (auto simp: sequel_def andthen_def b afterMessageIsConsumed_def acknowledge_one_def catching_def with_state_def MessageAck_new_id [OF assms(2)]
        sendAck_def transmit_def emit_def isTransacted_def call_defs)
  moreover have "acked cfg ?k ids" by (rule acked_frame [OF assms(3)]) (simp_all add: ack_types)
  then have "keeps cfg k ids (Ok (), ?k)" using assms(1) by (simp add: keeps_def sound_def)
  ultimately show ?thesis by auto
qed

section \<open>Nothing to clear, and poison\<close>

lemma clear_nothing: "sound cfg k \<Longrightarrow> clearDeliveredList cfg k = (Ok (), k)" "sound cfg k \<Longrightarrow> clearMessagesInProgress cfg k = (Ok (), k)"
  by (simp_all add: clearDeliveredList_def clearMessagesInProgress_def call_defs sound_def)

lemma poison_keeps:
  assumes "sound cfg k" "acked cfg k ids" "has_id d"
  shows "\<exists>k'. posionAck cfg d k = (Ok (), k') \<and> keeps cfg k ids (Ok (), k') \<and> deliveredMessages k' = deliveredMessages k"
proof -
  let ?a = "\<lparr>ak_type = ACK_TYPE_POISON, ak_destination = md_destination d, ak_first = did d, ak_last = did d, ak_count = 1, ak_transaction = None\<rparr>"
  let ?k = "k\<lparr>log := log k @ [SendAck (\<not> isSendAcksAsync cfg) ?a]\<rparr>"
  have "posionAck cfg d k = (Ok (), ?k)"
    using assms(1) sound_transacted [OF assms(1)]
    by (simp add: posionAck_def MessageAck_new_id [OF assms(3)] sendAck_def transmit_def emit_def call_defs sound_def)
  moreover have "acked cfg ?k ids" by (rule acked_frame [OF assms(2)]) (simp_all add: ack_types)
  ultimately show ?thesis using assms(1) by (simp add: keeps_def sound_def)
qed

end
