(* ===== verification/Consumer_Contract.thy ===== *)
theory Consumer_Contract
  imports Consumer_Acks
begin

text \<open>
  What the calls of a consumer keep. The locale states what the small operations (consuming a message, acknowledging it as
  expired or poison, a change of the channel or the audit) promise about an invariant of the consumer; from it follows that
  \<open>dispatch\<close>, \<open>receiveNoWait\<close>, \<open>setMessageListener\<close>, \<open>start\<close> and \<open>stop\<close> keep it, and that
  \<open>receiveNoWait\<close> returns.
\<close>

section \<open>The channel\<close>

lemma ch_lifecycle:
  assumes "ch_inv c"
  shows "ch_inv (ch_start c)" "ch_contents (ch_start c) = ch_contents c" "ch_isClosed (ch_start c) = ch_isClosed c"
    "ch_inv (ch_stop c)" "ch_contents (ch_stop c) = ch_contents c" "ch_isClosed (ch_stop c) = ch_isClosed c"
    "ch_inv (snd (ch_removeAll c))" "ch_contents (snd (ch_removeAll c)) = []" "ch_isClosed (snd (ch_removeAll c)) = ch_isClosed c"
    "fst (ch_removeAll c) = ch_contents c"
  using ch.inv_step [OF assms, of Start] ch.inv_step [OF assms, of Stop] ch.inv_step [OF assms, of RemoveAll]
    ch.closed_step [OF assms, of Start] ch.closed_step [OF assms, of Stop] ch.closed_step [OF assms, of RemoveAll]
    ch.lifecycle [OF assms] ch.removeAll [OF assms]
  by (simp_all add: ch_ops_def case_prod_beta)

definition ch_good :: "channel \<Rightarrow> bool" where
  "ch_good c \<longleftrightarrow> ch_inv c \<and> \<not> ch_isClosed c \<and> (\<forall>d \<in> set (ch_contents c). has_id d)"

lemma ch_good_steps:
  assumes "ch_good c"
  shows "ch_good (ch_start c)" "ch_good (ch_stop c)" "ch_good (snd (ch_removeAll c))" "has_id d \<Longrightarrow> ch_good (ch_enqueue d c)"
    "\<not> ch_isClosed c"
  using assms ch_lifecycle [of c] ch_enqueue_facts [of c d] by (auto simp: ch_good_def)

lemma ch_good_dequeue:
  assumes "ch_good c" "ch_dequeueNoWait c = (r, c')"
  shows "ch_good c'" "r = Some d \<Longrightarrow> has_id d \<and> length (ch_contents c') < length (ch_contents c)"
proof -
  have i: "ch_inv c" "\<forall>d \<in> set (ch_contents c). has_id d" "\<not> ch_isClosed c" using assms(1) by (simp_all add: ch_good_def)
  show "ch_good c'" "r = Some d \<Longrightarrow> has_id d \<and> length (ch_contents c') < length (ch_contents c)"
    using ch_dequeue [OF i(1)] assms(2) i by (auto simp: ch_good_def split: option.splits)
qed

section \<open>Runs\<close>

text \<open>
  What happens to a consumer: a message is dispatched to it (\<open>n\<close> is the room on the stack of \<open>dispatch\<close>), the client
  calls it, and time passes. \<open>receiveNoWait\<close> gets one pass of its loop for each waiting message, and one more. A listener
  returns without calling the consumer.
\<close>

datatype consumer_call = Dispatched nat message_dispatch | ReceiveNoWait | Acknowledge | SetListener bool bool | StartConsumer | StopConsumer | Tick int

fun run_call :: "consumer_config \<Rightarrow> consumer_call \<Rightarrow> consumer \<Rightarrow> consumer option" where
  "run_call cfg (Dispatched n d) k = Some (snd (Consumer_dispatch n cfg (\<lambda>_. ret ()) d k))"
| "run_call cfg ReceiveNoWait k = map_option snd (receiveNoWait (Suc (length (ch_contents (unconsumedMessages k)))) cfg k)"
| "run_call cfg Acknowledge k = map_option snd (acknowledge cfg [] k)"
| "run_call cfg (SetListener wasStarted b) k = Some (snd (setMessageListener cfg wasStarted b k))"
| "run_call cfg StartConsumer k = Some (Consumer_start k)"
| "run_call cfg StopConsumer k = Some (Consumer_stop k)"
| "run_call cfg (Tick t) k = Some (k\<lparr>clock := clock k + t\<rparr>)"

fun run_calls :: "consumer_config \<Rightarrow> consumer_call list \<Rightarrow> consumer \<Rightarrow> consumer option" where
  "run_calls cfg [] k = Some k"
| "run_calls cfg (c # cs) k = Option.bind (run_call cfg c k) (run_calls cfg cs)"

section \<open>The contract\<close>

definition silent :: "effect \<Rightarrow> bool" where
  "silent e = (case e of Deliver _ \<Rightarrow> False | SendAck _ _ \<Rightarrow> False | _ \<Rightarrow> True)"

locale working_consumer =
  fixes cfg :: consumer_config and J :: "consumer \<Rightarrow> bool"
  assumes channel: "J k \<Longrightarrow> ch_good (unconsumedMessages k)" "J k \<Longrightarrow> ch_good c \<Longrightarrow> J (k\<lparr>unconsumedMessages := c\<rparr>)"
    and alive: "J k \<Longrightarrow> connectionFailed k = None"
    and frame: "J k \<Longrightarrow> J (k\<lparr>connectionAudit := a\<rparr>)" "J k \<Longrightarrow> J (k\<lparr>dispatchedCount := n\<rparr>)" "J k \<Longrightarrow> J (k\<lparr>started := b\<rparr>)"
      "J k \<Longrightarrow> J (k\<lparr>hasListener := b\<rparr>)" "J k \<Longrightarrow> J (k\<lparr>clock := t\<rparr>)" "J k \<Longrightarrow> silent e \<Longrightarrow> J (k\<lparr>log := log k @ [e]\<rparr>)"
    and cleared: "J k \<Longrightarrow> clearDeliveredList cfg k = (Ok (), k)" "J k \<Longrightarrow> clearMessagesInProgress cfg k = (Ok (), k)"
    and expected: "J k \<Longrightarrow> redeliveryExpectedInCurrentTransaction cfg d b k = (Ok False, k)"
    and received: "J k \<Longrightarrow> has_id d \<Longrightarrow> \<exists>k1 k2. beforeMessageIsConsumed cfg d k = (Ok (), k1) \<and>
      afterMessageIsConsumed cfg d False k1 = (Ok (), k2) \<and> J (k2\<lparr>log := log k2 @ [Deliver d]\<rparr>)"
    and listened: "J k \<Longrightarrow> has_id d \<Longrightarrow> \<exists>k1 k2. beforeMessageIsConsumed cfg d k = (Ok (), k1) \<and>
      afterMessageIsConsumed cfg d False (k1\<lparr>log := log k1 @ [Deliver d]\<rparr>) = (Ok (), k2) \<and> J k2"
    and expired: "J k \<Longrightarrow> has_id d \<Longrightarrow> \<exists>k'. sequel (beforeMessageIsConsumed cfg d) (afterMessageIsConsumed cfg d True) k = (Ok (), k') \<and>
      J k' \<and> unconsumedMessages k' = unconsumedMessages k"
    and poisoned: "J k \<Longrightarrow> has_id d \<Longrightarrow> \<exists>k'. posionAck cfg d k = (Ok (), k') \<and> J k' \<and> unconsumedMessages k' = unconsumedMessages k"
begin

lemma sequel_keeps: "J (snd (f k)) \<Longrightarrow> (\<And>k'. J k' \<Longrightarrow> J (snd (g k'))) \<Longrightarrow> J (snd (sequel f g k))"
  by (auto simp: sequel_def andthen_def split: prod.splits sum.splits)

lemma andthen_keeps: "J (snd (f k)) \<Longrightarrow> (\<And>x k'. J k' \<Longrightarrow> J (snd (g x k'))) \<Longrightarrow> J (snd (andthen f g k))"
  by (auto simp: andthen_def split: prod.splits sum.splits)

lemma skip_keeps: "f k = (Ok (), k) \<Longrightarrow> J (snd (g k)) \<Longrightarrow> J (snd (sequel f g k))"
  by (simp add: sequel_def andthen_def)

lemma with_keeps: "J (snd (f k k)) \<Longrightarrow> J (snd (with_state f k))"
  by (simp add: with_state_def)

lemma catching_keeps: "J (snd (f k)) \<Longrightarrow> J (snd (catching h f k))"
  by (auto simp: catching_def split: prod.splits sum.splits)

lemma pull_keeps:
  assumes "J k"
  shows "\<exists>k'. sendPullRequest cfg t k = (Ok (), k') \<and> J k' \<and> unconsumedMessages k' = unconsumedMessages k"
  using assms cleared(1) [OF assms] frame(6) [OF assms, of "Pull t"] alive [OF assms]
  by (simp add: sendPullRequest_def catching_def call_defs transmit_def emit_def silent_def)

text \<open>\<open>dequeue(0)\<close> returns: every pass of its loop takes a message from the channel.\<close>

lemma dequeue_returns:
  assumes "J k" "length (ch_contents (unconsumedMessages k)) < n"
  shows "\<exists>r k'. dequeue_loop n cfg dl 0 [] k = Some (r, k') \<and> J k' \<and> (\<forall>d. r = Ok (Some d) \<longrightarrow> has_id d)"
  using assms
proof (induction n arbitrary: k)
  case (Suc n)
  have w: "await 0 [] k = Some ([], k)" by (simp add: await.simps)
  have rem: "remaining dl 0 k' = 0" for k' by (simp add: remaining_def)
  obtain r c where d: "ch_dequeueNoWait (unconsumedMessages k) = (r, c)" by (cases "ch_dequeueNoWait (unconsumedMessages k)")
  let ?k = "k\<lparr>unconsumedMessages := c\<rparr>"
  note q = ch_good_dequeue [OF channel(1) [OF Suc.prems(1)] d]
  have j: "J ?k" by (rule channel(2) [OF Suc.prems(1) q(1)])
  show ?case
  proof (cases r)
    case None
    then show ?thesis using j d w by (auto simp: Let_def)
  next
    case (Some x)
    have x: "has_id x" "length (ch_contents c) < n" using q(2) [OF Some] Suc.prems(2) by simp_all
    obtain m where m: "md_message x = Some m" using x(1) by (auto simp: has_id_def)
    have go_on: ?thesis
      if e: "J k3" "unconsumedMessages k3 = c"
        and l: "dequeue_loop (Suc n) cfg dl 0 [] k = (case sendPullRequest cfg 0 k3 of (Inl e, k4) \<Rightarrow> Some (Throw e, k4) | (Inr _, k4) \<Rightarrow> dequeue_loop n cfg dl (remaining dl 0 k3) [] k4)"
      for k3
    proof -
      obtain k4 where k4: "sendPullRequest cfg 0 k3 = (Ok (), k4)" "J k4" "unconsumedMessages k4 = unconsumedMessages k3"
        using pull_keeps [OF e(1)] by blast
      then show ?thesis using Suc.IH [of k4] e(2) x(2) l rem by auto
    qed
    consider "consumeExpiredMessage cfg m ?k" | "\<not> consumeExpiredMessage cfg m ?k" "redeliveryExceeded cfg x m"
      | "\<not> consumeExpiredMessage cfg m ?k" "\<not> redeliveryExceeded cfg x m" by blast
    then show ?thesis
    proof cases
      case 1
      obtain k3 where "sequel (beforeMessageIsConsumed cfg x) (afterMessageIsConsumed cfg x True) ?k = (Ok (), k3)" "J k3"
        "unconsumedMessages k3 = unconsumedMessages ?k" using expired [OF j x(1)] by auto
      then show ?thesis using d w m 1 Some by (intro go_on [of k3]) (simp_all add: Let_def rem)
    next
      case 2
      obtain k3 where "posionAck cfg x ?k = (Ok (), k3)" "J k3" "unconsumedMessages k3 = unconsumedMessages ?k"
        using poisoned [OF j x(1)] by auto
      then show ?thesis using d w m 2 Some by (intro go_on [of k3]) (simp_all add: Let_def rem)
    next
      case 3
      then show ?thesis using d w m Some j x(1) by (auto simp: Let_def)
    qed
  qed
qed simp

lemma receive_keeps:
  assumes "J k" "length (ch_contents (unconsumedMessages k)) < n"
  shows "\<exists>r k'. receiveNoWait n cfg k = Some (r, k') \<and> J k'"
proof -
  have o: "\<not> ch_isClosed (unconsumedMessages k)" by (rule ch_good_steps(5) [OF channel(1) [OF assms(1)]])
  obtain k1 where k1: "sendPullRequest cfg (- 1) k = (Ok (), k1)" "J k1" "unconsumedMessages k1 = unconsumedMessages k"
    using pull_keeps [OF assms(1)] by blast
  obtain r k2 where k2: "dequeue_loop n cfg 0 0 [] k1 = Some (r, k2)" "J k2" "\<And>d. r = Ok (Some d) \<Longrightarrow> has_id d"
    using dequeue_returns [OF k1(2)] assms(2) k1(3) by metis
  consider "hasListener k \<or> sessionHasListener k" | d where "\<not> (hasListener k \<or> sessionHasListener k)" "r = Ok (Some d)"
    | "\<not> (hasListener k \<or> sessionHasListener k)" "\<forall>d. r \<noteq> Ok (Some d)" by blast
  then show ?thesis
  proof cases
    case 1
    then show ?thesis using assms(1) o by (auto simp: receiveNoWait_def receive_with_def)
  next
    case (2 d)
    obtain k3 k4 where "beforeMessageIsConsumed cfg d k2 = (Ok (), k3)" "afterMessageIsConsumed cfg d False k3 = (Ok (), k4)"
      "J (k4\<lparr>log := log k4 @ [Deliver d]\<rparr>)" using received [OF k2(2) k2(3) [OF 2(2)]] by blast
    then show ?thesis using 2 o k1(1) k2(1) by (simp add: receiveNoWait_def receive_with_def Consumer_dequeue_def catching_def call_defs emit_def)
  next
    case 3
    then have "\<exists>r'. receiveNoWait n cfg k = Some (r', k2)"
      using o k1(1) k2(1) by (auto simp: receiveNoWait_def receive_with_def Consumer_dequeue_def split: sum.splits option.splits)
    then show ?thesis using k2(2) by blast
  qed
qed

lemma duplicate_keeps:
  assumes "J k"
  shows "J (snd (check_duplicate cfg d k))" "J (snd (rollback_duplicate cfg d k))"
  using assms frame(1) [OF assms] by (auto simp: check_duplicate_def rollback_duplicate_def split: prod.split)

lemma listener_keeps:
  assumes "J k" "has_id d" "md_message d = Some m"
  shows "J (snd (to_listener cfg (\<lambda>_. ret ()) d m k))"
proof -
  obtain k1 k2 where c: "beforeMessageIsConsumed cfg d k = (Ok (), k1)" "afterMessageIsConsumed cfg d False (k1\<lparr>log := log k1 @ [Deliver d]\<rparr>) = (Ok (), k2)"
    "J k2" using listened [OF assms(1,2)] by blast
  obtain k3 where x: "afterMessageIsConsumed cfg d True k1 = (Ok (), k3)" "J k3"
    using expired [OF assms(1,2)] c(1) by (auto simp: sequel_def andthen_def)
  show ?thesis
    using c x by (cases "consumerExpiryCheckEnabled cfg"; cases "isExpired k1 m"; simp add: to_listener_def call_defs emit_def Let_def)
qed

lemma delivery_keeps:
  assumes "J k" "has_id d" "md_message d = Some m"
  shows "J (snd (new_delivery cfg (\<lambda>_. ret ()) d m k))"
proof (cases "hasListener k \<and> ch_isRunning (unconsumedMessages k)")
  case True
  then show ?thesis using poisoned [OF assms(1,2)] listener_keeps [OF assms] by (auto simp: new_delivery_def with_state_def)
next
  case False
  have go: "J (snd (sequel (change (\<lambda>k. k\<lparr>unconsumedMessages := ch_enqueue d (unconsumedMessages k)\<rparr>)) (only_if b (emit MessageAvailable)) k'))"
    if "J k'" for b k'
  proof -
    have q: "J (k'\<lparr>unconsumedMessages := ch_enqueue d (unconsumedMessages k')\<rparr>)" by (rule channel(2) [OF that ch_good_steps(4) [OF channel(1) [OF that] assms(2)]])
    then show ?thesis using frame(6) [OF q, of MessageAvailable] by (simp add: call_defs emit_def silent_def)
  qed
  have "J (snd (only_if b (rollback_duplicate cfg d) k))" for b using duplicate_keeps(2) [OF assms(1)] assms(1) by (simp add: only_if_def ret_def)
  then show ?thesis using False by (auto simp: new_delivery_def with_state_def intro!: sequel_keeps [OF _ go])
qed

lemma count_keeps: "J k \<Longrightarrow> J (snd (count_dispatch k))"
  by (simp add: count_dispatch_def change_def frame(2))

lemma competing: "J k \<Longrightarrow> has_id d \<Longrightarrow> \<exists>b. redeliveryPendingInCompetingTransaction cfg d k = (Ok b, k)"
  using expected by (auto simp: redeliveryPendingInCompetingTransaction_def id_of_def has_id_def call_defs split: competitor.split)

lemma dispatch_keeps: "J k \<Longrightarrow> has_id d \<Longrightarrow> J (snd (Consumer_dispatch n cfg (\<lambda>_. ret ()) d k))"
proof (induction n arbitrary: k)
  case (Suc n)
  obtain m where m: "md_message d = Some m" using Suc.prems(2) by (auto simp: has_id_def)
  have open_: "\<not> ch_isClosed (unconsumedMessages k)" by (rule ch_good_steps(5) [OF channel(1) [OF Suc.prems(1)]])
  have dup: "J (snd (ret False k))" "J (snd (check_duplicate cfg d k))"
    using duplicate_keeps(1) [OF Suc.prems(1)] Suc.prems(1) by (simp_all add: ret_def)
  have fresh: "J (snd (with_state (\<lambda>k. sequel (new_delivery cfg (\<lambda>_. ret ()) d m) (only_if (b k) count_dispatch)) k'))" if "J k'" for b k'
    unfolding with_state_def
    by (rule sequel_keeps) (use delivery_keeps [OF that Suc.prems(2) m] count_keeps in \<open>auto simp: only_if_def ret_def\<close>)
  let ?again = "\<lambda>f. andthen (redeliveryExpectedInCurrentTransaction cfg d True) (\<lambda>expected.
      if expected then f else andthen (redeliveryPendingInCompetingTransaction cfg d) (\<lambda>competing.
        if competing then sequel (rollback_duplicate cfg d) (Consumer_dispatch n cfg (\<lambda>_. ret ()) d) else posionAck cfg d))"
  have again: "J (snd (sequel (?again f) count_dispatch k'))" if k': "J k'" for f k'
  proof (rule sequel_keeps [OF _ count_keeps])
    obtain b where "redeliveryPendingInCompetingTransaction cfg d k' = (Ok b, k')" using competing [OF k' Suc.prems(2)] ..
    moreover have "J (snd (sequel (rollback_duplicate cfg d) (Consumer_dispatch n cfg (\<lambda>_. ret ()) d) k'))"
      by (rule sequel_keeps) (use Suc.IH Suc.prems(2) duplicate_keeps(2) [OF k'] in blast)+
    moreover have "J (snd (posionAck cfg d k'))" using poisoned [OF k' Suc.prems(2)] by auto
    ultimately show "J (snd (?again f k'))" using expected [OF k'] by (simp add: andthen_def)
  qed
  show ?case
    unfolding Consumer_dispatch.simps m option.case
    by (rule catching_keeps, rule skip_keeps [where f = "clearMessagesInProgress cfg"], rule cleared(2) [OF Suc.prems(1)],
        rule skip_keeps [where f = "clearDeliveredList cfg"], rule cleared(1) [OF Suc.prems(1)], rule with_keeps)
      (auto simp: open_ simp del: Consumer_dispatch.simps intro!: andthen_keeps dup fresh again)
qed (simp add: throws_def)

lemma start_stop_keeps:
  assumes "J k"
  shows "J (Consumer_start k)" "J (Consumer_stop k)" "J (snd (redispatch k))"
proof -
  note c = channel(1) [OF assms]
  show "J (Consumer_start k)" "J (Consumer_stop k)"
    using assms frame(3) [OF assms] channel(2) [OF frame(3) [OF assms] ch_good_steps(1) [OF c]] channel(2) [OF frame(3) [OF assms] ch_good_steps(2) [OF c]]
    by (simp_all add: Consumer_start_def Consumer_stop_def)
  show "J (snd (redispatch k))"
    using frame(6) [OF channel(2) [OF assms ch_good_steps(3) [OF c]], of "Redispatch (fst (ch_removeAll (unconsumedMessages k)))"]
    by (simp add: redispatch_def call_defs emit_def case_prod_beta silent_def)
qed

lemma set_listener_keeps: "J k \<Longrightarrow> J (snd (setMessageListener cfg w b k))"
  unfolding setMessageListener_def
  by (rule catching_keeps, rule with_keeps)
    (auto simp: throws_def change_def only_if_def ret_def start_stop_keeps frame intro!: sequel_keeps)

lemma call_keeps:
  assumes "J k" "\<And>n d. c = Dispatched n d \<Longrightarrow> has_id d" "c \<noteq> Acknowledge"
  shows "\<exists>k'. run_call cfg c k = Some k' \<and> J k'"
proof (cases c)
  case (Dispatched n d)
  then show ?thesis using dispatch_keeps [OF assms(1) assms(2)] by simp
next
  case ReceiveNoWait
  then show ?thesis using receive_keeps [OF assms(1) lessI] by auto
qed (use set_listener_keeps [OF assms(1)] start_stop_keeps [OF assms(1)] frame(5) [OF assms(1)] assms(3) in simp_all)

lemma run_keeps:
  assumes "J k" "\<And>n d. Dispatched n d \<in> set cs \<Longrightarrow> has_id d"
    and ack: "Acknowledge \<in> set cs \<Longrightarrow> (\<And>k. J k \<Longrightarrow> \<exists>k'. run_call cfg Acknowledge k = Some k' \<and> J k')"
  shows "\<exists>k'. run_calls cfg cs k = Some k' \<and> J k'"
  using assms
proof (induction cs arbitrary: k)
  case (Cons c cs)
  have "\<exists>k1. run_call cfg c k = Some k1 \<and> J k1"
    using call_keeps [OF Cons.prems(1), of c] Cons.prems by (cases "c = Acknowledge") auto
  then obtain k1 where "run_call cfg c k = Some k1" "J k1" by blast
  then show ?case using Cons.IH [of k1] Cons.prems(2,3) by auto
qed simp

end

end
