(* ===== verification/Session_Executor.thy ===== *)
theory Session_Executor
  imports Consumer_Contract
begin

text \<open>
  \<open>activemq/core/ActiveMQSessionExecutor.cpp\<close> and \<open>activemq/threads/DedicatedTaskRunner.cpp\<close>: the queue of a session and the
  thread that takes the messages from it and dispatches them to the consumers. The threads are steps of one relation: what a
  thread does under a lock, or between two accesses to what is shared, is one step.
\<close>

section \<open>State\<close>

datatype runner_state = RUNNING | STOPPING | STOPPED

text \<open>Where the thread is in \<open>run\<close>: before the test of the state, before \<open>iterate\<close>, after it has returned false, waiting, at the end\<close>

datatype place = Top | Cleared | Idle | Waiting | Ended

record task_runner =
  runnerState :: runner_state
  pending :: bool
  place :: place

text \<open>What the executor calls of its session; \<open>dispatch_to\<close> with its exceptions swallowed\<close>

record 's session_ops =
  dispatch_to :: "message_dispatch \<Rightarrow> 's \<Rightarrow> 's"
  iterateConsumers :: "'s \<Rightarrow> bool result \<times> 's"

record 's session_executor =
  messageQueue :: channel
  taskRunner :: "task_runner option"
  sessionAsyncDispatch :: bool
  session :: 's
  dispatched :: "message_dispatch list"

definition ActiveMQSessionExecutor_new :: "bool \<Rightarrow> bool \<Rightarrow> 's \<Rightarrow> 's session_executor" where
  "ActiveMQSessionExecutor_new messagePrioritySupported async s =
     \<lparr>messageQueue = (if messagePrioritySupported then Prio prio_new else Fifo fifo_new), taskRunner = None,
      sessionAsyncDispatch = async, session = s, dispatched = []\<rparr>"

section \<open>The task runner\<close>

text \<open>The constructor and \<open>start\<close>, which ends with a \<open>wakeup\<close>\<close>

definition DedicatedTaskRunner_started :: task_runner where
  "DedicatedTaskRunner_started = \<lparr>runnerState = RUNNING, pending = True, place = Top\<rparr>"

definition DedicatedTaskRunner_wakeup :: "task_runner \<Rightarrow> task_runner" where
  "DedicatedTaskRunner_wakeup t = (if runnerState t \<noteq> RUNNING then t else t\<lparr>pending := True\<rparr>)"

text \<open>
  One step of \<open>run\<close>; \<open>again\<close> is what \<open>iterate\<close> returns, should it be called in this step. \<open>synchronized\<close> is a \<open>for\<close> loop, so
  the \<open>break\<close> inside it leaves only that.
\<close>

definition DedicatedTaskRunner_step :: "bool \<Rightarrow> task_runner \<Rightarrow> task_runner" where
  "DedicatedTaskRunner_step again t =
     (case place t of
        Top \<Rightarrow> if runnerState t \<noteq> RUNNING then t\<lparr>runnerState := STOPPED, place := Ended\<rparr> else t\<lparr>pending := False, place := Cleared\<rparr>
      | Cleared \<Rightarrow> t\<lparr>place := if again then Top else Idle\<rparr>
      | Idle \<Rightarrow> t\<lparr>place := if runnerState t \<noteq> RUNNING then Top else Waiting\<rparr>
      | Waiting \<Rightarrow> if \<not> pending t \<and> runnerState t = RUNNING then t else t\<lparr>place := Top\<rparr>
      | Ended \<Rightarrow> t)"

section \<open>The executor\<close>

definition executor_dispatch :: "'s session_ops \<Rightarrow> message_dispatch \<Rightarrow> 's session_executor \<Rightarrow> 's session_executor" where
  "executor_dispatch ops d x = x\<lparr>session := dispatch_to ops d (session x), dispatched := dispatched x @ [d]\<rparr>"

definition executor_wakeup :: "'s session_executor \<Rightarrow> 's session_executor" where
  "executor_wakeup x =
     (if \<not> sessionAsyncDispatch x then x
      else case taskRunner x of
        None \<Rightarrow> if \<not> ch_isRunning (messageQueue x) then x
                else x\<lparr>taskRunner := Some (DedicatedTaskRunner_wakeup DedicatedTaskRunner_started)\<rparr>
      | Some t \<Rightarrow> x\<lparr>taskRunner := Some (DedicatedTaskRunner_wakeup t)\<rparr>)"

definition executor_execute :: "'s session_ops \<Rightarrow> message_dispatch \<Rightarrow> 's session_executor \<Rightarrow> 's session_executor" where
  "executor_execute ops d x =
     (if sessionAsyncDispatch x then executor_wakeup (x\<lparr>messageQueue := ch_enqueue d (messageQueue x)\<rparr>) else executor_dispatch ops d x)"

definition executor_executeFirst :: "message_dispatch \<Rightarrow> 's session_executor \<Rightarrow> 's session_executor" where
  "executor_executeFirst d x = executor_wakeup (x\<lparr>messageQueue := ch_enqueueFirst d (messageQueue x)\<rparr>)"

definition hasUncomsumedMessages :: "'s session_executor \<Rightarrow> bool" where
  "hasUncomsumedMessages x \<longleftrightarrow> \<not> ch_isClosed (messageQueue x) \<and> ch_isRunning (messageQueue x) \<and> \<not> ch_isEmpty (messageQueue x)"

definition executor_start :: "'s session_executor \<Rightarrow> 's session_executor" where
  "executor_start x =
     (if ch_isRunning (messageQueue x) then x
      else let x' = x\<lparr>messageQueue := ch_start (messageQueue x)\<rparr> in if hasUncomsumedMessages x' then executor_wakeup x' else x')"

definition executor_iterate :: "'s session_ops \<Rightarrow> 's session_executor \<Rightarrow> bool \<times> 's session_executor" where
  "executor_iterate ops x =
     (case iterateConsumers ops (session x) of
        (Inl e, s) \<Rightarrow> (True, x\<lparr>session := s\<rparr>)
      | (Inr worked, s) \<Rightarrow>
          if worked then (True, x\<lparr>session := s\<rparr>)
          else (case ch_dequeueNoWait (messageQueue x) of
                  (None, q) \<Rightarrow> (False, x\<lparr>session := s, messageQueue := q\<rparr>)
                | (Some d, q) \<Rightarrow> (\<not> ch_isEmpty q, executor_dispatch ops d (x\<lparr>session := s, messageQueue := q\<rparr>))))"

text \<open>One step of the thread of the task runner\<close>

definition executor_step :: "'s session_ops \<Rightarrow> 's session_executor \<Rightarrow> 's session_executor" where
  "executor_step ops x =
     (case taskRunner x of
        None \<Rightarrow> x
      | Some t \<Rightarrow>
          (case (if place t = Cleared then executor_iterate ops x else (False, x)) of
             (again, x') \<Rightarrow> x'\<lparr>taskRunner := Some (DedicatedTaskRunner_step again t)\<rparr>))"

text \<open>\<open>stop\<close>, called by another thread, waits for the end of the runner: a pass that it has begun is finished.\<close>

definition executor_stop :: "'s session_ops \<Rightarrow> 's session_executor \<Rightarrow> 's session_executor" where
  "executor_stop ops x =
     (if \<not> ch_isRunning (messageQueue x) then x
      else let x' = x\<lparr>messageQueue := ch_stop (messageQueue x)\<rparr>
           in case taskRunner x of
                None \<Rightarrow> x'
              | Some t \<Rightarrow> (if place t = Cleared then snd (executor_iterate ops x') else x')\<lparr>taskRunner := None\<rparr>)"

section \<open>Runs\<close>

text \<open>
  Threads of the connection call \<open>execute\<close>, which enqueues and then wakes the runner up: \<open>owed\<close> counts the calls that are
  between the two. Others start and stop the session, and the runner works.
\<close>

inductive executor_run :: "'s session_ops \<Rightarrow> 's session_executor \<Rightarrow> message_dispatch list \<Rightarrow> nat \<Rightarrow> 's session_executor \<Rightarrow> bool"
  for ops :: "'s session_ops" and x0 :: "'s session_executor" where
  initial: "executor_run ops x0 [] 0 x0"
| enqueued: "executor_run ops x0 ds owed x \<Longrightarrow> executor_run ops x0 (ds @ [d]) (Suc owed) (x\<lparr>messageQueue := ch_enqueue d (messageQueue x)\<rparr>)"
| woken: "executor_run ops x0 ds (Suc owed) x \<Longrightarrow> executor_run ops x0 ds owed (executor_wakeup x)"
| started: "executor_run ops x0 ds owed x \<Longrightarrow> executor_run ops x0 ds owed (executor_start x)"
| stopped: "executor_run ops x0 ds owed x \<Longrightarrow> executor_run ops x0 ds owed (executor_stop ops x)"
| worked: "executor_run ops x0 ds owed x \<Longrightarrow> executor_run ops x0 ds owed (executor_step ops x)"

text \<open>The runner is about to look at the queue.\<close>

definition will_look :: "'s session_executor \<Rightarrow> bool" where
  "will_look x \<longleftrightarrow> (\<exists>t. taskRunner x = Some t \<and> runnerState t = RUNNING \<and> (pending t \<or> place t \<in> {Top, Cleared}))"

definition executor_inv :: "message_dispatch list \<Rightarrow> nat \<Rightarrow> 's session_executor \<Rightarrow> bool" where
  "executor_inv ds owed x \<longleftrightarrow> sessionAsyncDispatch x \<and>
     (\<exists>c. messageQueue x = Fifo c \<and> \<not> fifo_closed c \<and> dispatched x @ fifo_list c = ds \<and>
       (owed = 0 \<longrightarrow> fifo_running c \<longrightarrow> fifo_list c \<noteq> [] \<longrightarrow> will_look x)) \<and>
     (\<forall>t. taskRunner x = Some t \<longrightarrow> runnerState t = RUNNING \<and> place t \<noteq> Ended)"

lemmas fifo_queue = ch_defs fifo_enqueue_def fifo_dequeueNoWait_def fifo_isEmpty_def fifo_start_def fifo_stop_def

lemma iterate_inv:
  assumes "executor_inv ds owed x" "executor_iterate ops x = (again, x')"
  shows "\<exists>c'. messageQueue x' = Fifo c' \<and> \<not> fifo_closed c' \<and> dispatched x' @ fifo_list c' = ds \<and> (\<not> again \<longrightarrow> fifo_running c' \<longrightarrow> fifo_list c' = [])"
    "sessionAsyncDispatch x'" "taskRunner x' = taskRunner x"
proof -
  obtain c where c: "messageQueue x = Fifo c" "\<not> fifo_closed c" "dispatched x @ fifo_list c = ds" "sessionAsyncDispatch x"
    using assms(1) by (auto simp: executor_inv_def)
  show "\<exists>c'. messageQueue x' = Fifo c' \<and> \<not> fifo_closed c' \<and> dispatched x' @ fifo_list c' = ds \<and> (\<not> again \<longrightarrow> fifo_running c' \<longrightarrow> fifo_list c' = [])"
    "sessionAsyncDispatch x'" "taskRunner x' = taskRunner x"
    using assms(2) c
    by (auto simp: executor_iterate_def executor_dispatch_def fifo_queue split: prod.splits sum.splits if_splits option.splits list.splits)
qed

lemma run_inv:
  assumes "executor_run ops (ActiveMQSessionExecutor_new False True s) ds owed x"
  shows "executor_inv ds owed x"
  using assms
proof induction
  case initial
  then show ?case by (simp add: executor_inv_def ActiveMQSessionExecutor_new_def fifo_new_def)
next
  case (enqueued ds owed x d)
  then show ?case by (auto simp: executor_inv_def fifo_queue)
next
  case (woken ds owed x)
  then show ?case
    by (cases "taskRunner x")
      (auto simp: executor_inv_def executor_wakeup_def DedicatedTaskRunner_wakeup_def DedicatedTaskRunner_started_def will_look_def fifo_queue)
next
  case (started ds owed x)
  then show ?case
    by (cases "taskRunner x")
      (auto simp: executor_inv_def executor_start_def executor_wakeup_def hasUncomsumedMessages_def DedicatedTaskRunner_wakeup_def
        DedicatedTaskRunner_started_def will_look_def fifo_queue Let_def)
next
  case (stopped ds owed x)
  then obtain c where c: "messageQueue x = Fifo c" "\<not> fifo_closed c" "dispatched x @ fifo_list c = ds" "sessionAsyncDispatch x"
    by (auto simp: executor_inv_def)
  let ?x = "x\<lparr>messageQueue := ch_stop (messageQueue x)\<rparr>"
  have a: "executor_inv ds owed ?x" using stopped.IH c by (auto simp: executor_inv_def fifo_queue)
  obtain again x' where i: "executor_iterate ops ?x = (again, x')" by (cases "executor_iterate ops ?x")
  obtain c' where "messageQueue x' = Fifo c'" "\<not> fifo_closed c'" "dispatched x' @ fifo_list c' = ds" "sessionAsyncDispatch x'"
    using iterate_inv [OF a i] by blast
  moreover have "\<not> ch_isRunning (messageQueue x')"
    using i c by (auto simp: executor_iterate_def executor_dispatch_def fifo_queue split: prod.splits sum.splits if_splits option.splits list.splits)
  ultimately have "executor_inv ds owed (x'\<lparr>taskRunner := None\<rparr>)" by (auto simp: executor_inv_def fifo_queue)
  moreover have "executor_inv ds owed (?x\<lparr>taskRunner := r\<rparr>)" if "r = None" for r using c that by (auto simp: executor_inv_def fifo_queue)
  ultimately show ?case using stopped.IH a c i by (auto simp: executor_stop_def Let_def split: option.splits)
next
  case (worked ds owed x)
  show ?case
  proof (cases "taskRunner x")
    case None
    then show ?thesis using worked.IH by (simp add: executor_step_def)
  next
    case (Some t)
    then have t: "runnerState t = RUNNING" "place t \<noteq> Ended" using worked.IH by (auto simp: executor_inv_def)
    obtain again x' where i: "executor_iterate ops x = (again, x')" by (cases "executor_iterate ops x")
    note q = iterate_inv [OF worked.IH i]
    show ?thesis
    proof (cases "place t = Cleared")
      case True
      then have "executor_step ops x = x'\<lparr>taskRunner := Some (t\<lparr>place := if again then Top else Idle\<rparr>)\<rparr>"
        using Some i by (simp add: executor_step_def DedicatedTaskRunner_step_def)
      then show ?thesis using q t by (auto simp: executor_inv_def will_look_def)
    next
      case False
      then have "executor_step ops x = x\<lparr>taskRunner := Some (DedicatedTaskRunner_step False t)\<rparr>" using Some by (simp add: executor_step_def)
      then show ?thesis using worked.IH t Some False
        by (cases "place t") (auto simp: executor_inv_def will_look_def DedicatedTaskRunner_step_def)
    qed
  qed
qed

text \<open>Left alone, a runner that will look gets to \<open>iterate\<close>, and takes the first message there.\<close>

lemma looks:
  assumes "executor_inv ds owed x" "will_look x"
  shows "\<exists>n u. (executor_step ops ^^ n) x = x\<lparr>taskRunner := Some u\<rparr> \<and> place u = Cleared \<and> runnerState u = RUNNING"
proof -
  obtain t where t: "taskRunner x = Some t" "runnerState t = RUNNING" "pending t \<or> place t \<in> {Top, Cleared}" "place t \<noteq> Ended"
    using assms by (auto simp: will_look_def executor_inv_def)
  have steps: "executor_step ops (x\<lparr>taskRunner := Some u\<rparr>) = x\<lparr>taskRunner := Some (DedicatedTaskRunner_step False u)\<rparr>" if "place u \<noteq> Cleared" for u
    using that by (simp add: executor_step_def)
  have x: "x\<lparr>taskRunner := Some t\<rparr> = x" using t(1) by simp
  let ?last = "t\<lparr>pending := False, place := Cleared\<rparr>"
  show ?thesis
  proof (cases "place t")
    case Top
    then have "(executor_step ops ^^ 1) x = x\<lparr>taskRunner := Some ?last\<rparr>" using steps [of t] x t(2) by (simp add: DedicatedTaskRunner_step_def)
    then show ?thesis using t(2) by (intro exI [of _ 1] exI [of _ ?last]) simp
  next
    case Cleared
    then show ?thesis using t x by (intro exI [of _ 0] exI [of _ t]) simp
  next
    case Idle
    then have "(executor_step ops ^^ 3) x = x\<lparr>taskRunner := Some ?last\<rparr>"
      using steps [of t] steps [of "t\<lparr>place := Waiting\<rparr>"] steps [of "t\<lparr>place := Top\<rparr>"] x t by (simp add: DedicatedTaskRunner_step_def numeral_3_eq_3)
    then show ?thesis using t(2) by (intro exI [of _ 3] exI [of _ ?last]) simp
  next
    case Waiting
    then have "(executor_step ops ^^ 2) x = x\<lparr>taskRunner := Some ?last\<rparr>"
      using steps [of t] steps [of "t\<lparr>place := Top\<rparr>"] x t by (simp add: DedicatedTaskRunner_step_def numeral_2_eq_2)
    then show ?thesis using t(2) by (intro exI [of _ 2] exI [of _ ?last]) simp
  qed (use t in simp)
qed

lemma drains:
  assumes "executor_inv ds owed x" "messageQueue x = Fifo c" "fifo_running c" "fifo_list c \<noteq> [] \<longrightarrow> will_look x"
    and idle: "\<And>s. \<exists>s'. iterateConsumers ops s = (Ok False, s')"
  shows "\<exists>n. dispatched ((executor_step ops ^^ n) x) = ds"
  using assms(1-4)
proof (induction "length (fifo_list c)" arbitrary: x c)
  case 0
  then show ?case by (intro exI [of _ 0]) (auto simp: executor_inv_def)
next
  case (Suc l)
  obtain d rest where l: "fifo_list c = d # rest" using Suc.hyps(2) by (cases "fifo_list c") auto
  then obtain n u where n: "(executor_step ops ^^ n) x = x\<lparr>taskRunner := Some u\<rparr>" "place u = Cleared" "runnerState u = RUNNING"
    using looks [OF Suc.prems(1), of ops] Suc.prems(4) by auto
  obtain s' where s': "iterateConsumers ops (session x) = (Ok False, s')" using idle by blast
  let ?c = "c\<lparr>fifo_list := rest\<rparr>"
  let ?x = "x\<lparr>messageQueue := Fifo ?c, session := dispatch_to ops d s', dispatched := dispatched x @ [d],
    taskRunner := Some (u\<lparr>place := if rest = [] then Idle else Top\<rparr>)\<rparr>"
  have "\<not> fifo_closed c" using Suc.prems(1,2) by (auto simp: executor_inv_def)
  then have "executor_step ops (x\<lparr>taskRunner := Some u\<rparr>) = ?x"
    using n(2) s' l Suc.prems(2,3) by (simp add: executor_step_def executor_iterate_def executor_dispatch_def DedicatedTaskRunner_step_def fifo_queue)
  then have e: "(executor_step ops ^^ Suc n) x = ?x" using n(1) by simp
  have "executor_inv ds owed ?x" using Suc.prems(1,2) n(3) l by (auto simp: executor_inv_def will_look_def)
  then obtain m where "dispatched ((executor_step ops ^^ m) ?x) = ds"
    using Suc.hyps(1) [of ?c ?x] Suc.hyps(2) Suc.prems(3) l n(3) by (auto simp: will_look_def)
  then have "dispatched ((executor_step ops ^^ (m + Suc n)) x) = ds" unfolding funpow_add comp_apply e .
  then show ?case by blast
qed


definition demo_ops :: "message_dispatch list session_ops" where
  "demo_ops = \<lparr>dispatch_to = (\<lambda>d s. d # s), iterateConsumers = (\<lambda>s. (Ok False, s))\<rparr>"

definition demo_queued :: "nat \<Rightarrow> message_dispatch" where
  "demo_queued q = \<lparr>md_destination = None, md_message = None, redeliveryCounter = 0, md_ref = q\<rparr>"


text \<open>Without asynchronous dispatch nobody takes what \<open>executeFirst\<close> puts into the queue: it stays there.\<close>

lemma synchronous_executor_stuck:
  assumes "\<not> sessionAsyncDispatch x" "taskRunner x = None" "ch_inv (messageQueue x)"
  shows "mset (ch_contents (messageQueue (executor_executeFirst d x))) = add_mset d (mset (ch_contents (messageQueue x)))"
    "messageQueue (executor_execute ops d x) = messageQueue x" "ch_contents (messageQueue (executor_start x)) = ch_contents (messageQueue x)"
    "ch_contents (messageQueue (executor_stop ops x)) = ch_contents (messageQueue x)" "executor_step ops x = x" "executor_wakeup x = x"
  using assms ch_lifecycle [OF assms(3)] ch.enqueueFirst [OF assms(3), of d]
  by (simp_all add: executor_executeFirst_def executor_wakeup_def executor_execute_def executor_dispatch_def executor_start_def executor_stop_def
      executor_step_def Let_def ch_ops_def)

end
