(* ===== verification/Consumer_Runs.thy ===== *)
theory Consumer_Runs
  imports Consumer_Contract
begin

text \<open>
  Runs of a consumer outside of transactions: messages are dispatched to it, the client receives, acknowledges,
  sets a listener, starts and stops. Every message handed to the client is acknowledged exactly once, in order.
\<close>

section \<open>One call\<close>

text \<open>What every call keeps: all messages handed over are acknowledged or still noted.\<close>

definition settled :: "consumer_config \<Rightarrow> consumer \<Rightarrow> bool" where
  "settled cfg k \<longleftrightarrow> sound cfg k \<and> acked cfg k (handed_over (log k)) \<and>
     (isAutoAcknowledgeEach cfg \<and> \<not> optimizeAcknowledge cfg \<longrightarrow> deliveredMessages k = [])"

lemma settled_same:
  assumes "settled cfg k" "sound cfg k'" "deliveredMessages k' = deliveredMessages k" "pendingAck k' = pendingAck k"
    "deliveredCounter k' = deliveredCounter k" "consumed_acks (log k') = consumed_acks (log k)" "handed_over (log k') = handed_over (log k)"
  shows "settled cfg k'"
  using assms(1,2,3,7) acked_frame [OF _ assms(3-6)] by (simp add: settled_def)

lemma settled_acknowledge:
  assumes "settled cfg k"
  shows "\<exists>k'. acknowledge cfg env k = Some (Ok (), k') \<and> settled cfg k' \<and> (\<not> isAutoAcknowledgeBatch cfg \<longrightarrow> deliveredMessages k' = [])"
proof -
  have s: "sound cfg k" "acked cfg k (handed_over (log k))" "connectionFailed k = None" "previouslyDeliveredMessages k = None"
    using assms by (simp_all add: settled_def sound_def)
  have w: "acknowledge cfg env k = Some (catching to_cms (acknowledge_all cfg) k)"
    using clear_nothing(1) [OF s(1)] s(4) by (simp add: acknowledge_def waitForRedeliveries_def)
  show ?thesis
  proof (cases "deliveredMessages k = []")
    case True
    then have "acknowledge_all cfg k = (Ok (), k)" by (simp add: acknowledge_all_def makeAckForAllDeliveredMessages_def call_defs)
    then show ?thesis using w assms True by (simp add: catching_def)
  next
    case False
    then have b: "\<not> isAutoAcknowledgeBatch cfg" "list_all has_id (deliveredMessages k)" using s(2) by (auto simp: acked_def unacked_def split: if_splits)
    then obtain a where a: "makeAckForAllDeliveredMessages ACK_TYPE_CONSUMED k = Ok (Some a)" using False make_ack by simp
    have t: "isTransacted cfg k' = False" if "transaction k' = transaction k" for k'
      using that sound_transacted [OF s(1)] by (simp add: isTransacted_def)
    define k' where "k' = snd (acknowledge_all cfg k)"
    have e: "acknowledge_all cfg k = (Ok (), k')" "deliveredMessages k' = []" "pendingAck k' = None"
      "log k' = log k @ [SendAck (\<not> isSendAcksAsync cfg) a]" "sound cfg k'"
      using a s(1,3) by (simp_all add: k'_def acknowledge_all_def sendAck_def transmit_def emit_def t call_defs sound_def)
    have "acked cfg k' (handed_over (log k))" using acked_flush [OF s(2) b(1) False a e(2,4)] e(3) by simp
    then show ?thesis using w e by (simp add: catching_def settled_def)
  qed
qed

text \<open>The contract of \<open>Consumer_Contract\<close>, for the consumer outside of transactions\<close>

lemma settledD: "settled cfg k \<Longrightarrow> sound cfg k" "settled cfg k \<Longrightarrow> acked cfg k (handed_over (log k))"
  by (simp_all add: settled_def)

lemma settled_received:
  assumes "settled cfg k" "has_id d"
  shows "\<exists>k1 k2. beforeMessageIsConsumed cfg d k = (Ok (), k1) \<and> afterMessageIsConsumed cfg d False k1 = (Ok (), k2) \<and>
    settled cfg (k2\<lparr>log := log k2 @ [Deliver d]\<rparr>)"
proof -
  obtain k1 k2 where c: "beforeMessageIsConsumed cfg d k = (Ok (), k1)" "afterMessageIsConsumed cfg d False k1 = (Ok (), k2)"
    "sound cfg k2" "acked cfg k2 (handed_over (log k) @ [did d])" "handed_over (log k2) = handed_over (log k)"
    "isAutoAcknowledgeEach cfg \<and> \<not> optimizeAcknowledge cfg \<longrightarrow> deliveredMessages k2 = []"
    using consume [OF settledD(1) [OF assms(1)] assms(2) settledD(2) [OF assms(1)], of "[]"] by auto
  let ?k = "k2\<lparr>log := log k2 @ [Deliver d]\<rparr>"
  have "acked cfg ?k (handed_over (log ?k))" using acked_frame [OF c(4), of ?k] c(5) by simp
  then have "settled cfg ?k" using c(3,6) by (simp add: settled_def sound_def)
  then show ?thesis using c(1,2) by blast
qed

lemma settled_listened:
  assumes "settled cfg k" "has_id d"
  shows "\<exists>k1 k2. beforeMessageIsConsumed cfg d k = (Ok (), k1) \<and> afterMessageIsConsumed cfg d False (k1\<lparr>log := log k1 @ [Deliver d]\<rparr>) = (Ok (), k2) \<and>
    settled cfg k2"
proof -
  obtain k1 k2 where c: "beforeMessageIsConsumed cfg d k = (Ok (), k1)" "afterMessageIsConsumed cfg d False (k1\<lparr>log := log k1 @ [Deliver d]\<rparr>) = (Ok (), k2)"
    "sound cfg k2" "acked cfg k2 (handed_over (log k) @ [did d])" "handed_over (log k2) = handed_over (log k) @ [did d]"
    "isAutoAcknowledgeEach cfg \<and> \<not> optimizeAcknowledge cfg \<longrightarrow> deliveredMessages k2 = []"
    using consume [OF settledD(1) [OF assms(1)] assms(2) settledD(2) [OF assms(1)], of "[Deliver d]"] by auto
  then have "settled cfg k2" by (simp add: settled_def)
  then show ?thesis using c(1,2) by blast
qed

interpretation plain: working_consumer cfg "settled cfg" for cfg
proof unfold_locales
  fix k d b c e n a t
  assume j: "settled cfg k"
  note s = settledD [OF j]
  have t: "\<not> isTransacted cfg k" by (rule sound_transacted [OF s(1)])
  show "ch_good (unconsumedMessages k)" "connectionFailed k = None" using s(1) by (simp_all add: sound_def ch_good_def)
  show "ch_good c \<Longrightarrow> settled cfg (k\<lparr>unconsumedMessages := c\<rparr>)" "settled cfg (k\<lparr>connectionAudit := a\<rparr>)" "settled cfg (k\<lparr>dispatchedCount := n\<rparr>)"
    "settled cfg (k\<lparr>started := b\<rparr>)" "settled cfg (k\<lparr>hasListener := b\<rparr>)" "settled cfg (k\<lparr>clock := t\<rparr>)" "silent e \<Longrightarrow> settled cfg (k\<lparr>log := log k @ [e]\<rparr>)"
    by (rule settled_same [OF j]; use s(1) in \<open>simp add: sound_def ch_good_def silent_def split: effect.splits\<close>)+
  show "clearDeliveredList cfg k = (Ok (), k)" "clearMessagesInProgress cfg k = (Ok (), k)" using clear_nothing s(1) by blast+
  show "redeliveryExpectedInCurrentTransaction cfg d b k = (Ok False, k)" using t by (simp add: redeliveryExpectedInCurrentTransaction_def call_defs)
  assume d: "has_id d"
  show "\<exists>k1 k2. beforeMessageIsConsumed cfg d k = (Ok (), k1) \<and> afterMessageIsConsumed cfg d False k1 = (Ok (), k2) \<and>
      settled cfg (k2\<lparr>log := log k2 @ [Deliver d]\<rparr>)" by (rule settled_received [OF j d])
  show "\<exists>k1 k2. beforeMessageIsConsumed cfg d k = (Ok (), k1) \<and> afterMessageIsConsumed cfg d False (k1\<lparr>log := log k1 @ [Deliver d]\<rparr>) = (Ok (), k2) \<and>
      settled cfg k2" by (rule settled_listened [OF j d])
  show "\<exists>k'. sequel (beforeMessageIsConsumed cfg d) (afterMessageIsConsumed cfg d True) k = (Ok (), k') \<and> settled cfg k' \<and> unconsumedMessages k' = unconsumedMessages k"
    using consume_expired [OF s(1) d s(2)] j by (auto simp: keeps_def settled_def)
  show "\<exists>k'. posionAck cfg d k = (Ok (), k') \<and> settled cfg k' \<and> unconsumedMessages k' = unconsumedMessages k"
    using poison_keeps [OF s d] j by (auto simp: keeps_def settled_def)
qed

section \<open>Runs\<close>

lemma settled_run:
  assumes "settled cfg k" "\<And>n d. Dispatched n d \<in> set cs \<Longrightarrow> has_id d"
  shows "\<exists>k'. run_calls cfg cs k = Some k' \<and> settled cfg k'"
  by (rule plain.run_keeps [OF assms(1)]) (use assms(2) settled_acknowledge in fastforce)+

lemma new_settled: "ackMode cfg \<noteq> SESSION_TRANSACTED \<Longrightarrow> settled cfg (ActiveMQConsumerKernel_new p audit NoTransaction i now b other)"
  using prio_inv_new
  by (auto simp: ActiveMQConsumerKernel_new_def settled_def sound_def acked_def unacked_def ch_defs fifo_new_def prio_new_def prio_contents_def)


text \<open>A consumer of a queue with the settings of a new connection, and messages for it\<close>

definition demo_config :: "ack_mode \<Rightarrow> bool \<Rightarrow> consumer_config" where
  "demo_config mode check = \<lparr>ackMode = mode, cc_destination = \<lparr>destinationType = QUEUE, physicalName = ''orders''\<rparr>, browser = False, prefetchSize = 1000,
     optimizeAcknowledge = False, optimizeAcknowledgeTimeOut = 300, transactedIndividualAck = False, nonBlockingRedelivery = False,
     consumerExpiryCheckEnabled = True, failoverRedeliveryWaitPeriod = 0,
     redeliveryPolicy = \<lparr>maximumRedeliveries = 6, initialRedeliveryDelay = 1000, nextRedeliveryDelay = (\<lambda>d. if d = 0 then 1000 else d)\<rparr>,
     isSendAcksAsync = False, cc_checkForDuplicates = check, dispatcher = 1, junk = 0\<rparr>"

definition demo_dispatch :: "int \<Rightarrow> int \<Rightarrow> message_dispatch" where
  "demo_dispatch q expiry = \<lparr>md_destination = msg_destination (sample QUEUE q),
     md_message = Some (sample QUEUE q\<lparr>msg_ref := nat q, msg_expiration := expiry\<rparr>), redeliveryCounter = 0, md_ref = nat q\<rparr>"

definition demo_consumer :: consumer where
  "demo_consumer = ActiveMQConsumerKernel_new False ConnectionAudit_default NoTransaction 1 5000 False ThisConsumer"

definition demo_calls :: "consumer_call list" where
  "demo_calls = [StartConsumer, Dispatched 1 (demo_dispatch 1 0), Dispatched 1 (demo_dispatch 2 0),
     Dispatched 1 (demo_dispatch 3 4000), Dispatched 1 (demo_dispatch 4 0), ReceiveNoWait, ReceiveNoWait, Acknowledge, ReceiveNoWait]"

lemma demo_has_id: "has_id (demo_dispatch q expiry)"
  by (simp add: has_id_def demo_dispatch_def sample_def)


end
