(* ===== verification/Consumer_Rollback.thy ===== *)
theory Consumer_Rollback
  imports Consumer_Runs
begin

text \<open>
  \<open>rollback\<close> of a consumer: what was delivered goes back to the channel, to a task that dispatches it again later, or to the
  broker as poison; the audit of the connection forgets it.
\<close>

section \<open>Undoing the record of the delivered messages\<close>

lemma redelivered_id [simp]: "did (redelivered d) = did d" "has_id (redelivered d) = has_id d" "md_destination (redelivered d) = md_destination d"
  "call_ok P (RollbackDuplicate i (md_message (redelivered d))) = call_ok P (RollbackDuplicate i (md_message d))"
  by (cases "md_message d"; simp add: redelivered_def did_def has_id_def call_ok_def)+

lemma redelivered_spec: "ca_spec_step (RollbackDuplicate i (md_message (redelivered d))) S = ca_spec_step (RollbackDuplicate i (md_message d)) S"
  by (cases "md_message d") (simp_all add: redelivered_def owner_of_def split: option.splits bind_splits)

text \<open>What the audit of the connection knows once the messages are forgotten\<close>

definition forgotten :: "consumer_config \<Rightarrow> message_dispatch list \<Rightarrow> seen_table \<Rightarrow> seen_table" where
  "forgotten cfg ds = fold (\<lambda>d S. snd (ca_spec_step (RollbackDuplicate (dispatcher cfg) (md_message d)) S)) ds"

lemma rollback_duplicate_forgets:
  assumes "ca_inv P (connectionAudit k)" "finite P" "call_ok P (RollbackDuplicate (dispatcher cfg) (md_message d))" "\<not> connectionClosed k"
  obtains a where "rollback_duplicate cfg d k = (Ok (), k\<lparr>connectionAudit := a\<rparr>)" "ca_inv P a"
    "ca_tracked a = snd (ca_spec_step (RollbackDuplicate (dispatcher cfg) (md_message d)) (ca_tracked (connectionAudit k)))"
proof -
  obtain r a where e: "rollbackDuplicate (junk cfg) (dispatcher cfg) (md_message d) (connectionAudit k) = (r, a)" by fastforce
  have "simulates P (ca_step (junk cfg) (RollbackDuplicate (dispatcher cfg) (md_message d)) (connectionAudit k))
      (ca_spec_step (RollbackDuplicate (dispatcher cfg) (md_message d)) (ca_tracked (connectionAudit k)))"
    by (rule rollback_simulates [OF assms(1-3)])
  moreover have "fst (ca_spec_step (RollbackDuplicate i m) S) = Ok False" for i m S
    by (auto simp: spec_step_def spec_rollback_def key_of_id_def split: option.splits bind_splits)
  ultimately have "map_sum (\<lambda>e. e) (\<lambda>_. False) r = Ok False" "ca_inv P a"
    "ca_tracked a = snd (ca_spec_step (RollbackDuplicate (dispatcher cfg) (md_message d)) (ca_tracked (connectionAudit k)))"
    using e by (simp_all add: simulates_def del: ca_spec_step.simps)
  moreover from this(1) have "r = Ok ()" by (cases r) simp_all
  ultimately show thesis using that [of a] assms(4) e by (simp add: rollback_duplicate_def)
qed

lemma count_redeliveries_all:
  assumes "ca_inv P (connectionAudit k)" "finite P" "\<forall>d \<in> set ds. has_id d \<and> call_ok P (RollbackDuplicate (dispatcher cfg) (md_message d))"
    "\<not> connectionClosed k" "deliveredMessages k = front @ ds"
  shows "\<exists>a. count_redeliveries cfg front ds k = (Ok (), k\<lparr>deliveredMessages := front @ map redelivered ds, connectionAudit := a\<rparr>) \<and> ca_inv P a \<and>
    ca_tracked a = forgotten cfg ds (ca_tracked (connectionAudit k))"
  using assms
proof (induction ds arbitrary: front k)
  case Nil
  then show ?case by (intro exI [of _ "connectionAudit k"]) (simp add: ret_def forgotten_def)
next
  case (Cons d ds)
  obtain m where m: "md_message d = Some m" using Cons.prems(3) by (auto simp: has_id_def)
  let ?k = "k\<lparr>deliveredMessages := front @ redelivered d # ds\<rparr>"
  have ok: "ca_inv P (connectionAudit ?k)" "call_ok P (RollbackDuplicate (dispatcher cfg) (md_message (redelivered d)))" "\<not> connectionClosed ?k"
    using Cons.prems(1,3,4) by simp_all
  obtain a where a: "rollback_duplicate cfg (redelivered d) ?k = (Ok (), ?k\<lparr>connectionAudit := a\<rparr>)" "ca_inv P a"
    "ca_tracked a = snd (ca_spec_step (RollbackDuplicate (dispatcher cfg) (md_message (redelivered d))) (ca_tracked (connectionAudit ?k)))"
    by (rule rollback_duplicate_forgets [OF ok(1) Cons.prems(2) ok(2,3)])
  let ?k' = "?k\<lparr>connectionAudit := a\<rparr>"
  obtain b where b: "count_redeliveries cfg (front @ [redelivered d]) ds ?k' =
      (Ok (), ?k'\<lparr>deliveredMessages := (front @ [redelivered d]) @ map redelivered ds, connectionAudit := b\<rparr>)" "ca_inv P b"
    "ca_tracked b = forgotten cfg ds (ca_tracked (connectionAudit ?k'))"
    using Cons.IH [of ?k' "front @ [redelivered d]"] Cons.prems a(2) by auto
  have "count_redeliveries cfg front (d # ds) k = count_redeliveries cfg (front @ [redelivered d]) ds ?k'"
    using m a(1) by (simp add: sequel_def andthen_def change_def)
  then show ?case using b a(3) by (auto simp: forgotten_def redelivered_spec simp del: ca_spec_step.simps count_redeliveries.simps)
qed

section \<open>Giving messages back\<close>

lemma ch_enqueueFirst_facts:
  assumes "ch_inv c"
  shows "ch_inv (ch_enqueueFirst d c)" "mset (ch_contents (ch_enqueueFirst d c)) = add_mset d (mset (ch_contents c))"
    "ch_isClosed (ch_enqueueFirst d c) = ch_isClosed c" "ch_isRunning (ch_enqueueFirst d c) = ch_isRunning c"
  using ch.inv_step [OF assms, of "EnqueueFirst d"] ch.closed_step [OF assms, of "EnqueueFirst d"] ch.running_step [OF assms, of "EnqueueFirst d"]
    ch.enqueueFirst [OF assms, of d]
  by (simp_all add: ch_ops_def)

lemma enqueueFirst_all:
  assumes "ch_inv c"
  shows "ch_inv (fold ch_enqueueFirst ds c) \<and> mset (ch_contents (fold ch_enqueueFirst ds c)) = mset ds + mset (ch_contents c) \<and>
    ch_isClosed (fold ch_enqueueFirst ds c) = ch_isClosed c \<and> ch_isRunning (fold ch_enqueueFirst ds c) = ch_isRunning c"
  using assms by (induction ds arbitrary: c) (simp_all add: ch_enqueueFirst_facts)

lemma enqueueFirst_fifo: "ch_contents (fold ch_enqueueFirst ds (Fifo c)) = rev ds @ fifo_list c"
  by (induction ds arbitrary: c) (simp_all add: ch_defs fifo_enqueueFirst_def)

lemma ch_running: "\<not> ch_isRunning (ch_stop c)" "\<not> ch_isClosed c \<Longrightarrow> ch_isRunning (ch_start c)"
  by (cases c; simp add: ch_defs fifo_stop_def prio_stop_def fifo_start_def prio_start_def)+

text \<open>The acknowledgement of a rollback: \<open>t\<close> says of what kind\<close>

definition back_ack :: "nat \<Rightarrow> message_dispatch list \<Rightarrow> message_ack" where
  "back_ack t ds = \<lparr>ak_type = t, ak_destination = md_destination (hd ds), ak_first = did (last ds), ak_last = did (hd ds),
     ak_count = int (length ds), ak_transaction = None\<rparr>"

lemma back_ack_covers: "ds \<noteq> [] \<Longrightarrow> covers (back_ack t ds) (map did (rev ds))"
  by (simp add: covers_def back_ack_def hd_map hd_rev last_map last_rev)

lemma back_ack_redelivered [simp]: "ds \<noteq> [] \<Longrightarrow> back_ack t (map redelivered ds) = back_ack t ds"
  by (simp add: back_ack_def hd_map last_map)

lemma new_back_ack: "ds \<noteq> [] \<Longrightarrow> \<forall>d \<in> set ds. has_id d \<Longrightarrow> MessageAck_new (hd ds) t (int (length ds)) = Ok ((back_ack t ds)\<lparr>ak_first := None\<rparr>)"
  by (simp add: MessageAck_new_id back_ack_def)

lemma poison_given:
  assumes "deliveredMessages k \<noteq> []" "\<forall>d \<in> set (deliveredMessages k). has_id d" "connectionFailed k = None" "ch_inv (unconsumedMessages k)"
  shows "\<exists>k'. rollback_poison cfg (did (last (deliveredMessages k))) k = (Ok (), k') \<and> deliveredMessages k' = [] \<and>
    log k' = log k @ [SendAck False (back_ack ACK_TYPE_POISON (deliveredMessages k))] \<and> connectionAudit k' = connectionAudit k \<and>
    hasListener k' = hasListener k \<and> ch_contents (unconsumedMessages k') = ch_contents (unconsumedMessages k)"
  using ch_lifecycle [OF assms(4)] assms(3)
  by (simp add: rollback_poison_def call_defs new_back_ack [OF assms(1,2)] sendAck_sent forget_delivered_def Consumer_start_def back_ack_def)

lemma given_back:
  assumes "ch_inv (unconsumedMessages k)" "\<not> ch_isClosed (unconsumedMessages k)"
  shows "\<exists>k'. give_back cfg k = (Ok (), k') \<and> deliveredMessages k' = [] \<and> connectionAudit k' = connectionAudit k \<and> hasListener k' = hasListener k \<and>
    (nonBlockingRedelivery cfg \<longrightarrow> log k' = log k @ [RedeliverLater (rev (deliveredMessages k)) (redeliveryDelay k)] \<and> unconsumedMessages k' = unconsumedMessages k) \<and>
    (\<not> nonBlockingRedelivery cfg \<longrightarrow> log k' = log k @ (if redeliveryDelay k > 0 then [StartLater (redeliveryDelay k)] else []) \<and>
      mset (ch_contents (unconsumedMessages k')) = mset (deliveredMessages k) + mset (ch_contents (unconsumedMessages k)) \<and>
      (\<forall>c. unconsumedMessages k = Fifo c \<longrightarrow> ch_contents (unconsumedMessages k') = rev (deliveredMessages k) @ fifo_list c) \<and>
      ch_isRunning (unconsumedMessages k') = (redeliveryDelay k \<le> 0))"
proof -
  note l = ch_lifecycle [OF assms(1)]
  note f = enqueueFirst_all [OF l(4), of "deliveredMessages k"]
  let ?c = "fold ch_enqueueFirst (deliveredMessages k) (ch_stop (unconsumedMessages k))"
  have i: "ch_inv ?c" "\<not> ch_isClosed ?c" "\<not> ch_isRunning ?c" "mset (ch_contents ?c) = mset (deliveredMessages k) + mset (ch_contents (unconsumedMessages k))"
    using f l assms(2) ch_running(1) by simp_all
  have o: "ch_contents ?c = rev (deliveredMessages k) @ fifo_list c" if "unconsumedMessages k = Fifo c" for c
    using that by (simp add: ch_stop_def enqueueFirst_fifo fifo_stop_def)
  note r = ch_lifecycle(2) [OF i(1)] ch_running(2) [OF i(2)]
  show ?thesis
    using i o r assms(2) by (auto simp: give_back_def call_defs forget_delivered_def emit_def Consumer_start_def)
qed

section \<open>Rollback\<close>

text \<open>The delay before the next delivery\<close>

definition next_delay :: "consumer_config \<Rightarrow> consumer \<Rightarrow> int \<Rightarrow> int" where
  "next_delay cfg k n = (if n > 0 then nextRedeliveryDelay (redeliveryPolicy cfg) (redeliveryDelay k) else initialRedeliveryDelay (redeliveryPolicy cfg))"

lemma rollback_counts:
  assumes "deliveredMessages k \<noteq> []" "\<forall>d \<in> set (deliveredMessages k). has_id d \<and> call_ok P (RollbackDuplicate (dispatcher cfg) (md_message d))"
    "ca_inv P (connectionAudit k)" "finite P" "\<not> connectionClosed k" "message_counter (hd (deliveredMessages k)) = Ok n"
  obtains a where "ca_inv P a" "ca_tracked a = forgotten cfg (deliveredMessages k) (ca_tracked (connectionAudit k))"
    "rollback_delivered cfg k =
      (if maximumRedeliveries (redeliveryPolicy cfg) \<noteq> NO_MAXIMUM_REDELIVERIES \<and> n + 1 > maximumRedeliveries (redeliveryPolicy cfg)
       then rollback_poison cfg (did (last (deliveredMessages k)))
       else sequel (only_if (n > 0) (sendAck cfg (back_ack ACK_TYPE_REDELIVERED (deliveredMessages k)) False)) (give_back cfg))
      (k\<lparr>redeliveryDelay := next_delay cfg k n, deliveredMessages := map redelivered (deliveredMessages k), connectionAudit := a\<rparr>)"
proof -
  let ?k = "k\<lparr>redeliveryDelay := next_delay cfg k n\<rparr>"
  obtain a where a: "count_redeliveries cfg [] (deliveredMessages k) ?k = (Ok (), ?k\<lparr>deliveredMessages := map redelivered (deliveredMessages k), connectionAudit := a\<rparr>)"
    "ca_inv P a" "ca_tracked a = forgotten cfg (deliveredMessages k) (ca_tracked (connectionAudit k))"
    using count_redeliveries_all [of P ?k "deliveredMessages k" cfg "[]"] assms by auto
  let ?k' = "?k\<lparr>deliveredMessages := map redelivered (deliveredMessages k), connectionAudit := a\<rparr>"
  have ids: "\<forall>d \<in> set (map redelivered (deliveredMessages k)). has_id d" "map redelivered (deliveredMessages k) \<noteq> []" using assms(1,2) by auto
  have last: "dispatch_id (last (deliveredMessages k)) = Ok (did (last (deliveredMessages k)))" using assms(1,2) by (simp add: dispatch_id_did)
  let ?A = "with_state (\<lambda>k'. andthen (lift (MessageAck_new (hd (deliveredMessages k')) ACK_TYPE_REDELIVERED (int (length (deliveredMessages k')))))
      (\<lambda>ack. sendAck cfg (ack\<lparr>ak_first := did (last (deliveredMessages k))\<rparr>) False))"
  have "?A ?k' = sendAck cfg (back_ack ACK_TYPE_REDELIVERED (deliveredMessages k)) False ?k'"
    using new_back_ack [OF ids(2,1), of ACK_TYPE_REDELIVERED] assms(1) by (simp add: call_defs) (simp add: back_ack_def)
  then have ack: "sequel (only_if b ?A) g ?k' = sequel (only_if b (sendAck cfg (back_ack ACK_TYPE_REDELIVERED (deliveredMessages k)) False)) g ?k'"
    for b and g :: "unit call" by (simp add: sequel_def andthen_def only_if_def)
  have "rollback_delivered cfg k =
      (if maximumRedeliveries (redeliveryPolicy cfg) \<noteq> NO_MAXIMUM_REDELIVERIES \<and> n + 1 > maximumRedeliveries (redeliveryPolicy cfg)
       then rollback_poison cfg (did (last (deliveredMessages k))) else sequel (only_if (n > 0) ?A) (give_back cfg)) ?k'"
    using a(1) assms(6) last
    unfolding rollback_delivered_def Let_def with_state_def [of _ k] sequel_def [of "change _"] sequel_def [of "count_redeliveries _ _ _"] andthen_def lift_def change_def
    by (simp add: next_delay_def)
  then show thesis using that [OF a(2,3)] ack by presburger
qed



end
