(* ===== verification/Consumer_Transactions.thy ===== *)
theory Consumer_Transactions
  imports Consumer_Rollback
begin

text \<open>
  \<open>activemq/core/ActiveMQTransactionContext.cpp\<close> for local transactions, with the synchronization of a consumer
  (\<open>TransactionSynhcronization\<close> in \<open>ActiveMQConsumerKernel.cpp\<close>): \<open>commit\<close> and \<open>rollback\<close> of a transacted session that has
  one consumer. The answers of the broker are an argument: \<open>refused e\<close> says that it answers the request \<open>e\<close> with an exception.
\<close>

section \<open>Ending a transaction\<close>

definition is_cms :: "exn \<Rightarrow> bool" where
  "is_cms e \<longleftrightarrow> e \<in> {CMSException, CMSIllegalStateException, TransactionInProgressException, TransactionRolledBackException}"

text \<open>\<open>AMQ_CATCH_RETHROW(cms::CMSException) AMQ_CATCH_RETHROW(ActiveMQException) ...\<close>\<close>

definition keep_cms :: "exn \<Rightarrow> exn" where "keep_cms e = (if is_cms e then e else to_amq e)"

definition sync_beforeEnd :: "consumer_config \<Rightarrow> (consumer \<Rightarrow> consumer) list \<Rightarrow> consumer \<Rightarrow> (unit result \<times> consumer) option" where
  "sync_beforeEnd cfg env k =
     map_option (\<lambda>(r, k'). case r of Inl e \<Rightarrow> (Throw e, k') | Inr _ \<Rightarrow> (Ok (), k'\<lparr>synchronizationRegistered := False\<rparr>))
       (if transactedIndividualAck cfg
        then (case clearDeliveredList cfg k of
                (Inl e, k') \<Rightarrow> Some (Throw e, k')
              | (Inr _, k') \<Rightarrow> map_option rollbackOnFailedRecoveryRedelivery (waitForRedeliveries cfg env k'))
        else acknowledge cfg env k)"

definition sync_afterCommit :: "consumer \<Rightarrow> consumer" where
  "sync_afterCommit k = (Consumer_commit k)\<lparr>synchronizationRegistered := False\<rparr>"

definition sync_afterRollback :: "consumer_config \<Rightarrow> unit call" where
  "sync_afterRollback cfg = sequel (Consumer_rollback cfg) (change (\<lambda>k. k\<lparr>synchronizationRegistered := False\<rparr>))"

definition TransactionContext_beforeEnd :: "consumer_config \<Rightarrow> (consumer \<Rightarrow> consumer) list \<Rightarrow> consumer \<Rightarrow> (unit result \<times> consumer) option" where
  "TransactionContext_beforeEnd cfg env k = (if synchronizationAdded k then sync_beforeEnd cfg env k else Some (Ok (), k))"

text \<open>The set of the synchronizations is cleared afterwards, whatever they throw.\<close>

definition TransactionContext_afterCommit :: "consumer \<Rightarrow> consumer" where
  "TransactionContext_afterCommit k = (if synchronizationAdded k then (sync_afterCommit k)\<lparr>synchronizationAdded := False\<rparr> else k)"

definition TransactionContext_afterRollback :: "consumer_config \<Rightarrow> unit call" where
  "TransactionContext_afterRollback cfg k =
     (if synchronizationAdded k then apsnd (\<lambda>k'. k'\<lparr>synchronizationAdded := False\<rparr>) (sync_afterRollback cfg k) else (Ok (), k))"

text \<open>\<open>connection->syncRequest(info)\<close>: whatever the broker answers, it throws an \<open>ActiveMQException\<close>.\<close>

definition end_request :: "(effect \<Rightarrow> bool) \<Rightarrow> effect \<Rightarrow> unit call" where
  "end_request refused e = sequel (transmit e) (if refused e then throws ActiveMQException else ret ())"

definition TransactionContext_rollback :: "consumer_config \<Rightarrow> (consumer \<Rightarrow> consumer) list \<Rightarrow> (effect \<Rightarrow> bool) \<Rightarrow> consumer \<Rightarrow> (unit result \<times> consumer) option" where
  "TransactionContext_rollback cfg env refused k =
     (case transaction k of
        XATransaction _ \<Rightarrow> Some (Throw TransactionInProgressException, k)
      | _ \<Rightarrow>
          (case TransactionContext_beforeEnd cfg env k of
             None \<Rightarrow> None
           | Some (r, k1) \<Rightarrow>
               (case (if r = Throw TransactionRolledBackException then Ok () else r) of
                  Inl e \<Rightarrow> Some (Throw (keep_cms e), k1)
                | Inr _ \<Rightarrow>
                    (case transaction k1 of
                       LocalTransaction n \<Rightarrow>
                         Some (catching keep_cms (sequel (end_request refused (RollbackTransaction n)) (TransactionContext_afterRollback cfg))
                           (k1\<lparr>transaction := NoTransaction\<rparr>))
                     | _ \<Rightarrow> Some (Ok (), k1)))))"

definition TransactionContext_commit :: "consumer_config \<Rightarrow> (consumer \<Rightarrow> consumer) list \<Rightarrow> (consumer \<Rightarrow> consumer) list \<Rightarrow> (effect \<Rightarrow> bool) \<Rightarrow> consumer \<Rightarrow> (unit result \<times> consumer) option" where
  "TransactionContext_commit cfg env env' refused k =
     (case transaction k of
        XATransaction _ \<Rightarrow> Some (Throw TransactionInProgressException, k)
      | _ \<Rightarrow>
          (case TransactionContext_beforeEnd cfg env k of
             None \<Rightarrow> None
           | Some (Inl e, k1) \<Rightarrow>
               if is_cms e
               then (case TransactionContext_rollback cfg env' refused k1 of
                       None \<Rightarrow> None
                     | Some (Inl e', k2) \<Rightarrow> Some (Throw e', k2)
                     | Some (Inr _, k2) \<Rightarrow> Some (Throw e, k2))
               else Some (Throw (keep_cms e), k1)
           | Some (Inr _, k1) \<Rightarrow>
               (case transaction k1 of
                  LocalTransaction n \<Rightarrow>
                    (case sequel (end_request refused (CommitTransaction n)) (change TransactionContext_afterCommit) (k1\<lparr>transaction := NoTransaction\<rparr>) of
                       (Inr _, k2) \<Rightarrow> Some (Ok (), k2)
                     | (Inl e, k2) \<Rightarrow>
                         if is_cms e
                         then Some (case TransactionContext_afterRollback cfg k2 of (Inl e', k3) \<Rightarrow> (Throw (keep_cms e'), k3) | (Inr _, k3) \<Rightarrow> (Throw e, k3))
                         else Some (Throw (keep_cms e), k2))
                | _ \<Rightarrow> Some (Ok (), k1))))"

text \<open>\<open>ActiveMQSessionKernel::commit\<close> and \<open>rollback\<close> of a session that is not closed\<close>

definition Session_commit :: "consumer_config \<Rightarrow> (consumer \<Rightarrow> consumer) list \<Rightarrow> (consumer \<Rightarrow> consumer) list \<Rightarrow> (effect \<Rightarrow> bool) \<Rightarrow> consumer \<Rightarrow> (unit result \<times> consumer) option" where
  "Session_commit cfg env env' refused k =
     (if isTransacted cfg k then map_option (apfst (map_sum to_cms (\<lambda>u. u))) (TransactionContext_commit cfg env env' refused k)
      else Some (Throw (to_cms ActiveMQException), k))"

definition Session_rollback :: "consumer_config \<Rightarrow> (consumer \<Rightarrow> consumer) list \<Rightarrow> (effect \<Rightarrow> bool) \<Rightarrow> consumer \<Rightarrow> (unit result \<times> consumer) option" where
  "Session_rollback cfg env refused k =
     (if isTransacted cfg k then map_option (apfst (map_sum to_cms (\<lambda>u. u))) (TransactionContext_rollback cfg env refused k)
      else Some (Throw (to_cms ActiveMQException), k))"

section \<open>A transacted consumer at work\<close>

definition tx_ok :: "consumer_config \<Rightarrow> consumer \<Rightarrow> message_id option list \<Rightarrow> bool" where
  "tx_ok cfg k ids \<longleftrightarrow> ackMode cfg = SESSION_TRANSACTED \<and> \<not> transactedIndividualAck cfg \<and> connectionFailed k = None \<and>
     \<not> isClearDeliveredList k \<and> inProgressClearRequiredFlag k = 0 \<and> previouslyDeliveredMessages k = None \<and> ch_good (unconsumedMessages k) \<and>
     map did (rev (deliveredMessages k)) = ids \<and> list_all has_id (deliveredMessages k) \<and>
     (case pendingAck k of None \<Rightarrow> True | Some a \<Rightarrow> ak_type a = ACK_TYPE_DELIVERED) \<and>
     (case transaction k of
        NoTransaction \<Rightarrow> \<not> synchronizationRegistered k
      | LocalTransaction n \<Rightarrow> synchronizationRegistered k \<and> synchronizationAdded k \<and> BeginTransaction n \<in> set (log k)
      | XATransaction _ \<Rightarrow> False)"

lemma tx_transacted: "ackMode cfg = SESSION_TRANSACTED \<Longrightarrow> isTransacted cfg k"
  by (simp add: isTransacted_def)

lemma tx_modes: "ackMode cfg = SESSION_TRANSACTED \<Longrightarrow> \<not> isAutoAcknowledgeBatch cfg"
  by (simp add: isAutoAcknowledgeBatch_def)

text \<open>A step that neither hands over nor acknowledges as consumed\<close>

definition tx_step :: "consumer \<Rightarrow> consumer \<Rightarrow> bool" where
  "tx_step k k' \<longleftrightarrow> unconsumedMessages k' = unconsumedMessages k \<and> (transaction k' = NoTransaction \<longrightarrow> transaction k = NoTransaction) \<and>
     (\<exists>es. log k' = log k @ es \<and> handed_over es = [] \<and> consumed_acks es = [])"

lemma tx_step_trans: "tx_step k k1 \<Longrightarrow> tx_step k1 k2 \<Longrightarrow> tx_step k k2"
  unfolding tx_step_def by auto

lemma tx_register:
  assumes "tx_ok cfg k ids"
  shows "\<exists>k' n. registerSync cfg k = (Ok (), k') \<and> tx_ok cfg k' ids \<and> transaction k' = LocalTransaction n \<and> tx_step k k' \<and> deliveredMessages k' = deliveredMessages k"
proof (cases "transaction k")
  case NoTransaction
  then show ?thesis using assms
    by (simp add: registerSync_def doStartTransaction_def begin_transaction_def tx_transacted tx_ok_def transmit_def emit_def call_defs Let_def tx_step_def)
next
  case (LocalTransaction n)
  then show ?thesis using assms
    by (simp add: registerSync_def doStartTransaction_def begin_transaction_def tx_transacted tx_ok_def call_defs tx_step_def)
qed (use assms in \<open>simp add: tx_ok_def\<close>)

lemma tx_later:
  assumes "tx_ok cfg k ids" "has_id d"
  shows "\<exists>k' n. ackLater cfg d ACK_TYPE_DELIVERED k = (Ok (), k') \<and> tx_ok cfg k' ids \<and> transaction k' = LocalTransaction n \<and> tx_step k k' \<and>
    deliveredMessages k' = deliveredMessages k"
proof -
  obtain k1 n where r: "registerSync cfg k = (Ok (), k1)" "tx_ok cfg k1 ids" "transaction k1 = LocalTransaction n" "tx_step k k1"
    "deliveredMessages k1 = deliveredMessages k" using tx_register [OF assms(1)] by blast
  have t: "isTransacted cfg k'" for k' using assms(1) by (simp add: tx_ok_def tx_transacted)
  have f: "connectionFailed k1 = None" "case pendingAck k1 of None \<Rightarrow> True | Some a \<Rightarrow> ak_type a = ACK_TYPE_DELIVERED" using r(2) by (simp_all add: tx_ok_def)
  define a where "a = (next_pending d ACK_TYPE_DELIVERED k1)\<lparr>ak_transaction := Some n\<rparr>"
  have e: "ackLater cfg d ACK_TYPE_DELIVERED k = (Ok (),
      if prefetchSize cfg \<le> 2 * (deliveredCounter k1 + 1 + ackCounter k1 - additionalWindowSize k1)
      then k1\<lparr>log := log k1 @ [SendAck False a], pendingAck := None, deliveredCounter := 0, additionalWindowSize := 0\<rparr>
      else k1\<lparr>deliveredCounter := deliveredCounter k1 + 1, pendingAck := Some a\<rparr>)"
    using f t r(1,3)
    by (cases "pendingAck k1")
      (auto simp: ackLater_def call_defs Let_def MessageAck_new_id [OF assms(2)] next_pending_def sendAck_def transmit_def emit_def transactionId_def a_def)
  have "ak_type a = ACK_TYPE_DELIVERED" by (simp add: a_def next_pending_def)
  then show ?thesis using e r(2-5) by (auto simp: tx_ok_def tx_step_def ack_types)
qed

lemma tx_before:
  assumes "tx_ok cfg k ids" "has_id d"
  shows "\<exists>k' n. beforeMessageIsConsumed cfg d k = (Ok (), k') \<and> tx_ok cfg k' (ids @ [did d]) \<and> transaction k' = LocalTransaction n \<and> tx_step k k' \<and>
    deliveredMessages k' = d # deliveredMessages k"
proof -
  obtain m i where m: "md_message d = Some m" "messageId m = Some i" using assms(2) by (auto simp: has_id_def)
  let ?k = "k\<lparr>lastDeliveredSequenceId := brokerSequenceId i, deliveredMessages := d # deliveredMessages k\<rparr>"
  have "tx_ok cfg ?k (ids @ [did d])" using assms by (auto simp: tx_ok_def split: session_tx.splits)
  then obtain k' n where k': "ackLater cfg d ACK_TYPE_DELIVERED ?k = (Ok (), k')" "tx_ok cfg k' (ids @ [did d])" "transaction k' = LocalTransaction n"
    "tx_step ?k k'" "deliveredMessages k' = deliveredMessages ?k" using tx_later [OF _ assms(2)] by blast
  have t: "isTransacted cfg ?k" "\<not> isAutoAcknowledgeBatch cfg" "\<not> transactedIndividualAck cfg" using assms(1) by (auto simp: tx_ok_def tx_transacted tx_modes)
  have "beforeMessageIsConsumed cfg d k = (Ok (), k')" using m t k'(1) by (simp add: beforeMessageIsConsumed_def call_defs)
  then show ?thesis using k'(2-5) by (auto simp: tx_step_def)
qed

lemma tx_after: "tx_ok cfg k ids \<Longrightarrow> afterMessageIsConsumed cfg d False k = (Ok (), k)"
  by (simp add: tx_ok_def afterMessageIsConsumed_def tx_transacted catching_def call_defs)

lemma tx_send:
  assumes "tx_ok cfg k ids" "ak_type a \<noteq> ACK_TYPE_CONSUMED"
  shows "sendAck cfg a False k = (Ok (), k\<lparr>log := log k @ [SendAck False a]\<rparr>)" "tx_ok cfg (k\<lparr>log := log k @ [SendAck False a]\<rparr>) ids"
    "tx_step k (k\<lparr>log := log k @ [SendAck False a]\<rparr>)"
  using assms by (auto simp: tx_ok_def sendAck_sent tx_transacted tx_step_def split: session_tx.splits)

lemma tx_expired:
  assumes "tx_ok cfg k ids" "has_id d"
  shows "\<exists>k'. sequel (beforeMessageIsConsumed cfg d) (afterMessageIsConsumed cfg d True) k = (Ok (), k') \<and> tx_ok cfg k' ids \<and> tx_step k k'"
proof -
  obtain k1 n where b: "beforeMessageIsConsumed cfg d k = (Ok (), k1)" "tx_ok cfg k1 (ids @ [did d])" "transaction k1 = LocalTransaction n" "tx_step k k1"
    "deliveredMessages k1 = d # deliveredMessages k" using tx_before [OF assms] by blast
  let ?a = "\<lparr>ak_type = ACK_TYPE_EXPIRED, ak_destination = md_destination d, ak_first = did d, ak_last = did d, ak_count = 1, ak_transaction = None\<rparr>"
  have a: "ak_type ?a \<noteq> ACK_TYPE_CONSUMED" by (simp add: ack_types)
  note s = tx_send [OF b(2) a]
  let ?k = "k1\<lparr>log := log k1 @ [SendAck False ?a], deliveredMessages := deliveredMessages k\<rparr>"
  have "afterMessageIsConsumed cfg d True k1 = (Ok (), ?k)"
    using s(1) b(2,5) ch_good_steps(5) [of "unconsumedMessages k1"]
    by (simp add: afterMessageIsConsumed_def acknowledge_one_def catching_def with_state_def MessageAck_new_id [OF assms(2)] sequel_def andthen_def lift_def
        change_def tx_ok_def)
  moreover have "tx_ok cfg ?k ids" using s(2) assms(1) b(3) by (auto simp: tx_ok_def)
  moreover have "tx_step k ?k" using tx_step_trans [OF b(4) s(3)] by (simp add: tx_step_def)
  ultimately show ?thesis using b(1) by (auto simp: sequel_def andthen_def)
qed

lemma tx_poison:
  assumes "tx_ok cfg k ids" "has_id d"
  shows "\<exists>k'. posionAck cfg d k = (Ok (), k') \<and> tx_ok cfg k' ids \<and> tx_step k k'"
  using tx_send [OF assms(1), of "\<lparr>ak_type = ACK_TYPE_POISON, ak_destination = md_destination d, ak_first = did d, ak_last = did d, ak_count = 1, ak_transaction = None\<rparr>"]
  by (simp add: posionAck_def MessageAck_new_id [OF assms(2)] call_defs ack_types)

text \<open>What the log had before (\<open>base\<close>), and what was noted then (\<open>old\<close>): the messages handed over since are noted after them.\<close>

definition tx_since :: "consumer_config \<Rightarrow> effect list \<Rightarrow> message_id option list \<Rightarrow> consumer \<Rightarrow> bool" where
  "tx_since cfg base old k \<longleftrightarrow> (\<exists>es. log k = base @ es \<and> consumed_acks es = [] \<and> tx_ok cfg k (old @ handed_over es) \<and>
     (transaction k = NoTransaction \<longrightarrow> handed_over es = []))"

lemma tx_since_step:
  assumes "tx_since cfg base old k" "\<And>ids. tx_ok cfg k ids \<Longrightarrow> tx_ok cfg k' ids \<and> tx_step k k'"
  shows "tx_since cfg base old k'"
  using assms unfolding tx_since_def tx_step_def by force

lemma tx_since_frame:
  assumes "tx_since cfg base old k" "\<And>ids. tx_ok cfg k ids \<Longrightarrow> tx_ok cfg k' ids" "log k' = log k @ es" "handed_over es = []" "consumed_acks es = []" "transaction k' = transaction k"
  shows "tx_since cfg base old k'"
  using assms unfolding tx_since_def by force

lemma tx_consumed:
  assumes "tx_since cfg base old k" "has_id d"
  shows "\<exists>k1. beforeMessageIsConsumed cfg d k = (Ok (), k1) \<and> afterMessageIsConsumed cfg d False k1 = (Ok (), k1) \<and>
    afterMessageIsConsumed cfg d False (k1\<lparr>log := log k1 @ [Deliver d]\<rparr>) = (Ok (), k1\<lparr>log := log k1 @ [Deliver d]\<rparr>) \<and>
    tx_since cfg base old (k1\<lparr>log := log k1 @ [Deliver d]\<rparr>)"
proof -
  obtain es where es: "log k = base @ es" "consumed_acks es = []" "tx_ok cfg k (old @ handed_over es)" using assms(1) by (auto simp: tx_since_def)
  obtain k1 n where b: "beforeMessageIsConsumed cfg d k = (Ok (), k1)" "tx_ok cfg k1 ((old @ handed_over es) @ [did d])" "transaction k1 = LocalTransaction n" "tx_step k k1"
    using tx_before [OF es(3) assms(2)] by blast
  let ?k = "k1\<lparr>log := log k1 @ [Deliver d]\<rparr>"
  have t: "tx_ok cfg ?k ((old @ handed_over es) @ [did d])" using b(2,3) by (simp add: tx_ok_def)
  obtain fs where fs: "log k1 = log k @ fs" "handed_over fs = []" "consumed_acks fs = []" using b(4) by (auto simp: tx_step_def)
  have "tx_since cfg base old ?k" unfolding tx_since_def by (rule exI [of _ "es @ fs @ [Deliver d]"]) (use t es fs b(3) in simp)
  then show ?thesis using b(1) tx_after [OF b(2)] tx_after [OF t] by blast
qed

interpretation transacted: working_consumer cfg "tx_since cfg base old" for cfg base old
proof unfold_locales
  fix k d b c e n a t
  assume j: "tx_since cfg base old k"
  then obtain ids where ok: "tx_ok cfg k ids" by (auto simp: tx_since_def)
  note tx_ok_def [simp]
  show "ch_good (unconsumedMessages k)" "connectionFailed k = None" "clearDeliveredList cfg k = (Ok (), k)" "clearMessagesInProgress cfg k = (Ok (), k)"
    "redeliveryExpectedInCurrentTransaction cfg d b k = (Ok False, k)"
    using ok by (simp_all add: clearDeliveredList_def clearMessagesInProgress_def redeliveryExpectedInCurrentTransaction_def call_defs)
  show "ch_good c \<Longrightarrow> tx_since cfg base old (k\<lparr>unconsumedMessages := c\<rparr>)" "tx_since cfg base old (k\<lparr>connectionAudit := a\<rparr>)"
    "tx_since cfg base old (k\<lparr>dispatchedCount := n\<rparr>)" "tx_since cfg base old (k\<lparr>started := b\<rparr>)" "tx_since cfg base old (k\<lparr>hasListener := b\<rparr>)"
    "tx_since cfg base old (k\<lparr>clock := t\<rparr>)"
    by (rule tx_since_frame [OF j, where es = "[]"]; simp split: session_tx.splits)+
  show "silent e \<Longrightarrow> tx_since cfg base old (k\<lparr>log := log k @ [e]\<rparr>)"
    by (rule tx_since_frame [OF j, where es = "[e]"]) (auto simp: silent_def split: session_tx.splits effect.splits)
  assume d: "has_id d"
  show "\<exists>k1 k2. beforeMessageIsConsumed cfg d k = (Ok (), k1) \<and> afterMessageIsConsumed cfg d False k1 = (Ok (), k2) \<and>
      tx_since cfg base old (k2\<lparr>log := log k2 @ [Deliver d]\<rparr>)"
    "\<exists>k1 k2. beforeMessageIsConsumed cfg d k = (Ok (), k1) \<and> afterMessageIsConsumed cfg d False (k1\<lparr>log := log k1 @ [Deliver d]\<rparr>) = (Ok (), k2) \<and>
      tx_since cfg base old k2" using tx_consumed [OF j d] by blast+
  obtain k1 where "sequel (beforeMessageIsConsumed cfg d) (afterMessageIsConsumed cfg d True) k = (Ok (), k1)" using tx_expired [OF ok d] by blast
  moreover from this have "tx_since cfg base old k1" "unconsumedMessages k1 = unconsumedMessages k"
    using tx_expired [OF _ d] ok by (auto intro!: tx_since_step [OF j] simp del: tx_ok_def) (fastforce simp: tx_step_def simp del: tx_ok_def)+
  ultimately show "\<exists>k'. sequel (beforeMessageIsConsumed cfg d) (afterMessageIsConsumed cfg d True) k = (Ok (), k') \<and> tx_since cfg base old k' \<and>
      unconsumedMessages k' = unconsumedMessages k" by blast
  obtain k2 where "posionAck cfg d k = (Ok (), k2)" using tx_poison [OF ok d] by blast
  moreover from this have "tx_since cfg base old k2" "unconsumedMessages k2 = unconsumedMessages k"
    using tx_poison [OF _ d] ok by (auto intro!: tx_since_step [OF j] simp del: tx_ok_def) (fastforce simp: tx_step_def simp del: tx_ok_def)+
  ultimately show "\<exists>k'. posionAck cfg d k = (Ok (), k') \<and> tx_since cfg base old k' \<and> unconsumedMessages k' = unconsumedMessages k" by blast
qed

section \<open>Committing\<close>

lemma tx_acknowledge:
  assumes "tx_ok cfg k ids" "transaction k = LocalTransaction n \<or> ids = []"
  shows "\<exists>k'. acknowledge cfg env k = Some (Ok (), k') \<and> tx_ok cfg k' ids \<and> transaction k' = transaction k \<and> synchronizationAdded k' = synchronizationAdded k \<and>
    log k' = log k @ (if ids = [] then [] else [SendAck False ((back_ack ACK_TYPE_CONSUMED (deliveredMessages k))\<lparr>ak_transaction := Some n\<rparr>)])"
proof -
  have ok: "\<not> isClearDeliveredList k" "previouslyDeliveredMessages k = None" "connectionFailed k = None" "list_all has_id (deliveredMessages k)"
    "ids = map did (rev (deliveredMessages k))" "isTransacted cfg k'" for k' using assms(1) by (auto simp: tx_ok_def tx_transacted)
  have w: "acknowledge cfg env k = Some (catching to_cms (acknowledge_all cfg) k)"
    using ok(1,2) by (simp add: acknowledge_def waitForRedeliveries_def clearDeliveredList_def call_defs)
  show ?thesis
  proof (cases "deliveredMessages k = []")
    case True
    then have "acknowledge_all cfg k = (Ok (), k)" by (simp add: acknowledge_all_def makeAckForAllDeliveredMessages_def call_defs)
    then show ?thesis using w assms(1) True ok(5) by (simp add: catching_def)
  next
    case False
    then have n: "transaction k = LocalTransaction n" using assms(2) ok(5) by simp
    let ?a = "back_ack ACK_TYPE_CONSUMED (deliveredMessages k)"
    have m: "makeAckForAllDeliveredMessages ACK_TYPE_CONSUMED k = Ok (Some ?a)" using make_ack [OF ok(4)] False by (simp add: back_ack_def)
    define k' where "k' = snd (acknowledge_all cfg k)"
    have e: "acknowledge_all cfg k = (Ok (), k')" "log k' = log k @ [SendAck False (?a\<lparr>ak_transaction := Some n\<rparr>)]" "transaction k' = transaction k"
      "tx_ok cfg k' ids" "synchronizationAdded k' = synchronizationAdded k"
      using m ok n assms(1)
      by (simp_all add: k'_def acknowledge_all_def sendAck_def transmit_def emit_def call_defs rollbackOnFailedRecoveryRedelivery_def not_replayed_def
          doStartTransaction_def begin_transaction_def transactionId_def tx_ok_def)
    then show ?thesis using w False ok(5) by (simp add: catching_def)
  qed
qed

lemma tx_ack_covers:
  assumes "tx_ok cfg k ids" "ids \<noteq> []"
  shows "covers ((back_ack ACK_TYPE_CONSUMED (deliveredMessages k))\<lparr>ak_transaction := t\<rparr>) ids"
proof -
  have i: "ids = map did (rev (deliveredMessages k))" using assms(1) by (simp add: tx_ok_def)
  then show ?thesis using assms(2) back_ack_covers [of "deliveredMessages k" ACK_TYPE_CONSUMED] by (simp add: covers_def)
qed

definition tx_idle :: "consumer_config \<Rightarrow> consumer \<Rightarrow> bool" where
  "tx_idle cfg k \<longleftrightarrow> tx_ok cfg k [] \<and> transaction k = NoTransaction"

lemma tx_beforeEnd:
  assumes "tx_ok cfg k ids" "transaction k = LocalTransaction n \<or> ids = []"
  shows "\<exists>k'. TransactionContext_beforeEnd cfg env k = Some (Ok (), k') \<and> tx_ok cfg (k'\<lparr>synchronizationRegistered := synchronizationRegistered k\<rparr>) ids \<and>
    transaction k' = transaction k \<and> synchronizationAdded k' = synchronizationAdded k \<and>
    (synchronizationAdded k \<longrightarrow> \<not> synchronizationRegistered k') \<and> (\<not> synchronizationAdded k \<longrightarrow> k' = k) \<and>
    log k' = log k @ (if ids = [] then [] else [SendAck False ((back_ack ACK_TYPE_CONSUMED (deliveredMessages k))\<lparr>ak_transaction := Some n\<rparr>)])"
proof (cases "synchronizationAdded k")
  case True
  obtain k' where k': "acknowledge cfg env k = Some (Ok (), k')" "tx_ok cfg k' ids" "transaction k' = transaction k" "synchronizationAdded k' = synchronizationAdded k"
    "log k' = log k @ (if ids = [] then [] else [SendAck False ((back_ack ACK_TYPE_CONSUMED (deliveredMessages k))\<lparr>ak_transaction := Some n\<rparr>)])"
    using tx_acknowledge [OF assms] by blast
  have "synchronizationRegistered k' = synchronizationRegistered k" using k'(2,3) assms(1) by (auto simp: tx_ok_def split: session_tx.splits)
  then have "k'\<lparr>synchronizationRegistered := False, synchronizationRegistered := synchronizationRegistered k\<rparr> = k'" by simp
  moreover have "\<not> transactedIndividualAck cfg" using assms(1) by (simp add: tx_ok_def)
  ultimately show ?thesis using True k'
    by (intro exI [of _ "k'\<lparr>synchronizationRegistered := False\<rparr>"]) (simp add: TransactionContext_beforeEnd_def sync_beforeEnd_def)
next
  case False
  then have "ids = []" using assms by (auto simp: tx_ok_def split: session_tx.splits)
  then show ?thesis using False assms(1) by (simp add: TransactionContext_beforeEnd_def)
qed

lemma tx_commit:
  assumes "tx_ok cfg k ids" "transaction k = LocalTransaction n" "\<not> refused (CommitTransaction n)"
  shows "\<exists>k'. TransactionContext_commit cfg env env' refused k = Some (Ok (), k') \<and> tx_idle cfg k' \<and>
    log k' = log k @ (if ids = [] then [] else [SendAck False ((back_ack ACK_TYPE_CONSUMED (deliveredMessages k))\<lparr>ak_transaction := Some n\<rparr>)]) @ [CommitTransaction n]"
proof -
  obtain k1 where k1: "TransactionContext_beforeEnd cfg env k = Some (Ok (), k1)" "tx_ok cfg (k1\<lparr>synchronizationRegistered := synchronizationRegistered k\<rparr>) ids"
    "transaction k1 = transaction k" "synchronizationAdded k1 = synchronizationAdded k"
    "log k1 = log k @ (if ids = [] then [] else [SendAck False ((back_ack ACK_TYPE_CONSUMED (deliveredMessages k))\<lparr>ak_transaction := Some n\<rparr>)])"
    using tx_beforeEnd [OF assms(1)] assms(2) by blast
  have a: "synchronizationAdded k" "connectionFailed k1 = None" using assms(1,2) k1(2) by (simp_all add: tx_ok_def)
  then show ?thesis using assms(2,3) k1
    by (simp add: TransactionContext_commit_def end_request_def transmit_def emit_def call_defs TransactionContext_afterCommit_def sync_afterCommit_def
        Consumer_commit_def clearPreviouslyDelivered_def tx_idle_def tx_ok_def)
qed

lemma tx_commit_nothing:
  assumes "tx_ok cfg k []" "transaction k = NoTransaction"
  shows "\<exists>k'. TransactionContext_commit cfg env env' refused k = Some (Ok (), k') \<and> tx_idle cfg k' \<and> log k' = log k"
proof -
  obtain k1 where k1: "TransactionContext_beforeEnd cfg env k = Some (Ok (), k1)" "tx_ok cfg (k1\<lparr>synchronizationRegistered := synchronizationRegistered k\<rparr>) []"
    "transaction k1 = transaction k" "log k1 = log k" "synchronizationAdded k \<longrightarrow> \<not> synchronizationRegistered k1" "\<not> synchronizationAdded k \<longrightarrow> k1 = k"
    using tx_beforeEnd [OF assms(1)] by (auto simp: assms(2))
  then have "tx_idle cfg k1" using assms by (cases "synchronizationAdded k") (simp_all add: tx_idle_def tx_ok_def)
  then show ?thesis using k1 assms(2) by (simp add: TransactionContext_commit_def)
qed

lemma new_tx_idle: "ackMode cfg = SESSION_TRANSACTED \<Longrightarrow> \<not> transactedIndividualAck cfg \<Longrightarrow>
    tx_idle cfg (ActiveMQConsumerKernel_new p audit NoTransaction i now b other)"
  using prio_inv_new
  by (auto simp: ActiveMQConsumerKernel_new_def tx_idle_def tx_ok_def ch_good_def ch_defs fifo_new_def prio_new_def prio_contents_def)


definition tx_demo_calls :: "consumer_call list" where
  "tx_demo_calls = [StartConsumer, Dispatched 1 (demo_dispatch 1 0), Dispatched 1 (demo_dispatch 2 0), ReceiveNoWait, ReceiveNoWait]"


section \<open>A refused commit\<close>

lemma tx_refused:
  assumes "tx_ok cfg k ids" "transaction k = LocalTransaction n" "refused (CommitTransaction n)"
  shows "\<exists>k'. TransactionContext_commit cfg env env' refused k = Some (Throw ActiveMQException, k') \<and> tx_ok cfg k' ids \<and> transaction k' = NoTransaction \<and>
    log k' = log k @ (if ids = [] then [] else [SendAck False ((back_ack ACK_TYPE_CONSUMED (deliveredMessages k))\<lparr>ak_transaction := Some n\<rparr>)]) @ [CommitTransaction n]"
proof -
  obtain k1 where k1: "TransactionContext_beforeEnd cfg env k = Some (Ok (), k1)" "tx_ok cfg (k1\<lparr>synchronizationRegistered := synchronizationRegistered k\<rparr>) ids"
    "transaction k1 = transaction k" "synchronizationAdded k \<longrightarrow> \<not> synchronizationRegistered k1"
    "log k1 = log k @ (if ids = [] then [] else [SendAck False ((back_ack ACK_TYPE_CONSUMED (deliveredMessages k))\<lparr>ak_transaction := Some n\<rparr>)])"
    using tx_beforeEnd [OF assms(1)] assms(2) by blast
  have a: "synchronizationAdded k" "connectionFailed k1 = None" using assms(1,2) k1(2) by (simp_all add: tx_ok_def)
  then show ?thesis using assms(2,3) k1
    by (simp add: TransactionContext_commit_def end_request_def transmit_def emit_def call_defs is_cms_def keep_cms_def to_amq_def tx_ok_def)
qed

text \<open>
  \<^bold>\<open>C15.\<close> When the broker refuses the commit, \<open>commit\<close> throws, but the consumer is not rolled back: its messages stay
  on the list of delivered ones, nothing is given back and no rollback is sent, although the transaction is over. The next
  transaction that receives anything acknowledges the messages of the refused one again, before its own.
\<close>

theorem refused_commit_acknowledged_again:
  assumes "tx_ok cfg k ids" "ids \<noteq> []" "transaction k = LocalTransaction n" "refused (CommitTransaction n)"
    and "\<And>n d. Dispatched n d \<in> set cs \<Longrightarrow> has_id d" "Acknowledge \<notin> set cs" "\<And>m. \<not> refused' (CommitTransaction m)"
  shows "\<exists>k1 k2 es. Session_commit cfg env env' refused k = Some (Throw CMSException, k1) \<and> map did (rev (deliveredMessages k1)) = ids \<and>
    transaction k1 = NoTransaction \<and> (\<exists>a. log k1 = log k @ [SendAck False a, CommitTransaction n]) \<and>
    run_calls cfg cs k1 = Some k2 \<and> log k2 = log k1 @ es \<and>
    (handed_over es \<noteq> [] \<longrightarrow> (\<exists>m k3 a. Session_commit cfg env env' refused' k2 = Some (Ok (), k3) \<and> log k3 = log k2 @ [SendAck False a, CommitTransaction m] \<and>
       ak_type a = ACK_TYPE_CONSUMED \<and> ak_transaction a = Some m \<and> covers a (ids @ handed_over es)))"
proof -
  have t: "isTransacted cfg k'" for k' using assms(1) by (simp add: tx_ok_def tx_transacted)
  obtain k1 where k1: "TransactionContext_commit cfg env env' refused k = Some (Throw ActiveMQException, k1)" "tx_ok cfg k1 ids" "transaction k1 = NoTransaction"
    "\<exists>a. log k1 = log k @ [SendAck False a, CommitTransaction n]"
    using tx_refused [OF assms(1,3), where refused = refused and env = env and env' = env', OF assms(4)] assms(2) by auto
  have "tx_since cfg (log k1) ids k1" using k1(2) by (auto simp: tx_since_def)
  then obtain k2 where k2: "run_calls cfg cs k1 = Some k2" "tx_since cfg (log k1) ids k2"
    using transacted.run_keeps [of cfg "log k1" ids k1 cs] assms(5,6) by blast
  then obtain es where es: "log k2 = log k1 @ es" "tx_ok cfg k2 (ids @ handed_over es)" "transaction k2 = NoTransaction \<longrightarrow> handed_over es = []"
    by (auto simp: tx_since_def)
  have "\<exists>m k3 a. Session_commit cfg env env' refused' k2 = Some (Ok (), k3) \<and> log k3 = log k2 @ [SendAck False a, CommitTransaction m] \<and>
       ak_type a = ACK_TYPE_CONSUMED \<and> ak_transaction a = Some m \<and> covers a (ids @ handed_over es)" if h: "handed_over es \<noteq> []"
  proof -
    obtain m where m: "transaction k2 = LocalTransaction m" using es(2,3) h by (cases "transaction k2") (simp_all add: tx_ok_def)
    let ?a = "(back_ack ACK_TYPE_CONSUMED (deliveredMessages k2))\<lparr>ak_transaction := Some m\<rparr>"
    obtain k3 where c: "TransactionContext_commit cfg env env' refused' k2 = Some (Ok (), k3)" "log k3 = log k2 @ [SendAck False ?a, CommitTransaction m]"
      using tx_commit [OF es(2) m, of refused' env env'] assms(2,7) by auto
    have "covers ?a (ids @ handed_over es)" by (rule tx_ack_covers [OF es(2)]) (simp add: assms(2))
    then show ?thesis using c t [of k2] by (auto simp: Session_commit_def back_ack_def)
  qed
  moreover have "Session_commit cfg env env' refused k = Some (Throw CMSException, k1)"
    using k1(1) t by (simp add: Session_commit_def to_cms_def)
  moreover have "map did (rev (deliveredMessages k1)) = ids" using k1(2) by (simp add: tx_ok_def)
  ultimately show ?thesis using k1(3,4) k2(1) es(1) by blast
qed

theorem refused_commit_acknowledged_again_witness:
  "\<exists>k k1 k2 k3 a m. run_calls (demo_config SESSION_TRANSACTED False) tx_demo_calls demo_consumer = Some k \<and>
    Session_commit (demo_config SESSION_TRANSACTED False) [] [] (\<lambda>_. True) k = Some (Throw CMSException, k1) \<and>
    run_calls (demo_config SESSION_TRANSACTED False) [Dispatched 1 (demo_dispatch 3 0), ReceiveNoWait] k1 = Some k2 \<and>
    Session_commit (demo_config SESSION_TRANSACTED False) [] [] (\<lambda>_. False) k2 = Some (Ok (), k3) \<and>
    log k3 = log k2 @ [SendAck False a, CommitTransaction m] \<and> covers a (map (\<lambda>q. did (demo_dispatch q 0)) [1, 2, 3])"
proof -
  let ?cfg = "demo_config SESSION_TRANSACTED False"
  let ?cs = "[Dispatched 1 (demo_dispatch 3 0), ReceiveNoWait]"
  have i: "tx_idle ?cfg demo_consumer" unfolding demo_consumer_def by (rule new_tx_idle) (simp_all add: demo_config_def)
  have c: "Dispatched n d \<in> set tx_demo_calls \<Longrightarrow> has_id d" "Dispatched n d \<in> set ?cs \<Longrightarrow> has_id d" "Acknowledge \<notin> set tx_demo_calls" "Acknowledge \<notin> set ?cs" for n d
    using demo_has_id by (auto simp: tx_demo_calls_def)
  have l: "log demo_consumer = []" by (simp add: demo_consumer_def ActiveMQConsumerKernel_new_def)
  have "tx_since ?cfg [] [] demo_consumer" using i l by (auto simp: tx_since_def tx_idle_def)
  then obtain k where k: "run_calls ?cfg tx_demo_calls demo_consumer = Some k" "tx_since ?cfg [] [] k"
    using transacted.run_keeps [of ?cfg "[]" "[]" demo_consumer tx_demo_calls] c(1,3) by blast
  have v: "map_option (\<lambda>k. (transaction k, handed_over (log k))) (run_calls ?cfg tx_demo_calls demo_consumer) =
      Some (LocalTransaction 1, [did (demo_dispatch 1 0), did (demo_dispatch 2 0)])" by code_simp
  have r: "Option.bind (run_calls ?cfg tx_demo_calls demo_consumer) (\<lambda>k. Option.bind (Session_commit ?cfg [] [] (\<lambda>_. True) k) (\<lambda>(r, k1).
      map_option (\<lambda>k2. handed_over (drop (length (log k1)) (log k2))) (run_calls ?cfg ?cs k1))) = Some [did (demo_dispatch 3 0)]" by code_simp
  have t: "tx_ok ?cfg k [did (demo_dispatch 1 0), did (demo_dispatch 2 0)]" "transaction k = LocalTransaction 1"
    using k v by (auto simp: tx_since_def)
  obtain k1 k2 es where e: "Session_commit ?cfg [] [] (\<lambda>_. True) k = Some (Throw CMSException, k1)" "run_calls ?cfg ?cs k1 = Some k2" "log k2 = log k1 @ es"
    "handed_over es \<noteq> [] \<longrightarrow> (\<exists>m k3 a. Session_commit ?cfg [] [] (\<lambda>_. False) k2 = Some (Ok (), k3) \<and> log k3 = log k2 @ [SendAck False a, CommitTransaction m] \<and>
       ak_type a = ACK_TYPE_CONSUMED \<and> ak_transaction a = Some m \<and> covers a ([did (demo_dispatch 1 0), did (demo_dispatch 2 0)] @ handed_over es))"
    using refused_commit_acknowledged_again [OF t(1) _ t(2), of "\<lambda>_. True" ?cs "\<lambda>_. False" "[]" "[]"] c(2,4) by blast
  have "handed_over es = [did (demo_dispatch 3 0)]" using r k(1) e(1-3) by simp
  then show ?thesis using k(1) e by auto
qed

end
