(* ===== verification/Listener_Redispatch.thy ===== *)
theory Listener_Redispatch
  imports Consumer_Transactions
begin

text \<open>
  A listener set on a consumer that has messages waiting: they are taken from it and dispatched to it again by the session
  (\<open>ActiveMQSessionKernel::redispatch\<close>), while the audit of the connection still has them.
\<close>

text \<open>A message checked twice for the same dispatcher is a duplicate the second time.\<close>

lemma checked_twice:
  assumes "msg_destination m = Some dest" "plain (physicalName dest)" "messageId m = Some mid" "producerId mid = Some p"
    "0 \<le> producerSequenceId mid" "0 \<le> depth"
  obtains a b where "ConnectionAudit_isDuplicate j i (Some m) (ConnectionAudit_new depth mx) = (Ok False, a)"
    "ConnectionAudit_isDuplicate j i (Some m) a = (Ok True, b)"
proof -
  let ?ks = "[CheckDuplicate i (Some m), CheckDuplicate i (Some m)]"
  have "\<forall>k \<in> set ?ks. call_ok {ProducerId_toString p} k"
    using assms by (auto simp: call_ok_def good_dest_def producers_def key_of_id_def)
  note r = ca_run_simulates(1) [OF ca_new(1) [OF assms(6)] _ _ this, of j mx]
  have "fst (ca_spec_run ?ks Map.empty) = [Ok False, Ok True]"
    using assms by (simp add: owner_of_def spec_step_def key_of_id_def spec_duplicate_def seen_def)
  then have "fst (ca_run j ?ks (ConnectionAudit_new depth mx)) = [Ok False, Ok True]"
    using r by (simp add: ca_new(2) [OF assms(6)] del: ca_run.simps ca_spec_run.simps)
  then show thesis using that by (auto simp: Let_def case_prod_beta prod_eq_iff)
qed

lemma enqueue_single:
  assumes "ch_inv c" "ch_contents c = []"
  shows "ch_contents (ch_enqueue d c) = [d]"
  using ch.enqueue [OF assms(1), of d] assms(2) by (simp add: ch_ops_def)

lemma sound_frame:
  assumes "sound cfg k" "ch_good (unconsumedMessages k')" "transaction k' = transaction k" "connectionFailed k' = connectionFailed k"
    "isClearDeliveredList k' = isClearDeliveredList k" "inProgressClearRequiredFlag k' = inProgressClearRequiredFlag k"
    "deliveringAcks k' = deliveringAcks k" "previouslyDeliveredMessages k' = previouslyDeliveredMessages k"
  shows "sound cfg k'"
  using assms by (simp add: sound_def ch_good_def)

text \<open>The first dispatch queues the message, setting the listener takes it out again.\<close>

lemma dispatch_queues:
  assumes "sound cfg k" "md_message d = Some m" "\<not> hasListener k" "ch_isRunning (unconsumedMessages k)" "\<not> hasAvailableListener k"
    "\<not> browser cfg" "cc_checkForDuplicates cfg"
    "ConnectionAudit_isDuplicate (junk cfg) (dispatcher cfg) (Some m) (connectionAudit k) = (Ok False, a)"
  shows "\<exists>x. Consumer_dispatch (Suc n) cfg f d k =
    (Ok (), k\<lparr>connectionAudit := a, unconsumedMessages := ch_enqueue d (unconsumedMessages k), dispatchedCount := x\<rparr>)"
  using assms clear_nothing [OF assms(1)]
  by (intro exI [of _ "if (dispatchedCount k + 1) mod 1000 = 0 then 0 else dispatchedCount k + 1"])
    (simp add: sound_def catching_def sequel_def andthen_def with_state_def check_duplicate_def new_delivery_def only_if_def ret_def change_def count_dispatch_def)

lemma listener_takes_out:
  assumes "ch_good (unconsumedMessages k)" "ch_contents (unconsumedMessages k) = [d]" "prefetchSize cfg \<noteq> 0"
  shows "\<exists>c. setMessageListener cfg True True k = (Ok (), k\<lparr>started := True, hasListener := True, unconsumedMessages := c, log := log k @ [Redispatch [d]]\<rparr>) \<and>
    ch_good c \<and> ch_isRunning c"
proof -
  note g = ch_good_steps [OF assms(1)] ch_good_steps [OF ch_good_steps(2) [OF assms(1)]]
  let ?c = "snd (ch_removeAll (ch_stop (unconsumedMessages k)))"
  have r: "fst (ch_removeAll (ch_stop (unconsumedMessages k))) = [d]"
    using ch_lifecycle(5) [of "unconsumedMessages k"] ch_lifecycle(10) [of "ch_stop (unconsumedMessages k)"] g(2) assms(1,2) by (simp add: ch_good_def)
  have "ch_good ?c" by (rule g(8))
  then show ?thesis
    using g(5) assms(3) r ch_running(2) [of ?c] ch_good_steps(1,5) [of ?c]
    by (intro exI [of _ "ch_start ?c"])
      (simp add: setMessageListener_def catching_def call_defs Consumer_stop_def Consumer_start_def redispatch_def emit_def case_prod_beta)
qed

lemma duplicate_poisoned:
  assumes "sound cfg k" "has_id d" "md_message d = Some m" "\<not> browser cfg" "cc_checkForDuplicates cfg" "competitor k \<in> {NoConsumer, ThisConsumer}"
    "ConnectionAudit_isDuplicate (junk cfg) (dispatcher cfg) (Some m) (connectionAudit k) = (Ok True, a)"
  shows "\<exists>k' s. Consumer_dispatch (Suc n) cfg f d k = (Ok (), k') \<and> log k' = log k @ [SendAck s (back_ack ACK_TYPE_POISON [d])]"
proof -
  have t: "\<not> isTransacted cfg k'" if "transaction k' = transaction k" for k' using that sound_transacted [OF assms(1)] by (simp add: isTransacted_def)
  have o: "\<not> ch_isClosed (unconsumedMessages k)" "connectionFailed k = None" using assms(1) by (simp_all add: sound_def)
  let ?s = "\<not> isSendAcksAsync cfg"
  let ?k = "k\<lparr>connectionAudit := a\<rparr>"
  have p: "posionAck cfg d ?k = (Ok (), ?k\<lparr>log := log k @ [SendAck ?s (back_ack ACK_TYPE_POISON [d])]\<rparr>)"
    using o(2) t [of ?k] by (simp add: posionAck_def MessageAck_new_id [OF assms(2)] sendAck_sent call_defs back_ack_def)
  have e: "redeliveryExpectedInCurrentTransaction cfg d b ?k = (Ok False, ?k)" for b
    using t [of ?k] by (simp add: redeliveryExpectedInCurrentTransaction_def call_defs)
  have c: "redeliveryPendingInCompetingTransaction cfg d ?k = (Ok False, ?k)"
    using assms(6) e by (auto simp: redeliveryPendingInCompetingTransaction_def with_state_def ret_def)
  show ?thesis
    using assms(3-5,7) o(1) clear_nothing [OF assms(1)] p e c
    by (simp add: catching_def sequel_def andthen_def with_state_def check_duplicate_def count_dispatch_def change_def)
qed

text \<open>
  \<^bold>\<open>C14.\<close> A message that waits on a running consumer is lost when the client sets a listener: it was recorded by the
  audit when it was queued, setting the listener takes it out and hands it to the session, and when the session dispatches it
  again it is judged a duplicate and sent back as poison. The listener never sees it, whatever the listener does.
\<close>

theorem waiting_message_poisoned:
  assumes "sound cfg k" "\<not> hasListener k" "ch_isRunning (unconsumedMessages k)" "ch_contents (unconsumedMessages k) = []" "\<not> hasAvailableListener k"
    "competitor k \<in> {NoConsumer, ThisConsumer}" "connectionAudit k = ConnectionAudit_new depth mx" "0 \<le> depth"
    and "\<not> browser cfg" "cc_checkForDuplicates cfg" "prefetchSize cfg \<noteq> 0"
    and "md_message d = Some m" "msg_destination m = Some dest" "plain (physicalName dest)" "messageId m = Some mid" "producerId mid = Some p" "0 \<le> producerSequenceId mid"
  shows "\<exists>k1 k2 k3. Consumer_dispatch 1 cfg f d k = (Ok (), k1) \<and> ch_contents (unconsumedMessages k1) = [d] \<and>
    setMessageListener cfg True True k1 = (Ok (), k2) \<and> log k2 = log k @ [Redispatch [d]] \<and> Consumer_dispatch 1 cfg f d k2 = (Ok (), k3) \<and>
    (\<exists>s a. log k3 = log k2 @ [SendAck s a] \<and> ak_type a = ACK_TYPE_POISON \<and> covers a [did d])"
proof -
  obtain a b where ab: "ConnectionAudit_isDuplicate (junk cfg) (dispatcher cfg) (Some m) (ConnectionAudit_new depth mx) = (Ok False, a)"
    "ConnectionAudit_isDuplicate (junk cfg) (dispatcher cfg) (Some m) a = (Ok True, b)"
    by (rule checked_twice [OF assms(13-17,8)])
  have i: "has_id d" using assms(12,15) by (simp add: has_id_def)
  have g: "ch_good (unconsumedMessages k)" "ch_inv (unconsumedMessages k)" using assms(1) by (simp_all add: sound_def ch_good_def)
  obtain x where x: "Consumer_dispatch 1 cfg f d k =
      (Ok (), k\<lparr>connectionAudit := a, unconsumedMessages := ch_enqueue d (unconsumedMessages k), dispatchedCount := x\<rparr>)"
    using dispatch_queues [OF assms(1,12,2,3,5,9,10), of a 0 f] ab(1) assms(7) by auto
  let ?k1 = "k\<lparr>connectionAudit := a, unconsumedMessages := ch_enqueue d (unconsumedMessages k), dispatchedCount := x\<rparr>"
  have q: "ch_good (unconsumedMessages ?k1)" "ch_contents (unconsumedMessages ?k1) = [d]"
    using ch_good_steps(4) [OF g(1) i] enqueue_single [OF g(2) assms(4)] by simp_all
  obtain c where c: "setMessageListener cfg True True ?k1 = (Ok (), ?k1\<lparr>started := True, hasListener := True, unconsumedMessages := c, log := log ?k1 @ [Redispatch [d]]\<rparr>)"
    "ch_good c" using listener_takes_out [OF q assms(11)] by blast
  let ?k2 = "?k1\<lparr>started := True, hasListener := True, unconsumedMessages := c, log := log ?k1 @ [Redispatch [d]]\<rparr>"
  have s: "sound cfg ?k2" by (rule sound_frame [OF assms(1)]) (simp_all add: c(2))
  obtain k3 s' where "Consumer_dispatch 1 cfg f d ?k2 = (Ok (), k3)" "log k3 = log ?k2 @ [SendAck s' (back_ack ACK_TYPE_POISON [d])]"
    using duplicate_poisoned [OF s i assms(12,9,10), of b 0 f] ab(2) assms(6) by auto
  moreover have "covers (back_ack ACK_TYPE_POISON [d]) [did d]" "ak_type (back_ack ACK_TYPE_POISON [d]) = ACK_TYPE_POISON" by (simp_all add: covers_def back_ack_def)
  ultimately show ?thesis using x q(2) c(1) by auto
qed

theorem waiting_message_poisoned_witness:
  "\<exists>k1 k2 k3. Consumer_dispatch 1 (demo_config AUTO_ACKNOWLEDGE True) (\<lambda>_. ret ()) (demo_dispatch 7 0) (Consumer_start demo_consumer) = (Ok (), k1) \<and>
    setMessageListener (demo_config AUTO_ACKNOWLEDGE True) True True k1 = (Ok (), k2) \<and>
    Consumer_dispatch 1 (demo_config AUTO_ACKNOWLEDGE True) (\<lambda>_. ret ()) (demo_dispatch 7 0) k2 = (Ok (), k3) \<and>
    (\<exists>s a. log k3 = log k2 @ [SendAck s a] \<and> ak_type a = ACK_TYPE_POISON)"
proof -
  let ?cfg = "demo_config AUTO_ACKNOWLEDGE True"
  let ?k = "Consumer_start demo_consumer"
  note s = demo_consumer_def ActiveMQConsumerKernel_new_def Consumer_start_def ch_defs fifo_new_def fifo_start_def
  have k: "sound ?cfg ?k" "\<not> hasListener ?k" "ch_isRunning (unconsumedMessages ?k)" "ch_contents (unconsumedMessages ?k) = []" "\<not> hasAvailableListener ?k"
    "competitor ?k \<in> {NoConsumer, ThisConsumer}" "connectionAudit ?k = ConnectionAudit_new 2048 64"
    by (simp_all add: s sound_def demo_config_def ConnectionAudit_default_def DEFAULT_WINDOW_SIZE_def MAXIMUM_PRODUCER_COUNT_def)
  have g: "\<not> browser ?cfg" "cc_checkForDuplicates ?cfg" "prefetchSize ?cfg \<noteq> 0" by (simp_all add: demo_config_def)
  have d: "md_message (demo_dispatch 7 0) = Some (sample QUEUE 7\<lparr>msg_ref := 7, msg_expiration := 0\<rparr>)" by (simp add: demo_dispatch_def)
  have m: "msg_destination (sample QUEUE 7\<lparr>msg_ref := 7, msg_expiration := 0\<rparr>) = Some \<lparr>destinationType = QUEUE, physicalName = ''orders''\<rparr>"
    "plain (physicalName \<lparr>destinationType = QUEUE, physicalName = ''orders''\<rparr>)"
    "messageId (sample QUEUE 7\<lparr>msg_ref := 7, msg_expiration := 0\<rparr>) = Some (MessageId_new\<lparr>producerId := Some \<lparr>connectionId = ''c'', pid_value = 1, sessionId = 1\<rparr>,
       producerSequenceId := 7\<rparr>)"
    "producerId (MessageId_new\<lparr>producerId := Some \<lparr>connectionId = ''c'', pid_value = 1, sessionId = 1\<rparr>, producerSequenceId := 7\<rparr>) =
      Some \<lparr>connectionId = ''c'', pid_value = 1, sessionId = 1\<rparr>"
    "0 \<le> producerSequenceId (MessageId_new\<lparr>producerId := Some \<lparr>connectionId = ''c'', pid_value = 1, sessionId = 1\<rparr>, producerSequenceId := 7\<rparr>)"
    "(0 :: int) \<le> 2048" by (simp_all add: sample_def plain_def isWhitespace_def schar_def NUL_def)
  show ?thesis
    using waiting_message_poisoned [OF k m(6) g d m(1-5), of "\<lambda>_. ret ()"] by blast
qed

end
