(* ===== verification/Response_Correlator.thy ===== *)
theory Response_Correlator
  imports AMQ_Prelude "HOL-Library.AList"
begin

text \<open>
  \<open>activemq/transport/correlator/ResponseCorrelator.cpp\<close> with \<open>FutureResponse.cpp\<close> and what it uses of \<open>TransportFilter.cpp\<close>:
  commands get their numbers, requests wait for the response that carries theirs. Client threads, the thread that reads from
  the broker and the thread that reports a failure are interleaved: an event of the model is what one thread does between
  two accesses to what is shared.
\<close>

section \<open>Data\<close>

text \<open>The answer of a command, or an \<open>ExceptionResponse\<close> with the message of its \<open>BrokerError\<close>, should it have one\<close>

datatype response_body = Reply nat | ExceptionResponse "string option"

record response =
  correlationId :: "32 word"
  response_body :: response_body

datatype incoming = Response response | NoResponse nat

record future_response =
  futureResponse :: "response option"
  responseLatch :: nat
  hasCallback :: bool

datatype transport_event = Sent "32 word" bool nat | ToListener incoming | ErrorToListener string | OnComplete nat response

record correlator =
  nextCommandId :: "32 word"
  requestMap :: "(32 word \<times> nat) list"
  priorError :: "string option"
  futures :: "future_response list"
  filterStarted :: bool
  filterClosed :: bool
  hasTransportListener :: bool
  requestsCopy :: "(32 word \<times> nat) list"
  disposeError :: string
  events :: "transport_event list"

text \<open>
  The map holds references to the futures, which are objects shared with the threads that wait: a future is its index.
  \<open>requestsCopy\<close> and \<open>disposeError\<close> are the local variables of \<open>dispose\<close>.
\<close>

definition ResponseCorrelator_new :: correlator where
  "ResponseCorrelator_new = \<lparr>nextCommandId = 1, requestMap = [], priorError = None, futures = [], filterStarted = False, filterClosed = False,
     hasTransportListener = True, requestsCopy = [], disposeError = [], events = []\<rparr>"

definition FutureResponse_new :: "bool \<Rightarrow> future_response" where
  "FutureResponse_new cb = \<lparr>futureResponse = None, responseLatch = 1, hasCallback = cb\<rparr>"

definition setResponse :: "response \<Rightarrow> nat \<Rightarrow> correlator \<Rightarrow> correlator" where
  "setResponse r f c =
     (let fu = futures c ! f in
      c\<lparr>futures := (futures c)[f := fu\<lparr>futureResponse := Some r, responseLatch := responseLatch fu - 1\<rparr>],
        events := events c @ (if hasCallback fu then [OnComplete f r] else [])\<rparr>)"

section \<open>What the transport reports\<close>

definition filter_onCommand :: "incoming \<Rightarrow> correlator \<Rightarrow> correlator" where
  "filter_onCommand m c = (if \<not> filterStarted c \<or> filterClosed c \<or> \<not> hasTransportListener c then c else c\<lparr>events := events c @ [ToListener m]\<rparr>)"

definition filter_onException :: "string \<Rightarrow> correlator \<Rightarrow> correlator" where
  "filter_onException e c = (if \<not> filterStarted c \<or> filterClosed c \<or> \<not> hasTransportListener c then c else c\<lparr>events := events c @ [ErrorToListener e]\<rparr>)"

definition Correlator_onCommand :: "incoming \<Rightarrow> correlator \<Rightarrow> correlator" where
  "Correlator_onCommand m c =
     (case m of
        NoResponse _ \<Rightarrow> filter_onCommand m c
      | Response r \<Rightarrow>
          (case map_of (requestMap c) (correlationId r) of
             Some f \<Rightarrow> setResponse r f (c\<lparr>requestMap := AList.delete (correlationId r) (requestMap c)\<rparr>)
           | None \<Rightarrow>
               (case response_body r of
                  ExceptionResponse (Some msg) \<Rightarrow> filter_onCommand m (if priorError c = None then c\<lparr>priorError := Some msg\<rparr> else c)
                | _ \<Rightarrow> c)))"

text \<open>\<open>dispose\<close>: the block under the lock, then the answers to the requests of the copy, in any order\<close>

definition dispose_begin :: "string \<Rightarrow> correlator \<Rightarrow> correlator" where
  "dispose_begin e c =
     (if priorError c = None then c\<lparr>priorError := Some e, requestsCopy := requestMap c, requestMap := [], disposeError := e\<rparr> else c)"

definition dispose_answer :: "32 word \<Rightarrow> correlator \<Rightarrow> correlator" where
  "dispose_answer w c =
     (case map_of (requestsCopy c) w of
        None \<Rightarrow> c
      | Some f \<Rightarrow>
          setResponse \<lparr>correlationId = w, response_body = ExceptionResponse (Some (disposeError c))\<rparr> f
            (c\<lparr>requestsCopy := AList.delete w (requestsCopy c)\<rparr>))"

definition Correlator_dispose :: "string \<Rightarrow> correlator \<Rightarrow> correlator" where
  "Correlator_dispose e c = (let c' = dispose_begin e c in fold (\<lambda>(w, _). dispose_answer w) (requestsCopy c') c')"

definition Correlator_onException :: "string \<Rightarrow> correlator \<Rightarrow> correlator" where
  "Correlator_onException e c = filter_onException e (Correlator_dispose e c)"

definition Correlator_doClose :: "correlator \<Rightarrow> correlator" where
  "Correlator_doClose c = Correlator_dispose ''Transport Stopped'' c"

section \<open>The calls of the clients\<close>

datatype request_kind = OneWay | Request | TimedRequest | AsyncRequest bool

datatype outcome = Done | Answer response | Future nat

text \<open>Where a call is: the next thing it does\<close>

datatype phase = Entering | Registering | Sending | Awaiting | Reading | Finalizing "outcome result" | Returned "outcome result"

record request_call =
  call_kind :: request_kind
  call_payload :: nat
  callId :: "32 word option"
  callFuture :: "nat option"
  phase :: phase

definition new_call :: "request_kind \<Rightarrow> nat \<Rightarrow> request_call" where
  "new_call kd p = \<lparr>call_kind = kd, call_payload = p, callId = None, callFuture = None, phase = Entering\<rparr>"

text \<open>What the environment decides: the exception of \<open>next->oneway\<close>, the end of a timed wait, an interruption of the thread\<close>

record surroundings =
  sendFails :: "exn option"
  timedOut :: bool
  interrupted :: bool

text \<open>\<open>checkClosed\<close> and the number of the command\<close>

definition call_enter :: "request_call \<Rightarrow> correlator \<Rightarrow> request_call \<times> correlator" where
  "call_enter k c =
     (if filterClosed c then (k\<lparr>phase := Returned (Throw IOException)\<rparr>, c)
      else (k\<lparr>callId := Some (nextCommandId c), phase := (if call_kind k = OneWay then Sending else Registering)\<rparr>,
            c\<lparr>nextCommandId := nextCommandId c + 1\<rparr>))"

text \<open>
  The future is created and entered into the map, unless the transport has failed before; then the callback of \<open>asyncRequest\<close>
  gets a response whose \<open>BrokerError\<close> carries the exception as its cause and has no message.
\<close>

definition call_register :: "request_call \<Rightarrow> correlator \<Rightarrow> request_call \<times> correlator" where
  "call_register k c =
     (let f = length (futures c); c' = c\<lparr>futures := futures c @ [FutureResponse_new (call_kind k = AsyncRequest True)]\<rparr> in
      case priorError c of
        None \<Rightarrow> (k\<lparr>callFuture := Some f, phase := Sending\<rparr>, c'\<lparr>requestMap := AList.update (the (callId k)) f (requestMap c)\<rparr>)
      | Some e \<Rightarrow>
          (k\<lparr>phase := Returned (Throw IOException)\<rparr>,
           (case call_kind k of AsyncRequest _ \<Rightarrow> setResponse \<lparr>correlationId = 0, response_body = ExceptionResponse (Some [])\<rparr> f c' | _ \<Rightarrow> c')))"

text \<open>
  Whether the entry is removed when sending fails: a \<open>request\<close> has its finalizer, \<open>asyncRequest\<close> catches only
  \<open>decaf::lang::Exception\<close>.
\<close>

definition cleaned_up :: "request_kind \<Rightarrow> exn \<Rightarrow> bool" where
  "cleaned_up kd e =
     (case kd of
        OneWay \<Rightarrow> False
      | AsyncRequest _ \<Rightarrow> e \<notin> {CMSException, CMSIllegalStateException, TransactionInProgressException, TransactionRolledBackException, StdException}
      | _ \<Rightarrow> True)"

definition call_send :: "surroundings \<Rightarrow> request_call \<Rightarrow> correlator \<Rightarrow> request_call \<times> correlator" where
  "call_send env k c =
     (case sendFails env of
        Some e \<Rightarrow> (k\<lparr>phase := (if cleaned_up (call_kind k) e then Finalizing (Throw (io_convert e)) else Returned (Throw (io_convert e)))\<rparr>, c)
      | None \<Rightarrow>
          (k\<lparr>phase := (case call_kind k of OneWay \<Rightarrow> Returned (Ok Done) | AsyncRequest _ \<Rightarrow> Returned (Ok (Future (the (callFuture k)))) | _ \<Rightarrow> Awaiting)\<rparr>,
           c\<lparr>events := events c @ [Sent (the (callId k)) (call_kind k \<noteq> OneWay) (call_payload k)]\<rparr>))"

definition call_await :: "surroundings \<Rightarrow> request_call \<Rightarrow> correlator \<Rightarrow> request_call \<times> correlator" where
  "call_await env k c =
     (if interrupted env then k\<lparr>phase := Finalizing (Throw IOException)\<rparr>
      else if responseLatch (futures c ! the (callFuture k)) = 0 \<or> call_kind k = TimedRequest \<and> timedOut env then k\<lparr>phase := Reading\<rparr>
      else k, c)"

definition call_read :: "request_call \<Rightarrow> correlator \<Rightarrow> request_call \<times> correlator" where
  "call_read k c =
     (k\<lparr>phase := Finalizing (case futureResponse (futures c ! the (callFuture k)) of None \<Rightarrow> Throw IOException | Some r \<Rightarrow> Ok (Answer r))\<rparr>, c)"

text \<open>The destructor of \<open>ResponseFinalizer\<close>, or the catch clause of \<open>asyncRequest\<close>\<close>

definition call_finalize :: "outcome result \<Rightarrow> request_call \<Rightarrow> correlator \<Rightarrow> request_call \<times> correlator" where
  "call_finalize r k c = (k\<lparr>phase := Returned r\<rparr>, c\<lparr>requestMap := AList.delete (the (callId k)) (requestMap c)\<rparr>)"

definition call_step :: "surroundings \<Rightarrow> request_call \<Rightarrow> correlator \<Rightarrow> request_call \<times> correlator" where
  "call_step env k c =
     (case phase k of
        Entering \<Rightarrow> call_enter k c
      | Registering \<Rightarrow> call_register k c
      | Sending \<Rightarrow> call_send env k c
      | Awaiting \<Rightarrow> call_await env k c
      | Reading \<Rightarrow> call_read k c
      | Finalizing r \<Rightarrow> call_finalize r k c
      | Returned _ \<Rightarrow> (k, c))"

section \<open>Interleavings\<close>

record correlator_system =
  correlator :: correlator
  calls :: "request_call list"

text \<open>
  What can happen: a client calls, call \<open>i\<close> goes on, a command arrives, the transport fails or is closed (\<open>Dispose\<close>), the
  thread that disposes answers a request of its copy, the filter is started, stopped, closed.
\<close>

datatype correlator_event =
    Call request_kind nat
  | Step nat surroundings
  | Receive incoming
  | Dispose string
  | AnswerCopy "32 word"
  | Notify string
  | StartFilter
  | StopFilter
  | CloseFilter

definition correlator_event :: "correlator_event \<Rightarrow> correlator_system \<Rightarrow> correlator_system" where
  "correlator_event ev s =
     (case ev of
        Call kd p \<Rightarrow> s\<lparr>calls := calls s @ [new_call kd p]\<rparr>
      | Step i env \<Rightarrow>
          if i < length (calls s)
          then (case call_step env (calls s ! i) (correlator s) of (k, c) \<Rightarrow> s\<lparr>correlator := c, calls := (calls s)[i := k]\<rparr>)
          else s
      | Receive m \<Rightarrow> s\<lparr>correlator := Correlator_onCommand m (correlator s)\<rparr>
      | Dispose e \<Rightarrow> s\<lparr>correlator := dispose_begin e (correlator s)\<rparr>
      | AnswerCopy w \<Rightarrow> s\<lparr>correlator := dispose_answer w (correlator s)\<rparr>
      | Notify e \<Rightarrow> s\<lparr>correlator := filter_onException e (correlator s)\<rparr>
      | StartFilter \<Rightarrow> s\<lparr>correlator := (correlator s)\<lparr>filterStarted := filterStarted (correlator s) \<or> \<not> filterClosed (correlator s)\<rparr>\<rparr>
      | StopFilter \<Rightarrow> s\<lparr>correlator := (correlator s)\<lparr>filterStarted := filterStarted (correlator s) \<and> filterClosed (correlator s)\<rparr>\<rparr>
      | CloseFilter \<Rightarrow> s\<lparr>correlator := (correlator s)\<lparr>filterClosed := True\<rparr>\<rparr>)"

definition correlator_run :: "correlator_event list \<Rightarrow> correlator_system \<Rightarrow> correlator_system" where
  "correlator_run evs s = fold correlator_event evs s"

definition correlator_start :: correlator_system where
  "correlator_start = \<lparr>correlator = ResponseCorrelator_new, calls = []\<rparr>"

text \<open>How many command numbers have been given out; they wrap around at \<open>2 ^ 32\<close>.\<close>

definition ids_given :: "correlator_system \<Rightarrow> nat" where
  "ids_given s = length (filter (\<lambda>k. callId k \<noteq> None) (calls s))"

section \<open>Invariant\<close>

text \<open>A response for the command \<open>w\<close>: one that was received, or the report of the failure\<close>

definition genuine :: "correlator_event list \<Rightarrow> correlator \<Rightarrow> 32 word \<Rightarrow> response \<Rightarrow> bool" where
  "genuine evs c w r \<longleftrightarrow> correlationId r = w \<and>
     (Receive (Response r) \<in> set evs \<or> (\<exists>e. response_body r = ExceptionResponse (Some e) \<and> priorError c = Some e))"

text \<open>A future that is waited for has a genuine response, or will get one.\<close>

definition future_ok :: "correlator_event list \<Rightarrow> correlator \<Rightarrow> 32 word \<Rightarrow> nat \<Rightarrow> bool" where
  "future_ok evs c w f \<longleftrightarrow>
     (case futureResponse (futures c ! f) of
        Some r \<Rightarrow> genuine evs c w r \<and> responseLatch (futures c ! f) = 0
      | None \<Rightarrow> (w, f) \<in> set (requestMap c) \<or> (w, f) \<in> set (requestsCopy c))"

definition waits :: "request_call \<Rightarrow> bool" where
  "waits k \<longleftrightarrow> phase k \<in> {Sending, Awaiting, Reading} \<and> call_kind k \<noteq> OneWay \<or> (\<exists>f. phase k = Returned (Ok (Future f)))"

definition call_ok :: "correlator_event list \<Rightarrow> correlator \<Rightarrow> request_call \<Rightarrow> bool" where
  "call_ok evs c k \<longleftrightarrow>
     (phase k = Entering \<longrightarrow> callId k = None \<and> callFuture k = None) \<and>
     (phase k = Registering \<longrightarrow> callId k \<noteq> None \<and> callFuture k = None \<and> call_kind k \<noteq> OneWay) \<and>
     (phase k \<in> {Awaiting, Reading} \<longrightarrow> call_kind k \<noteq> OneWay) \<and> (\<forall>f. phase k \<noteq> Finalizing (Ok (Future f))) \<and>
     (phase k \<in> {Sending, Awaiting, Reading} \<or> (\<exists>r. phase k = Finalizing r) \<longrightarrow> callId k \<noteq> None) \<and>
     (waits k \<longrightarrow> (\<exists>w f. callId k = Some w \<and> callFuture k = Some f \<and> future_ok evs c w f)) \<and>
     (\<forall>r. phase k \<in> {Finalizing (Ok (Answer r)), Returned (Ok (Answer r))} \<longrightarrow> (\<exists>w. callId k = Some w \<and> genuine evs c w r)) \<and>
     (\<forall>f. callFuture k = Some f \<longrightarrow> f < length (futures c) \<and> (futureResponse (futures c ! f) = None \<longrightarrow> responseLatch (futures c ! f) = 1))"

definition owned :: "correlator_system \<Rightarrow> 32 word \<times> nat \<Rightarrow> bool" where
  "owned s e \<longleftrightarrow> (\<exists>k\<in>set (calls s). callId k = Some (fst e) \<and> callFuture k = Some (snd e))"

definition numbered :: "correlator_system \<Rightarrow> bool" where
  "numbered s \<longleftrightarrow> nextCommandId (correlator s) = of_nat (Suc (ids_given s)) \<and>
     (\<forall>i<length (calls s). \<forall>w. callId (calls s ! i) = Some w \<longrightarrow>
        (\<exists>m. 0 < m \<and> m \<le> ids_given s \<and> w = of_nat m) \<and> (\<forall>j<length (calls s). callId (calls s ! j) = Some w \<longrightarrow> i = j))"

definition correlator_inv :: "correlator_event list \<Rightarrow> correlator_system \<Rightarrow> bool" where
  "correlator_inv evs s \<longleftrightarrow> numbered s \<and>
     (\<forall>k\<in>set (calls s). call_ok evs (correlator s) k) \<and>
     (\<forall>e\<in>set (requestMap (correlator s)) \<union> set (requestsCopy (correlator s)). owned s e) \<and>
     (requestsCopy (correlator s) \<noteq> [] \<longrightarrow> priorError (correlator s) = Some (disposeError (correlator s))) \<and>
     (\<forall>i<length (calls s). \<forall>j<length (calls s). \<forall>f. callFuture (calls s ! i) = Some f \<longrightarrow> callFuture (calls s ! j) = Some f \<longrightarrow> i = j)"

lemma run_snoc [simp]: "correlator_run (evs @ [ev]) s = correlator_event ev (correlator_run evs s)"
  by (simp add: correlator_run_def)

lemma genuine_mono:
  assumes "genuine evs c w r" "set evs \<subseteq> set evs'" "\<And>e. priorError c = Some e \<Longrightarrow> priorError c' = Some e"
  shows "genuine evs' c' w r"
  using assms unfolding genuine_def by blast

text \<open>The correlator changes under a call: its future is left alone, or gets a genuine response.\<close>

lemma call_ok_frame:
  assumes "call_ok evs c k" "set evs \<subseteq> set evs'" "\<And>e. priorError c = Some e \<Longrightarrow> priorError c' = Some e"
    and "\<And>f. callFuture k = Some f \<Longrightarrow> f < length (futures c) \<Longrightarrow> futures c' ! f = futures c ! f \<and> f < length (futures c')"
    and "\<And>w f. callId k = Some w \<Longrightarrow> callFuture k = Some f \<Longrightarrow> futureResponse (futures c ! f) = None \<Longrightarrow> waits k \<Longrightarrow>
      (w, f) \<in> set (requestMap c) \<union> set (requestsCopy c) \<Longrightarrow> (w, f) \<in> set (requestMap c') \<union> set (requestsCopy c')"
  shows "call_ok evs' c' k"
proof -
  note g = genuine_mono [OF _ assms(2,3)]
  have "future_ok evs' c' w f" if "future_ok evs c w f" "callId k = Some w" "callFuture k = Some f" "waits k" for w f
  proof -
    have "f < length (futures c)" using assms(1) that(3) by (simp add: call_ok_def)
    then have "futures c' ! f = futures c ! f" using assms(4) [OF that(3)] by simp
    then show ?thesis using that assms(5) [OF that(2,3)] g by (auto simp: future_ok_def split: option.splits)
  qed
  then show ?thesis using assms(1,4) g unfolding call_ok_def by (metis (no_types, opaque_lifting))
qed

lemma call_ok_answered:
  assumes "call_ok evs c k" "callId k = Some w" "callFuture k = Some f" "set evs \<subseteq> set evs'" "\<And>e. priorError c = Some e \<Longrightarrow> priorError c' = Some e"
    and "genuine evs' c' w r" "futures c' = (futures c)[f := (futures c ! f)\<lparr>futureResponse := Some r, responseLatch := responseLatch (futures c ! f) - 1\<rparr>]"
  shows "call_ok evs' c' k"
proof -
  note g = genuine_mono [OF _ assms(4,5)]
  have l: "f < length (futures c)" "futureResponse (futures c ! f) = None \<Longrightarrow> responseLatch (futures c ! f) = 1" using assms(1,3) by (simp_all add: call_ok_def)
  have f: "futures c' ! f = (futures c ! f)\<lparr>futureResponse := Some r, responseLatch := responseLatch (futures c ! f) - 1\<rparr>" using assms(7) l(1) by simp
  have "future_ok evs' c' w f" if "waits k"
  proof -
    have "future_ok evs c w f" using assms(1-3) that by (auto simp: call_ok_def)
    then show ?thesis using l(2) f assms(6) by (auto simp: future_ok_def split: option.splits)
  qed
  moreover have "f < length (futures c')" "futureResponse (futures c' ! f) \<noteq> None" using l f assms(7) by simp_all
  ultimately show ?thesis using assms(1-3) g unfolding call_ok_def by (metis option.inject)
qed

lemma inv_unique:
  assumes "correlator_inv evs s" "k \<in> set (calls s)" "k' \<in> set (calls s)"
  shows "callFuture k = Some f \<Longrightarrow> callFuture k' = Some f \<Longrightarrow> k = k'" "callId k = Some w \<Longrightarrow> callId k' = Some w \<Longrightarrow> k = k'"
  using assms unfolding correlator_inv_def numbered_def by (metis in_set_conv_nth)+

text \<open>An entry leaves the map, or the copy, and its future gets the response.\<close>

lemma inv_setResponse:
  assumes i: "correlator_inv evs s" and o: "owned s (w, f)" and "set evs \<subseteq> set evs'" "genuine evs' c w r"
    and c: "futures c = futures (correlator s)" "priorError c = priorError (correlator s)" "nextCommandId c = nextCommandId (correlator s)"
      "disposeError c = disposeError (correlator s)"
    and keep: "\<And>w' f'. w' \<noteq> w \<Longrightarrow> (w', f') \<in> set (requestMap (correlator s)) \<union> set (requestsCopy (correlator s)) \<Longrightarrow> (w', f') \<in> set (requestMap c) \<union> set (requestsCopy c)"
    and sub: "set (requestMap c) \<subseteq> set (requestMap (correlator s))" "set (requestsCopy c) \<subseteq> set (requestsCopy (correlator s))"
  shows "correlator_inv evs' (s\<lparr>correlator := setResponse r f c\<rparr>)"
proof -
  let ?c = "setResponse r f c"
  obtain k0 where k0: "k0 \<in> set (calls s)" "callId k0 = Some w" "callFuture k0 = Some f" using o by (auto simp: owned_def)
  have p: "priorError ?c = priorError (correlator s)" "requestMap ?c = requestMap c" "requestsCopy ?c = requestsCopy c"
    "futures ?c = (futures (correlator s))[f := (futures (correlator s) ! f)\<lparr>futureResponse := Some r, responseLatch := responseLatch (futures (correlator s) ! f) - 1\<rparr>]"
    using c by (simp_all add: setResponse_def Let_def)
  have "call_ok evs' ?c k" if k: "k \<in> set (calls s)" for k
  proof (cases "k = k0")
    case True
    have "genuine evs' ?c w r" by (rule genuine_mono [OF assms(4)]) (simp_all add: setResponse_def Let_def)
    then show ?thesis using call_ok_answered [of evs "correlator s" k0 w f evs' ?c r] i k0 assms(3) p True by (simp add: correlator_inv_def)
  next
    case False
    then have n: "callFuture k \<noteq> Some f" "callId k \<noteq> Some w" using inv_unique [OF i k k0(1)] k0 by auto
    show ?thesis by (rule call_ok_frame [of evs "correlator s"]) (use i k n p keep assms(3) in \<open>auto simp: correlator_inv_def\<close>)
  qed
  moreover have "numbered (s\<lparr>correlator := ?c\<rparr>)" using i c by (simp add: correlator_inv_def numbered_def ids_given_def setResponse_def Let_def)
  moreover have "owned (s\<lparr>correlator := ?c\<rparr>) e" if "e \<in> set (requestMap ?c) \<union> set (requestsCopy ?c)" for e
    using i sub that p by (auto simp: correlator_inv_def owned_def)
  moreover have "requestsCopy ?c \<noteq> [] \<longrightarrow> priorError ?c = Some (disposeError ?c)"
    using i sub p c by (auto simp: correlator_inv_def setResponse_def Let_def)
  ultimately show ?thesis using i unfolding correlator_inv_def by simp
qed

text \<open>The correlator changes, but no future does and no entry is lost.\<close>

lemma inv_frame:
  assumes i: "correlator_inv evs s" and "set evs \<subseteq> set evs'" "\<And>e. priorError (correlator s) = Some e \<Longrightarrow> priorError c = Some e"
    "futures c = futures (correlator s)" "nextCommandId c = nextCommandId (correlator s)"
    "requestsCopy c \<noteq> [] \<longrightarrow> priorError c = Some (disposeError c)"
    "set (requestMap c) \<union> set (requestsCopy c) = set (requestMap (correlator s)) \<union> set (requestsCopy (correlator s))"
  shows "correlator_inv evs' (s\<lparr>correlator := c\<rparr>)"
proof -
  have "call_ok evs' c k" if "k \<in> set (calls s)" for k
    by (rule call_ok_frame [of evs "correlator s"]) (use assms that in \<open>auto simp: correlator_inv_def\<close>)
  then show ?thesis using assms unfolding correlator_inv_def numbered_def ids_given_def owned_def by simp
qed

lemma update_same_map: "i < length xs \<Longrightarrow> f x = f (xs ! i) \<Longrightarrow> map f (xs[i := x]) = map f xs"
  by (metis list_update_id map_update)

lemma ids_given_map: "ids_given s = length (filter (\<lambda>w. w \<noteq> None) (map callId (calls s)))"
  by (simp add: ids_given_def filter_map comp_def)

lemma correlator_invD:
  assumes "correlator_inv evs s"
  shows "n < length (calls s) \<Longrightarrow> m < length (calls s) \<Longrightarrow> callFuture (calls s ! n) = Some f \<Longrightarrow> callFuture (calls s ! m) = Some f \<Longrightarrow> n = m"
    "n < length (calls s) \<Longrightarrow> m < length (calls s) \<Longrightarrow> callId (calls s ! n) = Some w \<Longrightarrow> callId (calls s ! m) = Some w \<Longrightarrow> n = m"
    "k \<in> set (calls s) \<Longrightarrow> call_ok evs (correlator s) k"
    "k \<in> set (calls s) \<Longrightarrow> callFuture k = Some f \<Longrightarrow> f < length (futures (correlator s))"
    "e \<in> set (requestMap (correlator s)) \<union> set (requestsCopy (correlator s)) \<Longrightarrow> owned s e"
  using assms by (simp_all add: correlator_inv_def numbered_def call_ok_def)

lemma numberedD:
  "numbered s \<Longrightarrow> a < length (calls s) \<Longrightarrow> b < length (calls s) \<Longrightarrow> callId (calls s ! a) = Some w \<Longrightarrow> callId (calls s ! b) = Some w \<Longrightarrow> a = b"
  by (simp add: numbered_def)

lemma numbered_same:
  assumes "correlator_inv evs s" "n < length (calls s)" "callId k' = callId (calls s ! n)" "nextCommandId c = nextCommandId (correlator s)"
  shows "numbered (s\<lparr>correlator := c, calls := (calls s)[n := k']\<rparr>)"
proof -
  let ?s = "s\<lparr>correlator := c, calls := (calls s)[n := k']\<rparr>"
  have ids: "map callId (calls ?s) = map callId (calls s)" using update_same_map [of n "calls s" callId k'] assms(2,3) by simp
  then have "callId (calls ?s ! j) = callId (calls s ! j)" if "j < length (calls s)" for j using that by (metis length_map nth_map)
  then show ?thesis using assms(1,4) ids unfolding correlator_inv_def numbered_def ids_given_map by simp
qed

text \<open>Call \<open>n\<close> makes a step: it touches at most its own entry and adds futures.\<close>

lemma inv_call:
  assumes i: "correlator_inv evs s" "n < length (calls s)" and k: "calls s ! n = k" and ok: "call_ok evs' c k'" and "set evs \<subseteq> set evs'"
    and c: "futures c = futures (correlator s) @ fs" "priorError c = priorError (correlator s)" "disposeError c = disposeError (correlator s)" "requestsCopy c = requestsCopy (correlator s)"
    and num: "numbered (s\<lparr>correlator := c, calls := (calls s)[n := k']\<rparr>)"
    and k': "callId k' = callId k \<or> callId k = None" "callFuture k' = callFuture k \<or> callFuture k = None \<and> callFuture k' = Some (length (futures (correlator s)))"
    and add: "\<And>w f. (w, f) \<in> set (requestMap c) \<Longrightarrow> (w, f) \<in> set (requestMap (correlator s)) \<or> callId k' = Some w \<and> callFuture k' = Some f"
    and keep: "\<And>w f. callId k' \<noteq> Some w \<Longrightarrow> (w, f) \<in> set (requestMap (correlator s)) \<Longrightarrow> (w, f) \<in> set (requestMap c)"
  shows "correlator_inv evs' (s\<lparr>correlator := c, calls := (calls s)[n := k']\<rparr>)"
proof -
  let ?s = "s\<lparr>correlator := c, calls := (calls s)[n := k']\<rparr>"
  have oth: "callFuture (calls ?s ! j) = (if j = n then callFuture k' else callFuture (calls s ! j))" if "j < length (calls s)" for j using that by simp
  have less: "f < length (futures (correlator s))" if "j < length (calls s)" "callFuture (calls s ! j) = Some f" for j f
    using correlator_invD(4) [OF i(1) nth_mem] that by simp
  have new: "callFuture (calls s ! b) \<noteq> Some f" if "b < length (calls s)" "b \<noteq> n" "callFuture k' = Some f" for b f
    using k'(2) correlator_invD(1) [OF i(1) that(1) i(2)] less [OF that(1)] that k by (cases "callFuture k") auto
  have fut: "a = b" if "a < length (calls s)" "b < length (calls s)" "callFuture (calls ?s ! a) = Some f" "callFuture (calls ?s ! b) = Some f" for a b f
    using that correlator_invD(1) [OF i(1) that(1,2), of f] new [of a f] new [of b f] oth [of a] oth [of b] by (auto split: if_splits)
  have oks: "call_ok evs' c x" if xin: "x \<in> set (calls ?s)" for x
  proof -
    obtain j where j: "j < length (calls s)" "x = calls ?s ! j" using xin in_set_conv_nth [of x "calls ?s"] by auto
    show ?thesis
    proof (cases "j = n")
      case False
      then have x: "x = calls s ! j" using j by simp
      then have nid: "callId k' \<noteq> Some w" if "callId x = Some w" for w using numberedD [OF num, of j n w] that j i(2) False by auto
      show ?thesis
      proof (rule call_ok_frame [of evs "correlator s"])
        show "call_ok evs (correlator s) x" by (rule correlator_invD(3) [OF i(1)]) (use j(1) x in simp)
        show "(w, f) \<in> set (requestMap c) \<union> set (requestsCopy c)"
          if "callId x = Some w" "(w, f) \<in> set (requestMap (correlator s)) \<union> set (requestsCopy (correlator s))" for w f
          using keep [OF nid [OF that(1)], of f] that(2) c(4) by auto
      qed (use assms(5) c(1,2) in \<open>simp_all add: nth_append\<close>)
    qed (use ok j i(2) in simp)
  qed
  have own: "owned ?s e" if "e \<in> set (requestMap c) \<union> set (requestsCopy c)" for e
  proof -
    have entry: "owned ?s (w, f)" if "callId k' = Some w" "callFuture k' = Some f" for w f
      using that i(2) set_update_memI [of n "calls s" k'] by (auto simp: owned_def)
    have "owned ?s e" if ow: "owned s e"
    proof -
      obtain j where j: "j < length (calls s)" "callId (calls s ! j) = Some (fst e)" "callFuture (calls s ! j) = Some (snd e)"
        using ow by (auto simp: owned_def in_set_conv_nth)
      then have "callId (calls ?s ! j) = Some (fst e)" "callFuture (calls ?s ! j) = Some (snd e)" using k k' j i(2) by (cases "j = n"; auto)+
      then show ?thesis using j(1) nth_mem [of j "calls ?s"] unfolding owned_def by auto
    qed
    then show ?thesis using that add [of "fst e" "snd e"] entry [of "fst e" "snd e"] c(4) correlator_invD(5) [OF i(1), of e] by (cases e) auto
  qed
  have cp: "requestsCopy c \<noteq> [] \<longrightarrow> priorError c = Some (disposeError c)" using i(1) c by (simp add: correlator_inv_def)
  have "numbered ?s \<and> (\<forall>k\<in>set (calls ?s). call_ok evs' c k) \<and> (\<forall>e\<in>set (requestMap c) \<union> set (requestsCopy c). owned ?s e) \<and>
    (\<forall>a<length (calls s). \<forall>b<length (calls s). \<forall>f. callFuture (calls ?s ! a) = Some f \<longrightarrow> callFuture (calls ?s ! b) = Some f \<longrightarrow> a = b)"
    using num oks own fut by blast
  then show ?thesis using cp by (simp add: correlator_inv_def)
qed

lemma filter_update_length: "n < length xs \<Longrightarrow> \<not> P (xs ! n) \<Longrightarrow> P x \<Longrightarrow> length (filter P (xs[n := x])) = Suc (length (filter P xs))"
  by (induction xs arbitrary: n) (auto simp: nth_Cons' split: nat.splits)

lemma of_nat_word_inj: "(of_nat a :: 32 word) = of_nat b \<Longrightarrow> a < 2 ^ 32 \<Longrightarrow> b < 2 ^ 32 \<Longrightarrow> a = b"
  by (simp add: word_of_nat_eq_iff take_bit_nat_eq_self)

lemma numbered_next:
  assumes "correlator_inv evs s" "n < length (calls s)" "callId (calls s ! n) = None" "callId k = Some (nextCommandId (correlator s))"
    "nextCommandId c = nextCommandId (correlator s) + 1" and small: "ids_given (s\<lparr>correlator := c, calls := (calls s)[n := k]\<rparr>) < 2 ^ 32"
  shows "numbered (s\<lparr>correlator := c, calls := (calls s)[n := k]\<rparr>)"
proof -
  let ?s = "s\<lparr>correlator := c, calls := (calls s)[n := k]\<rparr>"
  have num: "numbered s" using assms(1) by (simp add: correlator_inv_def)
  have g: "ids_given ?s = Suc (ids_given s)" using filter_update_length [of n "calls s" "\<lambda>k. callId k \<noteq> None" k] assms(2-4) by (simp add: ids_given_def)
  have nx: "nextCommandId (correlator s) = of_nat (Suc (ids_given s))" using num by (simp add: numbered_def)
  have old: "\<exists>m. 0 < m \<and> m \<le> ids_given s \<and> w = of_nat m" if "j < length (calls s)" "callId (calls s ! j) = Some w" for j w
    using num that by (simp add: numbered_def)
  have new: "callId (calls s ! j) \<noteq> Some (of_nat (Suc (ids_given s)))" if j: "j < length (calls s)" for j
  proof
    assume "callId (calls s ! j) = Some (of_nat (Suc (ids_given s)))"
    then obtain m where "m \<le> ids_given s" "(of_nat (Suc (ids_given s)) :: 32 word) = of_nat m" using old [OF j] by blast
    then show False using of_nat_word_inj [of "Suc (ids_given s)" m] small g by linarith
  qed
  have "\<exists>m. 0 < m \<and> m \<le> Suc (ids_given s) \<and> w = of_nat m" if "j < length (calls s)" "callId (calls ?s ! j) = Some w" for j w
    using old [of j w] that assms(2,4) nx by (cases "j = n") (auto intro: le_SucI)
  moreover have "a = b" if "a < length (calls s)" "b < length (calls s)" "callId (calls ?s ! a) = Some w" "callId (calls ?s ! b) = Some w" for a b w
    using numberedD [OF num that(1,2), of w] new [OF that(1)] new [OF that(2)] that assms(4) nx by (cases "a = n"; cases "b = n") auto
  ultimately have "\<forall>j<length (calls s). \<forall>w. callId (calls ?s ! j) = Some w \<longrightarrow>
      (\<exists>m. 0 < m \<and> m \<le> Suc (ids_given s) \<and> w = of_nat m) \<and> (\<forall>b<length (calls s). callId (calls ?s ! b) = Some w \<longrightarrow> j = b)" by blast
  then show ?thesis using g nx assms(5) by (simp add: numbered_def)
qed

section \<open>Every event keeps the invariant\<close>

lemma set_AList_delete: "set (AList.delete w xs) = {e \<in> set xs. fst e \<noteq> w}"
  by (auto simp: AList.delete_eq)

lemma set_AList_update: "(a, b) \<in> set (AList.update w f xs) \<Longrightarrow> (a, b) \<in> set xs \<or> a = w \<and> b = f" "(w, f) \<in> set (AList.update w f xs)"
  "a \<noteq> w \<Longrightarrow> (a, b) \<in> set xs \<Longrightarrow> (a, b) \<in> set (AList.update w f xs)"
  by (induction xs) (auto split: if_splits)

text \<open>Only the phase of the call changes.\<close>

lemma inv_phase:
  assumes "correlator_inv evs s" "n < length (calls s)" "set evs \<subseteq> set evs'" "call_ok evs (correlator s) ((calls s ! n)\<lparr>phase := p\<rparr>)"
    "c = (correlator s)\<lparr>events := es\<rparr>"
  shows "correlator_inv evs' (s\<lparr>correlator := c, calls := (calls s)[n := (calls s ! n)\<lparr>phase := p\<rparr>]\<rparr>)"
proof (rule inv_call [OF assms(1,2) refl _ assms(3), where fs = "[]"])
  show "call_ok evs' c ((calls s ! n)\<lparr>phase := p\<rparr>)" by (rule call_ok_frame [OF assms(4,3)]) (use assms(5) in auto)
qed (use assms(5) numbered_same [OF assms(1,2)] in auto)

lemma inv_enter:
  assumes i: "correlator_inv evs s" "n < length (calls s)" "set evs \<subseteq> set evs'" and e: "phase (calls s ! n) = Entering"
    and r: "call_enter (calls s ! n) (correlator s) = (k, c)" and small: "ids_given (s\<lparr>correlator := c, calls := (calls s)[n := k]\<rparr>) < 2 ^ 32"
  shows "correlator_inv evs' (s\<lparr>correlator := c, calls := (calls s)[n := k]\<rparr>)"
proof (cases "filterClosed (correlator s)")
  case True
  have "call_ok evs (correlator s) ((calls s ! n)\<lparr>phase := Returned (Throw IOException)\<rparr>)"
    using correlator_invD(3) [OF i(1) nth_mem [OF i(2)]] e by (simp add: call_ok_def waits_def)
  then show ?thesis using inv_phase [OF i(1-3), of "Returned (Throw IOException)" "correlator s" "events (correlator s)"] True r by (auto simp: call_enter_def)
next
  case False
  let ?k = "calls s ! n"
  have n: "callId ?k = None" "callFuture ?k = None" using correlator_invD(3) [OF i(1) nth_mem [OF i(2)]] e by (simp_all add: call_ok_def)
  have kc: "k = ?k\<lparr>callId := Some (nextCommandId (correlator s)), phase := (if call_kind ?k = OneWay then Sending else Registering)\<rparr>"
    "c = (correlator s)\<lparr>nextCommandId := nextCommandId (correlator s) + 1\<rparr>" using r False by (auto simp: call_enter_def)
  have num: "numbered (s\<lparr>correlator := c, calls := (calls s)[n := k]\<rparr>)"
    by (rule numbered_next [OF i(1,2) n(1) _ _ small]) (use kc in simp_all)
  show ?thesis
    by (rule inv_call [OF i(1,2) refl _ i(3), where fs = "[]", OF _ _ _ _ _ num]) (use n kc in \<open>auto simp: call_ok_def waits_def\<close>)
qed

lemma inv_register:
  assumes i: "correlator_inv evs s" "n < length (calls s)" "set evs \<subseteq> set evs'" and e: "phase (calls s ! n) = Registering"
    and r: "call_register (calls s ! n) (correlator s) = (k, c)"
  shows "correlator_inv evs' (s\<lparr>correlator := c, calls := (calls s)[n := k]\<rparr>)"
proof -
  let ?k = "calls s ! n" and ?c = "correlator s"
  have ok: "callFuture ?k = None" "callId ?k \<noteq> None" "call_kind ?k \<noteq> OneWay" using correlator_invD(3) [OF i(1) nth_mem [OF i(2)]] e by (simp_all add: call_ok_def)
  then obtain w where w: "callId ?k = Some w" by blast
  let ?f = "length (futures ?c)"
  show ?thesis
  proof (cases "priorError ?c")
    case None
    then have kc: "k = ?k\<lparr>callFuture := Some ?f, phase := Sending\<rparr>"
      "c = ?c\<lparr>futures := futures ?c @ [FutureResponse_new (call_kind ?k = AsyncRequest True)], requestMap := AList.update w ?f (requestMap ?c)\<rparr>"
      using r w by (auto simp: call_register_def Let_def)
    have "call_ok evs' c k" using kc w set_AList_update(2) by (auto simp: call_ok_def waits_def future_ok_def FutureResponse_new_def)
    then show ?thesis
      by (rule inv_call [OF i(1,2) refl _ i(3), where fs = "[FutureResponse_new (call_kind ?k = AsyncRequest True)]"])
        (use ok(1) kc w numbered_same [OF i(1,2)] in \<open>auto dest: set_AList_update(1) intro: set_AList_update(3)\<close>)
  next
    case (Some er)
    then have k: "k = ?k\<lparr>phase := Returned (Throw IOException)\<rparr>" using r by (auto simp: call_register_def Let_def)
    have c: "\<exists>fu es. c = ?c\<lparr>futures := futures ?c @ [fu], events := es\<rparr>"
    proof (cases "call_kind ?k")
      case (AsyncRequest x4)
      then show ?thesis using r Some by (auto simp: call_register_def Let_def setResponse_def)
    qed (use r Some in \<open>auto simp: call_register_def Let_def intro!: exI [of _ "events ?c"]\<close>)
    then obtain fu es where c: "c = ?c\<lparr>futures := futures ?c @ [fu], events := es\<rparr>" by blast
    have "call_ok evs' c k" using k ok by (simp add: call_ok_def waits_def)
    then show ?thesis by (rule inv_call [OF i(1,2) refl _ i(3), where fs = "[fu]"]) (use c k numbered_same [OF i(1,2)] in auto)
  qed
qed

lemma inv_send:
  assumes i: "correlator_inv evs s" "n < length (calls s)" "set evs \<subseteq> set evs'" and e: "phase (calls s ! n) = Sending"
    and r: "call_send env (calls s ! n) (correlator s) = (k, c)"
  shows "correlator_inv evs' (s\<lparr>correlator := c, calls := (calls s)[n := k]\<rparr>)"
proof -
  let ?k = "calls s ! n"
  have ok: "call_ok evs (correlator s) ?k" using correlator_invD(3) [OF i(1) nth_mem [OF i(2)]] .
  have k: "k = ?k\<lparr>phase := phase k\<rparr>" "c = (correlator s)\<lparr>events := events c\<rparr>"
    using r by (auto simp: call_send_def split: option.splits)
  have "call_ok evs (correlator s) (?k\<lparr>phase := phase k\<rparr>)"
    using ok e r by (cases "call_kind ?k"; cases "sendFails env") (auto simp: call_ok_def waits_def call_send_def split: if_splits)
  then show ?thesis using inv_phase [OF i(1-3) _ k(2)] k(1) by metis
qed

lemma inv_await:
  assumes i: "correlator_inv evs s" "n < length (calls s)" "set evs \<subseteq> set evs'" and e: "phase (calls s ! n) = Awaiting"
    and r: "call_await env (calls s ! n) (correlator s) = (k, c)"
  shows "correlator_inv evs' (s\<lparr>correlator := c, calls := (calls s)[n := k]\<rparr>)"
proof -
  let ?k = "calls s ! n"
  have ok: "call_ok evs (correlator s) ?k" using correlator_invD(3) [OF i(1) nth_mem [OF i(2)]] .
  have k: "k = ?k\<lparr>phase := phase k\<rparr>" "c = (correlator s)\<lparr>events := events (correlator s)\<rparr>" "phase k \<in> {Awaiting, Reading, Finalizing (Throw IOException)}"
    using r e by (auto simp: call_await_def split: if_splits)
  have "call_ok evs (correlator s) (?k\<lparr>phase := phase k\<rparr>)" using ok e k(3) by (auto simp: call_ok_def waits_def)
  then show ?thesis using inv_phase [OF i(1-3) _ k(2)] k(1) by metis
qed

lemma inv_read:
  assumes i: "correlator_inv evs s" "n < length (calls s)" "set evs \<subseteq> set evs'" and e: "phase (calls s ! n) = Reading"
    and r: "call_read (calls s ! n) (correlator s) = (k, c)"
  shows "correlator_inv evs' (s\<lparr>correlator := c, calls := (calls s)[n := k]\<rparr>)"
proof -
  let ?k = "calls s ! n"
  have ok: "call_ok evs (correlator s) ?k" using correlator_invD(3) [OF i(1) nth_mem [OF i(2)]] .
  then obtain w f where wf: "callId ?k = Some w" "callFuture ?k = Some f" "future_ok evs (correlator s) w f" using e by (auto simp: call_ok_def waits_def)
  have k: "k = ?k\<lparr>phase := phase k\<rparr>" "c = (correlator s)\<lparr>events := events (correlator s)\<rparr>"
    "phase k = Finalizing (case futureResponse (futures (correlator s) ! f) of None \<Rightarrow> Throw IOException | Some r \<Rightarrow> Ok (Answer r))"
    using r e wf by (auto simp: call_read_def)
  have "call_ok evs (correlator s) (?k\<lparr>phase := phase k\<rparr>)"
    using ok wf k(3) by (auto simp: call_ok_def waits_def future_ok_def split: option.splits)
  then show ?thesis using inv_phase [OF i(1-3) _ k(2)] k(1) by metis
qed

lemma inv_finalize:
  assumes i: "correlator_inv evs s" "n < length (calls s)" "set evs \<subseteq> set evs'" and e: "phase (calls s ! n) = Finalizing res"
    and r: "call_finalize res (calls s ! n) (correlator s) = (k, c)"
  shows "correlator_inv evs' (s\<lparr>correlator := c, calls := (calls s)[n := k]\<rparr>)"
proof -
  let ?k = "calls s ! n"
  have ok: "call_ok evs (correlator s) ?k" using correlator_invD(3) [OF i(1) nth_mem [OF i(2)]] .
  then obtain w where w: "callId ?k = Some w" using e by (auto simp: call_ok_def)
  have kc: "k = ?k\<lparr>phase := Returned res\<rparr>" "c = (correlator s)\<lparr>requestMap := AList.delete w (requestMap (correlator s))\<rparr>"
    using r w by (auto simp: call_finalize_def)
  have "call_ok evs' (correlator s) ?k" by (rule call_ok_frame [OF ok i(3)]) auto
  then have "call_ok evs' c k" using kc e by (auto simp: call_ok_def waits_def genuine_def)
  then show ?thesis
    by (rule inv_call [OF i(1,2) refl _ i(3), where fs = "[]"]) (use kc w numbered_same [OF i(1,2)] in \<open>auto simp: set_AList_delete\<close>)
qed

lemma inv_step:
  assumes i: "correlator_inv evs s" "set evs \<subseteq> set evs'" and small: "ids_given (correlator_event (Step n env) s) < 2 ^ 32"
  shows "correlator_inv evs' (correlator_event (Step n env) s)"
proof (cases "n < length (calls s)")
  case True
  obtain k c where kc: "call_step env (calls s ! n) (correlator s) = (k, c)" by fastforce
  then have e: "correlator_event (Step n env) s = s\<lparr>correlator := c, calls := (calls s)[n := k]\<rparr>" using True by (simp add: correlator_event_def)
  note step = kc [unfolded call_step_def]
  show ?thesis
  proof (cases "phase (calls s ! n)")
    case Entering
    then show ?thesis using inv_enter [OF i(1) True i(2) Entering] small e step by simp
  next
    case Registering
    then show ?thesis using inv_register [OF i(1) True i(2) Registering] e step by simp
  next
    case Sending
    then show ?thesis using inv_send [OF i(1) True i(2) Sending] e step by simp
  next
    case Awaiting
    then show ?thesis using inv_await [OF i(1) True i(2) Awaiting] e step by simp
  next
    case Reading
    then show ?thesis using inv_read [OF i(1) True i(2) Reading] e step by simp
  next
    case (Finalizing r)
    then show ?thesis using inv_finalize [OF i(1) True i(2) Finalizing] e step by simp
  next
    case (Returned r)
    then have "(calls s)[n := k] = calls s" "c = correlator s" using step by auto
    moreover have "correlator_inv evs' (s\<lparr>correlator := correlator s\<rparr>)" by (rule inv_frame [OF i]) (use i(1) in \<open>auto simp: correlator_inv_def\<close>)
    ultimately show ?thesis using e by simp
  qed
next
  case False
  have "correlator_inv evs' (s\<lparr>correlator := correlator s\<rparr>)" by (rule inv_frame [OF i]) (use i(1) in \<open>auto simp: correlator_inv_def\<close>)
  then show ?thesis using False by (simp add: correlator_event_def)
qed

lemma inv_onCommand:
  assumes i: "correlator_inv evs s" "set evs \<subseteq> set evs'" "Receive m \<in> set evs'"
  shows "correlator_inv evs' (s\<lparr>correlator := Correlator_onCommand m (correlator s)\<rparr>)"
proof -
  let ?c = "correlator s"
  have keep: "correlator_inv evs' (s\<lparr>correlator := c\<rparr>)"
    if "futures c = futures ?c" "nextCommandId c = nextCommandId ?c" "requestMap c = requestMap ?c" "requestsCopy c = requestsCopy ?c"
      "disposeError c = disposeError ?c" "priorError c = priorError ?c \<or> priorError ?c = None" for c
  proof (rule inv_frame [OF i(1,2)])
    show "requestsCopy c \<noteq> [] \<longrightarrow> priorError c = Some (disposeError c)" using i(1) that by (auto simp: correlator_inv_def)
  qed (use that in auto)
  show ?thesis
  proof (cases m)
    case (NoResponse p)
    then show ?thesis using keep [of "Correlator_onCommand m ?c"] by (simp add: Correlator_onCommand_def filter_onCommand_def)
  next
    case (Response r)
    show ?thesis
    proof (cases "map_of (requestMap ?c) (correlationId r)")
      case (Some f)
      then have mem: "(correlationId r, f) \<in> set (requestMap ?c)" by (rule map_of_SomeD)
      have g: "genuine evs' (?c\<lparr>requestMap := AList.delete (correlationId r) (requestMap ?c)\<rparr>) (correlationId r) r" using i(3) Response by (simp add: genuine_def)
      show ?thesis using inv_setResponse [OF i(1) correlator_invD(5) [OF i(1)] i(2) g] Some Response mem
        by (auto simp: Correlator_onCommand_def set_AList_delete)
    next
      case None
      then show ?thesis using Response
        by (intro keep) (auto simp: Correlator_onCommand_def filter_onCommand_def split: response_body.splits option.splits)
    qed
  qed
qed

lemma inv_dispose_begin:
  assumes i: "correlator_inv evs s" "set evs \<subseteq> set evs'"
  shows "correlator_inv evs' (s\<lparr>correlator := dispose_begin e (correlator s)\<rparr>)"
  by (rule inv_frame [OF i]) (use i(1) in \<open>auto simp: correlator_inv_def dispose_begin_def\<close>)

lemma inv_dispose_answer:
  assumes i: "correlator_inv evs s" "set evs \<subseteq> set evs'"
  shows "correlator_inv evs' (s\<lparr>correlator := dispose_answer w (correlator s)\<rparr>)"
proof (cases "map_of (requestsCopy (correlator s)) w")
  case None
  have "correlator_inv evs' (s\<lparr>correlator := correlator s\<rparr>)" by (rule inv_frame [OF i]) (use i(1) in \<open>auto simp: correlator_inv_def\<close>)
  then show ?thesis using None by (simp add: dispose_answer_def)
next
  case (Some f)
  let ?c = "correlator s" and ?r = "\<lparr>correlationId = w, response_body = ExceptionResponse (Some (disposeError (correlator s)))\<rparr>"
  have mem: "(w, f) \<in> set (requestsCopy ?c)" using Some by (rule map_of_SomeD)
  then have "priorError ?c = Some (disposeError ?c)" using i(1) by (auto simp: correlator_inv_def)
  then have g: "genuine evs' (?c\<lparr>requestsCopy := AList.delete w (requestsCopy ?c)\<rparr>) w ?r" by (simp add: genuine_def)
  show ?thesis using inv_setResponse [OF i(1) correlator_invD(5) [OF i(1)] i(2) g] Some mem by (auto simp: dispose_answer_def set_AList_delete)
qed

lemma inv_flags:
  assumes i: "correlator_inv evs s" "set evs \<subseteq> set evs'"
  shows "correlator_inv evs' (s\<lparr>correlator := (correlator s)\<lparr>filterStarted := b\<rparr>\<rparr>)" "correlator_inv evs' (s\<lparr>correlator := (correlator s)\<lparr>filterClosed := b\<rparr>\<rparr>)"
    "correlator_inv evs' (s\<lparr>correlator := filter_onException e (correlator s)\<rparr>)"
  by (rule inv_frame [OF i]; use i(1) in \<open>auto simp: correlator_inv_def filter_onException_def\<close>)+

lemma inv_new_call:
  assumes i: "correlator_inv evs s" "set evs \<subseteq> set evs'"
  shows "correlator_inv evs' (s\<lparr>calls := calls s @ [new_call kd p]\<rparr>)"
proof -
  let ?s = "s\<lparr>calls := calls s @ [new_call kd p]\<rparr>"
  have n: "callId (new_call kd p) = None" "callFuture (new_call kd p) = None" "phase (new_call kd p) = Entering" by (simp_all add: new_call_def)
  have "numbered ?s" using i(1) n by (simp add: correlator_inv_def numbered_def ids_given_def nth_append)
  moreover have "call_ok evs' (correlator s) k" if "k \<in> set (calls s)" for k
    by (rule call_ok_frame [OF correlator_invD(3) [OF i(1) that] i(2)]) auto
  moreover have "call_ok evs' (correlator s) (new_call kd p)" using n by (simp add: call_ok_def waits_def)
  moreover have "a = b" if "a < length (calls ?s)" "b < length (calls ?s)" "callFuture (calls ?s ! a) = Some f" "callFuture (calls ?s ! b) = Some f" for a b f
  proof -
    have "a < length (calls s)" "b < length (calls s)" using that n by (auto simp: nth_append less_Suc_eq split: if_splits)
    then show ?thesis using correlator_invD(1) [OF i(1), of a b f] that by (simp add: nth_append)
  qed
  ultimately have "numbered ?s \<and> (\<forall>k\<in>set (calls ?s). call_ok evs' (correlator s) k) \<and>
    (\<forall>a<length (calls ?s). \<forall>b<length (calls ?s). \<forall>f. callFuture (calls ?s ! a) = Some f \<longrightarrow> callFuture (calls ?s ! b) = Some f \<longrightarrow> a = b)" by auto
  then show ?thesis using i(1) by (simp add: correlator_inv_def owned_def)
qed

lemma ids_given_mono: "ids_given s \<le> ids_given (correlator_event ev s)"
proof (cases ev)
  case (Step n env)
  have up: "length (filter P xs) \<le> length (filter P (xs[m := x]))" if "P (xs ! m) \<longrightarrow> P x" for P m x and xs :: "request_call list"
    using that by (induction xs arbitrary: m) (auto simp: nth_Cons' split: nat.splits)
  obtain k c where kc: "call_step env (calls s ! n) (correlator s) = (k, c)" by fastforce
  then have "callId (calls s ! n) \<noteq> None \<longrightarrow> callId k \<noteq> None"
    by (auto simp: call_step_def call_enter_def call_register_def call_send_def call_await_def call_read_def call_finalize_def Let_def split: phase.splits if_splits option.splits)
  then show ?thesis using up [of "\<lambda>k. callId k \<noteq> None" "calls s" n k] kc Step by (auto simp: correlator_event_def ids_given_def)
qed (auto simp: correlator_event_def ids_given_def new_call_def)

lemma inv_event:
  assumes "correlator_inv evs s" "ids_given (correlator_event ev s) < 2 ^ 32"
  shows "correlator_inv (evs @ [ev]) (correlator_event ev s)"
proof -
  have m: "set evs \<subseteq> set (evs @ [ev])" by auto
  show ?thesis
  proof (cases ev)
    case (Step n env)
    then show ?thesis using inv_step [OF assms(1) m] assms(2) by simp
  next
    case (Receive r)
    then show ?thesis using inv_onCommand [OF assms(1) m, of r] by (simp add: correlator_event_def)
  qed (use inv_new_call [OF assms(1) m] inv_dispose_begin [OF assms(1) m] inv_dispose_answer [OF assms(1) m] inv_flags [OF assms(1) m] in \<open>simp_all add: correlator_event_def\<close>)
qed

lemma inv_run:
  assumes "ids_given (correlator_run evs correlator_start) < 2 ^ 32"
  shows "correlator_inv evs (correlator_run evs correlator_start)"
  using assms
proof (induction evs rule: rev_induct)
  case Nil
  then show ?case by (simp add: correlator_run_def correlator_start_def ResponseCorrelator_new_def correlator_inv_def numbered_def ids_given_def)
next
  case (snoc ev evs)
  then show ?case using inv_event [of evs _ ev] ids_given_mono [of "correlator_run evs correlator_start" ev] by simp
qed

section \<open>Properties\<close>

text \<open>
  \<^bold>\<open>C5.\<close> Whatever the interleaving of client threads, incoming commands, failures, closing and timeouts, while fewer than
  \<open>2 ^ 32\<close> command numbers are given out: a request that returns a response returns the one with its own number, and that
  response was received from the transport or is the report of its failure; and no two requests return the response of the
  same number.
\<close>

theorem requests_get_their_response:
  assumes "ids_given (correlator_run evs correlator_start) < 2 ^ 32" "n < length (calls (correlator_run evs correlator_start))"
    "phase (calls (correlator_run evs correlator_start) ! n) = Returned (Ok (Answer r))"
  shows "callId (calls (correlator_run evs correlator_start) ! n) = Some (correlationId r) \<and>
    (Receive (Response r) \<in> set evs \<or>
      (\<exists>e. response_body r = ExceptionResponse (Some e) \<and> priorError (correlator (correlator_run evs correlator_start)) = Some e)) \<and>
    (\<forall>m r'. m < length (calls (correlator_run evs correlator_start)) \<and> phase (calls (correlator_run evs correlator_start) ! m) = Returned (Ok (Answer r')) \<and>
      correlationId r' = correlationId r \<longrightarrow> m = n)"
proof -
  let ?s = "correlator_run evs correlator_start"
  note inv = inv_run [OF assms(1)]
  have own: "callId (calls ?s ! m) = Some (correlationId r') \<and> genuine evs (correlator ?s) (correlationId r') r'"
    if "m < length (calls ?s)" "phase (calls ?s ! m) = Returned (Ok (Answer r'))" for m r'
    using correlator_invD(3) [OF inv nth_mem [OF that(1)]] that(2) by (auto simp: call_ok_def genuine_def)
  have "m = n" if "m < length (calls ?s)" "phase (calls ?s ! m) = Returned (Ok (Answer r'))" "correlationId r' = correlationId r" for m r'
    using correlator_invD(2) [OF inv that(1) assms(2)] own [OF that(1,2)] own [OF assms(2,3)] that(3) by metis
  then show ?thesis using own [OF assms(2,3)] unfolding genuine_def by blast
qed

text \<open>Answering the requests of the copy\<close>

lemma dispose_answer_fields:
  "map_of (requestsCopy c) w = Some f \<Longrightarrow> futures (dispose_answer w c) =
     (futures c)[f := (futures c ! f)\<lparr>futureResponse := Some \<lparr>correlationId = w, response_body = ExceptionResponse (Some (disposeError c))\<rparr>,
       responseLatch := responseLatch (futures c ! f) - 1\<rparr>]"
  "map_of (requestsCopy c) w = None \<Longrightarrow> dispose_answer w c = c"
  "requestsCopy (dispose_answer w c) = AList.delete w (requestsCopy c)" "disposeError (dispose_answer w c) = disposeError c"
proof -
  have "AList.delete w (requestsCopy c) = requestsCopy c" if "map_of (requestsCopy c) w = None" using that by (simp add: map_of_eq_None_iff)
  then show "requestsCopy (dispose_answer w c) = AList.delete w (requestsCopy c)" "disposeError (dispose_answer w c) = disposeError c"
    by (simp_all add: dispose_answer_def setResponse_def Let_def split: option.split)
qed (simp_all add: dispose_answer_def setResponse_def Let_def)

lemma dispose_leaves:
  assumes "\<forall>(w, f')\<in>set (requestsCopy c). f' \<noteq> f"
  shows "futures (fold dispose_answer ks c) ! f = futures c ! f"
  using assms
proof (induction ks arbitrary: c)
  case (Cons w ks)
  show ?case
  proof (cases "map_of (requestsCopy c) w")
    case (Some f')
    then have "f' \<noteq> f" using Cons.prems by (auto dest: map_of_SomeD)
    then show ?thesis using Cons.IH [of "dispose_answer w c"] Cons.prems Some by (auto simp: dispose_answer_fields set_AList_delete)
  qed (use Cons in \<open>simp add: dispose_answer_fields\<close>)
qed simp

lemma dispose_answers:
  assumes "map_of (requestsCopy c) w = Some f" "f < length (futures c)" "\<forall>(w', f')\<in>set (requestsCopy c). f' = f \<longrightarrow> w' = w" "w \<in> set ks"
  shows "futures (fold dispose_answer ks c) ! f =
    (futures c ! f)\<lparr>futureResponse := Some \<lparr>correlationId = w, response_body = ExceptionResponse (Some (disposeError c))\<rparr>, responseLatch := responseLatch (futures c ! f) - 1\<rparr>"
  using assms
proof (induction ks arbitrary: c)
  case (Cons v ks)
  show ?case
  proof (cases "v = w")
    case True
    have "\<forall>(w', f')\<in>set (requestsCopy (dispose_answer w c)). f' \<noteq> f" using Cons.prems(1,3) by (auto simp: dispose_answer_fields set_AList_delete)
    then show ?thesis using dispose_leaves [of "dispose_answer w c" f ks] True Cons.prems(1,2) by (simp add: dispose_answer_fields)
  next
    case False
    have "futures (dispose_answer v c) ! f = futures c ! f \<and> length (futures (dispose_answer v c)) = length (futures c)"
    proof (cases "map_of (requestsCopy c) v")
      case (Some f')
      then have "f' \<noteq> f" using Cons.prems(3) False by (auto dest: map_of_SomeD)
      then show ?thesis using Some by (simp add: dispose_answer_fields)
    qed (simp add: dispose_answer_fields)
    moreover have "map_of (requestsCopy (dispose_answer v c)) w = Some f" using Cons.prems(1) False by (simp add: dispose_answer_fields delete_conv')
    ultimately show ?thesis using Cons.IH [of "dispose_answer v c"] Cons.prems False by (auto simp: dispose_answer_fields set_AList_delete)
  qed
qed simp

definition calm :: surroundings where
  "calm = \<lparr>sendFails = None, timedOut = False, interrupted = False\<rparr>"

text \<open>What thread \<open>n\<close> still has to do once it is woken up\<close>

definition go_on :: "nat \<Rightarrow> correlator_system \<Rightarrow> correlator_system" where
  "go_on n = correlator_run [Step n calm, Step n calm, Step n calm]"

lemma answered_returns:
  assumes "n < length (calls s)" "phase (calls s ! n) = Awaiting" "callFuture (calls s ! n) = Some f"
    "futureResponse (futures (correlator s) ! f) = Some r" "responseLatch (futures (correlator s) ! f) = 0"
  shows "phase (calls (go_on n s) ! n) = Returned (Ok (Answer r))"
  using assms by (simp add: go_on_def correlator_run_def correlator_event_def call_step_def call_await_def call_read_def call_finalize_def calm_def)

text \<open>A request that waits has its entry in the map, and no other entry has its number or its future.\<close>

lemma waiting_entry:
  assumes "correlator_inv evs s" "n < length (calls s)" "phase (calls s ! n) = Awaiting" "futureResponse (futures (correlator s) ! the (callFuture (calls s ! n))) = None"
    "priorError (correlator s) = None"
  obtains w f where "callId (calls s ! n) = Some w" "callFuture (calls s ! n) = Some f" "map_of (requestMap (correlator s)) w = Some f" "f < length (futures (correlator s))"
    "responseLatch (futures (correlator s) ! f) = 1" "\<forall>(w', f')\<in>set (requestMap (correlator s)). f' = f \<longrightarrow> w' = w"
proof -
  let ?k = "calls s ! n"
  have k: "?k \<in> set (calls s)" using assms(2) by simp
  have copy: "requestsCopy (correlator s) = []" using assms(1,5) by (auto simp: correlator_inv_def)
  obtain w f where wf: "callId ?k = Some w" "callFuture ?k = Some f" "future_ok evs (correlator s) w f" "f < length (futures (correlator s))"
    "responseLatch (futures (correlator s) ! f) = 1"
    using correlator_invD(3) [OF assms(1) k] assms(3,4) by (auto simp: call_ok_def waits_def)
  then have mem: "(w, f) \<in> set (requestMap (correlator s))" using assms(4) copy by (simp add: future_ok_def)
  have owner: "f' = f \<longleftrightarrow> w' = w" if e: "(w', f') \<in> set (requestMap (correlator s))" for w' f'
  proof -
    obtain k' where k': "k' \<in> set (calls s)" "callId k' = Some w'" "callFuture k' = Some f'" using correlator_invD(5) [OF assms(1), of "(w', f')"] e by (auto simp: owned_def)
    then show ?thesis using inv_unique [OF assms(1) k k'(1)] wf(1,2) by auto
  qed
  obtain f' where "map_of (requestMap (correlator s)) w = Some f'" using weak_map_of_SomeI [OF mem] by blast
  moreover then have "f' = f" using owner [of w f'] map_of_SomeD by fast
  ultimately show thesis using that wf owner by blast
qed

lemma Correlator_dispose_fold: "Correlator_dispose e c = fold dispose_answer (map fst (requestsCopy (dispose_begin e c))) (dispose_begin e c)"
proof -
  have "(\<lambda>(w :: 32 word, _ :: nat). dispose_answer w) = dispose_answer \<circ> fst" by auto
  then show ?thesis by (simp add: Correlator_dispose_def Let_def fold_map)
qed

text \<open>
  \<^bold>\<open>C6.\<close> No request is forgotten: in any reachable state, as long as no error was recorded, a request that still waits is
  woken by the response that carries its number and returns exactly that response; and when the transport fails, or is
  closed, it returns an \<open>ExceptionResponse\<close> with its own number and the message of the failure.
\<close>

theorem waiting_request_answered:
  assumes "ids_given (correlator_run evs correlator_start) < 2 ^ 32" "correlator_run evs correlator_start = s" "n < length (calls s)"
    "phase (calls s ! n) = Awaiting" "futureResponse (futures (correlator s) ! the (callFuture (calls s ! n))) = None" "priorError (correlator s) = None"
  shows "\<exists>w. callId (calls s ! n) = Some w \<and>
    (\<forall>r. correlationId r = w \<longrightarrow>
      phase (calls (go_on n (s\<lparr>correlator := Correlator_onCommand (Response r) (correlator s)\<rparr>)) ! n) = Returned (Ok (Answer r))) \<and>
    (\<forall>e. phase (calls (go_on n (s\<lparr>correlator := Correlator_onException e (correlator s)\<rparr>)) ! n) =
      Returned (Ok (Answer \<lparr>correlationId = w, response_body = ExceptionResponse (Some e)\<rparr>))) \<and>
    phase (calls (go_on n (s\<lparr>correlator := Correlator_doClose (correlator s)\<rparr>)) ! n) =
      Returned (Ok (Answer \<lparr>correlationId = w, response_body = ExceptionResponse (Some ''Transport Stopped'')\<rparr>))"
proof -
  let ?c = "correlator s"
  have inv: "correlator_inv evs s" using inv_run [OF assms(1)] assms(2) by simp
  obtain w f where wf: "callId (calls s ! n) = Some w" "callFuture (calls s ! n) = Some f" "map_of (requestMap ?c) w = Some f" "f < length (futures ?c)"
    "responseLatch (futures ?c ! f) = 1" "\<forall>(w', f')\<in>set (requestMap ?c). f' = f \<longrightarrow> w' = w" using waiting_entry [OF inv assms(3-6)] .
  have received: "phase (calls (go_on n (s\<lparr>correlator := Correlator_onCommand (Response r) ?c\<rparr>)) ! n) = Returned (Ok (Answer r))" if "correlationId r = w" for r
    by (rule answered_returns [where f = f]) (use that wf assms(3,4) in \<open>simp_all add: Correlator_onCommand_def setResponse_def Let_def\<close>)
  have failed: "futures (Correlator_dispose e ?c) ! f = (futures ?c ! f)\<lparr>futureResponse := Some \<lparr>correlationId = w, response_body = ExceptionResponse (Some e)\<rparr>, responseLatch := 0\<rparr>" for e
    using dispose_answers [of "dispose_begin e ?c" w f "map fst (requestMap ?c)"] wf assms(6) map_of_SomeD [OF wf(3)]
    by (force simp: Correlator_dispose_fold dispose_begin_def)
  have ret: "phase (calls (go_on n (s\<lparr>correlator := c\<rparr>)) ! n) = Returned (Ok (Answer \<lparr>correlationId = w, response_body = ExceptionResponse (Some e)\<rparr>))"
    if "futures c = futures (Correlator_dispose e ?c)" for c e
    by (rule answered_returns [where f = f]) (use that wf assms(3,4) failed in simp_all)
  show ?thesis using wf(1) received ret by (auto simp: Correlator_onException_def Correlator_doClose_def filter_onException_def)
qed

text \<open>A request that nothing but its own response can wake up any more\<close>

definition stranded :: "nat \<Rightarrow> 32 word \<Rightarrow> nat \<Rightarrow> correlator_system \<Rightarrow> bool" where
  "stranded n w f s \<longleftrightarrow> n < length (calls s) \<and> phase (calls s ! n) = Awaiting \<and> call_kind (calls s ! n) = Request \<and>
     callId (calls s ! n) = Some w \<and> callFuture (calls s ! n) = Some f \<and> f < length (futures (correlator s)) \<and>
     responseLatch (futures (correlator s) ! f) = 1 \<and> priorError (correlator s) \<noteq> None \<and> requestsCopy (correlator s) = []"

definition rescues :: "nat \<Rightarrow> 32 word \<Rightarrow> correlator_event \<Rightarrow> bool" where
  "rescues n w ev \<longleftrightarrow> (case ev of Receive (Response r) \<Rightarrow> correlationId r = w | Step m env \<Rightarrow> m = n \<and> interrupted env | _ \<Rightarrow> False)"

lemma stranded_frame:
  assumes "stranded n w f s" "futures c ! f = futures (correlator s) ! f" "length (futures (correlator s)) \<le> length (futures c)"
    "priorError c \<noteq> None" "requestsCopy c = []"
  shows "stranded n w f (s\<lparr>correlator := c\<rparr>)" "m \<noteq> n \<Longrightarrow> stranded n w f (s\<lparr>correlator := c, calls := (calls s)[m := k]\<rparr>)"
  using assms by (simp_all add: stranded_def)

lemma stranded_step:
  assumes "stranded n w f s" "\<not> rescues n w (Step m env)"
  shows "stranded n w f (correlator_event (Step m env) s)"
proof (cases "m < length (calls s) \<and> m \<noteq> n")
  case True
  obtain k c where kc: "call_step env (calls s ! m) (correlator s) = (k, c)" by fastforce
  have s: "f < length (futures (correlator s))" "priorError (correlator s) \<noteq> None" "requestsCopy (correlator s) = []" using assms(1) by (simp_all add: stranded_def)
  have "futures c ! f = futures (correlator s) ! f \<and> length (futures (correlator s)) \<le> length (futures c) \<and> priorError c \<noteq> None \<and> requestsCopy c = []"
    using kc s
    by (auto simp: call_step_def call_enter_def call_register_def call_send_def call_await_def call_read_def call_finalize_def setResponse_def Let_def nth_append
        split: phase.splits if_splits option.splits request_kind.splits)
  then show ?thesis using stranded_frame(2) [OF assms(1)] True kc by (simp add: correlator_event_def)
next
  case False
  show ?thesis
  proof (cases "m = n")
    case True
    then have "call_step env (calls s ! n) (correlator s) = (calls s ! n, correlator s)" using assms by (simp add: stranded_def rescues_def call_step_def call_await_def)
    then show ?thesis using assms(1) True by (simp add: correlator_event_def stranded_def)
  qed (use False assms(1) in \<open>simp add: correlator_event_def\<close>)
qed

lemma stranded_event:
  assumes "stranded n w f s" "correlator_inv evs s" "\<not> rescues n w ev"
  shows "stranded n w f (correlator_event ev s)"
proof (cases ev)
  case (Call kd p)
  then show ?thesis using assms(1) by (simp add: correlator_event_def stranded_def nth_append)
next
  case (Step m env)
  then show ?thesis using stranded_step assms by blast
next
  case (Receive m)
  let ?c = "Correlator_onCommand m (correlator s)"
  have "futures ?c ! f = futures (correlator s) ! f \<and> length (futures (correlator s)) \<le> length (futures ?c) \<and> priorError ?c \<noteq> None \<and> requestsCopy ?c = []"
  proof (cases "\<exists>r f'. m = Response r \<and> map_of (requestMap (correlator s)) (correlationId r) = Some f'")
    case True
    then obtain r f' where r: "m = Response r" "map_of (requestMap (correlator s)) (correlationId r) = Some f'" by blast
    obtain k where k: "k \<in> set (calls s)" "callId k = Some (correlationId r)" "callFuture k = Some f'"
      using correlator_invD(5) [OF assms(2), of "(correlationId r, f')"] map_of_SomeD [OF r(2)] by (auto simp: owned_def)
    have "f' \<noteq> f" using inv_unique(1) [OF assms(2) k(1), of "calls s ! n" f'] k assms(1,3) r(1) Receive by (auto simp: stranded_def rescues_def)
    then show ?thesis using r assms(1) by (simp add: Correlator_onCommand_def setResponse_def Let_def stranded_def)
  next
    case False
    then show ?thesis using assms(1)
      by (cases m) (auto simp: Correlator_onCommand_def filter_onCommand_def stranded_def split: option.splits response_body.splits)
  qed
  then show ?thesis using stranded_frame(1) [OF assms(1)] Receive by (simp add: correlator_event_def)
qed (use assms(1) in \<open>auto simp: correlator_event_def stranded_def dispose_begin_def dispose_answer_def filter_onException_def\<close>)

lemma ids_given_run: "ids_given t \<le> ids_given (correlator_run es t)"
proof (induction es arbitrary: t)
  case (Cons ev es)
  then show ?case using order_trans [OF ids_given_mono [of t ev]] by (simp add: correlator_run_def)
qed (simp add: correlator_run_def)

lemma stranded_run:
  assumes "stranded n w f (correlator_run evs correlator_start)" "ids_given (correlator_run (evs @ evs') correlator_start) < 2 ^ 32" "\<forall>ev\<in>set evs'. \<not> rescues n w ev"
  shows "stranded n w f (correlator_run (evs @ evs') correlator_start)"
  using assms(2,3)
proof (induction evs' rule: rev_induct)
  case Nil
  then show ?case using assms(1) by simp
next
  case (snoc ev evs')
  have r: "correlator_run (evs @ evs' @ [ev]) correlator_start = correlator_event ev (correlator_run (evs @ evs') correlator_start)" by (simp add: correlator_run_def)
  then have "ids_given (correlator_run (evs @ evs') correlator_start) < 2 ^ 32" using snoc.prems(1) ids_given_mono [of "correlator_run (evs @ evs') correlator_start" ev] by simp
  then show ?case using stranded_event [OF snoc.IH inv_run] snoc.prems(2) r by simp
qed


text \<open>A request that has been sent and waits, its response, and a response to nobody\<close>

definition demo_sent :: "correlator_event list" where
  "demo_sent = [Call Request 7, Step 0 calm, Step 0 calm, Step 0 calm]"

definition demo_reply :: response where "demo_reply = \<lparr>correlationId = 1, response_body = Reply 5\<rparr>"

definition demo_stray :: response where "demo_stray = \<lparr>correlationId = 9, response_body = ExceptionResponse (Some ''late'')\<rparr>"

definition demo_waiting :: correlator_system where "demo_waiting = correlator_run demo_sent correlator_start"

lemmas correlator_eval = demo_sent_def demo_reply_def demo_stray_def correlator_run_def correlator_event_def correlator_start_def ResponseCorrelator_new_def new_call_def
  call_step_def call_enter_def call_register_def call_send_def call_await_def call_read_def call_finalize_def calm_def FutureResponse_new_def
  Correlator_onCommand_def filter_onCommand_def setResponse_def dispose_begin_def dispose_answer_def ids_given_def Let_def

lemma demo_waiting_eq:
  "demo_waiting = \<lparr>correlator = \<lparr>nextCommandId = 2, requestMap = [(1, 0)], priorError = None, futures = [FutureResponse_new False], filterStarted = False, filterClosed = False,
     hasTransportListener = True, requestsCopy = [], disposeError = [], events = [Sent 1 True 7]\<rparr>,
     calls = [\<lparr>call_kind = Request, call_payload = 7, callId = Some 1, callFuture = Some 0, phase = Awaiting\<rparr>]\<rparr>"
  by (simp add: demo_waiting_def correlator_eval)

theorem requests_get_their_response_witness:
  "\<exists>evs. phase (calls (correlator_run evs correlator_start) ! 0) = Returned (Ok (Answer demo_reply)) \<and>
    callId (calls (correlator_run evs correlator_start) ! 0) = Some 1"
proof -
  let ?evs = "demo_sent @ [Receive (Response demo_reply), Step 0 calm, Step 0 calm, Step 0 calm]"
  have "ids_given (correlator_run ?evs correlator_start) < 2 ^ 32" by (simp add: correlator_eval)
  moreover have "0 < length (calls (correlator_run ?evs correlator_start))" by (simp add: correlator_eval)
  moreover have p: "phase (calls (correlator_run ?evs correlator_start) ! 0) = Returned (Ok (Answer demo_reply))" by (simp add: correlator_eval)
  ultimately have "callId (calls (correlator_run ?evs correlator_start) ! 0) = Some (correlationId demo_reply)"
    using requests_get_their_response [of ?evs 0 demo_reply] by blast
  then show ?thesis using p by (auto simp: demo_reply_def intro!: exI [of _ ?evs])
qed

lemma demo_waits:
  "ids_given (correlator_run demo_sent correlator_start) < 2 ^ 32" "0 < length (calls demo_waiting)" "phase (calls demo_waiting ! 0) = Awaiting"
  "call_kind (calls demo_waiting ! 0) = Request" "futureResponse (futures (correlator demo_waiting) ! the (callFuture (calls demo_waiting ! 0))) = None"
  "priorError (correlator demo_waiting) = None" "callId (calls demo_waiting ! 0) = Some 1"
  by (simp_all add: demo_waiting_def [symmetric] demo_waiting_eq ids_given_def FutureResponse_new_def)

theorem waiting_request_answered_witness:
  "phase (calls (go_on 0 (demo_waiting\<lparr>correlator := Correlator_onCommand (Response demo_reply) (correlator demo_waiting)\<rparr>)) ! 0) = Returned (Ok (Answer demo_reply)) \<and>
   phase (calls (go_on 0 (demo_waiting\<lparr>correlator := Correlator_onException ''down'' (correlator demo_waiting)\<rparr>)) ! 0) =
     Returned (Ok (Answer \<lparr>correlationId = 1, response_body = ExceptionResponse (Some ''down'')\<rparr>))"
  using waiting_request_answered [OF demo_waits(1) demo_waiting_def [symmetric] demo_waits(2,3,5,6)] demo_waits(7) by (simp add: demo_reply_def)


end
