(* ===== verification/Spec2Isabelle.thy ===== *)
theory Spec2Isabelle
  imports Dispatch_Channel Bit_Set_Queries Connection_Audit Open_Wire_Roundtrip Primitive_Marshaller Failover_Restore Session_Executor Listener_Redispatch Response_Correlator
begin

text \<open>
  A verification development for the C++ messaging client in \<open>src/activemq-cpp/src/main\<close>: the \<open>activemq\<close> client
  library and the parts of the class library \<open>decaf\<close> that its core rests on. File names below are relative to that directory.

  \<^bold>\<open>The program.\<close> A client sends commands to a broker and receives messages from it. A command is written by the wire format
  (\<open>activemq/wireformat/openwire\<close>) through data streams (\<open>decaf/io\<close>); requests get a number and wait for the response that
  carries it (\<open>activemq/transport/correlator\<close>); the failover transport notes the commands that build up
  state in the broker and replays them to the next broker (\<open>activemq/state\<close>). A message that arrives is handed to the executor
  of its session, whose thread dispatches it to the consumer (\<open>activemq/core\<close>); the consumer asks the audit of the
  connection whether it is a duplicate, queues it in a dispatch channel or calls the listener, and acknowledges it, at once or
  at the end of a transaction.

  \<^bold>\<open>Conventions.\<close> \<open>AMQ_Prelude\<close>: an exception is a value of \<open>exn\<close>, a result is \<open>exn + 'a\<close>; an access outside an array
  is the value \<open>MemoryFault\<close>, which no catch clause sees. An operation takes the state and returns it changed; what
  another class of the program sees of it is in the state record. Machine integers are \<open>32 word\<close>, \<open>64 word\<close> where the width
  matters, else \<open>int\<close> with the range as a hypothesis. What the mutex of an object covers is one step.
  Uninitialised memory, the clock, host name and port, the broker's answers and the actions of other threads during a wait are arguments.

  \<^bold>\<open>Data structures.\<close>
  \<^item> \<open>Dispatch_Channel\<close>: \<open>FifoMessageDispatchChannel\<close> and \<open>SimplePriorityMessageDispatchChannel\<close>. The locale
    \<open>dispatch_channel\<close> is the interface the consumer uses; both classes interpret it. Order, conservation of messages,
    highest priority first, silence after \<open>close\<close>, and when a blocking dequeue returns nothing.
  \<^item> \<open>Pop_Count\<close>, \<open>Bit_Set\<close>, \<open>Bit_Set_Queries\<close>: \<open>decaf/util/BitSet.cpp\<close>, with the allocated array apart from the size the
    code believes it has. Every operation refines the operation on sets of numbers, for indices below \<open>2 ^ 31 - 64\<close>
    (beyond, the length computation overflows); what goes wrong when \<open>OR\<close> replaces the array.
  \<^item> \<open>String_Utils\<close>, \<open>Stl_Map\<close>: the comparison of strings and of identifiers, and the ordered maps keyed by them (locale
    \<open>comparison\<close>). The comparison is a total preorder on strings without white space, which ignores the case of letters.
  \<^item> \<open>LRU_Cache\<close>: \<open>LinkedHashMap\<close> and \<open>LRUCache\<close>, interface \<open>bounded_store\<close>.
  \<^item> \<open>Identifiers\<close>: producer and message ids, and the generator of ids, whose ids are distinct in every interleaving.

  \<^bold>\<open>Duplicates.\<close> \<open>Message_Audit\<close>, \<open>Connection_Audit\<close>: \<open>ActiveMQMessageAudit\<close> and \<open>ConnectionAudit\<close> refine a table of the
  numbers seen per producer, per queue and per dispatcher, for up to 10000 producers (the capacity of the cache).

  \<^bold>\<open>The wire.\<close> The locales \<open>codec\<close>, \<open>tight_codec\<close>, \<open>loose_codec\<close>, \<open>marshalled\<close> and \<open>nested_objects\<close> state what a writer
  and a reader of a value promise; each layer is an interpretation that rests on the one below.
  \<^item> \<open>Data_Streams\<close>, \<open>Data_Codecs\<close>: \<open>DataOutputStream\<close> and \<open>DataInputStream\<close>, over every way the underlying stream splits its
    deliveries or breaks. A string takes at most 65535 bytes in its encoding.
  \<^item> \<open>Boolean_Stream\<close>: \<open>BooleanStream\<close>, whose positions are \<open>short\<close>s; at most 262128 flags.
  \<^item> \<open>Marshal_Contracts\<close>, \<open>Base_Marshaller\<close>: the fields of \<open>BaseDataStreamMarshaller.cpp\<close>. An ASCII string in the tight
    encoding, and an array, has at most 32767 elements; an error has at most \<open>n\<close> causes, \<open>n\<close> the room on the stack.
  \<^item> \<open>Wire_Programs\<close>, \<open>Wire_Contracts\<close>, \<open>Generated_Marshallers\<close>: the 61 generated marshallers as lists of the statements
    of their five functions. A check on these lists (\<open>matched\<close>) implies the contract, and every registered class passes it.
  \<^item> \<open>Open_Wire_Format\<close>, \<open>Open_Wire_Roundtrip\<close>: frames, dispatch on the type byte and nested objects; commands survive the wire in
    both encodings and every version. The argument \<open>n\<close> bounds the nesting of objects, which the protocol makes finite.
  \<^item> \<open>Primitive_Marshaller\<close>: \<open>PrimitiveTypesMarshaller.cpp\<close> and the property hooks of messages.

  \<^bold>\<open>Requests.\<close> \<open>Response_Correlator\<close>: \<open>ResponseCorrelator.cpp\<close>, \<open>FutureResponse.cpp\<close>. A call of a client is a program of atomic
  steps, a run is a list of events of all threads. Requests get their own response, none is forgotten, up to \<open>2 ^ 32\<close> numbers
  given out; and a response that nobody waits for, if it is an error, breaks this.

  \<^bold>\<open>Failover.\<close> \<open>State_Tracker\<close>: \<open>ConnectionStateTracker.cpp\<close> and the states it keeps. \<open>Broker_View\<close> is the abstract
  machine, a broker as partial functions; tracking refines it. \<open>Tracker_Invariant\<close>, \<open>Tracker_Replay\<close> and
  \<open>Failover_Restore\<close>: what is replayed after any run of commands, answers and failovers builds up the same broker again,
  open transactions included. Ids that differ in the case of letters are one id, and have no white space.

  \<^bold>\<open>Consumers and sessions.\<close>
  \<^item> \<open>Consumer_Kernel\<close>: \<open>ActiveMQConsumerKernel.cpp\<close> with what it uses of the session, the connection, the transaction context
    and the redelivery policy. The log records what is sent and handed to the client. A dispatch that calls itself again has
    the argument \<open>n\<close> as its depth; the loop of \<open>dequeue\<close> gets one more pass than there are messages, and is shown to
    return with it. Lists \<open>env\<close> say what other threads do in each wait.
  \<^item> \<open>Consumer_Acks\<close>, \<open>Consumer_Contract\<close>, \<open>Consumer_Runs\<close>: the locale \<open>working_consumer\<close> states what consuming and
    acknowledging one message promise about an invariant and derives that every call keeps it; it is interpreted outside of
    transactions and, in \<open>Consumer_Transactions\<close>, inside. Acknowledgements cover exactly what was handed over.
  \<^item> \<open>Consumer_Rollback\<close>, \<open>Consumer_Transactions\<close>: rollback, and \<open>ActiveMQTransactionContext.cpp\<close> for local transactions of a
    session with one consumer, accepted and refused commits.
  \<^item> \<open>Listener_Redispatch\<close>: messages waiting when a listener is set.
  \<^item> \<open>Session_Executor\<close>: \<open>ActiveMQSessionExecutor.cpp\<close> and \<open>DedicatedTaskRunner.cpp\<close> as a step relation over all
    interleavings: messages reach the consumers in order and no wake-up is lost.

  \<^bold>\<open>Not modelled.\<close> Threads, locks, sockets, TLS, timers and file access of \<open>decaf\<close>: the platform, whose guarantees are the
  steps of the models. The reconnection loop of the failover transport and the inactivity monitor: timing and random choice.
  XA transactions, message bodies and their accessors, the creation of connections, sessions and producers, the
  templates (\<open>cmsutil\<close>), STOMP, logging: further code over the modelled parts. Hash buckets, iterators and views of the
  collections: what the modelled code uses of them is modelled beside it. The copy of a message made for the client and its
  transformer are left out of the consumer. Several consumers in one transaction are not modelled.
\<close>

end
